(* ===== verification/Prelude.thy ===== *)
theory Prelude
  imports Main "HOL-Library.Code_Target_Numeral" "HOL-Library.Char_ord" "HOL-Library.List_Lexorder" "HOL-Library.Sublist"
begin

text \<open>
  Shared ground of the development: the exceptions the Python code raises, the way SQLite
  tables and Python dictionaries are represented, text and bytes, and the generic lemmas
  about them that the component theories use.

  \<^item> A Python call that can raise returns \<open>exn + 'a\<close>: \<open>Inl\<close> carries the exception,
    \<open>Inr\<close> the value. The constructors of \<open>exn\<close> are the exception classes the engine
    distinguishes; their string is the first argument of the exception.
  \<^item> A SQLite table is the list of its rows in rowid order. \<open>INSERT OR IGNORE\<close>,
    \<open>INSERT OR REPLACE\<close>, \<open>UPDATE\<close> and \<open>DELETE\<close> are the functions below; a
    table that was never created is the empty list.
  \<^item> A Python dictionary is an association list in insertion order with distinct keys.
  \<^item> A Python string is a \<open>string\<close> whose characters are code points (the code points
    below 256); \<open>utf8\<close> is \<open>str.encode()\<close> on them. Bytes are lists of \<open>char\<close> as
    well, one per byte.
\<close>

named_theorems table_simps \<open>equations of the table operations\<close>
named_theorems inv_intros \<open>invariant preservation\<close>

section \<open>Exceptions\<close>

datatype exn =
    GraphUnavailable string     \<comment> \<open>engine/graph.py, a subclass of ValueError\<close>
  | ReviewRetry string          \<comment> \<open>engine/review.py, a subclass of GraphUnavailable\<close>
  | JudgeProviderError string   \<comment> \<open>engine/codex.py, a subclass of RuntimeError\<close>
  | ResolutionError string      \<comment> \<open>engine/payload.py, a subclass of ValueError\<close>
  | AuthorityError string       \<comment> \<open>authority_state.py, a subclass of ValueError\<close>
  | ValueError string
  | UnicodeError string         \<comment> \<open>UnicodeDecodeError, a subclass of ValueError\<close>
  | OSError string              \<comment> \<open>the string is the class, e.g. FileNotFoundError\<close>
  | KeyError string
  | TypeError string
  | SqliteError string
  | PriorityYield
  | BackgroundDisabled
  | WorkBudget
  | OtherError string

type_synonym 'a res = "exn + 'a"

text \<open>The \<open>except\<close> clauses of the code, by the class they name.\<close>

fun is_graph_unavailable :: "exn \<Rightarrow> bool" where
  "is_graph_unavailable (GraphUnavailable m) = True"
| "is_graph_unavailable (ReviewRetry m) = True"
| "is_graph_unavailable e = False"

fun is_value_error :: "exn \<Rightarrow> bool" where
  "is_value_error (GraphUnavailable m) = True"
| "is_value_error (ReviewRetry m) = True"
| "is_value_error (ResolutionError m) = True"
| "is_value_error (AuthorityError m) = True"
| "is_value_error (ValueError m) = True"
| "is_value_error (UnicodeError m) = True"
| "is_value_error e = False"

fun exn_text :: "exn \<Rightarrow> string" where
  "exn_text (GraphUnavailable m) = m"
| "exn_text (ReviewRetry m) = m"
| "exn_text (JudgeProviderError m) = m"
| "exn_text (ResolutionError m) = m"
| "exn_text (AuthorityError m) = m"
| "exn_text (ValueError m) = m"
| "exn_text (UnicodeError m) = m"
| "exn_text (OSError m) = m"
| "exn_text (KeyError m) = m"
| "exn_text (TypeError m) = m"
| "exn_text (SqliteError m) = m"
| "exn_text (OtherError m) = m"
| "exn_text PriorityYield = []"
| "exn_text BackgroundDisabled = []"
| "exn_text WorkBudget = []"

section \<open>Text and bytes\<close>

type_synonym bytes = "char list"

definition utf8_char :: "char \<Rightarrow> bytes" where
  "utf8_char c = (let n = (of_char c :: nat) in
     if n < 128 then [c] else [char_of (192 + n div 64), char_of (128 + n mod 64)])"

definition utf8 :: "string \<Rightarrow> bytes" where
  "utf8 s = concat (map utf8_char s)"

text \<open>
  \<open>bytes.decode('utf-8')\<close>, for the code points below 256: \<open>None\<close> is a
  \<open>UnicodeDecodeError\<close>; longer sequences stand for characters that are not represented.
\<close>

fun utf8_decode :: "bytes \<Rightarrow> string option" where
  "utf8_decode [] = Some []"
| "utf8_decode [b] = (if (of_char b :: nat) < 128 then Some [b] else None)"
| "utf8_decode (b # c # cs) =
     (if (of_char b :: nat) < 128 then map_option ((#) b) (utf8_decode (c # cs))
      else if ((of_char b :: nat) = 194 \<or> (of_char b :: nat) = 195) \<and> 128 \<le> (of_char c :: nat) \<and> (of_char c :: nat) < 192
      then map_option ((#) (char_of ((of_char b - 192) * 64 + (of_char c - 128) :: nat))) (utf8_decode cs)
      else None)"

lemma utf8_decode_ascii: "(of_char b :: nat) < 128 \<Longrightarrow> utf8_decode (b # bs) = map_option ((#) b) (utf8_decode bs)"
  by (cases bs) auto

lemma utf8_char_high:
  assumes "\<not> (of_char c :: nat) < 128"
  shows "utf8_decode (utf8_char c @ bs) = map_option ((#) c) (utf8_decode bs)"
proof -
  let ?n = "of_char c :: nat"
  have lt: "?n < 256" by simp
  have d: "?n div 64 = 2 \<or> ?n div 64 = 3" using assms lt by linarith
  have m: "?n mod 64 < 64" by simp
  have whole: "?n div 64 * 64 + ?n mod 64 = ?n" by (rule div_mult_mod_eq)
  have b1: "(of_char (char_of (192 + ?n div 64) :: char) :: nat) = 192 + ?n div 64" using d by auto
  have b2: "(of_char (char_of (128 + ?n mod 64) :: char) :: nat) = 128 + ?n mod 64" using m by simp
  have u: "utf8_char c = [char_of (192 + ?n div 64), char_of (128 + ?n mod 64)]"
    using assms by (simp add: utf8_char_def Let_def)
  have v: "(192 + ?n div 64 - 192) * 64 + (128 + ?n mod 64 - 128) = ?n" using whole by simp
  show ?thesis unfolding u using d m unfolding append.simps utf8_decode.simps b1 b2 v by auto
qed

lemma utf8_decode_utf8 [simp]: "utf8_decode (utf8 s) = Some s"
proof (induction s)
  case (Cons c s)
  have "utf8 (c # s) = utf8_char c @ utf8 s" by (simp add: utf8_def)
  then show ?case using Cons utf8_char_high [of c "utf8 s"]
    by (cases "(of_char c :: nat) < 128") (simp_all add: utf8_decode_ascii utf8_char_def)
qed (simp add: utf8_def)

definition starts_with :: "string \<Rightarrow> string \<Rightarrow> bool" where
  "starts_with p s \<longleftrightarrow> take (length p) s = p"

text \<open>\<open>str.count\<close>: non-overlapping occurrences, left to right.\<close>

function count_sub :: "'a list \<Rightarrow> 'a list \<Rightarrow> nat" where
  "count_sub pat s =
     (if pat = [] then Suc (length s)
      else if length s < length pat then 0
      else if take (length pat) s = pat then Suc (count_sub pat (drop (length pat) s))
      else count_sub pat (tl s))"
  by pat_completeness auto
termination
  by (relation "measure (\<lambda>(p, s). length s)") (auto simp: neq_Nil_conv)

declare count_sub.simps [simp del]

text \<open>\<open>str.split(c)\<close> for a one-character separator.\<close>

fun split_on :: "'a \<Rightarrow> 'a list \<Rightarrow> 'a list list" where
  "split_on c [] = [[]]"
| "split_on c (x # xs) =
     (if x = c then [] # split_on c xs
      else (case split_on c xs of [] \<Rightarrow> [[x]] | w # ws \<Rightarrow> (x # w) # ws))"

fun join_with :: "string \<Rightarrow> string list \<Rightarrow> string" where
  "join_with sep [] = []"
| "join_with sep [x] = x"
| "join_with sep (x # y # ys) = x @ sep @ join_with sep (y # ys)"

lemma split_on_nonempty [simp]: "split_on c s \<noteq> []"
  by (cases s) (auto split: list.splits)

lemma join_split: "join_with [c] (split_on c s) = s"
proof (induction s)
  case Nil
  then show ?case by simp
next
  case (Cons x xs)
  obtain w ws where *: "split_on c xs = w # ws"
    using split_on_nonempty [of c xs] by (cases "split_on c xs") auto
  with Cons show ?case by (cases ws) auto
qed

lemma split_on_no_sep: "w \<in> set (split_on c s) \<Longrightarrow> c \<notin> set w"
proof (induction s arbitrary: w)
  case Nil
  then show ?case by simp
next
  case (Cons x xs)
  obtain v vs where *: "split_on c xs = v # vs"
    using split_on_nonempty [of c xs] by (cases "split_on c xs") auto
  have "c \<notin> set v" using Cons.IH [of v] * by simp
  with Cons.prems * Cons.IH show ?case by (auto split: if_splits)
qed

section \<open>Tables\<close>

definition ins_ignore :: "('r \<Rightarrow> 'k) \<Rightarrow> 'r \<Rightarrow> 'r list \<Rightarrow> 'r list" where
  "ins_ignore key r t = (if list_ex (\<lambda>x. key x = key r) t then t else t @ [r])"

definition ins_replace :: "('r \<Rightarrow> 'k) \<Rightarrow> 'r \<Rightarrow> 'r list \<Rightarrow> 'r list" where
  "ins_replace key r t = filter (\<lambda>x. key x \<noteq> key r) t @ [r]"

definition upd_where :: "('r \<Rightarrow> bool) \<Rightarrow> ('r \<Rightarrow> 'r) \<Rightarrow> 'r list \<Rightarrow> 'r list" where
  "upd_where p f t = map (\<lambda>x. if p x then f x else x) t"

definition del_where :: "('r \<Rightarrow> bool) \<Rightarrow> 'r list \<Rightarrow> 'r list" where
  "del_where p t = filter (\<lambda>x. \<not> p x) t"

abbreviation keys_unique :: "('r \<Rightarrow> 'k) \<Rightarrow> 'r list \<Rightarrow> bool" where
  "keys_unique key t \<equiv> distinct (map key t)"

lemma keys_unique_eq: "keys_unique key t \<Longrightarrow> x \<in> set t \<Longrightarrow> y \<in> set t \<Longrightarrow> key x = key y \<Longrightarrow> x = y"
  by (auto simp: distinct_map inj_on_def)

lemma ins_ignore_present [table_simps]: "key r \<in> key ` set t \<Longrightarrow> ins_ignore key r t = t"
  by (auto simp: ins_ignore_def list_ex_iff)

lemma ins_ignore_absent [table_simps]: "key r \<notin> key ` set t \<Longrightarrow> ins_ignore key r t = t @ [r]"
  by (auto simp: ins_ignore_def list_ex_iff image_iff)

lemma ins_ignore_unique [inv_intros]: "keys_unique key t \<Longrightarrow> keys_unique key (ins_ignore key r t)"
  by (cases "key r \<in> key ` set t") (auto simp: table_simps)

lemma ins_ignore_prefix: "prefix t (ins_ignore key r t)"
  by (auto simp: ins_ignore_def)

lemma set_ins_ignore: "set (ins_ignore key r t) \<subseteq> insert r (set t)"
  by (auto simp: ins_ignore_def)

lemma ins_ignore_mono: "set t \<subseteq> set (ins_ignore key r t)"
  by (auto simp: ins_ignore_def)

lemma ins_ignore_key: "key r \<in> key ` set (ins_ignore key r t)"
  by (cases "key r \<in> key ` set t") (auto simp: table_simps)

lemma filter_ins_ignore: "\<not> P r \<Longrightarrow> filter P (ins_ignore key r t) = filter P t"
  by (simp add: ins_ignore_def)

lemma ins_replace_unique [inv_intros]: "keys_unique key t \<Longrightarrow> keys_unique key (ins_replace key r t)"
  by (auto simp: ins_replace_def distinct_map inj_on_def)

lemma set_ins_replace: "set (ins_replace key r t) = insert r {x \<in> set t. key x \<noteq> key r}"
  by (auto simp: ins_replace_def)

lemma upd_where_unique [inv_intros]:
  assumes "keys_unique key t" and "\<And>x. key (f x) = key x"
  shows "keys_unique key (upd_where p f t)"
proof -
  have "map key (upd_where p f t) = map key t"
    using assms(2) by (simp add: upd_where_def)
  with assms(1) show ?thesis by simp
qed

lemma set_upd_where: "set (upd_where p f t) = {if p x then f x else x | x. x \<in> set t}"
  by (auto simp: upd_where_def)

lemma upd_where_hit: "x \<in> set t \<Longrightarrow> p x \<Longrightarrow> f x \<in> set (upd_where p f t)"
  by (force simp: upd_where_def)

lemma upd_where_miss: "x \<in> set t \<Longrightarrow> \<not> p x \<Longrightarrow> x \<in> set (upd_where p f t)"
  by (force simp: upd_where_def)

lemma del_where_unique [inv_intros]: "keys_unique key t \<Longrightarrow> keys_unique key (del_where p t)"
  by (simp add: del_where_def distinct_map_filter)

section \<open>Dictionaries\<close>

text \<open>\<open>d[k] = v\<close>: a known key keeps its position, a new key goes last.\<close>

fun dict_set :: "'k \<Rightarrow> 'v \<Rightarrow> ('k \<times> 'v) list \<Rightarrow> ('k \<times> 'v) list" where
  "dict_set k v [] = [(k, v)]"
| "dict_set k v ((k', v') # d) = (if k = k' then (k, v) # d else (k', v') # dict_set k v d)"

lemma map_of_dict_set [simp]: "map_of (dict_set k v d) = (map_of d)(k \<mapsto> v)"
  by (induction d) (auto simp: fun_eq_iff)

lemma fst_dict_set: "fst ` set (dict_set k v d) = insert k (fst ` set d)"
  by (induction k v d rule: dict_set.induct) auto

lemma dict_set_same: "map_of d k = Some v \<Longrightarrow> dict_set k v d = d"
  by (induction d) (auto split: if_splits)

lemma dict_set_new: "k \<notin> fst ` set d \<Longrightarrow> dict_set k v d = d @ [(k, v)]"
  by (induction d) auto

lemma set_dict_set_subset: "set (dict_set k v d) \<subseteq> insert (k, v) (set d)"
  by (induction k v d rule: dict_set.induct) auto

lemma set_dict_set: "distinct (map fst d) \<Longrightarrow> set (dict_set k v d) = insert (k, v) {x \<in> set d. fst x \<noteq> k}"
proof (induction d)
  case (Cons x d)
  then show ?case by (cases x) (auto simp: image_iff split: if_splits)
qed simp

lemma dict_set_unique [inv_intros]: "distinct (map fst d) \<Longrightarrow> distinct (map fst (dict_set k v d))"
proof (induction d)
  case Nil
  then show ?case by simp
next
  case (Cons x d)
  then show ?case by (cases x) (auto simp: fst_dict_set image_iff)
qed

text \<open>The dictionary comprehension \<open>{key(x): x for x in xs}\<close> read back as its values.\<close>

definition dict_values :: "('k \<times> 'v) list \<Rightarrow> 'v list" where
  "dict_values d = map snd d"

section \<open>Lists\<close>

lemma find_Some_in: "find P xs = Some x \<Longrightarrow> x \<in> set xs \<and> P x"
  by (induction xs) (auto split: if_splits)

lemma find_None_all: "find P xs = None \<longleftrightarrow> (\<forall>x \<in> set xs. \<not> P x)"
  by (induction xs) auto

lemma find_filter: "find P xs = (case filter P xs of [] \<Rightarrow> None | x # _ \<Rightarrow> Some x)"
  by (induction xs) auto

lemma find_unique:
  "keys_unique key t \<Longrightarrow> x \<in> set t \<Longrightarrow> find (\<lambda>y. key y = key x) t = Some x"
  by (induction t) (auto simp: image_iff)

lemma successively_Cons_conv:
  "successively P (x # xs) \<longleftrightarrow> (xs = [] \<or> P x (hd xs)) \<and> successively P xs"
  by (cases xs) auto

lemma map_sum_Inr: "map_sum id f r = Inr y \<longleftrightarrow> (\<exists>x. r = Inr x \<and> y = f x)"
  by (cases r) auto

end
