(* ===== verification/Effects.thy ===== *)
theory Effects
  imports Prelude
begin

text \<open>
  Code that threads state through many calls that can fail. An action takes the state and
  returns its result, or the exception it raised, with the state left behind: a transaction
  that was committed before the exception stays committed. \<open>hoare P m Q E\<close> says what holds
  after a return (\<open>Q\<close>, of the value and the state) and after an exception (\<open>E\<close>).
\<close>

type_synonym ('s, 'a) act = "'s \<Rightarrow> 'a res \<times> 's"

definition ret :: "'a \<Rightarrow> ('s, 'a) act" where
  "ret x s = (Inr x, s)"

definition raise :: "exn \<Rightarrow> ('s, 'a) act" where
  "raise e s = (Inl e, s)"

definition bind :: "('s, 'a) act \<Rightarrow> ('a \<Rightarrow> ('s, 'b) act) \<Rightarrow> ('s, 'b) act" where
  "bind m f s = (case m s of (Inl e, t) \<Rightarrow> (Inl e, t) | (Inr x, t) \<Rightarrow> f x t)"

definition gets :: "('s \<Rightarrow> 'a) \<Rightarrow> ('s, 'a) act" where
  "gets f s = (Inr (f s), s)"

definition modify :: "('s \<Rightarrow> 's) \<Rightarrow> ('s, unit) act" where
  "modify f s = (Inr (), f s)"

text \<open>A pure computation that can fail, and \<open>try m except e: h e\<close>.\<close>

definition pure :: "'a res \<Rightarrow> ('s, 'a) act" where
  "pure r s = (r, s)"

definition attempt :: "('s, 'a) act \<Rightarrow> (exn \<Rightarrow> ('s, 'a) act) \<Rightarrow> ('s, 'a) act" where
  "attempt m h s = (case m s of (Inl e, t) \<Rightarrow> h e t | (Inr x, t) \<Rightarrow> (Inr x, t))"

text \<open>A loop over a list that carries an accumulator.\<close>

fun each :: "('x \<Rightarrow> 'a \<Rightarrow> ('s, 'a) act) \<Rightarrow> 'x list \<Rightarrow> 'a \<Rightarrow> ('s, 'a) act" where
  "each f [] a = ret a"
| "each f (x # xs) a = bind (f x a) (each f xs)"

text \<open>\<open>try: m finally: c\<close>; an exception of the closing action replaces the result.\<close>

definition ensure :: "('s, 'a) act \<Rightarrow> ('s, unit) act \<Rightarrow> ('s, 'a) act" where
  "ensure m c s = (let (r, t) = m s in case c t of (Inl e, u) \<Rightarrow> (Inl e, u) | (Inr x, u) \<Rightarrow> (r, u))"

section \<open>Reasoning\<close>

definition hoare :: "('s \<Rightarrow> bool) \<Rightarrow> ('s, 'a) act \<Rightarrow> ('a \<Rightarrow> 's \<Rightarrow> bool) \<Rightarrow> ('s \<Rightarrow> bool) \<Rightarrow> bool" where
  "hoare P m Q E \<longleftrightarrow> (\<forall>s. P s \<longrightarrow> (case m s of (Inl e, t) \<Rightarrow> E t | (Inr x, t) \<Rightarrow> Q x t))"

text \<open>The invariant holds again however the action ends.\<close>

abbreviation keeps :: "('s \<Rightarrow> bool) \<Rightarrow> ('s, 'a) act \<Rightarrow> bool" where
  "keeps I m \<equiv> hoare I m (\<lambda>x. I) I"

named_theorems act_rules \<open>rules for actions\<close>

lemma hoare_ret [act_rules]: "(\<And>s. P s \<Longrightarrow> Q x s) \<Longrightarrow> hoare P (ret x) Q E"
  by (simp add: hoare_def ret_def)

lemma hoare_raise [act_rules]: "(\<And>s. P s \<Longrightarrow> E s) \<Longrightarrow> hoare P (raise e) Q E"
  by (simp add: hoare_def raise_def)

lemma hoare_gets [act_rules]: "(\<And>s. P s \<Longrightarrow> Q (f s) s) \<Longrightarrow> hoare P (gets f) Q E"
  by (simp add: hoare_def gets_def)

lemma hoare_modify [act_rules]: "(\<And>s. P s \<Longrightarrow> Q () (f s)) \<Longrightarrow> hoare P (modify f) Q E"
  by (simp add: hoare_def modify_def)

lemma hoare_pure [act_rules]:
  "(\<And>s x. P s \<Longrightarrow> r = Inr x \<Longrightarrow> Q x s) \<Longrightarrow> (\<And>s. P s \<Longrightarrow> E s) \<Longrightarrow> hoare P (pure r) Q E"
  by (auto simp: hoare_def pure_def split: sum.split)

lemma hoare_bind:
  "hoare P m R E \<Longrightarrow> (\<And>x. hoare (R x) (f x) Q E) \<Longrightarrow> hoare P (bind m f) Q E"
  by (fastforce simp: hoare_def bind_def split: prod.splits sum.splits)

lemma hoare_attempt:
  "hoare P m Q R \<Longrightarrow> (\<And>e. hoare R (h e) Q E) \<Longrightarrow> hoare P (attempt m h) Q E"
  by (fastforce simp: hoare_def attempt_def split: prod.splits sum.splits)

lemma hoare_each:
  "(\<And>x a. x \<in> set xs \<Longrightarrow> hoare (I a) (f x a) I E) \<Longrightarrow> hoare (I a) (each f xs a) I E"
  by (induction xs arbitrary: a) (auto intro!: act_rules hoare_bind)

lemma hoare_conseq:
  "hoare P' m Q' E' \<Longrightarrow> (\<And>s. P s \<Longrightarrow> P' s) \<Longrightarrow> (\<And>x s. Q' x s \<Longrightarrow> Q x s) \<Longrightarrow> (\<And>s. E' s \<Longrightarrow> E s) \<Longrightarrow> hoare P m Q E"
  unfolding hoare_def by (fastforce split: prod.splits sum.splits)

lemma hoare_post: "hoare P m Q' E \<Longrightarrow> (\<And>x s. Q' x s \<Longrightarrow> Q x s) \<Longrightarrow> hoare P m Q E"
  by (rule hoare_conseq)

lemma hoare_both: "hoare P m Q E \<Longrightarrow> hoare P m Q' E \<Longrightarrow> hoare P m (\<lambda>x s. Q x s \<and> Q' x s) E"
  unfolding hoare_def by (fastforce split: prod.splits sum.splits)

lemma hoare_if: "(b \<Longrightarrow> hoare P m Q E) \<Longrightarrow> (\<not> b \<Longrightarrow> hoare P n Q E) \<Longrightarrow> hoare P (if b then m else n) Q E"
  by simp

lemma hoare_option:
  "(x = None \<Longrightarrow> hoare P m Q E) \<Longrightarrow> (\<And>y. x = Some y \<Longrightarrow> hoare P (f y) Q E) \<Longrightarrow>
   hoare P (case x of None \<Rightarrow> m | Some y \<Rightarrow> f y) Q E"
  by (cases x) auto

lemma hoare_returns: "hoare P m Q E \<Longrightarrow> P s \<Longrightarrow> m s = (Inr x, t) \<Longrightarrow> Q x t"
  unfolding hoare_def by (metis (no_types, lifting) case_prod_conv sum.case(2))

lemma hoare_raises: "hoare P m Q E \<Longrightarrow> P s \<Longrightarrow> m s = (Inl e, t) \<Longrightarrow> E t"
  unfolding hoare_def by (metis (no_types, lifting) case_prod_conv sum.case(1))

lemma keepsD: "keeps I m \<Longrightarrow> I s \<Longrightarrow> I (snd (m s))"
  unfolding hoare_def by (cases "m s"; cases "fst (m s)") fastforce+

lemma hoareI:
  "(\<And>s x t. P s \<Longrightarrow> m s = (Inr x, t) \<Longrightarrow> Q x t) \<Longrightarrow> (\<And>s e t. P s \<Longrightarrow> m s = (Inl e, t) \<Longrightarrow> E t) \<Longrightarrow> hoare P m Q E"
  unfolding hoare_def by (auto split: prod.splits sum.splits)

text \<open>An invariant that every part of an action keeps.\<close>

named_theorems keeps_rules \<open>actions that keep an invariant\<close>

lemma keeps_ret [keeps_rules]: "keeps P (ret x)"
  by (rule hoare_ret)

lemma keeps_fail [keeps_rules]: "keeps P (raise e)"
  by (rule hoare_raise)

lemma keeps_gets [keeps_rules]: "keeps P (gets f)"
  by (rule hoare_gets)

lemma keeps_pure [keeps_rules]: "keeps P (pure r)"
  by (rule hoare_pure)

lemma keeps_bind [keeps_rules]: "keeps P m \<Longrightarrow> (\<And>x. keeps P (f x)) \<Longrightarrow> keeps P (bind m f)"
  by (rule hoare_bind)

lemma keeps_attempt [keeps_rules]: "keeps P m \<Longrightarrow> (\<And>e. keeps P (h e)) \<Longrightarrow> keeps P (attempt m h)"
  by (rule hoare_attempt)

lemma keeps_each [keeps_rules]: "(\<And>x a. keeps P (f x a)) \<Longrightarrow> keeps P (each f xs a)"
  by (rule hoare_each)

lemma keeps_if [keeps_rules]: "keeps P m \<Longrightarrow> keeps P n \<Longrightarrow> keeps P (if b then m else n)"
  by simp

lemma keeps_option [keeps_rules]: "keeps P m \<Longrightarrow> (\<And>y. keeps P (f y)) \<Longrightarrow> keeps P (case x of None \<Rightarrow> m | Some y \<Rightarrow> f y)"
  by (cases x) auto

lemma keeps_pair [keeps_rules]: "(\<And>x y. keeps P (f x y)) \<Longrightarrow> keeps P (case p of (x, y) \<Rightarrow> f x y)"
  by (cases p) auto

lemma keeps_returns: "keeps P m \<Longrightarrow> m s = (Inr x, t) \<Longrightarrow> P s \<Longrightarrow> P t"
  by (rule hoare_returns)

lemma bind_Inr: "bind m f s = (Inr y, t) \<longleftrightarrow> (\<exists>x s'. m s = (Inr x, s') \<and> f x s' = (Inr y, t))"
  by (auto simp: bind_def split: prod.splits sum.splits)

lemma attempt_Inr: "attempt m h s = (Inr x, t) \<longleftrightarrow> m s = (Inr x, t) \<or> (\<exists>e s'. m s = (Inl e, s') \<and> h e s' = (Inr x, t))"
  by (auto simp: attempt_def split: prod.splits sum.splits)

lemma ensure_Inr: "ensure m c s = (Inr x, u) \<longleftrightarrow> (\<exists>t. m s = (Inr x, t) \<and> c t = (Inr (), u))"
  by (auto simp: ensure_def split: prod.splits sum.splits)

lemma keeps_ensure [keeps_rules]: "keeps P (ensure m c)" if "keeps P m" "keeps P c"
proof -
  have "P (snd (ensure m c s))" if "P s" for s
    using keepsD [OF \<open>keeps P c\<close> keepsD [OF \<open>keeps P m\<close> that]]
    by (cases "c (snd (m s))"; cases "fst (c (snd (m s)))") (auto simp: ensure_def split: prod.splits)
  then show ?thesis by (intro hoareI) (metis snd_conv)+
qed

lemma pure_Inr: "pure r s = (Inr x, t) \<longleftrightarrow> r = Inr x \<and> t = s"
  by (auto simp: pure_def)

lemma gets_Inr: "gets f s = (Inr x, t) \<longleftrightarrow> x = f s \<and> t = s"
  by (auto simp: gets_def)

lemma ret_Inr: "ret y s = (Inr x, t) \<longleftrightarrow> x = y \<and> t = s"
  by (auto simp: ret_def)

lemma modify_Inr: "modify f s = (Inr x, t) \<longleftrightarrow> t = f s"
  by (auto simp: modify_def)

lemma raise_Inr: "raise e s \<noteq> (Inr x, t)"
  by (simp add: raise_def)

lemmas act_Inr = bind_Inr attempt_Inr pure_Inr gets_Inr ret_Inr modify_Inr raise_Inr

lemmas act_simps = ret_def raise_def bind_def gets_def modify_def pure_def attempt_def

end
