(* ===== verification/Posix_Path.thy ===== *)
theory Posix_Path
  imports Prelude
begin

text \<open>
  The parts of \<open>posixpath\<close> and \<open>pathlib\<close> the program relies on: \<open>normpath\<close>, the parts
  and the text of a \<open>PurePosixPath\<close>, \<open>is_relative_to\<close>/\<open>relative_to\<close> and
  \<open>commonpath\<close>. Paths are strings; components are what lies between slashes.
\<close>

definition slash :: char where "slash = CHR ''/''"

section \<open>posixpath.normpath\<close>

text \<open>\<open>posixpath\<close> keeps exactly two leading slashes and reduces any other number to one.\<close>

definition initial_slashes :: "string \<Rightarrow> nat" where
  "initial_slashes p =
     (if \<not> starts_with ''/'' p then 0
      else if starts_with ''//'' p \<and> \<not> starts_with ''///'' p then 2 else 1)"

text \<open>The loop over the components; \<open>acc\<close> is \<open>new_comps\<close>, its last component first.\<close>

fun norm_comps :: "bool \<Rightarrow> string list \<Rightarrow> string list \<Rightarrow> string list" where
  "norm_comps root acc [] = rev acc"
| "norm_comps root acc (c # cs) =
     (if c = [] \<or> c = ''.'' then norm_comps root acc cs
      else if c \<noteq> ''..'' \<or> (\<not> root \<and> acc = []) \<or> (acc \<noteq> [] \<and> hd acc = ''..'')
      then norm_comps root (c # acc) cs
      else norm_comps root (tl acc) cs)"

definition normpath :: "string \<Rightarrow> string" where
  "normpath p =
     (if p = [] then ''.''
      else let n = initial_slashes p;
               comps = norm_comps (0 < n) [] (split_on slash p);
               out = replicate n slash @ join_with ''/'' comps
           in if out = [] then ''.'' else out)"

text \<open>What the normalised components look like: no empty or dot component, and parent
  references only as a leading block of a relative path.\<close>

definition plain_comp :: "string \<Rightarrow> bool" where
  "plain_comp c \<longleftrightarrow> c \<noteq> [] \<and> c \<noteq> ''.'' \<and> slash \<notin> set c"

definition normal_comps :: "bool \<Rightarrow> string list \<Rightarrow> bool" where
  "normal_comps root cs \<longleftrightarrow> (\<forall>c \<in> set cs. plain_comp c) \<and>
     (\<exists>k. take k cs = replicate k ''..'' \<and> ''..'' \<notin> set (drop k cs) \<and> (root \<longrightarrow> k = 0))"


section \<open>PurePosixPath\<close>

definition pp_root :: "string \<Rightarrow> string" where
  "pp_root p = replicate (initial_slashes p) slash"

definition pp_comps :: "string \<Rightarrow> string list" where
  "pp_comps p = filter (\<lambda>c. c \<noteq> [] \<and> c \<noteq> ''.'') (split_on slash p)"

definition pp_parts :: "string \<Rightarrow> string list" where
  "pp_parts p = (if pp_root p = [] then pp_comps p else pp_root p # pp_comps p)"

definition pp_str :: "string \<Rightarrow> string" where
  "pp_str p = (let out = pp_root p @ join_with ''/'' (pp_comps p) in if out = [] then ''.'' else out)"

definition pp_name :: "string \<Rightarrow> string" where
  "pp_name p = (if pp_comps p = [] then [] else last (pp_comps p))"

definition is_absolute :: "string \<Rightarrow> bool" where
  "is_absolute p \<longleftrightarrow> starts_with ''/'' p"

text \<open>\<open>p.is_relative_to(r)\<close> and the text of \<open>p.relative_to(r)\<close>.\<close>

definition relative_to :: "string \<Rightarrow> string \<Rightarrow> string option" where
  "relative_to p r =
     (if prefix (pp_parts r) (pp_parts p)
      then let rest = drop (length (pp_parts r)) (pp_parts p)
           in Some (if rest = [] then ''.'' else join_with ''/'' rest)
      else None)"

text \<open>\<open>p / q\<close>: an absolute right operand replaces the left one.\<close>

definition path_join :: "string \<Rightarrow> string \<Rightarrow> string" where
  "path_join p q = (if is_absolute q then pp_str q else pp_str (p @ ''/'' @ q))"

text \<open>\<open>os.path.commonpath((root, p)) == root\<close> for absolute normalised paths.\<close>

definition common_prefix :: "string list \<Rightarrow> string list \<Rightarrow> string list" where
  "common_prefix xs ys = map fst (takeWhile (\<lambda>(x, y). x = y) (zip xs ys))"

section \<open>Normalised paths stay inside their root\<close>

lemma norm_comps_plain:
  assumes "\<forall>c \<in> set cs. slash \<notin> set c" and "\<forall>c \<in> set acc. plain_comp c"
  shows "\<forall>c \<in> set (norm_comps root acc cs). plain_comp c"
  using assms
proof (induction root acc cs rule: norm_comps.induct)
  case (2 root acc c cs)
  have t: "\<forall>x \<in> set (tl acc). plain_comp x" using "2.prems"(2) by (cases acc) auto
  show ?case
  proof (cases "c = [] \<or> c = ''.''")
    case True
    with "2.IH"(1) "2.prems" show ?thesis by simp
  next
    case False
    then have pc: "plain_comp c" using "2.prems"(1) by (simp add: plain_comp_def)
    show ?thesis
    proof (cases "c \<noteq> ''..'' \<or> (\<not> root \<and> acc = []) \<or> (acc \<noteq> [] \<and> hd acc = ''..'')")
      case True
      with "2.IH"(2) [OF False True] "2.prems" False pc show ?thesis by simp
    next
      case False2: False
      then have "norm_comps root acc (c # cs) = norm_comps root (tl acc) cs" using False by auto
      with "2.IH"(3) [OF False False2] "2.prems" t show ?thesis by simp
    qed
  qed
qed auto

lemma norm_comps_rooted:
  assumes "''..'' \<notin> set acc"
  shows "''..'' \<notin> set (norm_comps True acc cs)"
  using assms
proof (induction True acc cs rule: norm_comps.induct)
  case (2 acc c cs)
  have t: "''..'' \<notin> set (tl acc)" using "2.prems" by (cases acc) auto
  show ?case
  proof (cases "c = ''..''")
    case True
    have h: "\<not> (acc \<noteq> [] \<and> hd acc = ''..'')" using "2.prems" by (cases acc) auto
    then have "norm_comps True acc (c # cs) = norm_comps True (tl acc) cs" using True by auto
    moreover have "''..'' \<notin> set (norm_comps True (tl acc) cs)"
      by (rule "2.hyps"(3)) (use True h t in auto)
    ultimately show ?thesis by simp
  next
    case False
    with 2 show ?thesis by auto
  qed
qed simp

lemma initial_slashes_0: "initial_slashes p = 0 \<longleftrightarrow> \<not> is_absolute p"
  by (simp add: initial_slashes_def is_absolute_def)

text \<open>
  An absolute path that \<open>normpath\<close> leaves unchanged names no parent directory and no
  current directory: its components are plain.
\<close>

lemma split_replicate_slash:
  "split_on slash (replicate n slash @ s) = replicate n [] @ split_on slash s"
  by (induction n) auto

lemma split_join_comps:
  assumes "cs \<noteq> []" and "\<forall>c \<in> set cs. slash \<notin> set c"
  shows "split_on slash (join_with ''/'' cs) = cs"
proof -
  have one: "split_on slash c = [c]" if "slash \<notin> set c" for c
    using that by (induction c) auto
  have app: "split_on slash (c @ slash # s) = c # split_on slash s" if "slash \<notin> set c" for c s
    using that by (induction c) auto
  show ?thesis using assms
  proof (induction cs rule: induct_list012)
    case (3 x y zs)
    have "join_with ''/'' (x # y # zs) = x @ slash # join_with ''/'' (y # zs)"
      by (simp add: slash_def)
    with 3 app [of x] show ?case by simp
  qed (auto simp: one)
qed

lemma normpath_absolute_comps:
  assumes "normpath p = p" and "is_absolute p"
  shows "\<forall>c \<in> set (split_on slash p). c = [] \<or> (plain_comp c \<and> c \<noteq> ''..'')"
proof -
  let ?n = "initial_slashes p" and ?cs = "norm_comps True [] (split_on slash p)"
  have n: "0 < ?n" using assms(2) initial_slashes_0 [of p] by simp
  have pn: "p \<noteq> []" using assms(2) by (auto simp: is_absolute_def starts_with_def)
  have eq: "p = replicate ?n slash @ join_with ''/'' ?cs"
    using assms(1) n pn by (simp add: normpath_def Let_def split: if_splits)
  have plain: "\<forall>c \<in> set ?cs. plain_comp c"
    by (rule norm_comps_plain) (auto dest: split_on_no_sep)
  have dots: "''..'' \<notin> set ?cs" by (rule norm_comps_rooted) simp
  have "split_on slash p = replicate ?n [] @ split_on slash (join_with ''/'' ?cs)"
    using eq split_replicate_slash [of ?n "join_with ''/'' ?cs"] by metis
  moreover have "set (split_on slash (join_with ''/'' ?cs)) \<subseteq> {[]} \<union> set ?cs"
  proof (cases "?cs = []")
    case False
    then show ?thesis using split_join_comps [of ?cs] plain by (auto simp: plain_comp_def)
  qed simp
  ultimately have "set (split_on slash p) \<subseteq> set (replicate ?n []) \<union> ({[]} \<union> set ?cs)"
    by (metis Un_mono order_refl set_append)
  then have "set (split_on slash p) \<subseteq> {[]} \<union> set ?cs" by (auto split: if_splits)
  with plain dots show ?thesis by blast
qed

text \<open>
  A relative path that \<open>normpath\<close> leaves unchanged can climb only with a leading block of
  parent references, so it does not climb at all unless it is \<open>..\<close> or starts with
  \<open>../\<close>.
\<close>

lemma norm_comps_lead:
  assumes "acc = xs @ replicate k ''..''" and "''..'' \<notin> set xs"
  shows "\<exists>k ys. norm_comps False acc cs = replicate k ''..'' @ ys \<and> ''..'' \<notin> set ys"
  using assms
proof (induction False acc cs arbitrary: xs k rule: norm_comps.induct)
  case (1 acc)
  then show ?case by (intro exI [of _ k] exI [of _ "rev xs"]) simp
next
  case (2 acc c cs)
  show ?case
  proof (cases "c = [] \<or> c = ''.''")
    case True
    with 2 show ?thesis by auto
  next
    case nondot: False
    show ?thesis
    proof (cases "c = ''..''")
      case False
      have "\<exists>k ys. norm_comps False (c # acc) cs = replicate k ''..'' @ ys \<and> ''..'' \<notin> set ys"
        by (rule "2.hyps"(2) [of "c # xs" k]) (use nondot False "2.prems" in auto)
      with nondot False show ?thesis by simp
    next
      case up: True
      show ?thesis
      proof (cases "xs = []")
        case True
        have "\<exists>k ys. norm_comps False (c # acc) cs = replicate k ''..'' @ ys \<and> ''..'' \<notin> set ys"
          by (rule "2.hyps"(2) [of "[]" "Suc k"]) (use nondot up True "2.prems" in \<open>auto split: if_splits\<close>)
        moreover have "acc = [] \<or> hd acc = ''..''" using True "2.prems"(1) by (cases k) auto
        ultimately show ?thesis using nondot up by auto
      next
        case False
        then have h: "acc \<noteq> []" "hd acc \<noteq> ''..''" using "2.prems" by (auto simp: neq_Nil_conv)
        have "\<exists>k ys. norm_comps False (tl acc) cs = replicate k ''..'' @ ys \<and> ''..'' \<notin> set ys"
          by (rule "2.hyps"(3) [of "tl xs" k]) (use nondot up h False "2.prems" in \<open>auto simp: neq_Nil_conv\<close>)
        with nondot up h show ?thesis by auto
      qed
    qed
  qed
qed

lemma normpath_no_parent:
  assumes n: "normpath p = p" and u: "p \<noteq> ''..''" "\<not> starts_with ''../'' p"
  shows "''..'' \<notin> set (split_on slash p)"
proof (cases "is_absolute p \<or> p = ''.''")
  case True
  then show ?thesis
  proof
    assume "is_absolute p"
    with normpath_absolute_comps [OF n] show ?thesis by blast
  next
    assume "p = ''.''"
    then show ?thesis by (simp add: slash_def)
  qed
next
  case False
  let ?cs = "norm_comps False [] (split_on slash p)"
  have i: "initial_slashes p = 0" using False initial_slashes_0 by simp
  have pn: "p \<noteq> []" using n by (auto simp: normpath_def)
  from n i pn False have eq: "p = join_with ''/'' ?cs"
    by (simp add: normpath_def Let_def split: if_splits)
  then have ne: "?cs \<noteq> []" using pn by (metis join_with.simps(1))
  have plain: "\<forall>c \<in> set ?cs. plain_comp c"
    by (rule norm_comps_plain) (auto dest: split_on_no_sep)
  obtain k ys where k: "?cs = replicate k ''..'' @ ys" "''..'' \<notin> set ys"
    using norm_comps_lead [of "[]" "[]" 0 "split_on slash p"] by auto
  have "k = 0"
  proof (rule ccontr)
    assume "k \<noteq> 0"
    then obtain rest where r: "?cs = ''..'' # rest" using k(1) by (cases k) auto
    show False
    proof (cases rest)
      case Nil
      with eq r u(1) show ?thesis by simp
    next
      case (Cons z zs)
      with eq r have "p = ''../'' @ join_with ''/'' (z # zs)" by simp
      with u(2) show ?thesis by (metis append_eq_conv_conj starts_with_def)
    qed
  qed
  moreover have "split_on slash p = ?cs"
    using split_join_comps [OF ne] plain eq by (metis plain_comp_def)
  ultimately show ?thesis using k by simp
qed

section \<open>Joining a name\<close>

lemma split_on_append: "split_on c (xs @ c # ys) = split_on c xs @ split_on c ys"
proof (induction xs)
  case (Cons x xs)
  obtain w ws where "split_on c xs = w # ws" using split_on_nonempty [of c xs] by (cases "split_on c xs") auto
  with Cons show ?case by (auto split: list.splits)
qed simp

lemma split_on_plain: "c \<notin> set q \<Longrightarrow> split_on c q = [q]"
  by (induction q) auto

lemma pp_comps_plain: "x \<in> set (pp_comps p) \<Longrightarrow> x \<noteq> [] \<and> x \<noteq> ''.'' \<and> slash \<notin> set x"
  by (auto simp: pp_comps_def dest: split_on_no_sep)

lemma pp_comps_str: "pp_comps (pp_str p) = pp_comps p"
proof (cases "pp_comps p = []")
  case True
  have "split_on slash (replicate n slash) = replicate (Suc n) []" for n by (induction n) auto
  then have "pp_comps (replicate n slash) = []" for n by (simp add: pp_comps_def)
  moreover have "pp_comps ''.'' = []" by (simp add: pp_comps_def slash_def)
  ultimately show ?thesis using True by (simp add: pp_str_def pp_root_def)
next
  case False
  let ?c = "pp_comps p"
  have "split_on slash (join_with ''/'' ?c) = ?c"
    by (rule split_join_comps) (use False pp_comps_plain in auto)
  then have "pp_comps (pp_root p @ join_with ''/'' ?c) = filter (\<lambda>c. c \<noteq> [] \<and> c \<noteq> ''.'') ?c"
    by (simp add: pp_comps_def pp_root_def split_replicate_slash)
  also have "\<dots> = ?c" using pp_comps_plain by (auto intro: filter_True)
  finally have eq: "pp_comps (pp_root p @ join_with ''/'' ?c) = ?c" .
  have "pp_root p @ join_with ''/'' ?c \<noteq> []"
  proof
    assume "pp_root p @ join_with ''/'' ?c = []"
    then have "pp_comps (pp_root p @ join_with ''/'' ?c) = []" by (simp add: pp_comps_def)
    with eq False show False by simp
  qed
  then have "pp_str p = pp_root p @ join_with ''/'' ?c" unfolding pp_str_def Let_def by (rule if_not_P)
  with eq show ?thesis by simp
qed

lemma pp_name_join:
  assumes "q \<noteq> []" and "q \<noteq> ''.''" and "slash \<notin> set q"
  shows "pp_name (path_join p q) = q"
proof -
  have "\<not> is_absolute q" using assms by (cases q) (auto simp: is_absolute_def starts_with_def slash_def)
  moreover have "pp_comps (p @ slash # q) = pp_comps p @ [q]"
    using assms by (simp add: pp_comps_def split_on_append split_on_plain)
  ultimately show ?thesis by (simp add: path_join_def pp_name_def pp_comps_str slash_def)
qed

end
