(* ===== verification/Json.thy ===== *)
theory Json
  imports Prelude
begin

text \<open>
  JSON values as Python's \<open>json\<close> module gives them, Python equality on them, and
  \<open>json.dumps\<close>. \<open>JObj\<close> is a dictionary in insertion order; \<open>JNull\<close> is \<open>None\<close>.
  Numbers are Python integers: numbers with a fraction or an exponent are not represented.
  The engine keys its caches and revisions by \<open>digest\<close>, SHA-256 of the serialisation with
  sorted keys; the hash function is the parameter \<open>H\<close> of every definition that needs it
  (type \<open>hash\<close>), so the theorems hold for every hash function and say explicitly where
  they need that two particular inputs do not collide.
\<close>

datatype json =
    JNull
  | JBool bool
  | JInt int
  | JStr string
  | JArr "json list"
  | JObj "(string \<times> json) list"

type_synonym dict = "(string \<times> json) list"
type_synonym hash = "bytes \<Rightarrow> string"

section \<open>Dictionary access\<close>

definition has_key :: "dict \<Rightarrow> string \<Rightarrow> bool" where
  "has_key d k \<longleftrightarrow> map_of d k \<noteq> None"

text \<open>\<open>d.get(k)\<close>, and \<open>d.get(k, default)\<close>.\<close>

definition dget_or :: "json \<Rightarrow> dict \<Rightarrow> string \<Rightarrow> json" where
  "dget_or dflt d k = (case map_of d k of None \<Rightarrow> dflt | Some v \<Rightarrow> v)"

abbreviation dget :: "dict \<Rightarrow> string \<Rightarrow> json" where
  "dget \<equiv> dget_or JNull"

text \<open>\<open>d[k]\<close>.\<close>

definition fetch :: "dict \<Rightarrow> string \<Rightarrow> json res" where
  "fetch d k = (case map_of d k of None \<Rightarrow> Inl (KeyError k) | Some v \<Rightarrow> Inr v)"

text \<open>\<open>set(d) == keys\<close> and \<open>set(d) - opt == keys\<close>.\<close>

definition keys_are :: "string list \<Rightarrow> dict \<Rightarrow> bool" where
  "keys_are ks d \<longleftrightarrow> set (map fst d) = set ks"

definition keys_are_opt :: "string list \<Rightarrow> string list \<Rightarrow> dict \<Rightarrow> bool" where
  "keys_are_opt opt ks d \<longleftrightarrow> set (filter (\<lambda>k. k \<notin> set opt) (map fst d)) = set ks"

lemma dget_or_dict_set [simp]:
  "dget_or z (dict_set k v d) k' = (if k' = k then v else dget_or z d k')"
  by (simp add: dget_or_def)

lemma has_key_iff: "has_key d k \<longleftrightarrow> k \<in> fst ` set d"
  by (auto simp: has_key_def map_of_eq_None_iff)

lemma keys_are_opt_key: "keys_are_opt opt ks d \<Longrightarrow> k \<in> set ks \<Longrightarrow> k \<in> fst ` set d"
  by (auto simp: keys_are_opt_def)

lemma keys_are_opt_set: "k \<in> fst ` set d \<Longrightarrow> keys_are_opt opt ks (dict_set k v d) = keys_are_opt opt ks d"
proof -
  assume "k \<in> fst ` set d"
  then have "set (map fst (dict_set k v d)) = set (map fst d)" using fst_dict_set [of k v d] by auto
  then have "set (filter (\<lambda>k. k \<notin> set opt) (map fst (dict_set k v d))) = set (filter (\<lambda>k. k \<notin> set opt) (map fst d))"
    unfolding set_filter by simp
  then show ?thesis unfolding keys_are_opt_def by simp
qed

lemma keys_are_opt_opt: "k \<in> set opt \<Longrightarrow> keys_are_opt opt ks (dict_set k v d) = keys_are_opt opt ks d"
proof -
  assume k: "k \<in> set opt"
  have "set (filter (\<lambda>k. k \<notin> set opt) (map fst (dict_set k v d))) = {x \<in> fst ` set (dict_set k v d). x \<notin> set opt}"
    by (simp add: set_filter)
  also have "\<dots> = {x \<in> fst ` set d. x \<notin> set opt}" using k by (auto simp only: fst_dict_set)
  finally show ?thesis by (simp add: keys_are_opt_def set_filter)
qed

fun is_obj :: "json \<Rightarrow> bool" where
  "is_obj (JObj d) = True"
| "is_obj _ = False"

fun is_str :: "json \<Rightarrow> bool" where
  "is_str (JStr s) = True"
| "is_str _ = False"

fun is_bool :: "json \<Rightarrow> bool" where
  "is_bool (JBool b) = True"
| "is_bool _ = False"

text \<open>\<open>type(x) is int\<close>: a bool is not an int here.\<close>

fun is_int :: "json \<Rightarrow> bool" where
  "is_int (JInt i) = True"
| "is_int _ = False"

fun is_arr :: "json \<Rightarrow> bool" where
  "is_arr (JArr xs) = True"
| "is_arr _ = False"

fun the_str :: "json \<Rightarrow> string" where
  "the_str (JStr s) = s"
| "the_str _ = []"

fun the_int :: "json \<Rightarrow> int" where
  "the_int (JInt i) = i"
| "the_int _ = 0"

fun the_arr :: "json \<Rightarrow> json list" where
  "the_arr (JArr xs) = xs"
| "the_arr _ = []"

fun the_obj :: "json \<Rightarrow> dict" where
  "the_obj (JObj d) = d"
| "the_obj _ = []"

text \<open>Truth value of a JSON value (\<open>if x:\<close>).\<close>

fun truthy :: "json \<Rightarrow> bool" where
  "truthy JNull = False"
| "truthy (JBool b) = b"
| "truthy (JInt i) = (i \<noteq> 0)"
| "truthy (JStr s) = (s \<noteq> [])"
| "truthy (JArr xs) = (xs \<noteq> [])"
| "truthy (JObj d) = (d \<noteq> [])"

section \<open>Python equality\<close>

lemma size_json_obj_mem: "(k, v) \<in> set d \<Longrightarrow> size v < Suc (size_list (size_prod (\<lambda>x. 0) size) d)"
  by (induction d) auto

lemma size_json_arr_mem: "x \<in> set xs \<Longrightarrow> size x < Suc (size_list size xs)"
  by (induction xs) auto

text \<open>
  \<open>==\<close> on these values: dictionaries compare without order, and \<open>True == 1\<close>.
\<close>

function py_eq :: "json \<Rightarrow> json \<Rightarrow> bool" where
  "py_eq JNull y = (y = JNull)"
| "py_eq (JBool b) y =
     (case y of JBool c \<Rightarrow> b = c | JInt i \<Rightarrow> i = (if b then 1 else 0) | _ \<Rightarrow> False)"
| "py_eq (JInt i) y =
     (case y of JInt j \<Rightarrow> i = j | JBool c \<Rightarrow> i = (if c then 1 else 0) | _ \<Rightarrow> False)"
| "py_eq (JStr s) y = (y = JStr s)"
| "py_eq (JArr xs) y =
     (case y of
        JArr ys \<Rightarrow> length xs = length ys \<and> list_all (\<lambda>(x, z). py_eq x z) (zip xs ys)
      | _ \<Rightarrow> False)"
| "py_eq (JObj d) y =
     (case y of
        JObj e \<Rightarrow> length d = length e \<and>
          list_all (\<lambda>(k, v). case map_of e k of None \<Rightarrow> False | Some w \<Rightarrow> py_eq v w) d
      | _ \<Rightarrow> False)"
  by pat_completeness auto

termination
proof (relation "measure (\<lambda>(x, y). size x)", goal_cases)
  case 1
  show ?case by simp
next
  case (2 xs y ys z x w)
  then have "x \<in> set xs" by (auto dest: set_zip_leftD)
  then show ?case using 2 by (auto dest: size_json_arr_mem)
next
  case (3 d y e z k v w)
  then show ?case by (auto dest!: size_json_obj_mem)
qed

section \<open>Serialisation\<close>

fun show_nat :: "nat \<Rightarrow> string" where
  "show_nat n =
     (if n < 10 then [char_of (48 + n)] else show_nat (n div 10) @ [char_of (48 + n mod 10)])"

declare show_nat.simps [simp del]

definition show_int :: "int \<Rightarrow> string" where
  "show_int i = (if i < 0 then ''-'' @ show_nat (nat (- i)) else show_nat (nat i))"

definition hex_digit :: "nat \<Rightarrow> char" where
  "hex_digit n = (if n < 10 then char_of (48 + n) else char_of (87 + n))"

text \<open>One character of a string literal; \<open>asc\<close> is \<open>ensure_ascii\<close>.\<close>

definition esc_char :: "bool \<Rightarrow> char \<Rightarrow> string" where
  "esc_char asc c = (let n = (of_char c :: nat) in
     if n = 34 then [char_of (92::nat), char_of (34::nat)]
     else if n = 92 then [char_of (92::nat), char_of (92::nat)]
     else if n = 10 then [char_of (92::nat), CHR ''n'']
     else if n = 13 then [char_of (92::nat), CHR ''r'']
     else if n = 9 then [char_of (92::nat), CHR ''t'']
     else if n = 8 then [char_of (92::nat), CHR ''b'']
     else if n = 12 then [char_of (92::nat), CHR ''f'']
     else if n < 32 \<or> (asc \<and> 126 < n)
       then [char_of (92::nat)] @ ''u00'' @ [hex_digit (n div 16), hex_digit (n mod 16)]
     else [c])"

definition dump_str :: "bool \<Rightarrow> string \<Rightarrow> string" where
  "dump_str asc s = [char_of (34::nat)] @ concat (map (esc_char asc) s) @ [char_of (34::nat)]"

text \<open>\<open>json.dumps(v, ensure_ascii=asc, sort_keys=srt)\<close> with the default separators.\<close>

fun dumps :: "bool \<Rightarrow> bool \<Rightarrow> json \<Rightarrow> string" where
  "dumps asc srt JNull = ''null''"
| "dumps asc srt (JBool b) = (if b then ''true'' else ''false'')"
| "dumps asc srt (JInt i) = show_int i"
| "dumps asc srt (JStr s) = dump_str asc s"
| "dumps asc srt (JArr xs) = ''['' @ join_with '', '' (map (dumps asc srt) xs) @ '']''"
| "dumps asc srt (JObj d) =
     (let fields = map (\<lambda>(k, v). (k, dump_str asc k @ '': '' @ dumps asc srt v)) d
      in ''{'' @ join_with '', '' (map snd (if srt then sort_key fst fields else fields)) @ ''}'')"

text \<open>\<open>json.dumps(v, ensure_ascii=asc, sort_keys=True, separators=(",", ":"))\<close>.\<close>

fun compact :: "bool \<Rightarrow> json \<Rightarrow> string" where
  "compact asc JNull = ''null''"
| "compact asc (JBool b) = (if b then ''true'' else ''false'')"
| "compact asc (JInt i) = show_int i"
| "compact asc (JStr s) = dump_str asc s"
| "compact asc (JArr xs) = ''['' @ join_with '','' (map (compact asc) xs) @ '']''"
| "compact asc (JObj d) =
     ''{'' @ join_with '','' (map snd (sort_key fst (map (\<lambda>(k, v). (k, dump_str asc k @ '':'' @ compact asc v)) d))) @ ''}''"

text \<open>The size of a request in bytes, \<open>len(json.dumps(v, ensure_ascii=False).encode())\<close>.\<close>

definition json_bytes :: "json \<Rightarrow> nat" where
  "json_bytes v = length (utf8 (dumps False False v))"

text \<open>\<open>engine/graph.py\<close>, \<open>digest\<close>: \<open>H\<close> stands for \<open>sha256(...).hexdigest()\<close>.\<close>

definition digest :: "hash \<Rightarrow> json \<Rightarrow> string" where
  "digest H v = H (utf8 (dumps False True v))"

section \<open>Strings that must be present and short\<close>

text \<open>\<open>isinstance(v, str) and 0 < len(v) <= n\<close>, the check every model answer goes through.\<close>

definition text_upto :: "nat \<Rightarrow> json \<Rightarrow> bool" where
  "text_upto n v = (case v of JStr s \<Rightarrow> 0 < length s \<and> length s \<le> n | _ \<Rightarrow> False)"

lemma text_upto_JStr: "text_upto n v \<Longrightarrow> \<exists>s. v = JStr s \<and> s \<noteq> [] \<and> length s \<le> n"
  by (auto simp: text_upto_def split: json.splits)

lemma py_eq_refl_list:
  assumes "\<And>x. x \<in> set xs \<Longrightarrow> py_eq x x"
  shows "list_all (\<lambda>(x, z). py_eq x z) (zip xs xs)"
  using assms by (auto simp: list_all_iff zip_same_conv_map)

end
