(* ===== verification/Disk.thy ===== *)
theory Disk
  imports Posix_Path Json
begin

text \<open>
  Reading one file under a workspace root, as \<open>engine/payload.py\<close> does it:
  \<open>safe_parts\<close>, \<open>open_resource\<close>, \<open>fingerprint\<close> and
  \<open>PayloadResolver.read_file\<close>. The operating system is a record of steps on a world
  \<open>'w\<close> that others may change between any two of them; descriptors are numbers.
  \<open>dk_open\<close> is \<open>os.open(root, O_RDONLY|O_DIRECTORY|O_NOFOLLOW)\<close>, \<open>dk_openat\<close>
  is \<open>os.open(name, ..|O_NOFOLLOW, dir_fd=directory)\<close> with \<open>O_DIRECTORY\<close> when its
  flag is set, \<open>dk_lstat\<close> is \<open>os.stat(name, dir_fd=directory, follow_symlinks=False)\<close>.
\<close>

datatype file_type = Regular | Directory | Special

record stamp =
  st_type :: file_type
  st_dev :: int
  st_ino :: int
  st_size :: nat
  st_mtime :: int
  st_ctime :: int

definition fingerprint :: "stamp \<Rightarrow> int list" where
  "fingerprint s = [st_dev s, st_ino s, int (st_size s), st_mtime s, st_ctime s]"

definition fingerprint_json :: "int list \<Rightarrow> json" where
  "fingerprint_json f = JArr (map JInt f)"

record 'w disk =
  dk_open :: "string \<Rightarrow> 'w \<Rightarrow> nat res \<times> 'w"
  dk_openat :: "nat \<Rightarrow> string \<Rightarrow> bool \<Rightarrow> 'w \<Rightarrow> nat res \<times> 'w"
  dk_fstat :: "nat \<Rightarrow> 'w \<Rightarrow> stamp res \<times> 'w"
  dk_read :: "nat \<Rightarrow> nat \<Rightarrow> 'w \<Rightarrow> bytes res \<times> 'w"
  dk_lstat :: "nat \<Rightarrow> string \<Rightarrow> 'w \<Rightarrow> stamp res \<times> 'w"

section \<open>Opening a resource\<close>

definition CONTROL_FILE :: string where
  "CONTROL_FILE = ''protected_sources.json''"

definition safe_parts :: "json \<Rightarrow> string list res" where
  "safe_parts path =
     (case path of
        JStr p \<Rightarrow>
          if p = [] \<or> char_of (0::nat) \<in> set p then Inl (ResolutionError ''invalid_resource_path'')
          else if is_absolute p \<or> ''..'' \<in> set (pp_parts p) \<or> pp_str p \<noteq> p \<or> p = ''.''
          then Inl (ResolutionError ''resource_path_not_canonical_relative'')
          else if pp_name p = CONTROL_FILE then Inl (ResolutionError ''control_state_not_payload'')
          else Inr (pp_parts p)
      | _ \<Rightarrow> Inl (ResolutionError ''invalid_resource_path''))"

text \<open>The loop over the components: all but the last must be directories.\<close>

fun open_parts :: "'w disk \<Rightarrow> nat \<Rightarrow> string list \<Rightarrow> 'w \<Rightarrow> (nat \<times> nat \<times> string) res \<times> 'w" where
  "open_parts d dir [] w = (Inl (OtherError ''IndexError''), w)"
| "open_parts d dir [name] w =
     (case dk_openat d dir name False w of
        (Inl e, w) \<Rightarrow> (Inl e, w)
      | (Inr fd, w) \<Rightarrow> (Inr (fd, dir, name), w))"
| "open_parts d dir (c # c2 # cs) w =
     (case dk_openat d dir c True w of
        (Inl e, w) \<Rightarrow> (Inl e, w)
      | (Inr sub, w) \<Rightarrow> open_parts d sub (c2 # cs) w)"

definition open_resource :: "'w disk \<Rightarrow> string \<Rightarrow> json \<Rightarrow> 'w \<Rightarrow> (nat \<times> nat \<times> string) res \<times> 'w" where
  "open_resource d root path w =
     (case safe_parts path of
        Inl e \<Rightarrow> (Inl e, w)
      | Inr parts \<Rightarrow>
          (case dk_open d root w of
             (Inl e, w) \<Rightarrow> (Inl e, w)
           | (Inr dir, w) \<Rightarrow> open_parts d dir parts w))"

text \<open>\<open>with open_resource(...): fingerprint(os.fstat(descriptor))\<close>.\<close>

definition resource_stamp :: "'w disk \<Rightarrow> string \<Rightarrow> json \<Rightarrow> 'w \<Rightarrow> int list res \<times> 'w" where
  "resource_stamp d root path w =
     (case open_resource d root path w of
        (Inl e, w) \<Rightarrow> (Inl e, w)
      | (Inr (fd, dir, name), w) \<Rightarrow>
          (case dk_fstat d fd w of (Inl e, w) \<Rightarrow> (Inl e, w) | (Inr s, w) \<Rightarrow> (Inr (fingerprint s), w)))"

section \<open>Reading it\<close>

text \<open>\<open>os.read(fd, n)\<close> returns at most \<open>n\<close> bytes, and no byte at the end of the file.\<close>

function read_chunks :: "'w disk \<Rightarrow> nat \<Rightarrow> nat \<Rightarrow> bytes \<Rightarrow> 'w \<Rightarrow> bytes res \<times> 'w" where
  "read_chunks d fd remaining acc w =
     (if remaining = 0 then (Inr acc, w)
      else case dk_read d fd (min 65536 remaining) w of
          (Inl e, w) \<Rightarrow> (Inl e, w)
        | (Inr chunk, w) \<Rightarrow>
            if chunk = [] then (Inr acc, w)
            else read_chunks d fd (remaining - length chunk) (acc @ chunk) w)"
  by pat_completeness auto
termination
  by (relation "measure (\<lambda>(d, fd, remaining, acc, w). remaining)") (auto simp: length_greater_0_conv [symmetric] simp del: length_greater_0_conv)

declare read_chunks.simps [simp del]

definition read_observation :: "json \<Rightarrow> stamp \<Rightarrow> string \<Rightarrow> dict" where
  "read_observation path s event =
     [(''path'', path), (''fingerprint'', fingerprint_json (fingerprint s)), (''event'', JStr event)]"

text \<open>The content, the observation and the bytes of the budget that are left.\<close>

definition read_file :: "'w disk \<Rightarrow> string \<Rightarrow> string \<Rightarrow> json \<Rightarrow> int \<Rightarrow> 'w \<Rightarrow> (bytes \<times> dict \<times> int) res \<times> 'w" where
  "read_file d root event path budget w =
     (case open_resource d root path w of
        (Inl e, w) \<Rightarrow> (Inl e, w)
      | (Inr (fd, dir, name), w) \<Rightarrow>
      (case dk_fstat d fd w of
         (Inl e, w) \<Rightarrow> (Inl e, w)
       | (Inr start, w) \<Rightarrow>
         if st_type start \<noteq> Regular then (Inl (ResolutionError ''resource_not_regular_file''), w)
         else if budget < int (st_size start) then (Inl (ResolutionError ''resolution_byte_budget''), w)
         else
           (case read_chunks d fd (st_size start + 1) [] w of
              (Inl e, w) \<Rightarrow> (Inl e, w)
            | (Inr content, w) \<Rightarrow>
              (case dk_fstat d fd w of
                 (Inl e, w) \<Rightarrow> (Inl e, w)
               | (Inr after, w) \<Rightarrow>
                 (case dk_lstat d dir name w of
                    (Inl e, w) \<Rightarrow> (Inl e, w)
                  | (Inr current, w) \<Rightarrow>
                      if fingerprint start \<noteq> fingerprint after \<or> fingerprint after \<noteq> fingerprint current
                         \<or> length content \<noteq> st_size start
                      then (Inl (ResolutionError ''resource_changed_during_read''), w)
                      else (Inr (content, read_observation path after event, budget - int (length content)), w))))))"

section \<open>What a successful read means\<close>

lemma safe_parts_ok:
  assumes "safe_parts path = Inr parts"
  obtains p where "path = JStr p" and "parts = pp_parts p" and "pp_str p = p" and "\<not> is_absolute p"
    and "''..'' \<notin> set parts" and "pp_name p \<noteq> CONTROL_FILE"
  using assms by (auto simp: safe_parts_def split: json.splits if_splits)

text \<open>The names opened, in order, each relative to the directory opened start it.\<close>

definition plain_name :: "string \<Rightarrow> bool" where
  "plain_name c \<longleftrightarrow> c \<noteq> [] \<and> c \<noteq> ''.'' \<and> c \<noteq> ''..'' \<and> slash \<notin> set c"

lemma safe_parts_plain:
  assumes "safe_parts path = Inr parts"
  shows "list_all plain_name parts"
proof -
  from assms obtain p where p: "parts = pp_parts p" "\<not> is_absolute p" "''..'' \<notin> set parts"
    by (rule safe_parts_ok)
  then have "parts = pp_comps p" using initial_slashes_0 [of p] by (simp add: pp_parts_def pp_root_def)
  with p(3) show ?thesis using split_on_no_sep [of _ slash p]
    by (auto simp: list_all_iff plain_name_def pp_comps_def)
qed

lemma read_chunks_grows: "read_chunks d fd remaining acc w = (Inr content, w') \<Longrightarrow> prefix acc content"
proof (induction d fd remaining acc w rule: read_chunks.induct)
  case (1 d fd remaining acc w)
  show ?case
  proof (cases "remaining = 0")
    case True
    with 1 show ?thesis by (simp add: read_chunks.simps)
  next
    case False
    obtain r w1 where r: "dk_read d fd (min 65536 remaining) w = (r, w1)" by fastforce
    show ?thesis
    proof (cases r)
      case (Inr chunk)
      show ?thesis
      proof (cases "chunk = []")
        case True
        with 1 r Inr False show ?thesis by (simp add: read_chunks.simps)
      next
        case False2: False
        with "1.prems" r Inr False have "read_chunks d fd (remaining - length chunk) (acc @ chunk) w1 = (Inr content, w')"
          by (subst (asm) read_chunks.simps) simp
        with "1.IH" r Inr False False2 have "prefix (acc @ chunk) content" by auto
        then show ?thesis using append_prefixD by blast
      qed
    qed (use 1 r False in \<open>simp add: read_chunks.simps\<close>)
  qed
qed

lemma read_file_ok:
  assumes "read_file d root event path budget w = (Inr (content, obs, budget'), w')"
  obtains s where "obs = read_observation path s event" and "length content = st_size s"
    and "int (length content) \<le> budget" and "budget' = budget - int (length content)" and "\<exists>parts. safe_parts path = Inr parts"
proof -
  from assms obtain fd dir name w1 where o: "open_resource d root path w = (Inr (fd, dir, name), w1)"
    by (auto simp: read_file_def split: prod.splits sum.splits)
  then have p: "\<exists>parts. safe_parts path = Inr parts" by (auto simp: open_resource_def split: sum.splits)
  from assms o obtain start after where "length content = st_size start" "obs = read_observation path after event"
    "fingerprint start = fingerprint after" "int (st_size start) \<le> budget" "budget' = budget - int (length content)"
    by (auto simp: read_file_def split: prod.splits sum.splits if_splits)
  then show ?thesis using that p by (auto simp: fingerprint_def)
qed

end
