(* ===== verification/Events.thy ===== *)
theory Events
  imports Json
begin

text \<open>
  The append-only table \<open>events\<close> of the journal (\<open>engine/journal.py\<close>,
  \<open>Journal.initialize\<close>) and the table \<open>recording_boundaries\<close> that the setup command
  writes (\<open>app.py\<close>, \<open>_finish_setup\<close>), with the reads other components make of them.
  A JSON column holds the value itself; a nullable text column is an \<open>option\<close>, and a
  column filled from an unchecked payload field is a \<open>json\<close>.
\<close>

record event_row =
  er_event :: string
  er_phase :: string
  er_session :: "string option"
  er_tool_use :: "string option"
  er_tool_name :: json
  er_workspace :: string
  er_root :: string
  er_execution_cwd :: "string option"
  er_payload :: dict
  er_seq :: nat

type_synonym boundaries = "(string \<times> nat) list"

text \<open>\<open>SELECT after_sequence FROM recording_boundaries WHERE workspace_id=?\<close>, 0 if absent.\<close>

definition boundary_of :: "boundaries \<Rightarrow> string \<Rightarrow> nat" where
  "boundary_of bs ws = (case map_of bs ws of None \<Rightarrow> 0 | Some n \<Rightarrow> n)"

definition event_by_id :: "event_row list \<Rightarrow> string \<Rightarrow> event_row option" where
  "event_by_id evs e = find (\<lambda>r. er_event r = e) evs"

definition opt_json :: "string option \<Rightarrow> json" where
  "opt_json s = (case s of None \<Rightarrow> JNull | Some t \<Rightarrow> JStr t)"

text \<open>\<open>COALESCE(MAX(sequence_no),0)\<close>.\<close>

definition max_seq :: "event_row list \<Rightarrow> nat" where
  "max_seq evs = foldr (\<lambda>r m. max (er_seq r) m) evs 0"

lemma max_seq_ge: "r \<in> set evs \<Longrightarrow> er_seq r \<le> max_seq evs"
  by (induction evs) (auto simp: max_seq_def)

lemma max_seq_append: "max_seq (xs @ [r]) = max (max_seq xs) (er_seq r)"
  by (induction xs) (auto simp: max_seq_def)

lemma event_by_id_Some: "event_by_id evs e = Some r \<Longrightarrow> r \<in> set evs \<and> er_event r = e"
  by (auto simp: event_by_id_def dest: find_Some_in)

end
