(* ===== verification/Graph.thy ===== *)
theory Graph
  imports Events
begin

text \<open>
  \<open>engine/graph.py\<close>: the validation of a model verdict, the breadth-first search for a
  protected path, the reconstruction of ToolCalls from the recorded events, and the
  whole-history analysis that judges the calls one after the other.
\<close>

definition PROMPT_VERSION :: string where
  "PROMPT_VERSION = ''property-flow-v16''"

section \<open>Decisions\<close>

text \<open>
  The result dictionaries of the engine. \<open>o_retryable\<close> and \<open>o_scope\<close> are the keys
  \<open>retryable\<close> and \<open>retry_scope\<close> when present, \<open>o_error\<close> is \<open>error_type\<close>,
  \<open>o_needs\<close> is \<open>evidence_needs\<close>.
\<close>

record outcome =
  o_action :: string
  o_reason :: string
  o_path :: "string list"
  o_node :: "string option"
  o_retryable :: "bool option"
  o_scope :: "string option"
  o_error :: "string option"
  o_needs :: "json list"

definition outcome :: "string \<Rightarrow> string \<Rightarrow> string list \<Rightarrow> string option \<Rightarrow> outcome" where
  "outcome act rsn path node =
     \<lparr>o_action = act, o_reason = rsn, o_path = path, o_node = node,
      o_retryable = None, o_scope = None, o_error = None, o_needs = []\<rparr>"

lemma outcome_simps [simp]:
  "o_action (outcome a r p n) = a" "o_reason (outcome a r p n) = r"
  "o_path (outcome a r p n) = p" "o_node (outcome a r p n) = n"
  "o_retryable (outcome a r p n) = None" "o_scope (outcome a r p n) = None"
  by (simp_all add: outcome_def)

section \<open>Verdict validation\<close>

fun validate_edges :: "string list \<Rightarrow> string list \<Rightarrow> json list \<Rightarrow> string list res" where
  "validate_edges cands seen [] = Inr seen"
| "validate_edges cands seen (edge # es) =
     (case edge of
        JObj d \<Rightarrow>
          if \<not> keys_are [''node_id'', ''reason''] d then Inl (GraphUnavailable ''invalid_edge'')
          else (case dget d ''node_id'' of
              JStr nid \<Rightarrow>
                if nid \<notin> set cands \<or> nid \<in> set seen
                then Inl (GraphUnavailable ''unknown_future_or_duplicate_dependency'')
                else if \<not> text_upto 4000 (dget d ''reason'')
                then Inl (GraphUnavailable ''invalid_edge_reason'')
                else validate_edges cands (nid # seen) es
            | _ \<Rightarrow> Inl (GraphUnavailable ''unknown_future_or_duplicate_dependency''))
      | _ \<Rightarrow> Inl (GraphUnavailable ''invalid_edge''))"

definition validate_verdict :: "json \<Rightarrow> string list \<Rightarrow> dict res" where
  "validate_verdict value cands =
     (case value of
        JObj d \<Rightarrow>
          if \<not> keys_are [''externality'', ''complete'', ''reason'', ''dependencies''] d
          then Inl (GraphUnavailable ''invalid_verdict'')
          else if dget d ''externality'' \<notin> {JStr ''local'', JStr ''external'', JStr ''unknown''}
          then Inl (GraphUnavailable ''invalid_externality'')
          else if \<not> is_bool (dget d ''complete'')
          then Inl (GraphUnavailable ''invalid_completeness'')
          else if \<not> text_upto 4000 (dget d ''reason'')
          then Inl (GraphUnavailable ''invalid_reason'')
          else if \<not> is_arr (dget d ''dependencies'')
          then Inl (GraphUnavailable ''invalid_dependencies'')
          else (case validate_edges cands [] (the_arr (dget d ''dependencies'')) of
              Inl e \<Rightarrow> Inl e
            | Inr seen \<Rightarrow> Inr d)
      | _ \<Rightarrow> Inl (GraphUnavailable ''invalid_verdict''))"

text \<open>The parents a validated verdict names, in its order.\<close>

definition edge_parent :: "json \<Rightarrow> string" where
  "edge_parent e = the_str (dget (the_obj e) ''node_id'')"

definition verdict_parents :: "dict \<Rightarrow> string list" where
  "verdict_parents d = map edge_parent (the_arr (dget d ''dependencies''))"

lemma validate_edges_sound:
  "validate_edges cands seen es = Inr seen' \<Longrightarrow> set seen \<subseteq> set cands \<Longrightarrow> distinct seen \<Longrightarrow>
     seen' = rev (map edge_parent es) @ seen \<and> distinct seen' \<and> set seen' \<subseteq> set cands"
proof (induction es arbitrary: seen)
  case Nil
  then show ?case by simp
next
  case (Cons e es)
  from Cons.prems(1) obtain d nid where *:
    "e = JObj d" "dget d ''node_id'' = JStr nid" "nid \<in> set cands" "nid \<notin> set seen"
    "validate_edges cands (nid # seen) es = Inr seen'"
    by (auto split: json.splits if_splits)
  then have nid: "edge_parent e = nid" by (simp add: edge_parent_def)
  have "seen' = rev (map edge_parent es) @ (nid # seen) \<and> distinct seen' \<and> set seen' \<subseteq> set cands"
    by (rule Cons.IH) (use * Cons.prems(2,3) in auto)
  moreover have "rev (map edge_parent (e # es)) @ seen = rev (map edge_parent es) @ (nid # seen)"
    by (simp add: nid)
  ultimately show ?case by metis
qed

lemma validate_verdict_parents:
  assumes "validate_verdict v cands = Inr d"
  shows "v = JObj d \<and> distinct (verdict_parents d) \<and> set (verdict_parents d) \<subseteq> set cands
     \<and> is_bool (dget d ''complete'')
     \<and> dget d ''externality'' \<in> {JStr ''local'', JStr ''external'', JStr ''unknown''}"
proof -
  from assms obtain seen where v: "v = JObj d"
    and seen: "validate_edges cands [] (the_arr (dget d ''dependencies'')) = Inr seen"
    and *: "is_bool (dget d ''complete'')"
      "dget d ''externality'' \<in> {JStr ''local'', JStr ''external'', JStr ''unknown''}"
    by (auto simp: validate_verdict_def split: json.splits if_splits sum.splits)
  have "seen = rev (verdict_parents d) \<and> distinct seen \<and> set seen \<subseteq> set cands"
    using validate_edges_sound [OF seen] unfolding verdict_parents_def
    by (metis append_Nil2 bot_least list.set(1) distinct.simps(1))
  then have "distinct (verdict_parents d) \<and> set (verdict_parents d) \<subseteq> set cands"
    by (metis distinct_rev set_rev)
  with v * show ?thesis by blast
qed

section \<open>Breadth-first search for a protected path\<close>

definition out_of :: "('n \<times> 'n list) list \<Rightarrow> 'n \<Rightarrow> 'n list" where
  "out_of edges n = (case map_of edges n of None \<Rightarrow> [] | Some ps \<Rightarrow> ps)"

definition edge_targets :: "('n \<times> 'n list) list \<Rightarrow> 'n set" where
  "edge_targets edges = (\<Union>x \<in> set edges. set (snd x))"

lemma out_of_targets: "set (out_of edges n) \<subseteq> edge_targets edges"
proof (cases "map_of edges n")
  case (Some ps)
  then have "(n, ps) \<in> set edges" by (rule map_of_SomeD)
  with Some show ?thesis by (auto simp: out_of_def edge_targets_def intro!: bexI [of _ "(n, ps)"])
qed (simp add: out_of_def)

lemma finite_edge_targets [simp]: "finite (edge_targets edges)"
  by (simp add: edge_targets_def)

function bfs_loop :: "('n \<times> 'n list) list \<Rightarrow> 'n list \<Rightarrow> ('n \<times> 'n list) list \<Rightarrow> 'n list \<Rightarrow> 'n list" where
  "bfs_loop edges roots [] seen = []"
| "bfs_loop edges roots ((current, path) # queue) seen =
     (if current \<in> set roots then rev path
      else if current \<in> set seen then bfs_loop edges roots queue seen
      else bfs_loop edges roots
             (queue @ map (\<lambda>parent. (parent, path @ [parent])) (out_of edges current))
             (current # seen))"
  by pat_completeness auto
termination
proof (relation "measures [\<lambda>(e, r, q, s). card ((edge_targets e \<union> fst ` set q) - set s),
                           \<lambda>(e, r, q, s). length q]", goal_cases)
  case 1
  show ?case by simp
next
  case (2 edges roots current path queue seen)
  let ?A = "(edge_targets edges \<union> fst ` set queue) - set seen"
  let ?B = "(edge_targets edges \<union> fst ` set ((current, path) # queue)) - set seen"
  have "card ?A \<le> card ?B" by (rule card_mono) auto
  then show ?case by auto
next
  case (3 edges roots current path queue seen)
  let ?q = "queue @ map (\<lambda>parent. (parent, path @ [parent])) (out_of edges current)"
  let ?A = "(edge_targets edges \<union> fst ` set ?q) - set (current # seen)"
  let ?B = "(edge_targets edges \<union> fst ` set ((current, path) # queue)) - set seen"
  have "?A \<subset> ?B" using 3 out_of_targets [of edges current] by (auto simp: image_iff)
  then have "card ?A < card ?B" by (intro psubset_card_mono) auto
  then show ?case by simp
qed

definition protected_path :: "'n \<Rightarrow> ('n \<times> 'n list) list \<Rightarrow> 'n list \<Rightarrow> 'n list" where
  "protected_path node edges roots = bfs_loop edges roots [(node, [node])] []"

abbreviation parent_of :: "('n \<times> 'n list) list \<Rightarrow> 'n \<Rightarrow> 'n \<Rightarrow> bool" where
  "parent_of edges c p \<equiv> p \<in> set (out_of edges c)"

lemma successively_snoc:
  "successively P (xs @ [y]) \<longleftrightarrow> successively P xs \<and> (xs = [] \<or> P (last xs) y)"
  by (induction xs rule: induct_list012) auto

lemma bfs_loop_sound:
  assumes "bfs_loop edges roots queue seen = xs" and "xs \<noteq> []"
    and "\<And>c p. (c, p) \<in> set queue \<Longrightarrow>
           p \<noteq> [] \<and> hd p = node \<and> last p = c \<and> successively (parent_of edges) p"
  shows "hd xs \<in> set roots \<and> last xs = node \<and> successively (\<lambda>p c. parent_of edges c p) xs"
  using assms
proof (induction edges roots queue seen rule: bfs_loop.induct)
  case (1 edges roots seen)
  then show ?case by simp
next
  case (2 edges roots current path queue seen)
  have p: "path \<noteq> []" "hd path = node" "last path = current" "successively (parent_of edges) path"
    using "2.prems"(3) [of current path] by auto
  consider "current \<in> set roots" | "current \<notin> set roots" "current \<in> set seen"
    | "current \<notin> set roots" "current \<notin> set seen" by blast
  then show ?case
  proof cases
    case 1
    with "2.prems"(1) have "xs = rev path" by simp
    with p 1 show ?thesis by (simp add: hd_rev last_rev successively_rev)
  next
    case 2
    have "bfs_loop edges roots queue seen = xs" using "2.prems"(1) 2 by simp
    then show ?thesis
      by (rule "2.IH"(1) [OF 2]) (use "2.prems"(2,3) in \<open>auto\<close>)
  next
    case 3
    let ?q = "queue @ map (\<lambda>parent. (parent, path @ [parent])) (out_of edges current)"
    have "bfs_loop edges roots ?q (current # seen) = xs" using "2.prems"(1) 3 by simp
    moreover have "p' \<noteq> [] \<and> hd p' = node \<and> last p' = c \<and> successively (parent_of edges) p'"
      if "(c, p') \<in> set ?q" for c p'
    proof (cases "(c, p') \<in> set queue")
      case False
      with that have "p' = path @ [c]" "parent_of edges current c" by auto
      with p show ?thesis by (simp add: successively_snoc)
    qed (use "2.prems"(3) in auto)
    ultimately show ?thesis by (intro "2.IH"(2) [OF 3]) (use "2.prems"(2) in blast)+
  qed
qed

lemma bfs_loop_complete:
  assumes "bfs_loop edges roots queue seen = []" and "\<And>c p. (c, p) \<in> set queue \<Longrightarrow> p \<noteq> []"
    and "\<And>s. s \<in> set seen \<Longrightarrow> s \<notin> set roots \<and> set (out_of edges s) \<subseteq> set seen \<union> fst ` set queue"
  shows "\<exists>S. set seen \<union> fst ` set queue \<subseteq> S \<and> S \<inter> set roots = {} \<and>
           (\<forall>s \<in> S. set (out_of edges s) \<subseteq> S)"
  using assms
proof (induction edges roots queue seen rule: bfs_loop.induct)
  case (1 edges roots seen)
  then show ?case by (intro exI [of _ "set seen"]) auto
next
  case (2 edges roots current path queue seen)
  have p: "path \<noteq> []" using "2.prems"(2) by auto
  consider "current \<in> set roots" | "current \<notin> set roots" "current \<in> set seen"
    | "current \<notin> set roots" "current \<notin> set seen" by blast
  then show ?case
  proof cases
    case 1
    with "2.prems"(1) p show ?thesis by simp
  next
    case 2
    have "\<exists>S. set seen \<union> fst ` set queue \<subseteq> S \<and> S \<inter> set roots = {} \<and>
           (\<forall>s \<in> S. set (out_of edges s) \<subseteq> S)"
    proof (rule "2.IH"(1) [OF 2])
      show "bfs_loop edges roots queue seen = []" using "2.prems"(1) 2 by simp
      show "\<And>c p. (c, p) \<in> set queue \<Longrightarrow> p \<noteq> []" using "2.prems"(2) by auto
      show "\<And>s. s \<in> set seen \<Longrightarrow>
          s \<notin> set roots \<and> set (out_of edges s) \<subseteq> set seen \<union> fst ` set queue"
        using "2.prems"(3) 2 by auto
    qed
    then obtain S where "set seen \<union> fst ` set queue \<subseteq> S" "S \<inter> set roots = {}"
      "\<forall>s \<in> S. set (out_of edges s) \<subseteq> S" by blast
    with 2 show ?thesis by (intro exI [of _ S]) auto
  next
    case 3
    let ?q = "queue @ map (\<lambda>parent. (parent, path @ [parent])) (out_of edges current)"
    have q: "fst ` set ?q = fst ` set queue \<union> set (out_of edges current)"
      by (simp add: image_Un image_image)
    have "\<exists>S. set (current # seen) \<union> fst ` set ?q \<subseteq> S \<and> S \<inter> set roots = {} \<and>
           (\<forall>s \<in> S. set (out_of edges s) \<subseteq> S)"
    proof (rule "2.IH"(2) [OF 3])
      show "bfs_loop edges roots ?q (current # seen) = []" using "2.prems"(1) 3 by simp
      show "\<And>c p. (c, p) \<in> set ?q \<Longrightarrow> p \<noteq> []" using "2.prems"(2) by auto
      show "\<And>s. s \<in> set (current # seen) \<Longrightarrow>
          s \<notin> set roots \<and> set (out_of edges s) \<subseteq> set (current # seen) \<union> fst ` set ?q"
        using "2.prems"(3) 3 unfolding q by auto
    qed
    then obtain S where "set (current # seen) \<union> fst ` set ?q \<subseteq> S" "S \<inter> set roots = {}"
      "\<forall>s \<in> S. set (out_of edges s) \<subseteq> S" by blast
    then show ?thesis unfolding q by (intro exI [of _ S]) auto
  qed
qed

lemma protected_path_sound:
  assumes "protected_path node edges roots \<noteq> []"
  shows "hd (protected_path node edges roots) \<in> set roots
    \<and> last (protected_path node edges roots) = node
    \<and> successively (\<lambda>p c. parent_of edges c p) (protected_path node edges roots)"
  using assms unfolding protected_path_def
  by (intro bfs_loop_sound [OF refl]) auto

lemma protected_path_complete:
  assumes "protected_path node edges roots = []" and "(parent_of edges)\<^sup>*\<^sup>* node r"
  shows "r \<notin> set roots"
proof -
  obtain S where S: "node \<in> S" "S \<inter> set roots = {}" "\<forall>s \<in> S. set (out_of edges s) \<subseteq> S"
    using bfs_loop_complete [of edges roots "[(node, [node])]" "[]"] assms(1)
    by (auto simp: protected_path_def)
  from assms(2) S(1) have "r \<in> S" by (induction rule: rtranclp_induct) (use S(3) in auto)
  with S(2) show ?thesis by auto
qed

lemma successively_rtranclp:
  "successively (\<lambda>p c. parent_of edges c p) xs \<Longrightarrow> xs \<noteq> [] \<Longrightarrow> (parent_of edges)\<^sup>*\<^sup>* (last xs) (hd xs)"
proof (induction xs rule: induct_list012)
  case (3 x y zs)
  then have "(parent_of edges)\<^sup>*\<^sup>* (last (y # zs)) y" and "parent_of edges y x" by auto
  then show ?case by (auto intro: rtranclp.rtrancl_into_rtrancl)
qed auto

end
