(* ===== verification/Calls.thy ===== *)
theory Calls
  imports Graph
begin

text \<open>
  \<open>engine/graph.py\<close>, second half: \<open>load_calls\<close> rebuilds the ToolCalls of one session
  from the journal (pairing each PreToolUse with its PostToolUse, refusing reuse, mismatch
  and histories over budget), and \<open>analyze\<close> judges them in order against the protected
  roots and records verdicts and edges.
\<close>

section \<open>ToolCall nodes\<close>

text \<open>
  The dictionary \<open>load_calls\<close> builds per ToolCall. \<open>c_extra\<close> holds the keys later
  stages add to it (\<open>resource_observations\<close>, \<open>payload_observations\<close>, \<open>required_output\<close>
  and so on), in insertion order.
\<close>

record call_node =
  c_node :: string
  c_event :: string
  c_tool :: json
  c_input :: json
  c_cwd :: json
  c_root :: string
  c_resolved :: "string option"
  c_output :: json
  c_completed :: bool
  c_observation :: string
  c_definitions :: json
  c_catalog :: json
  c_extra :: dict

definition call_json :: "call_node \<Rightarrow> json" where
  "call_json c = JObj ([(''node_id'', JStr (c_node c)), (''event_id'', JStr (c_event c)),
     (''tool_name'', c_tool c), (''input'', c_input c), (''cwd'', c_cwd c),
     (''workspace_root'', JStr (c_root c)), (''resolved_cwd'', opt_json (c_resolved c)),
     (''output'', c_output c), (''completed'', JBool (c_completed c)),
     (''observation'', JStr (c_observation c)),
     (''definition_observations'', c_definitions c), (''resource_catalog'', c_catalog c)]
     @ c_extra c)"

definition call_id :: "hash \<Rightarrow> string \<Rightarrow> string \<Rightarrow> string \<Rightarrow> string" where
  "call_id H ws sess tool = ''call:'' @ digest H (JArr [JStr ws, JStr sess, JStr tool])"

definition find_call :: "string \<Rightarrow> call_node list \<Rightarrow> call_node option" where
  "find_call nid calls = find (\<lambda>c. c_node c = nid) calls"

section \<open>Pairing the recorded events\<close>

text \<open>The event repeats the recorded invocation: same input, tool, working directories.\<close>

definition same_invocation :: "call_node \<Rightarrow> event_row \<Rightarrow> bool" where
  "same_invocation c r \<longleftrightarrow>
     py_eq (c_input c) (dget (er_payload r) ''tool_input'') \<and> py_eq (c_tool c) (er_tool_name r)
     \<and> py_eq (c_cwd c) (dget (er_payload r) ''cwd'') \<and> c_root c = er_root r
     \<and> c_resolved c = er_execution_cwd r"

definition fresh_call :: "string \<Rightarrow> event_row \<Rightarrow> json \<Rightarrow> bool \<Rightarrow> string \<Rightarrow> call_node" where
  "fresh_call nid r out done obs =
     \<lparr>c_node = nid, c_event = er_event r, c_tool = er_tool_name r,
      c_input = dget (er_payload r) ''tool_input'', c_cwd = dget (er_payload r) ''cwd'',
      c_root = er_root r, c_resolved = er_execution_cwd r, c_output = out, c_completed = done,
      c_observation = obs,
      c_definitions = dget_or (JObj []) (er_payload r) ''_tooluseproxy_definitions'',
      c_catalog = dget (er_payload r) ''_tooluseproxy_resource_catalog'', c_extra = []\<rparr>"

text \<open>The body of the loop, after the budget checks and the identity of the call.\<close>

definition load_step :: "string \<Rightarrow> event_row \<Rightarrow> call_node list \<Rightarrow> call_node list res" where
  "load_step nid r calls =
     (if er_phase r = ''pre_tool_use'' then
        (case find_call nid calls of
           Some previous \<Rightarrow>
             if c_completed previous \<or> \<not> same_invocation previous r
             then Inl (GraphUnavailable ''reused_tool_use_id'')
             else Inr (upd_where (\<lambda>c. c_node c = nid) (\<lambda>c. c\<lparr>c_event := er_event r\<rparr>) calls)
         | None \<Rightarrow> Inr (calls @ [fresh_call nid r JNull False ''pre'']))
      else
        (case find_call nid calls of
           None \<Rightarrow>
             if \<not> has_key (er_payload r) ''tool_input'' \<or> \<not> has_key (er_payload r) ''tool_response''
             then Inl (GraphUnavailable ''post_observation_incomplete'')
             else Inr (calls @ [fresh_call nid r (dget (er_payload r) ''tool_response'') True ''post_only''])
         | Some node \<Rightarrow>
             if \<not> same_invocation node r then Inl (GraphUnavailable ''post_tool_input_mismatch'')
             else if c_completed node \<and> \<not> py_eq (c_output node) (dget (er_payload r) ''tool_response'')
             then Inl (GraphUnavailable ''conflicting_post_observation'')
             else Inr (upd_where (\<lambda>c. c_node c = nid)
               (\<lambda>c. c\<lparr>c_output := dget (er_payload r) ''tool_response'', c_completed := True,
                      c_event := er_event r,
                      c_observation := (if c_observation c = ''pre'' then ''paired'' else c_observation c)\<rparr>)
               calls)))"

fun load_rows :: "hash \<Rightarrow> string \<Rightarrow> string \<Rightarrow> nat \<Rightarrow> nat \<Rightarrow> nat \<Rightarrow> nat \<Rightarrow> event_row list
    \<Rightarrow> call_node list \<Rightarrow> call_node list res" where
  "load_rows H ws sess maxev maxby num used [] calls = Inr calls"
| "load_rows H ws sess maxev maxby num used (r # rows) calls =
     (let used = used + json_bytes (JObj (er_payload r)) in
      if maxev \<le> num \<or> maxby < used then Inl (GraphUnavailable ''history_budget_exceeded'')
      else case er_tool_use r of
          None \<Rightarrow> Inl (GraphUnavailable ''tool_use_id_missing'')
        | Some tool \<Rightarrow>
            if tool = [] then Inl (GraphUnavailable ''tool_use_id_missing'')
            else (case load_step (call_id H ws sess tool) r calls of
                Inl e \<Rightarrow> Inl e
              | Inr calls' \<Rightarrow> load_rows H ws sess maxev maxby (Suc num) used rows calls'))"

definition in_scope :: "string \<Rightarrow> string \<Rightarrow> nat \<Rightarrow> nat \<Rightarrow> event_row \<Rightarrow> bool" where
  "in_scope ws sess lo hi r \<longleftrightarrow> er_workspace r = ws \<and> er_session r = Some sess
     \<and> er_seq r \<le> hi \<and> lo < er_seq r
     \<and> (er_phase r = ''pre_tool_use'' \<or> er_phase r = ''post_tool_use'')"

definition scope_rows :: "event_row list \<Rightarrow> boundaries \<Rightarrow> string \<Rightarrow> string \<Rightarrow> nat \<Rightarrow> event_row list" where
  "scope_rows evs bs ws sess hi =
     sort_key er_seq (filter (in_scope ws sess (boundary_of bs ws) hi) evs)"

definition load_calls :: "hash \<Rightarrow> event_row list \<Rightarrow> boundaries \<Rightarrow> string \<Rightarrow> string \<Rightarrow> string
    \<Rightarrow> nat \<Rightarrow> nat \<Rightarrow> call_node list res" where
  "load_calls H evs bs ws sess event maxev maxby =
     (case event_by_id evs event of
        None \<Rightarrow> Inl (GraphUnavailable ''event_missing'')
      | Some e \<Rightarrow> load_rows H ws sess maxev maxby 0 0
                    (take (maxev + 1) (scope_rows evs bs ws sess (er_seq e))) [])"

section \<open>What the reconstruction guarantees\<close>

definition row_call :: "hash \<Rightarrow> string \<Rightarrow> string \<Rightarrow> event_row \<Rightarrow> string" where
  "row_call H ws sess r =
     call_id H ws sess (case er_tool_use r of None \<Rightarrow> [] | Some t \<Rightarrow> t)"

definition rows_bytes :: "event_row list \<Rightarrow> nat" where
  "rows_bytes rows = sum_list (map (\<lambda>r. json_bytes (JObj (er_payload r))) rows)"

text \<open>
  The calls mirror the rows read so far: one node per ToolCall identity, completed exactly
  when a PostToolUse was among the rows, with the output of the last of them.
\<close>

definition posts :: "hash \<Rightarrow> string \<Rightarrow> string \<Rightarrow> event_row list \<Rightarrow> string \<Rightarrow> event_row list" where
  "posts H ws sess rows nid =
     filter (\<lambda>r. row_call H ws sess r = nid \<and> er_phase r \<noteq> ''pre_tool_use'') rows"

definition mirrors_call :: "hash \<Rightarrow> string \<Rightarrow> string \<Rightarrow> event_row list \<Rightarrow> call_node \<Rightarrow> bool" where
  "mirrors_call H ws sess rows c \<longleftrightarrow>
     (if c_completed c then posts H ws sess rows (c_node c) \<noteq> [] \<and>
        c_output c = dget (er_payload (last (posts H ws sess rows (c_node c)))) ''tool_response''
      else posts H ws sess rows (c_node c) = [])"

definition mirrors :: "hash \<Rightarrow> string \<Rightarrow> string \<Rightarrow> event_row list \<Rightarrow> call_node list \<Rightarrow> bool" where
  "mirrors H ws sess rows calls \<longleftrightarrow>
     distinct (map c_node calls) \<and> c_node ` set calls = row_call H ws sess ` set rows \<and>
     (\<forall>c \<in> set calls. mirrors_call H ws sess rows c)"

lemma posts_snoc: "posts H ws sess (rows @ [r]) k = posts H ws sess rows k @
    (if row_call H ws sess r = k \<and> er_phase r \<noteq> ''pre_tool_use'' then [r] else [])"
  by (simp add: posts_def)

lemma posts_none: "k \<notin> row_call H ws sess ` set rows \<Longrightarrow> posts H ws sess rows k = []"
  by (auto simp: posts_def filter_empty_conv)

lemma find_call_Some: "find_call nid calls = Some c \<Longrightarrow> c \<in> set calls \<and> c_node c = nid"
  by (auto simp: find_call_def dest: find_Some_in)

lemma find_call_None: "find_call nid calls = None \<longleftrightarrow> nid \<notin> c_node ` set calls"
  by (auto simp: find_call_def find_None_all)

lemma map_node_upd: "(\<And>c. c_node (f c) = c_node c) \<Longrightarrow> map c_node (upd_where p f calls) = map c_node calls"
  by (simp add: upd_where_def)

lemma mirrors_new:
  assumes "mirrors H ws sess rows calls" and "c_node c \<notin> c_node ` set calls"
    and "row_call H ws sess r = c_node c"
    and "c_completed c \<longleftrightarrow> er_phase r \<noteq> ''pre_tool_use''"
    and "c_completed c \<Longrightarrow> c_output c = dget (er_payload r) ''tool_response''"
  shows "mirrors H ws sess (rows @ [r]) (calls @ [c])"
proof -
  have "posts H ws sess rows (c_node c) = []"
    by (rule posts_none) (use assms(1,2) in \<open>simp add: mirrors_def\<close>)
  with assms(3,4,5) have "mirrors_call H ws sess (rows @ [r]) c"
    by (auto simp: mirrors_call_def posts_snoc)
  moreover have "mirrors_call H ws sess (rows @ [r]) x" if "x \<in> set calls" for x
  proof -
    have "c_node x \<noteq> c_node c" using that assms(2) by (metis imageI)
    then show ?thesis
      using that assms(1,3) by (simp add: mirrors_def mirrors_call_def posts_snoc)
  qed
  ultimately show ?thesis using assms(1,2,3) by (auto simp: mirrors_def)
qed

lemma mirrors_upd:
  assumes m: "mirrors H ws sess rows calls" and c: "k \<in> c_node ` set calls"
    and r: "row_call H ws sess r = k"
    and f: "\<And>x. c_node (f x) = c_node x"
    and pre: "er_phase r = ''pre_tool_use'' \<Longrightarrow>
       (\<forall>x. c_completed (f x) = c_completed x \<and> c_output (f x) = c_output x)"
    and post: "er_phase r \<noteq> ''pre_tool_use'' \<Longrightarrow>
       (\<forall>x. c_completed (f x) \<and> c_output (f x) = dget (er_payload r) ''tool_response'')"
  shows "mirrors H ws sess (rows @ [r]) (upd_where (\<lambda>x. c_node x = k) f calls)"
proof -
  have n: "map c_node (upd_where (\<lambda>x. c_node x = k) f calls) = map c_node calls"
    by (rule map_node_upd) (rule f)
  then have n': "c_node ` set (upd_where (\<lambda>x. c_node x = k) f calls) = c_node ` set calls"
    by (metis list.set_map)
  have old: "k \<in> row_call H ws sess ` set rows" using m c unfolding mirrors_def by blast
  have "mirrors_call H ws sess (rows @ [r]) (if c_node x = k then f x else x)"
    if "x \<in> set calls" for x
    using m that pre post unfolding mirrors_def
    by (cases "er_phase r = ''pre_tool_use''") (auto simp: mirrors_call_def posts_snoc f r)
  then have "\<forall>c \<in> set (upd_where (\<lambda>x. c_node x = k) f calls). mirrors_call H ws sess (rows @ [r]) c"
    unfolding set_upd_where by blast
  then show ?thesis
    using m old r unfolding mirrors_def n n' by (auto simp: insert_absorb)
qed

lemma load_step_mirrors:
  assumes "load_step nid r calls = Inr calls'" and "nid = row_call H ws sess r"
    and "mirrors H ws sess rows calls"
  shows "mirrors H ws sess (rows @ [r]) calls'"
proof (cases "find_call nid calls")
  case None
  then have "nid \<notin> c_node ` set calls" by (simp add: find_call_None)
  with None assms show ?thesis
    by (auto simp: load_step_def fresh_call_def split: if_splits intro!: mirrors_new)
next
  case (Some c)
  then have c: "c \<in> set calls" "c_node c = nid" by (auto dest: find_call_Some)
  then have k: "nid \<in> c_node ` set calls" by auto
  note upd = mirrors_upd [OF assms(3) k [unfolded assms(2)]]
  from Some assms(1,2) show ?thesis
    by (auto simp: load_step_def split: if_splits intro!: upd)
qed

lemma load_rows_mirrors:
  assumes "load_rows H ws sess maxev maxby num used rows calls = Inr calls'"
    and "mirrors H ws sess done calls"
  shows "mirrors H ws sess (done @ rows) calls' \<and> (rows \<noteq> [] \<longrightarrow> num + length rows \<le> maxev)
    \<and> (rows \<noteq> [] \<longrightarrow> used + rows_bytes rows \<le> maxby)"
  using assms
proof (induction rows arbitrary: num used calls "done")
  case Nil
  then show ?case by simp
next
  case (Cons r rows)
  let ?t = "used + json_bytes (JObj (er_payload r))"
  from Cons.prems(1) obtain tool calls2 where
    b: "num < maxev" "?t \<le> maxby" and t: "er_tool_use r = Some tool"
    and s: "load_step (call_id H ws sess tool) r calls = Inr calls2"
    and rest: "load_rows H ws sess maxev maxby (Suc num) ?t rows calls2 = Inr calls'"
    by (auto simp: Let_def split: if_splits option.splits sum.splits)
  have "mirrors H ws sess (done @ [r]) calls2"
    using s by (rule load_step_mirrors) (simp_all add: row_call_def t Cons.prems(2))
  from Cons.IH [OF rest this] b show ?case by (auto simp: rows_bytes_def)
qed

lemma load_calls_ok:
  assumes "load_calls H evs bs ws sess event maxev maxby = Inr calls"
    and "event_by_id evs event = Some e"
  shows "length (scope_rows evs bs ws sess (er_seq e)) \<le> maxev
    \<and> rows_bytes (scope_rows evs bs ws sess (er_seq e)) \<le> maxby
    \<and> mirrors H ws sess (scope_rows evs bs ws sess (er_seq e)) calls"
proof -
  let ?rows = "scope_rows evs bs ws sess (er_seq e)"
  have "load_rows H ws sess maxev maxby 0 0 (take (maxev + 1) ?rows) [] = Inr calls"
    using assms by (simp add: load_calls_def)
  from load_rows_mirrors [OF this, of "[]"]
  have *: "mirrors H ws sess (take (maxev + 1) ?rows) calls"
      "take (maxev + 1) ?rows \<noteq> [] \<longrightarrow> length (take (maxev + 1) ?rows) \<le> maxev"
      "take (maxev + 1) ?rows \<noteq> [] \<longrightarrow> rows_bytes (take (maxev + 1) ?rows) \<le> maxby"
    by (simp_all add: mirrors_def)
  have "length ?rows \<le> maxev"
  proof (rule ccontr)
    assume "\<not> length ?rows \<le> maxev"
    then have "length (take (maxev + 1) ?rows) = maxev + 1" by simp
    with *(2) show False by (metis add_eq_0_iff_both_eq_0 length_0_conv not_add_less1 not_less one_neq_zero less_add_one)
  qed
  then have t: "take (maxev + 1) ?rows = ?rows" by simp
  from \<open>length ?rows \<le> maxev\<close> * show ?thesis
    unfolding t by (cases "?rows = []") (auto simp: rows_bytes_def)
qed

text \<open>
  C28. The reconstruction of a session's ToolCalls never drops or truncates history. When it
  returns, every recorded event of the scope (after the recording boundary, up to the judged
  event) was read and fits both budgets, there is exactly one node per ToolCall identity,
  a node counts as completed exactly when a PostToolUse of that call was recorded, and its
  output is the response of the last of them.
\<close>

theorem load_calls_mirrors_history:
  assumes "load_calls H evs bs ws sess event maxev maxby = Inr calls"
    and "event_by_id evs event = Some e"
  shows "length (scope_rows evs bs ws sess (er_seq e)) \<le> maxev
    \<and> rows_bytes (scope_rows evs bs ws sess (er_seq e)) \<le> maxby
    \<and> mirrors H ws sess (scope_rows evs bs ws sess (er_seq e)) calls"
  using assms by (rule load_calls_ok)

definition sample_pre :: event_row where
  "sample_pre = \<lparr>er_event = ''e1'', er_phase = ''pre_tool_use'', er_session = Some ''s'',
     er_tool_use = Some ''t1'', er_tool_name = JStr ''Bash'', er_workspace = ''w'', er_root = ''/w'',
     er_execution_cwd = Some ''/w'', er_payload = [(''tool_input'', JObj [])], er_seq = 1\<rparr>"

definition sample_post :: event_row where
  "sample_post = sample_pre\<lparr>er_event := ''e2'', er_phase := ''post_tool_use'', er_seq := 2,
     er_payload := [(''tool_input'', JObj []), (''tool_response'', JStr ''ok'')]\<rparr>"

theorem load_calls_mirrors_history_witness:
  "\<exists>calls. load_calls (\<lambda>x. x) [sample_pre, sample_post] [] ''w'' ''s'' ''e2'' 500 256000 = Inr calls
     \<and> mirrors (\<lambda>x. x) ''w'' ''s'' (scope_rows [sample_pre, sample_post] [] ''w'' ''s'' 2) calls"
proof -
  have e: "event_by_id [sample_pre, sample_post] ''e2'' = Some sample_post" by code_simp
  have "\<not> isl (load_calls (\<lambda>x. x) [sample_pre, sample_post] [] ''w'' ''s'' ''e2'' 500 256000)"
    by code_simp
  then obtain calls where
    c: "load_calls (\<lambda>x. x) [sample_pre, sample_post] [] ''w'' ''s'' ''e2'' 500 256000 = Inr calls"
    by (metis isl_def sum.exhaust)
  from load_calls_mirrors_history [OF c e] c show ?thesis by (auto simp: sample_post_def)
qed

end
