(* ===== verification/Requirements.thy ===== *)
theory Requirements
  imports Disk Calls
begin

text \<open>
  \<open>engine/requirements.py\<close>: the bounded acquisition of definition evidence a judge asked
  for, the retry loop around the judge, and the names of resources. \<open>records\<close> is the
  dictionary of the request; the file system, the directory listing and the judge act on a
  world \<open>'w\<close>. \<open>sha256\<close> is the hash parameter \<open>H\<close>.
\<close>

text \<open>
  \<open>ev_scan fd\<close> is \<open>os.scandir(fd)\<close>: the entries with their kind, and the error that
  ended the listing, if any. \<open>ev_resolve\<close> is \<open>str(Path(p).resolve())\<close>, \<open>ev_stat\<close> is
  \<open>Path(p).stat()\<close>, \<open>ev_entries\<close> lists a directory with the stamps of the entries.
  \<open>ev_runtime\<close> is the directory the running program is installed in;
  \<open>ev_sources\<close> gives what \<open>rglob('*.py')\<close> finds in its package and \<open>glob('*')\<close> in its viewer.
\<close>

record 'w evidence_env =
  ev_disk :: "'w disk"
  ev_scan :: "nat \<Rightarrow> 'w \<Rightarrow> ((string \<times> string) list \<times> exn option) \<times> 'w"
  ev_resolve :: "string \<Rightarrow> 'w \<Rightarrow> string res \<times> 'w"
  ev_stat :: "string \<Rightarrow> 'w \<Rightarrow> stamp res \<times> 'w"
  ev_entries :: "string \<Rightarrow> 'w \<Rightarrow> ((string \<times> string \<times> stamp res) list \<times> exn option) \<times> 'w"
  ev_runtime :: string
  ev_sources :: "'w \<Rightarrow> (string list \<times> string list) \<times> 'w"

section \<open>Which files may be read as evidence\<close>

text \<open>\<open>Path.suffix\<close>: from the last dot of the name, unless it is first or last.\<close>

definition pp_suffix :: "string \<Rightarrow> string" where
  "pp_suffix p =
     (let name = pp_name p; tail = takeWhile (\<lambda>c. c \<noteq> CHR ''.'') (rev name);
          i = length name - length tail - 1
      in if CHR ''.'' \<in> set name \<and> 0 < i \<and> tail \<noteq> [] then CHR ''.'' # rev tail else [])"

definition runtime_mentioned :: "string \<Rightarrow> json \<Rightarrow> bool" where
  "runtime_mentioned runtime v \<longleftrightarrow> sublist (runtime @ ''/'') (dumps False False v)"

definition owners :: "dict \<Rightarrow> dict list" where
  "owners records = map the_obj (dget records ''current_call'' # the_arr (dget_or (JArr []) records ''previous_calls''))"

definition evidence_roots :: "string \<Rightarrow> dict \<Rightarrow> string list" where
  "evidence_roots runtime records =
     pp_str (the_str (dget (the_obj (dget records ''current_call'')) ''workspace_root'')) #
     (if list_ex (\<lambda>n. runtime_mentioned runtime (dget n ''input'')) (owners records) then [runtime] else [])"

definition runtime_definition :: "string \<Rightarrow> string \<Rightarrow> bool" where
  "runtime_definition relative candidate \<longleftrightarrow>
     relative = ''tooluseproxy_plugin.py'' \<or> relative = ''hooks/run_cli.sh'' \<or> relative = ''hooks/run_cli.cmd'' \<or>
     starts_with ''tooluseproxy/'' relative \<and>
       (pp_suffix candidate = ''.py'' \<or> pp_suffix candidate = ''.js'' \<or> pp_suffix candidate = ''.css'' \<or> pp_suffix candidate = ''.html'')"

text \<open>The root a request falls under, the path relative to it, and the whole path.\<close>

definition evidence_place :: "string \<Rightarrow> dict \<Rightarrow> string \<Rightarrow> (string \<times> string \<times> string) res" where
  "evidence_place runtime records path =
     (let roots = evidence_roots runtime records; root = hd roots;
          candidate = (if is_absolute path then pp_str path else path_join root path)
      in case find (\<lambda>r. relative_to candidate r \<noteq> None) roots of
          None \<Rightarrow> Inl (ValueError ''outside_evidence_roots'')
        | Some selected \<Rightarrow>
            let relative = the (relative_to candidate selected) in
            if selected = runtime \<and> selected \<noteq> root \<and> \<not> runtime_definition relative candidate
            then Inl (ValueError ''not_a_runtime_definition'')
            else Inr (selected, relative, candidate))"

section \<open>Reading one definition\<close>

fun list_entries :: "nat \<Rightarrow> int \<Rightarrow> nat \<Rightarrow> (string \<times> string) list \<Rightarrow> (string \<times> string) list
    \<Rightarrow> ((string \<times> string) list \<times> nat) res" where
  "list_entries limit budget used acc [] = Inr (acc, used)"
| "list_entries limit budget used acc ((name, kind) # es) =
     (if name = CONTROL_FILE then list_entries limit budget used acc es
      else if limit \<le> length acc then Inl (ValueError ''directory_entry_budget'')
      else let used = used + length (utf8 name) + length kind + 40 in
           if budget < int used then Inl (ValueError ''directory_byte_budget'')
           else list_entries limit budget used (acc @ [(name, kind)]) es)"

definition entries_json :: "(string \<times> string) list \<Rightarrow> json" where
  "entries_json es = JArr (map (\<lambda>(n, k). JObj [(''name'', JStr n), (''kind'', JStr k)]) (sort_key fst es))"

definition receipt :: "dict \<Rightarrow> string \<Rightarrow> string \<Rightarrow> string \<Rightarrow> string \<Rightarrow> dict" where
  "receipt item kind content sha scope =
     dict_set ''temporal_scope'' (JStr scope) (dict_set ''sha256'' (JStr sha) (dict_set ''content'' (JStr content)
       (dict_set ''kind'' (JStr kind) (dict_set ''status'' (JStr ''observed'') item))))"

definition read_directory :: "hash \<Rightarrow> 'w evidence_env \<Rightarrow> nat \<Rightarrow> stamp \<Rightarrow> dict \<Rightarrow> int \<Rightarrow> nat \<Rightarrow> 'w \<Rightarrow> (dict res \<times> int) \<times> 'w" where
  "read_directory H e fd start item budget limit w =
     (let ((listing, failure), w) = ev_scan e fd w in
      case list_entries limit budget 0 [] listing of
        Inl x \<Rightarrow> ((Inl x, budget), w)
      | Inr (entries, used) \<Rightarrow>
          (case failure of
             Some x \<Rightarrow> ((Inl x, budget), w)
           | None \<Rightarrow>
             (case dk_fstat (ev_disk e) fd w of
                (Inl x, w) \<Rightarrow> ((Inl x, budget), w)
              | (Inr after, w) \<Rightarrow>
                  if fingerprint start \<noteq> fingerprint after then ((Inl (ValueError ''directory_changed''), budget), w)
                  else let content = dumps False True (entries_json entries) in
                       ((Inr (receipt item ''directory_entries'' content (H (utf8 content))
                          ''current_directory_not_historical_execution''), budget - int used), w))))"

definition observed_hashes :: "dict \<Rightarrow> string \<Rightarrow> json list" where
  "observed_hashes records candidate =
     remdups (filter (\<lambda>h. h \<noteq> JNull)
       (map (\<lambda>n. dget (the_obj (dget_or (JObj []) n ''definition_observations'')) candidate) (owners records)))"

definition read_definition :: "hash \<Rightarrow> 'w evidence_env \<Rightarrow> dict \<Rightarrow> string \<Rightarrow> nat \<Rightarrow> stamp \<Rightarrow> dict \<Rightarrow> int \<Rightarrow> 'w
    \<Rightarrow> (dict res \<times> int) \<times> 'w" where
  "read_definition H e records candidate fd start item budget w =
     (if st_type start \<noteq> Regular \<or> budget < int (st_size start) then ((Inl (ValueError ''definition_budget_or_type''), budget), w)
      else case dk_read (ev_disk e) fd (nat (budget + 1)) w of
        (Inl x, w) \<Rightarrow> ((Inl x, budget), w)
      | (Inr data, w) \<Rightarrow>
        if budget < int (length data) then ((Inl (ValueError ''definition_changed_or_large''), budget), w)
        else (case dk_fstat (ev_disk e) fd w of
            (Inl x, w) \<Rightarrow> ((Inl x, budget), w)
          | (Inr after, w) \<Rightarrow>
            if fingerprint start \<noteq> fingerprint after then ((Inl (ValueError ''definition_changed_or_large''), budget), w)
            else
              let budget = budget - int (length data); hs = observed_hashes records candidate; current = H data in
              if 1 < length hs then ((Inl (ValueError ''ambiguous_definition_observation''), budget), w)
              else if hs \<noteq> [] \<and> hd hs \<noteq> JStr current then ((Inl (ValueError ''definition_changed_since_observation''), budget), w)
              else (case utf8_decode data of
                  None \<Rightarrow> ((Inl (UnicodeError ''invalid utf-8''), budget), w)
                | Some content \<Rightarrow>
                    ((Inr (receipt item ''file_content'' content current
                       (if hs \<noteq> [] \<and> truthy (hd hs) then ''matches_hook_observation''
                        else ''current_definition_not_historical_execution'')), budget), w))))"

section \<open>Acquisition\<close>

text \<open>\<open>type(exc).__name__\<close>; of a database error only the base class is known here.\<close>

fun exn_class :: "exn \<Rightarrow> string" where
  "exn_class (ValueError m) = ''ValueError''"
| "exn_class (ResolutionError m) = ''ResolutionError''"
| "exn_class (UnicodeError m) = ''UnicodeDecodeError''"
| "exn_class (OSError m) = m"
| "exn_class (GraphUnavailable m) = ''GraphUnavailable''"
| "exn_class (ReviewRetry m) = ''ReviewRetry''"
| "exn_class (AuthorityError m) = ''AuthorityError''"
| "exn_class (JudgeProviderError m) = ''JudgeProviderError''"
| "exn_class (KeyError m) = ''KeyError''"
| "exn_class (TypeError m) = ''TypeError''"
| "exn_class (SqliteError m) = ''Error''"
| "exn_class (OtherError m) = m"
| "exn_class PriorityYield = ''PriorityYield''"
| "exn_class BackgroundDisabled = ''BackgroundDisabled''"
| "exn_class WorkBudget = ''WorkBudget''"

definition known_codes :: "string list" where
  "known_codes = [''outside_evidence_roots'', ''not_a_runtime_definition'', ''definition_budget_or_type'',
     ''definition_changed_or_large'', ''ambiguous_definition_observation'', ''definition_changed_since_observation'',
     ''directory_entry_budget'', ''directory_byte_budget'', ''directory_changed'', ''control_state_not_payload'',
     ''resource_path_not_canonical_relative'']"

definition failure_code :: "exn \<Rightarrow> string" where
  "failure_code x = (case x of
      ValueError m \<Rightarrow> if m \<in> set known_codes then m else ''evidence_unavailable''
    | OSError m \<Rightarrow> if m = ''FileNotFoundError'' then ''not_found''
                   else if m = ''PermissionError'' then ''permission_denied'' else ''evidence_unavailable''
    | _ \<Rightarrow> ''evidence_unavailable'')"

definition failed_receipt :: "exn \<Rightarrow> dict \<Rightarrow> dict" where
  "failed_receipt x item =
     dict_set ''failure_code'' (JStr (failure_code x)) (dict_set ''failure'' (JStr (exn_class x)) item)"

fun is_os_error :: "exn \<Rightarrow> bool" where
  "is_os_error (OSError m) = True"
| "is_os_error e = False"

text \<open>The \<open>try\<close> block of the loop, and its body with the \<open>except\<close> clause: one outcome,
  and the budget left for the next request.\<close>

definition read_evidence :: "hash \<Rightarrow> 'w evidence_env \<Rightarrow> dict \<Rightarrow> nat \<Rightarrow> string \<Rightarrow> dict \<Rightarrow> int \<Rightarrow> 'w \<Rightarrow> (dict res \<times> int) \<times> 'w" where
  "read_evidence H e records limit path item budget w =
     (case evidence_place (ev_runtime e) records path of
        Inl x \<Rightarrow> ((Inl x, budget), w)
      | Inr (selected, relative, candidate) \<Rightarrow>
        (case open_resource (ev_disk e) selected (JStr relative) w of
           (Inl x, w) \<Rightarrow> ((Inl x, budget), w)
         | (Inr (fd, dir, name), w) \<Rightarrow>
           (case dk_fstat (ev_disk e) fd w of
              (Inl x, w) \<Rightarrow> ((Inl x, budget), w)
            | (Inr start, w) \<Rightarrow>
                if st_type start = Directory then read_directory H e fd start item budget limit w
                else read_definition H e records candidate fd start item budget w)))"

definition blank_receipt :: "dict \<Rightarrow> dict" where
  "blank_receipt request =
     [(''path'', dget request ''path''), (''reason'', dget request ''reason''), (''status'', JStr ''unavailable'')]"

definition acquire_one :: "hash \<Rightarrow> 'w evidence_env \<Rightarrow> dict \<Rightarrow> nat \<Rightarrow> dict \<Rightarrow> int \<Rightarrow> 'w \<Rightarrow> (dict res \<times> int) \<times> 'w" where
  "acquire_one H e records limit request budget w =
     (case read_evidence H e records limit (the_str (dget request ''path'')) (blank_receipt request) budget w of
        ((Inr item, budget), w) \<Rightarrow> ((Inr item, budget), w)
      | ((Inl x, budget), w) \<Rightarrow>
          if is_value_error x \<or> is_os_error x then ((Inr (failed_receipt x (blank_receipt request)), budget), w)
          else ((Inl x, budget), w))"

fun acquire :: "hash \<Rightarrow> 'w evidence_env \<Rightarrow> dict \<Rightarrow> nat \<Rightarrow> dict list \<Rightarrow> int \<Rightarrow> 'w \<Rightarrow> dict list res \<times> 'w" where
  "acquire H e records limit [] budget w = (Inr [], w)"
| "acquire H e records limit (r # rs) budget w =
     (case acquire_one H e records limit r budget w of
        ((Inl x, budget), w) \<Rightarrow> (Inl x, w)
      | ((Inr item, budget), w) \<Rightarrow>
          (case acquire H e records limit rs budget w of
             (Inl x, w) \<Rightarrow> (Inl x, w)
           | (Inr rest_out, w) \<Rightarrow> (Inr (item # rest_out), w)))"

definition BUDGET :: int where "BUDGET = 128000"
definition ENTRIES :: nat where "ENTRIES = 128"

section \<open>Asking the judge, with evidence\<close>

type_synonym 'w judge = "json \<Rightarrow> 'w \<Rightarrow> json res \<times> 'w"
type_synonym validator = "json \<Rightarrow> string list \<Rightarrow> dict res"
type_synonym shared_evidence = "(string \<times> dict) list"

record 'w inspecting =
  in_context :: dict
  in_shared :: shared_evidence
  in_seen :: "string list"
  in_receipts :: "dict list"
  in_failure :: "string option"
  in_world :: 'w

definition request_for :: "dict \<Rightarrow> dict" where
  "request_for item = [(''path'', dget item ''path''), (''reason'', dget item ''reason'')]"

definition status_observed :: "dict \<Rightarrow> bool" where
  "status_observed item \<longleftrightarrow> dget item ''status'' = JStr ''observed''"

text \<open>Evidence another review acquired is read again before it is used.\<close>

fun refresh_shared :: "hash \<Rightarrow> 'w evidence_env \<Rightarrow> dict \<Rightarrow> dict list \<Rightarrow> dict list \<Rightarrow> string list \<Rightarrow> 'w
    \<Rightarrow> (dict list \<times> string list) res \<times> 'w" where
  "refresh_shared H e context [] receipts seen w = (Inr (receipts, seen), w)"
| "refresh_shared H e context (item # items) receipts seen w =
     (case acquire H e context ENTRIES [request_for item] BUDGET w of
        (Inl x, w) \<Rightarrow> (Inl x, w)
      | (Inr current, w) \<Rightarrow>
          if current \<noteq> [] \<and> dget (hd current) ''sha256'' = dget item ''sha256'' \<and> status_observed (hd current)
          then refresh_shared H e context items (receipts @ current) (List.insert (the_str (dget item ''path'')) seen) w
          else refresh_shared H e context items receipts seen w)"

definition with_definitions :: "dict list \<Rightarrow> dict \<Rightarrow> dict" where
  "with_definitions receipts context = dict_set ''execution_definitions'' (JArr (map JObj receipts)) context"

definition feedback :: "string \<Rightarrow> json" where
  "feedback message = JObj [(''error'', JStr message), (''instruction'', JStr ''Return a corrected schema-valid assessment; do not change evidence or invent paths. Accesses must be canonical filesystem paths, never URLs.'')]"

fun share :: "dict list \<Rightarrow> shared_evidence \<Rightarrow> shared_evidence" where
  "share [] sh = sh"
| "share (item # items) sh = share items (dict_set (the_str (dget item ''path'')) item sh)"

fun inspect_loop :: "hash \<Rightarrow> 'w evidence_env \<Rightarrow> 'w judge \<Rightarrow> validator \<Rightarrow> string list \<Rightarrow> nat \<Rightarrow> 'w inspecting
    \<Rightarrow> dict res \<times> 'w inspecting" where
  "inspect_loop H e judge valid candidates 0 st = (Inl (OtherError ''UnboundLocalError''), st)"
| "inspect_loop H e judge valid candidates (Suc n) st =
     (case judge (JObj (in_context st)) (in_world st) of
        (Inl x, w) \<Rightarrow> (Inl x, st\<lparr>in_world := w\<rparr>)
      | (Inr raw, w) \<Rightarrow>
        (case valid raw candidates of
           Inl x \<Rightarrow>
             if \<not> is_value_error x \<or> n = 0 \<or> in_failure st = Some (exn_text x) then (Inl x, st\<lparr>in_world := w\<rparr>)
             else inspect_loop H e judge valid candidates n
               (st\<lparr>in_world := w, in_failure := Some (exn_text x),
                   in_context := dict_set ''validation_feedback'' (feedback (exn_text x)) (in_context st)\<rparr>)
         | Inr value \<Rightarrow>
             let requests = map the_obj (the_arr (dget_or (JArr []) value ''evidence_requests''));
                 pending = filter (\<lambda>r. the_str (dget r ''path'') \<notin> set (in_seen st)) requests in
             if truthy (dget value ''complete'') \<or> requests = [] \<or> pending = [] then (Inr value, st\<lparr>in_world := w\<rparr>)
             else
               let seen = fold (\<lambda>r. List.insert (the_str (dget r ''path''))) pending (in_seen st) in
               (case acquire H e (in_context st) ENTRIES pending BUDGET w of
                  (Inl x, w) \<Rightarrow> (Inl x, st\<lparr>in_world := w, in_seen := seen\<rparr>)
                | (Inr acquired, w) \<Rightarrow>
                    let receipts = in_receipts st @ acquired;
                        st = st\<lparr>in_world := w, in_seen := seen, in_receipts := receipts,
                                in_shared := share acquired (in_shared st),
                                in_context := with_definitions receipts (in_context st)\<rparr>
                    in if n = 0 then (Inr value, st) else inspect_loop H e judge valid candidates n st)))"

definition without_content :: "dict \<Rightarrow> dict" where
  "without_content r = filter (\<lambda>(k, v). k \<noteq> ''content'') r"

definition ROUNDS :: nat where "ROUNDS = 8"

definition inspect :: "hash \<Rightarrow> 'w evidence_env \<Rightarrow> dict \<Rightarrow> 'w judge \<Rightarrow> validator \<Rightarrow> string list \<Rightarrow> shared_evidence \<Rightarrow> 'w
    \<Rightarrow> dict res \<times> shared_evidence \<times> 'w" where
  "inspect H e records judge valid candidates shared w =
     (case refresh_shared H e records (map snd shared) [] [] w of
        (Inl x, w) \<Rightarrow> (Inl x, shared, w)
      | (Inr (receipts, seen), w) \<Rightarrow>
          let context = (if receipts \<noteq> [] then with_definitions receipts records else records);
              (r, st) = inspect_loop H e judge valid candidates ROUNDS
                \<lparr>in_context = context, in_shared = shared, in_seen = seen, in_receipts = receipts, in_failure = None, in_world = w\<rparr>
          in case r of
              Inl x \<Rightarrow> (Inl x, in_shared st, in_world st)
            | Inr value \<Rightarrow>
                (Inr (if in_receipts st \<noteq> []
                      then dict_set ''evidence_receipts'' (JArr (map (JObj \<circ> without_content) (in_receipts st))) value
                      else value), in_shared st, in_world st))"

definition reusable :: "hash \<Rightarrow> 'w evidence_env \<Rightarrow> dict \<Rightarrow> json \<Rightarrow> 'w \<Rightarrow> bool res \<times> 'w" where
  "reusable H e value node w =
     (let receipts = the_arr (dget_or (JArr []) value ''evidence_receipts'') in
      if receipts = [] then (Inr True, w)
      else case acquire H e [(''current_call'', node)] ENTRIES (map (request_for \<circ> the_obj) receipts) BUDGET w of
          (Inl x, w) \<Rightarrow> (Inl x, w)
        | (Inr refreshed, w) \<Rightarrow> (Inr (py_eq (JArr (map (JObj \<circ> without_content) refreshed)) (JArr receipts)), w))"

section \<open>Identities of runtime files and resources\<close>

fun hash_runtime :: "hash \<Rightarrow> 'w evidence_env \<Rightarrow> string list \<Rightarrow> dict \<Rightarrow> 'w \<Rightarrow> dict res \<times> 'w" where
  "hash_runtime H e [] acc w = (Inr acc, w)"
| "hash_runtime H e (path # ps) acc w =
     (let (r, w) =
        (case relative_to path (ev_runtime e) of
           None \<Rightarrow> (Inl (ValueError ''not in the subpath''), w)
         | Some relative \<Rightarrow>
           (case open_resource (ev_disk e) (ev_runtime e) (JStr relative) w of
              (Inl x, w) \<Rightarrow> (Inl x, w)
            | (Inr (fd, dir, name), w) \<Rightarrow>
              (case dk_fstat (ev_disk e) fd w of
                 (Inl x, w) \<Rightarrow> (Inl x, w)
               | (Inr start, w) \<Rightarrow>
                   if st_type start \<noteq> Regular \<or> 256000 < st_size start then (Inr None, w)
                   else (case dk_read (ev_disk e) fd 256001 w of
                       (Inl x, w) \<Rightarrow> (Inl x, w)
                     | (Inr data, w) \<Rightarrow>
                       (case dk_fstat (ev_disk e) fd w of
                          (Inl x, w) \<Rightarrow> (Inl x, w)
                        | (Inr after, w) \<Rightarrow>
                            if fingerprint start \<noteq> fingerprint after \<or> 256000 < length data then (Inr None, w)
                            else (Inr (Some (H data)), w))))))
      in case r of
          Inl x \<Rightarrow> if is_os_error x \<or> is_value_error x then hash_runtime H e ps acc w else (Inl x, w)
        | Inr None \<Rightarrow> hash_runtime H e ps acc w
        | Inr (Some h) \<Rightarrow> hash_runtime H e ps (dict_set path (JStr h) acc) w)"

definition observe_runtime_definitions :: "hash \<Rightarrow> 'w evidence_env \<Rightarrow> json \<Rightarrow> 'w \<Rightarrow> dict res \<times> 'w" where
  "observe_runtime_definitions H e tool_input w =
     (if \<not> runtime_mentioned (ev_runtime e) tool_input then (Inr [], w)
      else let ((modules, viewer), w) = ev_sources e w;
               paths = modules @ filter (\<lambda>p. pp_suffix p = ''.js'' \<or> pp_suffix p = ''.css'' \<or> pp_suffix p = ''.html'') viewer @
                 map (path_join (ev_runtime e)) [''tooluseproxy_plugin.py'', ''hooks/run_cli.sh'', ''hooks/run_cli.cmd'']
           in hash_runtime H e paths [] w)"

definition resource_identity :: "'w evidence_env \<Rightarrow> json \<Rightarrow> string \<Rightarrow> 'w \<Rightarrow> string res \<times> 'w" where
  "resource_identity e path workspace w =
     (case path of
        JStr p \<Rightarrow>
          if p = [] \<or> char_of (0::nat) \<in> set p then (Inl (ValueError ''invalid_resource_identity''), w)
          else if pp_name p = CONTROL_FILE then (Inl (ValueError ''control_state_not_resource_evidence''), w)
          else (case ev_resolve e workspace w of
              (Inl x, w) \<Rightarrow> (Inl x, w)
            | (Inr root, w) \<Rightarrow>
              (case (if is_absolute p then Inr (pp_str p) else case safe_parts path of Inl x \<Rightarrow> Inl x | Inr ps \<Rightarrow> Inr (path_join root p)) of
                 Inl x \<Rightarrow> (Inl x, w)
               | Inr candidate \<Rightarrow>
                 (case ev_resolve e candidate w of
                    (Inl x, w) \<Rightarrow> (Inl x, w)
                  | (Inr candidate, w) \<Rightarrow>
                      if pp_name candidate = CONTROL_FILE then (Inl (ValueError ''control_state_not_resource_evidence''), w)
                      else (Inr (case relative_to candidate root of Some r \<Rightarrow> r | None \<Rightarrow> candidate), w))))
      | _ \<Rightarrow> (Inl (ValueError ''invalid_resource_identity''), w))"

definition external_generation :: "'w evidence_env \<Rightarrow> string \<Rightarrow> 'w \<Rightarrow> int list res \<times> 'w" where
  "external_generation e path w =
     (case ev_stat e path w of
        (Inl x, w) \<Rightarrow> (Inl x, w)
      | (Inr s, w) \<Rightarrow> if st_type s \<noteq> Regular then (Inl (ValueError ''external_resource_not_regular''), w)
                     else (Inr (fingerprint s), w))"

fun managed_entries :: "string \<Rightarrow> nat \<Rightarrow> (string \<times> string \<times> stamp res) list \<Rightarrow> json list \<Rightarrow> (json list \<times> bool) res" where
  "managed_entries dir limit [] acc = Inr (acc, True)"
| "managed_entries dir limit ((name, kind, s) # es) acc =
     (if limit \<le> length acc then Inr (acc, False)
      else if name = CONTROL_FILE \<or> kind = ''symlink'' then managed_entries dir limit es acc
      else if kind = ''file'' then
        (case s of
           Inl x \<Rightarrow> Inl x
         | Inr s \<Rightarrow> managed_entries dir limit es
             (acc @ [JObj [(''path'', JStr (path_join dir name)), (''generation'', fingerprint_json (fingerprint s))]]))
      else managed_entries dir limit es acc)"

definition observe_managed_resources :: "'w evidence_env \<Rightarrow> string \<Rightarrow> nat \<Rightarrow> 'w \<Rightarrow> json res \<times> 'w" where
  "observe_managed_resources e directory limit w =
     (case ev_resolve e directory w of
        (Inl x, w) \<Rightarrow> (Inl x, w)
      | (Inr dir, w) \<Rightarrow>
          (let ((listing, failure), w) = ev_entries e dir w in
           case managed_entries dir limit listing [] of
             Inl x \<Rightarrow> (Inl x, w)
           | Inr (es, complete) \<Rightarrow>
               (case (complete, failure) of
                  (True, Some x) \<Rightarrow> (Inl x, w)
                | _ \<Rightarrow> (Inr (JObj [(''directory'', JStr dir), (''entries'', JArr es), (''complete'', JBool complete)]), w))))"

section \<open>What acquired evidence is\<close>

lemma utf8_utf8_decode: "utf8_decode bs = Some s \<Longrightarrow> utf8 s = bs"
proof (induction bs arbitrary: s rule: utf8_decode.induct)
  case (3 b c cs)
  show ?case
  proof (cases "(of_char b :: nat) < 128")
    case True
    with 3 show ?thesis by (auto simp: utf8_def utf8_char_def)
  next
    case False
    let ?n = "(of_char b - 192) * 64 + (of_char c - 128) :: nat"
    from False 3 obtain s' where s: "s = char_of ?n # s'" "utf8_decode cs = Some s'"
      and b: "(of_char b :: nat) = 194 \<or> (of_char b :: nat) = 195" and c: "128 \<le> (of_char c :: nat)" "(of_char c :: nat) < 192"
      by (auto split: if_splits)
    have n: "128 \<le> ?n" "?n < 256" using b c by auto
    have low: "of_char c - 128 < (64 :: nat)" using c by simp
    then have d: "?n div 64 = of_char b - 192" and m: "?n mod 64 = of_char c - 128" by simp_all
    have "utf8_char (char_of ?n) = [char_of (192 + ?n div 64), char_of (128 + ?n mod 64)]"
      using n by (simp add: utf8_char_def Let_def)
    also have "\<dots> = [b, c]" unfolding d m using b c by (auto simp: char_of_eq_iff)
    finally have "utf8_char (char_of ?n) = [b, c]" .
    moreover have "utf8 s' = cs" using 3 False b c s(2) by auto
    ultimately show ?thesis by (simp add: s(1) utf8_def)
  qed
qed (auto simp: utf8_def utf8_char_def split: if_splits)

definition file_bytes :: "dict \<Rightarrow> nat" where
  "file_bytes item = (if dget item ''kind'' = JStr ''file_content'' then length (utf8 (the_str (dget item ''content''))) else 0)"

definition place_ok :: "string \<Rightarrow> dict \<Rightarrow> dict \<Rightarrow> bool" where
  "place_ok runtime records request \<longleftrightarrow>
     (case evidence_place runtime records (the_str (dget request ''path'')) of
        Inl x \<Rightarrow> False
      | Inr (selected, relative, candidate) \<Rightarrow>
          \<not> isl (safe_parts (JStr relative)) \<and> pp_name relative \<noteq> CONTROL_FILE \<and>
          (selected = hd (evidence_roots runtime records) \<or>
           selected = runtime \<and> runtime_definition relative candidate \<and>
           list_ex (\<lambda>n. runtime_mentioned runtime (dget n ''input'')) (owners records)))"

definition evidence_ok :: "hash \<Rightarrow> string \<Rightarrow> dict \<Rightarrow> dict \<Rightarrow> dict \<Rightarrow> bool" where
  "evidence_ok H runtime records request item \<longleftrightarrow>
     dget item ''path'' = dget request ''path'' \<and> dget item ''reason'' = dget request ''reason'' \<and>
     (status_observed item \<longrightarrow> place_ok runtime records request \<and>
        dget item ''sha256'' = JStr (H (utf8 (the_str (dget item ''content'')))))"

lemma receipt_fields [simp]:
  "dget (receipt d kind content sha scope) ''status'' = JStr ''observed''"
  "dget (receipt d kind content sha scope) ''kind'' = JStr kind"
  "dget (receipt d kind content sha scope) ''content'' = JStr content"
  "dget (receipt d kind content sha scope) ''sha256'' = JStr sha"
  "dget (receipt d kind content sha scope) ''path'' = dget d ''path''"
  "dget (receipt d kind content sha scope) ''reason'' = dget d ''reason''"
  by (simp_all add: receipt_def)

lemma failed_receipt_fields [simp]:
  "dget (failed_receipt x d) ''status'' = dget d ''status''" "dget (failed_receipt x d) ''kind'' = dget d ''kind''"
  "dget (failed_receipt x d) ''path'' = dget d ''path''" "dget (failed_receipt x d) ''reason'' = dget d ''reason''"
  by (simp_all add: failed_receipt_def)

text \<open>A read gives a receipt for exactly the bytes it paid for.\<close>

definition paid :: "hash \<Rightarrow> dict \<Rightarrow> int \<Rightarrow> dict res \<times> int \<Rightarrow> bool" where
  "paid H d budget r \<longleftrightarrow> (0 \<le> budget \<longrightarrow> 0 \<le> snd r) \<and> snd r \<le> budget \<and>
     (case fst r of Inl x \<Rightarrow> True
      | Inr item \<Rightarrow> int (file_bytes item) \<le> budget - snd r \<and> dget item ''path'' = dget d ''path'' \<and> dget item ''reason'' = dget d ''reason'' \<and>
          dget item ''sha256'' = JStr (H (utf8 (the_str (dget item ''content'')))))"

lemma list_entries_budget:
  "list_entries limit budget used acc es = Inr (out, used') \<Longrightarrow> int used \<le> budget \<Longrightarrow> int used' \<le> budget"
  by (induction limit budget used acc es rule: list_entries.induct) (auto simp: Let_def split: if_splits)

lemma paid_error [simp]: "paid H d budget (Inl x, budget)"
  by (simp add: paid_def)

lemma read_directory_paid:
  assumes "read_directory H e fd start d budget limit w = (r, w')" and "0 \<le> budget"
  shows "paid H d budget r"
proof -
  from assms(1) consider x where "r = (Inl x, budget)"
    | listing entries used content where "list_entries limit budget 0 [] listing = Inr (entries, used)"
      "r = (Inr (receipt d ''directory_entries'' content (H (utf8 content)) ''current_directory_not_historical_execution''), budget - int used)"
    unfolding read_directory_def by (auto simp: Let_def split: prod.splits sum.splits option.splits if_splits)
  then show ?thesis
  proof cases
    case 2
    have "int used \<le> budget" using list_entries_budget [OF 2(1)] assms(2) by simp
    then show ?thesis by (simp add: 2(2) paid_def file_bytes_def)
  qed simp
qed

lemma read_definition_paid:
  assumes "read_definition H e records candidate fd start d budget w = (r, w')"
  shows "paid H d budget r"
proof -
  from assms consider x where "r = (Inl x, budget)"
    | left x where "r = (Inl x, left)" "0 \<le> left" "left \<le> budget"
    | data content scope where "utf8_decode data = Some content" "int (length data) \<le> budget"
      "r = (Inr (receipt d ''file_content'' content (H data) scope), budget - int (length data))"
    unfolding read_definition_def Let_def not_less
    by (fastforce split: prod.splits sum.splits option.splits if_splits)
  then show ?thesis
  proof cases
    case 3
    have "utf8 content = data" by (rule utf8_utf8_decode [OF 3(1)])
    then show ?thesis using 3(2) by (simp add: 3(3) paid_def file_bytes_def)
  qed (simp_all add: paid_def)
qed

lemma evidence_place_ok:
  assumes "evidence_place runtime records (the_str (dget request ''path'')) = Inr (selected, relative, candidate)"
    and "open_resource d selected (JStr relative) w = (Inr x, w')"
  shows "place_ok runtime records request"
proof -
  from assms(2) obtain ps where sp: "safe_parts (JStr relative) = Inr ps"
    by (auto simp: open_resource_def split: sum.splits)
  then have safe: "\<not> isl (safe_parts (JStr relative)) \<and> pp_name relative \<noteq> CONTROL_FILE"
    by (auto elim: safe_parts_ok)
  from assms(1) have sel: "selected \<in> set (evidence_roots runtime records)"
    and rt: "selected = runtime \<Longrightarrow> selected \<noteq> hd (evidence_roots runtime records) \<Longrightarrow> runtime_definition relative candidate"
    unfolding evidence_place_def Let_def by (auto split: option.splits if_splits dest: find_Some_in)
  have "selected = hd (evidence_roots runtime records) \<or>
      selected = runtime \<and> list_ex (\<lambda>n. runtime_mentioned runtime (dget n ''input'')) (owners records)"
    using sel by (auto simp: evidence_roots_def split: if_splits)
  then show ?thesis unfolding place_ok_def assms(1) using safe rt by auto
qed

lemma read_evidence_paid:
  assumes "read_evidence H e records limit (the_str (dget request ''path'')) item budget w = (r, w')" and "0 \<le> budget"
  shows "paid H item budget r \<and> (\<not> isl (fst r) \<longrightarrow> place_ok (ev_runtime e) records request)"
proof (cases "evidence_place (ev_runtime e) records (the_str (dget request ''path''))")
  case (Inl x)
  then show ?thesis using assms(1) by (auto simp: read_evidence_def)
next
  case place: (Inr z)
  obtain sel rel cand where z: "z = (sel, rel, cand)" by (metis prod_cases3)
  obtain ro w2 where ro: "open_resource (ev_disk e) sel (JStr rel) w = (ro, w2)" by fastforce
  show ?thesis
  proof (cases ro)
    case (Inl x)
    then show ?thesis using assms(1) place z ro by (auto simp: read_evidence_def)
  next
    case opened: (Inr y)
    obtain fd dir name where y: "y = (fd, dir, name)" by (metis prod_cases3)
    have pl: "place_ok (ev_runtime e) records request"
      by (rule evidence_place_ok [OF place [unfolded z] ro [unfolded opened]])
    obtain rs w3 where rs: "dk_fstat (ev_disk e) fd w2 = (rs, w3)" by fastforce
    show ?thesis
    proof (cases rs)
      case (Inl x)
      then show ?thesis using assms(1) place z ro opened y rs by (auto simp: read_evidence_def)
    next
      case (Inr start)
      then have "(if st_type start = Directory then read_directory H e fd start item budget limit w3
         else read_definition H e records cand fd start item budget w3) = (r, w')"
        using assms(1) place z ro opened y rs by (simp add: read_evidence_def)
      then have "paid H item budget r"
        using read_directory_paid [OF _ assms(2)] read_definition_paid by (metis (no_types))
      then show ?thesis using pl by simp
    qed
  qed
qed

lemma blank_fields [simp]:
  "dget (blank_receipt r) ''path'' = dget r ''path''" "dget (blank_receipt r) ''reason'' = dget r ''reason''"
  "dget (blank_receipt r) ''status'' = JStr ''unavailable''" "dget (blank_receipt r) ''kind'' = JNull"
  by (simp_all add: blank_receipt_def dget_or_def)

lemma acquire_one_ok:
  assumes "acquire_one H e records limit request budget w = ((Inr item, left), w')" and "0 \<le> budget"
  shows "evidence_ok H (ev_runtime e) records request item \<and> 0 \<le> left \<and> int (file_bytes item) \<le> budget - left"
proof -
  obtain r b w1 where r: "read_evidence H e records limit (the_str (dget request ''path'')) (blank_receipt request) budget w = ((r, b), w1)"
    by (metis prod.exhaust)
  note p = read_evidence_paid [OF r assms(2)]
  show ?thesis
  proof (cases r)
    case (Inl x)
    then have "item = failed_receipt x (blank_receipt request)" "left = b"
      using assms(1) r by (auto simp: acquire_one_def split: if_splits)
    then show ?thesis using p assms(2) by (simp add: paid_def evidence_ok_def status_observed_def file_bytes_def)
  next
    case (Inr y)
    then have "y = item" "left = b" using assms(1) r by (auto simp: acquire_one_def)
    then show ?thesis using p Inr assms(2) by (simp add: paid_def evidence_ok_def)
  qed
qed

lemma acquire_ok:
  assumes "acquire H e records limit requests budget w = (Inr out, w')" and "0 \<le> budget"
  shows "list_all2 (evidence_ok H (ev_runtime e) records) requests out \<and> int (sum_list (map file_bytes out)) \<le> budget"
  using assms
proof (induction requests arbitrary: budget w out)
  case (Cons r rs)
  from Cons.prems(1) obtain item left w1 items where one: "acquire_one H e records limit r budget w = ((Inr item, left), w1)"
    and rest: "acquire H e records limit rs left w1 = (Inr items, w')" and out: "out = item # items"
    by (auto split: prod.splits sum.splits)
  note ok = acquire_one_ok [OF one Cons.prems(2)]
  from Cons.IH [OF rest] ok show ?case by (auto simp: out)
qed simp

text \<open>C38. Acquired definition evidence is exact, bounded and confined: there is one outcome per
  request with its path and reason; an observed outcome comes from the workspace, or from the
  running program's own files when a recorded call mentions them, never from the control file
  or through a parent reference; its hash is the hash of its content; and all file contents
  together fit the byte budget.\<close>

theorem acquired_evidence_is_exact_and_bounded:
  assumes "acquire H e records ENTRIES requests BUDGET w = (Inr out, w')"
  shows "list_all2 (evidence_ok H (ev_runtime e) records) requests out \<and> sum_list (map file_bytes out) \<le> 128000"
  using acquire_ok [OF assms] by (simp add: BUDGET_def)

definition sample_env :: "unit evidence_env" where
  "sample_env = \<lparr>ev_disk = \<lparr>dk_open = (\<lambda>p w. (Inr 3, w)), dk_openat = (\<lambda>d n dir w. (Inr 4, w)),
       dk_fstat = (\<lambda>fd w. (Inr \<lparr>st_type = Regular, st_dev = 1, st_ino = 2, st_size = 4, st_mtime = 5, st_ctime = 6\<rparr>, w)),
       dk_read = (\<lambda>fd n w. (Inr ''pass'', w)), dk_lstat = (\<lambda>d n w. (Inl (OSError ''FileNotFoundError''), w))\<rparr>,
     ev_scan = (\<lambda>fd w. (([], None), w)), ev_resolve = (\<lambda>p w. (Inr p, w)),
     ev_stat = (\<lambda>p w. (Inl (OSError ''FileNotFoundError''), w)), ev_entries = (\<lambda>p w. (([], None), w)),
     ev_runtime = ''/opt/proxy'', ev_sources = (\<lambda>w. (([], []), w))\<rparr>"

definition sample_records :: dict where
  "sample_records = [(''current_call'', JObj [(''workspace_root'', JStr ''/w''), (''input'', JStr ''run'')])]"

definition sample_request :: dict where
  "sample_request = [(''path'', JStr ''tool.py''), (''reason'', JStr ''definition'')]"

theorem acquired_evidence_is_exact_and_bounded_witness:
  "\<exists>item. fst (acquire (\<lambda>b. b) sample_env sample_records ENTRIES [sample_request] BUDGET ()) = Inr [item] \<and>
     status_observed item \<and> evidence_ok (\<lambda>b. b) ''/opt/proxy'' sample_records sample_request item"
proof -
  have "(case fst (acquire (\<lambda>b. b) sample_env sample_records ENTRIES [sample_request] BUDGET ()) of
      Inl x \<Rightarrow> False | Inr out \<Rightarrow> length out = 1 \<and> status_observed (hd out))" by code_simp
  then obtain item where r: "fst (acquire (\<lambda>b. b) sample_env sample_records ENTRIES [sample_request] BUDGET ()) = Inr [item]"
    and o: "status_observed item" by (auto split: sum.splits simp: length_Suc_conv)
  then have "acquire (\<lambda>b. b) sample_env sample_records ENTRIES [sample_request] BUDGET () = (Inr [item], ())"
    by (simp add: prod_eq_iff)
  from acquired_evidence_is_exact_and_bounded [OF this] r o show ?thesis by (simp add: sample_env_def)
qed

section \<open>What the judge can answer\<close>

lemma inspect_loop_validated:
  "inspect_loop H e judge valid candidates n st = (Inr v, st') \<Longrightarrow> \<exists>raw. valid raw candidates = Inr v"
proof (induction n arbitrary: st)
  case (Suc n)
  obtain j w where j: "judge (JObj (in_context st)) (in_world st) = (j, w)" by fastforce
  show ?case
  proof (cases j)
    case (Inl x)
    then show ?thesis using Suc.prems j by simp
  next
    case (Inr raw)
    show ?thesis
    proof (cases "valid raw candidates")
      case (Inl x)
      then show ?thesis using Suc j Inr by (auto split: if_splits)
    next
      case (Inr y)
      let ?p = "filter (\<lambda>r. the_str (dget r ''path'') \<notin> set (in_seen st)) (map the_obj (the_arr (dget_or (JArr []) y ''evidence_requests'')))"
      obtain a w2 where "acquire H e (in_context st) ENTRIES ?p BUDGET w = (a, w2)" by fastforce
      with Suc.prems j \<open>j = Inr raw\<close> Inr have "v = y \<or> (\<exists>st2. inspect_loop H e judge valid candidates n st2 = (Inr v, st'))"
        by (cases a) (simp_all add: Let_def split: if_splits, blast+)
      then show ?thesis using Suc.IH Inr by blast
    qed
  qed
qed simp

text \<open>The retry loop returns only what the validator accepted: whatever the judge says, in any of
  its rounds, the value returned is the validated form of one of its answers, extended at most by
  the receipts of the evidence it was shown, with their contents left out.\<close>

theorem inspect_returns_a_validated_answer:
  assumes "inspect H e records judge valid candidates shared w = (Inr v, shared', w')"
  shows "\<exists>raw base. valid raw candidates = Inr base \<and>
    (v = base \<or> (\<exists>rs. v = dict_set ''evidence_receipts'' (JArr (map (JObj \<circ> without_content) rs)) base))"
proof -
  from assms obtain n st base st' where "inspect_loop H e judge valid candidates n st = (Inr base, st')"
    and v: "v = (if in_receipts st' \<noteq> [] then dict_set ''evidence_receipts'' (JArr (map (JObj \<circ> without_content) (in_receipts st'))) base else base)"
    unfolding inspect_def Let_def by (auto split: prod.splits sum.splits)
  then obtain raw where "valid raw candidates = Inr base" by (blast dest: inspect_loop_validated)
  with v show ?thesis by auto
qed

definition sample_judge :: "unit judge" where
  "sample_judge q w = (Inr (JObj [(''complete'', JBool (has_key (the_obj q) ''execution_definitions'')),
     (''evidence_requests'', JArr [JObj sample_request])]), w)"

definition sample_valid :: validator where
  "sample_valid raw candidates = (case raw of JObj d \<Rightarrow> Inr d | _ \<Rightarrow> Inl (ValueError ''invalid''))"

theorem inspect_returns_a_validated_answer_witness:
  "\<exists>v. fst (inspect (\<lambda>b. b) sample_env sample_records sample_judge sample_valid [] [] ()) = Inr v \<and>
     (\<exists>raw base. sample_valid raw [] = Inr base \<and>
       (v = base \<or> (\<exists>rs. v = dict_set ''evidence_receipts'' (JArr (map (JObj \<circ> without_content) rs)) base)))"
proof -
  have "\<not> isl (fst (inspect (\<lambda>b. b) sample_env sample_records sample_judge sample_valid [] [] ()))" by code_simp
  moreover obtain r sh where i: "inspect (\<lambda>b. b) sample_env sample_records sample_judge sample_valid [] [] () = (r, sh, ())"
    by (metis prod.exhaust old.unit.exhaust)
  ultimately obtain v where v: "r = Inr v" by (cases r) auto
  show ?thesis using inspect_returns_a_validated_answer [OF i [unfolded v]] i v by simp
qed

text \<open>
  The allow-list of codes names two that \<open>safe_parts\<close> raises; but it raises them as
  \<open>ResolutionError\<close>, a subclass, so the test \<open>type(exc) is ValueError\<close> never lets them through.
\<close>

lemma resolution_codes_are_hidden: "failure_code (ResolutionError m) = ''evidence_unavailable''"
  by (simp add: failure_code_def)

lemma control_file_code_is_hidden:
  "(case fst (acquire (\<lambda>b. b) sample_env sample_records ENTRIES [[(''path'', JStr CONTROL_FILE), (''reason'', JStr ''r'')]] BUDGET ()) of
      Inr [item] \<Rightarrow> dget item ''failure_code'' = JStr ''evidence_unavailable'' | _ \<Rightarrow> False)"
  by code_simp

end
