(* ===== verification/Property_Verdict.thy ===== *)
theory Property_Verdict
  imports Calls Posix_Path
begin

text \<open>
  \<open>engine/property_graph.py\<close>, first part: the controller's validation of a model verdict on
  one ToolCall. \<open>selection_texts\<close> and \<open>merge_selections\<close> normalise the selected
  fragments of a parent's output, \<open>validate\<close> checks and normalises the whole verdict, and
  \<open>validate_observed_dependencies\<close> checks the fragments against the recorded output.
\<close>

section \<open>Selections of observed output\<close>

definition valid_texts :: "json list \<Rightarrow> bool" where
  "valid_texts ts \<longleftrightarrow> ts \<noteq> [] \<and> list_all (\<lambda>t. is_str t \<and> the_str t \<noteq> []) ts
     \<and> sum_list (map (\<lambda>t. length (the_str t)) ts) \<le> 128000"

definition sorted_set :: "string list \<Rightarrow> string list" where
  "sorted_set xs = sort (remdups xs)"

definition selection_texts :: "json \<Rightarrow> string list res" where
  "selection_texts sel =
     (case sel of
        JObj d \<Rightarrow>
          if \<not> (keys_are [''text''] d \<or> keys_are [''texts''] d)
          then Inl (GraphUnavailable ''invalid_output_selection'')
          else let texts = (if has_key d ''text'' then JArr [dget d ''text''] else dget d ''texts'')
               in if \<not> is_arr texts \<or> \<not> valid_texts (the_arr texts)
                  then Inl (GraphUnavailable ''invalid_output_selection'')
                  else Inr (sorted_set (map the_str (the_arr texts)))
      | _ \<Rightarrow> Inl (GraphUnavailable ''invalid_output_selection''))"

definition make_selection :: "string list \<Rightarrow> json" where
  "make_selection texts =
     (if length texts = 1 then JObj [(''text'', JStr (hd texts))]
      else JObj [(''texts'', JArr (map JStr texts))])"

definition merge_selections :: "json \<Rightarrow> json \<Rightarrow> json res" where
  "merge_selections left right =
     (if left = JNull \<or> right = JNull then Inr JNull
      else case selection_texts left of Inl e \<Rightarrow> Inl e
      | Inr l \<Rightarrow> (case selection_texts right of Inl e \<Rightarrow> Inl e
      | Inr r \<Rightarrow>
          let result = make_selection (sorted_set (l @ r))
          in case selection_texts result of Inl e \<Rightarrow> Inl e | Inr _ \<Rightarrow> Inr result))"

section \<open>The verdict\<close>

text \<open>\<open>d.get("selection")\<close>; the merged edge keeps the later edge's other fields.\<close>

definition merge_edge :: "dict option \<Rightarrow> dict \<Rightarrow> dict res" where
  "merge_edge old edge =
     (case old of
        None \<Rightarrow> Inr edge
      | Some o_edge \<Rightarrow>
          (case merge_selections (dget o_edge ''selection'') (dget edge ''selection'') of
             Inl e \<Rightarrow> Inl e
           | Inr sel \<Rightarrow> Inr (dict_set ''selection'' sel edge)))"

fun validate_dependencies :: "string list \<Rightarrow> (string \<times> dict) list \<Rightarrow> json list \<Rightarrow> (string \<times> dict) list res" where
  "validate_dependencies cands acc [] = Inr acc"
| "validate_dependencies cands acc (edge # es) =
     (case edge of
        JObj d \<Rightarrow>
          if \<not> keys_are_opt [''selection''] [''node_id'', ''reason''] d \<or> \<not> is_str (dget d ''node_id'')
             \<or> the_str (dget d ''node_id'') \<notin> set cands \<or> \<not> text_upto 4000 (dget d ''reason'')
          then Inl (GraphUnavailable ''invalid_property_edge'')
          else
            let nid = the_str (dget d ''node_id'')
            in case (if dget d ''selection'' = JNull then Inr [] else selection_texts (dget d ''selection'')) of
                 Inl e \<Rightarrow> Inl e
               | Inr _ \<Rightarrow>
                 (case merge_edge (map_of acc nid) d of
                    Inl e \<Rightarrow> Inl e
                  | Inr merged \<Rightarrow> validate_dependencies cands (dict_set nid merged acc) es)
      | _ \<Rightarrow> Inl (GraphUnavailable ''invalid_property_edge''))"

definition canonical_access_path :: "string \<Rightarrow> bool" where
  "canonical_access_path path \<longleftrightarrow>
     path \<noteq> [] \<and> length path \<le> 4096 \<and> CHR 0x00 \<notin> set path \<and> path \<noteq> ''..''
     \<and> \<not> starts_with ''../'' path \<and> normpath path = path"

fun validate_accesses :: "((string \<times> string) \<times> dict) list \<Rightarrow> json list \<Rightarrow> ((string \<times> string) \<times> dict) list res" where
  "validate_accesses acc [] = Inr acc"
| "validate_accesses acc (a # as) =
     (case a of
        JObj d \<Rightarrow>
          if \<not> keys_are [''path'', ''mode'', ''reason''] d \<or> \<not> is_str (dget d ''path'')
             \<or> \<not> canonical_access_path (the_str (dget d ''path''))
             \<or> dget d ''mode'' \<notin> {JStr ''read'', JStr ''write''} \<or> \<not> text_upto 4000 (dget d ''reason'')
          then Inl (GraphUnavailable ''invalid_access'')
          else validate_accesses
                 (dict_set (the_str (dget d ''path''), the_str (dget d ''mode'')) d acc) as
      | _ \<Rightarrow> Inl (GraphUnavailable ''invalid_access''))"

definition valid_request :: "json \<Rightarrow> bool" where
  "valid_request r =
     (case r of JObj d \<Rightarrow> keys_are [''path'', ''reason''] d \<and>
        text_upto 4096 (dget d ''path'') \<and> text_upto 4096 (dget d ''reason'')
      | _ \<Rightarrow> False)"

definition validate :: "json \<Rightarrow> string list \<Rightarrow> dict res" where
  "validate value cands =
     (case value of
        JObj d \<Rightarrow>
          if \<not> keys_are_opt [''evidence_requests'', ''evidence_receipts'']
               [''externality'', ''complete'', ''reason'', ''dependencies'', ''accesses''] d
          then Inl (GraphUnavailable ''invalid_property_verdict'')
          else if dget d ''externality'' \<notin> {JStr ''local'', JStr ''external''} \<or> \<not> is_bool (dget d ''complete'')
          then Inl (GraphUnavailable ''invalid_property_classification'')
          else if \<not> text_upto 4000 (dget d ''reason'')
          then Inl (GraphUnavailable ''invalid_property_reason'')
          else if \<not> is_arr (dget d ''dependencies'') \<or> \<not> is_arr (dget d ''accesses'')
          then Inl (GraphUnavailable ''invalid_property_lists'')
          else
          (case validate_dependencies cands [] (the_arr (dget d ''dependencies'')) of
             Inl e \<Rightarrow> Inl e
           | Inr deps \<Rightarrow>
           (case validate_accesses [] (the_arr (dget d ''accesses'')) of
              Inl e \<Rightarrow> Inl e
            | Inr accs \<Rightarrow>
              (let requests = dget_or (JArr []) d ''evidence_requests''
               in if \<not> is_arr requests \<or> 8 < length (the_arr requests)
                  then Inl (GraphUnavailable ''invalid_evidence_requests'')
                  else if \<not> list_all valid_request (the_arr requests)
                  then Inl (GraphUnavailable ''invalid_evidence_request'')
                  else if truthy (dget d ''complete'') \<and> the_arr requests \<noteq> []
                  then Inl (GraphUnavailable ''completed_with_evidence_requests'')
                  else Inr (dict_set ''accesses'' (JArr (map JObj (dict_values accs)))
                             (dict_set ''dependencies'' (JArr (map JObj (dict_values deps))) d)))))
      | _ \<Rightarrow> Inl (GraphUnavailable ''invalid_property_verdict''))"

section \<open>Checking the fragments against the observation\<close>

text \<open>The text a selection refers to: the output itself, or its sorted serialisation.\<close>

definition observed_text :: "call_node \<Rightarrow> string" where
  "observed_text c = (case c_output c of JStr s \<Rightarrow> s | v \<Rightarrow> dumps False True v)"

definition show_counts :: "nat list \<Rightarrow> string" where
  "show_counts ns = ''['' @ join_with '', '' (map show_nat ns) @ '']''"

definition selection_error :: "string \<Rightarrow> nat list \<Rightarrow> exn" where
  "selection_error nid counts = GraphUnavailable
     (''output_selection_missing_or_ambiguous: '' @ ''parent='' @ nid @ ''; occurrences='' @ show_counts counts
      @ ''; select an exact unique fragment of the recorded output; ''
      @ ''for structured output use its JSON representation; ''
      @ ''retain every actual contribution and do not invent observations'')"

fun check_selections :: "(string \<times> call_node) list \<Rightarrow> dict list \<Rightarrow> unit res" where
  "check_selections obs [] = Inr ()"
| "check_selections obs (edge # es) =
     (if dget edge ''selection'' = JNull then check_selections obs es
      else case map_of obs (the_str (dget edge ''node_id'')) of
          None \<Rightarrow> Inl (KeyError (the_str (dget edge ''node_id'')))
        | Some parent \<Rightarrow>
          (case selection_texts (dget edge ''selection'') of
             Inl e \<Rightarrow> Inl e
           | Inr texts \<Rightarrow>
             let counts = map (\<lambda>t. count_sub t (observed_text parent)) texts
             in if \<not> c_completed parent \<or> list_ex (\<lambda>n. n \<noteq> 1) counts
                then Inl (selection_error (the_str (dget edge ''node_id'')) counts)
                else check_selections obs es))"

definition verdict_edges :: "dict \<Rightarrow> dict list" where
  "verdict_edges v = map the_obj (the_arr (dget v ''dependencies''))"

definition verdict_accesses :: "dict \<Rightarrow> dict list" where
  "verdict_accesses v = map the_obj (the_arr (dget v ''accesses''))"

definition validate_observed_dependencies :: "json \<Rightarrow> string list \<Rightarrow> (string \<times> call_node) list \<Rightarrow> dict res" where
  "validate_observed_dependencies value cands obs =
     (case validate value cands of
        Inl e \<Rightarrow> Inl e
      | Inr v \<Rightarrow> (case check_selections obs (verdict_edges v) of Inl e \<Rightarrow> Inl e | Inr _ \<Rightarrow> Inr v))"

section \<open>Selections never widen silently\<close>

lemma set_sorted_set [simp]: "set (sorted_set xs) = set xs"
  by (simp add: sorted_set_def)

lemma sorted_set_cong: "set xs = set ys \<Longrightarrow> sorted_set xs = sorted_set ys"
  unfolding sorted_set_def
  by (intro sorted_distinct_set_unique) (auto simp: sorted_sort)

lemma sorted_set_eq_Nil [simp]: "sorted_set xs = [] \<longleftrightarrow> xs = []"
  by (metis set_empty set_sorted_set)

lemma selection_texts_ok:
  assumes "selection_texts s = Inr ts"
  shows "ts \<noteq> [] \<and> [] \<notin> set ts \<and> sorted_set ts = ts \<and> s \<noteq> JNull"
proof -
  from assms obtain d arr where d: "s = JObj d" and a: "valid_texts arr" "ts = sorted_set (map the_str arr)"
    by (auto simp: selection_texts_def Let_def split: json.splits if_splits)
  then have "sorted_set ts = sorted_set (map the_str arr)" by (intro sorted_set_cong) simp
  with a d show ?thesis by (auto simp: valid_texts_def list_all_iff)
qed

lemma selection_texts_make:
  "selection_texts (make_selection ts) = Inr ts' \<Longrightarrow> ts' = sorted_set ts"
  by (cases ts)
     (auto simp: make_selection_def selection_texts_def keys_are_def has_key_def dget_or_def o_def
       split: if_splits)

lemma merge_selections_texts:
  assumes "merge_selections l r = Inr m" and "m \<noteq> JNull"
  shows "\<exists>tl tr tm. selection_texts l = Inr tl \<and> selection_texts r = Inr tr \<and> selection_texts m = Inr tm
           \<and> set tm = set tl \<union> set tr"
proof -
  from assms obtain tl tr tm where *: "selection_texts l = Inr tl" "selection_texts r = Inr tr"
    "m = make_selection (sorted_set (tl @ tr))" "selection_texts m = Inr tm"
    by (auto simp: merge_selections_def Let_def split: if_splits sum.splits)
  then have "tm = sorted_set (sorted_set (tl @ tr))" by (metis selection_texts_make)
  with * show ?thesis by auto
qed

lemma merge_selections_commute: "merge_selections l r = Inr m \<Longrightarrow> merge_selections r l = Inr m"
proof -
  assume m: "merge_selections l r = Inr m"
  have "sorted_set (xs @ ys) = sorted_set (ys @ xs)" for xs ys
    by (rule sorted_set_cong) auto
  with m show ?thesis by (auto simp: merge_selections_def Let_def split: if_splits sum.splits)
qed

text \<open>
  Merging the selections of two edges to the same parent selects exactly the union of the
  two fragments sets, in either order, and the whole output (no selection) absorbs fragments:
  the merge is the whole output only if one side already was.
\<close>

theorem merge_selections_union:
  assumes "merge_selections l r = Inr m"
  shows "merge_selections r l = Inr m
    \<and> (m = JNull \<longleftrightarrow> l = JNull \<or> r = JNull)
    \<and> (m \<noteq> JNull \<longrightarrow> (\<exists>tl tr tm. selection_texts l = Inr tl \<and> selection_texts r = Inr tr
         \<and> selection_texts m = Inr tm \<and> set tm = set tl \<union> set tr))"
  using merge_selections_commute [OF assms] merge_selections_texts [OF assms] assms
  by (auto simp: merge_selections_def make_selection_def Let_def split: if_splits sum.splits)

theorem merge_selections_union_witness:
  "merge_selections (JObj [(''text'', JStr ''b'')]) (JObj [(''texts'', JArr [JStr ''a'', JStr ''b''])])
     = Inr (JObj [(''texts'', JArr [JStr ''a'', JStr ''b''])])
   \<and> merge_selections (JObj [(''texts'', JArr [JStr ''a'', JStr ''b''])]) (JObj [(''text'', JStr ''b'')])
     = Inr (JObj [(''texts'', JArr [JStr ''a'', JStr ''b''])])"
proof -
  have m: "merge_selections (JObj [(''text'', JStr ''b'')]) (JObj [(''texts'', JArr [JStr ''a'', JStr ''b''])])
     = Inr (JObj [(''texts'', JArr [JStr ''a'', JStr ''b''])])" by code_simp
  from merge_selections_union [OF m] m show ?thesis by blast
qed

section \<open>What a validated verdict says\<close>

definition edge_node :: "dict \<Rightarrow> string" where
  "edge_node e = the_str (dget e ''node_id'')"

definition deps_ok :: "string list \<Rightarrow> (string \<times> dict) list \<Rightarrow> bool" where
  "deps_ok cands acc \<longleftrightarrow> distinct (map fst acc) \<and>
     (\<forall>(k, e) \<in> set acc. edge_node e = k \<and> is_str (dget e ''node_id'') \<and> k \<in> set cands)"

lemma merge_edge_node:
  "merge_edge old edge = Inr m \<Longrightarrow> dget m ''node_id'' = dget edge ''node_id''"
  by (auto simp: merge_edge_def split: option.splits sum.splits)

lemma deps_ok_set:
  "deps_ok cands acc \<Longrightarrow> edge_node e = k \<Longrightarrow> is_str (dget e ''node_id'') \<Longrightarrow> k \<in> set cands \<Longrightarrow>
   deps_ok cands (dict_set k e acc)"
  by (auto simp: deps_ok_def set_dict_set dict_set_unique)

lemma validate_dependencies_ok:
  "validate_dependencies cands acc es = Inr deps \<Longrightarrow> deps_ok cands acc \<Longrightarrow> deps_ok cands deps"
proof (induction es arbitrary: acc)
  case (Cons edge es)
  from Cons.prems(1) obtain d nid merged where
    d: "edge = JObj d" "dget d ''node_id'' = JStr nid" "nid \<in> set cands"
    and m: "merge_edge (map_of acc nid) d = Inr merged"
    and rest: "validate_dependencies cands (dict_set nid merged acc) es = Inr deps"
    by (auto simp: Let_def split: json.splits if_splits sum.splits elim!: is_str.elims)
  from merge_edge_node [OF m] d have "deps_ok cands (dict_set nid merged acc)"
    by (intro deps_ok_set Cons.prems(2)) (auto simp: edge_node_def)
  with Cons.IH [OF rest] show ?case by blast
qed simp

definition access_wf :: "dict \<Rightarrow> bool" where
  "access_wf d \<longleftrightarrow> keys_are [''path'', ''mode'', ''reason''] d \<and> is_str (dget d ''path'') \<and>
     canonical_access_path (the_str (dget d ''path'')) \<and> dget d ''mode'' \<in> {JStr ''read'', JStr ''write''} \<and> text_upto 4000 (dget d ''reason'')"

definition accesses_wf :: "((string \<times> string) \<times> dict) list \<Rightarrow> bool" where
  "accesses_wf acc \<longleftrightarrow> distinct (map fst acc) \<and>
     (\<forall>x \<in> set acc. access_wf (snd x) \<and> fst x = (the_str (dget (snd x) ''path''), the_str (dget (snd x) ''mode'')))"

lemma validate_accesses_wf: "validate_accesses acc as = Inr accs \<Longrightarrow> accesses_wf acc \<Longrightarrow> accesses_wf accs"
proof (induction as arbitrary: acc)
  case (Cons a as)
  from Cons.prems(1) obtain d where d: "access_wf d"
    "validate_accesses (dict_set (the_str (dget d ''path''), the_str (dget d ''mode'')) d acc) as = Inr accs"
    by (auto simp: access_wf_def split: json.splits if_splits)
  have "accesses_wf (dict_set (the_str (dget d ''path''), the_str (dget d ''mode'')) d acc)"
    using Cons.prems(2) d(1) by (auto simp: accesses_wf_def set_dict_set dict_set_unique)
  with Cons.IH d(2) show ?case by blast
qed simp

lemma accesses_of_verdict:
  assumes "accesses_wf accs"
  shows "distinct (map (\<lambda>a. (the_str (dget a ''path''), the_str (dget a ''mode''))) (map snd accs)) \<and> (\<forall>a \<in> set (map snd accs). access_wf a)"
proof -
  from assms have "map (\<lambda>a. (the_str (dget a ''path''), the_str (dget a ''mode''))) (map snd accs) = map fst accs"
    by (auto simp: accesses_wf_def)
  moreover from assms have "distinct (map fst accs)" "\<forall>a \<in> set (map snd accs). access_wf a" by (auto simp: accesses_wf_def)
  ultimately show ?thesis by (simp only: simp_thms)
qed

lemma validate_ok:
  assumes "validate v cands = Inr d"
  shows "distinct (map edge_node (verdict_edges d)) \<and> (\<forall>e \<in> set (verdict_edges d). edge_node e \<in> set cands)
    \<and> distinct (map (\<lambda>a. (the_str (dget a ''path''), the_str (dget a ''mode''))) (verdict_accesses d))
    \<and> (\<forall>a \<in> set (verdict_accesses d). access_wf a) \<and> is_bool (dget d ''complete'')
    \<and> dget d ''externality'' \<in> {JStr ''local'', JStr ''external''}"
proof -
  from assms obtain d0 deps accs where
    deps: "validate_dependencies cands [] (the_arr (dget d0 ''dependencies'')) = Inr deps"
    and accs: "validate_accesses [] (the_arr (dget d0 ''accesses'')) = Inr accs"
    and c: "is_bool (dget d0 ''complete'')" "dget d0 ''externality'' \<in> {JStr ''local'', JStr ''external''}"
    and d: "d = dict_set ''accesses'' (JArr (map JObj (dict_values accs)))
                  (dict_set ''dependencies'' (JArr (map JObj (dict_values deps))) d0)"
    by (auto simp: validate_def Let_def split: json.splits if_splits sum.splits)
  have e: "verdict_edges d = map snd deps" and a: "verdict_accesses d = map snd accs"
    by (simp_all add: d verdict_edges_def verdict_accesses_def dict_values_def o_def)
  have ok: "deps_ok cands deps" using validate_dependencies_ok [OF deps] by (simp add: deps_ok_def)
  then have "map edge_node (map snd deps) = map fst deps" by (auto simp: deps_ok_def)
  with ok have 1: "distinct (map edge_node (verdict_edges d))" unfolding e by (simp only: deps_ok_def)
  from ok have 2: "\<forall>x \<in> set (verdict_edges d). edge_node x \<in> set cands"
    unfolding e by (auto simp: deps_ok_def)
  have "accesses_wf accs" using validate_accesses_wf [OF accs] by (simp add: accesses_wf_def)
  from accesses_of_verdict [OF this] have 3: "distinct (map (\<lambda>a. (the_str (dget a ''path''), the_str (dget a ''mode''))) (verdict_accesses d))
    \<and> (\<forall>a \<in> set (verdict_accesses d). access_wf a)" unfolding a by simp
  from 1 2 3 c show ?thesis by (simp add: d)
qed

lemma check_selections_ok:
  "check_selections obs es = Inr u \<Longrightarrow> e \<in> set es \<Longrightarrow> dget e ''selection'' \<noteq> JNull \<Longrightarrow>
   \<exists>parent ts. map_of obs (edge_node e) = Some parent \<and> c_completed parent
     \<and> selection_texts (dget e ''selection'') = Inr ts
     \<and> (\<forall>t \<in> set ts. count_sub t (observed_text parent) = 1)"
proof (induction es)
  case (Cons x xs)
  then show ?case
    by (auto simp: edge_node_def Let_def list_ex_iff split: if_splits option.splits sum.splits)
qed simp

text \<open>
  A path in canonical form: the dot, or slashes at the front of an absolute path and then
  names, each followed by one slash or the end; a name is not empty, no dot, no parent reference.
\<close>

definition plain_path :: "string \<Rightarrow> bool" where
  "plain_path p \<longleftrightarrow> p = ''.'' \<or> (\<exists>n cs. p = replicate n slash @ join_with ''/'' cs \<and> n \<le> 2 \<and> (0 < n \<longleftrightarrow> is_absolute p) \<and>
     (\<forall>c \<in> set cs. c \<noteq> [] \<and> c \<noteq> ''.'' \<and> c \<noteq> ''..'' \<and> slash \<notin> set c))"

lemma normal_path_plain:
  assumes n: "normpath p = p" and u: "p \<noteq> ''..''" "\<not> starts_with ''../'' p"
  shows "plain_path p"
proof (cases "p = ''.''")
  case False
  let ?n = "initial_slashes p" and ?cs = "norm_comps (0 < initial_slashes p) [] (split_on slash p)"
  have pn: "p \<noteq> []" using n by (auto simp: normpath_def)
  with n False have eq: "p = replicate ?n slash @ join_with ''/'' ?cs"
    by (simp add: normpath_def Let_def split: if_splits)
  have plain: "\<forall>c \<in> set ?cs. plain_comp c"
    by (rule norm_comps_plain) (auto dest: split_on_no_sep)
  have "''..'' \<notin> set ?cs"
  proof (cases "is_absolute p")
    case True
    then have z: "0 < ?n" using initial_slashes_0 [of p] by simp
    have "''..'' \<notin> set (norm_comps True [] (split_on slash p))" by (rule norm_comps_rooted) simp
    with z show ?thesis by simp
  next
    case relative: False
    then have z: "?n = 0" using initial_slashes_0 by simp
    with eq have e: "p = join_with ''/'' ?cs" by simp
    then have "?cs \<noteq> []" using pn by (metis join_with.simps(1))
    then have "split_on slash p = ?cs" using split_join_comps [of ?cs] plain e by (metis plain_comp_def)
    with normpath_no_parent [OF n u] show ?thesis by simp
  qed
  with plain have "\<forall>c \<in> set ?cs. c \<noteq> [] \<and> c \<noteq> ''.'' \<and> c \<noteq> ''..'' \<and> slash \<notin> set c" by (auto simp: plain_comp_def)
  moreover have "?n \<le> 2" by (simp add: initial_slashes_def)
  moreover have "0 < ?n \<longleftrightarrow> is_absolute p" using initial_slashes_0 [of p] by (metis neq0_conv)
  ultimately show ?thesis unfolding plain_path_def by (intro disjI2 exI [of _ ?n] exI [of _ ?cs] conjI eq)
qed (simp add: plain_path_def)

text \<open>
  C25. A verdict the controller accepts names each parent at most once, only parents among the
  completed earlier calls offered as candidates, and every output fragment it selects occurs
  exactly once in the recorded output of a completed parent. It names each access path at most
  once for reading and once for writing, and every access path is canonical: of one to 4096
  characters without the null character, unchanged by normpath, and of the form that has no empty
  name, no dot and no parent reference in it.
\<close>

theorem accepted_verdict_is_exact:
  assumes "validate_observed_dependencies v cands obs = Inr d"
  shows "distinct (map edge_node (verdict_edges d))
    \<and> (\<forall>e \<in> set (verdict_edges d). edge_node e \<in> set cands)
    \<and> (\<forall>e \<in> set (verdict_edges d). dget e ''selection'' \<noteq> JNull \<longrightarrow>
         (\<exists>parent ts. map_of obs (edge_node e) = Some parent \<and> c_completed parent
            \<and> selection_texts (dget e ''selection'') = Inr ts
            \<and> (\<forall>t \<in> set ts. count_sub t (observed_text parent) = 1)))
    \<and> distinct (map (\<lambda>a. (the_str (dget a ''path''), the_str (dget a ''mode''))) (verdict_accesses d))
    \<and> (\<forall>a \<in> set (verdict_accesses d). \<exists>p. dget a ''path'' = JStr p \<and> dget a ''mode'' \<in> {JStr ''read'', JStr ''write''}
         \<and> p \<noteq> [] \<and> length p \<le> 4096 \<and> CHR 0x00 \<notin> set p \<and> normpath p = p \<and> plain_path p
         \<and> ''..'' \<notin> set (split_on slash p))"
proof -
  from assms obtain u where v: "validate v cands = Inr d" and c: "check_selections obs (verdict_edges d) = Inr u"
    by (auto simp: validate_observed_dependencies_def split: sum.splits)
  have path: "\<exists>p. dget a ''path'' = JStr p \<and> dget a ''mode'' \<in> {JStr ''read'', JStr ''write''}
         \<and> p \<noteq> [] \<and> length p \<le> 4096 \<and> CHR 0x00 \<notin> set p \<and> normpath p = p \<and> plain_path p
         \<and> ''..'' \<notin> set (split_on slash p)" if a: "access_wf a" for a
  proof -
    from a obtain p where p: "dget a ''path'' = JStr p" by (auto simp: access_wf_def elim: is_str.elims)
    with a have k: "canonical_access_path p" by (simp add: access_wf_def)
    then have n: "normpath p = p" "p \<noteq> ''..''" "\<not> starts_with ''../'' p" unfolding canonical_access_path_def by blast+
    have "p \<noteq> []" "length p \<le> 4096" "CHR 0x00 \<notin> set p" using k unfolding canonical_access_path_def by blast+
    with a p n normal_path_plain [OF n] normpath_no_parent [OF n] show ?thesis unfolding access_wf_def by blast
  qed
  with validate_ok [OF v] check_selections_ok [OF c] show ?thesis by blast
qed

definition sample_parent :: call_node where
  "sample_parent = (fresh_call ''call:1'' sample_post (JStr ''secret plan'') True ''paired'')"

definition sample_verdict :: json where
  "sample_verdict = JObj [(''externality'', JStr ''external''), (''complete'', JBool True), (''reason'', JStr ''r''),
     (''dependencies'', JArr [JObj [(''node_id'', JStr ''call:1''), (''reason'', JStr ''r''),
        (''selection'', JObj [(''text'', JStr ''plan'')])]]),
     (''accesses'', JArr [JObj [(''path'', JStr ''a/b''), (''mode'', JStr ''read''), (''reason'', JStr ''r'')]])]"

theorem accepted_verdict_is_exact_witness:
  "\<exists>d. validate_observed_dependencies sample_verdict [''call:1''] [(''call:1'', sample_parent)] = Inr d
     \<and> map edge_node (verdict_edges d) = [''call:1'']
     \<and> verdict_accesses d \<noteq> [] \<and> (\<forall>a \<in> set (verdict_accesses d). \<exists>p. dget a ''path'' = JStr p \<and> plain_path p)"
proof -
  let ?r = "validate_observed_dependencies sample_verdict [''call:1''] [(''call:1'', sample_parent)]"
  have ok: "\<not> isl ?r" and n: "map edge_node (verdict_edges (projr ?r)) = [''call:1'']"
    and a: "verdict_accesses (projr ?r) \<noteq> []" by code_simp+
  from ok obtain d where d: "?r = Inr d" by (metis isl_def sum.exhaust)
  from accepted_verdict_is_exact [OF d] have "\<forall>a \<in> set (verdict_accesses d). \<exists>p. dget a ''path'' = JStr p \<and> plain_path p" by blast
  with n a d show ?thesis by auto
qed

section \<open>Validation is stable\<close>

text \<open>An accepted verdict is accepted again as it is: a stored answer stays valid.\<close>

definition edge_wf :: "string list \<Rightarrow> dict \<Rightarrow> bool" where
  "edge_wf cands d \<longleftrightarrow> keys_are_opt [''selection''] [''node_id'', ''reason''] d \<and> is_str (dget d ''node_id'') \<and>
     edge_node d \<in> set cands \<and> text_upto 4000 (dget d ''reason'') \<and>
     (dget d ''selection'' = JNull \<or> (\<exists>ts. selection_texts (dget d ''selection'') = Inr ts))"

lemma merge_selections_valid: "merge_selections l r = Inr m \<Longrightarrow> m = JNull \<or> (\<exists>ts. selection_texts m = Inr ts)"
  by (auto simp: merge_selections_def Let_def split: if_splits sum.splits)

lemma merge_edge_wf: "merge_edge old d = Inr m \<Longrightarrow> edge_wf cands d \<Longrightarrow> edge_wf cands m"
  by (auto simp: merge_edge_def edge_wf_def edge_node_def keys_are_opt_opt dest: merge_selections_valid split: option.splits sum.splits)

definition edges_wf :: "string list \<Rightarrow> (string \<times> dict) list \<Rightarrow> bool" where
  "edges_wf cands acc \<longleftrightarrow> distinct (map fst acc) \<and> (\<forall>x \<in> set acc. edge_wf cands (snd x) \<and> edge_node (snd x) = fst x)"

lemma validate_dependencies_Cons:
  assumes "validate_dependencies cands acc (edge # es) = Inr deps"
  shows "\<exists>d m. edge = JObj d \<and> edge_wf cands d \<and> merge_edge (map_of acc (edge_node d)) d = Inr m \<and>
    validate_dependencies cands (dict_set (edge_node d) m acc) es = Inr deps"
  using assms by (auto simp: Let_def edge_wf_def edge_node_def split: json.splits if_splits sum.splits)

lemma validate_dependencies_wf: "validate_dependencies cands acc es = Inr deps \<Longrightarrow> edges_wf cands acc \<Longrightarrow> edges_wf cands deps"
proof (induction es arbitrary: acc)
  case (Cons edge es)
  from validate_dependencies_Cons [OF Cons.prems(1)] obtain d m where d: "edge_wf cands d"
    "merge_edge (map_of acc (edge_node d)) d = Inr m" "validate_dependencies cands (dict_set (edge_node d) m acc) es = Inr deps" by blast
  then have "edge_wf cands m" "edge_node m = edge_node d"
    using merge_edge_wf merge_edge_node by (fastforce simp: edge_node_def)+
  then have "edges_wf cands (dict_set (edge_node d) m acc)"
    using Cons.prems(2) by (auto simp: edges_wf_def set_dict_set dict_set_unique)
  with Cons.IH d(3) show ?case by blast
qed simp

lemma validate_dependencies_again:
  "edges_wf cands (acc @ deps) \<Longrightarrow> validate_dependencies cands acc (map (\<lambda>x. JObj (snd x)) deps) = Inr (acc @ deps)"
proof (induction deps arbitrary: acc)
  case (Cons kd deps)
  obtain k d where kd: "kd = (k, d)" by fastforce
  with Cons.prems have d: "edge_wf cands d" "edge_node d = k" "k \<notin> fst ` set acc" by (auto simp: edges_wf_def)
  then have n: "map_of acc k = None" by (auto simp: map_of_eq_None_iff)
  from d have sel: "\<exists>u. (if dget d ''selection'' = JNull then Inr [] else selection_texts (dget d ''selection'')) = Inr u"
    by (auto simp: edge_wf_def)
  from Cons.IH [of "acc @ [kd]"] Cons.prems have r: "validate_dependencies cands (acc @ [(k, d)]) (map (\<lambda>x. JObj (snd x)) deps) = Inr (acc @ (k, d) # deps)"
    by (simp add: kd)
  from d sel n r show ?case
    by (auto simp: kd edge_wf_def edge_node_def merge_edge_def dict_set_new Let_def)
qed simp

lemma validate_accesses_again:
  "accesses_wf (acc @ accs) \<Longrightarrow> validate_accesses acc (map (\<lambda>x. JObj (snd x)) accs) = Inr (acc @ accs)"
proof (induction accs arbitrary: acc)
  case (Cons kd accs)
  obtain k d where kd: "kd = (k, d)" by fastforce
  from Cons.prems have "distinct (map fst (acc @ kd # accs))" by (simp only: accesses_wf_def)
  then have new: "k \<notin> fst ` set acc" by (simp add: kd)
  from Cons.prems have d: "access_wf d" "k = (the_str (dget d ''path''), the_str (dget d ''mode''))"
    by (simp_all add: accesses_wf_def kd)
  from Cons.IH [of "acc @ [kd]"] Cons.prems have r: "validate_accesses (acc @ [(k, d)]) (map (\<lambda>x. JObj (snd x)) accs) = Inr (acc @ (k, d) # accs)"
    by (simp add: kd)
  obtain p m where k: "dget d ''path'' = JStr p" "dget d ''mode'' = JStr m" using d by (auto simp: access_wf_def elim: is_str.elims)
  from d new r k show ?case by (simp add: kd access_wf_def dict_set_new)
qed simp

lemma validate_again:
  assumes "validate raw cands = Inr v"
  shows "validate (JObj v) cands = Inr v"
proof -
  from assms obtain d deps accs where raw: "raw = JObj d"
    and keys: "keys_are_opt [''evidence_requests'', ''evidence_receipts''] [''externality'', ''complete'', ''reason'', ''dependencies'', ''accesses''] d"
    and deps: "validate_dependencies cands [] (the_arr (dget d ''dependencies'')) = Inr deps"
    and accs: "validate_accesses [] (the_arr (dget d ''accesses'')) = Inr accs"
    and v: "v = dict_set ''accesses'' (JArr (map JObj (dict_values accs))) (dict_set ''dependencies'' (JArr (map JObj (dict_values deps))) d)"
    by (auto simp: validate_def Let_def split: json.splits if_splits sum.splits)
  have "edges_wf cands deps" using validate_dependencies_wf [OF deps] by (simp add: edges_wf_def)
  then have d2: "validate_dependencies cands [] (map JObj (dict_values deps)) = Inr deps"
    using validate_dependencies_again [of cands "[]" deps] by (simp add: dict_values_def o_def)
  have "accesses_wf accs" using validate_accesses_wf [OF accs] by (simp add: accesses_wf_def)
  then have a2: "validate_accesses [] (map JObj (dict_values accs)) = Inr accs"
    using validate_accesses_again [of "[]" accs] by (simp add: dict_values_def o_def)
  have g: "dget v ''dependencies'' = JArr (map JObj (dict_values deps))" "dget v ''accesses'' = JArr (map JObj (dict_values accs))"
    and o: "dget v ''externality'' = dget d ''externality''" "dget v ''complete'' = dget d ''complete''" "dget v ''reason'' = dget d ''reason''"
      "dget_or (JArr []) v ''evidence_requests'' = dget_or (JArr []) d ''evidence_requests''"
    by (simp_all add: v)
  have k: "keys_are_opt [''evidence_requests'', ''evidence_receipts''] [''externality'', ''complete'', ''reason'', ''dependencies'', ''accesses''] v"
    unfolding v using keys keys_are_opt_key [OF keys] by (simp add: keys_are_opt_set fst_dict_set)
  have s: "dict_set ''accesses'' (JArr (map JObj (dict_values accs))) (dict_set ''dependencies'' (JArr (map JObj (dict_values deps))) v) = v"
  proof -
    have "map_of v ''dependencies'' = Some (JArr (map JObj (dict_values deps)))" "map_of v ''accesses'' = Some (JArr (map JObj (dict_values accs)))"
      by (simp_all add: v)
    then show ?thesis by (simp add: dict_set_same)
  qed
  show ?thesis
    using assms unfolding raw
    by (simp add: validate_def k keys g o d2 a2 s Let_def deps accs split: if_splits) blast
qed

lemma validate_observed_again:
  "validate_observed_dependencies raw cands obs = Inr v \<Longrightarrow> validate_observed_dependencies (JObj v) cands obs = Inr v"
  by (auto simp: validate_observed_dependencies_def validate_again split: sum.splits)

end
