(* ===== verification/Worklist.thy ===== *)
theory Worklist
  imports Prelude
begin

text \<open>
  The two traversals the engine writes again and again over a graph whose incoming edges are
  looked up node by node: the depth-first worklist
  (\<open>pending = [start]; while pending: current = pending.pop(); ...;
  pending.extend(parents)\<close>) and the breadth-first search with back pointers
  (\<open>queue, toward = deque([start]), {start: None}\<close>). The lookup of the parents can fail,
  and both loops stop at a budget, which is also why they terminate.
\<close>

datatype ('r, 's) walked = Raised exn | Over | Stopped 'r | Done 's

text \<open>\<open>visit\<close> is the loop body: raise, return early, or go on with a new accumulator.\<close>

function walk :: "('n \<Rightarrow> 'n list res) \<Rightarrow> ('n \<Rightarrow> 's \<Rightarrow> ('r + 's) res) \<Rightarrow> nat \<Rightarrow> 'n list \<Rightarrow> 'n list
    \<Rightarrow> 's \<Rightarrow> ('r, 's) walked" where
  "walk parents visit limit [] seen s = Done s"
| "walk parents visit limit (current # pending) seen s =
     (if current \<in> set seen then walk parents visit limit pending seen s
      else if limit \<le> length seen then Over
      else case visit current s of
          Inl e \<Rightarrow> Raised e
        | Inr (Inl r) \<Rightarrow> Stopped r
        | Inr (Inr s') \<Rightarrow>
            (case parents current of
               Inl e \<Rightarrow> Raised e
             | Inr ps \<Rightarrow> walk parents visit limit (rev ps @ pending) (current # seen) s'))"
  by pat_completeness auto
termination
  by (relation "measures [\<lambda>(p, v, l, q, seen, s). l - length seen, \<lambda>(p, v, l, q, seen, s). length q]")
    auto

declare walk.simps(2) [simp del]

definition up :: "('n \<Rightarrow> 'n list res) \<Rightarrow> 'n \<Rightarrow> 'n \<Rightarrow> bool" where
  "up parents c p \<longleftrightarrow> (\<exists>ps. parents c = Inr ps \<and> p \<in> set ps)"

abbreviation ancestors :: "('n \<Rightarrow> 'n list res) \<Rightarrow> 'n \<Rightarrow> 'n set" where
  "ancestors parents n \<equiv> {m. (up parents)\<^sup>*\<^sup>* n m}"

text \<open>Induction along a walk, with the lookup and the body fixed.\<close>

lemma walk_induct:
  fixes parents :: "'n \<Rightarrow> 'n list res" and visit :: "'n \<Rightarrow> 's \<Rightarrow> ('r + 's) res"
  assumes nil: "\<And>seen s. P [] seen s"
    and skip: "\<And>c pending seen s. c \<in> set seen \<Longrightarrow> P pending seen s \<Longrightarrow> P (c # pending) seen s"
    and stop: "\<And>c pending seen s. c \<notin> set seen \<Longrightarrow>
        limit \<le> length seen \<or> (\<forall>s'. visit c s \<noteq> Inr (Inr s')) \<or> (\<exists>e. parents c = Inl e) \<Longrightarrow>
        P (c # pending) seen s"
    and go: "\<And>c pending seen s s' ps. c \<notin> set seen \<Longrightarrow> length seen < limit \<Longrightarrow>
        visit c s = Inr (Inr s') \<Longrightarrow> parents c = Inr ps \<Longrightarrow> P (rev ps @ pending) (c # seen) s' \<Longrightarrow>
        P (c # pending) seen s"
  shows "P pending seen s"
proof -
  have "p = parents \<and> v = visit \<and> l = limit \<longrightarrow> P q seen s" for p v l q seen s
  proof (induction p v l q seen s rule: walk.induct)
    case (2 p v l c q seen s)
    show ?case
    proof (intro impI, elim conjE)
      assume eqs: "p = parents" "v = visit" "l = limit"
      show "P (c # q) seen s"
      proof (cases "c \<in> set seen")
        case True
        with 2 eqs show ?thesis by (auto intro: skip)
      next
        case False
        show ?thesis
        proof (cases "limit \<le> length seen \<or> (\<forall>s'. visit c s \<noteq> Inr (Inr s')) \<or> (\<exists>e. parents c = Inl e)")
          case True
          with False show ?thesis by (rule stop)
        next
          case False2: False
          then obtain s' ps where *: "visit c s = Inr (Inr s')" "parents c = Inr ps" "length seen < limit"
            by (cases "parents c") auto
          with "2.IH"(2) [OF False] eqs have "P (rev ps @ q) (c # seen) s'" by auto
          with * False show ?thesis by (auto intro: go)
        qed
      qed
    qed
  qed (auto intro: nil)
  then show ?thesis by blast
qed

lemma walk_seen: "c \<in> set seen \<Longrightarrow> walk parents visit limit (c # pending) seen s = walk parents visit limit pending seen s"
  by (simp add: walk.simps)

lemma walk_go: "c \<notin> set seen \<Longrightarrow> length seen < limit \<Longrightarrow> visit c s = Inr (Inr s') \<Longrightarrow> parents c = Inr ps \<Longrightarrow>
    walk parents visit limit (c # pending) seen s = walk parents visit limit (rev ps @ pending) (c # seen) s'"
  by (simp add: walk.simps)

text \<open>A walk that runs to the end has visited a set of nodes closed under the parents.\<close>

lemma walk_done_closed:
  assumes "walk parents visit limit pending seen s = Done fin"
    and "\<And>m. m \<in> set seen \<Longrightarrow> (\<exists>t t'. visit m t = Inr (Inr t')) \<and>
           (\<forall>p. up parents m p \<longrightarrow> p \<in> set seen \<union> set pending)"
  shows "\<exists>S. set seen \<union> set pending \<subseteq> S \<and>
           (\<forall>m \<in> S. (\<exists>t t'. visit m t = Inr (Inr t')) \<and> (\<forall>p. up parents m p \<longrightarrow> p \<in> S))"
  using assms
proof (induction pending seen s rule: walk_induct [where limit = limit and visit = visit and parents = parents])
  case (1 seen s)
  then show ?case by (intro exI [of _ "set seen"]) auto
next
  case (2 c pending seen s)
  have "\<exists>S. set seen \<union> set pending \<subseteq> S \<and>
           (\<forall>m \<in> S. (\<exists>t t'. visit m t = Inr (Inr t')) \<and> (\<forall>p. up parents m p \<longrightarrow> p \<in> S))"
    by (rule "2.IH") (use 2 in \<open>auto simp: walk_seen insert_absorb\<close>)
  then obtain S where "set seen \<union> set pending \<subseteq> S"
    "\<forall>m \<in> S. (\<exists>t t'. visit m t = Inr (Inr t')) \<and> (\<forall>p. up parents m p \<longrightarrow> p \<in> S)" by blast
  with "2.hyps" show ?case by (intro exI [of _ S]) auto
next
  case (3 c pending seen s)
  then show ?case by (auto simp: walk.simps split: sum.splits if_splits)
next
  case (4 c pending seen s s' ps)
  have "\<exists>S. set (c # seen) \<union> set (rev ps @ pending) \<subseteq> S \<and>
           (\<forall>m \<in> S. (\<exists>t t'. visit m t = Inr (Inr t')) \<and> (\<forall>p. up parents m p \<longrightarrow> p \<in> S))"
  proof (rule "4.IH")
    show "walk parents visit limit (rev ps @ pending) (c # seen) s' = Done fin"
      using 4 by (simp add: walk_go)
    show "(\<exists>t t'. visit m t = Inr (Inr t')) \<and>
        (\<forall>p. up parents m p \<longrightarrow> p \<in> set (c # seen) \<union> set (rev ps @ pending))" if "m \<in> set (c # seen)" for m
    proof (cases "m = c")
      case True
      with "4.hyps" show ?thesis by (auto simp: up_def)
    next
      case False
      with that "4.prems"(2) [of m] show ?thesis by auto
    qed
  qed
  then show ?case by auto
qed

text \<open>It visits every ancestor of what was pending, so it ends only if the body accepts them all.\<close>

lemma walk_done_ancestors:
  assumes "walk parents visit limit pending [] s = Done fin" and "n \<in> set pending"
    and "(up parents)\<^sup>*\<^sup>* n m"
  shows "\<exists>t t'. visit m t = Inr (Inr t')"
proof -
  obtain S where S: "set pending \<subseteq> S"
    "\<And>m. m \<in> S \<Longrightarrow> (\<exists>t t'. visit m t = Inr (Inr t')) \<and> (\<forall>p. up parents m p \<longrightarrow> p \<in> S)"
    using walk_done_closed [OF assms(1)] by auto
  from assms(3) have "m \<in> S"
    by (induction rule: rtranclp_induct) (use S assms(2) in blast)+
  with S(2) show ?thesis by blast
qed

lemma walk_stopped_ancestor:
  assumes "walk parents visit limit pending seen s = Stopped r"
    and "\<And>m. m \<in> set pending \<Longrightarrow> (up parents)\<^sup>*\<^sup>* n m"
  shows "\<exists>m t. (up parents)\<^sup>*\<^sup>* n m \<and> visit m t = Inr (Inl r)"
  using assms
proof (induction pending seen s rule: walk_induct [where limit = limit and visit = visit and parents = parents])
  case (2 c pending seen s)
  then show ?case by (auto simp: walk_seen)
next
  case (3 c pending seen s)
  then show ?case by (auto simp: walk.simps split: sum.splits if_splits)
next
  case (4 c pending seen s s' ps)
  show ?case
  proof (rule "4.IH")
    show "walk parents visit limit (rev ps @ pending) (c # seen) s' = Stopped r"
      using 4 by (simp add: walk_go)
    show "(up parents)\<^sup>*\<^sup>* n m" if "m \<in> set (rev ps @ pending)" for m
    proof (cases "m \<in> set ps")
      case True
      with "4.hyps"(4) have "up parents c m" by (auto simp: up_def)
      with "4.prems"(2) [of c] show ?thesis by (auto intro: rtranclp.rtrancl_into_rtrancl)
    qed (use that "4.prems"(2) in auto)
  qed
qed auto

section \<open>The checking walk\<close>

text \<open>
  A walk whose body returns early exactly at nodes that are not good. Its contract for the
  callers: it runs to the end only if every ancestor is good, and it returns early only
  because some ancestor is not.
\<close>

locale checked_walk =
  fixes parents :: "'n \<Rightarrow> 'n list res"
    and visit :: "'n \<Rightarrow> 's \<Rightarrow> ('r + 's) res"
    and good :: "'n \<Rightarrow> bool"
  assumes visit_on: "visit n s = Inr (Inr s') \<Longrightarrow> good n"
    and visit_stop: "visit n s = Inr (Inl r) \<Longrightarrow> \<not> good n"
begin

lemma walk_all_good:
  "walk parents visit limit [n] [] s = Done fin \<Longrightarrow> m \<in> ancestors parents n \<Longrightarrow> good m"
  using walk_done_ancestors [of parents visit limit "[n]" s fin n m] visit_on by auto

lemma walk_some_bad:
  "walk parents visit limit [n] [] s = Stopped r \<Longrightarrow> \<exists>m \<in> ancestors parents n. \<not> good m"
  using walk_stopped_ancestor [of parents visit limit "[n]" "[]" s r n] visit_stop by auto

end

section \<open>Breadth-first search with back pointers\<close>

text \<open>
  \<open>toward\<close> is the dictionary of back pointers, newest entry first; the entry of a node
  points to a node entered before it, so following the pointers walks down the list.
\<close>

type_synonym 'n toward = "('n \<times> 'n option) list"

fun trace_back :: "'n toward \<Rightarrow> 'n \<Rightarrow> 'n list" where
  "trace_back [] n = [n]"
| "trace_back ((m, ptr) # older) n =
     (if m = n then (case ptr of None \<Rightarrow> [n] | Some b \<Rightarrow> n # trace_back older b)
      else trace_back older n)"

fun enter_parents :: "nat \<Rightarrow> 'n \<Rightarrow> 'n list \<Rightarrow> 'n list \<Rightarrow> 'n toward \<Rightarrow> ('n list \<times> 'n toward) res" where
  "enter_parents limit current [] queue toward = Inr (queue, toward)"
| "enter_parents limit current (p # ps) queue toward =
     (if p \<in> fst ` set toward then enter_parents limit current ps queue toward
      else if limit \<le> length toward then Inl (GraphUnavailable ''graph_traversal_budget_exceeded'')
      else enter_parents limit current ps (queue @ [p]) ((p, Some current) # toward))"

lemma enter_parents_lengths:
  "enter_parents limit current ps queue toward = Inr (queue', toward') \<Longrightarrow>
   length queue' + length toward = length queue + length toward' \<and> length toward \<le> length toward' \<and>
   (length toward' = length toward \<or> length toward' \<le> limit)"
proof (induction ps arbitrary: queue toward)
  case (Cons p ps)
  then show ?case by (fastforce split: if_splits)
qed simp

function reach_loop :: "('n \<Rightarrow> 'n list res) \<Rightarrow> ('n \<Rightarrow> 'a option) \<Rightarrow> nat \<Rightarrow> 'n list \<Rightarrow> 'n toward
    \<Rightarrow> ('a \<times> 'n list) option res" where
  "reach_loop parents root limit [] toward = Inr None"
| "reach_loop parents root limit (current # queue) toward =
     (case root current of
        Some src \<Rightarrow> Inr (Some (src, trace_back toward current))
      | None \<Rightarrow>
        (case parents current of
           Inl e \<Rightarrow> Inl e
         | Inr ps \<Rightarrow>
           (case enter_parents limit current ps queue toward of
              Inl e \<Rightarrow> Inl e
            | Inr (queue', toward') \<Rightarrow> reach_loop parents root limit queue' toward')))"
  by pat_completeness auto
termination
proof (relation "measures [\<lambda>(p, r, l, q, t). l - length t, \<lambda>(p, r, l, q, t). length q]", goal_cases)
  case 1
  show ?case by simp
next
  case (2 parents root limit current queue toward ps x queue' toward')
  then show ?case using enter_parents_lengths [of limit current ps queue toward queue' toward'] by auto
qed

declare reach_loop.simps(2) [simp del]

text \<open>Back pointers lead along parent edges to the start.\<close>

fun pointers_ok :: "('n \<Rightarrow> 'n list res) \<Rightarrow> 'n \<Rightarrow> 'n toward \<Rightarrow> bool" where
  "pointers_ok parents start [] = True"
| "pointers_ok parents start ((m, ptr) # older) =
     ((case ptr of None \<Rightarrow> m = start | Some b \<Rightarrow> b \<in> fst ` set older \<and> up parents b m) \<and>
      pointers_ok parents start older)"

lemma trace_back_ok:
  assumes "pointers_ok parents start toward" and "n \<in> fst ` set toward"
  shows "hd (trace_back toward n) = n \<and> last (trace_back toward n) = start \<and> trace_back toward n \<noteq> []
    \<and> successively (\<lambda>p c. up parents c p) (trace_back toward n)"
  using assms
proof (induction toward n rule: trace_back.induct)
  case (2 m ptr older n)
  show ?case
  proof (cases "m = n")
    case True
    show ?thesis
    proof (cases ptr)
      case None
      with 2 True show ?thesis by simp
    next
      case (Some b)
      with 2 True have "b \<in> fst ` set older" "up parents b n" "pointers_ok parents start older" by auto
      with "2.IH"(1) [OF True Some] Some True show ?thesis by (auto simp: successively_Cons_conv)
    qed
  next
    case False
    with 2 show ?thesis by auto
  qed
qed simp

lemma enter_parents_inv:
  assumes "enter_parents limit current ps queue toward = Inr (queue', toward')"
    and "pointers_ok parents start toward" and "current \<in> fst ` set toward"
    and "\<And>p. p \<in> set ps \<Longrightarrow> up parents current p" and "set queue \<subseteq> fst ` set toward"
  shows "pointers_ok parents start toward' \<and> set queue' \<subseteq> fst ` set toward' \<and>
    fst ` set toward' = fst ` set toward \<union> set ps \<and> set queue \<subseteq> set queue' \<and>
    fst ` set toward' \<subseteq> fst ` set toward \<union> set queue'"
  using assms
proof (induction ps arbitrary: queue toward)
  case (Cons p ps)
  show ?case
  proof (cases "p \<in> fst ` set toward")
    case True
    with Cons.prems(1) have
      e: "enter_parents limit current ps queue toward = Inr (queue', toward')" by simp
    have "pointers_ok parents start toward' \<and> set queue' \<subseteq> fst ` set toward' \<and>
      fst ` set toward' = fst ` set toward \<union> set ps \<and> set queue \<subseteq> set queue' \<and>
      fst ` set toward' \<subseteq> fst ` set toward \<union> set queue'"
      by (rule Cons.IH [OF e]) (use Cons.prems(2-5) in simp_all)
    moreover have "fst ` set toward \<union> set (p # ps) = fst ` set toward \<union> set ps" using True by auto
    ultimately show ?thesis by metis
  next
    case False
    with Cons.prems(1) have e:
      "enter_parents limit current ps (queue @ [p]) ((p, Some current) # toward) = Inr (queue', toward')"
      by (simp split: if_splits)
    have "pointers_ok parents start toward' \<and> set queue' \<subseteq> fst ` set toward' \<and>
      fst ` set toward' = fst ` set ((p, Some current) # toward) \<union> set ps \<and>
      set (queue @ [p]) \<subseteq> set queue' \<and>
      fst ` set toward' \<subseteq> fst ` set ((p, Some current) # toward) \<union> set queue'"
      by (rule Cons.IH [OF e]) (use Cons.prems(2-5) in auto)
    then show ?thesis by auto
  qed
qed auto

lemma reach_loop_sound:
  assumes "reach_loop parents root limit queue toward = Inr (Some (src, vs))"
    and "pointers_ok parents start toward" and "set queue \<subseteq> fst ` set toward"
  shows "vs \<noteq> [] \<and> root (hd vs) = Some src \<and> last vs = start \<and> successively (\<lambda>p c. up parents c p) vs"
  using assms
proof (induction parents root limit queue toward rule: reach_loop.induct)
  case (2 parents root limit current queue toward)
  show ?case
  proof (cases "root current")
    case (Some a)
    with 2 trace_back_ok [of parents start toward current] show ?thesis by (auto simp: reach_loop.simps)
  next
    case None
    with "2.prems"(1) obtain ps queue' toward' where p: "parents current = Inr ps"
      and e: "enter_parents limit current ps queue toward = Inr (queue', toward')"
      and rest: "reach_loop parents root limit queue' toward' = Inr (Some (src, vs))"
      by (auto simp: reach_loop.simps split: sum.splits prod.splits)
    have "pointers_ok parents start toward' \<and> set queue' \<subseteq> fst ` set toward'"
      using enter_parents_inv [OF e "2.prems"(2)] "2.prems"(3) p by (auto simp: up_def)
    with "2.IH" [OF None p e refl rest] show ?thesis by blast
  qed
qed simp

lemma reach_loop_none:
  assumes "reach_loop parents root limit queue toward = Inr None"
    and "set queue \<subseteq> fst ` set toward" and "pointers_ok parents start toward"
    and "\<And>m. m \<in> fst ` set toward - set queue \<Longrightarrow>
           root m = None \<and> (\<forall>p. up parents m p \<longrightarrow> p \<in> fst ` set toward)"
  shows "\<exists>S. fst ` set toward \<subseteq> S \<and> (\<forall>m \<in> S. root m = None \<and> (\<forall>p. up parents m p \<longrightarrow> p \<in> S))"
  using assms
proof (induction parents root limit queue toward rule: reach_loop.induct)
  case (1 parents root limit toward)
  then show ?case by (intro exI [of _ "fst ` set toward"]) auto
next
  case (2 parents root limit current queue toward)
  from "2.prems"(1) obtain ps queue' toward' where r: "root current = None" and p: "parents current = Inr ps"
      and e: "enter_parents limit current ps queue toward = Inr (queue', toward')"
      and rest: "reach_loop parents root limit queue' toward' = Inr None"
      by (auto simp: reach_loop.simps split: sum.splits prod.splits option.splits)
  have inv: "pointers_ok parents start toward' \<and> set queue' \<subseteq> fst ` set toward' \<and>
      fst ` set toward' = fst ` set toward \<union> set ps \<and> set queue \<subseteq> set queue' \<and>
      fst ` set toward' \<subseteq> fst ` set toward \<union> set queue'"
    by (rule enter_parents_inv [OF e "2.prems"(3)]) (use "2.prems"(2) p in \<open>auto simp: up_def\<close>)
  have "root m = None \<and> (\<forall>q. up parents m q \<longrightarrow> q \<in> fst ` set toward')"
    if "m \<in> fst ` set toward' - set queue'" for m
  proof (cases "m = current")
    case True
    with r p inv show ?thesis by (auto simp: up_def)
  next
    case False
    from that inv have "m \<in> fst ` set toward" "m \<notin> set queue" by blast+
    with False "2.prems"(4) [of m] inv show ?thesis by auto
  qed
  then have "\<exists>S. fst ` set toward' \<subseteq> S \<and> (\<forall>m \<in> S. root m = None \<and> (\<forall>p. up parents m p \<longrightarrow> p \<in> S))"
    using "2.IH" [OF r p e refl rest] inv by blast
  then obtain S where "fst ` set toward' \<subseteq> S"
    "\<forall>m \<in> S. root m = None \<and> (\<forall>p. up parents m p \<longrightarrow> p \<in> S)" by blast
  with inv show ?case by (intro exI [of _ S]) blast
qed

text \<open>The search answers the reachability question, unless it gives up with an error.\<close>

lemma reach_loop_start_sound:
  assumes "reach_loop parents root limit [start] [(start, None)] = Inr (Some (src, vs))"
  shows "vs \<noteq> [] \<and> root (hd vs) = Some src \<and> last vs = start \<and> successively (\<lambda>p c. up parents c p) vs"
  using reach_loop_sound [OF assms, of start] by simp

lemma reach_loop_start_none:
  assumes "reach_loop parents root limit [start] [(start, None)] = Inr None"
    and "m \<in> ancestors parents start"
  shows "root m = None"
proof -
  obtain S where S: "start \<in> S" "\<And>m. m \<in> S \<Longrightarrow> root m = None \<and> (\<forall>p. up parents m p \<longrightarrow> p \<in> S)"
    using reach_loop_none [OF assms(1), of start] by auto
  from assms(2) have "(up parents)\<^sup>*\<^sup>* start m" by simp
  then have "m \<in> S" by (induction rule: rtranclp_induct) (use S in blast)+
  with S(2) show ?thesis by blast
qed

lemma path_ancestors:
  "successively (\<lambda>p c. up parents c p) vs \<Longrightarrow> vs \<noteq> [] \<Longrightarrow> hd vs \<in> ancestors parents (last vs)"
proof (induction vs rule: induct_list012)
  case (3 x y zs)
  then have "(up parents)\<^sup>*\<^sup>* (last (y # zs)) y" and "up parents y x" by auto
  then show ?case by (auto intro: rtranclp.rtrancl_into_rtrancl)
qed auto

end
