(* ===== verification/Analysis.thy ===== *)
theory Analysis
  imports Calls
begin

text \<open>
  \<open>engine/graph.py\<close>, \<open>analyze\<close>: the judge is asked for a verdict on each call of the
  session in order (a verdict stored under the same request is reused), the verdict's
  dependencies become edges, and the call of the judged event is decided by the search for a
  protected path. The judge is an environment step \<open>json \<Rightarrow> 'w \<Rightarrow> json res \<times> 'w\<close>:
  it may answer anything, fail, and change with every call.
\<close>

record sem_node =
  sn_node :: string
  sn_ws :: string
  sn_sess :: string
  sn_event :: string
  sn_hash :: string
  sn_verdict :: json

record sem_edge =
  se_ws :: string
  se_sess :: string
  se_src :: string
  se_dst :: string
  se_reason :: json

record sem_decision =
  sd_event :: string
  sd_ws :: string
  sd_sess :: string
  sd_outcome :: outcome
  sd_model :: string
  sd_prompt :: string

record sem_db =
  sem_nodes :: "sem_node list"
  sem_edges :: "sem_edge list"
  sem_decisions :: "sem_decision list"

type_synonym 'w judge = "json \<Rightarrow> 'w \<Rightarrow> json res \<times> 'w"

definition placeholder :: "string \<Rightarrow> string \<Rightarrow> string \<Rightarrow> string \<Rightarrow> sem_node" where
  "placeholder nid ws sess ev =
     \<lparr>sn_node = nid, sn_ws = ws, sn_sess = sess, sn_event = ev, sn_hash = [], sn_verdict = JObj []\<rparr>"

definition cached_verdict :: "sem_db \<Rightarrow> string \<Rightarrow> string \<Rightarrow> json option" where
  "cached_verdict db nid req =
     map_option sn_verdict (find (\<lambda>n. sn_node n = nid \<and> sn_hash n = req) (sem_nodes db))"

definition sources_json :: "dict list \<Rightarrow> json" where
  "sources_json srcs = JArr (map JObj srcs)"

definition source_node :: "dict \<Rightarrow> string" where
  "source_node s = the_str (dget s ''node_id'')"

text \<open>The action and reason for a judged call.\<close>

definition decide_call :: "json \<Rightarrow> bool \<Rightarrow> string list \<Rightarrow> string \<times> string" where
  "decide_call externality complete path =
     (if externality = JStr ''external'' \<and> path \<noteq> [] then (''block'', ''protected_source_reachable'')
      else if \<not> complete \<or> externality = JStr ''unknown''
      then (''unavailable'', ''semantic_judgment_incomplete'')
      else (''allow'', if externality = JStr ''local'' then ''local_operation''
                       else ''no_protected_path_observed''))"

definition call_outcome :: "dict list \<Rightarrow> (string \<times> string list) list \<Rightarrow> bool \<Rightarrow> dict \<Rightarrow> string \<Rightarrow> outcome" where
  "call_outcome srcs edges complete verdict nid =
     (let path = protected_path nid edges (map source_node srcs);
          (action, reason) = decide_call (dget verdict ''externality'') complete path
      in outcome action reason path (Some nid))"

text \<open>The call with the keys that later requests see in \<open>previous_calls\<close>.\<close>

definition judged_call :: "call_node \<Rightarrow> dict \<Rightarrow> call_node" where
  "judged_call c verdict =
     c\<lparr>c_extra := c_extra c @ [(''dependencies'', dget verdict ''dependencies''),
                               (''judgment_complete'', dget verdict ''complete'')]\<rparr>"

text \<open>Recording one verdict: the node row is replaced, the incoming edges are rewritten.\<close>

definition record_verdict :: "string \<Rightarrow> string \<Rightarrow> call_node \<Rightarrow> string \<Rightarrow> dict \<Rightarrow> sem_db \<Rightarrow> sem_db" where
  "record_verdict ws sess c req verdict db =
     db\<lparr>sem_nodes := ins_replace sn_node
          \<lparr>sn_node = c_node c, sn_ws = ws, sn_sess = sess, sn_event = c_event c, sn_hash = req,
           sn_verdict = JObj verdict\<rparr> (sem_nodes db),
        sem_edges := del_where (\<lambda>e. se_dst e = c_node c) (sem_edges db)
          @ map (\<lambda>e. \<lparr>se_ws = ws, se_sess = sess, se_src = edge_parent e, se_dst = c_node c,
                      se_reason = dget (the_obj e) ''reason''\<rparr>) (the_arr (dget verdict ''dependencies''))\<rparr>"

fun analyze_calls :: "hash \<Rightarrow> string \<Rightarrow> string \<Rightarrow> string \<Rightarrow> string \<Rightarrow> dict list \<Rightarrow> 'w judge
    \<Rightarrow> call_node list \<Rightarrow> call_node list \<Rightarrow> (string \<times> string list) list \<Rightarrow> bool \<Rightarrow> outcome option
    \<Rightarrow> sem_db \<Rightarrow> 'w \<Rightarrow> outcome option res \<times> sem_db \<times> 'w" where
  "analyze_calls H model ws sess event srcs judge [] prior edges complete result db w =
     (Inr result, db, w)"
| "analyze_calls H model ws sess event srcs judge (c # calls) prior edges complete result db w =
     (let roots = map source_node srcs;
          records = JObj [(''sources'', sources_json srcs), (''previous_calls'', JArr (map call_json prior)),
                          (''current_call'', call_json c)];
          req = digest H (JArr [JStr PROMPT_VERSION, JStr model, records]);
          cands = roots @ map c_node (filter c_completed prior);
          (answer, w) = (case cached_verdict db (c_node c) req of
                           Some v \<Rightarrow> (Inr v, w) | None \<Rightarrow> judge records w)
      in case answer of
           Inl e \<Rightarrow> (Inl e, db, w)
         | Inr raw \<Rightarrow>
         (case validate_verdict raw cands of
            Inl e \<Rightarrow> (Inl e, db, w)
          | Inr verdict \<Rightarrow>
            (let edges = dict_set (c_node c) (verdict_parents verdict) edges;
                 complete = (complete \<and> truthy (dget verdict ''complete''));
                 result = (if c_event c = event
                           then Some (call_outcome srcs edges complete verdict (c_node c)) else result);
                 db = record_verdict ws sess c req verdict db;
                 prior = prior @ [judged_call c verdict]
             in analyze_calls H model ws sess event srcs judge calls prior edges complete result db w)))"

definition analyze :: "hash \<Rightarrow> event_row list \<Rightarrow> boundaries \<Rightarrow> string \<Rightarrow> string \<Rightarrow> string \<Rightarrow> dict list
    \<Rightarrow> 'w judge \<Rightarrow> string \<Rightarrow> nat \<Rightarrow> nat \<Rightarrow> sem_db \<Rightarrow> 'w \<Rightarrow> outcome res \<times> sem_db \<times> 'w" where
  "analyze H evs bs ws sess event srcs judge model maxev maxby db w =
     (case find (\<lambda>r. er_event r = event \<and> er_workspace r = ws \<and> er_session r = Some sess) evs of
        None \<Rightarrow> (Inl (GraphUnavailable ''current_tool_identity_missing''), db, w)
      | Some row \<Rightarrow>
        (case er_tool_use row of
           None \<Rightarrow> (Inl (GraphUnavailable ''current_tool_identity_missing''), db, w)
         | Some tool \<Rightarrow>
           if tool = [] then (Inl (GraphUnavailable ''current_tool_identity_missing''), db, w)
           else
             let db = db\<lparr>sem_nodes := ins_ignore sn_node
                            (placeholder (call_id H ws sess tool) ws sess event) (sem_nodes db)\<rparr>
             in case load_calls H evs bs ws sess event maxev maxby of
                  Inl e \<Rightarrow> (Inl e, db, w)
                | Inr [] \<Rightarrow> (Inl (GraphUnavailable ''tool_call_missing''), db, w)
                | Inr calls \<Rightarrow>
                    let db = db\<lparr>sem_nodes := fold (\<lambda>c. ins_ignore sn_node
                                   (placeholder (c_node c) ws sess (c_event c))) calls (sem_nodes db)\<rparr>
                    in case analyze_calls H model ws sess event srcs judge calls [] [] True None db w of
                         (Inl e, db, w) \<Rightarrow> (Inl e, db, w)
                       | (Inr None, db, w) \<Rightarrow> (Inl (GraphUnavailable ''current_node_missing''), db, w)
                       | (Inr (Some r), db, w) \<Rightarrow> (Inr r, db, w)))"

section \<open>Every block is backed by recorded edges\<close>

text \<open>The table holds exactly the edges of the search for the nodes judged so far.\<close>

definition parents_in :: "sem_edge list \<Rightarrow> string \<Rightarrow> string list" where
  "parents_in t n = map se_src (filter (\<lambda>e. se_dst e = n) t)"

definition edges_recorded :: "(string \<times> string list) list \<Rightarrow> sem_edge list \<Rightarrow> bool" where
  "edges_recorded edges t \<longleftrightarrow>
     (\<forall>n \<in> fst ` set edges. set (parents_in t n) = set (out_of edges n))"

definition recorded_edge :: "sem_edge list \<Rightarrow> string \<Rightarrow> string \<Rightarrow> bool" where
  "recorded_edge t p c \<longleftrightarrow> (\<exists>e \<in> set t. se_src e = p \<and> se_dst e = c)"

lemma out_of_dict_set [simp]: "out_of (dict_set n ps edges) k = (if k = n then ps else out_of edges k)"
  by (simp add: out_of_def)

lemma parents_in_record_verdict:
  "parents_in (sem_edges (record_verdict ws sess c req v db)) n =
     (if n = c_node c then verdict_parents v else parents_in (sem_edges db) n)"
  by (auto simp: parents_in_def record_verdict_def del_where_def verdict_parents_def filter_map o_def
      intro!: arg_cong [where f = "map se_src"] filter_cong)

lemma record_verdict_edges:
  "edges_recorded edges (sem_edges db) \<Longrightarrow>
   edges_recorded (dict_set (c_node c) (verdict_parents v) edges)
     (sem_edges (record_verdict ws sess c req v db))"
  by (simp add: edges_recorded_def fst_dict_set parents_in_record_verdict)

lemma parent_of_key: "parent_of edges c p \<Longrightarrow> c \<in> fst ` set edges"
proof -
  assume "parent_of edges c p"
  then obtain ps where "map_of edges c = Some ps"
    by (cases "map_of edges c") (auto simp: out_of_def)
  then have "(c, ps) \<in> set edges" by (rule map_of_SomeD)
  then show ?thesis by (rule rev_image_eqI) simp
qed

lemma edges_recorded_edge:
  assumes "edges_recorded edges t" and "parent_of edges c p"
  shows "recorded_edge t p c"
proof -
  have "set (parents_in t c) = set (out_of edges c)"
    using assms(1) parent_of_key [OF assms(2)] by (simp only: edges_recorded_def)
  with assms(2) have "p \<in> set (parents_in t c)" by simp
  then show ?thesis by (auto simp: recorded_edge_def parents_in_def)
qed

text \<open>A block decision carries a path of the search graph from a source to its node.\<close>

definition justified :: "dict list \<Rightarrow> (string \<Rightarrow> string \<Rightarrow> bool) \<Rightarrow> outcome \<Rightarrow> bool" where
  "justified srcs edge r \<longleftrightarrow> (o_action r = ''block'' \<longrightarrow>
     o_path r \<noteq> [] \<and> hd (o_path r) \<in> source_node ` set srcs \<and> Some (last (o_path r)) = o_node r \<and>
     successively edge (o_path r))"

lemma justified_mono:
  "justified srcs edge r \<Longrightarrow> (\<And>p c. edge p c \<Longrightarrow> edge' p c) \<Longrightarrow> justified srcs edge' r"
  by (auto simp: justified_def elim: successively_mono)

lemma justified_now: "justified srcs (\<lambda>p c. parent_of edges c p) (call_outcome srcs edges complete v n)"
  using protected_path_sound [of n edges "map source_node srcs"]
  by (auto simp: justified_def call_outcome_def decide_call_def Let_def split: prod.splits if_splits)

lemma analyze_calls_justified:
  assumes "analyze_calls H model ws sess event srcs judge calls prior edges complete result db w
             = (Inr (Some r), db', w')"
    and "edges_recorded edges (sem_edges db)"
    and "distinct (map c_node calls)" and "c_node ` set calls \<inter> fst ` set edges = {}"
    and "\<And>r. result = Some r \<Longrightarrow> justified srcs (\<lambda>p c. parent_of edges c p) r"
  shows "justified srcs (recorded_edge (sem_edges db')) r"
  using assms
proof (induction calls arbitrary: prior edges complete result db w)
  case Nil
  then show ?case by (auto intro: justified_mono edges_recorded_edge)
next
  case (Cons c calls)
  from Cons.prems(1) obtain w2 req verdict edges2 complete2 result2 prior2 where
    e2: "edges2 = dict_set (c_node c) (verdict_parents verdict) edges"
    and r2: "result2 = (if c_event c = event
               then Some (call_outcome srcs edges2 complete2 verdict (c_node c)) else result)"
    and rest: "analyze_calls H model ws sess event srcs judge calls prior2 edges2 complete2 result2
       (record_verdict ws sess c req verdict db) w2 = (Inr (Some r), db', w')"
    by (auto simp: Let_def split: prod.splits sum.splits)
  have new: "c_node c \<notin> fst ` set edges" using Cons.prems(4) by auto
  have keep: "parent_of edges2 x p" if "parent_of edges x p" for x p
  proof -
    have "x \<noteq> c_node c" using new parent_of_key [OF that] by metis
    with that show ?thesis by (simp add: e2)
  qed
  show ?case
  proof (rule Cons.IH [OF rest])
    show "edges_recorded edges2 (sem_edges (record_verdict ws sess c req verdict db))"
      unfolding e2 using Cons.prems(2) by (rule record_verdict_edges)
    show "distinct (map c_node calls)" using Cons.prems(3) by simp
    show "c_node ` set calls \<inter> fst ` set edges2 = {}"
      using Cons.prems(3,4) by (auto simp: fst_dict_set e2)
    show "justified srcs (\<lambda>p ca. parent_of edges2 ca p) r'" if "result2 = Some r'" for r'
      using that justified_now justified_mono [OF Cons.prems(5)] keep
      by (auto simp: r2 split: if_splits)
  qed
qed

text \<open>
  A call that the whole-history analysis blocks is blocked for a recorded reason: the
  path in the result starts at a registered source, ends at the judged call, and every step
  of it is an information edge stored in the edge table of the resulting database, whatever
  the judge answered.
\<close>

theorem analyze_block_has_recorded_path:
  assumes "analyze H evs bs ws sess event srcs judge model maxev maxby db w = (Inr r, db', w')"
    and "o_action r = ''block''"
  shows "o_path r \<noteq> [] \<and> hd (o_path r) \<in> source_node ` set srcs
    \<and> Some (last (o_path r)) = o_node r
    \<and> successively (recorded_edge (sem_edges db')) (o_path r)"
proof -
  from assms(1) obtain calls e db2 w2 where
    c: "load_calls H evs bs ws sess event maxev maxby = Inr calls"
    and a: "analyze_calls H model ws sess event srcs judge calls [] [] True None db2 w2
              = (Inr (Some r), db', w')"
    by (auto simp: analyze_def Let_def simp del: analyze_calls.simps
        split: option.splits if_splits sum.splits list.splits prod.splits)
  from c obtain e where "event_by_id evs event = Some e"
    by (auto simp: load_calls_def split: option.splits)
  with load_calls_ok [OF c] have "distinct (map c_node calls)"
    by (simp add: mirrors_def)
  with analyze_calls_justified [OF a] assms(2) show ?thesis
    by (simp add: justified_def edges_recorded_def)
qed

definition sample_judge :: "unit judge" where
  "sample_judge records w =
     (Inr (JObj [(''externality'', JStr ''external''), (''complete'', JBool True), (''reason'', JStr ''r''),
        (''dependencies'', JArr [JObj [(''node_id'', JStr ''source:1''), (''reason'', JStr ''r'')]])]), w)"

definition sample_run :: "outcome res \<times> sem_db \<times> unit" where
  "sample_run = analyze (\<lambda>x. ''h'') [sample_pre] [] ''w'' ''s'' ''e1'' [[(''node_id'', JStr ''source:1'')]]
     sample_judge ''m'' 500 256000 \<lparr>sem_nodes = [], sem_edges = [], sem_decisions = []\<rparr> ()"

theorem analyze_block_has_recorded_path_witness:
  "\<exists>r db' w'. sample_run = (Inr r, db', w') \<and> o_action r = ''block''
     \<and> hd (o_path r) = ''source:1'' \<and> successively (recorded_edge (sem_edges db')) (o_path r)"
proof -
  have ok: "\<not> isl (fst sample_run)" and b: "o_action (projr (fst sample_run)) = ''block''"
    by code_simp+
  obtain x db' w' where run: "sample_run = (x, db', w')" by (cases sample_run)
  with ok obtain r where r: "sample_run = (Inr r, db', w')" by (metis fst_conv isl_def sum.exhaust)
  have block: "o_action r = ''block''" using b unfolding r by simp
  from analyze_block_has_recorded_path [OF r [unfolded sample_run_def] block]
  have "hd (o_path r) = ''source:1''" by (simp add: source_node_def dget_or_def)
  with analyze_block_has_recorded_path [OF r [unfolded sample_run_def] block] r block show ?thesis
    by blast
qed

end
