(* ===== verification/Property_Graph.thy ===== *)
theory Property_Graph
  imports Property_Verdict Worklist Analysis
begin

text \<open>
  \<open>engine/property_graph.py\<close>, second part: the versioned information graph. A judgment of
  a ToolCall is a revision; its edges carry the pinned revisions of the parents they were
  judged against, its accesses the resources read and written, and the heads point at the
  current revision of each call. On top of the tables: the parents of a revision, the
  search for a protected source, the binding of registered sources to revisions, the
  completeness of an ancestry, and the decision of a send with its audit records.
\<close>

record revision_row =
  rv_rev :: string
  rv_ws :: string
  rv_sess :: string
  rv_node :: string
  rv_event :: string
  rv_model :: string
  rv_prompt :: string
  rv_verdict :: dict

record head_row =
  hd_ws :: string
  hd_sess :: string
  hd_node :: string
  hd_rev :: string

record edge_row =
  ed_rev :: string
  ed_src :: string
  ed_dst :: string
  ed_reason :: json

record access_row =
  ac_rev :: string
  ac_node :: string
  ac_path :: string
  ac_mode :: string
  ac_reason :: json

record link_row =
  lk_rev :: string
  lk_parent :: string
  lk_parent_rev :: string

record progress_row =
  pg_ws :: string
  pg_sess :: string
  pg_event :: string
  pg_state :: string

record check_row =
  ck_event :: string
  ck_policy :: string
  ck_graph :: string
  ck_result :: outcome

record graph_db =
  g_revisions :: "revision_row list"
  g_completed :: "(string \<times> string) list"
  g_heads :: "head_row list"
  g_edges :: "edge_row list"
  g_accesses :: "access_row list"
  g_links :: "link_row list"
  g_outsel :: "(string \<times> string \<times> json \<times> string) list"
  g_ressel :: "(string \<times> string \<times> json) list"
  g_policies :: "(string \<times> dict list) list"
  g_progress :: "progress_row list"
  g_checks :: "check_row list"

definition empty_graph :: graph_db where
  "empty_graph = \<lparr>g_revisions = [], g_completed = [], g_heads = [], g_edges = [], g_accesses = [],
     g_links = [], g_outsel = [], g_ressel = [], g_policies = [], g_progress = [], g_checks = []\<rparr>"

section \<open>Persisting a revision\<close>

definition head_of :: "graph_db \<Rightarrow> string \<Rightarrow> string \<Rightarrow> string \<Rightarrow> string option" where
  "head_of db ws sess node = map_option hd_rev
     (find (\<lambda>h. hd_ws h = ws \<and> hd_sess h = sess \<and> hd_node h = node) (g_heads db))"

definition head_any :: "graph_db \<Rightarrow> string \<Rightarrow> string \<Rightarrow> string option" where
  "head_any db ws node = map_option hd_rev (find (\<lambda>h. hd_ws h = ws \<and> hd_node h = node) (g_heads db))"

definition head_key :: "head_row \<Rightarrow> string \<times> string \<times> string" where
  "head_key h = (hd_ws h, hd_sess h, hd_node h)"

fun link_rows :: "string \<Rightarrow> (string \<times> string) list \<Rightarrow> dict list \<Rightarrow> link_row list res" where
  "link_rows rvn links [] = Inr []"
| "link_rows rvn links (e # es) =
     (case map_of links (edge_node e) of
        None \<Rightarrow> Inl (KeyError (edge_node e))
      | Some prev \<Rightarrow>
          (case link_rows rvn links es of
             Inl x \<Rightarrow> Inl x
           | Inr rows \<Rightarrow> Inr (\<lparr>lk_rev = rvn, lk_parent = edge_node e, lk_parent_rev = prev\<rparr> # rows)))"

definition add_all :: "('r \<Rightarrow> 'k) \<Rightarrow> 'r list \<Rightarrow> 'r list \<Rightarrow> 'r list" where
  "add_all key rows t = fold (ins_ignore key) rows t"

definition persist :: "string \<Rightarrow> string \<Rightarrow> call_node \<Rightarrow> string \<Rightarrow> string \<Rightarrow> dict
    \<Rightarrow> (string \<times> string) list option \<Rightarrow> graph_db \<Rightarrow> graph_db res" where
  "persist ws sess c rvn model verdict parent_revs db =
     (if head_of db ws sess (c_node c) = Some rvn then Inr db
      else
        case (case parent_revs of None \<Rightarrow> Inr [] | Some links \<Rightarrow> link_rows rvn links (verdict_edges verdict)) of
          Inl e \<Rightarrow> Inl e
        | Inr lrows \<Rightarrow> Inr (db\<lparr>
            g_revisions := ins_ignore rv_rev
              \<lparr>rv_rev = rvn, rv_ws = ws, rv_sess = sess, rv_node = c_node c, rv_event = c_event c,
               rv_model = model, rv_prompt = PROMPT_VERSION, rv_verdict = verdict\<rparr> (g_revisions db),
            g_edges := add_all (\<lambda>e. (ed_rev e, ed_src e, ed_dst e))
              (map (\<lambda>e. \<lparr>ed_rev = rvn, ed_src = edge_node e, ed_dst = c_node c,
                         ed_reason = dget e ''reason''\<rparr>) (verdict_edges verdict)) (g_edges db),
            g_accesses := add_all (\<lambda>a. (ac_rev a, ac_path a, ac_mode a))
              (map (\<lambda>a. \<lparr>ac_rev = rvn, ac_node = c_node c, ac_path = the_str (dget a ''path''),
                         ac_mode = the_str (dget a ''mode''), ac_reason = dget a ''reason''\<rparr>)
                (verdict_accesses verdict)) (g_accesses db),
            g_links := add_all (\<lambda>l. (lk_rev l, lk_parent l)) lrows (g_links db),
            g_heads := ins_replace head_key
              \<lparr>hd_ws = ws, hd_sess = sess, hd_node = c_node c, hd_rev = rvn\<rparr> (g_heads db)\<rparr>))"

section \<open>Parents of a revision\<close>

type_synonym pinned = "string \<times> string"

text \<open>
  The rows of the join of \<open>graph_edges\<close> with \<open>graph_revision_links\<close>, in rowid order
  (SQL leaves the order open; only the order in which parents are explored depends on it).
\<close>

fun pin_parents :: "graph_db \<Rightarrow> string \<Rightarrow> string \<Rightarrow> edge_row list \<Rightarrow> pinned list res" where
  "pin_parents db ws rvn [] = Inr []"
| "pin_parents db ws rvn (e # es) =
     (case find (\<lambda>l. lk_rev l = rvn \<and> lk_parent l = ed_src e) (g_links db) of
        Some l \<Rightarrow>
          (case pin_parents db ws rvn es of Inl x \<Rightarrow> Inl x
           | Inr ps \<Rightarrow> Inr ((ed_src e, lk_parent_rev l) # ps))
      | None \<Rightarrow>
          if list_ex (\<lambda>r. rv_rev r = rvn) (g_revisions db)
          then Inl (GraphUnavailable ''dependency_revision_missing'')
          else case head_any db ws (ed_src e) of
              None \<Rightarrow> Inl (GraphUnavailable ''dependency_node_missing'')
            | Some prev \<Rightarrow>
                (case pin_parents db ws rvn es of Inl x \<Rightarrow> Inl x
                 | Inr ps \<Rightarrow> Inr ((ed_src e, prev) # ps)))"

definition revision_parents :: "graph_db \<Rightarrow> string \<Rightarrow> pinned \<Rightarrow> pinned list res" where
  "revision_parents db ws nr =
     pin_parents db ws (snd nr)
       (filter (\<lambda>e. ed_rev e = snd nr \<and> ed_dst e = fst nr) (g_edges db))"

section \<open>Reaching a protected source\<close>

text \<open>Keys of the dictionary of roots: a pinned revision, or a bare node (graph fixtures).\<close>

datatype root_key = Rev string string | Node string

definition root_of :: "(root_key \<times> string) list \<Rightarrow> pinned \<Rightarrow> string option" where
  "root_of roots nr =
     (case (case map_of roots (Rev (fst nr) (snd nr)) of None \<Rightarrow> map_of roots (Node (fst nr)) | s \<Rightarrow> s) of
        Some s \<Rightarrow> if s = [] then None else Some s
      | None \<Rightarrow> None)"

definition reach :: "graph_db \<Rightarrow> string \<Rightarrow> string \<Rightarrow> string \<Rightarrow> (root_key \<times> string) list \<Rightarrow> nat
    \<Rightarrow> string list res" where
  "reach db ws sess node roots limit =
     (case head_of db ws sess node of
        None \<Rightarrow> Inr []
      | Some rvn \<Rightarrow>
          (case reach_loop (revision_parents db ws) (root_of roots) limit [(node, rvn)] [((node, rvn), None)] of
             Inl e \<Rightarrow> Inl e
           | Inr None \<Rightarrow> Inr []
           | Inr (Some (src, vs)) \<Rightarrow> Inr (src # map fst vs)))"

definition TRAVERSAL_LIMIT :: nat where
  "TRAVERSAL_LIMIT = 200000"

section \<open>Binding registered sources to revisions\<close>

definition whole_file_selector :: "dict \<Rightarrow> bool" where
  "whole_file_selector src \<longleftrightarrow>
     (let sel = dget src ''selector''
      in \<not> truthy sel \<or> (is_obj sel \<and> dget (the_obj sel) ''kind'' = JStr ''whole_file''))"

definition bindable_path :: "dict \<Rightarrow> bool" where
  "bindable_path src \<longleftrightarrow>
     (case dget src ''path'' of JStr p \<Rightarrow> \<not> starts_with ''/'' p \<and> normpath p = p | _ \<Rightarrow> False)"

definition readers :: "graph_db \<Rightarrow> string \<Rightarrow> string \<Rightarrow> pinned list" where
  "readers db ws path =
     map (\<lambda>a. (ac_node a, ac_rev a))
       (filter (\<lambda>a. ac_path a = path \<and> ac_mode a = ''read'' \<and>
          list_ex (\<lambda>r. rv_rev r = ac_rev a \<and> rv_node r = ac_node a \<and> rv_ws r = ws) (g_revisions db))
        (g_accesses db))"

fun bindings_loop :: "graph_db \<Rightarrow> string \<Rightarrow> dict list \<Rightarrow> (root_key \<times> string) list \<Rightarrow> bool
    \<Rightarrow> (root_key \<times> string) list \<times> bool" where
  "bindings_loop db ws [] roots complete = (roots, complete)"
| "bindings_loop db ws (src # srcs) roots complete =
     (if \<not> whole_file_selector src \<or> \<not> bindable_path src then bindings_loop db ws srcs roots False
      else bindings_loop db ws srcs
             (fold (\<lambda>nr. dict_set (Rev (fst nr) (snd nr)) (source_node src))
                (readers db ws (the_str (dget src ''path''))) roots) complete)"

definition bindings :: "graph_db \<Rightarrow> string \<Rightarrow> dict list \<Rightarrow> (root_key \<times> string) list \<times> bool" where
  "bindings db ws srcs = bindings_loop db ws srcs [] True"

section \<open>Completeness of the ancestry\<close>

definition revision_row_at :: "graph_db \<Rightarrow> string \<Rightarrow> pinned \<Rightarrow> revision_row option" where
  "revision_row_at db ws nr =
     find (\<lambda>r. rv_ws r = ws \<and> rv_node r = fst nr \<and> rv_rev r = snd nr) (g_revisions db)"

definition verdict_complete :: "dict \<Rightarrow> bool" where
  "verdict_complete v \<longleftrightarrow> truthy (dget v ''complete'')"

definition complete_visit :: "graph_db \<Rightarrow> string \<Rightarrow> pinned \<Rightarrow> unit \<Rightarrow> (bool + unit) res" where
  "complete_visit db ws nr u =
     (case revision_row_at db ws nr of
        None \<Rightarrow> Inr (Inl False)
      | Some row \<Rightarrow> if verdict_complete (rv_verdict row) then Inr (Inr ()) else Inr (Inl False))"

definition dependency_complete :: "graph_db \<Rightarrow> string \<Rightarrow> string \<Rightarrow> bool res" where
  "dependency_complete db ws node =
     (case head_any db ws node of
        None \<Rightarrow> Inr False
      | Some rvn \<Rightarrow>
          (case walk (revision_parents db ws) (complete_visit db ws) TRAVERSAL_LIMIT [(node, rvn)] [] () of
             Raised e \<Rightarrow> Inl e
           | Over \<Rightarrow> Inl (GraphUnavailable ''graph_completeness_budget'')
           | Stopped b \<Rightarrow> Inr b
           | Done _ \<Rightarrow> Inr True))"

definition need_json :: "pinned \<Rightarrow> dict \<Rightarrow> json" where
  "need_json nr v = JObj [(''node_id'', JStr (fst nr)), (''revision'', JStr (snd nr)),
     (''reason'', dget v ''reason''), (''requests'', dget_or (JArr []) v ''evidence_requests''),
     (''receipts'', dget_or (JArr []) v ''evidence_receipts'')]"

definition needs_visit :: "graph_db \<Rightarrow> string \<Rightarrow> pinned \<Rightarrow> json list \<Rightarrow> (unit + json list) res" where
  "needs_visit db ws nr needs =
     (case revision_row_at db ws nr of
        None \<Rightarrow> Inr (Inr needs)
      | Some row \<Rightarrow> if verdict_complete (rv_verdict row) then Inr (Inr needs)
                    else Inr (Inr (needs @ [need_json nr (rv_verdict row)])))"

definition unresolved_dependencies :: "graph_db \<Rightarrow> string \<Rightarrow> string \<Rightarrow> json list res" where
  "unresolved_dependencies db ws node =
     (case walk (revision_parents db ws) (needs_visit db ws) TRAVERSAL_LIMIT
             (case head_any db ws node of None \<Rightarrow> [] | Some rvn \<Rightarrow> [(node, rvn)]) [] [] of
        Raised e \<Rightarrow> Inl e
      | Over \<Rightarrow> Inl (GraphUnavailable ''graph_traversal_budget_exceeded'')
      | Stopped u \<Rightarrow> Inr []
      | Done needs \<Rightarrow> Inr needs)"

section \<open>The decision of a send\<close>

definition policy_digest :: "hash \<Rightarrow> dict list \<Rightarrow> string" where
  "policy_digest H srcs = digest H (sources_json (sort_key source_node srcs))"

definition graph_action :: "json \<Rightarrow> bool \<Rightarrow> string list \<Rightarrow> bool \<Rightarrow> bool \<Rightarrow> string \<times> string" where
  "graph_action externality require_external path complete policy_complete =
     (if externality = JStr ''local'' \<and> \<not> require_external then (''allow'', ''local_operation'')
      else if path \<noteq> [] then (''block'', ''protected_source_reachable'')
      else if \<not> complete \<or> \<not> policy_complete then (''unavailable'', ''property_graph_incomplete'')
      else (''allow'', ''no_protected_path_observed''))"

text \<open>
  The final transaction of \<open>analyze_properties\<close>: the current policy is read again, the
  decision made on the recorded graph, and the decision recorded with the policy it used.
  An exception rolls the transaction back.
\<close>

definition decide_properties :: "hash \<Rightarrow> string \<Rightarrow> string \<Rightarrow> string \<Rightarrow> string \<Rightarrow> string \<Rightarrow> dict
    \<Rightarrow> dict list \<Rightarrow> bool \<Rightarrow> graph_db \<Rightarrow> outcome res \<times> graph_db" where
  "decide_properties H ws sess event node rvn verdict srcs require_external db =
     (case dependency_complete db ws node of
        Inl e \<Rightarrow> (Inl e, db)
      | Inr complete \<Rightarrow>
        (let (roots, policy_complete) = bindings db ws srcs
         in case reach db ws sess node roots TRAVERSAL_LIMIT of
              Inl e \<Rightarrow> (Inl e, db)
            | Inr path \<Rightarrow>
              (let (action, reason) = graph_action (dget verdict ''externality'') require_external path
                                        complete policy_complete;
                   result = outcome action reason path (Some node)
               in case (if action = ''unavailable'' then unresolved_dependencies db ws node else Inr []) of
                    Inl e \<Rightarrow> (Inl e, db)
                  | Inr needs \<Rightarrow>
                    (let result = (if action = ''unavailable''
                           then result\<lparr>o_retryable := Some policy_complete,
                                       o_scope := (if policy_complete then Some ''review'' else None),
                                       o_needs := needs\<rparr>
                           else result)
                     in (Inr result,
                         db\<lparr>g_policies := ins_ignore fst (policy_digest H srcs, srcs) (g_policies db),
                            g_progress := ins_replace (\<lambda>p. (pg_ws p, pg_sess p))
                              \<lparr>pg_ws = ws, pg_sess = sess, pg_event = event,
                               pg_state = (if \<not> complete \<or> \<not> policy_complete then ''incomplete'' else ''ready'')\<rparr>
                              (g_progress db),
                            g_checks := ins_ignore (\<lambda>c. (ck_event c, ck_policy c, ck_graph c))
                              \<lparr>ck_event = event, ck_policy = policy_digest H srcs, ck_graph = rvn,
                               ck_result = result\<rparr> (g_checks db)\<rparr>)))))"

section \<open>What the bindings say\<close>

abbreviation bind_key :: "pinned \<Rightarrow> root_key" where
  "bind_key nr \<equiv> Rev (fst nr) (snd nr)"

abbreviation bound_readers :: "graph_db \<Rightarrow> string \<Rightarrow> dict \<Rightarrow> pinned list" where
  "bound_readers db ws src \<equiv> readers db ws (the_str (dget src ''path''))"

lemma map_of_fold_bind:
  "map_of (fold (\<lambda>nr. dict_set (bind_key nr) s) rs roots) k =
     (if k \<in> bind_key ` set rs then Some s else map_of roots k)"
  by (induction rs arbitrary: roots) auto

lemma bindings_loop_complete:
  "bindings_loop db ws srcs roots c = (roots', True) \<Longrightarrow>
     c \<and> (\<forall>src \<in> set srcs. whole_file_selector src \<and> bindable_path src)"
  by (induction srcs arbitrary: roots c) (auto split: if_splits)

lemma bindings_loop_keeps:
  "bindings_loop db ws srcs roots c = (roots', c') \<Longrightarrow> map_of roots k \<noteq> None \<Longrightarrow> map_of roots' k \<noteq> None"
proof (induction srcs arbitrary: roots c)
  case (Cons src srcs)
  show ?case
  proof (cases "\<not> whole_file_selector src \<or> \<not> bindable_path src")
    case True
    with Cons show ?thesis by simp
  next
    case False
    with Cons.prems show ?thesis
      by (intro Cons.IH [where c = c and roots = "fold (\<lambda>nr. dict_set (bind_key nr) (source_node src)) (bound_readers db ws src) roots"])
         (auto simp: map_of_fold_bind)
  qed
qed simp

lemma bindings_loop_covers:
  assumes "bindings_loop db ws srcs roots c = (roots', c')" and "src \<in> set srcs"
    and "whole_file_selector src" and "bindable_path src" and "nr \<in> set (bound_readers db ws src)"
  shows "map_of roots' (bind_key nr) \<noteq> None"
  using assms
proof (induction srcs arbitrary: roots c)
  case (Cons s srcs)
  show ?case
  proof (cases "src = s")
    case True
    let ?r = "fold (\<lambda>nr. dict_set (bind_key nr) (source_node s)) (bound_readers db ws s) roots"
    from True Cons.prems have "bindings_loop db ws srcs ?r c = (roots', c')" by simp
    moreover have "map_of ?r (bind_key nr) \<noteq> None" using True Cons.prems(5) by (simp add: map_of_fold_bind)
    ultimately show ?thesis by (rule bindings_loop_keeps)
  next
    case False
    with Cons show ?thesis by (auto split: if_splits)
  qed
qed simp

lemma bindings_loop_values:
  assumes "bindings_loop db ws srcs roots c = (roots', c')" and "map_of roots' k = Some s"
  shows "map_of roots k = Some s \<or> (\<exists>src \<in> set srcs. s = source_node src \<and> k \<in> bind_key ` set (bound_readers db ws src))"
  using assms
proof (induction srcs arbitrary: roots c)
  case (Cons src srcs)
  show ?case
  proof (cases "\<not> whole_file_selector src \<or> \<not> bindable_path src")
    case True
    with Cons show ?thesis by auto
  next
    case False
    let ?r = "fold (\<lambda>nr. dict_set (bind_key nr) (source_node src)) (bound_readers db ws src) roots"
    have "map_of ?r k = Some s \<or> (\<exists>t \<in> set srcs. s = source_node t \<and> k \<in> bind_key ` set (bound_readers db ws t))"
      using Cons.IH [of ?r c] Cons.prems False by simp
    then show ?thesis by (auto simp: map_of_fold_bind split: if_splits)
  qed
qed simp

lemma root_of_bound:
  assumes "bindings db ws srcs = (roots, c)" and "src \<in> set srcs" and "whole_file_selector src"
    and "bindable_path src" and "nr \<in> set (bound_readers db ws src)" and "\<And>s. s \<in> set srcs \<Longrightarrow> source_node s \<noteq> []"
  shows "root_of roots nr \<noteq> None"
proof -
  from assms(1-5) obtain s where s: "map_of roots (bind_key nr) = Some s"
    using bindings_loop_covers [of db ws srcs "[]" True roots c src nr] by (auto simp: bindings_def)
  with assms(1) have "s \<in> source_node ` set srcs"
    using bindings_loop_values [of db ws srcs "[]" True roots c "bind_key nr" s] by (auto simp: bindings_def)
  with assms(6) s show ?thesis by (auto simp: root_of_def)
qed

lemma root_of_source:
  assumes "bindings db ws srcs = (roots, c)" and "root_of roots nr = Some s"
  shows "\<exists>src \<in> set srcs. s = source_node src \<and> nr \<in> set (bound_readers db ws src)"
proof -
  have keys: "map_of roots k = Some v \<Longrightarrow> \<exists>src \<in> set srcs. v = source_node src \<and> k \<in> bind_key ` set (bound_readers db ws src)" for k v
    using bindings_loop_values [of db ws srcs "[]" True roots c k v] assms(1) by (auto simp: bindings_def)
  have "map_of roots (Node (fst nr)) = None" using keys [of "Node (fst nr)"] by (cases "map_of roots (Node (fst nr))") auto
  with assms(2) have "map_of roots (bind_key nr) = Some s"
    by (auto simp: root_of_def split: option.splits if_splits)
  from keys [OF this] obtain src nr' where "src \<in> set srcs" "s = source_node src"
    "nr' \<in> set (bound_readers db ws src)" "bind_key nr = bind_key nr'" by blast
  moreover from this(4) have "nr = nr'" by (simp add: prod_eq_iff)
  ultimately show ?thesis by blast
qed

section \<open>What an answer of the searches means\<close>

abbreviation recorded_complete :: "graph_db \<Rightarrow> string \<Rightarrow> pinned \<Rightarrow> bool" where
  "recorded_complete db ws nr \<equiv> (\<exists>row \<in> set (g_revisions db).
     rv_ws row = ws \<and> rv_node row = fst nr \<and> rv_rev row = snd nr \<and> verdict_complete (rv_verdict row))"

interpretation dc: checked_walk "revision_parents db ws" "complete_visit db ws"
    "\<lambda>nr. \<exists>row. revision_row_at db ws nr = Some row \<and> verdict_complete (rv_verdict row)"
  for db ws
  by unfold_locales (auto simp: complete_visit_def split: option.splits if_splits)

lemma revision_row_at_recorded:
  "revision_row_at db ws nr = Some row \<Longrightarrow> row \<in> set (g_revisions db) \<and> rv_ws row = ws \<and>
     rv_node row = fst nr \<and> rv_rev row = snd nr"
  by (auto simp: revision_row_at_def dest: find_Some_in)

lemma dependency_complete_ancestors:
  assumes "dependency_complete db ws node = Inr True"
  obtains h where "head_any db ws node = Some h"
    and "\<And>m. m \<in> ancestors (revision_parents db ws) (node, h) \<Longrightarrow> recorded_complete db ws m"
proof -
  from assms obtain h where h: "head_any db ws node = Some h"
    by (auto simp: dependency_complete_def split: option.splits)
  obtain fin where "walk (revision_parents db ws) (complete_visit db ws) TRAVERSAL_LIMIT [(node, h)] [] () = Done fin"
  proof (cases "walk (revision_parents db ws) (complete_visit db ws) TRAVERSAL_LIMIT [(node, h)] [] ()")
    case (Stopped b)
    then have "\<exists>m t. complete_visit db ws m t = Inr (Inl b)"
      using walk_stopped_ancestor [OF Stopped, of "(node, h)"] by auto
    then have "b = False" by (auto simp: complete_visit_def split: option.splits if_splits)
    with assms h Stopped show ?thesis by (simp add: dependency_complete_def)
  qed (use assms h that in \<open>auto simp: dependency_complete_def\<close>)
  from dc.walk_all_good [OF this] have "recorded_complete db ws m"
    if "m \<in> ancestors (revision_parents db ws) (node, h)" for m
    using that revision_row_at_recorded [of db ws m] by blast
  with h that show thesis by blast
qed

lemma reach_found:
  assumes "reach db ws sess node roots limit = Inr (src # path)"
  obtains h vs where "head_of db ws sess node = Some h" and "vs \<noteq> []" and "path = map fst vs"
    and "root_of roots (hd vs) = Some src" and "last vs = (node, h)"
    and "successively (\<lambda>p c. up (revision_parents db ws) c p) vs"
proof -
  from assms obtain h vs where "head_of db ws sess node = Some h"
    and l: "reach_loop (revision_parents db ws) (root_of roots) limit [(node, h)] [((node, h), None)] = Inr (Some (src, vs))"
    and "path = map fst vs"
    by (auto simp: reach_def split: option.splits sum.splits)
  with reach_loop_start_sound [OF l] that show thesis by blast
qed

lemma reach_nothing:
  assumes "reach db ws sess node roots limit = Inr []" and "head_of db ws sess node = Some h"
    and "m \<in> ancestors (revision_parents db ws) (node, h)"
  shows "root_of roots m = None"
proof -
  from assms(1,2) have "reach_loop (revision_parents db ws) (root_of roots) limit [(node, h)] [((node, h), None)] = Inr None"
    by (auto simp: reach_def split: sum.splits option.splits prod.splits)
  from reach_loop_start_none [OF this assms(3)] show ?thesis .
qed

lemma decide_properties_answer:
  assumes "decide_properties H ws sess event node rvn verdict srcs ext db = (Inr r, db')"
  obtains complete roots policy path where "dependency_complete db ws node = Inr complete"
    and "bindings db ws srcs = (roots, policy)" and "reach db ws sess node roots TRAVERSAL_LIMIT = Inr path"
    and "graph_action (dget verdict ''externality'') ext path complete policy = (o_action r, o_reason r)"
    and "o_path r = path" and "o_node r = Some node"
  using assms
  by (auto simp: decide_properties_def outcome_def Let_def split: sum.splits prod.splits if_splits)

section \<open>Recorded judgments do not change\<close>

lemma filter_add_all: "(\<And>r. r \<in> set rows \<Longrightarrow> \<not> P r) \<Longrightarrow> filter P (add_all key rows t) = filter P t"
proof (induction rows arbitrary: t)
  case (Cons r rows)
  then show ?case using filter_ins_ignore [of P r key t] by (simp add: add_all_def)
qed (simp add: add_all_def)

lemma set_add_all: "set (add_all key rows t) \<subseteq> set rows \<union> set t"
proof (induction rows arbitrary: t)
  case (Cons r rows)
  then show ?case using Cons.IH [of "ins_ignore key r t"] set_ins_ignore [of key r t] by (auto simp: add_all_def)
qed (simp add: add_all_def)

lemma pin_parents_cong:
  assumes "\<And>n. find (\<lambda>l. lk_rev l = rvn \<and> lk_parent l = n) (g_links db') = find (\<lambda>l. lk_rev l = rvn \<and> lk_parent l = n) (g_links db)"
    and "list_ex (\<lambda>r. rv_rev r = rvn) (g_revisions db)" and "list_ex (\<lambda>r. rv_rev r = rvn) (g_revisions db')"
  shows "pin_parents db' ws rvn es = pin_parents db ws rvn es"
proof (induction es)
  case (Cons e es)
  with assms show ?case by (simp split: option.splits)
qed simp

lemma link_rows_rev: "link_rows rvn links es = Inr rows \<Longrightarrow> l \<in> set rows \<Longrightarrow>
    lk_rev l = rvn \<and> map_of links (lk_parent l) = Some (lk_parent_rev l)"
  by (induction es arbitrary: rows) (auto split: option.splits sum.splits)

definition recorded_rev :: "graph_db \<Rightarrow> string \<Rightarrow> bool" where
  "recorded_rev db rvn \<longleftrightarrow> list_ex (\<lambda>r. rv_rev r = rvn) (g_revisions db)"

text \<open>Every pinned parent revision is itself recorded.\<close>

definition links_recorded :: "graph_db \<Rightarrow> bool" where
  "links_recorded db \<longleftrightarrow> list_all (\<lambda>l. recorded_rev db (lk_parent_rev l)) (g_links db)"

lemma persist_shape:
  assumes "persist ws sess c rvn model verdict links db = Inr db'"
  obtains (same) "db' = db"
  | (new) lrows where "\<And>l. l \<in> set lrows \<Longrightarrow> lk_rev l = rvn \<and>
        (case links of None \<Rightarrow> False | Some m \<Rightarrow> map_of m (lk_parent l) = Some (lk_parent_rev l))"
      "g_links db' = add_all (\<lambda>l. (lk_rev l, lk_parent l)) lrows (g_links db)"
      "\<exists>row. rv_rev row = rvn \<and> g_revisions db' = ins_ignore rv_rev row (g_revisions db)"
      "\<exists>rows. (\<forall>e \<in> set rows. ed_rev e = rvn) \<and> g_edges db' = add_all (\<lambda>e. (ed_rev e, ed_src e, ed_dst e)) rows (g_edges db)"
proof (cases "head_of db ws sess (c_node c) = Some rvn")
  case True
  with assms same show ?thesis by (simp add: persist_def)
next
  case False
  define lres where "lres = (case links of None \<Rightarrow> Inr [] | Some m \<Rightarrow> link_rows rvn m (verdict_edges verdict))"
  from assms False obtain lrows where l: "lres = Inr lrows"
    by (cases lres) (simp_all add: persist_def lres_def)
  show ?thesis
  proof (rule new)
    show "lk_rev l = rvn \<and> (case links of None \<Rightarrow> False | Some m \<Rightarrow> map_of m (lk_parent l) = Some (lk_parent_rev l))"
      if "l \<in> set lrows" for l
      using l that link_rows_rev [of rvn _ "verdict_edges verdict" lrows l]
      by (auto simp: lres_def split: option.splits)
  qed (use assms False l [unfolded lres_def] in \<open>auto simp: persist_def intro!: exI\<close>)
qed

lemma recorded_rev_ins: "rv_rev row = rvn \<Longrightarrow> g_revisions db' = ins_ignore rv_rev row (g_revisions db) \<Longrightarrow>
    recorded_rev db' x \<longleftrightarrow> recorded_rev db x \<or> x = rvn"
  by (auto simp: recorded_rev_def list_ex_iff ins_ignore_def)

lemma persist_parents:
  assumes "persist ws sess c rvn model verdict links db = Inr db'" and "recorded_rev db (snd nr)" and "snd nr \<noteq> rvn"
  shows "revision_parents db' w nr = revision_parents db w nr"
  using assms(1)
proof (cases rule: persist_shape)
  case (new lrows)
  from new(4) assms(3) have e: "filter (\<lambda>e. ed_rev e = snd nr \<and> ed_dst e = fst nr) (g_edges db') =
      filter (\<lambda>e. ed_rev e = snd nr \<and> ed_dst e = fst nr) (g_edges db)"
    by (auto intro!: filter_add_all)
  have "recorded_rev db' (snd nr)" using new(3) assms(2) recorded_rev_ins by blast
  moreover have "find (\<lambda>l. lk_rev l = snd nr \<and> lk_parent l = n) (g_links db') =
      find (\<lambda>l. lk_rev l = snd nr \<and> lk_parent l = n) (g_links db)" for n
    unfolding find_filter new(2) using new(1) assms(3)
    by (subst filter_add_all) auto
  ultimately show ?thesis
    using assms(2) e pin_parents_cong [of "snd nr" db' db] by (simp add: revision_parents_def recorded_rev_def)
qed simp

lemma parents_recorded:
  assumes "links_recorded db" and "recorded_rev db (snd nr)" and "up (revision_parents db w) nr p"
  shows "recorded_rev db (snd p)"
proof -
  have "pin_parents db w (snd nr) es = Inr ps \<Longrightarrow> p \<in> set ps \<Longrightarrow> recorded_rev db (snd p)" for es ps
  proof (induction es arbitrary: ps)
    case (Cons e es)
    with assms(2) obtain l ps' where l: "find (\<lambda>l. lk_rev l = snd nr \<and> lk_parent l = ed_src e) (g_links db) = Some l"
      and p: "pin_parents db w (snd nr) es = Inr ps'" "ps = (ed_src e, lk_parent_rev l) # ps'"
      by (auto simp: recorded_rev_def split: option.splits sum.splits if_splits)
    from l have "l \<in> set (g_links db)" by (auto dest: find_Some_in)
    with assms(1) have "recorded_rev db (lk_parent_rev l)" by (auto simp: links_recorded_def list_all_iff)
    with Cons p show ?case by auto
  qed simp
  with assms(3) show ?thesis by (auto simp: up_def revision_parents_def)
qed

lemma persist_links_recorded:
  assumes "persist ws sess c rvn model verdict links db = Inr db'" and "links_recorded db"
    and "\<And>m n r. links = Some m \<Longrightarrow> map_of m n = Some r \<Longrightarrow> recorded_rev db r"
  shows "links_recorded db'"
  using assms(1)
proof (cases rule: persist_shape)
  case (new lrows)
  have "recorded_rev db' (lk_parent_rev l)" if "l \<in> set (g_links db')" for l
  proof -
    from that new(2) set_add_all have "l \<in> set lrows \<or> l \<in> set (g_links db)" by fastforce
    then have "recorded_rev db (lk_parent_rev l)"
      using new(1) [of l] assms(2,3) by (auto simp: links_recorded_def list_all_iff split: option.splits)
    with new(3) recorded_rev_ins show ?thesis by blast
  qed
  then show ?thesis by (simp add: links_recorded_def list_all_iff)
qed (simp add: assms)

lemma persist_ancestors:
  assumes "persist ws sess c rvn model verdict links db = Inr db'" and "links_recorded db"
    and "\<not> recorded_rev db rvn" and "recorded_rev db (snd nr)"
  shows "ancestors (revision_parents db' w) nr = ancestors (revision_parents db w) nr"
proof -
  let ?a = "revision_parents db w" and ?b = "revision_parents db' w"
  have step: "?b m = ?a m" if "recorded_rev db (snd m)" for m
    using persist_parents [OF assms(1) that, of w] that assms(3) by metis
  have "(up ?a)\<^sup>*\<^sup>* nr m \<Longrightarrow> recorded_rev db (snd m) \<and> (up ?b)\<^sup>*\<^sup>* nr m" for m
  proof (induction rule: rtranclp_induct)
    case (step m p)
    with parents_recorded [OF assms(2)] have "recorded_rev db (snd p)" by blast
    moreover have "up ?b m p" using step \<open>\<And>m. recorded_rev db (snd m) \<Longrightarrow> ?b m = ?a m\<close> by (simp add: up_def)
    ultimately show ?case using step.IH by (meson rtranclp.rtrancl_into_rtrancl)
  qed (use assms(4) in simp)
  moreover have "(up ?b)\<^sup>*\<^sup>* nr m \<Longrightarrow> recorded_rev db (snd m) \<and> (up ?a)\<^sup>*\<^sup>* nr m" for m
  proof (induction rule: rtranclp_induct)
    case (step m p)
    then have u: "up ?a m p" using \<open>\<And>m. recorded_rev db (snd m) \<Longrightarrow> ?b m = ?a m\<close> by (simp add: up_def)
    with parents_recorded [OF assms(2)] step.IH have "recorded_rev db (snd p)" by blast
    with u step.IH show ?case by (meson rtranclp.rtrancl_into_rtrancl)
  qed (use assms(4) in simp)
  ultimately show ?thesis by blast
qed

lemma clean_ancestry:
  assumes "decide_properties H ws sess event node rvn verdict srcs ext db = (Inr r, db')"
    and "o_action r = ''allow''" and "o_reason r = ''no_protected_path_observed''"
    and "head_of db ws sess node = Some h" and "head_any db ws node = Some h"
    and "\<And>s. s \<in> set srcs \<Longrightarrow> source_node s \<noteq> []"
    and "m \<in> ancestors (revision_parents db ws) (node, h)" and "src \<in> set srcs"
  shows "recorded_complete db ws m \<and> whole_file_selector src \<and> bindable_path src \<and>
    m \<notin> set (bound_readers db ws src)"
proof -
  obtain complete roots policy path where *: "dependency_complete db ws node = Inr complete"
    "bindings db ws srcs = (roots, policy)" "reach db ws sess node roots TRAVERSAL_LIMIT = Inr path"
    "graph_action (dget verdict ''externality'') ext path complete policy = (o_action r, o_reason r)"
    using decide_properties_answer [OF assms(1)] by metis
  from *(4) assms(2,3) have "path = [] \<and> complete \<and> policy"
    by (auto simp: graph_action_def split: if_splits)
  with * have dc: "dependency_complete db ws node = Inr True"
    and b: "bindings db ws srcs = (roots, True)" and re: "reach db ws sess node roots TRAVERSAL_LIMIT = Inr []"
    by simp_all
  have src: "whole_file_selector src" "bindable_path src"
    using bindings_loop_complete [of db ws srcs "[]" True roots] b assms(8) by (auto simp: bindings_def)
  obtain h' where "head_any db ws node = Some h'"
    and all: "\<And>m. m \<in> ancestors (revision_parents db ws) (node, h') \<Longrightarrow> recorded_complete db ws m"
    by (rule dependency_complete_ancestors [OF dc]) (rule that)
  with assms(5) have "h' = h" by simp
  with all assms(7) have "recorded_complete db ws m" by blast
  moreover have "root_of roots m = None" by (rule reach_nothing [OF re assms(4,7)])
  then have "m \<notin> set (bound_readers db ws src)"
    using root_of_bound [OF b assms(8) src _ assms(6)] by blast
  ultimately show ?thesis using src by blast
qed

section \<open>Properties\<close>

text \<open>
  C10. A send is allowed as "no protected path observed" only on a complete graph: every
  registered source is a whole file with a workspace-relative path, every revision the send
  descends from is recorded with a complete judgment, and none of them read a registered
  source.
\<close>

theorem allowed_send_has_clean_ancestry:
  assumes "decide_properties H ws sess event node rvn verdict srcs ext db = (Inr r, db')"
    and "o_action r = ''allow''" and "o_reason r = ''no_protected_path_observed''"
    and "head_of db ws sess node = Some h" and "head_any db ws node = Some h"
    and "\<And>s. s \<in> set srcs \<Longrightarrow> source_node s \<noteq> []"
    and "m \<in> ancestors (revision_parents db ws) (node, h)" and "src \<in> set srcs"
  shows "recorded_complete db ws m \<and> whole_file_selector src \<and> bindable_path src \<and>
    m \<notin> set (bound_readers db ws src)"
  by (rule clean_ancestry [OF assms])

text \<open>
  C11. A send is blocked only with a witness: the reported path starts at a registered source
  and lists the calls of a chain of pinned revisions, from one that read the source down to
  the current revision of the judged call, each an edge of the recorded graph.
\<close>

theorem blocked_send_has_recorded_chain:
  assumes "decide_properties H ws sess event node rvn verdict srcs ext db = (Inr r, db')"
    and "o_action r = ''block''"
  shows "\<exists>src vs. src \<in> set srcs \<and> o_path r = source_node src # map fst vs \<and> vs \<noteq> [] \<and>
    hd vs \<in> set (bound_readers db ws src) \<and> head_of db ws sess node = Some (snd (last vs)) \<and>
    fst (last vs) = node \<and> successively (\<lambda>p c. up (revision_parents db ws) c p) vs"
proof -
  obtain complete roots policy path where *: "bindings db ws srcs = (roots, policy)"
    "reach db ws sess node roots TRAVERSAL_LIMIT = Inr path"
    "graph_action (dget verdict ''externality'') ext path complete policy = (o_action r, o_reason r)"
    "o_path r = path"
    using decide_properties_answer [OF assms(1)] by metis
  from *(3) assms(2) obtain s rest where p: "path = s # rest"
    by (cases path) (auto simp: graph_action_def split: if_splits)
  from reach_found [OF *(2) [unfolded p]] obtain h vs where v: "head_of db ws sess node = Some h"
    "vs \<noteq> []" "rest = map fst vs" "root_of roots (hd vs) = Some s" "last vs = (node, h)"
    "successively (\<lambda>p c. up (revision_parents db ws) c p) vs" by blast
  from root_of_source [OF *(1) v(4)] obtain src where
    "src \<in> set srcs" "s = source_node src" "hd vs \<in> set (bound_readers db ws src)" by blast
  with v p *(4) show ?thesis by (intro exI [of _ src] exI [of _ vs]) simp
qed

text \<open>Two judged calls: \<open>b\<close> consumed the output of \<open>a\<close>, and \<open>a\<close> read the file \<open>k\<close>.\<close>

definition sample_graph :: graph_db where
  "sample_graph = empty_graph\<lparr>
     g_revisions := [
       \<lparr>rv_rev = ''ra'', rv_ws = ''w'', rv_sess = ''s'', rv_node = ''a'', rv_event = ''e1'', rv_model = ''m'',
        rv_prompt = PROMPT_VERSION, rv_verdict = [(''complete'', JBool True)]\<rparr>,
       \<lparr>rv_rev = ''rb'', rv_ws = ''w'', rv_sess = ''s'', rv_node = ''b'', rv_event = ''e2'', rv_model = ''m'',
        rv_prompt = PROMPT_VERSION, rv_verdict = [(''complete'', JBool True)]\<rparr>],
     g_heads := [\<lparr>hd_ws = ''w'', hd_sess = ''s'', hd_node = ''a'', hd_rev = ''ra''\<rparr>,
                 \<lparr>hd_ws = ''w'', hd_sess = ''s'', hd_node = ''b'', hd_rev = ''rb''\<rparr>],
     g_edges := [\<lparr>ed_rev = ''rb'', ed_src = ''a'', ed_dst = ''b'', ed_reason = JStr ''used''\<rparr>],
     g_links := [\<lparr>lk_rev = ''rb'', lk_parent = ''a'', lk_parent_rev = ''ra''\<rparr>],
     g_accesses := [\<lparr>ac_rev = ''ra'', ac_node = ''a'', ac_path = ''k'', ac_mode = ''read'', ac_reason = JStr ''x''\<rparr>]\<rparr>"

definition sample_source :: "string \<Rightarrow> dict" where
  "sample_source path = [(''node_id'', JStr ''src''), (''path'', JStr path)]"

definition sample_send :: "string \<Rightarrow> outcome res \<times> graph_db" where
  "sample_send path = decide_properties (\<lambda>x. ''h'') ''w'' ''s'' ''e2'' ''b'' ''rb''
     [(''externality'', JStr ''external'')] [sample_source path] True sample_graph"

theorem allowed_send_has_clean_ancestry_witness:
  "recorded_complete sample_graph ''w'' (''a'', ''ra'') \<and> whole_file_selector (sample_source ''z'') \<and>
   bindable_path (sample_source ''z'') \<and>
   (''a'', ''ra'') \<notin> set (bound_readers sample_graph ''w'' (sample_source ''z''))"
proof -
  have d: "(case sample_send ''z'' of (Inr r, db') \<Rightarrow>
      o_action r = ''allow'' \<and> o_reason r = ''no_protected_path_observed'' | _ \<Rightarrow> False)"
    by code_simp
  then obtain r db' where s: "sample_send ''z'' = (Inr r, db')" and a: "o_action r = ''allow''"
    and b: "o_reason r = ''no_protected_path_observed''"
    by (cases "sample_send ''z''") (auto split: sum.splits)
  have h: "head_of sample_graph ''w'' ''s'' ''b'' = Some ''rb''" "head_any sample_graph ''w'' ''b'' = Some ''rb''"
    by code_simp+
  have "revision_parents sample_graph ''w'' (''b'', ''rb'') = Inr [(''a'', ''ra'')]" by code_simp
  then have m: "(''a'', ''ra'') \<in> ancestors (revision_parents sample_graph ''w'') (''b'', ''rb'')"
    by (auto simp: up_def intro!: r_into_rtranclp)
  show ?thesis
    by (rule allowed_send_has_clean_ancestry [OF s [unfolded sample_send_def] a b h _ m])
       (auto simp: sample_source_def source_node_def dget_or_def)
qed

theorem blocked_send_has_recorded_chain_witness:
  "\<exists>r. sample_send ''k'' = (Inr r, snd (sample_send ''k'')) \<and> (\<exists>src vs. src \<in> set [sample_source ''k''] \<and>
    o_path r = source_node src # map fst vs \<and> vs \<noteq> [] \<and> hd vs \<in> set (bound_readers sample_graph ''w'' src) \<and>
    head_of sample_graph ''w'' ''s'' ''b'' = Some (snd (last vs)) \<and> fst (last vs) = ''b'' \<and>
    successively (\<lambda>p c. up (revision_parents sample_graph ''w'') c p) vs)"
proof -
  have "(case sample_send ''k'' of (Inr r, db') \<Rightarrow> o_action r = ''block'' | _ \<Rightarrow> False)" by code_simp
  then obtain r where s: "sample_send ''k'' = (Inr r, snd (sample_send ''k''))" and a: "o_action r = ''block''"
    by (cases "sample_send ''k''") (auto split: sum.splits)
  from blocked_send_has_recorded_chain [OF s [unfolded sample_send_def] a] s show ?thesis by blast
qed

text \<open>
  C15. Judgments are immutable. Persisting a new revision of a call keeps every pinned link
  pointing at a recorded revision, and leaves the ancestry of every revision recorded
  before exactly as it was, so a later judgment cannot widen or narrow the provenance an
  earlier decision rested on.
\<close>

theorem persist_keeps_recorded_ancestry:
  assumes "persist ws sess c rvn model verdict (Some links) db = Inr db'" and "links_recorded db"
    and "\<not> recorded_rev db rvn" and "\<And>n r. map_of links n = Some r \<Longrightarrow> recorded_rev db r"
    and "recorded_rev db (snd nr)"
  shows "links_recorded db' \<and> recorded_rev db' rvn = (head_of db ws sess (c_node c) \<noteq> Some rvn) \<and>
    ancestors (revision_parents db' w) nr = ancestors (revision_parents db w) nr"
proof (intro conjI)
  show "links_recorded db'" by (rule persist_links_recorded [OF assms(1,2)]) (use assms(4) in auto)
  show "recorded_rev db' rvn = (head_of db ws sess (c_node c) \<noteq> Some rvn)"
  proof (cases "head_of db ws sess (c_node c) = Some rvn")
    case True
    with assms(1) have "db' = db" by (simp add: persist_def)
    with True assms(3) show ?thesis by simp
  next
    case False
    then have "recorded_rev db' rvn" using assms(1)
      by (auto simp: persist_def recorded_rev_def list_ex_iff ins_ignore_def split: sum.splits)
    with False show ?thesis by simp
  qed
  show "ancestors (revision_parents db' w) nr = ancestors (revision_parents db w) nr"
    by (rule persist_ancestors [OF assms(1,2,3,5)])
qed

definition sample_judgment :: dict where
  "sample_judgment = [(''complete'', JBool True), (''accesses'', JArr []),
     (''dependencies'', JArr [JObj [(''node_id'', JStr ''b''), (''reason'', JStr ''used'')]])]"

definition sample_consumer :: call_node where
  "sample_consumer = \<lparr>c_node = ''c'', c_event = ''e3'', c_tool = JStr ''Bash'', c_input = JNull, c_cwd = JNull,
     c_root = ''/w'', c_resolved = None, c_output = JNull, c_completed = False, c_observation = [],
     c_definitions = JNull, c_catalog = JNull, c_extra = []\<rparr>"

theorem persist_keeps_recorded_ancestry_witness:
  "\<exists>db'. persist ''w'' ''s'' sample_consumer ''rc'' ''m'' sample_judgment (Some [(''b'', ''rb'')]) sample_graph = Inr db' \<and>
    links_recorded db' \<and> recorded_rev db' ''rc'' \<and>
    ancestors (revision_parents db' ''w'') (''b'', ''rb'') = ancestors (revision_parents sample_graph ''w'') (''b'', ''rb'')"
proof -
  let ?p = "persist ''w'' ''s'' sample_consumer ''rc'' ''m'' sample_judgment (Some [(''b'', ''rb'')]) sample_graph"
  have "\<not> isl ?p" by code_simp
  then obtain db' where p: "?p = Inr db'" by (metis isl_def sum.exhaust)
  have l: "links_recorded sample_graph" "\<not> recorded_rev sample_graph ''rc''" "recorded_rev sample_graph ''rb''"
    "head_of sample_graph ''w'' ''s'' (c_node sample_consumer) \<noteq> Some ''rc''" by code_simp+
  have "links_recorded db' \<and> recorded_rev db' ''rc'' = (head_of sample_graph ''w'' ''s'' (c_node sample_consumer) \<noteq> Some ''rc'') \<and>
      ancestors (revision_parents db' ''w'') (''b'', ''rb'') = ancestors (revision_parents sample_graph ''w'') (''b'', ''rb'')"
    by (rule persist_keeps_recorded_ancestry [OF p l(1,2)]) (use l(3) in \<open>auto split: if_splits\<close>)
  with l(4) p show ?thesis by blast
qed

end
