(* ===== verification/Repository.thy ===== *)
theory Repository
  imports Disk
begin

text \<open>
  \<open>engine/repository_evidence.py\<close>: the bounded observation of a local Git repository. The
  Git processes and the metadata checks are environment steps; their output is bounded and
  checked here. Text is split and stripped as \<open>str.splitlines\<close> and \<open>str.strip\<close> do on
  the line ends Git writes; paths are kept as the bytes Git prints.
\<close>

text \<open>
  \<open>bounded_read\<close>: what the child wrote before it closed its output, whether the deadline
  passed first, and its exit code.
\<close>

record child_run =
  cr_output :: bytes
  cr_timeout :: bool
  cr_code :: int

definition bounded_read :: "nat \<Rightarrow> int list \<Rightarrow> child_run \<Rightarrow> bytes res" where
  "bounded_read limit accepted run =
     (if limit < length (cr_output run) then Inl (ValueError ''repository_evidence_budget'')
      else if cr_timeout run then Inl (ValueError ''repository_read_timeout'')
      else if cr_code run \<notin> set accepted then Inl (ValueError ''repository_read_failed'')
      else Inr (cr_output run))"

text \<open>
  The repository seen from the controller: the Git child processes by their arguments, and
  the checks on \<open>.git\<close>. \<open>rp_resolved\<close> is \<open>str(root.resolve())\<close>.
\<close>

record 'w repo =
  rp_run :: "string \<Rightarrow> string list \<Rightarrow> 'w \<Rightarrow> child_run \<times> 'w"
  rp_local :: "string \<Rightarrow> 'w \<Rightarrow> bool \<times> 'w"
  rp_partial :: "string \<Rightarrow> 'w \<Rightarrow> bool \<times> 'w"
  rp_promisor :: "string \<Rightarrow> 'w \<Rightarrow> bool \<times> 'w"
  rp_resolved :: "string \<Rightarrow> string"

definition git_read :: "'w repo \<Rightarrow> string \<Rightarrow> string list \<Rightarrow> nat \<Rightarrow> 'w \<Rightarrow> bytes res \<times> 'w" where
  "git_read g root args limit w = (let (run, w) = rp_run g root args w in (bounded_read limit [0] run, w))"

definition GIT_LIMIT :: nat where
  "GIT_LIMIT = 1048576"

abbreviation newline :: char where
  "newline \<equiv> char_of (10::nat)"

abbreviation nul :: char where
  "nul \<equiv> char_of (0::nat)"

definition is_space :: "char \<Rightarrow> bool" where
  "is_space c \<longleftrightarrow> (let n = (of_char c :: nat) in
     (9 \<le> n \<and> n \<le> 13) \<or> (28 \<le> n \<and> n \<le> 32) \<or> n = 133 \<or> n = 160)"

definition strip :: "string \<Rightarrow> string" where
  "strip s = rev (dropWhile is_space (rev (dropWhile is_space s)))"

definition lines_of :: "string \<Rightarrow> string list" where
  "lines_of s = (let ls = split_on newline s in if ls \<noteq> [] \<and> last ls = [] then butlast ls else ls)"

text \<open>\<open>[A-Za-z0-9][A-Za-z0-9_./~^{}-]*\<close>\<close>

definition alnum :: "char \<Rightarrow> bool" where
  "alnum c \<longleftrightarrow> (let n = (of_char c :: nat) in (48 \<le> n \<and> n \<le> 57) \<or> (65 \<le> n \<and> n \<le> 90) \<or> (97 \<le> n \<and> n \<le> 122))"

definition revision_ok :: "string \<Rightarrow> bool" where
  "revision_ok r \<longleftrightarrow> length r \<le> 200 \<and> r \<noteq> [] \<and> alnum (hd r) \<and>
     list_all (\<lambda>c. alnum c \<or> c \<in> set ''_./~^{}-'') (tl r)"

datatype tree_entry = Gitlink | Tree string | Blob string string

text \<open>One record of \<open>ls-tree -z\<close>: mode, kind and identity, a tab, the path.\<close>

definition words_of :: "string \<Rightarrow> string list" where
  "words_of s = filter (\<lambda>w. w \<noteq> []) (split_on CHR '' '' (map (\<lambda>c. if is_space c then CHR '' '' else c) s))"

definition parse_entry :: "bytes \<Rightarrow> tree_entry res" where
  "parse_entry row =
     (let meta = takeWhile (\<lambda>c. c \<noteq> char_of (9::nat)) row; path = drop (length meta + 1) row in
      if length meta = length row then Inl (ValueError ''not enough values to unpack'')
      else case words_of meta of
          [mode, kind, identity] \<Rightarrow>
            if kind = ''commit'' then Inr Gitlink
            else if kind = ''tree'' then Inr (Tree identity)
            else if kind \<noteq> ''blob'' then Inl (ValueError ''repository_object_kind'')
            else if pp_name path = CONTROL_FILE then Inl (ValueError ''control_state_not_payload'')
            else Inr (Blob identity path)
        | _ \<Rightarrow> Inl (ValueError ''unpack''))"

text \<open>The objects found so far: tree identities, and the paths of each blob.\<close>

definition add_path :: "string \<Rightarrow> string \<Rightarrow> (string \<times> string list) list \<Rightarrow> (string \<times> string list) list" where
  "add_path identity name blobs =
     (case map_of blobs identity of
        None \<Rightarrow> blobs @ [(identity, [name])]
      | Some ns \<Rightarrow> dict_set identity (if name \<in> set ns then ns else ns @ [name]) blobs)"

fun read_entries :: "bytes list \<Rightarrow> string list \<Rightarrow> (string \<times> string list) list
    \<Rightarrow> (string list \<times> (string \<times> string list) list) res" where
  "read_entries [] trees blobs = Inr (trees, blobs)"
| "read_entries (row # rows) trees blobs =
     (if row = [] then read_entries rows trees blobs
      else case parse_entry row of
          Inl e \<Rightarrow> Inl e
        | Inr Gitlink \<Rightarrow> read_entries rows trees blobs
        | Inr (Tree t) \<Rightarrow> read_entries rows (List.insert t trees) blobs
        | Inr (Blob i p) \<Rightarrow> read_entries rows trees (add_path i p blobs))"

fun read_commits :: "'w repo \<Rightarrow> string \<Rightarrow> string list \<Rightarrow> string list \<Rightarrow> (string \<times> string list) list \<Rightarrow> 'w
    \<Rightarrow> (string list \<times> (string \<times> string list) list) res \<times> 'w" where
  "read_commits g root [] trees blobs w = (Inr (trees, blobs), w)"
| "read_commits g root (c # cs) trees blobs w =
     (case git_read g root [''rev-parse'', c @ ''^{tree}''] GIT_LIMIT w of
        (Inl e, w) \<Rightarrow> (Inl e, w)
      | (Inr t, w) \<Rightarrow>
        (case git_read g root [''ls-tree'', ''-rtz'', ''--full-tree'', c] GIT_LIMIT w of
           (Inl e, w) \<Rightarrow> (Inl e, w)
         | (Inr out, w) \<Rightarrow>
           (case read_entries (split_on nul out) (List.insert (strip t) trees) blobs of
              Inl e \<Rightarrow> (Inl e, w)
            | Inr (trees, blobs) \<Rightarrow> read_commits g root cs trees blobs w)))"

record repo_part =
  po_kind :: string
  po_oid :: string
  po_content :: bytes
  po_paths :: "string list"

text \<open>\<open>int(...)\<close> of what \<open>cat-file -s\<close> prints.\<close>

definition digit :: "char \<Rightarrow> bool" where
  "digit c \<longleftrightarrow> (let n = (of_char c :: nat) in 48 \<le> n \<and> n \<le> 57)"

definition digits_value :: "string \<Rightarrow> nat" where
  "digits_value s = foldl (\<lambda>n c. 10 * n + (of_char c - 48)) 0 s"

text \<open>Underscores may stand between two digits.\<close>

fun drop_underscores :: "string \<Rightarrow> string option" where
  "drop_underscores [] = None"
| "drop_underscores [c] = (if digit c then Some [c] else None)"
| "drop_underscores (c # d # cs) =
     (if \<not> digit c then None
      else if d = CHR ''_'' then map_option ((#) c) (drop_underscores cs)
      else map_option ((#) c) (drop_underscores (d # cs)))"

definition py_int :: "string \<Rightarrow> int option" where
  "py_int s =
     (case strip s of
        [] \<Rightarrow> None
      | c # cs \<Rightarrow>
          if c = CHR ''-'' then map_option (\<lambda>d. - int (digits_value d)) (drop_underscores cs)
          else if c = CHR ''+'' then map_option (\<lambda>d. int (digits_value d)) (drop_underscores cs)
          else map_option (\<lambda>d. int (digits_value d)) (drop_underscores (c # cs)))"

fun read_objects :: "'w repo \<Rightarrow> string \<Rightarrow> (string \<times> string \<times> string list) list \<Rightarrow> int \<Rightarrow> repo_part list \<Rightarrow> 'w
    \<Rightarrow> repo_part list res \<times> 'w" where
  "read_objects g root [] budget parts w = (Inr parts, w)"
| "read_objects g root ((kind, oid, paths) # os) budget parts w =
     (case git_read g root [''cat-file'', ''-s'', oid] GIT_LIMIT w of
        (Inl e, w) \<Rightarrow> (Inl e, w)
      | (Inr raw, w) \<Rightarrow>
        (case py_int raw of
           None \<Rightarrow> (Inl (ValueError ''invalid literal for int()''), w)
         | Some nbytes \<Rightarrow>
             if budget < nbytes then (Inl (ValueError ''repository_evidence_budget''), w)
             else
               (case git_read g root [''cat-file'', kind, oid] (nat budget) w of
                  (Inl e, w) \<Rightarrow> (Inl e, w)
                | (Inr content, w) \<Rightarrow>
                    read_objects g root os (budget - int (length content))
                      (parts @ [\<lparr>po_kind = kind, po_oid = oid, po_content = content, po_paths = sort paths\<rparr>]) w)))"

definition promisor_config :: "bytes \<Rightarrow> bool" where
  "promisor_config config \<longleftrightarrow>
     sublist ''.promisor='' config \<or> sublist ''extensions.partialclone='' config"

definition lower :: "string \<Rightarrow> string" where
  "lower s = map (\<lambda>c. let n = (of_char c :: nat) in if 65 \<le> n \<and> n \<le> 90 then char_of (n + 32) else c) s"

definition all_objects :: "string list \<Rightarrow> string list \<Rightarrow> (string \<times> string list) list \<Rightarrow> (string \<times> string \<times> string list) list" where
  "all_objects commits trees blobs = map (\<lambda>c. (''commit'', c, [])) commits @
     map (\<lambda>t. (''tree'', t, [])) (sort trees) @ map (\<lambda>(b, ps). (''blob'', b, ps)) blobs"

definition snapshot :: "'w repo \<Rightarrow> string \<Rightarrow> json \<Rightarrow> int \<Rightarrow> int \<Rightarrow> 'w \<Rightarrow> (string \<times> repo_part list) res \<times> 'w" where
  "snapshot g root revision max_bytes max_objects w =
     (let rvn = the_str revision in
      if \<not> is_str revision \<or> \<not> revision_ok rvn then (Inl (ValueError ''invalid_repository_revision''), w)
      else
      let (is_local, w) = rp_local g root w in
      if \<not> is_local then (Inl (ValueError ''repository_metadata_not_local_directory''), w)
      else
      let (partial, w) = rp_partial g root w in
      if partial then (Inl (ValueError ''repository_object_closure_incomplete''), w)
      else case git_read g root [''rev-parse'', ''--show-toplevel''] GIT_LIMIT w of
        (Inl e, w) \<Rightarrow> (Inl e, w)
      | (Inr toplevel, w) \<Rightarrow>
      if strip toplevel \<noteq> rp_resolved g root then (Inl (ValueError ''repository_root_mismatch''), w)
      else case git_read g root [''rev-parse'', ''--verify'', rvn @ ''^{commit}''] GIT_LIMIT w of
        (Inl e, w) \<Rightarrow> (Inl e, w)
      | (Inr head, w) \<Rightarrow>
      let oid = strip head in
      case git_read g root [''rev-list'', ''--max-count='' @ show_int (max_objects + 1), oid] GIT_LIMIT w of
        (Inl e, w) \<Rightarrow> (Inl e, w)
      | (Inr out, w) \<Rightarrow>
      let commits = lines_of out in
      if max_objects < int (length commits) then (Inl (ValueError ''repository_object_budget''), w)
      else case git_read g root [''config'', ''--local'', ''--no-includes'', ''--list''] GIT_LIMIT w of
        (Inl e, w) \<Rightarrow> (Inl e, w)
      | (Inr config, w) \<Rightarrow>
      let (promisor, w) = (if promisor_config (lower config) then (True, w) else rp_promisor g root w) in
      if promisor then (Inl (ValueError ''repository_requires_remote_objects''), w)
      else case read_commits g root commits [] [] w of
        (Inl e, w) \<Rightarrow> (Inl e, w)
      | (Inr (trees, blobs), w) \<Rightarrow>
      if max_objects < int (length commits) + int (length blobs) + int (length trees)
      then (Inl (ValueError ''repository_object_budget''), w)
      else case read_objects g root (all_objects commits trees blobs) max_bytes [] w of
        (Inl e, w) \<Rightarrow> (Inl e, w)
      | (Inr parts, w) \<Rightarrow>
      (case git_read g root [''rev-parse'', ''--verify'', rvn @ ''^{commit}''] GIT_LIMIT w of
         (Inl e, w) \<Rightarrow> (Inl e, w)
       | (Inr again, w) \<Rightarrow>
           if strip again \<noteq> oid then (Inl (ValueError ''repository_revision_changed''), w)
           else (Inr (oid, parts), w)))"

section \<open>The snapshot stays within its budgets\<close>

definition parts_bytes :: "repo_part list \<Rightarrow> nat" where
  "parts_bytes parts = sum_list (map (\<lambda>p. length (po_content p)) parts)"

lemma git_read_limit: "git_read g root args limit w = (Inr out, w') \<Longrightarrow> length out \<le> limit"
  by (auto simp: git_read_def bounded_read_def split: prod.splits if_splits)

lemma read_objects_ok:
  assumes "read_objects g root objs budget parts w = (Inr parts', w')" and "0 \<le> budget"
  shows "int (parts_bytes parts') \<le> int (parts_bytes parts) + budget \<and> length parts' = length parts + length objs"
  using assms
proof (induction objs arbitrary: budget parts w)
  case (Cons x objs)
  obtain kind oid paths where x: "x = (kind, oid, paths)" by (metis prod_cases3)
  from Cons.prems(1) x obtain content w2 w3 where c: "git_read g root [''cat-file'', kind, oid] (nat budget) w2 = (Inr content, w3)"
    and r: "read_objects g root objs (budget - int (length content))
      (parts @ [\<lparr>po_kind = kind, po_oid = oid, po_content = content, po_paths = sort paths\<rparr>]) w3 = (Inr parts', w')"
    by (auto split: prod.splits sum.splits option.splits if_splits)
  have "int (length content) \<le> budget" using git_read_limit [OF c] Cons.prems(2) by simp
  with Cons.IH [OF r] show ?case by (simp add: parts_bytes_def)
qed simp

lemma snapshot_ok:
  assumes "snapshot g root revision max_bytes max_objects w = (Inr (oid, parts), w')" and "0 \<le> max_bytes"
  shows "int (parts_bytes parts) \<le> max_bytes \<and> int (length parts) \<le> max_objects"
proof -
  from assms(1) obtain trees blobs commits w1 w2 where
    n: "\<not> max_objects < int (length commits) + int (length blobs) + int (length trees)"
    and r: "read_objects g root (all_objects commits trees blobs) max_bytes [] w1 = (Inr parts, w2)"
    unfolding snapshot_def Let_def
    by (auto split: prod.splits sum.splits if_splits simp del: not_less)
  from read_objects_ok [OF r assms(2)] n show ?thesis by (simp add: parts_bytes_def all_objects_def)
qed

end
