(* ===== verification/Evidence.thy ===== *)
theory Evidence
  imports Events "HOL-Library.Product_Lexorder"
begin

text \<open>
  \<open>engine/evidence.py\<close>: the ledger of versioned evidence. Its tables carry the
  constraints SQLite enforces (primary and unique keys, foreign keys, \<open>CHECK\<close>s); an
  insertion that breaks one raises, and the transaction leaves the ledger as it was.
\<close>

record resource =
  r_scope :: string
  r_kind :: string
  r_locator :: string

record version =
  v_resource :: resource
  v_token :: string
  v_event :: string
  v_length :: "nat option"

record need =
  nd_kind :: string
  nd_target :: string
  nd_reason :: string

definition resource_digest :: "hash \<Rightarrow> resource \<Rightarrow> string" where
  "resource_digest H r = digest H (JObj [(''scope'', JStr (r_scope r)), (''kind'', JStr (r_kind r)),
     (''locator'', JStr (r_locator r))])"

definition version_identity :: "hash \<Rightarrow> version \<Rightarrow> string" where
  "version_identity H v = digest H (JArr [JStr (resource_digest H (v_resource v)), JStr (v_token v)])"

section \<open>Tables\<close>

record obs_row =
  ob_scope :: string
  ob_event :: string
  ob_session :: "string option"
  ob_call :: string
  ob_phase :: string
  ob_seq :: nat

record res_row =
  rr_scope :: string
  rr_resource :: string
  rr_kind :: string
  rr_locator :: string

record ver_row =
  vr_scope :: string
  vr_version :: string
  vr_resource :: string
  vr_token :: string
  vr_length :: "nat option"

record evi_row =
  ev_scope :: string
  ev_version :: string
  ev_event :: string

record acc_row =
  al_scope :: string
  al_access :: string
  al_event :: string
  al_version :: string
  al_mode :: string
  al_status :: string
  al_basis :: string
  al_extent :: string
  al_reason :: string

record tx_row =
  tx_scope :: string
  tx_unit :: string
  tx_event :: string
  tx_description :: string
  tx_destination :: string

record resolution_row =
  rl_scope :: string
  rl_resolution :: string
  rl_unit :: string
  rl_resolver :: string
  rl_evidence :: string
  rl_coverage :: string
  rl_reason :: string

record member_row =
  mb_scope :: string
  mb_resolution :: string
  mb_version :: string
  mb_extent :: string

record need_row =
  ne_scope :: string
  ne_need :: string
  ne_event :: string
  ne_kind :: string
  ne_target :: string
  ne_reason :: string

record try_row =
  ty_scope :: string
  ty_need :: string
  ty_attempt :: nat
  ty_status :: string
  ty_evidence :: string
  ty_reason :: string

record ledger =
  lg_schema :: "nat option"
  lg_obs :: "obs_row list"
  lg_res :: "res_row list"
  lg_ver :: "ver_row list"
  lg_evi :: "evi_row list"
  lg_acc :: "acc_row list"
  lg_tx :: "tx_row list"
  lg_resol :: "resolution_row list"
  lg_members :: "member_row list"
  lg_needs :: "need_row list"
  lg_tries :: "try_row list"

definition empty_ledger :: ledger where
  "empty_ledger = \<lparr>lg_schema = None, lg_obs = [], lg_res = [], lg_ver = [], lg_evi = [], lg_acc = [],
     lg_tx = [], lg_resol = [], lg_members = [], lg_needs = [], lg_tries = []\<rparr>"

text \<open>
  \<open>INSERT ... ON CONFLICT DO NOTHING\<close>: a conflict on a key skips the row, a broken foreign
  key or \<open>CHECK\<close> of a row that is inserted raises.
\<close>

definition insert_row :: "('r \<Rightarrow> bool) \<Rightarrow> bool \<Rightarrow> 'r \<Rightarrow> 'r list \<Rightarrow> 'r list res" where
  "insert_row conflict valid r t =
     (if list_ex conflict t then Inr t
      else if valid then Inr (t @ [r])
      else Inl (SqliteError ''constraint failed''))"

definition has_obs :: "string \<Rightarrow> string \<Rightarrow> ledger \<Rightarrow> bool" where
  "has_obs scope event db = list_ex (\<lambda>x. ob_scope x = scope \<and> ob_event x = event) (lg_obs db)"

definition has_version :: "string \<Rightarrow> string \<Rightarrow> ledger \<Rightarrow> bool" where
  "has_version scope version db = list_ex (\<lambda>v. vr_scope v = scope \<and> vr_version v = version) (lg_ver db)"

definition has_resource :: "string \<Rightarrow> string \<Rightarrow> ledger \<Rightarrow> bool" where
  "has_resource scope resource db = list_ex (\<lambda>r. rr_scope r = scope \<and> rr_resource r = resource) (lg_res db)"

section \<open>Migration and observation\<close>

definition SCHEMA_VERSION :: nat where
  "SCHEMA_VERSION = 1"

definition add_obs :: "obs_row \<Rightarrow> obs_row list \<Rightarrow> obs_row list" where
  "add_obs r t =
     (if list_ex (\<lambda>x. ob_scope x = ob_scope r \<and> (ob_event x = ob_event r \<or> ob_seq x = ob_seq r)) t then t
      else t @ [r])"

definition obs_of :: "event_row \<Rightarrow> string \<Rightarrow> obs_row" where
  "obs_of e tool = \<lparr>ob_scope = er_workspace e, ob_event = er_event e, ob_session = er_session e,
     ob_call = tool, ob_phase = er_phase e, ob_seq = er_seq e\<rparr>"

definition tool_phase :: "string \<Rightarrow> bool" where
  "tool_phase p \<longleftrightarrow> p = ''pre_tool_use'' \<or> p = ''post_tool_use''"

definition import_event :: "event_row \<Rightarrow> obs_row list \<Rightarrow> obs_row list" where
  "import_event e t = (case er_tool_use e of
      None \<Rightarrow> t
    | Some tool \<Rightarrow> if tool_phase (er_phase e) then add_obs (obs_of e tool) t else t)"

definition migrate :: "event_row list \<Rightarrow> ledger \<Rightarrow> ledger res" where
  "migrate evs db = (case lg_schema db of
      Some v \<Rightarrow> if v \<noteq> SCHEMA_VERSION then Inl (ValueError ''unsupported_flow_schema'') else Inr db
    | None \<Rightarrow> Inr (db\<lparr>lg_obs := fold import_event evs (lg_obs db), lg_schema := Some SCHEMA_VERSION\<rparr>))"

definition observe :: "event_row \<Rightarrow> ledger \<Rightarrow> ledger" where
  "observe e db = (case er_tool_use e of
      None \<Rightarrow> db
    | Some tool \<Rightarrow> if tool \<noteq> [] \<and> tool_phase (er_phase e)
        then db\<lparr>lg_obs := add_obs (obs_of e tool) (lg_obs db)\<rparr> else db)"

text \<open>A transaction of the store: migrate, run the body, and roll back on an error.\<close>

definition transaction :: "event_row list \<Rightarrow> (ledger \<Rightarrow> ('a \<times> ledger) res) \<Rightarrow> ledger \<Rightarrow> 'a res \<times> ledger" where
  "transaction evs body db = (case migrate evs db of
      Inl e \<Rightarrow> (Inl e, db)
    | Inr db1 \<Rightarrow> (case body db1 of Inl e \<Rightarrow> (Inl e, db) | Inr (x, db2) \<Rightarrow> (Inr x, db2)))"

section \<open>Operations\<close>

text \<open>A transaction that answers an identifier.\<close>

definition with_id :: "'a \<Rightarrow> ledger res \<Rightarrow> ('a \<times> ledger) res" where
  "with_id x r = (case r of Inl e \<Rightarrow> Inl e | Inr db \<Rightarrow> Inr (x, db))"

definition put_resource :: "hash \<Rightarrow> resource \<Rightarrow> ledger \<Rightarrow> ledger res" where
  "put_resource H r db = (case insert_row
        (\<lambda>x. rr_scope x = r_scope r \<and> (rr_resource x = resource_digest H r \<or> rr_kind x = r_kind r \<and> rr_locator x = r_locator r))
        True \<lparr>rr_scope = r_scope r, rr_resource = resource_digest H r, rr_kind = r_kind r, rr_locator = r_locator r\<rparr>
        (lg_res db) of
      Inl e \<Rightarrow> Inl e | Inr t \<Rightarrow> Inr (db\<lparr>lg_res := t\<rparr>))"

definition put_version :: "hash \<Rightarrow> version \<Rightarrow> ledger \<Rightarrow> ledger res" where
  "put_version H v db =
     (case insert_row
        (\<lambda>x. vr_scope x = r_scope (v_resource v) \<and> (vr_version x = version_identity H v \<or>
               vr_resource x = resource_digest H (v_resource v) \<and> vr_token x = v_token v))
        (has_resource (r_scope (v_resource v)) (resource_digest H (v_resource v)) db)
        \<lparr>vr_scope = r_scope (v_resource v), vr_version = version_identity H v,
         vr_resource = resource_digest H (v_resource v), vr_token = v_token v, vr_length = v_length v\<rparr> (lg_ver db) of
      Inl e \<Rightarrow> Inl e | Inr t \<Rightarrow> Inr (db\<lparr>lg_ver := t\<rparr>))"

definition put_evidence :: "string \<Rightarrow> string \<Rightarrow> string \<Rightarrow> ledger \<Rightarrow> ledger res" where
  "put_evidence scope vid event db = (case insert_row
        (\<lambda>x. ev_scope x = scope \<and> ev_version x = vid \<and> ev_event x = event)
        (has_version scope vid db \<and> has_obs scope event db)
        \<lparr>ev_scope = scope, ev_version = vid, ev_event = event\<rparr> (lg_evi db) of
      Inl e \<Rightarrow> Inl e | Inr t \<Rightarrow> Inr (db\<lparr>lg_evi := t\<rparr>))"

definition length_conflict :: "hash \<Rightarrow> version \<Rightarrow> ledger \<Rightarrow> bool" where
  "length_conflict H v db =
     (case find (\<lambda>x. vr_scope x = r_scope (v_resource v) \<and> vr_version x = version_identity H v) (lg_ver db) of
        None \<Rightarrow> False | Some old \<Rightarrow> vr_length old \<noteq> v_length v)"

definition put_all_version :: "hash \<Rightarrow> version \<Rightarrow> ledger \<Rightarrow> ledger res" where
  "put_all_version H v db =
     (case put_resource H (v_resource v) db of
        Inl e \<Rightarrow> Inl e
      | Inr db \<Rightarrow>
          if length_conflict H v db then Inl (ValueError ''conflicting_version_evidence'')
          else (case put_version H v db of
              Inl e \<Rightarrow> Inl e
            | Inr db \<Rightarrow> put_evidence (r_scope (v_resource v)) (version_identity H v) (v_event v) db))"

definition add_version :: "hash \<Rightarrow> event_row list \<Rightarrow> version \<Rightarrow> ledger \<Rightarrow> string res \<times> ledger" where
  "add_version H evs v db =
     (if v_token v = [] \<or> r_scope (v_resource v) = [] \<or> r_locator (v_resource v) = []
      then (Inl (ValueError ''invalid_resource_version''), db)
      else transaction evs (\<lambda>db. with_id (version_identity H v) (put_all_version H v db)) db)"

definition access_identity :: "hash \<Rightarrow> version \<Rightarrow> string \<Rightarrow> string \<Rightarrow> string \<Rightarrow> json \<Rightarrow> string \<Rightarrow> string" where
  "access_identity H v mode status basis extent reason = digest H (JArr [JStr (v_event v), JStr (version_identity H v),
     JStr mode, JStr status, JStr basis, extent, JStr reason])"

definition put_access :: "hash \<Rightarrow> version \<Rightarrow> string \<Rightarrow> string \<Rightarrow> string \<Rightarrow> json \<Rightarrow> string \<Rightarrow> ledger \<Rightarrow> ledger res" where
  "put_access H v mode status basis extent reason db =
     (case insert_row (\<lambda>x. al_scope x = r_scope (v_resource v) \<and> al_access x = access_identity H v mode status basis extent reason)
        ((mode = ''read'' \<or> mode = ''write'') \<and> (status = ''planned'' \<or> status = ''observed'') \<and>
         (basis = ''observation'' \<or> basis = ''inference'') \<and>
         has_obs (r_scope (v_resource v)) (v_event v) db \<and> has_version (r_scope (v_resource v)) (version_identity H v) db)
        \<lparr>al_scope = r_scope (v_resource v), al_access = access_identity H v mode status basis extent reason,
         al_event = v_event v, al_version = version_identity H v, al_mode = mode, al_status = status, al_basis = basis,
         al_extent = dumps True True extent, al_reason = reason\<rparr> (lg_acc db) of
      Inl e \<Rightarrow> Inl e | Inr t \<Rightarrow> Inr (db\<lparr>lg_acc := t\<rparr>))"

definition phase_of :: "string \<Rightarrow> string \<Rightarrow> ledger \<Rightarrow> string option" where
  "phase_of scope event db = map_option ob_phase (find (\<lambda>x. ob_scope x = scope \<and> ob_event x = event) (lg_obs db))"

definition add_access :: "hash \<Rightarrow> event_row list \<Rightarrow> version \<Rightarrow> string \<Rightarrow> string \<Rightarrow> string \<Rightarrow> json \<Rightarrow> string
    \<Rightarrow> ledger \<Rightarrow> string res \<times> ledger" where
  "add_access H evs v mode status basis extent reason =
     transaction evs (\<lambda>db.
       if status = ''observed'' \<and> phase_of (r_scope (v_resource v)) (v_event v) db \<noteq> Some ''post_tool_use''
       then Inl (ValueError ''unexecuted_access_cannot_be_observed'')
       else with_id (access_identity H v mode status basis extent reason) (put_access H v mode status basis extent reason db))"

definition unit_identity :: "hash \<Rightarrow> string \<Rightarrow> string \<Rightarrow> json \<Rightarrow> json \<Rightarrow> string" where
  "unit_identity H scope event description destination =
     digest H (JArr [JStr scope, JStr event, description, destination])"

definition put_transmission :: "hash \<Rightarrow> string \<Rightarrow> string \<Rightarrow> json \<Rightarrow> json \<Rightarrow> ledger \<Rightarrow> ledger res" where
  "put_transmission H scope event description destination db =
     (case insert_row (\<lambda>x. tx_scope x = scope \<and> tx_unit x = unit_identity H scope event description destination)
        (has_obs scope event db)
        \<lparr>tx_scope = scope, tx_unit = unit_identity H scope event description destination, tx_event = event,
         tx_description = dumps True True description, tx_destination = dumps True True destination\<rparr> (lg_tx db) of
      Inl e \<Rightarrow> Inl e | Inr t \<Rightarrow> Inr (db\<lparr>lg_tx := t\<rparr>))"

definition add_transmission :: "hash \<Rightarrow> event_row list \<Rightarrow> string \<Rightarrow> string \<Rightarrow> json \<Rightarrow> json \<Rightarrow> ledger \<Rightarrow> string res \<times> ledger" where
  "add_transmission H evs scope event description destination =
     transaction evs (\<lambda>db. with_id (unit_identity H scope event description destination)
       (put_transmission H scope event description destination db))"

definition put_member :: "string \<Rightarrow> string \<Rightarrow> string \<times> json \<Rightarrow> ledger \<Rightarrow> ledger res" where
  "put_member scope rid m db =
     (case insert_row (\<lambda>x. mb_scope x = scope \<and> mb_resolution x = rid \<and> mb_version x = fst m \<and> mb_extent x = dumps True True (snd m))
        (list_ex (\<lambda>x. rl_scope x = scope \<and> rl_resolution x = rid) (lg_resol db) \<and> has_version scope (fst m) db)
        \<lparr>mb_scope = scope, mb_resolution = rid, mb_version = fst m, mb_extent = dumps True True (snd m)\<rparr> (lg_members db) of
      Inl e \<Rightarrow> Inl e | Inr t \<Rightarrow> Inr (db\<lparr>lg_members := t\<rparr>))"

fun put_members :: "string \<Rightarrow> string \<Rightarrow> (string \<times> json) list \<Rightarrow> ledger \<Rightarrow> ledger res" where
  "put_members scope rid [] db = Inr db"
| "put_members scope rid (m # ms) db =
     (case put_member scope rid m db of Inl e \<Rightarrow> Inl e | Inr db \<Rightarrow> put_members scope rid ms db)"

definition sorted_members :: "(string \<times> json) list \<Rightarrow> (string \<times> json) list" where
  "sorted_members ms = sort_key (\<lambda>m. (fst m, dumps True True (snd m))) ms"

definition resolution_identity :: "hash \<Rightarrow> string \<Rightarrow> string \<Rightarrow> string \<Rightarrow> string \<Rightarrow> string \<Rightarrow> json \<Rightarrow> (string \<times> json) list \<Rightarrow> string" where
  "resolution_identity H scope uid resolver coverage reason evidence ms =
     digest H (JArr [JStr scope, JStr uid, JStr resolver, JStr coverage, JStr reason, evidence,
       JArr (map (\<lambda>m. JArr [JStr (fst m), snd m]) ms)])"

definition put_resolution :: "string \<Rightarrow> string \<Rightarrow> string \<Rightarrow> string \<Rightarrow> string \<Rightarrow> string \<Rightarrow> json \<Rightarrow> ledger \<Rightarrow> ledger res" where
  "put_resolution rid scope uid resolver coverage reason evidence db =
     (case insert_row (\<lambda>x. rl_scope x = scope \<and> rl_resolution x = rid)
        (coverage \<in> {''complete'', ''partial'', ''unsupported'', ''failed''} \<and>
         list_ex (\<lambda>x. tx_scope x = scope \<and> tx_unit x = uid) (lg_tx db))
        \<lparr>rl_scope = scope, rl_resolution = rid, rl_unit = uid, rl_resolver = resolver,
         rl_evidence = dumps True True evidence, rl_coverage = coverage, rl_reason = reason\<rparr> (lg_resol db) of
      Inl e \<Rightarrow> Inl e | Inr t \<Rightarrow> Inr (db\<lparr>lg_resol := t\<rparr>))"

definition add_resolution :: "hash \<Rightarrow> event_row list \<Rightarrow> string \<Rightarrow> string \<Rightarrow> string \<Rightarrow> string \<Rightarrow> string \<Rightarrow> json
    \<Rightarrow> (string \<times> json) list \<Rightarrow> ledger \<Rightarrow> string res \<times> ledger" where
  "add_resolution H evs scope uid resolver coverage reason evidence members0 =
     (let ms = sorted_members members0;
          rid = resolution_identity H scope uid resolver coverage reason evidence ms
      in transaction evs (\<lambda>db. with_id rid
        (case put_resolution rid scope uid resolver coverage reason evidence db of
           Inl e \<Rightarrow> Inl e | Inr db \<Rightarrow> put_members scope rid ms db)))"

definition need_kinds :: "string list" where
  "need_kinds = [''resource_version'', ''target_extent'', ''execution_definition'', ''location'', ''origin'']"

definition need_identity :: "hash \<Rightarrow> string \<Rightarrow> string \<Rightarrow> need \<Rightarrow> string" where
  "need_identity H scope event n = digest H (JArr [JStr scope, JStr event,
     JObj [(''kind'', JStr (nd_kind n)), (''target'', JStr (nd_target n)), (''reason'', JStr (nd_reason n))]])"

definition put_need :: "hash \<Rightarrow> string \<Rightarrow> string \<Rightarrow> need \<Rightarrow> ledger \<Rightarrow> ledger res" where
  "put_need H scope event n db =
     (case insert_row (\<lambda>x. ne_scope x = scope \<and> ne_need x = need_identity H scope event n) (has_obs scope event db)
        \<lparr>ne_scope = scope, ne_need = need_identity H scope event n, ne_event = event, ne_kind = nd_kind n,
         ne_target = nd_target n, ne_reason = nd_reason n\<rparr> (lg_needs db) of
      Inl e \<Rightarrow> Inl e | Inr t \<Rightarrow> Inr (db\<lparr>lg_needs := t\<rparr>))"

definition add_need :: "hash \<Rightarrow> event_row list \<Rightarrow> string \<Rightarrow> string \<Rightarrow> need \<Rightarrow> ledger \<Rightarrow> string res \<times> ledger" where
  "add_need H evs scope event n db =
     (if nd_kind n \<notin> set need_kinds then (Inl (ValueError ''invalid_evidence_need''), db)
      else transaction evs (\<lambda>db. with_id (need_identity H scope event n) (put_need H scope event n db)) db)"

definition tries_of :: "string \<Rightarrow> string \<Rightarrow> ledger \<Rightarrow> try_row list" where
  "tries_of scope nid db = sort_key ty_attempt (filter (\<lambda>t. ty_scope t = scope \<and> ty_need t = nid) (lg_tries db))"

definition record_need_attempt :: "event_row list \<Rightarrow> string \<Rightarrow> string \<Rightarrow> string \<Rightarrow> json \<Rightarrow> string \<Rightarrow> nat \<Rightarrow> ledger
    \<Rightarrow> unit res \<times> ledger" where
  "record_need_attempt evs scope nid status evidence reason max_attempts =
     transaction evs (\<lambda>db.
       let rows = tries_of scope nid db; encoded = dumps True True evidence in
       if max_attempts \<le> length rows \<or> list_ex (\<lambda>r. ty_status r = ''resolved'' \<or> ty_evidence r = encoded) rows
       then Inl (ValueError ''evidence_attempt_not_progressing'')
       else if list_ex (\<lambda>t. ty_scope t = scope \<and> ty_need t = nid \<and> ty_attempt t = length rows + 1) (lg_tries db)
         \<or> status \<notin> {''resolved'', ''unsupported'', ''failed'', ''exhausted''}
         \<or> \<not> list_ex (\<lambda>n. ne_scope n = scope \<and> ne_need n = nid) (lg_needs db)
       then Inl (SqliteError ''constraint failed'')
       else Inr ((), db\<lparr>lg_tries := lg_tries db @ [\<lparr>ty_scope = scope, ty_need = nid, ty_attempt = length rows + 1,
              ty_status = status, ty_evidence = encoded, ty_reason = reason\<rparr>]\<rparr>))"

section \<open>Integrity of the ledger\<close>

definition executed :: "string \<Rightarrow> string \<Rightarrow> ledger \<Rightarrow> bool" where
  "executed scope event db = list_ex (\<lambda>x. ob_scope x = scope \<and> ob_event x = event \<and> ob_phase x = ''post_tool_use'') (lg_obs db)"

text \<open>What a row must satisfy: its \<open>CHECK\<close>s and its foreign keys.\<close>

definition ok_obs :: "obs_row \<Rightarrow> bool" where
  "ok_obs r \<longleftrightarrow> ob_phase r \<in> {''pre_tool_use'', ''post_tool_use''}"

definition ok_ver :: "ledger \<Rightarrow> ver_row \<Rightarrow> bool" where
  "ok_ver db v \<longleftrightarrow> has_resource (vr_scope v) (vr_resource v) db"

definition ok_evi :: "ledger \<Rightarrow> evi_row \<Rightarrow> bool" where
  "ok_evi db r \<longleftrightarrow> has_version (ev_scope r) (ev_version r) db \<and> has_obs (ev_scope r) (ev_event r) db"

definition ok_acc :: "ledger \<Rightarrow> acc_row \<Rightarrow> bool" where
  "ok_acc db r \<longleftrightarrow> al_mode r \<in> {''read'', ''write''} \<and> al_status r \<in> {''planned'', ''observed''} \<and>
     al_basis r \<in> {''observation'', ''inference''} \<and>
     has_version (al_scope r) (al_version r) db \<and> has_obs (al_scope r) (al_event r) db \<and>
     (al_status r = ''observed'' \<longrightarrow> executed (al_scope r) (al_event r) db)"

definition ok_tx :: "ledger \<Rightarrow> tx_row \<Rightarrow> bool" where
  "ok_tx db r \<longleftrightarrow> has_obs (tx_scope r) (tx_event r) db"

definition ok_resol :: "ledger \<Rightarrow> resolution_row \<Rightarrow> bool" where
  "ok_resol db r \<longleftrightarrow> rl_coverage r \<in> {''complete'', ''partial'', ''unsupported'', ''failed''} \<and> list_ex (\<lambda>x. tx_scope x = rl_scope r \<and> tx_unit x = rl_unit r) (lg_tx db)"

definition ok_member :: "ledger \<Rightarrow> member_row \<Rightarrow> bool" where
  "ok_member db r \<longleftrightarrow> list_ex (\<lambda>x. rl_scope x = mb_scope r \<and> rl_resolution x = mb_resolution r) (lg_resol db) \<and>
     has_version (mb_scope r) (mb_version r) db"

definition ok_need :: "ledger \<Rightarrow> need_row \<Rightarrow> bool" where
  "ok_need db r \<longleftrightarrow> has_obs (ne_scope r) (ne_event r) db"

definition ok_try :: "ledger \<Rightarrow> try_row \<Rightarrow> bool" where
  "ok_try db r \<longleftrightarrow> ty_status r \<in> {''resolved'', ''unsupported'', ''failed'', ''exhausted''} \<and> list_ex (\<lambda>n. ne_scope n = ty_scope r \<and> ne_need n = ty_need r) (lg_needs db)"

lemmas ok_rows = ok_ver_def ok_evi_def ok_acc_def ok_tx_def ok_resol_def ok_member_def ok_need_def ok_try_def
  has_obs_def has_version_def has_resource_def executed_def

definition rows_ok :: "ledger \<Rightarrow> bool" where
  "rows_ok db \<longleftrightarrow> list_all ok_obs (lg_obs db) \<and> list_all (ok_ver db) (lg_ver db) \<and> list_all (ok_evi db) (lg_evi db) \<and>
     list_all (ok_acc db) (lg_acc db) \<and> list_all (ok_tx db) (lg_tx db) \<and> list_all (ok_resol db) (lg_resol db) \<and>
     list_all (ok_member db) (lg_members db) \<and> list_all (ok_need db) (lg_needs db) \<and> list_all (ok_try db) (lg_tries db)"

text \<open>The primary keys and the unique keys of every table.\<close>

definition keys_ok :: "ledger \<Rightarrow> bool" where
  "keys_ok db \<longleftrightarrow>
     distinct (map (\<lambda>x. (ob_scope x, ob_event x)) (lg_obs db)) \<and> distinct (map (\<lambda>x. (ob_scope x, ob_seq x)) (lg_obs db)) \<and>
     distinct (map (\<lambda>x. (rr_scope x, rr_resource x)) (lg_res db)) \<and>
     distinct (map (\<lambda>x. (rr_scope x, rr_kind x, rr_locator x)) (lg_res db)) \<and>
     distinct (map (\<lambda>x. (vr_scope x, vr_version x)) (lg_ver db)) \<and>
     distinct (map (\<lambda>x. (vr_scope x, vr_resource x, vr_token x)) (lg_ver db)) \<and>
     distinct (map (\<lambda>x. (ev_scope x, ev_version x, ev_event x)) (lg_evi db)) \<and>
     distinct (map (\<lambda>x. (al_scope x, al_access x)) (lg_acc db)) \<and>
     distinct (map (\<lambda>x. (tx_scope x, tx_unit x)) (lg_tx db)) \<and>
     distinct (map (\<lambda>x. (rl_scope x, rl_resolution x)) (lg_resol db)) \<and>
     distinct (map (\<lambda>x. (mb_scope x, mb_resolution x, mb_version x, mb_extent x)) (lg_members db)) \<and>
     distinct (map (\<lambda>x. (ne_scope x, ne_need x)) (lg_needs db)) \<and>
     distinct (map (\<lambda>x. (ty_scope x, ty_need x, ty_attempt x)) (lg_tries db))"

definition ledger_ok :: "ledger \<Rightarrow> bool" where
  "ledger_ok db \<longleftrightarrow> rows_ok db \<and> keys_ok db"

text \<open>Every table only grows, and what a row needs keeps existing.\<close>

definition grows :: "ledger \<Rightarrow> ledger \<Rightarrow> bool" where
  "grows db db' \<longleftrightarrow> set (lg_obs db) \<subseteq> set (lg_obs db') \<and> set (lg_res db) \<subseteq> set (lg_res db') \<and>
     set (lg_ver db) \<subseteq> set (lg_ver db') \<and> set (lg_tx db) \<subseteq> set (lg_tx db') \<and>
     set (lg_resol db) \<subseteq> set (lg_resol db') \<and> set (lg_needs db) \<subseteq> set (lg_needs db')"

lemma list_ex_mono: "list_ex P xs \<Longrightarrow> set xs \<subseteq> set ys \<Longrightarrow> list_ex P ys"
  by (auto simp: list_ex_iff)

lemma ok_mono:
  assumes "grows db db'"
  shows "ok_ver db a \<Longrightarrow> ok_ver db' a" and "ok_evi db b \<Longrightarrow> ok_evi db' b" and "ok_acc db c \<Longrightarrow> ok_acc db' c"
    and "ok_tx db d \<Longrightarrow> ok_tx db' d" and "ok_resol db e \<Longrightarrow> ok_resol db' e" and "ok_member db f \<Longrightarrow> ok_member db' f"
    and "ok_need db g \<Longrightarrow> ok_need db' g" and "ok_try db h \<Longrightarrow> ok_try db' h"
  using assms unfolding grows_def ok_rows by (blast intro: list_ex_mono)+

text \<open>A step that grows the ledger keeps it sound if the rows it adds are.\<close>

lemma ledger_ok_grow:
  assumes "ledger_ok db" and g: "grows db db'" and k: "keys_ok db'"
    and "\<And>r. r \<in> set (lg_obs db') \<Longrightarrow> r \<in> set (lg_obs db) \<or> ok_obs r"
    and "\<And>r. r \<in> set (lg_ver db') \<Longrightarrow> r \<in> set (lg_ver db) \<or> ok_ver db' r"
    and "\<And>r. r \<in> set (lg_evi db') \<Longrightarrow> r \<in> set (lg_evi db) \<or> ok_evi db' r"
    and "\<And>r. r \<in> set (lg_acc db') \<Longrightarrow> r \<in> set (lg_acc db) \<or> ok_acc db' r"
    and "\<And>r. r \<in> set (lg_tx db') \<Longrightarrow> r \<in> set (lg_tx db) \<or> ok_tx db' r"
    and "\<And>r. r \<in> set (lg_resol db') \<Longrightarrow> r \<in> set (lg_resol db) \<or> ok_resol db' r"
    and "\<And>r. r \<in> set (lg_members db') \<Longrightarrow> r \<in> set (lg_members db) \<or> ok_member db' r"
    and "\<And>r. r \<in> set (lg_needs db') \<Longrightarrow> r \<in> set (lg_needs db) \<or> ok_need db' r"
    and "\<And>r. r \<in> set (lg_tries db') \<Longrightarrow> r \<in> set (lg_tries db) \<or> ok_try db' r"
  shows "ledger_ok db'"
proof -
  have "rows_ok db'"
    unfolding rows_ok_def list_all_iff
    using assms(1) [unfolded ledger_ok_def rows_ok_def list_all_iff] ok_mono [OF g] assms(4-) by meson
  with k show ?thesis by (simp add: ledger_ok_def)
qed

text \<open>An insertion adds its row only if no row conflicts with it, so it keeps each key that \<open>c\<close> covers.\<close>

definition keyed :: "('r \<Rightarrow> bool) \<Rightarrow> 'r \<Rightarrow> 'r list \<Rightarrow> 'r list \<Rightarrow> bool" where
  "keyed c r t0 t \<longleftrightarrow> t = t0 \<or> t = t0 @ [r] \<and> \<not> list_ex c t0"

lemma keyed_distinct:
  assumes "keyed c r t0 t" and "distinct (map key t0)" and "\<And>x. key x = key r \<Longrightarrow> c x"
  shows "distinct (map key t)"
  using assms by (auto simp: keyed_def list_ex_iff) metis

lemma put_row:
  assumes "(case insert_row c valid r t0 of Inl e \<Rightarrow> Inl e | Inr t \<Rightarrow> Inr (store t)) = Inr db'"
    and "valid \<Longrightarrow> P r" and "\<And>t. keyed c r t0 t \<Longrightarrow> K (store t)"
  shows "\<exists>t. db' = store t \<and> set t0 \<subseteq> set t \<and> (\<forall>x \<in> set t. x \<in> set t0 \<or> P x) \<and> K (store t)"
  using assms(1,2) assms(3) [of t0] assms(3) [of "t0 @ [r]"] by (auto simp: insert_row_def keyed_def split: if_splits)

lemma keys_step:
  assumes "keys_ok db"
  shows "keyed c1 r1 (lg_res db) t1 \<Longrightarrow>
        (\<And>x. rr_scope x = rr_scope r1 \<Longrightarrow> rr_resource x = rr_resource r1 \<or> rr_kind x = rr_kind r1 \<and> rr_locator x = rr_locator r1 \<Longrightarrow> c1 x) \<Longrightarrow> keys_ok (db\<lparr>lg_res := t1\<rparr>)"
    and "keyed c2 r2 (lg_ver db) t2 \<Longrightarrow>
        (\<And>x. vr_scope x = vr_scope r2 \<Longrightarrow> vr_version x = vr_version r2 \<or> vr_resource x = vr_resource r2 \<and> vr_token x = vr_token r2 \<Longrightarrow> c2 x) \<Longrightarrow> keys_ok (db\<lparr>lg_ver := t2\<rparr>)"
    and "keyed c3 r3 (lg_evi db) t3 \<Longrightarrow>
        (\<And>x. ev_scope x = ev_scope r3 \<Longrightarrow> ev_version x = ev_version r3 \<and> ev_event x = ev_event r3 \<Longrightarrow> c3 x) \<Longrightarrow> keys_ok (db\<lparr>lg_evi := t3\<rparr>)"
    and "keyed c4 r4 (lg_acc db) t4 \<Longrightarrow>
        (\<And>x. al_scope x = al_scope r4 \<Longrightarrow> al_access x = al_access r4 \<Longrightarrow> c4 x) \<Longrightarrow> keys_ok (db\<lparr>lg_acc := t4\<rparr>)"
    and "keyed c5 r5 (lg_tx db) t5 \<Longrightarrow>
        (\<And>x. tx_scope x = tx_scope r5 \<Longrightarrow> tx_unit x = tx_unit r5 \<Longrightarrow> c5 x) \<Longrightarrow> keys_ok (db\<lparr>lg_tx := t5\<rparr>)"
    and "keyed c6 r6 (lg_resol db) t6 \<Longrightarrow>
        (\<And>x. rl_scope x = rl_scope r6 \<Longrightarrow> rl_resolution x = rl_resolution r6 \<Longrightarrow> c6 x) \<Longrightarrow> keys_ok (db\<lparr>lg_resol := t6\<rparr>)"
    and "keyed c7 r7 (lg_members db) t7 \<Longrightarrow>
        (\<And>x. mb_scope x = mb_scope r7 \<Longrightarrow> mb_resolution x = mb_resolution r7 \<and> mb_version x = mb_version r7 \<and> mb_extent x = mb_extent r7 \<Longrightarrow> c7 x) \<Longrightarrow> keys_ok (db\<lparr>lg_members := t7\<rparr>)"
    and "keyed c8 r8 (lg_needs db) t8 \<Longrightarrow>
        (\<And>x. ne_scope x = ne_scope r8 \<Longrightarrow> ne_need x = ne_need r8 \<Longrightarrow> c8 x) \<Longrightarrow> keys_ok (db\<lparr>lg_needs := t8\<rparr>)"
    and "keyed c9 r9 (lg_tries db) t9 \<Longrightarrow>
        (\<And>x. ty_scope x = ty_scope r9 \<Longrightarrow> ty_need x = ty_need r9 \<and> ty_attempt x = ty_attempt r9 \<Longrightarrow> c9 x) \<Longrightarrow> keys_ok (db\<lparr>lg_tries := t9\<rparr>)"
    and "keyed c0 r0 (lg_obs db) t0 \<Longrightarrow>
        (\<And>x. ob_scope x = ob_scope r0 \<Longrightarrow> ob_event x = ob_event r0 \<or> ob_seq x = ob_seq r0 \<Longrightarrow> c0 x) \<Longrightarrow> keys_ok (db\<lparr>lg_obs := t0\<rparr>)"
  using assms unfolding keys_ok_def
  by (auto intro!: keyed_distinct [of c1 r1 "lg_res db" t1] keyed_distinct [of c2 r2 "lg_ver db" t2] keyed_distinct [of c3 r3 "lg_evi db" t3] keyed_distinct [of c4 r4 "lg_acc db" t4] keyed_distinct [of c5 r5 "lg_tx db" t5] keyed_distinct [of c6 r6 "lg_resol db" t6] keyed_distinct [of c7 r7 "lg_members db" t7] keyed_distinct [of c8 r8 "lg_needs db" t8] keyed_distinct [of c9 r9 "lg_tries db" t9] keyed_distinct [of c0 r0 "lg_obs db" t0])

lemma with_id_Inr [simp]: "with_id x r = Inr (y, db') \<longleftrightarrow> y = x \<and> r = Inr db'"
  by (cases r) (auto simp: with_id_def)

lemma grows_refl [simp]: "grows db db"
  by (simp add: grows_def)

lemma grows_trans: "grows a b \<Longrightarrow> grows b c \<Longrightarrow> grows a c"
  unfolding grows_def by blast

lemma add_obs_mono: "set t \<subseteq> set (add_obs r t)"
  by (auto simp: add_obs_def)

lemma import_event_mono: "set t \<subseteq> set (import_event e t)"
  using add_obs_mono by (auto simp: import_event_def split: option.splits)

lemma fold_import_mono: "set t \<subseteq> set (fold import_event evs t)"
proof (induction evs arbitrary: t)
  case (Cons e evs)
  have "set t \<subseteq> set (import_event e t)" by (rule import_event_mono)
  also have "\<dots> \<subseteq> set (fold import_event evs (import_event e t))" by (rule Cons.IH)
  finally show ?case by simp
qed simp

text \<open>The observations keep both their keys and their \<open>CHECK\<close>.\<close>

definition obs_sound :: "obs_row list \<Rightarrow> bool" where
  "obs_sound t \<longleftrightarrow> list_all ok_obs t \<and> distinct (map (\<lambda>x. (ob_scope x, ob_event x)) t) \<and>
     distinct (map (\<lambda>x. (ob_scope x, ob_seq x)) t)"

lemma ledger_obs: "ledger_ok db \<Longrightarrow> obs_sound (lg_obs db)"
  by (simp add: ledger_ok_def rows_ok_def keys_ok_def obs_sound_def)

lemma add_obs_sound: "obs_sound t \<Longrightarrow> tool_phase (er_phase e) \<Longrightarrow> obs_sound (add_obs (obs_of e tool) t)"
  by (auto simp: obs_sound_def add_obs_def ok_obs_def obs_of_def tool_phase_def list_ex_iff list_all_iff)

lemma fold_import_sound: "obs_sound t \<Longrightarrow> obs_sound (fold import_event evs t)"
  by (induction evs arbitrary: t) (auto simp: import_event_def add_obs_sound split: option.splits)

text \<open>A ledger that changes only its observations, soundly, stays sound.\<close>

lemma ledger_ok_obs:
  assumes "ledger_ok db" and "set (lg_obs db) \<subseteq> set t" and "obs_sound t"
  shows "ledger_ok (db\<lparr>lg_obs := t, lg_schema := v\<rparr>)" (is "ledger_ok ?db")
proof -
  have g: "grows db ?db" using assms(2) by (simp add: grows_def)
  have k: "keys_ok ?db" using assms(1,3) by (simp add: ledger_ok_def keys_ok_def obs_sound_def)
  show ?thesis by (rule ledger_ok_grow [OF assms(1) g k]) (use assms(3) in \<open>simp_all add: obs_sound_def list_all_iff\<close>)
qed

lemma migrate_ok: "migrate evs db = Inr db' \<Longrightarrow> ledger_ok db \<Longrightarrow> ledger_ok db' \<and> grows db db'"
  using fold_import_mono [of "lg_obs db" evs] fold_import_sound [OF ledger_obs [of db], of evs]
  by (auto simp: migrate_def grows_def split: option.splits if_splits intro!: ledger_ok_obs)

text \<open>A body that keeps the ledger sound makes a transaction that does.\<close>

lemma transaction_ok:
  assumes "ledger_ok db" and "\<And>db x db'. body db = Inr (x, db') \<Longrightarrow> ledger_ok db \<Longrightarrow> ledger_ok db'"
  shows "ledger_ok (snd (transaction evs body db))"
  using assms migrate_ok [of evs db]
  by (auto simp: transaction_def split: sum.splits prod.splits)

lemma put_resource_ok:
  assumes "ledger_ok db" and "put_resource H r db = Inr db'"
  shows "ledger_ok db'"
proof -
  have k0: "keys_ok db" using assms(1) by (simp add: ledger_ok_def)
  have "\<exists>t. db' = db\<lparr>lg_res := t\<rparr> \<and> set (lg_res db) \<subseteq> set t \<and> (\<forall>x \<in> set t. x \<in> set (lg_res db) \<or> True) \<and> keys_ok (db\<lparr>lg_res := t\<rparr>)"
    by (rule put_row [OF assms(2) [unfolded put_resource_def]]) (simp, erule keys_step(1) [OF k0], auto)
  then obtain t where t: "db' = db\<lparr>lg_res := t\<rparr>" and mono: "set (lg_res db) \<subseteq> set t" and k: "keys_ok db'" by blast
  have g: "grows db db'" using t mono by (simp add: grows_def)
  show ?thesis by (rule ledger_ok_grow [OF assms(1) g k]) (simp_all add: t)
qed

lemma put_version_ok:
  assumes "ledger_ok db" and "put_version H v db = Inr db'"
  shows "ledger_ok db'"
proof -
  have k0: "keys_ok db" using assms(1) by (simp add: ledger_ok_def)
  have "\<exists>t. db' = db\<lparr>lg_ver := t\<rparr> \<and> set (lg_ver db) \<subseteq> set t \<and> (\<forall>x \<in> set t. x \<in> set (lg_ver db) \<or> ok_ver db x) \<and>
      keys_ok (db\<lparr>lg_ver := t\<rparr>)"
    by (rule put_row [OF assms(2) [unfolded put_version_def]]) (simp add: ok_ver_def, erule keys_step(2) [OF k0], auto)
  then obtain t where t: "db' = db\<lparr>lg_ver := t\<rparr>" and mono: "set (lg_ver db) \<subseteq> set t"
    and new: "\<forall>x \<in> set t. x \<in> set (lg_ver db) \<or> ok_ver db x"
    and k: "keys_ok db'" by blast
  have g: "grows db db'" using t mono by (simp add: grows_def)
  show ?thesis by (rule ledger_ok_grow [OF assms(1) g k]) (use t new ok_mono(1) [OF g] in auto)
qed

lemma put_evidence_ok:
  assumes "ledger_ok db" and "put_evidence scope vid event db = Inr db'"
  shows "ledger_ok db'"
proof -
  have k0: "keys_ok db" using assms(1) by (simp add: ledger_ok_def)
  have "\<exists>t. db' = db\<lparr>lg_evi := t\<rparr> \<and> set (lg_evi db) \<subseteq> set t \<and> (\<forall>x \<in> set t. x \<in> set (lg_evi db) \<or> ok_evi db x) \<and>
      keys_ok (db\<lparr>lg_evi := t\<rparr>)"
    by (rule put_row [OF assms(2) [unfolded put_evidence_def]]) (simp add: ok_evi_def, erule keys_step(3) [OF k0], auto)
  then obtain t where t: "db' = db\<lparr>lg_evi := t\<rparr>" and mono: "set (lg_evi db) \<subseteq> set t"
    and new: "\<forall>x \<in> set t. x \<in> set (lg_evi db) \<or> ok_evi db x"
    and k: "keys_ok db'" by blast
  have g: "grows db db'" using t mono by (simp add: grows_def)
  show ?thesis by (rule ledger_ok_grow [OF assms(1) g k]) (use t new ok_mono(2) [OF g] in auto)
qed

lemma put_access_ok:
  assumes "ledger_ok db" and "put_access H v mode status basis extent reason db = Inr db'"
    and "status = ''observed'' \<Longrightarrow> executed (r_scope (v_resource v)) (v_event v) db"
  shows "ledger_ok db'"
proof -
  have k0: "keys_ok db" using assms(1) by (simp add: ledger_ok_def)
  have "\<exists>t. db' = db\<lparr>lg_acc := t\<rparr> \<and> set (lg_acc db) \<subseteq> set t \<and> (\<forall>x \<in> set t. x \<in> set (lg_acc db) \<or> ok_acc db x) \<and>
      keys_ok (db\<lparr>lg_acc := t\<rparr>)"
    by (rule put_row [OF assms(2) [unfolded put_access_def]])
      (use assms(3) in \<open>simp add: ok_acc_def\<close>, erule keys_step(4) [OF k0], auto)
  then obtain t where t: "db' = db\<lparr>lg_acc := t\<rparr>" and mono: "set (lg_acc db) \<subseteq> set t"
    and new: "\<forall>x \<in> set t. x \<in> set (lg_acc db) \<or> ok_acc db x"
    and k: "keys_ok db'" by blast
  have g: "grows db db'" using t mono by (simp add: grows_def)
  show ?thesis by (rule ledger_ok_grow [OF assms(1) g k]) (use t new ok_mono(3) [OF g] in auto)
qed

lemma put_transmission_ok:
  assumes "ledger_ok db" and "put_transmission H scope event description destination db = Inr db'"
  shows "ledger_ok db'"
proof -
  have k0: "keys_ok db" using assms(1) by (simp add: ledger_ok_def)
  have "\<exists>t. db' = db\<lparr>lg_tx := t\<rparr> \<and> set (lg_tx db) \<subseteq> set t \<and> (\<forall>x \<in> set t. x \<in> set (lg_tx db) \<or> ok_tx db x) \<and>
      keys_ok (db\<lparr>lg_tx := t\<rparr>)"
    by (rule put_row [OF assms(2) [unfolded put_transmission_def]]) (simp add: ok_tx_def, erule keys_step(5) [OF k0], auto)
  then obtain t where t: "db' = db\<lparr>lg_tx := t\<rparr>" and mono: "set (lg_tx db) \<subseteq> set t"
    and new: "\<forall>x \<in> set t. x \<in> set (lg_tx db) \<or> ok_tx db x"
    and k: "keys_ok db'" by blast
  have g: "grows db db'" using t mono by (simp add: grows_def)
  show ?thesis by (rule ledger_ok_grow [OF assms(1) g k]) (use t new ok_mono(4) [OF g] in auto)
qed

lemma put_resolution_ok:
  assumes "ledger_ok db" and "put_resolution rid scope uid resolver coverage reason evidence db = Inr db'"
  shows "ledger_ok db'"
proof -
  have k0: "keys_ok db" using assms(1) by (simp add: ledger_ok_def)
  have "\<exists>t. db' = db\<lparr>lg_resol := t\<rparr> \<and> set (lg_resol db) \<subseteq> set t \<and> (\<forall>x \<in> set t. x \<in> set (lg_resol db) \<or> ok_resol db x) \<and>
      keys_ok (db\<lparr>lg_resol := t\<rparr>)"
    by (rule put_row [OF assms(2) [unfolded put_resolution_def]]) (simp add: ok_resol_def, erule keys_step(6) [OF k0], auto)
  then obtain t where t: "db' = db\<lparr>lg_resol := t\<rparr>" and mono: "set (lg_resol db) \<subseteq> set t"
    and new: "\<forall>x \<in> set t. x \<in> set (lg_resol db) \<or> ok_resol db x"
    and k: "keys_ok db'" by blast
  have g: "grows db db'" using t mono by (simp add: grows_def)
  show ?thesis by (rule ledger_ok_grow [OF assms(1) g k]) (use t new ok_mono(5) [OF g] in auto)
qed

lemma put_member_ok:
  assumes "ledger_ok db" and "put_member scope rid m db = Inr db'"
  shows "ledger_ok db'"
proof -
  have k0: "keys_ok db" using assms(1) by (simp add: ledger_ok_def)
  have "\<exists>t. db' = db\<lparr>lg_members := t\<rparr> \<and> set (lg_members db) \<subseteq> set t \<and> (\<forall>x \<in> set t. x \<in> set (lg_members db) \<or> ok_member db x) \<and>
      keys_ok (db\<lparr>lg_members := t\<rparr>)"
    by (rule put_row [OF assms(2) [unfolded put_member_def]]) (simp add: ok_member_def, erule keys_step(7) [OF k0], auto)
  then obtain t where t: "db' = db\<lparr>lg_members := t\<rparr>" and mono: "set (lg_members db) \<subseteq> set t"
    and new: "\<forall>x \<in> set t. x \<in> set (lg_members db) \<or> ok_member db x"
    and k: "keys_ok db'" by blast
  have g: "grows db db'" using t mono by (simp add: grows_def)
  show ?thesis by (rule ledger_ok_grow [OF assms(1) g k]) (use t new ok_mono(6) [OF g] in auto)
qed

lemma put_need_ok:
  assumes "ledger_ok db" and "put_need H scope event n db = Inr db'"
  shows "ledger_ok db'"
proof -
  have k0: "keys_ok db" using assms(1) by (simp add: ledger_ok_def)
  have "\<exists>t. db' = db\<lparr>lg_needs := t\<rparr> \<and> set (lg_needs db) \<subseteq> set t \<and> (\<forall>x \<in> set t. x \<in> set (lg_needs db) \<or> ok_need db x) \<and>
      keys_ok (db\<lparr>lg_needs := t\<rparr>)"
    by (rule put_row [OF assms(2) [unfolded put_need_def]]) (simp add: ok_need_def, erule keys_step(8) [OF k0], auto)
  then obtain t where t: "db' = db\<lparr>lg_needs := t\<rparr>" and mono: "set (lg_needs db) \<subseteq> set t"
    and new: "\<forall>x \<in> set t. x \<in> set (lg_needs db) \<or> ok_need db x"
    and k: "keys_ok db'" by blast
  have g: "grows db db'" using t mono by (simp add: grows_def)
  show ?thesis by (rule ledger_ok_grow [OF assms(1) g k]) (use t new ok_mono(7) [OF g] in auto)
qed

lemma put_members_ok: "ledger_ok db \<Longrightarrow> put_members scope rid ms db = Inr db' \<Longrightarrow> ledger_ok db'"
  by (induction scope rid ms db rule: put_members.induct) (auto split: sum.splits dest: put_member_ok)

lemma put_all_version_ok: "ledger_ok db \<Longrightarrow> put_all_version H v db = Inr db' \<Longrightarrow> ledger_ok db'"
  unfolding put_all_version_def
  by (auto split: sum.splits if_splits) (metis put_evidence_ok put_version_ok put_resource_ok)

section \<open>Every operation keeps the ledger sound\<close>

lemma add_version_ok: "ledger_ok db \<Longrightarrow> ledger_ok (snd (add_version H evs v db))"
  unfolding add_version_def using put_all_version_ok by (auto intro!: transaction_ok)

lemma phase_of_executed: "phase_of scope event db = Some ''post_tool_use'' \<Longrightarrow> executed scope event db"
  by (auto simp: phase_of_def executed_def list_ex_iff dest!: find_Some_in)

lemma add_access_ok: "ledger_ok db \<Longrightarrow> ledger_ok (snd (add_access H evs v mode status basis extent reason db))"
  unfolding add_access_def
proof (erule transaction_ok, goal_cases)
  case (1 db x db')
  show ?case
  proof (rule put_access_ok [OF 1(2)])
    show "put_access H v mode status basis extent reason db = Inr db'" using 1(1) by (simp split: if_splits)
    show "executed (r_scope (v_resource v)) (v_event v) db" if "status = ''observed''"
      using 1(1) that phase_of_executed by (auto split: if_splits)
  qed
qed

lemma add_transmission_ok: "ledger_ok db \<Longrightarrow> ledger_ok (snd (add_transmission H evs scope event description destination db))"
  unfolding add_transmission_def using put_transmission_ok by (auto intro!: transaction_ok)

lemma add_resolution_ok: "ledger_ok db \<Longrightarrow> ledger_ok (snd (add_resolution H evs scope uid resolver coverage reason evidence ms db))"
  unfolding add_resolution_def Let_def
  by (auto intro!: transaction_ok split: sum.splits) (metis put_members_ok put_resolution_ok)

lemma add_need_ok: "ledger_ok db \<Longrightarrow> ledger_ok (snd (add_need H evs scope event n db))"
  unfolding add_need_def using put_need_ok by (auto intro!: transaction_ok)

lemma record_need_attempt_ok:
  assumes "ledger_ok db"
  shows "ledger_ok (snd (record_need_attempt evs scope nid status evidence reason m db))"
  unfolding record_need_attempt_def Let_def
proof (rule transaction_ok [OF assms], goal_cases)
  case (1 db x db')
  let ?n = "length (tries_of scope nid db) + 1"
  let ?c = "\<lambda>t. ty_scope t = scope \<and> ty_need t = nid \<and> ty_attempt t = ?n"
  let ?r = "\<lparr>ty_scope = scope, ty_need = nid, ty_attempt = ?n, ty_status = status,
    ty_evidence = dumps True True evidence, ty_reason = reason\<rparr>"
  have t: "db' = db\<lparr>lg_tries := lg_tries db @ [?r]\<rparr>" and r: "ok_try db ?r" and free: "\<not> list_ex ?c (lg_tries db)"
    using 1(1) by (auto simp: ok_try_def split: if_splits)
  have g: "grows db db'" using t by (simp add: grows_def)
  have k0: "keys_ok db" using 1(2) by (simp add: ledger_ok_def)
  have k: "keys_ok db'" unfolding t by (rule keys_step(9) [OF k0, of ?c ?r]) (use free in \<open>auto simp: keyed_def\<close>)
  from t r show ?case by (intro ledger_ok_grow [OF 1(2) g k]) (use ok_mono(8) [OF g] in auto)
qed

lemma observe_ok:
  assumes "ledger_ok db"
  shows "ledger_ok (observe e db)"
proof -
  have "observe e db = db \<or> (\<exists>tool. tool_phase (er_phase e) \<and>
      observe e db = db\<lparr>lg_obs := add_obs (obs_of e tool) (lg_obs db), lg_schema := lg_schema db\<rparr>)"
    by (auto simp: observe_def split: option.splits)
  then show ?thesis
    using assms ledger_ok_obs [OF assms add_obs_mono add_obs_sound [OF ledger_obs [OF assms]]] by metis
qed

section \<open>Bounded, progressing attempts\<close>

definition need_rows :: "string \<Rightarrow> string \<Rightarrow> ledger \<Rightarrow> try_row list" where
  "need_rows scope nid db = filter (\<lambda>t. ty_scope t = scope \<and> ty_need t = nid) (lg_tries db)"

definition rows_progress :: "try_row list \<Rightarrow> bool" where
  "rows_progress rows \<longleftrightarrow> map ty_attempt rows = [1..<length rows + 1] \<and> length rows \<le> 3 \<and>
     distinct (map ty_evidence rows) \<and> list_all (\<lambda>r. ty_status r \<noteq> ''resolved'') (butlast rows)"

definition attempts_progress :: "ledger \<Rightarrow> bool" where
  "attempts_progress db \<longleftrightarrow> (\<forall>scope nid. rows_progress (need_rows scope nid db))"

lemma tries_of_rows: "rows_progress (need_rows scope nid db) \<Longrightarrow> tries_of scope nid db = need_rows scope nid db"
  unfolding tries_of_def need_rows_def [symmetric]
  by (rule sort_key_id_if_sorted) (simp only: rows_progress_def sorted_upt)

lemma rows_progress_snoc:
  assumes "rows_progress rows" and "length rows < 3" and "ty_attempt r = length rows + 1"
    and "\<not> list_ex (\<lambda>x. ty_status x = ''resolved'' \<or> ty_evidence x = ty_evidence r) rows"
  shows "rows_progress (rows @ [r])"
proof -
  have "ty_evidence r \<notin> ty_evidence ` set rows" using assms(4) by (auto simp: list_ex_iff)
  moreover have "list_all (\<lambda>r. ty_status r \<noteq> ''resolved'') rows" using assms(4) by (auto simp: list_ex_iff list_all_iff)
  ultimately show ?thesis using assms(1-3) by (simp add: rows_progress_def)
qed

lemma migrate_tries: "migrate evs db = Inr db' \<Longrightarrow> lg_tries db' = lg_tries db"
  by (auto simp: migrate_def split: option.splits if_splits)

lemma attempts_progress_step:
  assumes "attempts_progress db" and "m \<le> 3"
  shows "attempts_progress (snd (record_need_attempt evs scope nid status evidence reason m db))"
proof (cases "migrate evs db")
  case (Inl e)
  with assms(1) show ?thesis by (simp add: record_need_attempt_def transaction_def)
next
  case (Inr db1)
  have same: "need_rows sc n db1 = need_rows sc n db" for sc n
    using migrate_tries [OF Inr] by (simp add: need_rows_def)
  let ?rows = "need_rows scope nid db"
  let ?r = "\<lparr>ty_scope = scope, ty_need = nid, ty_attempt = length ?rows + 1, ty_status = status,
     ty_evidence = dumps True True evidence, ty_reason = reason\<rparr>"
  have p: "rows_progress (need_rows sc n db)" for sc n using assms(1) by (simp add: attempts_progress_def)
  have t: "tries_of scope nid db1 = ?rows" using tries_of_rows [of scope nid db1] p same by simp
  let ?out = "snd (record_need_attempt evs scope nid status evidence reason m db)"
  have "?out = db \<or> (length ?rows < m \<and> \<not> list_ex (\<lambda>x. ty_status x = ''resolved'' \<or> ty_evidence x = ty_evidence ?r) ?rows
      \<and> ?out = db1\<lparr>lg_tries := lg_tries db1 @ [?r]\<rparr>)"
    by (simp add: record_need_attempt_def transaction_def Inr t Let_def)
  then show ?thesis
  proof (elim disjE conjE)
    assume n: "length ?rows < m" and e: "\<not> list_ex (\<lambda>x. ty_status x = ''resolved'' \<or> ty_evidence x = ty_evidence ?r) ?rows"
      and out: "?out = db1\<lparr>lg_tries := lg_tries db1 @ [?r]\<rparr>"
    have own: "rows_progress (?rows @ [?r])" by (rule rows_progress_snoc [OF p _ _ e]) (use n assms(2) in simp_all)
    have "need_rows sc n ?out = (if sc = scope \<and> n = nid then ?rows @ [?r] else need_rows sc n db)" for sc n
      unfolding out using same [of sc n] by (auto simp: need_rows_def)
    with own p show ?thesis unfolding attempts_progress_def by simp
  qed (use assms(1) in simp)
qed

section \<open>Properties\<close>

datatype ledger_op =
    AddVersion version
  | AddAccess version string string string json string
  | AddTransmission string string json json
  | AddResolution string string string string string json "(string \<times> json) list"
  | AddNeed string string need
  | RecordAttempt string string string json string nat
  | Observe event_row

fun apply_ledger :: "hash \<Rightarrow> event_row list \<Rightarrow> ledger_op \<Rightarrow> ledger \<Rightarrow> ledger" where
  "apply_ledger H evs (AddVersion v) db = snd (add_version H evs v db)"
| "apply_ledger H evs (AddAccess v m st b x r) db = snd (add_access H evs v m st b x r db)"
| "apply_ledger H evs (AddTransmission s e d t) db = snd (add_transmission H evs s e d t db)"
| "apply_ledger H evs (AddResolution s u v c r e ms) db = snd (add_resolution H evs s u v c r e ms db)"
| "apply_ledger H evs (AddNeed s e n) db = snd (add_need H evs s e n db)"
| "apply_ledger H evs (RecordAttempt s n st e r m) db = snd (record_need_attempt evs s n st e r m db)"
| "apply_ledger H evs (Observe e) db = observe e db"

lemma apply_ledger_ok: "ledger_ok db \<Longrightarrow> ledger_ok (apply_ledger H evs x db)"
  by (cases x) (simp_all add: add_version_ok add_access_ok add_transmission_ok add_resolution_ok add_need_ok
      record_need_attempt_ok observe_ok)

text \<open>
  C37. Whatever sequence of operations runs, the evidence ledger keeps every constraint its
  schema declares. Every primary key and every unique key stays unique: an observation by its
  event and by its sequence number, a resource by its digest and by its kind and locator, a
  version by its digest and by its resource and token, and evidence, accesses, transmissions,
  resolutions, members, needs and attempts by theirs. Every enumerated column keeps to its
  values: the phase of an observation, the mode, status and basis of an access, the coverage
  of a resolution and the status of an attempt (a byte length is a natural number by its
  type). Every foreign key names a row that is there:
  a version its resource, evidence and an access their version and observation, a transmission
  and a need their observation, a resolution its transmission, a member its resolution and
  version, an attempt its need. And beyond the schema, an access is recorded as observed only
  for an event that was observed as a PostToolUse.
\<close>

theorem ledger_stays_sound:
  assumes "ledger_ok db"
  shows "ledger_ok (fold (apply_ledger H evs) ops db)"
  using assms by (induction ops arbitrary: db) (auto intro: apply_ledger_ok)

text \<open>
  Attempts to fill an evidence need are bounded and make progress: they are numbered
  1, 2, 3, bring evidence no earlier attempt brought, and none follows a resolved one.
\<close>

theorem evidence_attempts_progress:
  assumes "attempts_progress db" and "m \<le> 3"
  shows "attempts_progress (snd (record_need_attempt evs scope nid status evidence reason m db))"
  using assms by (rule attempts_progress_step)

definition sample_ledger_ops :: "ledger_op list" where
  "sample_ledger_ops =
     (let e = \<lparr>er_event = ''e'', er_phase = ''pre_tool_use'', er_session = Some ''s'', er_tool_use = Some ''t'',
               er_tool_name = JStr ''Bash'', er_workspace = ''w'', er_root = ''/w'', er_execution_cwd = None,
               er_payload = [], er_seq = 1\<rparr>;
          v = \<lparr>v_resource = \<lparr>r_scope = ''w'', r_kind = ''file'', r_locator = ''k''\<rparr>, v_token = ''t'', v_event = ''e'', v_length = Some 3\<rparr>
      in [Observe e, AddVersion v, AddAccess v ''read'' ''planned'' ''inference'' (JObj []) ''why'',
          AddAccess v ''read'' ''observed'' ''inference'' (JObj []) ''why'',
          AddTransmission ''w'' ''e'' JNull JNull, AddNeed ''w'' ''e'' \<lparr>nd_kind = ''origin'', nd_target = ''t'', nd_reason = ''r''\<rparr>])"

theorem ledger_stays_sound_witness:
  "ledger_ok (fold (apply_ledger (\<lambda>x. ''h'') []) sample_ledger_ops empty_ledger) \<and>
   length (lg_acc (fold (apply_ledger (\<lambda>x. ''h'') []) sample_ledger_ops empty_ledger)) = 1"
proof
  show "ledger_ok (fold (apply_ledger (\<lambda>x. ''h'') []) sample_ledger_ops empty_ledger)"
    by (rule ledger_stays_sound) code_simp
  show "length (lg_acc (fold (apply_ledger (\<lambda>x. ''h'') []) sample_ledger_ops empty_ledger)) = 1" by code_simp
qed

theorem evidence_attempts_progress_witness:
  "attempts_progress (snd (record_need_attempt [] ''w'' ''n'' ''failed'' (JStr ''log'') ''why'' 3 empty_ledger))"
  by (rule evidence_attempts_progress)
     (simp_all add: attempts_progress_def need_rows_def empty_ledger_def rows_progress_def)

end
