(* ===== verification/Payload.thy ===== *)
theory Payload
  imports Repository Evidence Calls
begin

text \<open>
  \<open>engine/payload.py\<close>: the resolution of a declared transmission target into the bytes
  it stands for, with a byte and a member budget. What cannot be resolved becomes an evidence
  need, so that \<open>coverage\<close> is "complete" only when everything was. The keyed token of a
  content (HMAC-SHA256 with the key of the scope) is a parameter of the resolver.
\<close>

record part =
  pt_version :: version
  pt_content :: bytes
  pt_offset :: nat
  pt_length :: nat
  pt_observation :: dict

record resolution =
  rn_parts :: "part list"
  rn_needs :: "need list"
  rn_coverage :: string

record 'w resolver =
  rv_scope :: string
  rv_event_id :: string
  rv_root :: string
  rv_max_bytes :: nat
  rv_max_members :: nat
  rv_document :: dict
  rv_token :: "bytes \<Rightarrow> string"
  rv_calls :: "call_node list"
  rv_context :: "dict option"
  rv_disk :: "'w disk"
  rv_repo :: "'w repo"
  rv_local_dir :: "string \<Rightarrow> 'w \<Rightarrow> bool \<times> 'w"

section \<open>Construction\<close>

text \<open>
  The keys of the scopes: a fresh key is kept only if the scope has none. The event must
  belong to the scope and to the root the resolver will read.
\<close>

definition scope_key :: "string \<Rightarrow> bytes \<Rightarrow> (string \<times> bytes) list \<Rightarrow> bytes \<times> (string \<times> bytes) list" where
  "scope_key scope fresh keys =
     (let keys = ins_ignore fst (scope, fresh) keys
      in (case map_of keys scope of None \<Rightarrow> fresh | Some k \<Rightarrow> k, keys))"

definition make_resolver :: "(bytes \<Rightarrow> bytes \<Rightarrow> string) \<Rightarrow> event_row list \<Rightarrow> string \<Rightarrow> string \<Rightarrow> string \<Rightarrow> bytes
    \<Rightarrow> 'w disk \<Rightarrow> 'w repo \<Rightarrow> (string \<Rightarrow> 'w \<Rightarrow> bool \<times> 'w) \<Rightarrow> (string \<times> bytes) list
    \<Rightarrow> 'w resolver res \<times> (string \<times> bytes) list" where
  "make_resolver mac evs scope event root fresh d g local keys =
     (let (key, keys') = scope_key scope fresh keys in
      case find (\<lambda>r. er_event r = event \<and> er_workspace r = scope) evs of
        None \<Rightarrow> (Inl (ResolutionError ''event_scope_root_mismatch''), keys)
      | Some row \<Rightarrow>
          if er_root row \<noteq> root then (Inl (ResolutionError ''event_scope_root_mismatch''), keys)
          else (Inr \<lparr>rv_scope = scope, rv_event_id = event, rv_root = root, rv_max_bytes = 1048576,
                  rv_max_members = 128, rv_document = er_payload row, rv_token = mac key, rv_calls = [],
                  rv_context = None, rv_disk = d, rv_repo = g, rv_local_dir = local\<rparr>, keys'))"

section \<open>Pointers into the tool input\<close>

fun replace_tilde :: "char \<Rightarrow> char \<Rightarrow> string \<Rightarrow> string" where
  "replace_tilde d r [] = []"
| "replace_tilde d r [c] = [c]"
| "replace_tilde d r (c # e # cs) =
     (if c = CHR ''~'' \<and> e = d then r # replace_tilde d r cs else c # replace_tilde d r (e # cs))"

definition unescape :: "string \<Rightarrow> string" where
  "unescape raw = replace_tilde CHR ''0'' CHR ''~'' (replace_tilde CHR ''1'' slash raw)"

definition index_json :: "json \<Rightarrow> string \<Rightarrow> json option" where
  "index_json v key =
     (case v of
        JArr xs \<Rightarrow>
          (case py_int key of
             None \<Rightarrow> None
           | Some i \<Rightarrow>
               let n = int (length xs); j = (if i < 0 then i + n else i)
               in if 0 \<le> j \<and> j < n then Some (xs ! nat j) else None)
      | JObj d \<Rightarrow> map_of d key
      | _ \<Rightarrow> None)"

fun walk_pointer :: "json \<Rightarrow> string list \<Rightarrow> json option" where
  "walk_pointer v [] = Some v"
| "walk_pointer v (raw # raws) =
     (case index_json v (unescape raw) of None \<Rightarrow> None | Some v' \<Rightarrow> walk_pointer v' raws)"

definition pointer_value :: "dict \<Rightarrow> json \<Rightarrow> bytes res" where
  "pointer_value doc pointer =
     (case pointer of
        JStr p \<Rightarrow>
          if \<not> starts_with ''/tool_input/'' p then Inl (ResolutionError ''input_pointer_required'')
          else (case walk_pointer (JObj doc) (tl (split_on slash p)) of
              None \<Rightarrow> Inl (ResolutionError ''input_pointer_missing'')
            | Some (JStr t) \<Rightarrow> Inr (utf8 t)
            | Some _ \<Rightarrow> Inl (ResolutionError ''input_value_not_text''))
      | _ \<Rightarrow> Inl (ResolutionError ''input_pointer_required''))"

section \<open>Inline, observed and context targets\<close>

text \<open>\<open>/previous_calls/(0|[1-9][0-9]*)/output(/.*)?\<close>, matched in full.\<close>

definition parse_observed :: "string \<Rightarrow> (nat \<times> string) option" where
  "parse_observed p =
     (let rest = drop 16 p; ds = takeWhile digit rest; rest2 = drop (length ds) rest; tail = drop 7 rest2
      in if starts_with ''/previous_calls/'' p \<and> ds \<noteq> [] \<and> (ds = ''0'' \<or> hd ds \<noteq> CHR ''0'') \<and>
            starts_with ''/output'' rest2 \<and> (tail = [] \<or> hd tail = slash \<and> newline \<notin> set tail)
         then Some (digits_value ds, tail) else None)"

definition fetch_observed :: "'w resolver \<Rightarrow> json \<Rightarrow> (bytes \<times> call_node) res" where
  "fetch_observed rs pointer =
     (if \<not> is_str pointer then Inl (TypeError ''expected string'')
      else case parse_observed (the_str pointer) of
          None \<Rightarrow> Inl (ResolutionError ''observed_pointer_missing'')
        | Some (i, tail) \<Rightarrow>
            if length (rv_calls rs) \<le> i then Inl (ResolutionError ''observed_pointer_missing'')
            else
              let origin = rv_calls rs ! i in
              if \<not> c_completed origin then Inl (ResolutionError ''observed_output_not_completed'')
              else (case pointer_value [(''tool_input'', JObj [(''value'', c_output origin)])]
                           (JStr (''/tool_input/value'' @ tail)) of
                  Inl e \<Rightarrow> Inl e | Inr content \<Rightarrow> Inr (content, origin)))"

definition CONTEXT_PREFIX :: string where
  "CONTEXT_PREFIX = ''/invocation_context/facts/''"

text \<open>\<open>getattr(self, 'definition_context', {}).get('invocation_context')\<close>.\<close>

definition invocation_context :: "'w resolver \<Rightarrow> dict" where
  "invocation_context rs =
     the_obj (dget (case rv_context rs of None \<Rightarrow> [] | Some context \<Rightarrow> context) ''invocation_context'')"

definition fetch_context :: "'w resolver \<Rightarrow> json \<Rightarrow> (bytes \<times> json) res" where
  "fetch_context rs pointer =
     (let context = invocation_context rs in
      if context = [] \<or> dget context ''status'' \<noteq> JStr ''observed'' then Inl (ResolutionError ''context_pointer_missing'')
      else if \<not> is_str pointer then Inl (TypeError ''expected string'')
      else
        let p = the_str pointer; facts = the_obj (dget context ''facts'') in
        if \<not> starts_with CONTEXT_PREFIX p \<or> starts_with (CONTEXT_PREFIX @ ''origins/'') p
        then Inl (ResolutionError ''context_pointer_missing'')
        else (case pointer_value [(''tool_input'', JObj facts)] (JStr (''/tool_input/'' @ drop (length CONTEXT_PREFIX) p)) of
            Inl e \<Rightarrow> Inl e
          | Inr content \<Rightarrow> Inr (content, dget (the_obj (dget_or (JObj []) facts ''origins'')) p)))"

definition extent_ok :: "json \<Rightarrow> json \<Rightarrow> nat \<Rightarrow> bool" where
  "extent_ok offset len n \<longleftrightarrow>
     (case offset of JInt i \<Rightarrow> 0 \<le> i \<and> i \<le> int n \<and>
        (case len of JNull \<Rightarrow> True | JInt l \<Rightarrow> 0 \<le> l \<and> i + l \<le> int n | _ \<Rightarrow> False)
      | _ \<Rightarrow> False)"

definition slice :: "bytes \<Rightarrow> json \<Rightarrow> json \<Rightarrow> bytes" where
  "slice content offset len =
     (let tail = drop (nat (the_int offset)) content
      in case len of JInt l \<Rightarrow> take (nat l) tail | _ \<Rightarrow> tail)"

definition make_part :: "'w resolver \<Rightarrow> string \<Rightarrow> string \<Rightarrow> bytes \<Rightarrow> bytes \<Rightarrow> nat \<Rightarrow> dict \<Rightarrow> part" where
  "make_part rs kind locator content selected offset obs =
     \<lparr>pt_version = \<lparr>v_resource = \<lparr>r_scope = rv_scope rs, r_kind = kind, r_locator = locator\<rparr>,
        v_token = rv_token rs content, v_event = rv_event_id rs, v_length = Some (length content)\<rparr>,
      pt_content = selected, pt_offset = offset, pt_length = length selected, pt_observation = obs\<rparr>"

definition narrowed_origin :: "json \<Rightarrow> nat \<Rightarrow> nat \<Rightarrow> dict" where
  "narrowed_origin origin offset len =
     (case origin of
        JObj d \<Rightarrow> [(''context_origin'', JObj (dict_set ''projection''
          (JObj (dict_set ''length'' (JInt (int len)) (dict_set ''offset'' (JInt (int offset)) (the_obj (dget d ''projection''))))) d))]
      | _ \<Rightarrow> [])"

definition fetch_inline :: "'w resolver \<Rightarrow> string \<Rightarrow> json \<Rightarrow> (bytes \<times> call_node option \<times> json) res" where
  "fetch_inline rs kind pointer =
     (if kind = ''observed'' then
        (case fetch_observed rs pointer of Inl e \<Rightarrow> Inl e | Inr (c, call) \<Rightarrow> Inr (c, Some call, JNull))
      else if kind = ''context'' then
        (case fetch_context rs pointer of Inl e \<Rightarrow> Inl e | Inr (c, origin) \<Rightarrow> Inr (c, None, origin))
      else (case pointer_value (rv_document rs) pointer of Inl e \<Rightarrow> Inl e | Inr c \<Rightarrow> Inr (c, None, JNull)))"

definition selected_part :: "'w resolver \<Rightarrow> string \<Rightarrow> string \<Rightarrow> bytes \<Rightarrow> call_node option \<Rightarrow> json \<Rightarrow> json \<Rightarrow> json \<Rightarrow> part" where
  "selected_part rs kind pointer content call origin offset len =
     (let selected = slice content offset len; off = nat (the_int offset);
          source = (case call of None \<Rightarrow> rv_event_id rs | Some c \<Rightarrow> c_event c);
          rkind = (if kind = ''context'' then ''invocation_context''
                   else case call of None \<Rightarrow> ''event_input'' | Some c \<Rightarrow> ''event_output'');
          obs = [(''event'', JStr source), (''pointer'', JStr pointer)] @ narrowed_origin origin off (length selected) @
                (case call of None \<Rightarrow> [] | Some c \<Rightarrow> [(''source_node_id'', JStr (c_node c))])
      in make_part rs rkind (source @ pointer) content selected off obs)"

text \<open>The part, and the bytes of the budget that are left, also when the extent is invalid.\<close>

definition inline_part :: "'w resolver \<Rightarrow> string \<Rightarrow> dict \<Rightarrow> int \<Rightarrow> part res \<times> int" where
  "inline_part rs kind item budget =
     (if \<not> keys_are [''kind'', ''pointer''] item \<and> \<not> keys_are [''kind'', ''pointer'', ''offset'', ''length''] item
      then (Inl (ResolutionError ''invalid_inline_target''), budget)
      else case fetch_inline rs kind (dget item ''pointer'') of
          Inl e \<Rightarrow> (Inl e, budget)
        | Inr (content, call, origin) \<Rightarrow>
            if budget < int (length content) then (Inl (ResolutionError ''resolution_byte_budget''), budget)
            else
              let offset = dget_or (JInt 0) item ''offset''; len = dget item ''length''
              in (if extent_ok offset len (length content)
                  then Inr (selected_part rs kind (the_str (dget item ''pointer'')) content call origin offset len)
                  else Inl (ResolutionError ''invalid_inline_extent''), budget - int (length content)))"

section \<open>File and snapshot targets\<close>

definition file_part :: "'w resolver \<Rightarrow> dict \<Rightarrow> int \<Rightarrow> 'w \<Rightarrow> part res \<times> int \<times> 'w" where
  "file_part rs item budget w =
     (if \<not> keys_are [''kind'', ''path'', ''offset'', ''length''] item then (Inl (ResolutionError ''invalid_file_target''), budget, w)
      else
        let offset = dget item ''offset''; len = dget item ''length''; path = dget item ''path'' in
        if \<not> (case offset of JInt i \<Rightarrow> 0 \<le> i | _ \<Rightarrow> False) \<or> \<not> (case len of JNull \<Rightarrow> True | JInt l \<Rightarrow> 0 \<le> l | _ \<Rightarrow> False)
        then (Inl (ResolutionError ''invalid_extent''), budget, w)
        else case read_file (rv_disk rs) (rv_root rs) (rv_event_id rs) path budget w of
            (Inl e, w) \<Rightarrow> (Inl e, budget, w)
          | (Inr (content, obs, budget'), w) \<Rightarrow>
              if \<not> extent_ok offset len (length content) then (Inl (ResolutionError ''extent_outside_content''), budget', w)
              else (Inr (make_part rs ''file'' (the_str path) content (slice content offset len)
                           (nat (the_int offset)) obs), budget', w))"

definition object_part :: "'w resolver \<Rightarrow> string \<Rightarrow> json \<Rightarrow> string \<Rightarrow> repo_part \<Rightarrow> part" where
  "object_part rs path revision head p =
     make_part rs ''repository_object'' (path @ '':'' @ po_oid p) (po_content p) (po_content p) 0
       [(''event'', JStr (rv_event_id rs)), (''repository'', JStr path), (''revision'', revision), (''head'', JStr head),
        (''object'', JStr (po_oid p)), (''object_kind'', JStr (po_kind p)), (''paths'', JArr (map JStr (po_paths p)))]"

fun resolution_failure :: "exn \<Rightarrow> exn" where
  "resolution_failure (OSError m) = ResolutionError m"
| "resolution_failure e = (if is_value_error e then ResolutionError (exn_text e) else e)"

definition snapshot_parts :: "'w resolver \<Rightarrow> dict \<Rightarrow> int \<Rightarrow> int \<Rightarrow> 'w \<Rightarrow> part list res \<times> 'w" where
  "snapshot_parts rs item budget members w =
     (if \<not> keys_are [''kind'', ''format'', ''path'', ''revision''] item \<or> dget item ''format'' \<noteq> JStr ''git''
      then (Inl (ResolutionError ''invalid_snapshot_target''), w)
      else
        let path = dget item ''path'' in
        case (if path = JStr ''.'' then Inr [] else safe_parts path) of
          Inl e \<Rightarrow> (Inl e, w)
        | Inr _ \<Rightarrow>
            let root = path_join (rv_root rs) (the_str path); (local, w) = rv_local_dir rs root w in
            if \<not> local then (Inl (ResolutionError ''repository_path_not_local''), w)
            else (case snapshot (rv_repo rs) root (dget item ''revision'') budget members w of
                (Inl e, w) \<Rightarrow> (Inl (resolution_failure e), w)
              | (Inr (oid, ps), w) \<Rightarrow> (Inr (map (object_part rs (the_str path) (dget item ''revision'') oid) ps), w)))"

section \<open>The visit of a target\<close>

record 'w visiting =
  vs_parts :: "part list"
  vs_needs :: "need list"
  vs_bytes :: int
  vs_members :: int
  vs_world :: 'w

definition want :: "string \<Rightarrow> string \<Rightarrow> string \<Rightarrow> 'w visiting \<Rightarrow> 'w visiting" where
  "want kind target reason st = st\<lparr>vs_needs := vs_needs st @ [\<lparr>nd_kind = kind, nd_target = target, nd_reason = reason\<rparr>]\<rparr>"

text \<open>The two \<open>except\<close> clauses; any other exception leaves the resolution.\<close>

definition caught :: "exn \<Rightarrow> 'w visiting \<Rightarrow> exn option \<times> 'w visiting" where
  "caught e st = (case e of
      ResolutionError m \<Rightarrow> (None, want ''resource_version'' ''target'' m st)
    | OSError m \<Rightarrow> (None, want ''resource_version'' ''target'' ''resource_unavailable'' st)
    | _ \<Rightarrow> (Some e, st))"

definition collection_ok :: "dict \<Rightarrow> bool" where
  "collection_ok item \<longleftrightarrow> keys_are [''kind'', ''members'', ''complete''] item \<and>
     is_arr (dget item ''members'') \<and> is_bool (dget item ''complete'')"

definition visit_leaf :: "'w resolver \<Rightarrow> dict \<Rightarrow> 'w visiting \<Rightarrow> exn option \<times> 'w visiting" where
  "visit_leaf rs item st =
     (let kind = dget item ''kind'' in
      if kind \<in> {JStr ''inline'', JStr ''observed'', JStr ''context''} then
        (case inline_part rs (the_str kind) item (vs_bytes st) of
           (Inl e, left) \<Rightarrow> caught e (st\<lparr>vs_bytes := left\<rparr>)
         | (Inr p, left) \<Rightarrow> (None, st\<lparr>vs_bytes := left, vs_parts := vs_parts st @ [p]\<rparr>))
      else if kind = JStr ''file'' then
        (case file_part rs item (vs_bytes st) (vs_world st) of
           (Inl e, left, w) \<Rightarrow> caught e (st\<lparr>vs_bytes := left, vs_world := w\<rparr>)
         | (Inr p, left, w) \<Rightarrow> (None, st\<lparr>vs_bytes := left, vs_parts := vs_parts st @ [p], vs_world := w\<rparr>))
      else if kind = JStr ''snapshot'' then
        (case snapshot_parts rs item (vs_bytes st) (vs_members st) (vs_world st) of
           (Inl e, w) \<Rightarrow> caught e (st\<lparr>vs_world := w\<rparr>)
         | (Inr ps, w) \<Rightarrow> (None, st\<lparr>vs_parts := vs_parts st @ ps, vs_world := w,
               vs_bytes := vs_bytes st - int (sum_list (map (\<lambda>p. length (pt_content p)) ps)),
               vs_members := vs_members st - int (length ps)\<rparr>))
      else (None, want (if kind = JStr ''transform'' then ''execution_definition'' else ''resource_version'')
                    ''target'' ''unsupported_target_kind'' st))"

fun visit :: "'w resolver \<Rightarrow> nat \<Rightarrow> json \<Rightarrow> 'w visiting \<Rightarrow> exn option \<times> 'w visiting" where
  "visit rs 0 item st = (None, want ''target_extent'' ''collection'' ''resolution_member_budget'' st)"
| "visit rs (Suc depth) item st =
     (if vs_members st \<le> 0 then (None, want ''target_extent'' ''collection'' ''resolution_member_budget'' st)
      else
        let st = st\<lparr>vs_members := vs_members st - 1\<rparr> in
        case item of
          JObj d \<Rightarrow>
            if dget d ''kind'' \<noteq> JStr ''collection'' then visit_leaf rs d st
            else if \<not> collection_ok d then caught (ResolutionError ''invalid_collection'') st
            else
              let members = the_arr (dget d ''members'') in
              (case fold (\<lambda>m (e, st). case e of Some x \<Rightarrow> (Some x, st) | None \<Rightarrow> visit rs depth m st)
                     (take (rv_max_members rs) members) (None, st) of
                 (Some x, st) \<Rightarrow> (Some x, st)
               | (None, st) \<Rightarrow>
                   if dget d ''complete'' = JBool False \<or> rv_max_members rs < length members
                   then (None, want ''target_extent'' ''collection'' ''collection_membership_incomplete'' st)
                   else (None, st))
        | _ \<Rightarrow> caught (ResolutionError ''invalid_target_description'') st)"

declare visit.simps [simp del]

definition MAX_DEPTH :: nat where
  "MAX_DEPTH = 9"

definition resolve :: "'w resolver \<Rightarrow> json \<Rightarrow> dict option \<Rightarrow> 'w \<Rightarrow> resolution res \<times> 'w" where
  "resolve rs target document w =
     (if (case document of None \<Rightarrow> False | Some d \<Rightarrow> \<not> py_eq (JObj d) (JObj (rv_document rs)))
      then (Inl (ResolutionError ''input_evidence_mismatch''), w)
      else case visit rs MAX_DEPTH target \<lparr>vs_parts = [], vs_needs = [], vs_bytes = int (rv_max_bytes rs),
                 vs_members = int (rv_max_members rs), vs_world = w\<rparr> of
          (Some e, st) \<Rightarrow> (Inl e, vs_world st)
        | (None, st) \<Rightarrow>
            (Inr \<lparr>rn_parts = vs_parts st, rn_needs = vs_needs st,
               rn_coverage = (if vs_needs st = [] then ''complete''
                              else if vs_parts st = [] then ''unsupported'' else ''partial'')\<rparr>, vs_world st))"

section \<open>Parts are exact slices within the budgets\<close>

definition part_exact :: "'w resolver \<Rightarrow> part \<Rightarrow> bool" where
  "part_exact rs p \<longleftrightarrow> (\<exists>content. v_token (pt_version p) = rv_token rs content \<and>
     v_length (pt_version p) = Some (length content) \<and> pt_offset p + pt_length p \<le> length content \<and>
     pt_content p = take (pt_length p) (drop (pt_offset p) content))"

definition whole_bytes :: "part list \<Rightarrow> nat" where
  "whole_bytes ps = sum_list (map (\<lambda>p. case v_length (pt_version p) of None \<Rightarrow> 0 | Some n \<Rightarrow> n) ps)"

definition within :: "'w resolver \<Rightarrow> 'w visiting \<Rightarrow> bool" where
  "within rs st \<longleftrightarrow> list_all (part_exact rs) (vs_parts st) \<and> 0 \<le> vs_bytes st \<and> 0 \<le> vs_members st \<and>
     int (whole_bytes (vs_parts st)) + vs_bytes st \<le> int (rv_max_bytes rs) \<and>
     int (length (vs_parts st)) + vs_members st \<le> int (rv_max_members rs)"

lemma slice_exact:
  assumes "extent_ok offset len (length content)"
  shows "nat (the_int offset) + length (slice content offset len) \<le> length content \<and>
    slice content offset len = take (length (slice content offset len)) (drop (nat (the_int offset)) content)"
  using assms by (auto simp: extent_ok_def slice_def Let_def split: json.splits)

lemma make_part_exact:
  assumes "extent_ok offset len (length content)"
  shows "part_exact rs (make_part rs kind locator content (slice content offset len) (nat (the_int offset)) obs)"
  unfolding part_exact_def using slice_exact [OF assms]
  by (intro exI [of _ content]) (simp add: make_part_def)

lemma whole_bytes_make [simp]: "whole_bytes (ps @ [make_part rs kind locator content sel off obs]) = whole_bytes ps + length content"
  by (simp add: whole_bytes_def make_part_def)

lemma make_part_exact_length:
  "extent_ok offset len n \<Longrightarrow> length content = n \<Longrightarrow>
   part_exact rs (make_part rs kind locator content (slice content offset len) (nat (the_int offset)) obs)"
  using make_part_exact by blast

lemma inline_part_within:
  assumes "inline_part rs kind item budget = (r, left)" and "0 \<le> budget"
  shows "0 \<le> left \<and> left \<le> budget \<and> (\<forall>p. r = Inr p \<longrightarrow> part_exact rs p \<and> int (whole_bytes [p]) + left \<le> budget)"
proof -
  have sel: "extent_ok offset len (length content) \<Longrightarrow>
      part_exact rs (selected_part rs kind pointer content call origin offset len)" for pointer content call origin offset len
    unfolding selected_part_def Let_def by (rule make_part_exact)
  have whole: "whole_bytes [selected_part rs kind pointer content call origin offset len] = length content" for pointer content call origin offset len
    by (simp add: whole_bytes_def selected_part_def make_part_def Let_def)
  show ?thesis using assms sel whole
    by (auto simp: inline_part_def Let_def split: if_splits sum.splits)
qed

lemma file_part_within:
  assumes "file_part rs item budget w = (r, left, w')" and "0 \<le> budget"
  shows "0 \<le> left \<and> left \<le> budget \<and> (\<forall>p. r = Inr p \<longrightarrow> part_exact rs p \<and> int (whole_bytes [p]) + left \<le> budget)"
proof -
  have whole: "whole_bytes [make_part rs k l content sel off obs] = length content" for k l content sel off obs
    by (simp add: whole_bytes_def make_part_def)
  show ?thesis using assms make_part_exact_length whole
    by (auto simp: file_part_def Let_def split: if_splits sum.splits prod.splits elim!: read_file_ok)
qed

lemma object_part_exact: "part_exact rs (object_part rs path revision head p)"
  unfolding part_exact_def object_part_def make_part_def by (intro exI [of _ "po_content p"]) simp

lemma whole_bytes_objects:
  "whole_bytes (map (object_part rs path revision head) ps) = parts_bytes ps"
  by (induction ps) (auto simp: whole_bytes_def parts_bytes_def object_part_def make_part_def)

lemma content_objects:
  "sum_list (map (\<lambda>p. length (pt_content p)) (map (object_part rs path revision head) ps)) = parts_bytes ps"
  by (induction ps) (auto simp: parts_bytes_def object_part_def make_part_def)

lemma snapshot_parts_within:
  assumes "snapshot_parts rs item budget members w = (Inr ps, w')" and "0 \<le> budget"
  shows "list_all (part_exact rs) ps \<and> int (whole_bytes ps) \<le> budget \<and> int (length ps) \<le> members \<and>
    sum_list (map (\<lambda>p. length (pt_content p)) ps) = whole_bytes ps"
proof -
  from assms(1) obtain oid qs w1 where q: "snapshot (rv_repo rs) (path_join (rv_root rs) (the_str (dget item ''path'')))
      (dget item ''revision'') budget members w1 = (Inr (oid, qs), w')"
    and ps: "ps = map (object_part rs (the_str (dget item ''path'')) (dget item ''revision'') oid) qs"
    by (auto simp: snapshot_parts_def Let_def split: if_splits sum.splits prod.splits)
  from snapshot_ok [OF q assms(2)] show ?thesis unfolding ps whole_bytes_objects content_objects
    by (auto simp: list_all_iff object_part_exact)
qed

lemma within_want [simp]: "within rs (want k t r st) = within rs st"
  by (simp add: within_def want_def)

lemma within_caught: "caught e st = (x, st') \<Longrightarrow> within rs st' = within rs st"
  by (auto simp: caught_def split: exn.splits)

lemma whole_bytes_append: "whole_bytes (ps @ qs) = whole_bytes ps + whole_bytes qs"
  by (simp add: whole_bytes_def)

text \<open>Every visit spends one member; a leaf adds at most one part, a snapshot what is left.\<close>

lemma visit_leaf_within:
  assumes "visit_leaf rs item st = (e, st')" and "within rs (st\<lparr>vs_members := vs_members st + 1\<rparr>)" and "0 \<le> vs_members st"
  shows "within rs st'"
proof -
  have b: "0 \<le> vs_bytes st" using assms(2) by (simp add: within_def)
  consider (inline_leaf) "dget item ''kind'' \<in> {JStr ''inline'', JStr ''observed'', JStr ''context''}"
    | (file_leaf) "dget item ''kind'' = JStr ''file''" | (snapshot_leaf) "dget item ''kind'' = JStr ''snapshot''"
    | (other_leaf) "dget item ''kind'' \<notin> {JStr ''inline'', JStr ''observed'', JStr ''context'', JStr ''file'', JStr ''snapshot''}"
    by blast
  then show ?thesis
  proof cases
    case inline_leaf
    obtain r left where i: "inline_part rs (the_str (dget item ''kind'')) item (vs_bytes st) = (r, left)" by fastforce
    note w = inline_part_within [OF i b]
    show ?thesis
    proof (cases r)
      case (Inl x)
      with inline_leaf i assms(1) have "caught x (st\<lparr>vs_bytes := left\<rparr>) = (e, st')" by (simp add: visit_leaf_def)
      from within_caught [OF this] w assms(2,3) show ?thesis by (simp add: within_def)
    next
      case (Inr p)
      with inline_leaf i assms(1) have "st' = st\<lparr>vs_bytes := left, vs_parts := vs_parts st @ [p]\<rparr>" by (simp add: visit_leaf_def)
      with w Inr assms(2,3) show ?thesis by (simp add: within_def whole_bytes_append)
    qed
  next
    case file_leaf
    obtain r left w1 where i: "file_part rs item (vs_bytes st) (vs_world st) = (r, left, w1)" by (metis prod_cases3)
    note w = file_part_within [OF i b]
    show ?thesis
    proof (cases r)
      case (Inl x)
      with file_leaf i assms(1) have "caught x (st\<lparr>vs_bytes := left, vs_world := w1\<rparr>) = (e, st')" by (simp add: visit_leaf_def)
      from within_caught [OF this] w assms(2,3) show ?thesis by (simp add: within_def)
    next
      case (Inr p)
      with file_leaf i assms(1) have "st' = st\<lparr>vs_bytes := left, vs_parts := vs_parts st @ [p], vs_world := w1\<rparr>" by (simp add: visit_leaf_def)
      with w Inr assms(2,3) show ?thesis by (simp add: within_def whole_bytes_append)
    qed
  next
    case snapshot_leaf
    obtain r w1 where i: "snapshot_parts rs item (vs_bytes st) (vs_members st) (vs_world st) = (r, w1)" by fastforce
    show ?thesis
    proof (cases r)
      case (Inl x)
      with snapshot_leaf i assms(1) have "caught x (st\<lparr>vs_world := w1\<rparr>) = (e, st')" by (simp add: visit_leaf_def)
      from within_caught [OF this] assms(2,3) show ?thesis by (simp add: within_def)
    next
      case (Inr ps)
      note w = snapshot_parts_within [OF i [unfolded Inr] b]
      from Inr snapshot_leaf i assms(1) have "st' = st\<lparr>vs_parts := vs_parts st @ ps, vs_world := w1,
               vs_bytes := vs_bytes st - int (sum_list (map (\<lambda>p. length (pt_content p)) ps)),
               vs_members := vs_members st - int (length ps)\<rparr>" by (simp add: visit_leaf_def)
      with w assms(2,3) show ?thesis by (simp add: within_def whole_bytes_append)
    qed
  next
    case other_leaf
    with assms show ?thesis by (auto simp: visit_leaf_def within_def want_def)
  qed
qed

lemma fold_visits_within:
  assumes "\<And>m st e st'. f m st = (e, st') \<Longrightarrow> within rs st \<Longrightarrow> within rs st'"
    and "fold (\<lambda>m (e, st). case e of Some x \<Rightarrow> (Some x, st) | None \<Rightarrow> f m st) ms (e0, st0) = (e, st)" and "within rs st0"
  shows "within rs st"
  using assms(2,3)
proof (induction ms arbitrary: e0 st0)
  case (Cons m ms)
  obtain e1 st1 where s: "(case e0 of Some x \<Rightarrow> (Some x, st0) | None \<Rightarrow> f m st0) = (e1, st1)" by fastforce
  have "within rs st1" using s Cons.prems(2) assms(1) by (auto split: option.splits)
  with Cons s show ?case by simp
qed simp

lemma visit_within: "visit rs n item st = (e, st') \<Longrightarrow> within rs st \<Longrightarrow> within rs st'"
proof (induction n arbitrary: item st e st')
  case 0
  then show ?case by (auto simp: visit.simps)
next
  case (Suc n)
  show ?case
  proof (cases "vs_members st \<le> 0")
    case True
    with Suc.prems show ?thesis by (auto simp: visit.simps)
  next
    case False
    let ?st = "st\<lparr>vs_members := vs_members st - 1\<rparr>"
    have w: "within rs ?st" using Suc.prems(2) False by (simp add: within_def)
    show ?thesis
    proof (cases "\<exists>d. item = JObj d \<and> (dget d ''kind'' \<noteq> JStr ''collection'' \<or> collection_ok d)")
      case True
      then obtain d where d: "item = JObj d" and k: "dget d ''kind'' \<noteq> JStr ''collection'' \<or> collection_ok d" by blast
      show ?thesis
      proof (cases "dget d ''kind'' = JStr ''collection''")
        case leaf: False
        with Suc.prems(1) False d have "visit_leaf rs d ?st = (e, st')" by (simp add: visit.simps)
        then show ?thesis by (rule visit_leaf_within) (use Suc.prems(2) False in simp_all)
      next
        case coll: True
        obtain e1 st1 where f: "fold (\<lambda>m (e, st). case e of Some x \<Rightarrow> (Some x, st) | None \<Rightarrow> visit rs n m st)
             (take (rv_max_members rs) (the_arr (dget d ''members''))) (None, ?st) = (e1, st1)" by fastforce
        have "within rs st1" by (rule fold_visits_within [OF Suc.IH f w])
        with Suc.prems(1) False d coll k f show ?thesis by (auto simp: visit.simps Let_def split: option.splits if_splits)
      qed
    next
      case bad: False
      with Suc.prems(1) False obtain x where "caught x ?st = (e, st')"
        by (cases item) (auto simp: visit.simps Let_def)
      with within_caught w show ?thesis by blast
    qed
  qed
qed

section \<open>Complete coverage leaves nothing out\<close>

lemma dget_arr_smaller:
  assumes "x \<in> set (the_arr (dget d k))"
  shows "size x < Suc (size_list (size_prod (\<lambda>x. 0) size) d)"
proof (cases "map_of d k")
  case None
  with assms show ?thesis by (simp add: dget_or_def)
next
  case (Some v)
  with assms have "x \<in> set (the_arr v)" by (simp add: dget_or_def)
  then have "size x < size v" by (cases v) (auto dest: size_json_arr_mem)
  moreover have "(k, v) \<in> set d" using Some by (rule map_of_SomeD)
  ultimately show ?thesis using size_json_obj_mem [of k v d] by simp
qed

text \<open>The items of a target that are not collections.\<close>

function leaves :: "json \<Rightarrow> json list" where
  "leaves item = (case item of
      JObj d \<Rightarrow> if dget d ''kind'' = JStr ''collection'' then concat (map leaves (the_arr (dget d ''members''))) else [item]
    | _ \<Rightarrow> [item])"
  by pat_completeness auto
termination
  by (relation "measure size") (auto dest: dget_arr_smaller)

declare leaves.simps [simp del]

inductive leaf_resolved :: "'w resolver \<Rightarrow> part list \<Rightarrow> json \<Rightarrow> bool" for rs ps where
  leaf_resolved_inline: "dget d ''kind'' \<in> {JStr ''inline'', JStr ''observed'', JStr ''context''} \<Longrightarrow>
    inline_part rs (the_str (dget d ''kind'')) d budget = (Inr p, left) \<Longrightarrow> p \<in> set ps \<Longrightarrow> leaf_resolved rs ps (JObj d)"
| leaf_resolved_file: "dget d ''kind'' = JStr ''file'' \<Longrightarrow>
    file_part rs d budget w = (Inr p, x) \<Longrightarrow> p \<in> set ps \<Longrightarrow> leaf_resolved rs ps (JObj d)"
| leaf_resolved_snapshot: "dget d ''kind'' = JStr ''snapshot'' \<Longrightarrow>
    snapshot_parts rs d budget members w = (Inr qs, w') \<Longrightarrow> set qs \<subseteq> set ps \<Longrightarrow> leaf_resolved rs ps (JObj d)"

lemma leaf_resolved_mono: "leaf_resolved rs ps item \<Longrightarrow> set ps \<subseteq> set qs \<Longrightarrow> leaf_resolved rs qs item"
proof (induction rule: leaf_resolved.induct)
  case (leaf_resolved_inline d budget p left)
  then show ?case by (intro leaf_resolved.leaf_resolved_inline) (assumption, assumption, blast)
next
  case (leaf_resolved_file d budget w p x)
  then show ?case by (intro leaf_resolved.leaf_resolved_file) (assumption, assumption, blast)
next
  case (leaf_resolved_snapshot d budget members w rs' w')
  then show ?case by (intro leaf_resolved.leaf_resolved_snapshot) (assumption, assumption, blast)
qed

lemma caught_grows: "caught e st = (x, st') \<Longrightarrow> vs_parts st' = vs_parts st \<and> prefix (vs_needs st) (vs_needs st') \<and>
    (x = None \<longrightarrow> vs_needs st' \<noteq> [])"
  by (auto simp: caught_def want_def split: exn.splits)

lemma visit_leaf_covers:
  assumes "visit_leaf rs d st = (None, st')" and "vs_needs st' = []"
  shows "vs_needs st = [] \<and> set (vs_parts st) \<subseteq> set (vs_parts st') \<and> leaf_resolved rs (vs_parts st') (JObj d)"
proof -
  have c: False if "caught e st2 = (None, st')" for e st2 using caught_grows [OF that] assms(2) by simp
  consider (inline_leaf) "dget d ''kind'' \<in> {JStr ''inline'', JStr ''observed'', JStr ''context''}"
    | (file_leaf) "dget d ''kind'' = JStr ''file''" | (snapshot_leaf) "dget d ''kind'' = JStr ''snapshot''"
    | (other_leaf) "dget d ''kind'' \<notin> {JStr ''inline'', JStr ''observed'', JStr ''context'', JStr ''file'', JStr ''snapshot''}"
    by blast
  then show ?thesis
  proof cases
    case inline_leaf
    obtain r left where i: "inline_part rs (the_str (dget d ''kind'')) d (vs_bytes st) = (r, left)" by fastforce
    show ?thesis
    proof (cases r)
      case (Inl x)
      with inline_leaf i assms(1) show ?thesis using c by (simp add: visit_leaf_def) metis
    next
      case (Inr p)
      with inline_leaf i assms(1) have st: "st' = st\<lparr>vs_bytes := left, vs_parts := vs_parts st @ [p]\<rparr>" by (simp add: visit_leaf_def)
      then have "leaf_resolved rs (vs_parts st') (JObj d)" by (intro leaf_resolved_inline [OF inline_leaf i [unfolded Inr]]) simp
      with st assms(2) show ?thesis by auto
    qed
  next
    case file_leaf
    obtain r left w1 where i: "file_part rs d (vs_bytes st) (vs_world st) = (r, left, w1)" by (metis prod_cases3)
    show ?thesis
    proof (cases r)
      case (Inl x)
      with file_leaf i assms(1) show ?thesis using c by (simp add: visit_leaf_def) metis
    next
      case (Inr p)
      with file_leaf i assms(1) have st: "st' = st\<lparr>vs_bytes := left, vs_parts := vs_parts st @ [p], vs_world := w1\<rparr>" by (simp add: visit_leaf_def)
      then have "leaf_resolved rs (vs_parts st') (JObj d)" by (intro leaf_resolved_file [OF file_leaf i [unfolded Inr]]) simp
      with st assms(2) show ?thesis by auto
    qed
  next
    case snapshot_leaf
    obtain r w1 where i: "snapshot_parts rs d (vs_bytes st) (vs_members st) (vs_world st) = (r, w1)" by fastforce
    show ?thesis
    proof (cases r)
      case (Inl x)
      with snapshot_leaf i assms(1) show ?thesis using c by (simp add: visit_leaf_def) metis
    next
      case (Inr ps)
      with snapshot_leaf i assms(1) have st: "vs_parts st' = vs_parts st @ ps" "vs_needs st' = vs_needs st"
        by (auto simp: visit_leaf_def)
      then have "leaf_resolved rs (vs_parts st') (JObj d)" by (intro leaf_resolved_snapshot [OF snapshot_leaf i [unfolded Inr]]) simp
      with st assms(2) show ?thesis by auto
    qed
  next
    case other_leaf
    with assms show ?thesis by (auto simp: visit_leaf_def want_def)
  qed
qed

lemma fold_visits_covers:
  assumes "\<And>m st st'. f m st = (None, st') \<Longrightarrow> vs_needs st' = [] \<Longrightarrow>
      vs_needs st = [] \<and> set (vs_parts st) \<subseteq> set (vs_parts st') \<and> (\<forall>l \<in> set (leaves m). leaf_resolved rs (vs_parts st') l)"
    and "fold (\<lambda>m (e, st). case e of Some x \<Rightarrow> (Some x, st) | None \<Rightarrow> f m st) ms (e0, st0) = (None, st)" and "vs_needs st = []"
  shows "e0 = None \<and> vs_needs st0 = [] \<and> set (vs_parts st0) \<subseteq> set (vs_parts st) \<and>
    (\<forall>m \<in> set ms. \<forall>l \<in> set (leaves m). leaf_resolved rs (vs_parts st) l)"
  using assms(2)
proof (induction ms arbitrary: e0 st0)
  case (Cons m ms)
  obtain e1 st1 where s: "(case e0 of Some x \<Rightarrow> (Some x, st0) | None \<Rightarrow> f m st0) = (e1, st1)" by fastforce
  from Cons.IH [of e1 st1] Cons.prems s have i: "e1 = None" "vs_needs st1 = []" "set (vs_parts st1) \<subseteq> set (vs_parts st)"
    "\<forall>m \<in> set ms. \<forall>l \<in> set (leaves m). leaf_resolved rs (vs_parts st) l" by simp_all
  from s i(1) have e: "e0 = None" and f: "f m st0 = (None, st1)" by (auto split: option.splits)
  from assms(1) [OF f i(2)] i e show ?case by (auto intro: leaf_resolved_mono)
qed (use assms(3) in simp)

lemma visit_covers:
  "visit rs n item st = (None, st') \<Longrightarrow> vs_needs st' = [] \<Longrightarrow>
   vs_needs st = [] \<and> set (vs_parts st) \<subseteq> set (vs_parts st') \<and> (\<forall>l \<in> set (leaves item). leaf_resolved rs (vs_parts st') l)"
proof (induction n arbitrary: item st st')
  case 0
  then show ?case by (auto simp: visit.simps want_def)
next
  case (Suc n)
  have pos: "\<not> vs_members st \<le> 0" using Suc.prems by (auto simp: visit.simps want_def)
  let ?st = "st\<lparr>vs_members := vs_members st - 1\<rparr>"
  have c: False if "caught e ?st = (None, st')" for e using caught_grows [OF that] Suc.prems(2) by simp
  obtain d where d: "item = JObj d" using Suc.prems(1) pos c by (cases item) (auto simp: visit.simps Let_def)
  show ?case
  proof (cases "dget d ''kind'' = JStr ''collection''")
    case False
    with Suc.prems(1) pos d have "visit_leaf rs d ?st = (None, st')" by (simp add: visit.simps)
    from visit_leaf_covers [OF this Suc.prems(2)] show ?thesis using d False by (simp add: leaves.simps)
  next
    case True
    let ?ms = "the_arr (dget d ''members'')"
    obtain e1 st1 where f: "fold (\<lambda>m (e, st). case e of Some x \<Rightarrow> (Some x, st) | None \<Rightarrow> visit rs n m st)
         (take (rv_max_members rs) ?ms) (None, ?st) = (e1, st1)" by fastforce
    have ok: "collection_ok d" using Suc.prems(1) pos d True c by (auto simp: visit.simps Let_def split: if_splits)
    with Suc.prems pos d True f have e1: "e1 = None" and all: "\<not> rv_max_members rs < length ?ms" and st: "st' = st1"
      by (auto simp: visit.simps Let_def want_def split: option.splits if_splits)
    from fold_visits_covers [OF Suc.IH f [unfolded e1]] Suc.prems(2) st
    have "vs_needs ?st = []" "set (vs_parts ?st) \<subseteq> set (vs_parts st')"
      "\<forall>m \<in> set (take (rv_max_members rs) ?ms). \<forall>l \<in> set (leaves m). leaf_resolved rs (vs_parts st') l" by auto
    moreover have "take (rv_max_members rs) ?ms = ?ms" using all by simp
    ultimately show ?thesis using d True by (simp add: leaves.simps)
  qed
qed

lemma resolve_visit:
  assumes "resolve rs target doc w = (Inr r, w')"
  obtains st where "visit rs MAX_DEPTH target \<lparr>vs_parts = [], vs_needs = [], vs_bytes = int (rv_max_bytes rs),
      vs_members = int (rv_max_members rs), vs_world = w\<rparr> = (None, st)"
    and "rn_parts r = vs_parts st" and "rn_needs r = vs_needs st" and "rn_coverage r = ''complete'' \<longleftrightarrow> vs_needs st = []"
proof -
  let ?st0 = "\<lparr>vs_parts = [], vs_needs = [], vs_bytes = int (rv_max_bytes rs), vs_members = int (rv_max_members rs), vs_world = w\<rparr>"
  obtain e st where v: "visit rs MAX_DEPTH target ?st0 = (e, st)" by fastforce
  with assms that show thesis by (cases e) (auto simp: resolve_def split: if_splits)
qed

section \<open>Properties\<close>

text \<open>
  C31. A resolution stays within its budgets and hands on exact bytes: the observed contents
  together take no more than the byte budget, there are no more parts than the member
  budget, and every part is precisely the declared slice of a content whose keyed token and
  length are the ones recorded for its version.
\<close>

theorem resolution_is_exact_within_budget:
  assumes "resolve rs target doc w = (Inr r, w')"
  shows "whole_bytes (rn_parts r) \<le> rv_max_bytes rs \<and> length (rn_parts r) \<le> rv_max_members rs \<and>
    list_all (part_exact rs) (rn_parts r)"
proof -
  from assms obtain st where v: "visit rs MAX_DEPTH target \<lparr>vs_parts = [], vs_needs = [], vs_bytes = int (rv_max_bytes rs),
      vs_members = int (rv_max_members rs), vs_world = w\<rparr> = (None, st)" and p: "rn_parts r = vs_parts st"
    by (rule resolve_visit)
  have "within rs st" by (rule visit_within [OF v]) (simp add: within_def whole_bytes_def)
  with p show ?thesis by (auto simp: within_def)
qed

text \<open>
  C27. Complete coverage leaves nothing out: if a resolution reports "complete", every
  declared item, at any depth of the collections, was itself resolved and its bytes are among
  the parts; an unreadable, unsupported, too large or undescribed item never passes as complete.
\<close>

theorem complete_resolution_covers_every_item:
  assumes "resolve rs target doc w = (Inr r, w')" and "rn_coverage r = ''complete''"
    and "item \<in> set (leaves target)"
  shows "rn_needs r = [] \<and> leaf_resolved rs (rn_parts r) item"
proof -
  from assms(1) obtain st where v: "visit rs MAX_DEPTH target \<lparr>vs_parts = [], vs_needs = [], vs_bytes = int (rv_max_bytes rs),
      vs_members = int (rv_max_members rs), vs_world = w\<rparr> = (None, st)"
    and p: "rn_parts r = vs_parts st" "rn_needs r = vs_needs st" and c: "rn_coverage r = ''complete'' \<longleftrightarrow> vs_needs st = []"
    by (rule resolve_visit)
  have n: "vs_needs st = []" using c assms(2) by simp
  from visit_covers [OF v n] p n assms(3) show ?thesis by simp
qed

definition sample_disk :: "unit disk" where
  "sample_disk = \<lparr>dk_open = \<lambda>r w. (Inr 3, w), dk_openat = \<lambda>d n b w. (if n = ''a'' then (Inr 4, w) else (Inl (OSError n), w)),
     dk_fstat = \<lambda>fd w. (Inr \<lparr>st_type = Regular, st_dev = 1, st_ino = 2, st_size = 3, st_mtime = 4, st_ctime = 5\<rparr>, w),
     dk_read = \<lambda>fd n w. (Inr (take n ''xyz''), w),
     dk_lstat = \<lambda>d n w. (Inr \<lparr>st_type = Regular, st_dev = 1, st_ino = 2, st_size = 3, st_mtime = 4, st_ctime = 5\<rparr>, w)\<rparr>"

definition sample_repo :: "unit repo" where
  "sample_repo = \<lparr>rp_run = \<lambda>r a w. (\<lparr>cr_output = [], cr_timeout = False, cr_code = 1\<rparr>, w), rp_local = \<lambda>r w. (False, w),
     rp_partial = \<lambda>r w. (False, w), rp_promisor = \<lambda>r w. (False, w), rp_resolved = \<lambda>r. r\<rparr>"

definition sample_resolver :: "unit resolver" where
  "sample_resolver = \<lparr>rv_scope = ''w'', rv_event_id = ''e'', rv_root = ''/w'', rv_max_bytes = 10, rv_max_members = 4,
     rv_document = [(''tool_input'', JObj [(''command'', JStr ''send it'')])], rv_token = \<lambda>b. b, rv_calls = [],
     rv_context = None, rv_disk = sample_disk, rv_repo = sample_repo, rv_local_dir = \<lambda>r w. (False, w)\<rparr>"

definition sample_target :: json where
  "sample_target = JObj [(''kind'', JStr ''collection''), (''complete'', JBool True), (''members'', JArr
     [JObj [(''kind'', JStr ''inline''), (''pointer'', JStr ''/tool_input/command'')]])]"

theorem resolution_is_exact_within_budget_witness:
  "\<exists>r. fst (resolve sample_resolver sample_target None ()) = Inr r \<and> whole_bytes (rn_parts r) \<le> 10 \<and>
     list_all (part_exact sample_resolver) (rn_parts r)"
proof -
  have "\<not> isl (fst (resolve sample_resolver sample_target None ()))" by code_simp
  then obtain r w' where r: "resolve sample_resolver sample_target None () = (Inr r, w')"
    by (metis isl_def prod.collapse sum.exhaust)
  have "rv_max_bytes sample_resolver = 10" by (simp add: sample_resolver_def)
  with resolution_is_exact_within_budget [OF r] r show ?thesis by auto
qed

theorem complete_resolution_covers_every_item_witness:
  "\<exists>r. fst (resolve sample_resolver sample_target None ()) = Inr r \<and> leaf_resolved sample_resolver (rn_parts r)
     (JObj [(''kind'', JStr ''inline''), (''pointer'', JStr ''/tool_input/command'')])"
proof -
  have c: "(case fst (resolve sample_resolver sample_target None ()) of Inr r \<Rightarrow> rn_coverage r = ''complete'' | _ \<Rightarrow> False)" by code_simp
  then obtain r w' where r: "resolve sample_resolver sample_target None () = (Inr r, w')" and "rn_coverage r = ''complete''"
    by (cases "resolve sample_resolver sample_target None ()") (auto split: sum.splits)
  moreover have "JObj [(''kind'', JStr ''inline''), (''pointer'', JStr ''/tool_input/command'')] \<in> set (leaves sample_target)"
    by (simp add: leaves.simps sample_target_def dget_or_def)
  ultimately show ?thesis using complete_resolution_covers_every_item [OF r] by auto
qed

end
