(* ===== verification/Contracts.thy ===== *)
theory Contracts
  imports Calls Posix_Path
begin

text \<open>
  \<open>engine/contracts.py\<close>: the positive contracts for literal local commands and explicit
  remote operations. A command is split as \<open>shlex.split(command, posix=True)\<close> does;
  backslashes never reach it, so its escape states are not needed.
\<close>

section \<open>Splitting a command\<close>

text \<open>\<open>shlex\<close> with \<open>whitespace_split\<close>: outside a token, inside a word, inside quotes.\<close>

datatype lex_state = Between | Word | Quoted char

definition lex_space :: "char \<Rightarrow> bool" where
  "lex_space c \<longleftrightarrow> (of_char c :: nat) \<in> {32, 9, 13, 10}"

definition lex_quote :: "char \<Rightarrow> bool" where
  "lex_quote c \<longleftrightarrow> (of_char c :: nat) \<in> {34, 39}"

text \<open>
  The token read so far is \<open>acc\<close>; a quoted token may be empty. \<open>None\<close> is the
  \<open>ValueError\<close> of a missing closing quote.
\<close>

fun shlex :: "lex_state \<Rightarrow> string \<Rightarrow> string \<Rightarrow> string list option" where
  "shlex Between acc [] = Some []"
| "shlex Word acc [] = Some [acc]"
| "shlex (Quoted q) acc [] = None"
| "shlex Between acc (c # cs) =
     (if lex_space c then shlex Between [] cs
      else if lex_quote c then shlex (Quoted c) [] cs
      else shlex Word [c] cs)"
| "shlex Word acc (c # cs) =
     (if lex_space c then map_option ((#) acc) (shlex Between [] cs)
      else if lex_quote c then shlex (Quoted c) acc cs
      else shlex Word (acc @ [c]) cs)"
| "shlex (Quoted q) acc (c # cs) =
     (if c = q then shlex Word acc cs else shlex (Quoted q) (acc @ [c]) cs)"

text \<open>A newline, a carriage return, a backslash or one of \<open>;&|<>`$(){}\<close>.\<close>

definition shell_active :: "char \<Rightarrow> bool" where
  "shell_active c \<longleftrightarrow> (of_char c :: nat) \<in> {10, 13, 59, 38, 124, 60, 62, 96, 36, 40, 41, 123, 125, 92}"

definition literal_words :: "json \<Rightarrow> json \<Rightarrow> string list option" where
  "literal_words tool_name tool_input =
     (if tool_name \<noteq> JStr ''Bash'' \<or> \<not> is_obj tool_input then None
      else case dget (the_obj tool_input) ''command'' of
          JStr command \<Rightarrow>
            if 64000 < length command \<or> list_ex shell_active command then None
            else (case shlex Between [] command of None \<Rightarrow> None | Some ws \<Rightarrow> if ws = [] then None else Some ws)
        | _ \<Rightarrow> None)"

section \<open>Contracts\<close>

definition contract :: "string \<Rightarrow> json list \<Rightarrow> string \<Rightarrow> dict" where
  "contract externality resources reason =
     [(''externality'', JStr externality), (''complete'', JBool True), (''resources'', JArr resources), (''reason'', JStr reason)]"

definition local_tools :: "string list" where
  "local_tools = [''pwd'', ''ls'', ''cat'', ''head'', ''tail'', ''wc'']"

definition local_git :: "string list" where
  "local_git = [''status'', ''add'', ''commit'', ''diff'', ''log'', ''show'', ''rev-parse'', ''rev-list'',
     ''branch'', ''reset'', ''ls-files'']"

definition remote_git :: "string list" where
  "remote_git = [''push'', ''fetch'', ''pull'', ''clone'', ''ls-remote'']"

definition read_resource :: "string \<Rightarrow> json" where
  "read_resource path = JObj [(''path'', JStr path), (''mode'', JStr ''read'')]"

definition local_contract :: "json \<Rightarrow> json \<Rightarrow> dict option" where
  "local_contract tool_name tool_input =
     (if tool_name = JStr ''apply_patch'' then Some (contract ''local'' [] ''local_file_edit_contract'')
      else case literal_words tool_name tool_input of
          None \<Rightarrow> None
        | Some ws \<Rightarrow>
            let executable = hd ws; args = tl ws in
            if executable \<in> set local_tools
            then Some (contract ''local''
                   (if executable = ''cat'' \<and> list_all (\<lambda>p. \<not> starts_with ''-'' p) args then map read_resource args else [])
                   ''literal_local_command_contract'')
            else if executable = ''git'' \<and> args \<noteq> [] \<and> hd args \<in> set local_git
            then Some (contract ''local'' [] ''literal_local_command_contract'')
            else None)"

definition communication_contract :: "json \<Rightarrow> json \<Rightarrow> dict option" where
  "communication_contract tool_name tool_input =
     (case local_contract tool_name tool_input of
        Some d \<Rightarrow> Some d
      | None \<Rightarrow>
        (case literal_words tool_name tool_input of
           None \<Rightarrow> None
         | Some ws \<Rightarrow>
             if 1 < length ws \<and> hd ws = ''git'' \<and> ws ! 1 \<in> set remote_git
             then Some (contract ''external'' [] ''explicit_remote_operation_contract'')
             else None))"

definition evidence_requirements :: "json \<Rightarrow> json \<Rightarrow> json list" where
  "evidence_requirements tool_name tool_input =
     (case literal_words tool_name tool_input of
        None \<Rightarrow> []
      | Some ws \<Rightarrow>
          if 1 < length ws \<and> take 2 ws \<in> set [[''git'', ''push''], [''git'', ''fetch''], [''git'', ''pull''], [''git'', ''ls-remote'']]
          then [JObj [(''path'', JStr ''.git/config''), (''reason'', JStr ''resolve named remote configuration'')]]
          else [])"

text \<open>The observations attached to a call: \<open>node.get("resource_observations", [])\<close>.\<close>

definition node_observations :: "call_node \<Rightarrow> dict list" where
  "node_observations c = map the_obj (the_arr (dget_or (JArr []) (c_extra c) ''resource_observations''))"

definition provenance_contract :: "call_node \<Rightarrow> dict option" where
  "provenance_contract c =
     (case literal_words (c_tool c) (c_input c) of
        None \<Rightarrow> None
      | Some ws \<Rightarrow>
          if \<not> c_completed c \<or> length ws \<noteq> 2 \<or> hd ws \<noteq> ''cat'' then None
          else
            let path = ws ! 1 in
            if path = [] \<or> starts_with ''-'' path \<or> starts_with ''/'' path \<or> list_ex (\<lambda>x. x \<in> set ''~*?[]'') path then None
            else if c_resolved c \<noteq> Some (c_root c) then None
            else if normpath path \<noteq> path \<or> starts_with ''../'' path \<or> path = ''..'' then None
            else
              let witnessed = filter (\<lambda>r. dget r ''mode'' = JStr ''read'' \<and> dget r ''status'' = JStr ''observed'') (node_observations c) in
              if length witnessed \<noteq> 1 \<or> dget (hd witnessed) ''path'' \<noteq> JStr path then None
              else if \<not> is_str (c_output c) then None
              else Some [(''externality'', JStr ''local''), (''complete'', JBool True),
                (''reason'', JStr ''witnessed single-file content read''), (''dependencies'', JArr []),
                (''accesses'', JArr [JObj [(''path'', JStr path), (''mode'', JStr ''read''), (''reason'', JStr ''observed file content'')]]),
                (''evidence_requests'', JArr [])])"

section \<open>Splitting undoes joining\<close>

definition plain_char :: "char \<Rightarrow> bool" where
  "plain_char c \<longleftrightarrow> \<not> lex_space c \<and> \<not> lex_quote c \<and> \<not> shell_active c"

definition plain_word :: "string \<Rightarrow> bool" where
  "plain_word w \<longleftrightarrow> w \<noteq> [] \<and> list_all plain_char w"

lemma shlex_word: "list_all plain_char w \<Longrightarrow> shlex Word acc (w @ rest) = shlex Word (acc @ w) rest"
  by (induction w arbitrary: acc) (auto simp: plain_char_def)

lemma shlex_start:
  assumes "plain_word w" shows "shlex Between [] (w @ rest) = shlex Word w rest"
proof -
  obtain c cs where w: "w = c # cs" using assms by (auto simp: plain_word_def neq_Nil_conv)
  then have "plain_char c" "list_all plain_char cs" using assms by (simp_all add: plain_word_def)
  then show ?thesis using shlex_word [of cs "[c]" rest] w by (simp add: plain_char_def)
qed

lemma shlex_join: "list_all plain_word ws \<Longrightarrow> shlex Between [] (join_with '' '' ws) = Some ws"
proof (induction ws)
  case (Cons w ws)
  show ?case
  proof (cases ws)
    case Nil
    then show ?thesis using shlex_start [of w "[]"] Cons.prems by simp
  next
    case (Cons v vs)
    then have "join_with '' '' (w # ws) = w @ CHR '' '' # join_with '' '' ws" by simp
    moreover have "lex_space CHR '' ''" by (simp add: lex_space_def)
    ultimately show ?thesis using shlex_start [of w] Cons.IH Cons.prems by simp
  qed
qed simp

lemma set_join_with: "set (join_with sep ws) \<subseteq> set sep \<union> (\<Union>w \<in> set ws. set w)"
  by (induction sep ws rule: join_with.induct) auto

lemma join_chars:
  assumes "list_all plain_word ws" shows "\<not> list_ex shell_active (join_with '' '' ws)"
proof -
  have "\<not> shell_active c" if "w \<in> set ws" "c \<in> set w" for c w
    using assms that by (auto simp: list_all_iff plain_word_def plain_char_def)
  moreover have "\<not> shell_active CHR '' ''" by (simp add: shell_active_def)
  ultimately show ?thesis using set_join_with [of "'' ''" ws] unfolding list_ex_iff by fastforce
qed

text \<open>A literal command is read back exactly: joining plain words with spaces and splitting
  the command as the contracts do gives the same words, so no word is merged, split or lost
  before it is compared with the contract tables.\<close>

theorem literal_words_roundtrip:
  assumes "list_all plain_word ws" and "ws \<noteq> []" and "length (join_with '' '' ws) \<le> 64000"
  shows "literal_words (JStr ''Bash'') (JObj [(''command'', JStr (join_with '' '' ws))]) = Some ws"
  using assms shlex_join [of ws] join_chars [of ws] by (simp add: literal_words_def dget_or_def)

theorem literal_words_roundtrip_witness:
  "literal_words (JStr ''Bash'') (JObj [(''command'', JStr (join_with '' '' [''git'', ''push'', ''origin'']))])
     = Some [''git'', ''push'', ''origin'']"
  by (rule literal_words_roundtrip) code_simp+

section \<open>What a contract claims\<close>

lemma literal_wordsE:
  assumes "literal_words t i = Some ws"
  obtains d command where "t = JStr ''Bash''" and "i = JObj d" and "dget d ''command'' = JStr command"
    and "\<not> list_ex shell_active command" and "shlex Between [] command = Some ws" and "ws \<noteq> []"
  using assms by (cases i) (auto simp: literal_words_def split: json.splits option.splits if_splits)

text \<open>A communication contract never covers a composed command: when it classifies a shell
  call, the command has no shell operator, expansion or line break, and its first words are an
  entry of the tables. "local" is claimed only for a read-only tool, a local Git operation or the
  host's patch tool; "external" only for the five remote Git operations.\<close>

theorem contract_covers_one_literal_command:
  assumes "communication_contract t i = Some d"
  shows "t = JStr ''apply_patch'' \<and> d = contract ''local'' [] ''local_file_edit_contract'' \<or>
    (\<exists>command ws. dget (the_obj i) ''command'' = JStr command \<and> \<not> list_ex shell_active command \<and> shlex Between [] command = Some ws \<and>
       (if dget d ''externality'' = JStr ''local''
        then hd ws \<in> set local_tools \<or> hd ws = ''git'' \<and> hd (tl ws) \<in> set local_git
        else dget d ''externality'' = JStr ''external'' \<and> hd ws = ''git'' \<and> ws ! 1 \<in> set remote_git))"
proof (cases "t = JStr ''apply_patch''")
  case True
  then show ?thesis using assms by (simp add: communication_contract_def local_contract_def)
next
  case False
  then obtain ws where ws: "literal_words t i = Some ws"
    using assms by (auto simp: communication_contract_def local_contract_def split: option.splits)
  then obtain command where c: "dget (the_obj i) ''command'' = JStr command" "\<not> list_ex shell_active command"
    "shlex Between [] command = Some ws" by (auto elim!: literal_wordsE)
  have e: "dget (contract x rs m) ''externality'' = JStr x" for x rs m by (simp add: contract_def dget_or_def)
  have ne: "JStr ''external'' \<noteq> JStr ''local''" by simp
  have "if dget d ''externality'' = JStr ''local''
        then hd ws \<in> set local_tools \<or> hd ws = ''git'' \<and> hd (tl ws) \<in> set local_git
        else dget d ''externality'' = JStr ''external'' \<and> hd ws = ''git'' \<and> ws ! 1 \<in> set remote_git"
  proof (cases "local_contract t i")
    case (Some x)
    then have "hd ws \<in> set local_tools \<or> hd ws = ''git'' \<and> hd (tl ws) \<in> set local_git"
      unfolding local_contract_def if_not_P [OF False] ws option.case Let_def by (rule contrapos_pp) auto
    moreover have "\<exists>rs m. x = contract ''local'' rs m"
      using Some unfolding local_contract_def if_not_P [OF False] ws option.case Let_def
      by (metis (no_types) option.distinct(1) option.inject)
    then have "dget x ''externality'' = JStr ''local''" using e by blast
    moreover have "x = d" using assms Some by (simp add: communication_contract_def)
    ultimately show ?thesis by simp
  next
    case None
    then have "d = contract ''external'' [] ''explicit_remote_operation_contract''" "hd ws = ''git''" "ws ! 1 \<in> set remote_git"
      using assms unfolding communication_contract_def None ws option.case by (metis option.distinct(1) option.inject)+
    then show ?thesis using e ne by simp
  qed
  with c show ?thesis by blast
qed

theorem contract_covers_one_literal_command_witness:
  "\<exists>d. communication_contract (JStr ''Bash'') (JObj [(''command'', JStr ''git push origin'')]) = Some d \<and>
     dget d ''externality'' = JStr ''external'' \<and>
     (\<exists>command ws. dget (the_obj (JObj [(''command'', JStr ''git push origin'')])) ''command'' = JStr command \<and>
        \<not> list_ex shell_active command \<and> shlex Between [] command = Some ws \<and> ws ! 1 \<in> set remote_git)"
proof -
  have c: "communication_contract (JStr ''Bash'') (JObj [(''command'', JStr ''git push origin'')])
      = Some (contract ''external'' [] ''explicit_remote_operation_contract'')" by code_simp
  have "dget (contract ''external'' [] ''explicit_remote_operation_contract'') ''externality'' = JStr ''external''" by code_simp
  with contract_covers_one_literal_command [OF c] c show ?thesis by auto
qed

text \<open>A provenance contract is granted only to a completed literal cat command of one relative,
  normal path inside the workspace whose read was observed by the controller, with a plain text
  output; it claims exactly that read and no dependency.\<close>

theorem provenance_contract_is_one_witnessed_read:
  assumes "provenance_contract c = Some v"
  shows "\<exists>path r. literal_words (c_tool c) (c_input c) = Some [''cat'', path] \<and> c_completed c \<and> is_str (c_output c) \<and>
    c_resolved c = Some (c_root c) \<and> \<not> is_absolute path \<and> normpath path = path \<and> \<not> starts_with ''../'' path \<and> path \<noteq> ''..'' \<and>
    r \<in> set (node_observations c) \<and> dget r ''path'' = JStr path \<and> dget r ''mode'' = JStr ''read'' \<and> dget r ''status'' = JStr ''observed'' \<and>
    dget v ''dependencies'' = JArr [] \<and>
    dget v ''accesses'' = JArr [JObj [(''path'', JStr path), (''mode'', JStr ''read''), (''reason'', JStr ''observed file content'')]]"
proof -
  from assms obtain ws where ws: "literal_words (c_tool c) (c_input c) = Some ws"
    by (auto simp: provenance_contract_def split: option.splits)
  let ?w = "filter (\<lambda>r. dget r ''mode'' = JStr ''read'' \<and> dget r ''status'' = JStr ''observed'') (node_observations c)"
  note d = assms [unfolded provenance_contract_def ws option.case Let_def]
  from d have g: "c_completed c" "length ws = 2" "hd ws = ''cat''" "ws ! 1 \<noteq> []" "\<not> starts_with ''/'' (ws ! 1)"
    "c_resolved c = Some (c_root c)" "normpath (ws ! 1) = ws ! 1" "\<not> starts_with ''../'' (ws ! 1)" "ws ! 1 \<noteq> ''..''"
    "length ?w = 1" "dget (hd ?w) ''path'' = JStr (ws ! 1)" "is_str (c_output c)"
    by (auto split: if_splits)
  from d have v: "v = [(''externality'', JStr ''local''), (''complete'', JBool True),
                (''reason'', JStr ''witnessed single-file content read''), (''dependencies'', JArr []),
                (''accesses'', JArr [JObj [(''path'', JStr (ws ! 1)), (''mode'', JStr ''read''), (''reason'', JStr ''observed file content'')]]),
                (''evidence_requests'', JArr [])]" by (simp split: if_splits)
  have two: "ws = [''cat'', ws ! 1]" using g(2,3) by (cases ws; cases "tl ws") auto
  have hd: "hd ?w \<in> set ?w" using g(10) by (intro hd_in_set) auto
  have "\<not> is_absolute (ws ! 1)" using g(4,5) by (cases "ws ! 1") (auto simp: is_absolute_def starts_with_def slash_def)
  moreover have "dget v ''dependencies'' = JArr []" by (simp add: v dget_or_def)
  moreover have "dget v ''accesses'' = JArr [JObj [(''path'', JStr (ws ! 1)), (''mode'', JStr ''read''), (''reason'', JStr ''observed file content'')]]"
    by (simp add: v dget_or_def)
  ultimately show ?thesis using g hd ws two by (intro exI [of _ "ws ! 1"] exI [of _ "hd ?w"]) auto
qed

definition sample_cat :: call_node where
  "sample_cat = \<lparr>c_node = ''n'', c_event = ''e'', c_tool = JStr ''Bash'', c_input = JObj [(''command'', JStr ''cat notes.txt'')],
     c_cwd = JStr ''/w'', c_root = ''/w'', c_resolved = Some ''/w'', c_output = JStr ''text'', c_completed = True,
     c_observation = ''paired'', c_definitions = JObj [], c_catalog = JNull,
     c_extra = [(''resource_observations'', JArr [JObj [(''path'', JStr ''notes.txt''), (''mode'', JStr ''read''), (''status'', JStr ''observed'')]])]\<rparr>"

theorem provenance_contract_is_one_witnessed_read_witness:
  "\<exists>v path. provenance_contract sample_cat = Some v \<and>
     literal_words (c_tool sample_cat) (c_input sample_cat) = Some [''cat'', path] \<and> \<not> is_absolute path \<and> normpath path = path"
proof -
  have "provenance_contract sample_cat \<noteq> None" by code_simp
  then obtain v where v: "provenance_contract sample_cat = Some v" by blast
  from provenance_contract_is_one_witnessed_read [OF v] v show ?thesis by blast
qed

end
