(* ===== verification/Context.thy ===== *)
theory Context
  imports Repository Contracts Requirements
begin

text \<open>
  \<open>engine/invocation_context.py\<close> and \<open>engine/config_snapshot.py\<close>: the observed facts
  of a \<open>git push\<close>, and the evaluation of Git includes on copies the controller owns. Git,
  the clock and the file system are environment steps.
\<close>

type_synonym setting = "string \<times> string \<times> string option"
type_synonym environ = "(string \<times> string) list"

text \<open>
  \<open>cx_config root env\<close> runs \<open>git config --no-includes --get-regexp\<close> in the repository,
  \<open>cx_config_file path env\<close> the same on one file, and \<open>cx_native files wrapper env\<close>
  \<open>git config --includes\<close> on the staged files. \<open>cx_expired\<close> is the ten-second deadline.
\<close>

record 'w config_env =
  cx_environ :: environ
  cx_home :: string
  cx_resolve :: "string \<Rightarrow> 'w \<Rightarrow> string res \<times> 'w"
  cx_metadata :: "string \<Rightarrow> 'w \<Rightarrow> bool \<times> 'w"
  cx_config :: "string \<Rightarrow> environ \<Rightarrow> 'w \<Rightarrow> child_run \<times> 'w"
  cx_config_file :: "string \<Rightarrow> environ \<Rightarrow> 'w \<Rightarrow> child_run \<times> 'w"
  cx_native :: "(string \<times> string) list \<Rightarrow> string \<Rightarrow> environ \<Rightarrow> 'w \<Rightarrow> child_run \<times> 'w"
  cx_exists :: "string \<Rightarrow> 'w \<Rightarrow> bool \<times> 'w"
  cx_is_file :: "string \<Rightarrow> 'w \<Rightarrow> bool \<times> 'w"
  cx_expanduser :: "string \<Rightarrow> 'w \<Rightarrow> string res \<times> 'w"
  cx_expired :: "'w \<Rightarrow> bool \<times> 'w"
  cx_temp :: string
  cx_disk :: "'w disk"

section \<open>The rows Git prints\<close>

text \<open>\<open>row.partition('\n')\<close>: a row without a line end has no value.\<close>

definition partition_row :: "string \<Rightarrow> string \<times> string option" where
  "partition_row row =
     (let key = takeWhile (\<lambda>c. c \<noteq> newline) row
      in (key, if newline \<in> set row then Some (drop (length key + 1) row) else None))"

fun pair_rows :: "bytes list \<Rightarrow> setting list res" where
  "pair_rows (o1 # r # fs) =
     (case (utf8_decode o1, utf8_decode r) of
        (Some origin, Some row) \<Rightarrow>
          (case pair_rows fs of
             Inl x \<Rightarrow> Inl x
           | Inr rs \<Rightarrow> let (key, v) = partition_row row in Inr ((origin, key, v) # rs))
      | _ \<Rightarrow> Inl (UnicodeError ''invalid utf-8''))"
| "pair_rows fs = Inr []"

definition rows :: "bytes \<Rightarrow> setting list res" where
  "rows raw =
     (let fields = split_on nul raw in
      if last fields \<noteq> [] \<or> odd (length fields - 1) then Inl (ValueError ''context_config_output_invalid'')
      else pair_rows (butlast fields))"

section \<open>Writing a configuration file\<close>

definition quote_char :: "char \<Rightarrow> string" where
  "quote_char c = (let n = (of_char c :: nat); bs = char_of (92::nat) in
     if n = 92 then [bs, bs] else if n = 34 then [bs, c] else if n = 10 then [bs, CHR ''n'']
     else if n = 9 then [bs, CHR ''t''] else if n = 8 then [bs, CHR ''b''] else [c])"

definition quote :: "string \<Rightarrow> string" where
  "quote v = [char_of (34::nat)] @ concat (map quote_char v) @ [char_of (34::nat)]"

text \<open>\<open>key.rsplit('.', 1)\<close>, then \<open>parent.partition('.')\<close>.\<close>

definition rsplit_dot :: "string \<Rightarrow> (string \<times> string) option" where
  "rsplit_dot key =
     (if CHR ''.'' \<in> set key
      then let name = rev (takeWhile (\<lambda>c. c \<noteq> CHR ''.'') (rev key)) in Some (take (length key - length name - 1) key, name)
      else None)"

definition entry :: "string \<Rightarrow> string option \<Rightarrow> string res" where
  "entry key v =
     (case rsplit_dot key of
        None \<Rightarrow> Inl (ValueError ''not enough values to unpack'')
      | Some (parent, name) \<Rightarrow>
          let sec = takeWhile (\<lambda>c. c \<noteq> CHR ''.'') parent;
              header = sec @ (if CHR ''.'' \<in> set parent then '' '' @ quote (drop (length sec + 1) parent) else [])
          in Inr (''['' @ header @ '']'' @ [newline] @ name @
               (case v of None \<Rightarrow> [] | Some x \<Rightarrow> '' = '' @ quote x) @ [newline]))"

section \<open>Staging the includes\<close>

definition include_key :: "string \<Rightarrow> bool" where
  "include_key key \<longleftrightarrow> starts_with ''include.'' (lower key) \<or> starts_with ''includeif.'' (lower key)"

text \<open>\<open>originals\<close>, \<open>staged\<close>, the files written, and the bytes still allowed.\<close>

record 'w staging =
  sg_originals :: "(string \<times> string) list"
  sg_staged :: "(string \<times> string) list"
  sg_files :: "(string \<times> string) list"
  sg_budget :: int
  sg_world :: 'w

definition allocate :: "'w config_env \<Rightarrow> string \<Rightarrow> 'w staging \<Rightarrow> string res \<times> 'w staging" where
  "allocate e origin st =
     (if 64 \<le> length (sg_originals st) then (Inl (ValueError ''context_include_budget''), st)
      else let (late, w) = cx_expired e (sg_world st); st = st\<lparr>sg_world := w\<rparr> in
           if late then (Inl (ValueError ''context_include_budget''), st)
           else let target = path_join (cx_temp e) (show_nat (length (sg_originals st)))
                in (Inr target, st\<lparr>sg_originals := dict_set target origin (sg_originals st)\<rparr>))"

definition write_file :: "string \<Rightarrow> string \<Rightarrow> 'w staging \<Rightarrow> 'w staging" where
  "write_file target content st = st\<lparr>sg_files := dict_set target content (sg_files st)\<rparr>"

definition file_origin :: "string \<Rightarrow> bool" where
  "file_origin origin \<longleftrightarrow> starts_with ''file:'' origin"

definition pp_parent :: "string \<Rightarrow> string" where
  "pp_parent p = (let out = pp_root p @ join_with ''/'' (butlast (pp_comps p)) in if out = [] then ''.'' else out)"

definition origin_parent :: "string \<Rightarrow> string \<Rightarrow> string" where
  "origin_parent root origin =
     (let parent = (if file_origin origin then pp_parent (drop 5 origin) else root)
      in if is_absolute parent then parent else path_join root parent)"

text \<open>\<open>./\<close> in a \<open>gitdir\<close> condition is relative to the original file.\<close>

definition rebase_condition :: "string \<Rightarrow> string \<Rightarrow> string" where
  "rebase_condition parent key =
     (case find (\<lambda>p. starts_with p (lower key)) [''includeif.gitdir:./'', ''includeif.gitdir/i:./''] of
        None \<Rightarrow> key
      | Some p \<Rightarrow> take (length p - 2) key @ parent @ ''/'' @ drop (length p) key)"

definition clean_env :: "environ \<Rightarrow> environ" where
  "clean_env env = dict_set ''GIT_CONFIG_GLOBAL'' ''/dev/null'' (dict_set ''GIT_CONFIG_NOSYSTEM'' ''1''
     (filter (\<lambda>(k, v). \<not> starts_with ''GIT_CONFIG'' k) env))"

text \<open>The path an include names, before it is loaded.\<close>

definition include_path :: "'w config_env \<Rightarrow> string \<Rightarrow> string \<Rightarrow> string option \<Rightarrow> string \<Rightarrow> 'w \<Rightarrow> string res \<times> 'w" where
  "include_path e origin key v parent w =
     (case v of
        None \<Rightarrow> (Inl (ValueError ''context_include_path_unsupported''), w)
      | Some p \<Rightarrow>
          if p = [] \<or> \<not> suffix ''.path'' (lower key) \<or> sublist ''%('' p then (Inl (ValueError ''context_include_path_unsupported''), w)
          else (case cx_expanduser e p w of
              (Inl x, w) \<Rightarrow> (Inl x, w)
            | (Inr path, w) \<Rightarrow>
                if is_absolute path then (Inr (pp_str path), w)
                else if \<not> file_origin origin then (Inl (ValueError ''context_relative_include_without_file''), w)
                else (Inr (path_join parent path), w)))"

text \<open>
  \<open>render\<close> and \<open>load\<close>: each nested load allocates a new file, and 64 may be
  allocated, so the fuel 65 is never used up.
\<close>

fun render_rows :: "'w config_env \<Rightarrow> string \<Rightarrow> (string \<Rightarrow> 'w staging \<Rightarrow> string res \<times> 'w staging) \<Rightarrow> setting list \<Rightarrow> string list
    \<Rightarrow> 'w staging \<Rightarrow> string list res \<times> 'w staging" where
  "render_rows e root ld [] acc st = (Inr acc, st)"
| "render_rows e root ld ((origin, key, v) # rs) acc st =
     (if \<not> include_key key
      then (case entry key v of Inl x \<Rightarrow> (Inl x, st) | Inr line \<Rightarrow> render_rows e root ld rs (acc @ [line]) st)
      else let parent = origin_parent root origin in
        case include_path e origin key v parent (sg_world st) of
          (Inl x, w) \<Rightarrow> (Inl x, st\<lparr>sg_world := w\<rparr>)
        | (Inr path, w) \<Rightarrow>
          (case ld path (st\<lparr>sg_world := w\<rparr>) of
             (Inl x, st) \<Rightarrow> (Inl x, st)
           | (Inr target, st) \<Rightarrow>
             (case entry (rebase_condition parent key) (Some target) of
                Inl x \<Rightarrow> (Inl x, st)
              | Inr line \<Rightarrow> render_rows e root ld rs (acc @ [line]) st)))"

definition render :: "'w config_env \<Rightarrow> string \<Rightarrow> (string \<Rightarrow> 'w staging \<Rightarrow> string res \<times> 'w staging) \<Rightarrow> setting list \<Rightarrow> string
    \<Rightarrow> 'w staging \<Rightarrow> unit res \<times> 'w staging" where
  "render e root ld vals target st =
     (case render_rows e root ld vals [] st of
        (Inl x, st) \<Rightarrow> (Inl x, st)
      | (Inr lines, st) \<Rightarrow> (Inr (), write_file target (concat lines) st))"

definition control_path :: "'w config_env \<Rightarrow> string \<Rightarrow> 'w \<Rightarrow> bool res \<times> 'w" where
  "control_path e path w =
     (if pp_name path = CONTROL_FILE then (Inr True, w)
      else case cx_resolve e path w of (Inl x, w) \<Rightarrow> (Inl x, w) | (Inr r, w) \<Rightarrow> (Inr (pp_name r = CONTROL_FILE), w))"

definition stage_forbidden :: "'w config_env \<Rightarrow> 'w staging \<Rightarrow> string res \<times> 'w staging" where
  "stage_forbidden e st =
     (case allocate e ''forbidden-control-state'' st of
        (Inl x, st) \<Rightarrow> (Inl x, st)
      | (Inr target, st) \<Rightarrow>
        (case entry ''tooluseproxy.snapshotblocked'' (Some ''context_control_state_forbidden'') of
           Inl x \<Rightarrow> (Inl x, st)
         | Inr content \<Rightarrow> (Inr target, write_file target content st)))"

fun load :: "'w config_env \<Rightarrow> string \<Rightarrow> environ \<Rightarrow> nat \<Rightarrow> string \<Rightarrow> 'w staging \<Rightarrow> string res \<times> 'w staging" where
  "load e root env 0 path st = (Inl (OtherError ''fuel''), st)"
| "load e root env (Suc n) path st =
     (case control_path e path (sg_world st) of
        (Inl x, w) \<Rightarrow> (Inl x, st\<lparr>sg_world := w\<rparr>)
      | (Inr forbidden, w) \<Rightarrow>
          if forbidden then stage_forbidden e (st\<lparr>sg_world := w\<rparr>)
          else (case cx_resolve e path w of
              (Inl x, w) \<Rightarrow> (Inl x, st\<lparr>sg_world := w\<rparr>)
            | (Inr path, w) \<Rightarrow>
              (case map_of (sg_staged st) path of
                 Some target \<Rightarrow> (Inr target, st\<lparr>sg_world := w\<rparr>)
               | None \<Rightarrow>
                 (case allocate e (''file:'' @ path) (st\<lparr>sg_world := w\<rparr>) of
                    (Inl x, st) \<Rightarrow> (Inl x, st)
                  | (Inr target, st) \<Rightarrow>
                    let st = st\<lparr>sg_staged := dict_set path target (sg_staged st)\<rparr>;
                        (there, w) = cx_exists e path (sg_world st) in
                    if \<not> there then (Inr target, write_file target [] (st\<lparr>sg_world := w\<rparr>))
                    else let (plain, w) = cx_is_file e path w in
                      if \<not> plain then (Inl (ValueError ''context_include_not_file''), st\<lparr>sg_world := w\<rparr>)
                      else let (run, w) = cx_config_file e path (clean_env env) w in
                        case bounded_read (nat (min 64000 (sg_budget st))) [0, 1] run of
                          Inl x \<Rightarrow> (Inl x, st\<lparr>sg_world := w\<rparr>)
                        | Inr raw \<Rightarrow>
                          let st = st\<lparr>sg_world := w, sg_budget := sg_budget st - int (length raw)\<rparr> in
                          if sg_budget st \<le> 0 then (Inl (ValueError ''context_include_budget''), st)
                          else (case rows raw of
                              Inl x \<Rightarrow> (Inl x, st)
                            | Inr rs \<Rightarrow>
                              (case render e root (load e root env n) rs target st of
                                 (Inl x, st) \<Rightarrow> (Inl x, st)
                               | (Inr u, st) \<Rightarrow> (Inr target, st)))))))"

text \<open>Consecutive rows of one origin form a chunk.\<close>

fun chunks :: "setting list \<Rightarrow> setting list list" where
  "chunks [] = []"
| "chunks (r # rs) =
     (case chunks rs of
        [] \<Rightarrow> [[r]]
      | c # cs \<Rightarrow> if fst (hd c) = fst r then (r # c) # cs else [r] # c # cs)"

definition FUEL :: nat where "FUEL = 65"

fun stage_chunks :: "'w config_env \<Rightarrow> string \<Rightarrow> environ \<Rightarrow> setting list list \<Rightarrow> string list \<Rightarrow> 'w staging \<Rightarrow> string list res \<times> 'w staging" where
  "stage_chunks e root env [] acc st = (Inr acc, st)"
| "stage_chunks e root env (c # cs) acc st =
     (case allocate e (fst (hd c)) st of
        (Inl x, st) \<Rightarrow> (Inl x, st)
      | (Inr target, st) \<Rightarrow>
        (case render e root (load e root env FUEL) c target st of
           (Inl x, st) \<Rightarrow> (Inl x, st)
         | (Inr u, st) \<Rightarrow>
           (case entry ''include.path'' (Some target) of
              Inl x \<Rightarrow> (Inl x, st)
            | Inr line \<Rightarrow> stage_chunks e root env cs (acc @ [line]) st)))"

definition original_origin :: "(string \<times> string) list \<Rightarrow> string \<Rightarrow> string" where
  "original_origin originals origin =
     (if file_origin origin then (case map_of originals (drop 5 origin) of Some x \<Rightarrow> x | None \<Rightarrow> origin) else origin)"

definition blocked :: "setting list \<Rightarrow> setting option" where
  "blocked observed = find (\<lambda>(origin, key, v). key = ''tooluseproxy.snapshotblocked'') observed"

definition expand :: "'w config_env \<Rightarrow> setting list \<Rightarrow> string \<Rightarrow> environ \<Rightarrow> 'w \<Rightarrow> setting list res \<times> 'w" where
  "expand e initial root env w =
     (if \<not> list_ex (\<lambda>(origin, key, v). include_key key) initial then (Inr initial, w)
      else case stage_chunks e root env (chunks initial) []
          \<lparr>sg_originals = [], sg_staged = [], sg_files = [], sg_budget = 256000, sg_world = w\<rparr> of
        (Inl x, st) \<Rightarrow> (Inl x, sg_world st)
      | (Inr parts, st) \<Rightarrow>
          let wrapper = path_join (cx_temp e) ''root'';
              (run, w) = cx_native e (dict_set wrapper (concat parts) (sg_files st)) wrapper (clean_env env) (sg_world st)
          in case bounded_read 64000 [0, 1] run of
              Inl x \<Rightarrow> (Inl x, w)
            | Inr raw \<Rightarrow>
              (case rows raw of
                 Inl x \<Rightarrow> (Inl x, w)
               | Inr observed \<Rightarrow>
                 (case blocked observed of
                    Some (origin, key, v) \<Rightarrow> (Inl (ValueError (case v of Some x \<Rightarrow> x | None \<Rightarrow> ''None'')), w)
                  | None \<Rightarrow>
                      (Inr (map (\<lambda>(origin, key, v). (original_origin (sg_originals st) origin, key, v))
                         (filter (\<lambda>(origin, key, v). \<not> include_key key) observed)), w))))"

section \<open>The facts of an invocation\<close>

definition kept_variables :: "string list" where
  "kept_variables = [''PATH'', ''HOME'', ''LANG'', ''TMPDIR'', ''SYSTEMROOT'', ''XDG_CONFIG_HOME'', ''GIT_CONFIG_GLOBAL'',
     ''GIT_CONFIG_SYSTEM'', ''GIT_CONFIG_NOSYSTEM'', ''GIT_CONFIG_COUNT'', ''GIT_CONFIG_PARAMETERS'']"

definition git_environ :: "environ \<Rightarrow> environ" where
  "git_environ env = filter (\<lambda>(k, v). k \<in> set kept_variables \<or> starts_with ''GIT_CONFIG_KEY_'' k \<or> starts_with ''GIT_CONFIG_VALUE_'' k) env"

definition env_get :: "environ \<Rightarrow> string \<Rightarrow> string \<Rightarrow> string" where
  "env_get env k d = (case map_of env k of Some v \<Rightarrow> v | None \<Rightarrow> d)"

definition redirected :: "environ \<Rightarrow> bool" where
  "redirected env \<longleftrightarrow> list_ex (\<lambda>k. env_get env k [] \<noteq> []) [''GIT_DIR'', ''GIT_WORK_TREE'', ''GIT_COMMON_DIR'', ''GIT_CONFIG'']"

definition config_paths :: "'w config_env \<Rightarrow> string \<Rightarrow> environ \<Rightarrow> string list" where
  "config_paths e root env =
     (let home = pp_str (env_get env ''HOME'' (cx_home e)) in
      [path_join root ''.git/config'', path_join root ''.git/config.worktree'', path_join home ''.gitconfig'',
       path_join (pp_str (env_get env ''XDG_CONFIG_HOME'' (path_join home ''.config''))) ''git/config'',
       pp_str (env_get env ''GIT_CONFIG_GLOBAL'' ''/dev/null''), pp_str (env_get env ''GIT_CONFIG_SYSTEM'' ''/etc/gitconfig'')])"

fun any_control :: "'w config_env \<Rightarrow> string list \<Rightarrow> 'w \<Rightarrow> bool res \<times> 'w" where
  "any_control e [] w = (Inr False, w)"
| "any_control e (p # ps) w =
     (case control_path e p w of
        (Inl x, w) \<Rightarrow> (Inl x, w)
      | (Inr b, w) \<Rightarrow> if b then (Inr True, w) else any_control e ps w)"

definition opt_value :: "string option \<Rightarrow> json" where
  "opt_value v = (case v of None \<Rightarrow> JNull | Some x \<Rightarrow> JStr x)"

fun collect_settings :: "'w config_env \<Rightarrow> string \<Rightarrow> setting list \<Rightarrow> json list \<Rightarrow> dict \<Rightarrow> 'w \<Rightarrow> (json list \<times> dict) res \<times> 'w" where
  "collect_settings e root [] acc origins w = (Inr (acc, origins), w)"
| "collect_settings e root ((origin, key, v) # rs) acc origins w =
     (let item = JObj [(''key'', JStr key), (''value'', opt_value v)] in
      if \<not> file_origin origin then collect_settings e root rs (acc @ [item]) origins w
      else let path = pp_str (drop 5 origin) in
        case cx_resolve e (if is_absolute path then path else path_join root path) w of
          (Inl x, w) \<Rightarrow> (Inl x, w)
        | (Inr path, w) \<Rightarrow>
            if pp_name path = CONTROL_FILE then (Inl (ValueError ''context_control_state_forbidden''), w)
            else collect_settings e root rs (acc @ [item])
              (dict_set (''/invocation_context/facts/settings/'' @ show_nat (length acc) @ ''/value'')
                 (JObj [(''path'', JStr path), (''projection'', JObj [(''kind'', JStr ''git_config_value''), (''key'', JStr key), (''value'', opt_value v)])])
                 origins) w)"

definition hex_char :: "char \<Rightarrow> bool" where
  "hex_char c \<longleftrightarrow> c \<in> set ''0123456789abcdef''"

definition head_branch :: "string \<Rightarrow> string option res" where
  "head_branch head =
     (if 4096 < length head then Inl (ValueError ''context_head_budget'')
      else if starts_with ''ref: refs/heads/'' head then Inr (Some (drop 5 head))
      else if (length head = 40 \<or> length head = 64) \<and> list_all hex_char head then Inr None
      else Inl (ValueError ''context_head_unsupported''))"

definition read_head :: "'w config_env \<Rightarrow> string \<Rightarrow> 'w \<Rightarrow> string option res \<times> 'w" where
  "read_head e root w =
     (case open_resource (cx_disk e) root (JStr ''.git/HEAD'') w of
        (Inl x, w) \<Rightarrow> (Inl x, w)
      | (Inr (fd, dir, name), w) \<Rightarrow>
        (case dk_read (cx_disk e) fd 4097 w of
           (Inl x, w) \<Rightarrow> (Inl x, w)
         | (Inr raw, w) \<Rightarrow>
           (case utf8_decode raw of
              None \<Rightarrow> (Inl (UnicodeError ''invalid utf-8''), w)
            | Some text \<Rightarrow> (head_branch (strip text), w))))"

definition facts :: "string \<Rightarrow> json list \<Rightarrow> string option \<Rightarrow> dict \<Rightarrow> dict" where
  "facts root settings branch origins =
     [(''settings'', JArr settings), (''head_ref'', opt_value branch),
      (''origins'', JObj (dict_set ''/invocation_context/facts/head_ref''
         (JObj [(''path'', JStr (path_join root ''.git/HEAD'')), (''projection'', JObj [(''kind'', JStr ''git_head_ref''), (''value'', opt_value branch)])])
         origins)),
      (''settings_scope'', JStr ''system, global, local, worktree and inherited command configuration; ordered, duplicates retained''),
      (''absent_settings'', JStr ''not configured in the observed scopes; standard Git defaults apply'')]"

definition git_settings :: "'w config_env \<Rightarrow> string \<Rightarrow> environ \<Rightarrow> 'w \<Rightarrow> (json list \<times> dict) res \<times> 'w" where
  "git_settings e root env w =
     (let (run, w) = cx_config e root env w in
      case bounded_read 64000 [0, 1] run of
        Inl x \<Rightarrow> (Inl x, w)
      | Inr raw \<Rightarrow>
        (case rows raw of
           Inl x \<Rightarrow> (Inl x, w)
         | Inr initial \<Rightarrow>
           (case expand e initial root env w of
              (Inl x, w) \<Rightarrow> (Inl x, w)
            | (Inr vals, w) \<Rightarrow> collect_settings e root vals [] [] w)))"

definition git_facts :: "'w config_env \<Rightarrow> json \<Rightarrow> 'w \<Rightarrow> dict res \<times> 'w" where
  "git_facts e cwd w =
     (case cwd of
        JStr c \<Rightarrow>
          let root = pp_str c; env = git_environ (cx_environ e) in
          if \<not> is_absolute root then (Inl (ValueError ''context_cwd_not_canonical''), w)
          else (case cx_resolve e root w of
              (Inl x, w) \<Rightarrow> (Inl x, w)
            | (Inr resolved, w) \<Rightarrow>
              if resolved \<noteq> root then (Inl (ValueError ''context_cwd_not_canonical''), w)
              else if redirected (cx_environ e) then (Inl (ValueError ''context_repository_environment_unsupported''), w)
              else (case any_control e (config_paths e root env) w of
                  (Inl x, w) \<Rightarrow> (Inl x, w)
                | (Inr forbidden, w) \<Rightarrow>
                  if forbidden then (Inl (ValueError ''context_control_state_forbidden''), w)
                  else let (plain, w) = cx_metadata e root w in
                    if \<not> plain then (Inl (ValueError ''context_repository_metadata_unsupported''), w)
                    else (case git_settings e root env w of
                        (Inl x, w) \<Rightarrow> (Inl x, w)
                      | (Inr (settings, origins), w) \<Rightarrow>
                        (case read_head e root w of
                           (Inl x, w) \<Rightarrow> (Inl x, w)
                         | (Inr branch, w) \<Rightarrow> (Inr (facts root settings branch origins), w)))))
      | _ \<Rightarrow> (Inl (TypeError ''expected str''), w))"

section \<open>The receipt\<close>

definition invocation_binding :: "hash \<Rightarrow> dict \<Rightarrow> string" where
  "invocation_binding H records =
     digest H (JObj (map (\<lambda>k. (k, dget records k)) [''tool_name'', ''tool_input'', ''resolved_cwd'', ''workspace_root'']))"

definition context_receipt :: "hash \<Rightarrow> dict \<Rightarrow> string \<Rightarrow> dict \<Rightarrow> dict" where
  "context_receipt H records status fs =
     [(''contract'', JStr ''invocation-context-v3''), (''adapter'', JStr ''git-push-config-v1''),
      (''binding'', JStr (invocation_binding H records)), (''status'', JStr status), (''facts'', JObj fs),
      (''boundary'', JStr ''Hook environment; hidden shell startup changes are not observed'')]"

definition is_push :: "dict \<Rightarrow> bool" where
  "is_push records \<longleftrightarrow> (case literal_words (dget records ''tool_name'') (dget records ''tool_input'') of
      None \<Rightarrow> False | Some ws \<Rightarrow> take 2 ws = [''git'', ''push''])"

definition observe_context :: "hash \<Rightarrow> 'w config_env \<Rightarrow> dict \<Rightarrow> 'w \<Rightarrow> dict option res \<times> 'w" where
  "observe_context H e records w =
     (if \<not> is_push records then (Inr None, w)
      else case git_facts e (dget records ''resolved_cwd'') w of
          (Inr fs, w) \<Rightarrow> (Inr (Some (context_receipt H records ''observed'' fs)), w)
        | (Inl x, w) \<Rightarrow>
            if is_value_error x \<or> is_os_error x
            then (Inr (Some (dict_set ''reason'' (JStr (if is_value_error x then exn_text x else exn_class x))
                    (context_receipt H records ''unavailable'' []))), w)
            else (Inl x, w))"

definition context_unchanged :: "hash \<Rightarrow> 'w config_env \<Rightarrow> dict \<Rightarrow> 'w \<Rightarrow> bool res \<times> 'w" where
  "context_unchanged H e records w =
     (case dget records ''invocation_context'' of
        JNull \<Rightarrow> (Inr True, w)
      | prior \<Rightarrow>
          if dget (the_obj prior) ''status'' \<noteq> JStr ''observed'' then (Inr False, w)
          else (case observe_context H e records w of
              (Inl x, w) \<Rightarrow> (Inl x, w)
            | (Inr fresh, w) \<Rightarrow> (Inr (case fresh of None \<Rightarrow> False | Some d \<Rightarrow> py_eq (JObj d) prior), w)))"

section \<open>The rows are read back as Git wrote them\<close>

definition row_bytes :: "setting \<Rightarrow> bytes" where
  "row_bytes r = (case r of (origin, key, v) \<Rightarrow>
     utf8 origin @ [nul] @ utf8 (key @ (case v of None \<Rightarrow> [] | Some x \<Rightarrow> newline # x)) @ [nul])"

definition clean_row :: "setting \<Rightarrow> bool" where
  "clean_row r \<longleftrightarrow> (case r of (origin, key, v) \<Rightarrow>
     nul \<notin> set origin \<and> nul \<notin> set key \<and> newline \<notin> set key \<and> (case v of None \<Rightarrow> True | Some x \<Rightarrow> nul \<notin> set x))"

lemma utf8_nul: "nul \<notin> set s \<Longrightarrow> nul \<notin> set (utf8 s)"
proof (induction s)
  case (Cons c s)
  have "(of_char c :: nat) div 64 < 4" using nat_of_char_less_256 [of c] by linarith
  then have "nul \<notin> set (utf8_char c)" using Cons.prems by (auto simp: utf8_char_def Let_def char_of_eq_iff)
  moreover have "utf8 (c # s) = utf8_char c @ utf8 s" by (simp add: utf8_def)
  ultimately show ?case using Cons by simp
qed (simp add: utf8_def)

lemma split_row:
  assumes "nul \<notin> set a" and "nul \<notin> set b"
  shows "split_on nul (a @ [nul] @ b @ [nul] @ rest) = a # b # split_on nul rest"
  using assms by (simp add: split_on_append split_on_plain)

lemma partition_row_join:
  "newline \<notin> set key \<Longrightarrow> partition_row (key @ (case v of None \<Rightarrow> [] | Some x \<Rightarrow> newline # x)) = (key, v)"
proof (cases v)
  case None
  assume "newline \<notin> set key"
  then have "takeWhile (\<lambda>c. c \<noteq> newline) key = key" by (auto simp: takeWhile_eq_all_conv)
  then show ?thesis using None \<open>newline \<notin> set key\<close> by (simp add: partition_row_def Let_def)
next
  case (Some x)
  assume "newline \<notin> set key"
  then have "takeWhile (\<lambda>c. c \<noteq> newline) (key @ newline # x) = key" by (subst takeWhile_append2) auto
  then show ?thesis using Some by (simp add: partition_row_def Let_def)
qed

lemma split_rows:
  assumes "list_all clean_row rs"
  shows "\<exists>fs. split_on nul (concat (map row_bytes rs)) = fs @ [[]] \<and> length fs = 2 * length rs \<and> pair_rows fs = Inr rs"
  using assms
proof (induction rs)
  case (Cons r rs)
  obtain origin key v where r: "r = (origin, key, v)" by (metis prod_cases3)
  let ?row = "key @ (case v of None \<Rightarrow> [] | Some x \<Rightarrow> newline # x)"
  from Cons obtain fs where fs: "split_on nul (concat (map row_bytes rs)) = fs @ [[]]" "length fs = 2 * length rs" "pair_rows fs = Inr rs"
    by auto
  have c: "nul \<notin> set origin" "nul \<notin> set ?row" "newline \<notin> set key"
    using Cons.prems r by (auto simp: clean_row_def split: option.splits)
  have "split_on nul (concat (map row_bytes (r # rs))) = utf8 origin # utf8 ?row # (fs @ [[]])"
    using split_row [OF utf8_nul [OF c(1)] utf8_nul [OF c(2)]] fs(1) by (simp add: r row_bytes_def)
  moreover have "pair_rows (utf8 origin # utf8 ?row # fs) = Inr (r # rs)"
    using fs(3) partition_row_join [OF c(3), of v] by (simp add: r Let_def)
  ultimately show ?case using fs(2) by (intro exI [of _ "utf8 origin # utf8 ?row # fs"]) simp
qed simp

text \<open>The settings Git reports are read back exactly: for every list of rows whose origin, key
  and value hold no NUL and whose key holds no line end, reading the NUL-separated output gives
  the same rows, in order, duplicates kept, and a row without a value stays without one.\<close>

theorem config_rows_roundtrip:
  assumes "list_all clean_row rs"
  shows "rows (concat (map row_bytes rs)) = Inr rs"
proof -
  from split_rows [OF assms] obtain fs where "split_on nul (concat (map row_bytes rs)) = fs @ [[]]"
    "length fs = 2 * length rs" "pair_rows fs = Inr rs" by blast
  then show ?thesis by (simp add: rows_def Let_def)
qed

theorem config_rows_roundtrip_witness:
  "rows (concat (map row_bytes [(''file:.git/config'', ''remote.origin.url'', Some ''git@h:r.git''), (''file:.git/config'', ''push.x'', None)]))
     = Inr [(''file:.git/config'', ''remote.origin.url'', Some ''git@h:r.git''), (''file:.git/config'', ''push.x'', None)]"
  by (rule config_rows_roundtrip) code_simp

section \<open>The facts never name the control file\<close>

definition origins_clean :: "dict \<Rightarrow> bool" where
  "origins_clean d \<longleftrightarrow> (\<forall>(k, v) \<in> set d. pp_name (the_str (dget (the_obj v) ''path'')) \<noteq> CONTROL_FILE)"

lemma origins_clean_set:
  assumes "origins_clean d" and "pp_name path \<noteq> CONTROL_FILE"
  shows "origins_clean (dict_set k (JObj ((''path'', JStr path) # fs)) d)"
  using assms set_dict_set_subset [of k "JObj ((''path'', JStr path) # fs)" d]
  unfolding origins_clean_def by (fastforce simp: dget_or_def)

lemma collect_settings_clean:
  "collect_settings e root rs acc origins w = (Inr (out, origins'), w') \<Longrightarrow> origins_clean origins \<Longrightarrow> origins_clean origins'"
proof (induction e root rs acc origins w rule: collect_settings.induct)
  case (2 e root origin key v rs acc origins w)
  show ?case
  proof (cases "file_origin origin")
    case False
    with 2 show ?thesis by (simp add: Let_def)
  next
    case True
    let ?p = "pp_str (drop 5 origin)"
    obtain r w1 where r: "cx_resolve e (if is_absolute ?p then ?p else path_join root ?p) w = (r, w1)" by fastforce
    show ?thesis
    proof (cases r)
      case (Inl x)
      with "2.prems" True r show ?thesis by (simp add: Let_def)
    next
      case (Inr path)
      then have "pp_name path \<noteq> CONTROL_FILE" using "2.prems" True r by (auto simp: Let_def split: if_splits)
      with "2.IH"(2) "2.prems" True r Inr origins_clean_set show ?thesis by (simp add: Let_def)
    qed
  qed
qed simp

lemma head_name: "pp_name (path_join root ''.git/HEAD'') = ''HEAD''"
proof -
  have "pp_comps (root @ slash # ''.git/HEAD'') = pp_comps root @ [''.git'', ''HEAD'']"
    by (simp add: pp_comps_def split_on_append slash_def)
  then show ?thesis by (simp add: path_join_def is_absolute_def starts_with_def pp_name_def pp_comps_str slash_def)
qed

text \<open>The facts of an invocation are taken from ordinary configuration: when they are observed,
  the working directory was canonical, Git was not redirected by the environment, and no origin
  the facts name is the control file.\<close>

theorem context_names_no_control_state:
  assumes "git_facts e cwd w = (Inr fs, w')"
  shows "is_str cwd \<and> is_absolute (pp_str (the_str cwd)) \<and> \<not> redirected (cx_environ e) \<and>
    origins_clean (the_obj (dget fs ''origins''))"
proof -
  from assms obtain c where c: "cwd = JStr c" by (cases cwd) (auto simp: git_facts_def)
  let ?root = "pp_str c" and ?env = "git_environ (cx_environ e)"
  from assms obtain settings origins branch w1 w2 where g: "git_settings e ?root ?env w1 = (Inr (settings, origins), w2)"
    and fs: "fs = facts ?root settings branch origins" and a: "is_absolute ?root" "\<not> redirected (cx_environ e)"
    unfolding git_facts_def c json.case Let_def by (auto split: prod.splits sum.splits if_splits)
  from g obtain vals w3 where "collect_settings e ?root vals [] [] w3 = (Inr (settings, origins), w2)"
    unfolding git_settings_def Let_def by (auto split: prod.splits sum.splits)
  then have "origins_clean origins" by (rule collect_settings_clean) (simp add: origins_clean_def)
  then have "origins_clean (the_obj (dget fs ''origins''))"
    unfolding fs facts_def by (simp add: dget_or_def origins_clean_set head_name CONTROL_FILE_def)
  with a c show ?thesis by simp
qed

definition sample_config :: "unit config_env" where
  "sample_config = \<lparr>cx_environ = [], cx_home = ''/home/u'', cx_resolve = (\<lambda>p w. (Inr p, w)), cx_metadata = (\<lambda>p w. (True, w)),
     cx_config = (\<lambda>r env w. (\<lparr>cr_output = row_bytes (''file:.git/config'', ''remote.origin.url'', Some ''u''), cr_timeout = False, cr_code = 0\<rparr>, w)),
     cx_config_file = (\<lambda>r env w. (\<lparr>cr_output = [], cr_timeout = False, cr_code = 0\<rparr>, w)),
     cx_native = (\<lambda>f r env w. (\<lparr>cr_output = [], cr_timeout = False, cr_code = 0\<rparr>, w)),
     cx_exists = (\<lambda>p w. (True, w)), cx_is_file = (\<lambda>p w. (True, w)), cx_expanduser = (\<lambda>p w. (Inr p, w)), cx_expired = (\<lambda>w. (False, w)),
     cx_temp = ''/tmp/t'', cx_disk = (ev_disk sample_env)\<lparr>dk_read := (\<lambda>fd n w. (Inr ''ref: refs/heads/main'', w))\<rparr>\<rparr>"

theorem context_names_no_control_state_witness:
  "\<exists>fs. git_facts sample_config (JStr ''/w'') () = (Inr fs, ()) \<and> origins_clean (the_obj (dget fs ''origins''))"
proof -
  have "\<not> isl (fst (git_facts sample_config (JStr ''/w'') ()))" by code_simp
  moreover obtain r where g: "git_facts sample_config (JStr ''/w'') () = (r, ())" by (metis prod.exhaust old.unit.exhaust)
  ultimately obtain fs where fs: "r = Inr fs" by (cases r) auto
  show ?thesis using context_names_no_control_state [OF g [unfolded fs]] g fs by simp
qed

section \<open>An include is resolved twice\<close>

text \<open>
  \<open>load\<close> refuses the control file by resolving the path, and then resolves it again to
  read it: if a link is replaced in between, the second resolution can name the control file.
\<close>

definition racing_config :: "nat config_env" where
  "racing_config = \<lparr>cx_environ = [], cx_home = ''/home/u'',
     cx_resolve = (\<lambda>p n. (Inr (if n = 0 then ''/w/extra'' else ''/w/protected_sources.json''), Suc n)), cx_metadata = (\<lambda>p w. (True, w)),
     cx_config = (\<lambda>r env w. (\<lparr>cr_output = [], cr_timeout = False, cr_code = 0\<rparr>, w)),
     cx_config_file = (\<lambda>r env w. (\<lparr>cr_output = [], cr_timeout = False, cr_code = 0\<rparr>, w)),
     cx_native = (\<lambda>f r env w. (\<lparr>cr_output = [], cr_timeout = False, cr_code = 0\<rparr>, w)),
     cx_exists = (\<lambda>p w. (True, w)), cx_is_file = (\<lambda>p w. (True, w)), cx_expanduser = (\<lambda>p w. (Inr p, w)), cx_expired = (\<lambda>w. (False, w)),
     cx_temp = ''/tmp/t'', cx_disk = \<lparr>dk_open = (\<lambda>p w. (Inr 3, w)), dk_openat = (\<lambda>d n dir w. (Inr 4, w)),
       dk_fstat = (\<lambda>fd w. (Inl (OSError ''EIO''), w)), dk_read = (\<lambda>fd n w. (Inr [], w)), dk_lstat = (\<lambda>d n w. (Inl (OSError ''EIO''), w))\<rparr>\<rparr>"

lemma include_check_can_race:
  "(case load racing_config ''/w'' [] FUEL ''/w/extra''
      \<lparr>sg_originals = [], sg_staged = [], sg_files = [], sg_budget = 256000, sg_world = 0\<rparr> of
      (Inr target, st) \<Rightarrow> map fst (sg_staged st) = [''/w/protected_sources.json''] | _ \<Rightarrow> False)"
  by code_simp

end
