(* ===== verification/Freshness.thy ===== *)
theory Freshness
  imports Payload Context
begin

text \<open>
  \<open>engine/payload.py\<close>, \<open>PayloadResolver.unchanged\<close>: before a decision is used, the
  invocation context, the definitions that were shown to the judge, the commits and the files of
  the resolution are observed again.
\<close>

definition receipt_fresh :: "hash \<Rightarrow> 'w evidence_env \<Rightarrow> dict \<Rightarrow> dict \<Rightarrow> 'w \<Rightarrow> bool res \<times> 'w" where
  "receipt_fresh H e context r w =
     (if \<not> status_observed r then (Inr True, w)
      else case acquire H e context ENTRIES [request_for r] BUDGET w of
          (Inl x, w) \<Rightarrow> (Inl x, w)
        | (Inr fresh, w) \<Rightarrow>
            (Inr (status_observed (hd fresh) \<and> dget (hd fresh) ''sha256'' = dget r ''sha256''), w))"

fun receipts_fresh :: "hash \<Rightarrow> 'w evidence_env \<Rightarrow> dict \<Rightarrow> dict list \<Rightarrow> 'w \<Rightarrow> bool res \<times> 'w" where
  "receipts_fresh H e context [] w = (Inr True, w)"
| "receipts_fresh H e context (r # rs) w =
     (case receipt_fresh H e context r w of
        (Inl x, w) \<Rightarrow> (Inl x, w)
      | (Inr ok, w) \<Rightarrow> if ok then receipts_fresh H e context rs w else (Inr False, w))"

definition same_commit :: "'w resolver \<Rightarrow> dict \<Rightarrow> 'w \<Rightarrow> bool res \<times> 'w" where
  "same_commit rs obs w =
     (case git_read (rv_repo rs) (path_join (rv_root rs) (the_str (dget obs ''repository'')))
          [''rev-parse'', ''--verify'', the_str (dget obs ''revision'') @ ''^{commit}''] GIT_LIMIT w of
        (Inl x, w) \<Rightarrow> (if is_value_error x \<or> is_os_error x then Inr False else Inl x, w)
      | (Inr out, w) \<Rightarrow> (Inr (JStr (strip out) = dget obs ''head''), w))"

fun is_resolution_error :: "exn \<Rightarrow> bool" where
  "is_resolution_error (ResolutionError m) = True"
| "is_resolution_error e = False"

definition same_file :: "'w resolver \<Rightarrow> string \<Rightarrow> json \<Rightarrow> 'w \<Rightarrow> bool res \<times> 'w" where
  "same_file rs path stamp w =
     (case resource_stamp (rv_disk rs) (rv_root rs) (JStr path) w of
        (Inl x, w) \<Rightarrow> (if is_os_error x \<or> is_resolution_error x then Inr False else Inl x, w)
      | (Inr now, w) \<Rightarrow> (Inr (fingerprint_json now = stamp), w))"

definition part_unchanged :: "'w resolver \<Rightarrow> part \<Rightarrow> 'w \<Rightarrow> bool res \<times> 'w" where
  "part_unchanged rs p w =
     (if r_kind (v_resource (pt_version p)) = ''repository_object'' then same_commit rs (pt_observation p) w
      else if r_kind (v_resource (pt_version p)) \<noteq> ''file'' then (Inr True, w)
      else same_file rs (r_locator (v_resource (pt_version p))) (dget (pt_observation p) ''fingerprint'') w)"

fun parts_unchanged :: "'w resolver \<Rightarrow> part list \<Rightarrow> 'w \<Rightarrow> bool res \<times> 'w" where
  "parts_unchanged rs [] w = (Inr True, w)"
| "parts_unchanged rs (p # ps) w =
     (case part_unchanged rs p w of
        (Inl x, w) \<Rightarrow> (Inl x, w)
      | (Inr ok, w) \<Rightarrow> if ok then parts_unchanged rs ps w else (Inr False, w))"

definition context_fresh :: "hash \<Rightarrow> 'w evidence_env \<Rightarrow> 'w config_env \<Rightarrow> dict \<Rightarrow> 'w \<Rightarrow> bool res \<times> 'w" where
  "context_fresh H e c context w =
     (case context_unchanged H c context w of
        (Inl x, w) \<Rightarrow> (Inl x, w)
      | (Inr ok, w) \<Rightarrow>
          if \<not> ok then (Inr False, w)
          else receipts_fresh H e context (map the_obj (the_arr (dget_or (JArr []) context ''execution_definitions''))) w)"

definition unchanged :: "hash \<Rightarrow> 'w evidence_env \<Rightarrow> 'w config_env \<Rightarrow> 'w resolver \<Rightarrow> resolution \<Rightarrow> 'w \<Rightarrow> bool res \<times> 'w" where
  "unchanged H e c rs rn w =
     (case (case rv_context rs of None \<Rightarrow> (Inr True, w) | Some context \<Rightarrow> context_fresh H e c context w) of
        (Inl x, w) \<Rightarrow> (Inl x, w)
      | (Inr ok, w) \<Rightarrow> if ok then parts_unchanged rs (rn_parts rn) w else (Inr False, w))"

section \<open>What an unchanged resolution means\<close>

text \<open>Some world the check passed through observed the same stamp or the same commit.\<close>

definition reobserved :: "'w resolver \<Rightarrow> part \<Rightarrow> bool" where
  "reobserved rs p \<longleftrightarrow>
     (r_kind (v_resource (pt_version p)) = ''file'' \<longrightarrow>
        (\<exists>w stamp w'. resource_stamp (rv_disk rs) (rv_root rs) (JStr (r_locator (v_resource (pt_version p)))) w = (Inr stamp, w') \<and>
           fingerprint_json stamp = dget (pt_observation p) ''fingerprint'')) \<and>
     (r_kind (v_resource (pt_version p)) = ''repository_object'' \<longrightarrow>
        (\<exists>w out w'. git_read (rv_repo rs) (path_join (rv_root rs) (the_str (dget (pt_observation p) ''repository'')))
             [''rev-parse'', ''--verify'', the_str (dget (pt_observation p) ''revision'') @ ''^{commit}''] GIT_LIMIT w = (Inr out, w') \<and>
           JStr (strip out) = dget (pt_observation p) ''head''))"

lemma part_unchanged_reobserved: "part_unchanged rs p w = (Inr True, w') \<Longrightarrow> reobserved rs p"
  unfolding part_unchanged_def reobserved_def same_commit_def same_file_def
  by (auto split: if_splits prod.splits sum.splits)

lemma parts_unchanged_reobserved: "parts_unchanged rs ps w = (Inr True, w') \<Longrightarrow> p \<in> set ps \<Longrightarrow> reobserved rs p"
  by (induction rs ps w rule: parts_unchanged.induct)
    (auto split: prod.splits sum.splits if_splits intro: part_unchanged_reobserved)

lemma unchanged_parts:
  assumes "unchanged H e c rs rn w = (Inr True, w')" and "p \<in> set (rn_parts rn)"
  shows "reobserved rs p"
  using assms by (auto simp: unchanged_def split: prod.splits sum.splits if_splits intro: parts_unchanged_reobserved)

text \<open>A resolution counts as unchanged only if every file of it was stamped again with the
  fingerprint recorded when its bytes were read, every repository object's revision resolved again
  to the same commit, and the observed invocation context was observed again with the same facts.\<close>

theorem unchanged_means_reobserved:
  assumes "unchanged H e c rs rn w = (Inr True, w')"
  shows "(\<forall>p \<in> set (rn_parts rn). reobserved rs p) \<and>
    (\<forall>context prior. rv_context rs = Some context \<longrightarrow> dget context ''invocation_context'' = JObj prior \<longrightarrow>
       dget prior ''status'' = JStr ''observed'' \<and>
       (\<exists>w1 fresh w2. observe_context H c context w1 = (Inr (Some fresh), w2) \<and> py_eq (JObj fresh) (JObj prior)))"
proof (intro conjI allI ballI impI)
  show "reobserved rs p" if "p \<in> set (rn_parts rn)" for p
    using assms that by (rule unchanged_parts)
next
  fix ctx prior
  assume c: "rv_context rs = Some ctx" "dget ctx ''invocation_context'' = JObj prior"
  have "\<exists>w2. context_fresh H e c ctx w = (Inr True, w2)"
    using assms c by (auto simp: unchanged_def split: prod.splits sum.splits if_splits)
  then obtain w2 where f: "context_fresh H e c ctx w = (Inr True, w2)" by blast
  then obtain w3 where u: "context_unchanged H c ctx w = (Inr True, w3)"
    by (auto simp: context_fresh_def split: prod.splits sum.splits if_splits)
  then show "dget prior ''status'' = JStr ''observed''"
    using c by (auto simp: context_unchanged_def split: if_splits)
  show "\<exists>w1 fresh w2. observe_context H c ctx w1 = (Inr (Some fresh), w2) \<and> py_eq (JObj fresh) (JObj prior)"
    using u c by (auto simp: context_unchanged_def split: if_splits prod.splits sum.splits option.splits)
qed

definition sample_file :: resolution where
  "sample_file = \<lparr>rn_parts = [\<lparr>pt_version = \<lparr>v_resource = \<lparr>r_scope = ''ws'', r_kind = ''file'', r_locator = ''tool.py''\<rparr>,
       v_token = ''t'', v_event = ''e'', v_length = Some 4\<rparr>, pt_content = ''pass'', pt_offset = 0, pt_length = 4,
       pt_observation = [(''fingerprint'', fingerprint_json [1, 2, 4, 5, 6])]\<rparr>], rn_needs = [], rn_coverage = ''complete''\<rparr>"

theorem unchanged_means_reobserved_witness:
  "unchanged (\<lambda>b. b) sample_env sample_config (sample_resolver\<lparr>rv_disk := ev_disk sample_env\<rparr>) sample_file () = (Inr True, ()) \<and>
     reobserved (sample_resolver\<lparr>rv_disk := ev_disk sample_env\<rparr>) (hd (rn_parts sample_file))"
proof -
  have u: "unchanged (\<lambda>b. b) sample_env sample_config (sample_resolver\<lparr>rv_disk := ev_disk sample_env\<rparr>) sample_file () = (Inr True, ())"
    by code_simp
  have "hd (rn_parts sample_file) \<in> set (rn_parts sample_file)" by (simp add: sample_file_def)
  with unchanged_means_reobserved [OF u, THEN conjunct1] u show ?thesis by blast
qed

end
