(* ===== verification/Lineage.thy ===== *)
theory Lineage
  imports Freshness
begin

text \<open>
  \<open>engine/lineage.py\<close>: the observations that link sessions through witnessed generations of
  a file. A declared access of a ToolCall is stamped before and after it ran; a later read with
  the same version and stamp as an observed write has that write as a producer. The record
  \<open>lineage\<close> holds the tables \<open>flow_operation_plans\<close>, \<open>flow_file_observations\<close> and
  \<open>flow_immutable_reads\<close>; a stamp column holds the JSON value itself.
\<close>

record plan_row =
  pl_scope :: string
  pl_session :: string
  pl_call :: string
  pl_event :: string
  pl_resources :: "(string \<times> string) list"

record file_row =
  fo_id :: nat
  fo_scope :: string
  fo_event :: string
  fo_path :: string
  fo_version :: string
  fo_mode :: string
  fo_status :: string
  fo_stamp :: json

record read_row =
  ir_scope :: string
  ir_event :: string
  ir_path :: string
  ir_version :: string

record lineage =
  ln_plans :: "plan_row list"
  ln_files :: "file_row list"
  ln_reads :: "read_row list"

text \<open>The database: the ledger, the lineage tables, the scope keys and the journal's events.\<close>

record store =
  sr_ledger :: ledger
  sr_lineage :: lineage
  sr_keys :: "(string \<times> bytes) list"

definition file_key :: "file_row \<Rightarrow> string \<times> string \<times> string \<times> string \<times> string \<times> json" where
  "file_key r = (fo_scope r, fo_event r, fo_path r, fo_mode r, fo_version r, fo_stamp r)"

definition next_observation :: "file_row list \<Rightarrow> nat" where
  "next_observation t = foldr (\<lambda>r n. max (fo_id r) n) t 0 + 1"

definition add_file :: "string \<Rightarrow> string \<Rightarrow> string \<Rightarrow> string \<Rightarrow> string \<Rightarrow> string \<Rightarrow> json \<Rightarrow> lineage \<Rightarrow> lineage" where
  "add_file scope event path version mode status stamp db =
     db\<lparr>ln_files := ins_ignore file_key \<lparr>fo_id = next_observation (ln_files db), fo_scope = scope, fo_event = event,
        fo_path = path, fo_version = version, fo_mode = mode, fo_status = status, fo_stamp = stamp\<rparr> (ln_files db)\<rparr>"

definition on_lineage :: "(lineage \<Rightarrow> lineage) \<Rightarrow> store \<Rightarrow> store" where
  "on_lineage f s = s\<lparr>sr_lineage := f (sr_lineage s)\<rparr>"

definition on_ledger :: "(ledger \<Rightarrow> 'a \<times> ledger) \<Rightarrow> store \<Rightarrow> 'a \<times> store" where
  "on_ledger f s = (let (r, l) = f (sr_ledger s) in (r, s\<lparr>sr_ledger := l\<rparr>))"

section \<open>Declared accesses\<close>

text \<open>The declared resources that are well formed, with canonical paths; the rest is dropped.\<close>

definition declared_access :: "json \<Rightarrow> (json \<times> string) option" where
  "declared_access item =
     (case item of
        JObj d \<Rightarrow>
          if keys_are [''path'', ''mode''] d \<and> (dget d ''mode'' = JStr ''read'' \<or> dget d ''mode'' = JStr ''write'')
          then Some (dget d ''path'', the_str (dget d ''mode'')) else None
      | _ \<Rightarrow> None)"

fun normalize_accesses :: "'w evidence_env \<Rightarrow> string \<Rightarrow> json list \<Rightarrow> 'w \<Rightarrow> (string \<times> string) list res \<times> 'w" where
  "normalize_accesses e root [] w = (Inr [], w)"
| "normalize_accesses e root (item # items) w =
     (case declared_access item of
        None \<Rightarrow> normalize_accesses e root items w
      | Some (path, mode) \<Rightarrow>
          (case resource_identity e path root w of
             (Inl x, w) \<Rightarrow> if is_value_error x \<or> is_os_error x then normalize_accesses e root items w else (Inl x, w)
           | (Inr p, w) \<Rightarrow>
               (case normalize_accesses e root items w of
                  (Inl x, w) \<Rightarrow> (Inl x, w)
                | (Inr ps, w) \<Rightarrow> (Inr ((p, mode) # ps), w))))"

definition failed_response :: "dict \<Rightarrow> bool" where
  "failed_response payload \<longleftrightarrow> dget payload ''is_error'' = JBool True \<or>
     (case dget payload ''tool_response'' of
        JObj d \<Rightarrow> dget d ''is_error'' = JBool True \<or> dget_or (JInt 0) d ''exit_code'' \<notin> {JInt 0, JBool False, JNull}
      | _ \<Rightarrow> False)"

text \<open>
  The resources of the ToolCall and the event of its plan: recorded before the call, looked up
  after it. \<open>None\<close> is the early return.
\<close>

definition plan_resources :: "'w evidence_env \<Rightarrow> event_row \<Rightarrow> json list \<Rightarrow> store \<Rightarrow> 'w
    \<Rightarrow> (string \<times> (string \<times> string) list) option res \<times> store \<times> 'w" where
  "plan_resources e ev resources s w =
     (let scope = er_workspace ev in
      if er_phase ev = ''pre_tool_use'' then
        (case normalize_accesses e (er_root ev) (take 64 resources) w of
           (Inl x, w) \<Rightarrow> (Inl x, s, w)
         | (Inr items, w) \<Rightarrow>
           (case (er_session ev, er_tool_use ev) of
              (Some sess, Some call) \<Rightarrow>
                (Inr (Some (er_event ev, items)), on_lineage (\<lambda>db. db\<lparr>ln_plans :=
                   ins_ignore (\<lambda>r. (pl_scope r, pl_session r, pl_call r))
                     \<lparr>pl_scope = scope, pl_session = sess, pl_call = call, pl_event = er_event ev, pl_resources = items\<rparr> (ln_plans db)\<rparr>) s, w)
            | _ \<Rightarrow> (Inl (SqliteError ''IntegrityError''), s, w)))
      else
        (case find (\<lambda>r. pl_scope r = scope \<and> Some (pl_session r) = er_session ev \<and> Some (pl_call r) = er_tool_use ev) (ln_plans (sr_lineage s)) of
           None \<Rightarrow> (Inr None, s, w)
         | Some p \<Rightarrow> (Inr (if failed_response (er_payload ev) then None else Some (pl_event p, pl_resources p)), s, w)))"

section \<open>Stamping the accesses\<close>

text \<open>\<open>'w snapshot_env\<close>: what the constructor of the resolver and the ledger need.\<close>

record 'w snapshot_env =
  se_hash :: hash
  se_events :: "event_row list"
  se_evidence :: "'w evidence_env"

definition is_external :: "string \<Rightarrow> bool" where
  "is_external path \<longleftrightarrow> starts_with ''/'' path"

text \<open>The content that is tokenised, its stamp, and the bytes left.\<close>

definition observe_access :: "'w snapshot_env \<Rightarrow> 'w resolver \<Rightarrow> string \<Rightarrow> int \<Rightarrow> 'w \<Rightarrow> (bytes \<times> json \<times> int) res \<times> 'w" where
  "observe_access se rs path budget w =
     (if is_external path then
        (case external_generation (se_evidence se) path w of
           (Inl x, w) \<Rightarrow> (Inl x, w)
         | (Inr fp, w) \<Rightarrow>
             (Inr (''metadata-generation:'' @ dumps True False (fingerprint_json fp), fingerprint_json fp, budget), w))
      else
        (case read_file (rv_disk rs) (rv_root rs) (rv_event_id rs) (JStr path) budget w of
           (Inl x, w) \<Rightarrow> (Inl x, w)
         | (Inr (content, obs, left), w) \<Rightarrow> (Inr (content, dget obs ''fingerprint'', left), w)))"

text \<open>\<open>ORDER BY observation DESC LIMIT 1\<close>.\<close>

definition latest_file :: "(file_row \<Rightarrow> bool) \<Rightarrow> file_row list \<Rightarrow> file_row option" where
  "latest_file P t = (case rev (sort_key fo_id (filter P t)) of [] \<Rightarrow> None | r # _ \<Rightarrow> Some r)"

definition planned_stamp :: "string \<Rightarrow> string \<Rightarrow> string \<Rightarrow> file_row list \<Rightarrow> json option" where
  "planned_stamp scope event path t =
     map_option fo_stamp (latest_file (\<lambda>r. fo_scope r = scope \<and> fo_event r = event \<and> fo_path r = path \<and> fo_mode r = ''read'') t)"

definition access_version :: "'w resolver \<Rightarrow> string \<Rightarrow> bytes \<Rightarrow> version" where
  "access_version rs path content =
     \<lparr>v_resource = \<lparr>r_scope = rv_scope rs, r_kind = ''file'', r_locator = path\<rparr>, v_token = rv_token rs content,
      v_event = rv_event_id rs, v_length = Some (length content)\<rparr>"

definition record_access :: "'w snapshot_env \<Rightarrow> 'w resolver \<Rightarrow> bool \<Rightarrow> string \<Rightarrow> string \<Rightarrow> bytes \<Rightarrow> json \<Rightarrow> store
    \<Rightarrow> unit res \<times> store" where
  "record_access se rs post path mode content stamp s =
     (let H = se_hash se; v = access_version rs path content; status = (if post then ''observed'' else ''planned'');
          external = is_external path in
      case on_ledger (add_version H (se_events se) v) s of
        (Inl x, s) \<Rightarrow> (Inl x, s)
      | (Inr i, s) \<Rightarrow>
        (case on_ledger (add_access H (se_events se) v mode status ''inference''
            (JObj [(if external then ''metadata_only'' else ''whole'', JBool True)])
            (if external then ''declared access with metadata generation'' else ''declared access with controller snapshot'')) s of
           (Inl x, s) \<Rightarrow> (Inl x, s)
         | (Inr j, s) \<Rightarrow>
             (Inr (), on_lineage (add_file (rv_scope rs) (rv_event_id rs) path (version_identity H v) mode status stamp) s)))"

definition snapshot_access :: "'w snapshot_env \<Rightarrow> 'w resolver \<Rightarrow> bool \<Rightarrow> string \<Rightarrow> string \<Rightarrow> string \<Rightarrow> int \<Rightarrow> store \<Rightarrow> 'w
    \<Rightarrow> (unit res \<times> int) \<times> store \<times> 'w" where
  "snapshot_access se rs post plan path mode budget s w =
     (case observe_access se rs path budget w of
        (Inl x, w) \<Rightarrow> ((Inl x, budget), s, w)
      | (Inr (content, stamp, left), w) \<Rightarrow>
          if post \<and> mode = ''read'' \<and> planned_stamp (rv_scope rs) plan path (ln_files (sr_lineage s)) \<noteq> Some stamp
          then ((Inr (), left), s, w)
          else let (r, s) = record_access se rs post path mode content stamp s in ((r, left), s, w))"

fun snapshot_accesses :: "'w snapshot_env \<Rightarrow> 'w resolver \<Rightarrow> bool \<Rightarrow> string \<Rightarrow> (string \<times> string) list \<Rightarrow> int \<Rightarrow> store \<Rightarrow> 'w
    \<Rightarrow> unit res \<times> store \<times> 'w" where
  "snapshot_accesses se rs post plan [] budget s w = (Inr (), s, w)"
| "snapshot_accesses se rs post plan ((path, mode) # items) budget s w =
     (if \<not> post \<and> mode \<noteq> ''read'' then snapshot_accesses se rs post plan items budget s w
      else case snapshot_access se rs post plan path mode budget s w of
          ((Inr u, left), s, w) \<Rightarrow> snapshot_accesses se rs post plan items left s w
        | ((Inl x, left), s, w) \<Rightarrow>
            if is_os_error x \<or> is_value_error x
            then (case on_ledger (add_need (se_hash se) (se_events se) (rv_scope rs) (rv_event_id rs)
                     \<lparr>nd_kind = ''resource_version'', nd_target = path, nd_reason = ''access_snapshot_unavailable''\<rparr>) s of
                    (Inl y, s) \<Rightarrow> (Inl y, s, w)
                  | (Inr i, s) \<Rightarrow> snapshot_accesses se rs post plan items left s w)
            else (Inl x, s, w))"

definition SNAPSHOT_BYTES :: int where "SNAPSHOT_BYTES = 4194304"

text \<open>\<open>ledger.initialize()\<close>: an empty transaction, which migrates.\<close>

definition initialize_ledger :: "event_row list \<Rightarrow> store \<Rightarrow> unit res \<times> store" where
  "initialize_ledger evs = on_ledger (transaction evs (\<lambda>db. Inr ((), db)))"

text \<open>\<open>resolver\<close> is the construction of the \<open>PayloadResolver\<close> of the event.\<close>

definition snapshot_resources :: "'w snapshot_env \<Rightarrow> (event_row \<Rightarrow> (string \<times> bytes) list \<Rightarrow> 'w resolver res \<times> (string \<times> bytes) list)
    \<Rightarrow> string \<Rightarrow> string \<Rightarrow> json list \<Rightarrow> store \<Rightarrow> 'w \<Rightarrow> unit res \<times> store \<times> 'w" where
  "snapshot_resources se resolver scope event resources s w =
     (case initialize_ledger (se_events se) s of
        (Inl x, s) \<Rightarrow> (Inl x, s, w)
      | (Inr u, s) \<Rightarrow>
      case find (\<lambda>r. er_event r = event \<and> er_workspace r = scope) (se_events se) of
        None \<Rightarrow> (Inr (), s, w)
      | Some ev \<Rightarrow>
        (case plan_resources (se_evidence se) ev resources s w of
           (Inl x, s, w) \<Rightarrow> (Inl x, s, w)
         | (Inr None, s, w) \<Rightarrow> (Inr (), s, w)
         | (Inr (Some (plan, items)), s, w) \<Rightarrow>
           (case resolver ev (sr_keys s) of
              (Inl x, keys) \<Rightarrow> (Inl x, s\<lparr>sr_keys := keys\<rparr>, w)
            | (Inr rs, keys) \<Rightarrow>
                snapshot_accesses se rs (er_phase ev = ''post_tool_use'') plan items SNAPSHOT_BYTES (s\<lparr>sr_keys := keys\<rparr>) w)))"

section \<open>The generations a transmission reads\<close>

definition RESOLVER_VERSION :: string where "RESOLVER_VERSION = ''payload-v3''"

definition add_read :: "string \<Rightarrow> string \<Rightarrow> string \<Rightarrow> string \<Rightarrow> lineage \<Rightarrow> lineage" where
  "add_read scope event path version db =
     db\<lparr>ln_reads := ins_ignore id \<lparr>ir_scope = scope, ir_event = event, ir_path = path, ir_version = version\<rparr> (ln_reads db)\<rparr>"

text \<open>A committed blob, under one of its paths: an immutable read, and an alias with the stamp of
  the working file if that still has the same bytes, with the commit observation otherwise.\<close>

definition blob_alias :: "'w snapshot_env \<Rightarrow> 'w resolver \<Rightarrow> part \<Rightarrow> string \<Rightarrow> store \<Rightarrow> 'w
    \<Rightarrow> (string \<times> string \<times> json) res \<times> store \<times> 'w" where
  "blob_alias se rs p name s w =
     (let path = path_join (the_str (dget (pt_observation p) ''repository'')) name;
          v = \<lparr>v_resource = \<lparr>r_scope = rv_scope rs, r_kind = ''file'', r_locator = path\<rparr>, v_token = v_token (pt_version p),
               v_event = rv_event_id rs, v_length = Some (length (pt_content p))\<rparr>;
          vid = version_identity (se_hash se) v
      in case on_ledger (add_version (se_hash se) (se_events se) v) s of
          (Inl x, s) \<Rightarrow> (Inl x, s, w)
        | (Inr i, s) \<Rightarrow>
            let (r, w) = read_file (rv_disk rs) (rv_root rs) (rv_event_id rs) (JStr path) (int (rv_max_bytes rs)) w;
                s' = on_lineage (add_read (rv_scope rs) (rv_event_id rs) path vid) s
            in (case r of
                  Inl x \<Rightarrow> if is_os_error x \<or> is_value_error x then (Inr (path, vid, JObj (pt_observation p)), s', w) else (Inl x, s, w)
                | Inr (current, obs, left) \<Rightarrow>
                    (Inr (path, vid, if rv_token rs current = v_token (pt_version p) then dget obs ''fingerprint'' else JObj (pt_observation p)),
                     s', w)))"

fun blob_aliases :: "'w snapshot_env \<Rightarrow> 'w resolver \<Rightarrow> (part \<times> string) list \<Rightarrow> store \<Rightarrow> 'w
    \<Rightarrow> (string \<times> string \<times> json) list res \<times> store \<times> 'w" where
  "blob_aliases se rs [] s w = (Inr [], s, w)"
| "blob_aliases se rs ((p, name) # ps) s w =
     (case blob_alias se rs p name s w of
        (Inl x, s, w) \<Rightarrow> (Inl x, s, w)
      | (Inr a, s, w) \<Rightarrow>
          (case blob_aliases se rs ps s w of
             (Inl x, s, w) \<Rightarrow> (Inl x, s, w)
           | (Inr as, s, w) \<Rightarrow> (Inr (a # as), s, w)))"

definition blob_paths :: "part list \<Rightarrow> (part \<times> string) list" where
  "blob_paths ps = concat (map (\<lambda>p. map (\<lambda>n. (p, the_str n)) (the_arr (dget (pt_observation p) ''paths'')))
     (filter (\<lambda>p. r_kind (v_resource (pt_version p)) = ''repository_object'' \<and> dget (pt_observation p) ''object_kind'' = JStr ''blob'') ps))"

definition planned_reads :: "hash \<Rightarrow> 'w resolver \<Rightarrow> (string \<times> string \<times> json) list \<Rightarrow> part list \<Rightarrow> lineage \<Rightarrow> lineage" where
  "planned_reads H rs aliases ps db =
     fold (\<lambda>p. add_file (rv_scope rs) (rv_event_id rs) (r_locator (v_resource (pt_version p))) (version_identity H (pt_version p))
              ''read'' ''planned'' (dget (pt_observation p) ''fingerprint''))
       (filter (\<lambda>p. r_kind (v_resource (pt_version p)) = ''file'') ps)
       (fold (\<lambda>(path, version, evidence). add_file (rv_scope rs) (rv_event_id rs) path version ''read'' ''planned'' evidence) aliases db)"

definition record_transmission_snapshots :: "'w snapshot_env \<Rightarrow> 'w resolver \<Rightarrow> resolution \<Rightarrow> store \<Rightarrow> 'w \<Rightarrow> unit res \<times> store \<times> 'w" where
  "record_transmission_snapshots se rs rn s w =
     (let s = on_lineage (\<lambda>db. db\<lparr>ln_reads := del_where (\<lambda>r. ir_scope r = rv_scope rs \<and> ir_event r = rv_event_id rs) (ln_reads db)\<rparr>) s in
      case blob_aliases se rs (blob_paths (rn_parts rn)) s w of
        (Inl x, s, w) \<Rightarrow> (Inl x, s, w)
      | (Inr aliases, s, w) \<Rightarrow> (Inr (), on_lineage (planned_reads (se_hash se) rs aliases (rn_parts rn)) s, w))"

section \<open>Persisting a resolution\<close>

fun add_versions :: "'w snapshot_env \<Rightarrow> part list \<Rightarrow> store \<Rightarrow> unit res \<times> store" where
  "add_versions se [] s = (Inr (), s)"
| "add_versions se (p # ps) s =
     (case on_ledger (add_version (se_hash se) (se_events se) (pt_version p)) s of
        (Inl x, s) \<Rightarrow> (Inl x, s)
      | (Inr i, s) \<Rightarrow> add_versions se ps s)"

fun add_needs :: "'w snapshot_env \<Rightarrow> string \<Rightarrow> string \<Rightarrow> need list \<Rightarrow> store \<Rightarrow> unit res \<times> store" where
  "add_needs se scope event [] s = (Inr (), s)"
| "add_needs se scope event (n # ns) s =
     (case on_ledger (add_need (se_hash se) (se_events se) scope event n) s of
        (Inl x, s) \<Rightarrow> (Inl x, s)
      | (Inr i, s) \<Rightarrow> add_needs se scope event ns s)"

definition part_extent :: "part \<Rightarrow> json" where
  "part_extent p = JObj [(''offset'', JInt (int (pt_offset p))), (''length'', JInt (int (pt_length p)))]"

definition persist_resolution :: "'w snapshot_env \<Rightarrow> 'w resolver \<Rightarrow> json \<Rightarrow> json \<Rightarrow> resolution \<Rightarrow> store \<Rightarrow> 'w
    \<Rightarrow> string res \<times> store \<times> 'w" where
  "persist_resolution se rs target destination rn s w =
     (case on_ledger (add_transmission (se_hash se) (se_events se) (rv_scope rs) (rv_event_id rs) target destination) s of
        (Inl x, s) \<Rightarrow> (Inl x, s, w)
      | (Inr unit_id, s) \<Rightarrow>
        (case add_versions se (rn_parts rn) s of
           (Inl x, s) \<Rightarrow> (Inl x, s, w)
         | (Inr u, s) \<Rightarrow>
           (case record_transmission_snapshots se rs rn s w of
              (Inl x, s, w) \<Rightarrow> (Inl x, s, w)
            | (Inr u, s, w) \<Rightarrow>
              (case on_ledger (add_resolution (se_hash se) (se_events se) (rv_scope rs) unit_id RESOLVER_VERSION (rn_coverage rn)
                  (if rn_needs rn = [] then ''resolved'' else ''additional_evidence_required'')
                  (JArr (map (\<lambda>p. JObj (pt_observation p)) (rn_parts rn)))
                  (map (\<lambda>p. (version_identity (se_hash se) (pt_version p), part_extent p)) (rn_parts rn))) s of
                 (Inl x, s) \<Rightarrow> (Inl x, s, w)
               | (Inr identity, s) \<Rightarrow>
                 (case add_needs se (rv_scope rs) (rv_event_id rs) (rn_needs rn) s of
                    (Inl x, s) \<Rightarrow> (Inl x, s, w)
                  | (Inr u, s) \<Rightarrow> (Inr identity, s, w))))))"

section \<open>Producers\<close>

text \<open>The observation is the last one of its event, path and mode.\<close>

definition is_last :: "file_row list \<Rightarrow> file_row \<Rightarrow> bool" where
  "is_last t r \<longleftrightarrow> list_all (\<lambda>x. fo_scope x = fo_scope r \<and> fo_event x = fo_event r \<and> fo_path x = fo_path r \<and> fo_mode x = fo_mode r
     \<longrightarrow> fo_id x \<le> fo_id r) t"

definition observed_write :: "file_row \<Rightarrow> bool" where
  "observed_write r \<longleftrightarrow> fo_mode r = ''write'' \<and> fo_status r = ''observed''"

text \<open>Another observed write of the path, between the two events.\<close>

definition overwritten :: "event_row list \<Rightarrow> file_row list \<Rightarrow> file_row \<Rightarrow> nat \<Rightarrow> nat \<Rightarrow> bool" where
  "overwritten evs t p lo hi \<longleftrightarrow> list_ex (\<lambda>n. fo_scope n = fo_scope p \<and> fo_path n = fo_path p \<and> observed_write n \<and>
     (case event_by_id evs (fo_event n) of None \<Rightarrow> False | Some ne \<Rightarrow> lo < er_seq ne \<and> er_seq ne < hi)) t"

text \<open>A producer: its event, its session, the path and the version, with its sequence number.\<close>

type_synonym producer = "string \<times> string option \<times> string \<times> string"

definition producer_of :: "event_row list \<Rightarrow> file_row \<Rightarrow> (nat \<times> producer) option" where
  "producer_of evs p = map_option (\<lambda>pe. (er_seq pe, fo_event p, er_session pe, fo_path p, fo_version p)) (event_by_id evs (fo_event p))"

definition live_pair :: "event_row list \<Rightarrow> file_row list \<Rightarrow> nat \<Rightarrow> file_row \<Rightarrow> file_row \<Rightarrow> bool" where
  "live_pair evs t boundary c p \<longleftrightarrow>
     fo_scope p = fo_scope c \<and> fo_path p = fo_path c \<and> fo_version p = fo_version c \<and> fo_stamp p = fo_stamp c \<and>
     is_last t c \<and> is_last t p \<and> observed_write p \<and>
     (case (event_by_id evs (fo_event c), event_by_id evs (fo_event p)) of
        (Some ce, Some pe) \<Rightarrow> boundary < er_seq pe \<and> er_seq pe < er_seq ce \<and> \<not> overwritten evs t p (er_seq pe) (er_seq ce)
      | _ \<Rightarrow> False)"

definition immutable_pair :: "event_row list \<Rightarrow> nat \<Rightarrow> read_row \<Rightarrow> file_row \<Rightarrow> bool" where
  "immutable_pair evs boundary c p \<longleftrightarrow>
     fo_scope p = ir_scope c \<and> fo_path p = ir_path c \<and> fo_version p = ir_version c \<and> observed_write p \<and>
     (case (event_by_id evs (ir_event c), event_by_id evs (fo_event p)) of
        (Some ce, Some pe) \<Rightarrow> boundary < er_seq pe \<and> er_seq pe < er_seq ce | _ \<Rightarrow> False)"

text \<open>\<open>SELECT DISTINCT ... ORDER BY pe.sequence_no DESC\<close>.\<close>

definition newest_first :: "(nat \<times> producer) list \<Rightarrow> producer list" where
  "newest_first ps = map snd (rev (sort_key fst (rev (remdups ps))))"

definition live_producers :: "event_row list \<Rightarrow> nat \<Rightarrow> string \<Rightarrow> string \<Rightarrow> file_row list \<Rightarrow> producer list" where
  "live_producers evs boundary scope event t = newest_first
     (concat (map (\<lambda>c. List.map_filter (producer_of evs) (filter (live_pair evs t boundary c) t))
       (filter (\<lambda>c. fo_scope c = scope \<and> fo_event c = event \<and> fo_mode c = ''read'') t)))"

definition immutable_producers :: "event_row list \<Rightarrow> nat \<Rightarrow> string \<Rightarrow> string \<Rightarrow> lineage \<Rightarrow> producer list" where
  "immutable_producers evs boundary scope event db = newest_first
     (concat (map (\<lambda>c. List.map_filter (producer_of evs) (filter (immutable_pair evs boundary c) (ln_files db)))
       (filter (\<lambda>c. ir_scope c = scope \<and> ir_event c = event) (ln_reads db))))"

text \<open>\<open>list(dict.fromkeys(...))\<close> keeps the first of equal entries.\<close>

definition first_of :: "'a list \<Rightarrow> 'a list" where
  "first_of xs = rev (remdups (rev xs))"

definition matching_producers :: "event_row list \<Rightarrow> boundaries \<Rightarrow> string \<Rightarrow> string \<Rightarrow> lineage \<Rightarrow> producer list" where
  "matching_producers evs bs scope event db =
     first_of (live_producers evs (boundary_of bs scope) scope event (ln_files db) @
               immutable_producers evs (boundary_of bs scope) scope event db)"

section \<open>Witnesses of a call\<close>

definition observation_json :: "file_row \<Rightarrow> json" where
  "observation_json r = JObj [(''path'', JStr (fo_path r)), (''version'', JStr (fo_version r)), (''mode'', JStr (fo_mode r)),
     (''status'', JStr (fo_status r)), (''fingerprint'', fo_stamp r)]"

definition origin_json :: "producer \<Rightarrow> json" where
  "origin_json p = (case p of (event, sess, path, version) \<Rightarrow>
     JObj [(''path'', JStr path), (''version'', JStr version), (''producer_event'', JStr event)])"

definition attach_witnesses :: "event_row list \<Rightarrow> boundaries \<Rightarrow> string \<Rightarrow> lineage \<Rightarrow> call_node \<Rightarrow> call_node" where
  "attach_witnesses evs bs scope db c =
     (let rows = sort_key (\<lambda>r. (fo_path r, fo_mode r))
            (filter (\<lambda>r. fo_scope r = scope \<and> fo_event r = c_event c \<and> is_last (ln_files db) r) (ln_files db))
      in if rows = [] then c
         else c\<lparr>c_extra := dict_set ''resource_origins'' (JArr (map origin_json (matching_producers evs bs scope (c_event c) db)))
                (dict_set ''resource_observations'' (JArr (map observation_json rows)) (c_extra c))\<rparr>)"

section \<open>A producer wrote the generation that is read\<close>

lemma set_newest_first [simp]: "set (newest_first ps) = snd ` set ps"
  by (simp add: newest_first_def)

lemma set_first_of [simp]: "set (first_of xs) = set xs"
  by (simp add: first_of_def)

definition wrote :: "event_row list \<Rightarrow> nat \<Rightarrow> string \<Rightarrow> string \<Rightarrow> lineage \<Rightarrow> producer \<Rightarrow> bool" where
  "wrote evs boundary scope event db x \<longleftrightarrow> (case x of (pe, sess, path, version) \<Rightarrow>
     \<exists>p \<in> set (ln_files db). \<exists>pr cr. observed_write p \<and> fo_scope p = scope \<and> fo_event p = pe \<and> fo_path p = path \<and> fo_version p = version \<and>
       event_by_id evs pe = Some pr \<and> event_by_id evs event = Some cr \<and> er_session pr = sess \<and>
       boundary < er_seq pr \<and> er_seq pr < er_seq cr \<and>
       ((\<exists>c \<in> set (ln_files db). fo_scope c = scope \<and> fo_event c = event \<and> fo_mode c = ''read'' \<and> fo_path c = path \<and>
            fo_version c = version \<and> fo_stamp c = fo_stamp p \<and> \<not> overwritten evs (ln_files db) p (er_seq pr) (er_seq cr)) \<or>
        \<lparr>ir_scope = scope, ir_event = event, ir_path = path, ir_version = version\<rparr> \<in> set (ln_reads db)))"

lemma map_filter_mem: "x \<in> set (List.map_filter f xs) \<Longrightarrow> \<exists>y \<in> set xs. f y = Some x"
  by (auto simp: map_filter_def)

lemma live_producers_wrote:
  assumes "x \<in> set (live_producers evs boundary scope event (ln_files db))"
  shows "wrote evs boundary scope event db x"
proof -
  from assms obtain n c p where c: "c \<in> set (ln_files db)" "fo_scope c = scope" "fo_event c = event" "fo_mode c = ''read''"
    and p: "p \<in> set (ln_files db)" "live_pair evs (ln_files db) boundary c p" "producer_of evs p = Some (n, x)"
    by (auto simp: live_producers_def dest!: map_filter_mem)
  from p(2) obtain ce pe where "event_by_id evs (fo_event c) = Some ce" "event_by_id evs (fo_event p) = Some pe"
    "boundary < er_seq pe" "er_seq pe < er_seq ce" "\<not> overwritten evs (ln_files db) p (er_seq pe) (er_seq ce)"
    unfolding live_pair_def by (auto split: option.splits)
  note e = this
  have x: "x = (fo_event p, er_session pe, fo_path p, fo_version p)" using p(3) e(2) by (simp add: producer_of_def)
  have same: "fo_scope p = scope" "fo_path c = fo_path p" "fo_version c = fo_version p" "fo_stamp c = fo_stamp p" "observed_write p"
    using p(2) c(2) by (simp_all add: live_pair_def)
  show ?thesis unfolding wrote_def x prod.case
    by (rule bexI [OF _ p(1)], rule exI [of _ pe], rule exI [of _ ce]) (use c e same in auto)
qed

lemma immutable_producers_wrote:
  assumes "x \<in> set (immutable_producers evs boundary scope event db)"
  shows "wrote evs boundary scope event db x"
proof -
  from assms obtain n c p where c: "c \<in> set (ln_reads db)" "ir_scope c = scope" "ir_event c = event"
    and p: "p \<in> set (ln_files db)" "immutable_pair evs boundary c p" "producer_of evs p = Some (n, x)"
    by (auto simp: immutable_producers_def dest!: map_filter_mem)
  from p(2) obtain ce pe where "event_by_id evs (ir_event c) = Some ce" "event_by_id evs (fo_event p) = Some pe"
    "boundary < er_seq pe" "er_seq pe < er_seq ce"
    unfolding immutable_pair_def by (auto split: option.splits)
  note e = this
  have x: "x = (fo_event p, er_session pe, fo_path p, fo_version p)" using p(3) e(2) by (simp add: producer_of_def)
  have same: "fo_scope p = scope" "ir_path c = fo_path p" "ir_version c = fo_version p" "observed_write p"
    using p(2) c(2) by (simp_all add: immutable_pair_def)
  then have "c = \<lparr>ir_scope = scope, ir_event = event, ir_path = fo_path p, ir_version = fo_version p\<rparr>" using c by (cases c) simp
  then show ?thesis unfolding wrote_def x prod.case
    by (intro bexI [OF _ p(1)] exI [of _ pe] exI [of _ ce]) (use c(1) c(3) e same in auto)
qed

text \<open>A producer is never guessed from a path name: every producer reported for an event is a
  recorded, observed write of the very version the event reads, at a recorded event after the
  recording boundary and before the reader; a producer found through the working file also has
  the same stamp, with no other observed write of that path in between.\<close>

theorem producers_wrote_the_generation:
  assumes "x \<in> set (matching_producers evs bs scope event db)"
  shows "wrote evs (boundary_of bs scope) scope event db x"
proof -
  from assms consider "x \<in> set (live_producers evs (boundary_of bs scope) scope event (ln_files db))"
    | "x \<in> set (immutable_producers evs (boundary_of bs scope) scope event db)" by (auto simp: matching_producers_def)
  then show ?thesis by cases (rule live_producers_wrote, assumption, rule immutable_producers_wrote, assumption)
qed

definition sample_event :: "string \<Rightarrow> string \<Rightarrow> nat \<Rightarrow> event_row" where
  "sample_event event sess seq = \<lparr>er_event = event, er_phase = ''post_tool_use'', er_session = Some sess, er_tool_use = Some event,
     er_tool_name = JStr ''Bash'', er_workspace = ''ws'', er_root = ''/w'', er_execution_cwd = Some ''/w'', er_payload = [], er_seq = seq\<rparr>"

definition sample_lineage :: lineage where
  "sample_lineage = add_file ''ws'' ''e2'' ''out.txt'' ''v1'' ''read'' ''planned'' (JArr [JInt 1])
     (add_file ''ws'' ''e1'' ''out.txt'' ''v1'' ''write'' ''observed'' (JArr [JInt 1]) \<lparr>ln_plans = [], ln_files = [], ln_reads = []\<rparr>)"

theorem producers_wrote_the_generation_witness:
  "(''e1'', Some ''s1'', ''out.txt'', ''v1'') \<in> set (matching_producers [sample_event ''e1'' ''s1'' 1, sample_event ''e2'' ''s2'' 2] [] ''ws'' ''e2'' sample_lineage)
   \<and> wrote [sample_event ''e1'' ''s1'' 1, sample_event ''e2'' ''s2'' 2] 0 ''ws'' ''e2'' sample_lineage (''e1'', Some ''s1'', ''out.txt'', ''v1'')"
proof -
  have m: "matching_producers [sample_event ''e1'' ''s1'' 1, sample_event ''e2'' ''s2'' 2] [] ''ws'' ''e2'' sample_lineage
    = [(''e1'', Some ''s1'', ''out.txt'', ''v1'')]" by code_simp
  then have i: "(''e1'', Some ''s1'', ''out.txt'', ''v1'') \<in> set (matching_producers [sample_event ''e1'' ''s1'' 1, sample_event ''e2'' ''s2'' 2] [] ''ws'' ''e2'' sample_lineage)"
    by simp
  from producers_wrote_the_generation [OF i] i show ?thesis by (simp add: boundary_of_def)
qed

section \<open>The tables keep their keys\<close>

definition lineage_ok :: "lineage \<Rightarrow> bool" where
  "lineage_ok db \<longleftrightarrow> keys_unique (\<lambda>r. (pl_scope r, pl_session r, pl_call r)) (ln_plans db) \<and>
     keys_unique file_key (ln_files db) \<and> keys_unique fo_id (ln_files db) \<and> distinct (ln_reads db)"

lemma next_observation_gt: "r \<in> set t \<Longrightarrow> fo_id r < next_observation t"
  by (induction t) (auto simp: next_observation_def less_Suc_eq_le)

lemma add_file_ok [inv_intros]: "lineage_ok db \<Longrightarrow> lineage_ok (add_file scope event path version mode status stamp db)"
  using next_observation_gt [of _ "ln_files db"] ins_ignore_unique [of file_key "ln_files db"]
  unfolding lineage_ok_def add_file_def by (fastforce simp: ins_ignore_def)

lemma add_read_ok [inv_intros]: "lineage_ok db \<Longrightarrow> lineage_ok (add_read scope event path version db)"
  using ins_ignore_unique [of id "ln_reads db"] unfolding lineage_ok_def add_read_def by simp

abbreviation store_ok :: "store \<Rightarrow> bool" where
  "store_ok s \<equiv> ledger_ok (sr_ledger s) \<and> lineage_ok (sr_lineage s)"

lemma on_lineage_ok [inv_intros]: "store_ok s \<Longrightarrow> (\<And>db. lineage_ok db \<Longrightarrow> lineage_ok (f db)) \<Longrightarrow> store_ok (on_lineage f s)"
  by (simp add: on_lineage_def)

lemma on_ledger_ok [inv_intros]:
  assumes "on_ledger f s = (r, s')" and "store_ok s" and "\<And>db. ledger_ok db \<Longrightarrow> ledger_ok (snd (f db))"
  shows "store_ok s'"
  using assms by (auto simp: on_ledger_def split: prod.splits) (metis snd_conv)

lemmas ledger_steps = add_version_ok add_access_ok add_need_ok add_transmission_ok add_resolution_ok

lemma record_access_ok: "record_access se rs post path mode content stamp s = (r, s') \<Longrightarrow> store_ok s \<Longrightarrow> store_ok s'"
  unfolding record_access_def Let_def
  by (auto split: prod.splits sum.splits dest!: on_ledger_ok intro!: on_lineage_ok [THEN conjunct1] on_lineage_ok [THEN conjunct2]
      intro: ledger_steps inv_intros)

lemma snapshot_access_ok:
  "snapshot_access se rs post plan path mode budget s w = (r, s', w') \<Longrightarrow> store_ok s \<Longrightarrow> store_ok s'"
  unfolding snapshot_access_def Let_def
  by (auto split: prod.splits sum.splits if_splits dest: record_access_ok)

lemma snapshot_accesses_ok:
  "snapshot_accesses se rs post plan items budget s w = (r, s', w') \<Longrightarrow> store_ok s \<Longrightarrow> store_ok s'"
proof (induction items arbitrary: budget s w)
  case (Cons item items)
  obtain path mode where item: "item = (path, mode)" by fastforce
  show ?case
  proof (cases "\<not> post \<and> mode \<noteq> ''read''")
    case True
    with Cons item show ?thesis by simp
  next
    case False
    obtain u left s1 w1 where a: "snapshot_access se rs post plan path mode budget s w = ((u, left), s1, w1)" by (metis prod.exhaust)
    then have s1: "store_ok s1" by (rule snapshot_access_ok [OF _ Cons.prems(2)])
    let ?n = "\<lparr>nd_kind = ''resource_version'', nd_target = path, nd_reason = ''access_snapshot_unavailable''\<rparr>"
    obtain y s2 where n: "on_ledger (add_need (se_hash se) (se_events se) (rv_scope rs) (rv_event_id rs) ?n) s1 = (y, s2)" by fastforce
    then have s2: "store_ok s2" by (rule on_ledger_ok [OF _ s1]) (rule add_need_ok)
    have "s' = s1 \<or> s' = s2 \<or> (\<exists>s3 \<in> {s1, s2}. snapshot_accesses se rs post plan items left s3 w1 = (r, s', w'))"
      using Cons.prems(1) False a n item by (cases u; cases y) (auto split: if_splits)
    then show ?thesis using Cons.IH s1 s2 by blast
  qed
qed simp

lemma plan_resources_ok: "plan_resources e ev resources s w = (r, s', w') \<Longrightarrow> store_ok s \<Longrightarrow> store_ok s'"
  unfolding plan_resources_def Let_def
  by (auto split: prod.splits sum.splits option.splits if_splits simp: on_lineage_def lineage_ok_def intro: ins_ignore_unique)

lemma initialize_ledger_ok: "initialize_ledger evs s = (r, s') \<Longrightarrow> store_ok s \<Longrightarrow> store_ok s'"
  unfolding initialize_ledger_def by (erule on_ledger_ok) (auto intro!: transaction_ok)

lemma snapshot_resources_ok:
  assumes "snapshot_resources se resolver scope event resources s w = (r, s', w')" and "store_ok s"
  shows "store_ok s'"
proof -
  obtain u s1 where i: "initialize_ledger (se_events se) s = (u, s1)" by fastforce
  have s1: "store_ok s1" by (rule initialize_ledger_ok [OF i assms(2)])
  from assms(1) s1 i show ?thesis unfolding snapshot_resources_def
    by (cases u) (auto split: prod.splits sum.splits option.splits dest!: plan_resources_ok dest: snapshot_accesses_ok)
qed

lemma blob_alias_ok: "blob_alias se rs p name s w = (r, s', w') \<Longrightarrow> store_ok s \<Longrightarrow> store_ok s'"
  unfolding blob_alias_def Let_def
  by (auto split: prod.splits sum.splits if_splits dest!: on_ledger_ok simp: on_lineage_def intro: ledger_steps inv_intros)

lemma blob_aliases_ok: "blob_aliases se rs ps s w = (r, s', w') \<Longrightarrow> store_ok s \<Longrightarrow> store_ok s'"
proof (induction ps arbitrary: r s w s' w')
  case (Cons q ps)
  obtain p name where q: "q = (p, name)" by fastforce
  obtain a s1 w1 where a: "blob_alias se rs p name s w = (a, s1, w1)" by (metis prod.exhaust)
  then have s1: "store_ok s1" by (rule blob_alias_ok [OF _ Cons.prems(2)])
  show ?case
  proof (cases a)
    case (Inl x)
    with Cons.prems a s1 q show ?thesis by simp
  next
    case (Inr y)
    obtain b s2 w2 where b: "blob_aliases se rs ps s1 w1 = (b, s2, w2)" by (metis prod.exhaust)
    then have "store_ok s2" by (rule Cons.IH [OF _ s1])
    moreover have "s' = s2" using Cons.prems(1) a Inr b q by (cases b) auto
    ultimately show ?thesis by simp
  qed
qed simp

lemma fold_ok: "lineage_ok db \<Longrightarrow> (\<And>x d. lineage_ok d \<Longrightarrow> lineage_ok (f x d)) \<Longrightarrow> lineage_ok (fold f xs db)"
  by (induction xs arbitrary: db) auto

lemma planned_reads_ok: "lineage_ok db \<Longrightarrow> lineage_ok (planned_reads H rs aliases ps db)"
  unfolding planned_reads_def by (intro fold_ok) (auto intro: inv_intros)

lemma record_transmission_snapshots_ok:
  assumes "record_transmission_snapshots se rs rn s w = (r, s', w')" and "store_ok s"
  shows "store_ok s'"
proof -
  let ?s = "on_lineage (\<lambda>db. db\<lparr>ln_reads := del_where (\<lambda>r. ir_scope r = rv_scope rs \<and> ir_event r = rv_event_id rs) (ln_reads db)\<rparr>) s"
  have s: "store_ok ?s" by (rule on_lineage_ok [OF assms(2)]) (simp add: lineage_ok_def del_where_def)
  obtain a s1 w1 where a: "blob_aliases se rs (blob_paths (rn_parts rn)) ?s w = (a, s1, w1)" by (rule prod_cases3)
  then have "store_ok s1" by (rule blob_aliases_ok [OF _ s])
  moreover have "s' = s1 \<or> (\<exists>al. s' = on_lineage (planned_reads (se_hash se) rs al (rn_parts rn)) s1)"
    using assms(1) unfolding record_transmission_snapshots_def Let_def a by (cases a) auto
  ultimately show ?thesis using on_lineage_ok [of s1 "planned_reads (se_hash se) rs _ (rn_parts rn)"] planned_reads_ok by fast
qed

lemma add_versions_ok: "add_versions se ps s = (r, s') \<Longrightarrow> store_ok s \<Longrightarrow> store_ok s'"
proof (induction se ps s rule: add_versions.induct)
  case (2 se p ps s)
  obtain a s1 where a: "on_ledger (add_version (se_hash se) (se_events se) (pt_version p)) s = (a, s1)" by fastforce
  have "store_ok s1" using on_ledger_ok [OF a "2.prems"(2)] add_version_ok by blast
  with "2.prems"(1) a "2.IH" [OF a [symmetric]] show ?case by (cases a) auto
qed simp

lemma add_needs_ok: "add_needs se scope event ns s = (r, s') \<Longrightarrow> store_ok s \<Longrightarrow> store_ok s'"
proof (induction se scope event ns s rule: add_needs.induct)
  case (2 se scope event n ns s)
  obtain a s1 where a: "on_ledger (add_need (se_hash se) (se_events se) scope event n) s = (a, s1)" by fastforce
  have "store_ok s1" using on_ledger_ok [OF a "2.prems"(2)] add_need_ok by blast
  with "2.prems"(1) a "2.IH" [OF a [symmetric]] show ?case by (cases a) auto
qed simp

lemma persist_resolution_ok:
  assumes "persist_resolution se rs target destination rn s w = (r, s', w')" and "store_ok s"
  shows "store_ok s'"
proof -
  obtain a s1 where a: "on_ledger (add_transmission (se_hash se) (se_events se) (rv_scope rs) (rv_event_id rs) target destination) s = (a, s1)" by fastforce
  have s1: "store_ok s1" using on_ledger_ok [OF a assms(2)] add_transmission_ok by blast
  obtain b s2 where b: "add_versions se (rn_parts rn) s1 = (b, s2)" by fastforce
  have s2: "store_ok s2" using add_versions_ok [OF b s1] .
  obtain c s3 w3 where c: "record_transmission_snapshots se rs rn s2 w = (c, s3, w3)" by (metis prod.exhaust)
  have s3: "store_ok s3" using record_transmission_snapshots_ok [OF c s2] .
  let ?add = "add_resolution (se_hash se) (se_events se) (rv_scope rs) (projr a) RESOLVER_VERSION (rn_coverage rn)
                  (if rn_needs rn = [] then ''resolved'' else ''additional_evidence_required'')
                  (JArr (map (\<lambda>p. JObj (pt_observation p)) (rn_parts rn)))
                  (map (\<lambda>p. (version_identity (se_hash se) (pt_version p), part_extent p)) (rn_parts rn))"
  obtain d s4 where d: "on_ledger ?add s3 = (d, s4)" by fastforce
  have s4: "store_ok s4" using on_ledger_ok [OF d s3] add_resolution_ok by blast
  obtain f s5 where f: "add_needs se (rv_scope rs) (rv_event_id rs) (rn_needs rn) s4 = (f, s5)" by fastforce
  have s5: "store_ok s5" using add_needs_ok [OF f s4] .
  have "s' \<in> {s1, s2, s3, s4, s5}"
    using assms(1) a b c d f unfolding persist_resolution_def
    by (cases a; cases b; cases c; cases d; cases f) auto
  with s1 s2 s3 s4 s5 show ?thesis by blast
qed

text \<open>Recording accesses and transmissions keeps the stored evidence sound: the keys of the plan,
  observation and immutable-read tables stay unique, observation numbers are never reused, and the
  ledger keeps all its constraints, whatever fails on the way.\<close>

theorem evidence_tables_stay_sound:
  assumes "store_ok s"
  shows "store_ok (fst (snd (snapshot_resources se resolver scope event resources s w))) \<and>
    store_ok (fst (snd (persist_resolution se rs target destination rn s w)))"
proof -
  obtain r1 s1 w1 where a: "snapshot_resources se resolver scope event resources s w = (r1, s1, w1)" by (metis prod.exhaust)
  obtain r2 s2 w2 where b: "persist_resolution se rs target destination rn s w = (r2, s2, w2)" by (metis prod.exhaust)
  show ?thesis using snapshot_resources_ok [OF a assms] persist_resolution_ok [OF b assms] a b by simp
qed

definition empty_store :: store where
  "empty_store = \<lparr>sr_ledger = empty_ledger, sr_lineage = \<lparr>ln_plans = [], ln_files = [], ln_reads = []\<rparr>, sr_keys = []\<rparr>"

definition sample_se :: "unit snapshot_env" where
  "sample_se = \<lparr>se_hash = (\<lambda>b. b), se_events = [(sample_event ''e1'' ''s1'' 1)\<lparr>er_phase := ''pre_tool_use''\<rparr>], se_evidence = sample_env\<rparr>"

definition sample_mk :: "event_row \<Rightarrow> (string \<times> bytes) list \<Rightarrow> unit resolver res \<times> (string \<times> bytes) list" where
  "sample_mk ev keys = make_resolver (\<lambda>k b. k @ b) (se_events sample_se) (er_workspace ev) (er_event ev) (er_root ev) ''key''
     (ev_disk sample_env) sample_repo (\<lambda>p w. (True, w)) keys"

definition sample_access :: json where
  "sample_access = JObj [(''path'', JStr ''in.txt''), (''mode'', JStr ''read'')]"

theorem evidence_tables_stay_sound_witness:
  "store_ok (fst (snd (snapshot_resources sample_se sample_mk ''ws'' ''e1'' [sample_access] empty_store ()))) \<and>
   length (ln_plans (sr_lineage (fst (snd (snapshot_resources sample_se sample_mk ''ws'' ''e1'' [sample_access] empty_store ()))))) = 1"
proof -
  have "store_ok empty_store" by code_simp
  moreover have "length (ln_plans (sr_lineage (fst (snd (snapshot_resources sample_se sample_mk ''ws'' ''e1'' [sample_access] empty_store ()))))) = 1"
    by code_simp
  ultimately show ?thesis using evidence_tables_stay_sound [of empty_store sample_se sample_mk] by simp
qed

end
