(* ===== verification/Provenance.thy ===== *)
theory Provenance
  imports Review Property_Graph Lineage Contracts
begin

text \<open>
  \<open>engine/property_graph.py\<close>, third part: \<open>analyze_properties\<close>. The ToolCalls of a session
  are assessed from the judged one backwards along the outputs and the file generations they
  consumed, each with the fragments and resources the consumer used, across sessions where a
  generation was written elsewhere. Every assessment becomes a revision with pinned parents;
  then the current policy is applied to the recorded graph (\<open>decide_properties\<close>). The two
  recursions are bounded as in the code: at most 64 events are being analysed at a time, and
  the assessments of one analysis nest at most 128 deep. Both bounds are the recursion
  arguments of the definitions below.
\<close>

record 'w analysis =
  an_graph :: graph_db
  an_reviews :: "'w reviewing"
  an_assessed :: "((nat \<times> string) \<times> string \<times> dict) list"

record 'w prov_env =
  pe_hash :: hash
  pe_evidence :: "'w evidence_env"
  pe_judge :: "'w Requirements.judge"
  pe_model :: string
  pe_events :: "event_row list"
  pe_bounds :: boundaries
  pe_workspace :: string
  pe_lineage :: lineage

type_synonym ('w, 'a) step = "('w analysis, 'a) act"

definition on_reviews :: "('w reviewing, 'a) act \<Rightarrow> ('w, 'a) step" where
  "on_reviews m s = (let (r, t) = m (an_reviews s) in (r, s\<lparr>an_reviews := t\<rparr>))"

definition in_world :: "('w \<Rightarrow> 'a res \<times> 'w) \<Rightarrow> ('w, 'a) step" where
  "in_world f = on_reviews (on_world f)"

section \<open>The call in the focus of its consumers\<close>

definition wrote_resource :: "call_node \<Rightarrow> dict \<Rightarrow> bool" where
  "wrote_resource c d \<longleftrightarrow> list_ex (\<lambda>r. dget r ''path'' = dget d ''path'' \<and> dget r ''version'' = dget d ''version'' \<and>
     dget r ''mode'' = JStr ''write'' \<and> dget r ''status'' = JStr ''observed'') (node_observations c)"

definition focus_resources :: "dict list option \<Rightarrow> call_node \<Rightarrow> call_node res" where
  "focus_resources resources c =
     (case resources of
        None \<Rightarrow> Inr c
      | Some rs \<Rightarrow>
          if rs = [] \<or> \<not> list_all (wrote_resource c) rs then Inl (GraphUnavailable ''resource_selection_not_observed'')
          else Inr (c\<lparr>c_extra := dict_set ''required_resources'' (JArr (map JObj rs)) (c_extra c)\<rparr>))"

definition selected_once :: "call_node \<Rightarrow> json \<Rightarrow> unit res" where
  "selected_once c selection =
     (if \<not> c_completed c then Inl (GraphUnavailable ''output_selection_missing_or_ambiguous'')
      else case selection_texts selection of
          Inl x \<Rightarrow> Inl x
        | Inr texts \<Rightarrow>
            if list_ex (\<lambda>t. count_sub t (observed_text c) \<noteq> 1) texts
            then Inl (GraphUnavailable ''output_selection_missing_or_ambiguous'') else Inr ())"

definition focus_output :: "hash \<Rightarrow> json \<Rightarrow> call_node \<Rightarrow> call_node \<Rightarrow> call_node res" where
  "focus_output H selection producer c =
     (if selection = JNull then Inr c
      else case selected_once producer selection of
          Inl x \<Rightarrow> Inl x
        | Inr u \<Rightarrow> Inr (c\<lparr>c_extra := dict_set ''required_output''
            (JObj (dict_set ''observation_hash'' (JStr (digest H (c_output producer))) (the_obj selection))) (c_extra c)\<rparr>))"

definition focus :: "hash \<Rightarrow> json \<Rightarrow> dict list option \<Rightarrow> call_node \<Rightarrow> call_node res" where
  "focus H selection resources producer =
     (case focus_resources resources producer of Inl x \<Rightarrow> Inl x | Inr c \<Rightarrow> focus_output H selection producer c)"

definition resources_json :: "dict list option \<Rightarrow> json" where
  "resources_json resources = (case resources of None \<Rightarrow> JNull | Some rs \<Rightarrow> JArr (map JObj rs))"

definition assess_key :: "hash \<Rightarrow> nat \<Rightarrow> json \<Rightarrow> dict list option \<Rightarrow> nat \<times> string" where
  "assess_key H index selection resources = (index, digest H (JArr [selection, resources_json resources]))"

section \<open>Edges the controller observed\<close>

definition payload_parts :: "call_node \<Rightarrow> dict list" where
  "payload_parts c = map the_obj (the_arr (dget_or (JArr []) (c_extra c) ''payload_observations''))"

definition part_observation :: "dict \<Rightarrow> dict" where
  "part_observation p = the_obj (dget_or (JObj []) p ''observation'')"

definition part_selection :: "dict \<Rightarrow> call_node \<Rightarrow> json" where
  "part_selection p parent =
     (let content = the_str (dget_or (JStr []) p ''content'') in
      if dget p ''encoding'' = JStr ''utf-8'' \<and> content \<noteq> [] \<and> count_sub content (observed_text parent) = 1
      then JObj [(''text'', JStr content)] else JNull)"

definition observe_edge :: "call_node list \<Rightarrow> dict \<Rightarrow> (string \<times> json) list \<Rightarrow> (string \<times> json) list res" where
  "observe_edge prior p edges =
     (case dget (part_observation p) ''source_node_id'' of
        JNull \<Rightarrow> Inr edges
      | source \<Rightarrow>
          (case find (\<lambda>c. JStr (c_node c) = source \<and> c_completed c) prior of
             None \<Rightarrow> Inl (GraphUnavailable ''observed_transmission_parent_missing'')
           | Some parent \<Rightarrow>
               (case map_of edges (c_node parent) of
                  None \<Rightarrow> Inr (dict_set (c_node parent) (part_selection p parent) edges)
                | Some old \<Rightarrow>
                    (case merge_selections old (part_selection p parent) of
                       Inl x \<Rightarrow> Inl x
                     | Inr sel \<Rightarrow> Inr (dict_set (c_node parent) sel edges)))))"

fun observed_edges :: "call_node list \<Rightarrow> dict list \<Rightarrow> (string \<times> json) list \<Rightarrow> (string \<times> json) list res" where
  "observed_edges prior [] edges = Inr edges"
| "observed_edges prior (p # ps) edges =
     (case observe_edge prior p edges of Inl x \<Rightarrow> Inl x | Inr edges \<Rightarrow> observed_edges prior ps edges)"

definition controller_edge :: "string \<Rightarrow> json \<Rightarrow> dict" where
  "controller_edge parent sel = [(''node_id'', JStr parent), (''selection'', sel), (''reason'', JStr ''controller-resolved transmitted output'')]"

fun add_observed :: "(string \<times> json) list \<Rightarrow> (string \<times> dict) list \<Rightarrow> (string \<times> dict) list res" where
  "add_observed [] deps = Inr deps"
| "add_observed ((parent, sel) # edges) deps =
     (case merge_edge (map_of deps parent) (controller_edge parent sel) of
        Inl x \<Rightarrow> Inl x
      | Inr edge \<Rightarrow> add_observed edges (dict_set parent edge deps))"

definition edges_by_node :: "dict list \<Rightarrow> (string \<times> dict) list" where
  "edges_by_node es = fold (\<lambda>e. dict_set (edge_node e) e) es []"

definition with_observed_edges :: "(string \<times> json) list \<Rightarrow> dict \<Rightarrow> dict res" where
  "with_observed_edges edges verdict =
     (if edges = [] then Inr verdict
      else case add_observed edges (edges_by_node (verdict_edges verdict)) of
          Inl x \<Rightarrow> Inl x
        | Inr deps \<Rightarrow> Inr (dict_set ''dependencies'' (JArr (map JObj (dict_values deps))) verdict))"

section \<open>Canonical accesses\<close>

definition identify :: "'w prov_env \<Rightarrow> call_node \<Rightarrow> json \<Rightarrow> ('w, string) step" where
  "identify e c path = in_world (resource_identity (pe_evidence e) path (c_root c))"

type_synonym projections = "(string \<times> json list) list"

definition note_origin :: "'w prov_env \<Rightarrow> call_node \<Rightarrow> dict \<Rightarrow> projections \<times> dict list \<Rightarrow> ('w, projections \<times> dict list) step" where
  "note_origin e c p acc =
     (case dget (part_observation p) ''context_origin'' of
        JNull \<Rightarrow> ret acc
      | origin \<Rightarrow>
          bind (pure (fetch (the_obj origin) ''path'')) (\<lambda>raw.
          bind (identify e c raw) (\<lambda>path.
          bind (pure (fetch (the_obj origin) ''projection'')) (\<lambda>projection.
            ret (dict_set path ((case map_of (fst acc) path of None \<Rightarrow> [] | Some ps \<Rightarrow> ps) @ [projection]) (fst acc),
                 snd acc @ [[(''path'', JStr path), (''mode'', JStr ''read''), (''reason'', JStr ''controller-observed configuration value'')]])))))"

definition drop_whole_file :: "'w prov_env \<Rightarrow> call_node \<Rightarrow> dict \<Rightarrow> projections \<Rightarrow> ('w, projections) step" where
  "drop_whole_file e c p acc =
     (if truthy (dget (part_observation p) ''context_origin'') \<or> \<not> has_key (part_observation p) ''path'' then ret acc
      else bind (identify e c (dget (part_observation p) ''path'')) (\<lambda>path.
        ret (filter (\<lambda>kv. fst kv \<noteq> path) acc)))"

definition canonical_access :: "'w prov_env \<Rightarrow> call_node \<Rightarrow> dict \<Rightarrow> ((string \<times> string) \<times> dict) list
    \<Rightarrow> ('w, ((string \<times> string) \<times> dict) list) step" where
  "canonical_access e c access acc =
     bind (identify e c (dget access ''path'')) (\<lambda>path.
       let access = dict_set ''path'' (JStr path) access in ret (dict_set (access_key access) access acc))"

text \<open>The verdict with one access per canonical path and mode, and the projections of each path.\<close>

definition canonical_accesses :: "'w prov_env \<Rightarrow> call_node \<Rightarrow> dict \<Rightarrow> ('w, projections \<times> dict) step" where
  "canonical_accesses e c verdict =
     bind (each (note_origin e c) (payload_parts c) ([], [])) (\<lambda>(projections, context_accesses).
     bind (each (drop_whole_file e c) (payload_parts c) projections) (\<lambda>projections.
     bind (each (canonical_access e c) (verdict_accesses verdict @ context_accesses) []) (\<lambda>accesses.
       ret (projections, dict_set ''accesses'' (JArr (map JObj (dict_values accesses))) verdict))))"

section \<open>Requests and recorded judgments\<close>

text \<open>A request is keyed by the digest of everything the review may look at.\<close>

fun prefixes :: "hash \<Rightarrow> string \<Rightarrow> call_node list \<Rightarrow> string list" where
  "prefixes H seed [] = []"
| "prefixes H seed (c # cs) = seed # prefixes H (digest H (JArr [JStr seed, call_json c])) cs"

definition first_prefix :: "hash \<Rightarrow> string \<Rightarrow> string \<Rightarrow> string \<Rightarrow> string" where
  "first_prefix H model ws sess = digest H (JArr [JStr ''demand-history-v1'', JStr PROMPT_VERSION, JStr model, JStr ws, JStr sess])"

definition review_request :: "hash \<Rightarrow> string \<Rightarrow> call_node \<Rightarrow> string" where
  "review_request H seed focused = digest H (JArr [JStr ''demand-review-v1'', JStr seed, call_json focused])"

definition completed_verdict :: "string \<Rightarrow> graph_db \<Rightarrow> dict option" where
  "completed_verdict request db =
     (case map_of (g_completed db) request of
        None \<Rightarrow> None
      | Some rvn \<Rightarrow> map_option rv_verdict (find (\<lambda>r. rv_rev r = rvn) (g_revisions db)))"

definition validate_current :: "call_node list \<Rightarrow> validator" where
  "validate_current prior raw cands = validate_observed_dependencies raw cands (map (\<lambda>c. (c_node c, c)) prior)"

text \<open>A completed judgment of the same request, if its evidence is unchanged and it still validates.\<close>

definition cached_judgment :: "'w prov_env \<Rightarrow> string \<Rightarrow> call_node \<Rightarrow> call_node list \<Rightarrow> ('w, dict option) step" where
  "cached_judgment e request producer prior =
     bind (gets (\<lambda>s. completed_verdict request (an_graph s))) (\<lambda>cached.
       case cached of
         None \<Rightarrow> ret None
       | Some v \<Rightarrow>
           bind (in_world (reusable (pe_hash e) (pe_evidence e) v (call_json producer))) (\<lambda>ok.
             if \<not> ok then ret None
             else attempt (bind (pure (validate_current prior (JObj v) (completed_ids prior))) (\<lambda>v. ret (Some v)))
                    (\<lambda>x. if is_graph_unavailable x then ret None else raise x)))"

definition judge_call :: "'w prov_env \<Rightarrow> string \<Rightarrow> call_node \<Rightarrow> call_node \<Rightarrow> call_node list \<Rightarrow> ('w, dict) step" where
  "judge_call e request producer focused prior =
     bind (cached_judgment e request producer prior) (\<lambda>cached.
       case provenance_contract focused of
         Some mechanical \<Rightarrow> pure (validate_current prior (JObj mechanical) (completed_ids prior))
       | None \<Rightarrow>
           (case cached of
              Some v \<Rightarrow> ret v
            | None \<Rightarrow> on_reviews (review (pe_hash e) (pe_evidence e) (pe_judge e) (validate_current prior)
                        REQUEST_BYTES request focused prior)))"

section \<open>Demands on the producers of read generations\<close>

type_synonym demands = "((string \<times> string option) \<times> dict list) list"

definition demand :: "projections \<Rightarrow> string \<Rightarrow> string \<Rightarrow> dict" where
  "demand projections path version = [(''path'', JStr path), (''version'', JStr version)] @
     (case map_of projections path of None \<Rightarrow> [] | Some ps \<Rightarrow> [(''projections'', JArr ps)])"

definition read_paths :: "dict \<Rightarrow> string list" where
  "read_paths verdict = map (\<lambda>a. the_str (dget a ''path'')) (filter (\<lambda>a. dget a ''mode'' = JStr ''read'') (verdict_accesses verdict))"

definition add_demand :: "projections \<Rightarrow> string list \<Rightarrow> producer \<Rightarrow> demands \<Rightarrow> demands" where
  "add_demand projections reads p acc =
     (case p of (event, sess, path, version) \<Rightarrow>
        if path \<notin> set reads then acc
        else dict_set (event, sess) ((case map_of acc (event, sess) of None \<Rightarrow> [] | Some ds \<Rightarrow> ds) @ [demand projections path version]) acc)"

definition demand_key :: "dict \<Rightarrow> string \<times> string" where
  "demand_key d = (the_str (dget d ''path''), the_str (dget d ''version''))"

text \<open>Sorted by the event, which determines the session.\<close>

definition demands_of :: "projections \<Rightarrow> dict \<Rightarrow> producer list \<Rightarrow> demands" where
  "demands_of projections verdict origins =
     map (\<lambda>(k, ds). (k, sort_key demand_key ds))
       (sort_key (fst \<circ> fst) (fold (add_demand projections (read_paths verdict)) origins []))"

section \<open>Recording an assessment\<close>

type_synonym links = "(string \<times> string) list"

definition assessment_revision :: "hash \<Rightarrow> string \<Rightarrow> dict \<Rightarrow> links \<Rightarrow> links \<Rightarrow> string" where
  "assessment_revision H request verdict links resource_links =
     digest H (JArr [JStr request, JObj verdict, JObj (map (\<lambda>(p, r). (p, JStr r)) links),
       JArr (map (\<lambda>(p, r). JArr [JStr p, JStr r]) resource_links)])"

definition add_resource_link :: "string \<Rightarrow> string \<Rightarrow> string \<times> string \<Rightarrow> graph_db \<Rightarrow> graph_db" where
  "add_resource_link rvn node pr db = db\<lparr>
     g_edges := ins_ignore (\<lambda>e. (ed_rev e, ed_src e, ed_dst e))
       \<lparr>ed_rev = rvn, ed_src = fst pr, ed_dst = node, ed_reason = JStr ''witnessed resource generation''\<rparr> (g_edges db),
     g_links := ins_ignore (\<lambda>l. (lk_rev l, lk_parent l)) \<lparr>lk_rev = rvn, lk_parent = fst pr, lk_parent_rev = snd pr\<rparr> (g_links db)\<rparr>"

definition restore_head :: "string \<Rightarrow> string \<Rightarrow> string \<Rightarrow> string option \<Rightarrow> graph_db \<Rightarrow> graph_db" where
  "restore_head ws sess node old db = db\<lparr>g_heads :=
     (case old of
        Some rvn \<Rightarrow> upd_where (\<lambda>h. head_key h = (ws, sess, node)) (\<lambda>h. h\<lparr>hd_rev := rvn\<rparr>) (g_heads db)
      | None \<Rightarrow> del_where (\<lambda>h. head_key h = (ws, sess, node)) (g_heads db))\<rparr>"

text \<open>The transaction at the end of an assessment: an exception rolls it back.\<close>

definition store_assessment :: "hash \<Rightarrow> string \<Rightarrow> string \<Rightarrow> string \<Rightarrow> string \<Rightarrow> call_node \<Rightarrow> json \<Rightarrow> dict list option
    \<Rightarrow> string \<Rightarrow> dict \<Rightarrow> links \<Rightarrow> links \<Rightarrow> graph_db \<Rightarrow> graph_db res" where
  "store_assessment H ws sess model request c selection resources rvn verdict links resource_links db =
     (case persist ws sess c rvn model verdict (Some links) db of
        Inl x \<Rightarrow> Inl x
      | Inr db1 \<Rightarrow>
          let old = head_of db ws sess (c_node c);
              db = fold (add_resource_link rvn (c_node c)) resource_links db1;
              db = (if selection = JNull then db else db\<lparr>g_outsel := ins_ignore fst
                     (rvn, c_node c, selection, digest H (c_output c)) (g_outsel db)\<rparr>);
              db = (case resources of None \<Rightarrow> db | Some rs \<Rightarrow> db\<lparr>g_ressel := ins_ignore fst
                     (rvn, c_node c, JArr (map JObj rs)) (g_ressel db)\<rparr>);
              db = (if selection = JNull \<and> resources = None then db else restore_head ws sess (c_node c) old db)
          in Inr (if is_complete verdict then db\<lparr>g_completed := ins_replace fst (request, rvn) (g_completed db)\<rparr> else db))"

section \<open>Assessing a call\<close>

type_synonym 'w assessor = "nat \<Rightarrow> json \<Rightarrow> dict list option \<Rightarrow> ('w, string \<times> dict) step"
type_synonym 'w nested = "string option \<Rightarrow> string \<Rightarrow> dict list \<Rightarrow> ('w, string \<times> string) step"

text \<open>The first earlier call of the session with the event.\<close>

fun event_index :: "string \<Rightarrow> call_node list \<Rightarrow> nat option" where
  "event_index ev [] = None"
| "event_index ev (c # cs) = (if c_event c = ev then Some 0 else map_option Suc (event_index ev cs))"

fun node_index :: "string \<Rightarrow> call_node list \<Rightarrow> nat option" where
  "node_index nid [] = None"
| "node_index nid (c # cs) =
     (case node_index nid cs of Some i \<Rightarrow> Some (Suc i) | None \<Rightarrow> if c_node c = nid then Some 0 else None)"

text \<open>One demand: the producer in this session, or in another one; \<open>acc\<close> are the links and the
  resource links so far.\<close>

definition follow_demand :: "call_node list \<Rightarrow> string \<Rightarrow> nat \<Rightarrow> (string \<times> dict) list \<Rightarrow> 'w assessor \<Rightarrow> 'w nested
    \<Rightarrow> (string \<times> string option) \<times> dict list \<Rightarrow> links \<times> links \<Rightarrow> ('w, links \<times> links) step" where
  "follow_demand calls sess index edges assess nested d acc =
     (case d of ((event, origin), requested) \<Rightarrow>
      case (origin = Some sess, event_index event (take index calls)) of
        (True, Some i) \<Rightarrow>
          let node = c_node (calls ! i) in
          bind (assess i (case map_of edges node of None \<Rightarrow> JNull | Some edge \<Rightarrow> dget edge ''selection'') (Some requested)) (\<lambda>(rvn, v).
            ret (if map_of edges node = None then fst acc else dict_set node rvn (fst acc), snd acc @ [(node, rvn)]))
      | (False, _) \<Rightarrow> bind (nested origin event requested) (\<lambda>(node, rvn). ret (fst acc, snd acc @ [(node, rvn)]))
      | (True, None) \<Rightarrow> raise (GraphUnavailable ''resource_producer_missing''))"

definition follow_edge :: "call_node list \<Rightarrow> nat \<Rightarrow> 'w assessor \<Rightarrow> dict \<Rightarrow> links \<Rightarrow> ('w, links) step" where
  "follow_edge calls index assess edge links =
     (if map_of links (edge_node edge) \<noteq> None then ret links
      else case node_index (edge_node edge) calls of
          None \<Rightarrow> raise (KeyError (edge_node edge))
        | Some i \<Rightarrow>
            if index \<le> i then raise (GraphUnavailable ''future_output_dependency'')
            else bind (assess i (dget edge ''selection'') None) (\<lambda>(rvn, v). ret (dict_set (edge_node edge) rvn links)))"

definition record_assessed :: "nat \<times> string \<Rightarrow> string \<Rightarrow> dict \<Rightarrow> ('w, unit) step" where
  "record_assessed key rvn verdict = modify (\<lambda>s. s\<lparr>an_assessed := dict_set key (rvn, verdict) (an_assessed s)\<rparr>)"

definition commit :: "(graph_db \<Rightarrow> graph_db res) \<Rightarrow> ('w, unit) step" where
  "commit f s = (case f (an_graph s) of Inl x \<Rightarrow> (Inl x, s) | Inr db \<Rightarrow> (Inr (), s\<lparr>an_graph := db\<rparr>))"

text \<open>The verdict of a call with what the controller observed added to it.\<close>

definition full_verdict :: "'w prov_env \<Rightarrow> string \<Rightarrow> call_node \<Rightarrow> call_node \<Rightarrow> call_node list \<Rightarrow> ('w, projections \<times> dict) step" where
  "full_verdict e request producer focused prior =
     bind (judge_call e request producer focused prior) (\<lambda>verdict.
     bind (pure (observed_edges prior (payload_parts producer) [])) (\<lambda>edges.
     bind (pure (with_observed_edges edges verdict)) (\<lambda>verdict.
       canonical_accesses e producer verdict)))"

definition assess_fresh :: "'w prov_env \<Rightarrow> call_node list \<Rightarrow> string \<Rightarrow> 'w assessor \<Rightarrow> 'w nested \<Rightarrow> 'w assessor" where
  "assess_fresh e calls sess assess nested index selection resources =
     (let H = pe_hash e; producer = calls ! index; prior = take index calls in
      bind (pure (focus H selection resources producer)) (\<lambda>focused.
      let request = review_request H (prefixes H (first_prefix H (pe_model e) (pe_workspace e) sess) calls ! index) focused in
      bind (full_verdict e request producer focused prior) (\<lambda>(projections, verdict).
      let edges = edges_by_node (verdict_edges verdict);
          origins = matching_producers (pe_events e) (pe_bounds e) (pe_workspace e) (c_event producer) (pe_lineage e) in
      bind (each (follow_demand calls sess index edges assess nested) (demands_of projections verdict origins) ([], [])) (\<lambda>(links, resource_links).
      bind (each (follow_edge calls index assess) (verdict_edges verdict) links) (\<lambda>links.
      let rvn = assessment_revision H request verdict links resource_links in
      bind (commit (store_assessment H (pe_workspace e) sess (pe_model e) request producer selection resources rvn verdict links resource_links)) (\<lambda>u.
      bind (record_assessed (assess_key H index selection resources) rvn verdict) (\<lambda>u.
        ret (rvn, verdict))))))))"

definition ASSESSED_LIMIT :: nat where "ASSESSED_LIMIT = 50000"

text \<open>The first argument is the depth left: 128 for the call an analysis starts from.\<close>

primrec assess :: "nat \<Rightarrow> 'w prov_env \<Rightarrow> call_node list \<Rightarrow> string \<Rightarrow> 'w nested \<Rightarrow> 'w assessor" where
  "assess 0 e calls sess nested index selection resources = raise (GraphUnavailable ''output_provenance_expansion_budget'')"
| "assess (Suc depth) e calls sess nested index selection resources =
     bind (gets an_assessed) (\<lambda>assessed.
       if ASSESSED_LIMIT < length assessed then raise (GraphUnavailable ''output_provenance_expansion_budget'')
       else case map_of assessed (assess_key (pe_hash e) index selection resources) of
           Some known \<Rightarrow> ret known
         | None \<Rightarrow> assess_fresh e calls sess (assess depth e calls sess nested) nested index selection resources)"

section \<open>The analysis of an event\<close>

definition DEPTH :: nat where "DEPTH = 128"
definition VISITS :: nat where "VISITS = 64"

definition witnessed_calls :: "'w prov_env \<Rightarrow> string \<Rightarrow> json list option \<Rightarrow> call_node list \<Rightarrow> call_node list" where
  "witnessed_calls e event evidence calls = map (\<lambda>c.
     let c = attach_witnesses (pe_events e) (pe_bounds e) (pe_workspace e) (pe_lineage e) c in
     case evidence of
       Some parts \<Rightarrow> if c_event c = event then c\<lparr>c_extra := dict_set ''payload_observations'' (JArr parts) (c_extra c)\<rparr> else c
     | None \<Rightarrow> c) calls"

text \<open>An analysis has its own table of assessments and its own acquired evidence.\<close>

definition own_scope :: "('w, 'a) step \<Rightarrow> ('w, 'a) step" where
  "own_scope m s =
     (let (r, t) = m (s\<lparr>an_assessed := [], an_reviews := (an_reviews s)\<lparr>rw_shared := []\<rparr>\<rparr>)
      in (r, t\<lparr>an_assessed := an_assessed s, an_reviews := (an_reviews t)\<lparr>rw_shared := rw_shared (an_reviews s)\<rparr>\<rparr>))"

definition session_calls :: "'w prov_env \<Rightarrow> string option \<Rightarrow> string \<Rightarrow> call_node list res" where
  "session_calls e sess event =
     (case (case sess of None \<Rightarrow> Inr []
            | Some s \<Rightarrow> load_calls (pe_hash e) (pe_events e) (pe_bounds e) (pe_workspace e) s event 50000 64000000) of
        Inl x \<Rightarrow> Inl x
      | Inr calls \<Rightarrow> if calls = [] then Inl (GraphUnavailable ''tool_call_missing'') else Inr calls)"

text \<open>
  The first argument is the number of events that may still be visited on top of
  \<open>visiting\<close>; the result is the node, its revision and its verdict.
\<close>

primrec analyze_scope :: "nat \<Rightarrow> 'w prov_env \<Rightarrow> string list \<Rightarrow> string option \<Rightarrow> string \<Rightarrow> json list option \<Rightarrow> dict list option
    \<Rightarrow> ('w, string \<times> string \<times> dict) step" where
  "analyze_scope 0 e visiting sess event evidence scope = raise (GraphUnavailable ''resource_lineage_expansion_budget'')"
| "analyze_scope (Suc visits) e visiting sess event evidence scope =
     (if event \<in> set visiting then raise (GraphUnavailable ''resource_lineage_expansion_budget'')
      else bind (pure (session_calls e sess event)) (\<lambda>calls.
        let calls = witnessed_calls e event evidence calls;
            nested = (\<lambda>origin ev requested.
              bind (analyze_scope visits e (event # visiting) origin ev None (Some requested)) (\<lambda>(node, rvn, v). ret (node, rvn)))
        in case event_index event calls of
             None \<Rightarrow> raise (GraphUnavailable ''current_node_missing'')
           | Some i \<Rightarrow>
               bind (own_scope (assess DEPTH e calls (the sess) nested i JNull scope)) (\<lambda>(rvn, v).
                 ret (c_node (calls ! i), rvn, v))))"

definition set_progress :: "string \<Rightarrow> string \<Rightarrow> string \<Rightarrow> graph_db \<Rightarrow> graph_db" where
  "set_progress ws sess event db = db\<lparr>g_progress := ins_replace (\<lambda>p. (pg_ws p, pg_sess p))
     \<lparr>pg_ws = ws, pg_sess = sess, pg_event = event, pg_state = ''analyzing''\<rparr> (g_progress db)\<rparr>"

text \<open>\<open>refresh\<close> reads the registered sources in the final transaction.\<close>

definition analyze_properties :: "'w prov_env \<Rightarrow> string \<Rightarrow> string \<Rightarrow> json list option \<Rightarrow> ('w \<Rightarrow> dict list res \<times> 'w) \<Rightarrow> bool
    \<Rightarrow> ('w, outcome) step" where
  "analyze_properties e sess event evidence refresh require_external =
     bind (modify (\<lambda>s. s\<lparr>an_graph := set_progress (pe_workspace e) sess event (an_graph s)\<rparr>)) (\<lambda>u.
     bind (analyze_scope VISITS e [] (Some sess) event evidence None) (\<lambda>(node, rvn, verdict).
     bind (in_world refresh) (\<lambda>srcs. \<lambda>s.
       let (r, db) = decide_properties (pe_hash e) (pe_workspace e) sess event node rvn verdict srcs require_external (an_graph s)
       in (r, s\<lparr>an_graph := db\<rparr>))))"

end
