(* ===== verification/Provenance_Sound.thy ===== *)
theory Provenance_Sound
  imports Provenance
begin

text \<open>
  What \<open>analyze_properties\<close> guarantees, whatever the judge answers and wherever it fails: the
  recorded graph stays sound, narrowed assessments leave the current revisions alone, and every
  transmission the controller observed is a parent of the send it decides on.
\<close>

section \<open>The recorded graph stays sound\<close>

text \<open>
  Every edge has a pinned parent revision, every dependency of a recorded verdict is an edge, and
  pinned parents, heads and completed reviews name recorded revisions.
\<close>

definition edge_pinned :: "graph_db \<Rightarrow> edge_row \<Rightarrow> bool" where
  "edge_pinned db e \<longleftrightarrow> (ed_rev e, ed_src e) \<in> (\<lambda>l. (lk_rev l, lk_parent l)) ` set (g_links db)"

abbreviation edge_keys :: "graph_db \<Rightarrow> (string \<times> string \<times> string) set" where
  "edge_keys db \<equiv> (\<lambda>e. (ed_rev e, ed_src e, ed_dst e)) ` set (g_edges db)"

definition verdict_recorded :: "graph_db \<Rightarrow> revision_row \<Rightarrow> bool" where
  "verdict_recorded db r \<longleftrightarrow> (\<forall>e \<in> set (verdict_edges (rv_verdict r)). (rv_rev r, edge_node e, rv_node r) \<in> edge_keys db)"

definition graph_ok :: "graph_db \<Rightarrow> bool" where
  "graph_ok db \<longleftrightarrow> links_recorded db \<and> (\<forall>e \<in> set (g_edges db). edge_pinned db e) \<and>
     (\<forall>h \<in> set (g_heads db). recorded_rev db (hd_rev h)) \<and> (\<forall>c \<in> set (g_completed db). recorded_rev db (snd c)) \<and>
     (\<forall>r \<in> set (g_revisions db). verdict_recorded db r)"

lemma verdict_recorded_mono:
  assumes "verdict_recorded db r" and "edge_keys db \<subseteq> edge_keys db'"
  shows "verdict_recorded db' r"
  unfolding verdict_recorded_def
  by (intro ballI subsetD [OF assms(2)] bspec [OF assms(1) [unfolded verdict_recorded_def]])

lemma key_ins_ignore: "key ` set (ins_ignore key r t) = insert (key r) (key ` set t)"
proof (cases "list_ex (\<lambda>x. key x = key r) t")
  case True
  then have "key r \<in> key ` set t" by (auto simp: list_ex_iff intro: rev_image_eqI)
  with True show ?thesis by (simp add: ins_ignore_def insert_absorb)
qed (simp add: ins_ignore_def)

lemma key_add_all: "key ` set (add_all key rs t) = key ` set rs \<union> key ` set t"
  by (induction rs arbitrary: t) (auto simp: add_all_def key_ins_ignore)

lemma link_rows_keys: "link_rows rvn links es = Inr lrows \<Longrightarrow> (\<lambda>l. (lk_rev l, lk_parent l)) ` set lrows = (\<lambda>e. (rvn, edge_node e)) ` set es"
proof (induction es arbitrary: lrows)
  case (Cons e es)
  then obtain prev ls where "link_rows rvn links es = Inr ls"
    "lrows = \<lparr>lk_rev = rvn, lk_parent = edge_node e, lk_parent_rev = prev\<rparr> # ls"
    by (auto split: option.splits sum.splits)
  with Cons.IH show ?case by simp
qed simp

lemma pinned_mono: "edge_pinned db e \<Longrightarrow> (\<lambda>l. (lk_rev l, lk_parent l)) ` set (g_links db) \<subseteq> (\<lambda>l. (lk_rev l, lk_parent l)) ` set (g_links db') \<Longrightarrow>
    edge_pinned db' e"
  unfolding edge_pinned_def by blast

lemma head_of_in: "head_of db ws sess node = Some rvn \<Longrightarrow> \<exists>h \<in> set (g_heads db). hd_rev h = rvn"
  by (auto simp: head_of_def dest: find_Some_in)

lemma persist_ok:
  assumes p: "persist ws sess c rvn model verdict (Some links) db = Inr db'" and ok: "graph_ok db"
    and l: "\<forall>x \<in> set links. recorded_rev db (snd x)"
  shows "graph_ok db' \<and> recorded_rev db' rvn \<and> (\<forall>r. recorded_rev db r \<longrightarrow> recorded_rev db' r)"
proof (cases "head_of db ws sess (c_node c) = Some rvn")
  case True
  with p have "db' = db" by (simp add: persist_def)
  with True ok head_of_in show ?thesis by (fastforce simp: graph_ok_def)
next
  case False
  let ?row = "\<lparr>rv_rev = rvn, rv_ws = ws, rv_sess = sess, rv_node = c_node c, rv_event = c_event c,
               rv_model = model, rv_prompt = PROMPT_VERSION, rv_verdict = verdict\<rparr>"
  from False p obtain lrows where lr: "link_rows rvn links (verdict_edges verdict) = Inr lrows"
    and r: "g_revisions db' = ins_ignore rv_rev ?row (g_revisions db)"
    and e: "g_edges db' = add_all (\<lambda>e. (ed_rev e, ed_src e, ed_dst e))
              (map (\<lambda>e. \<lparr>ed_rev = rvn, ed_src = edge_node e, ed_dst = c_node c, ed_reason = dget e ''reason''\<rparr>) (verdict_edges verdict)) (g_edges db)"
    and k: "g_links db' = add_all (\<lambda>l. (lk_rev l, lk_parent l)) lrows (g_links db)"
    and h: "g_heads db' = ins_replace head_key \<lparr>hd_ws = ws, hd_sess = sess, hd_node = c_node c, hd_rev = rvn\<rparr> (g_heads db)"
    and g: "g_completed db' = g_completed db"
    by (auto simp: persist_def split: sum.splits)
  have rec: "recorded_rev db' x \<longleftrightarrow> recorded_rev db x \<or> x = rvn" for x by (rule recorded_rev_ins [OF _ r]) simp
  have "links_recorded db'"
    by (rule persist_links_recorded [OF p]) (use ok l in \<open>fastforce simp: graph_ok_def dest: map_of_SomeD\<close>)+
  moreover have "\<forall>x \<in> set (g_edges db'). edge_pinned db' x"
  proof
    fix x assume "x \<in> set (g_edges db')"
    with e set_add_all have "x \<in> set (g_edges db) \<or> (\<exists>y \<in> set (verdict_edges verdict). ed_rev x = rvn \<and> ed_src x = edge_node y)"
      by fastforce
    moreover have "(\<lambda>l. (lk_rev l, lk_parent l)) ` set (g_links db') =
      (\<lambda>e. (rvn, edge_node e)) ` set (verdict_edges verdict) \<union> (\<lambda>l. (lk_rev l, lk_parent l)) ` set (g_links db)"
      by (simp only: k key_add_all link_rows_keys [OF lr])
    ultimately show "edge_pinned db' x" using ok unfolding graph_ok_def edge_pinned_def by auto
  qed
  moreover have "\<forall>x \<in> set (g_heads db'). recorded_rev db' (hd_rev x)"
    using ok rec unfolding h by (auto simp: graph_ok_def set_ins_replace)
  moreover have "\<forall>x \<in> set (g_revisions db'). verdict_recorded db' x"
  proof
    have new: "(\<lambda>e. (rvn, edge_node e, c_node c)) ` set (verdict_edges verdict) \<subseteq> edge_keys db'" and old: "edge_keys db \<subseteq> edge_keys db'"
      unfolding e key_add_all by (simp_all add: image_image)
    fix x assume "x \<in> set (g_revisions db')"
    then have "x \<in> set (g_revisions db) \<or> x = ?row"
      using set_ins_ignore [of rv_rev ?row "g_revisions db"] unfolding r by blast
    then show "verdict_recorded db' x"
    proof
      assume "x \<in> set (g_revisions db)"
      with ok have "verdict_recorded db x" by (simp add: graph_ok_def)
      then show ?thesis using old by (rule verdict_recorded_mono)
    next
      assume "x = ?row"
      with new show ?thesis by (simp add: verdict_recorded_def image_subset_iff)
    qed
  qed
  ultimately show ?thesis using ok rec g by (auto simp: graph_ok_def)
qed

text \<open>What the rest of the transaction may change.\<close>

lemma add_resource_link_ok:
  assumes "graph_ok db" and "recorded_rev db (snd pr)"
  shows "graph_ok (add_resource_link rvn node pr db) \<and> g_revisions (add_resource_link rvn node pr db) = g_revisions db"
proof -
  let ?db = "add_resource_link rvn node pr db"
  let ?k = "\<lambda>l. (lk_rev l, lk_parent l)"
  have rec: "recorded_rev ?db x = recorded_rev db x" for x by (simp add: recorded_rev_def add_resource_link_def)
  have k: "?k ` set (g_links ?db) = insert (rvn, fst pr) (?k ` set (g_links db))"
    by (simp add: add_resource_link_def key_ins_ignore)
  have "set (g_links ?db) \<subseteq> insert \<lparr>lk_rev = rvn, lk_parent = fst pr, lk_parent_rev = snd pr\<rparr> (set (g_links db))"
    using set_ins_ignore by (fastforce simp: add_resource_link_def)
  then have "links_recorded ?db"
    using assms unfolding links_recorded_def list_all_iff rec graph_ok_def by auto
  moreover have "edge_pinned ?db x" if "x \<in> set (g_edges ?db)" for x
  proof -
    from that set_ins_ignore have "x \<in> set (g_edges db) \<or> (ed_rev x, ed_src x) = (rvn, fst pr)"
      by (fastforce simp: add_resource_link_def)
    with assms(1) k show ?thesis unfolding graph_ok_def edge_pinned_def by auto
  qed
  moreover have g: "g_heads ?db = g_heads db" "g_completed ?db = g_completed db" "g_revisions ?db = g_revisions db"
    by (simp_all add: add_resource_link_def)
  moreover have "edge_keys db \<subseteq> edge_keys ?db" by (auto simp: add_resource_link_def key_ins_ignore)
  then have "\<forall>r \<in> set (g_revisions ?db). verdict_recorded ?db r"
    using assms(1) verdict_recorded_mono [of db _ ?db] unfolding g graph_ok_def by simp
  ultimately show ?thesis using assms(1) by (simp add: graph_ok_def rec)
qed

lemma add_resource_links_ok:
  "graph_ok db \<Longrightarrow> \<forall>pr \<in> set prs. recorded_rev db (snd pr) \<Longrightarrow>
   graph_ok (fold (add_resource_link rvn node) prs db) \<and> g_revisions (fold (add_resource_link rvn node) prs db) = g_revisions db"
proof (induction prs arbitrary: db)
  case (Cons pr prs)
  from Cons.prems add_resource_link_ok [of db pr rvn node]
  have a: "graph_ok (add_resource_link rvn node pr db)" "g_revisions (add_resource_link rvn node pr db) = g_revisions db" by auto
  with Cons.prems(2) have "\<forall>x \<in> set prs. recorded_rev (add_resource_link rvn node pr db) (snd x)"
    by (auto simp: recorded_rev_def)
  with Cons.IH [OF a(1)] Cons.prems(2) a show ?case by (simp add: recorded_rev_def)
qed simp

lemma graph_ok_heads:
  assumes "graph_ok db" and "\<And>r. old = Some r \<Longrightarrow> recorded_rev db r"
  shows "graph_ok (restore_head ws sess node old db)"
  using assms
  by (auto simp: graph_ok_def restore_head_def links_recorded_def recorded_rev_def edge_pinned_def verdict_recorded_def set_upd_where del_where_def
      split: option.splits)

lemma store_assessment_ok:
  assumes st: "store_assessment H ws sess model request c selection resources rvn verdict links resource_links db = Inr db'"
    and ok: "graph_ok db" and l: "\<forall>x \<in> set links. recorded_rev db (snd x)" "\<forall>x \<in> set resource_links. recorded_rev db (snd x)"
  shows "graph_ok db' \<and> recorded_rev db' rvn \<and> (\<forall>r. recorded_rev db r \<longrightarrow> recorded_rev db' r)"
proof -
  from st obtain db1 where p: "persist ws sess c rvn model verdict (Some links) db = Inr db1"
    by (auto simp: store_assessment_def split: sum.splits)
  from persist_ok [OF p ok l(1)] have 1: "graph_ok db1" "recorded_rev db1 rvn" "\<And>r. recorded_rev db r \<Longrightarrow> recorded_rev db1 r" by auto
  define db2 where "db2 = fold (add_resource_link rvn (c_node c)) resource_links db1"
  from add_resource_links_ok [OF 1(1)] 1(3) l(2) have 2: "graph_ok db2" "g_revisions db2 = g_revisions db1"
    unfolding db2_def by auto
  define db3 where "db3 = (if selection = JNull then db2 else db2\<lparr>g_outsel := ins_ignore fst
                     (rvn, c_node c, selection, digest H (c_output c)) (g_outsel db2)\<rparr>)"
  define db4 where "db4 = (case resources of None \<Rightarrow> db3 | Some rs \<Rightarrow> db3\<lparr>g_ressel := ins_ignore fst
                     (rvn, c_node c, JArr (map JObj rs)) (g_ressel db3)\<rparr>)"
  define db5 where "db5 = (if selection = JNull \<and> resources = None then db4 else restore_head ws sess (c_node c) (head_of db ws sess (c_node c)) db4)"
  have st': "db' = (if is_complete verdict then db5\<lparr>g_completed := ins_replace fst (request, rvn) (g_completed db5)\<rparr> else db5)"
    using st unfolding store_assessment_def p sum.case Let_def db2_def [symmetric] db3_def [symmetric] db4_def [symmetric] db5_def [symmetric]
    by (simp only: sum.inject)
  have 3: "graph_ok db4" "g_revisions db4 = g_revisions db1"
    using 2 by (auto simp: db3_def db4_def graph_ok_def links_recorded_def recorded_rev_def edge_pinned_def verdict_recorded_def split: option.splits)
  have "recorded_rev db4 r" if "head_of db ws sess (c_node c) = Some r" for r
    using head_of_in [OF that] ok 1(3) 3(2) by (auto simp: graph_ok_def recorded_rev_def)
  then have 5: "graph_ok db5" "g_revisions db5 = g_revisions db1"
    using 3 graph_ok_heads [of db4] by (auto simp: db5_def restore_head_def)
  then have "graph_ok db' \<and> g_revisions db' = g_revisions db1"
    using 1(2) by (auto simp: st' graph_ok_def links_recorded_def recorded_rev_def edge_pinned_def verdict_recorded_def set_ins_replace)
  with 1 show ?thesis by (simp add: recorded_rev_def)
qed

definition sound :: "string set \<Rightarrow> 'w analysis \<Rightarrow> bool" where
  "sound R s \<longleftrightarrow> graph_ok (an_graph s) \<and> (\<forall>r \<in> R. recorded_rev (an_graph s) r) \<and>
     (\<forall>a \<in> set (an_assessed s). recorded_rev (an_graph s) (fst (snd a)))"

lemma sound_mono: "sound R s \<Longrightarrow> R' \<subseteq> R \<Longrightarrow> sound R' s"
  by (auto simp: sound_def)

text \<open>An action that returns a recorded revision and forgets none.\<close>

definition yields :: "('a \<Rightarrow> string) \<Rightarrow> ('w, 'a) step \<Rightarrow> bool" where
  "yields f m \<longleftrightarrow> (\<forall>R. hoare (sound R) m (\<lambda>x. sound (insert (f x) R)) (sound R))"

lemma on_reviews_fields: "on_reviews m s = (r, t) \<Longrightarrow> an_graph t = an_graph s \<and> an_assessed t = an_assessed s"
  by (auto simp: on_reviews_def split: prod.splits)

lemma keeps_on_reviews:
  "(\<And>s t. I s \<Longrightarrow> an_graph t = an_graph s \<Longrightarrow> an_assessed t = an_assessed s \<Longrightarrow> I t) \<Longrightarrow> keeps I (on_reviews m)"
  by (rule hoareI) (metis on_reviews_fields)+

definition review_blind :: "('w analysis \<Rightarrow> bool) \<Rightarrow> bool" where
  "review_blind I \<longleftrightarrow> (\<forall>s t. I s \<longrightarrow> an_graph t = an_graph s \<longrightarrow> an_assessed t = an_assessed s \<longrightarrow> I t)"

lemma keeps_reviews: "review_blind I \<Longrightarrow> keeps I (on_reviews m)"
  by (rule keeps_on_reviews) (auto simp: review_blind_def)

lemma keeps_world: "review_blind I \<Longrightarrow> keeps I (in_world m)"
  unfolding in_world_def by (rule keeps_reviews)

lemma hoare_case_prod: "(\<And>a b. x = (a, b) \<Longrightarrow> hoare P (f a b) Q E) \<Longrightarrow> hoare P (case x of (a, b) \<Rightarrow> f a b) Q E"
  by (cases x) simp

lemma judge_call_keeps: "review_blind I \<Longrightarrow> keeps I (judge_call e request producer focused prior)"
  unfolding judge_call_def cached_judgment_def
  by (intro hoare_bind [where R = "\<lambda>x. I"] hoare_attempt [where R = I] hoare_option hoare_if act_rules keeps_world keeps_reviews; assumption)

lemma identify_keeps: "review_blind I \<Longrightarrow> keeps I (identify e c path)"
  unfolding identify_def by (rule keeps_world)

lemma note_origin_keeps: "review_blind I \<Longrightarrow> keeps I (note_origin e c p acc)"
  unfolding note_origin_def
  by (cases "dget (part_observation p) ''context_origin''")
    (simp_all, (intro hoare_bind [where R = "\<lambda>x. I"] act_rules identify_keeps; assumption)+)

lemma drop_whole_file_keeps: "review_blind I \<Longrightarrow> keeps I (drop_whole_file e c p acc)"
  unfolding drop_whole_file_def by (intro hoare_if hoare_bind [where R = "\<lambda>x. I"] act_rules identify_keeps; assumption)

lemma canonical_access_keeps: "review_blind I \<Longrightarrow> keeps I (canonical_access e c access acc)"
  unfolding canonical_access_def Let_def by (intro hoare_bind [where R = "\<lambda>x. I"] act_rules identify_keeps; assumption)

lemma canonical_accesses_keeps: "review_blind I \<Longrightarrow> keeps I (canonical_accesses e c verdict)"
  unfolding canonical_accesses_def
  by (intro hoare_bind [where R = "\<lambda>x. I"] hoare_case_prod hoare_each [where I = "\<lambda>x. I"] act_rules
      note_origin_keeps drop_whole_file_keeps canonical_access_keeps; assumption)

lemma full_verdict_keeps: "review_blind I \<Longrightarrow> keeps I (full_verdict e request producer focused prior)"
  unfolding full_verdict_def
  by (intro hoare_bind [where R = "\<lambda>x. I"] act_rules judge_call_keeps canonical_accesses_keeps; assumption)

lemma sound_blind: "review_blind (sound R)"
  by (simp add: review_blind_def sound_def)

lemma yieldsD: "yields f m \<Longrightarrow> hoare (sound R) m (\<lambda>x. sound (insert (f x) R)) (sound R)"
  by (simp add: yields_def)

lemma hoare_weaken: "hoare (sound R') m Q (sound R') \<Longrightarrow> R \<subseteq> R' \<Longrightarrow> hoare (sound R') m Q (sound R)"
  by (erule hoare_conseq) (auto intro: sound_mono)

abbreviation link_revs :: "links \<Rightarrow> string set" where
  "link_revs l \<equiv> snd ` set l"

lemma link_revs_set: "link_revs (dict_set n r l) \<subseteq> insert r (link_revs l)"
  using set_dict_set_subset [of n r l] by auto

lemma hoare_use:
  assumes "yields f m" and "\<And>x. hoare (sound (insert (f x) R')) (g x) Q (sound R)" and "R \<subseteq> R'"
  shows "hoare (sound R') (bind m g) Q (sound R)"
  using hoare_weaken [OF yieldsD [OF assms(1)] assms(3)] assms(2) by (rule hoare_bind)

lemma hoare_ret_case:
  "(\<And>x y. z = (x, y) \<Longrightarrow> R (h x y) \<subseteq> R') \<Longrightarrow> hoare (sound R') (case z of (x, y) \<Rightarrow> ret (h x y)) (\<lambda>a. sound (R a)) E"
  by (cases z) (auto intro!: act_rules elim: sound_mono)

lemma follow_demand_sound:
  assumes a: "\<And>i sel res. yields fst (asr i sel res)" and n: "\<And>s ev res. yields snd (nested s ev res)"
  shows "hoare (sound (R \<union> link_revs (snd acc) \<union> link_revs (fst acc))) (follow_demand calls sess index edges asr nested d acc)
    (\<lambda>acc. sound (R \<union> link_revs (snd acc) \<union> link_revs (fst acc))) (sound R)"
proof -
  let ?R = "R \<union> link_revs (snd acc) \<union> link_revs (fst acc)"
  obtain event origin requested where d: "d = ((event, origin), requested)" by (metis prod.exhaust)
  consider (far) "origin \<noteq> Some sess" | (lost) "origin = Some sess" "event_index event (take index calls) = None"
    | (near) i where "origin = Some sess" "event_index event (take index calls) = Some i" by (cases "event_index event (take index calls)") auto
  then show ?thesis
  proof cases
    case far
    then have "follow_demand calls sess index edges asr nested d acc =
        bind (nested origin event requested) (\<lambda>(node, rvn). ret (fst acc, snd acc @ [(node, rvn)]))"
      by (simp add: follow_demand_def d)
    moreover have "hoare (sound ?R) (bind (nested origin event requested) (\<lambda>(node, rvn). ret (fst acc, snd acc @ [(node, rvn)])))
       (\<lambda>acc. sound (R \<union> link_revs (snd acc) \<union> link_revs (fst acc))) (sound R)"
      by (intro hoare_use [OF n] hoare_ret_case) auto
    ultimately show ?thesis by simp
  next
    case lost
    then have "follow_demand calls sess index edges asr nested d acc = raise (GraphUnavailable ''resource_producer_missing'')"
      by (simp add: follow_demand_def d)
    then show ?thesis by (auto intro!: hoare_raise elim: sound_mono)
  next
    case near
    let ?node = "c_node (calls ! i)"
    have "follow_demand calls sess index edges asr nested d acc =
        bind (asr i (case map_of edges ?node of None \<Rightarrow> JNull | Some edge \<Rightarrow> dget edge ''selection'') (Some requested)) (\<lambda>(rvn, v).
          ret (if map_of edges ?node = None then fst acc else dict_set ?node rvn (fst acc), snd acc @ [(?node, rvn)]))"
      using near by (simp add: follow_demand_def d Let_def)
    moreover have "hoare (sound ?R) (bind (asr i (case map_of edges ?node of None \<Rightarrow> JNull | Some edge \<Rightarrow> dget edge ''selection'') (Some requested)) (\<lambda>(rvn, v).
          ret (if map_of edges ?node = None then fst acc else dict_set ?node rvn (fst acc), snd acc @ [(?node, rvn)])))
       (\<lambda>acc. sound (R \<union> link_revs (snd acc) \<union> link_revs (fst acc))) (sound R)"
      by (intro hoare_use [OF a] hoare_ret_case) (use link_revs_set [of ?node _ "fst acc"] in auto)
    ultimately show ?thesis by simp
  qed
qed

lemma follow_edge_sound:
  assumes a: "\<And>i sel res. yields fst (asr i sel res)"
  shows "hoare (sound (R \<union> link_revs links)) (follow_edge calls index asr edge links) (\<lambda>links. sound (R \<union> link_revs links)) (sound R)"
  unfolding follow_edge_def
proof (intro hoare_if hoare_option)
  fix i
  show "hoare (sound (R \<union> link_revs links)) (bind (asr i (dget edge ''selection'') None) (\<lambda>(rvn, v). ret (dict_set (edge_node edge) rvn links)))
        (\<lambda>links. sound (R \<union> link_revs links)) (sound R)"
    by (intro hoare_use [OF a] hoare_ret_case) (use link_revs_set [of "edge_node edge" _ links] in auto)
qed (auto intro!: act_rules elim: sound_mono)

lemma commit_sound:
  assumes "link_revs links \<subseteq> R" and "link_revs resource_links \<subseteq> R"
  shows "hoare (sound R) (commit (store_assessment H ws sess model request c selection resources rvn verdict links resource_links))
    (\<lambda>u. sound (insert rvn R)) (sound R)"
proof (rule hoareI)
  let ?st = "store_assessment H ws sess model request c selection resources rvn verdict links resource_links"
  fix s :: "'a analysis" and x t assume s: "sound R s" and c: "commit ?st s = (Inr x, t)"
  then obtain db where db: "?st (an_graph s) = Inr db" and t: "t = s\<lparr>an_graph := db\<rparr>" by (auto simp: commit_def split: sum.splits)
  have l: "\<forall>x \<in> set links. recorded_rev (an_graph s) (snd x)" "\<forall>x \<in> set resource_links. recorded_rev (an_graph s) (snd x)"
    using s assms by (auto simp: sound_def subset_iff image_iff)
  from store_assessment_ok [OF db _ l] s t show "sound (insert rvn R) t" by (auto simp: sound_def)
next
  fix s :: "'a analysis" and e t
  assume "sound R s" and "commit (store_assessment H ws sess model request c selection resources rvn verdict links resource_links) s = (Inl e, t)"
  then show "sound R t" by (auto simp: commit_def split: sum.splits)
qed

lemma record_assessed_sound: "rvn \<in> R \<Longrightarrow> hoare (sound R) (record_assessed key rvn verdict) (\<lambda>u. sound R) E"
  unfolding record_assessed_def
  by (intro act_rules) (use set_dict_set_subset [of key "(rvn, verdict)"] in \<open>fastforce simp: sound_def\<close>)

lemma hoare_error: "hoare P m Q E' \<Longrightarrow> (\<And>s. E' s \<Longrightarrow> E s) \<Longrightarrow> hoare P m Q E"
  by (erule hoare_conseq)

lemma assess_fresh_sound:
  assumes a: "\<And>i sel res. yields fst (asr i sel res)" and n: "\<And>s ev res. yields snd (nested s ev res)"
  shows "yields fst (assess_fresh e calls sess asr nested index selection resources)"
  unfolding yields_def
proof
  fix R :: "string set"
  have demands: "hoare (sound R) (each (follow_demand calls sess index edges asr nested) ds ([], []))
      (\<lambda>acc. sound (R \<union> link_revs (snd acc) \<union> link_revs (fst acc))) (sound R)" for edges ds
  proof -
    have "hoare ((\<lambda>acc. sound (R \<union> link_revs (snd acc) \<union> link_revs (fst acc))) ([], [])) (each (follow_demand calls sess index edges asr nested) ds ([], []))
      (\<lambda>acc. sound (R \<union> link_revs (snd acc) \<union> link_revs (fst acc))) (sound R)"
      by (rule hoare_each) (rule follow_demand_sound [OF a n])
    then show ?thesis by simp
  qed
  have edges: "hoare (sound (R' \<union> link_revs links)) (each (follow_edge calls index asr) es links)
      (\<lambda>links. sound (R' \<union> link_revs links)) (sound R)" if "R \<subseteq> R'" for R' links es
  proof -
    have "hoare ((\<lambda>links. sound (R' \<union> link_revs links)) links) (each (follow_edge calls index asr) es links)
      (\<lambda>links. sound (R' \<union> link_revs links)) (sound R')"
      by (rule hoare_each) (rule follow_edge_sound [OF a])
    then show ?thesis by (rule hoare_error) (use that in \<open>auto elim: sound_mono\<close>)
  qed
  have last: "hoare (sound R')
      (bind (commit (store_assessment H ws sess model request c selection resources rvn verdict links resource_links)) (\<lambda>u.
        bind (record_assessed key rvn verdict) (\<lambda>u. ret (rvn, verdict)))) (\<lambda>x. sound (insert (fst x) R)) (sound R)"
    if "R \<subseteq> R'" and "link_revs links \<subseteq> R'" and "link_revs resource_links \<subseteq> R'"
    for R' H ws model request c rvn verdict links resource_links key
  proof (rule hoare_bind [OF hoare_error [OF commit_sound [OF that(2,3)]]])
    show "hoare (sound (insert rvn R')) (bind (record_assessed key rvn verdict) (\<lambda>u. ret (rvn, verdict))) (\<lambda>x. sound (insert (fst x) R)) (sound R)"
      by (rule hoare_bind [OF record_assessed_sound]) (use that(1) in \<open>auto intro!: act_rules elim: sound_mono\<close>)
  qed (use that(1) in \<open>auto elim: sound_mono\<close>)
  show "hoare (sound R) (assess_fresh e calls sess asr nested index selection resources) (\<lambda>x. sound (insert (fst x) R)) (sound R)"
    unfolding assess_fresh_def Let_def
  proof (rule hoare_bind [where R = "\<lambda>x. sound R"])
    show "hoare (sound R) (pure (focus (pe_hash e) selection resources (calls ! index))) (\<lambda>x. sound R) (sound R)"
      by (intro act_rules; assumption)
  next
    fix focused
    let ?req = "review_request (pe_hash e) (prefixes (pe_hash e) (first_prefix (pe_hash e) (pe_model e) (pe_workspace e) sess) calls ! index) focused"
    show "hoare (sound R) (bind (full_verdict e ?req (calls ! index) focused (take index calls)) (\<lambda>(projections, verdict).
        bind (each (follow_demand calls sess index (edges_by_node (verdict_edges verdict)) asr nested)
          (demands_of projections verdict (matching_producers (pe_events e) (pe_bounds e) (pe_workspace e) (c_event (calls ! index)) (pe_lineage e))) ([], []))
         (\<lambda>(links, resource_links). bind (each (follow_edge calls index asr) (verdict_edges verdict) links) (\<lambda>links.
           bind (commit (store_assessment (pe_hash e) (pe_workspace e) sess (pe_model e) ?req (calls ! index) selection resources
               (assessment_revision (pe_hash e) ?req verdict links resource_links) verdict links resource_links)) (\<lambda>u.
           bind (record_assessed (assess_key (pe_hash e) index selection resources) (assessment_revision (pe_hash e) ?req verdict links resource_links) verdict)
             (\<lambda>u. ret (assessment_revision (pe_hash e) ?req verdict links resource_links, verdict)))))))
      (\<lambda>x. sound (insert (fst x) R)) (sound R)"
      apply (rule hoare_bind [OF full_verdict_keeps [OF sound_blind]])
      apply (rule hoare_case_prod)
      apply (rule hoare_bind [OF demands])
      apply (rule hoare_case_prod)
      apply (simp only: fst_conv snd_conv)
      apply (rule hoare_bind [OF edges])
       apply blast
      apply (rule last)
        apply blast+
      done
  qed
qed

lemma assess_sound:
  assumes "\<And>s ev res. yields snd (nested s ev res)"
  shows "yields fst (assess depth e calls sess nested index selection resources)"
proof (induction depth arbitrary: index selection resources)
  case 0
  show ?case by (simp add: yields_def) (auto intro!: act_rules)
next
  case (Suc depth)
  show ?case unfolding yields_def
  proof
    fix R :: "string set"
    show "hoare (sound R) (assess (Suc depth) e calls sess nested index selection resources) (\<lambda>x. sound (insert (fst x) R)) (sound R)"
      unfolding assess.simps
    proof (rule hoare_bind [where R = "\<lambda>known s. sound R s \<and> known = an_assessed s"])
      show "hoare (sound R) (gets an_assessed) (\<lambda>known s. sound R s \<and> known = an_assessed s) (sound R)" by (intro act_rules) simp
    next
      fix known
      show "hoare (\<lambda>s. sound R s \<and> known = an_assessed s)
        (if ASSESSED_LIMIT < length known then raise (GraphUnavailable ''output_provenance_expansion_budget'')
         else case map_of known (assess_key (pe_hash e) index selection resources) of
             Some known \<Rightarrow> ret known
           | None \<Rightarrow> assess_fresh e calls sess (assess depth e calls sess nested) nested index selection resources)
        (\<lambda>x. sound (insert (fst x) R)) (sound R)"
      proof (intro hoare_if hoare_option)
        fix y assume "map_of known (assess_key (pe_hash e) index selection resources) = Some y"
        from map_of_SomeD [OF this] show "hoare (\<lambda>s. sound R s \<and> known = an_assessed s) (ret y) (\<lambda>x. sound (insert (fst x) R)) (sound R)"
          by (intro act_rules) (auto simp: sound_def)
      next
        show "hoare (\<lambda>s. sound R s \<and> known = an_assessed s) (assess_fresh e calls sess (assess depth e calls sess nested) nested index selection resources)
          (\<lambda>x. sound (insert (fst x) R)) (sound R)"
          using yieldsD [OF assess_fresh_sound [OF Suc.IH assms]] by (rule hoare_conseq) simp_all
      qed (auto intro!: act_rules)
    qed
  qed
qed

lemma own_scope_sound:
  fixes m :: "('a, string \<times> 'b) step"
  assumes "yields fst m"
  shows "yields fst (own_scope m)"
  unfolding yields_def
proof (rule allI, rule hoareI)
  fix R and s t :: "'a analysis" and x e
  let ?s = "s\<lparr>an_assessed := [], an_reviews := (an_reviews s)\<lparr>rw_shared := []\<rparr>\<rparr>"
  let ?R = "R \<union> (fst \<circ> snd) ` set (an_assessed s)"
  assume s: "sound R s"
  then have "sound ?R ?s" by (auto simp: sound_def)
  note h = hoare_returns [OF yieldsD [OF assms] this] hoare_raises [OF yieldsD [OF assms] this]
  show "sound (insert (fst x) R) t" if r: "own_scope m s = (Inr x, t)"
  proof -
    from r obtain t' where m: "m ?s = (Inr x, t')" and t: "t = t'\<lparr>an_assessed := an_assessed s, an_reviews := (an_reviews t')\<lparr>rw_shared := rw_shared (an_reviews s)\<rparr>\<rparr>"
      by (auto simp: own_scope_def Let_def split: prod.splits)
    from h(1) [OF m] t show ?thesis by (auto simp: sound_def)
  qed
  show "sound R t" if r: "own_scope m s = (Inl e, t)"
  proof -
    from r obtain t' where m: "m ?s = (Inl e, t')" and t: "t = t'\<lparr>an_assessed := an_assessed s, an_reviews := (an_reviews t')\<lparr>rw_shared := rw_shared (an_reviews s)\<rparr>\<rparr>"
      by (auto simp: own_scope_def Let_def split: prod.splits)
    from h(2) [OF m] t show ?thesis by (auto simp: sound_def)
  qed
qed

lemma analyze_scope_sound: "yields (fst \<circ> snd) (analyze_scope visits e visiting sess event evidence scope)"
proof (induction visits arbitrary: visiting sess event evidence scope)
  case 0
  show ?case by (simp add: yields_def) (auto intro!: act_rules)
next
  case (Suc visits)
  let ?nested = "\<lambda>origin ev requested. bind (analyze_scope visits e (event # visiting) origin ev None (Some requested)) (\<lambda>(node, rvn, v). ret (node, rvn))"
  have nested: "yields snd (?nested origin ev requested)" for origin ev requested
    unfolding yields_def by (intro allI hoare_use [OF Suc.IH]) (auto intro!: act_rules split: prod.split)
  show ?case unfolding yields_def
  proof
    fix R :: "string set"
    show "hoare (sound R) (analyze_scope (Suc visits) e visiting sess event evidence scope) (\<lambda>x. sound (insert ((fst \<circ> snd) x) R)) (sound R)"
      unfolding analyze_scope.simps Let_def
    proof (intro hoare_if hoare_bind [where R = "\<lambda>x. sound R"])
      fix calls
      let ?calls = "witnessed_calls e event evidence calls"
      show "hoare (sound R) (case event_index event ?calls of None \<Rightarrow> raise (GraphUnavailable ''current_node_missing'')
         | Some i \<Rightarrow> bind (own_scope (assess DEPTH e ?calls (the sess) ?nested i JNull scope)) (\<lambda>(rvn, v). ret (c_node (?calls ! i), rvn, v)))
         (\<lambda>x. sound (insert ((fst \<circ> snd) x) R)) (sound R)"
      proof (intro hoare_option)
        fix i
        show "hoare (sound R) (bind (own_scope (assess DEPTH e ?calls (the sess) ?nested i JNull scope)) (\<lambda>(rvn, v). ret (c_node (?calls ! i), rvn, v)))
         (\<lambda>x. sound (insert ((fst \<circ> snd) x) R)) (sound R)"
          by (rule hoare_use [OF own_scope_sound [OF assess_sound [OF nested]]]) (auto intro!: act_rules)
      qed (auto intro!: act_rules)
    qed (auto intro!: act_rules)
  qed
qed

lemma set_progress_ok: "graph_ok (set_progress ws sess event db) = graph_ok db"
  by (simp add: set_progress_def graph_ok_def links_recorded_def recorded_rev_def edge_pinned_def verdict_recorded_def)

lemma decide_properties_tables:
  "decide_properties H ws sess event node rvn verdict srcs ext db = (r, db') \<Longrightarrow>
   g_links db' = g_links db \<and> g_edges db' = g_edges db \<and> g_heads db' = g_heads db \<and> g_completed db' = g_completed db \<and>
   g_revisions db' = g_revisions db \<and> g_accesses db' = g_accesses db"
  by (auto simp: decide_properties_def Let_def split: sum.splits prod.splits if_splits)

lemma graph_ok_tables:
  "graph_ok db \<Longrightarrow> g_links db' = g_links db \<Longrightarrow> g_edges db' = g_edges db \<Longrightarrow> g_heads db' = g_heads db \<Longrightarrow> g_completed db' = g_completed db \<Longrightarrow>
   g_revisions db' = g_revisions db \<Longrightarrow> graph_ok db'"
  by (simp add: graph_ok_def links_recorded_def recorded_rev_def edge_pinned_def verdict_recorded_def)

lemma decision_keeps:
  "keeps (\<lambda>s. graph_ok (an_graph s)) (\<lambda>s. let (r, db) = decide_properties H ws sess event node rvn verdict srcs ext (an_graph s) in (r, s\<lparr>an_graph := db\<rparr>))"
  unfolding hoare_def by (auto simp: Let_def split: prod.split sum.split dest!: decide_properties_tables elim!: graph_ok_tables)

lemma analyze_properties_ok:
  assumes "graph_ok (an_graph s)" and "an_assessed s = []"
  shows "graph_ok (an_graph (snd (analyze_properties e sess event evidence refresh ext s)))"
proof -
  let ?I = "\<lambda>s :: 'a analysis. graph_ok (an_graph s)"
  have progress: "hoare (sound {}) (modify (\<lambda>s. s\<lparr>an_graph := set_progress (pe_workspace e) sess event (an_graph s)\<rparr>)) (\<lambda>u. sound {}) ?I"
    by (intro act_rules) (simp add: sound_def set_progress_ok recorded_rev_def, simp add: set_progress_def)
  have scope: "hoare (sound {}) (analyze_scope VISITS e [] (Some sess) event evidence None) (\<lambda>x. ?I) ?I"
    using yieldsD [OF analyze_scope_sound] by (rule hoare_conseq) (auto simp: sound_def)
  have world: "keeps ?I (in_world refresh)" by (rule keeps_world) (simp add: review_blind_def)
  have "hoare (sound {}) (analyze_properties e sess event evidence refresh ext) (\<lambda>x. ?I) ?I"
    unfolding analyze_properties_def
    by (rule hoare_bind [OF progress], rule hoare_bind [OF scope], intro hoare_case_prod, rule hoare_bind [OF world], rule decision_keeps)
  moreover have "sound {} s" using assms by (simp add: sound_def)
  ultimately show ?thesis unfolding hoare_def by (cases "analyze_properties e sess event evidence refresh ext s") (fastforce split: sum.splits)
qed

lemma revision_parents_total:
  assumes "graph_ok db"
  shows "\<exists>ps. revision_parents db ws nr = Inr ps \<and> (\<forall>p \<in> set ps. recorded_rev db (snd p))"
proof -
  have "\<exists>ps. pin_parents db ws (snd nr) es = Inr ps \<and> (\<forall>p \<in> set ps. recorded_rev db (snd p))"
    if "\<forall>e \<in> set es. ed_rev e = snd nr \<and> edge_pinned db e" for es
    using that
  proof (induction es)
    case (Cons e es)
    from Cons.prems have "(snd nr, ed_src e) \<in> (\<lambda>l. (lk_rev l, lk_parent l)) ` set (g_links db)"
      unfolding edge_pinned_def by (metis list.set_intros(1))
    then obtain l where "find (\<lambda>l. lk_rev l = snd nr \<and> lk_parent l = ed_src e) (g_links db) = Some l"
      by (cases "find (\<lambda>l. lk_rev l = snd nr \<and> lk_parent l = ed_src e) (g_links db)") (auto simp: find_None_all)
    moreover from find_Some_in [OF this] assms have "recorded_rev db (lk_parent_rev l)"
      by (simp add: graph_ok_def links_recorded_def list_all_iff)
    ultimately show ?case using Cons by auto
  qed simp
  with assms show ?thesis unfolding revision_parents_def by (auto simp: graph_ok_def)
qed

text \<open>
  C14. However an analysis ends, with a decision or with an exception in the middle of a nested
  assessment, the recorded graph stays sound: every edge has a pinned parent revision that is
  recorded, heads and completed reviews name recorded revisions, and so looking up the parents of
  any revision never fails.
\<close>

theorem analysis_keeps_graph_sound:
  assumes "graph_ok (an_graph s)" and "an_assessed s = []"
  shows "graph_ok (an_graph (snd (analyze_properties e sess event evidence refresh ext s))) \<and>
    (\<exists>ps. revision_parents (an_graph (snd (analyze_properties e sess event evidence refresh ext s))) ws nr = Inr ps \<and>
      (\<forall>p \<in> set ps. recorded_rev (an_graph (snd (analyze_properties e sess event evidence refresh ext s))) (snd p)))"
  using analyze_properties_ok [OF assms] revision_parents_total by blast

section \<open>Observed transmissions are parents\<close>

definition observed_source :: "dict \<Rightarrow> string \<Rightarrow> bool" where
  "observed_source p src \<longleftrightarrow> dget (part_observation p) ''source_node_id'' = JStr src"

text \<open>A verdict on a call names every call whose output the controller saw the call transmit.\<close>

definition names_sources :: "call_node list \<Rightarrow> nat \<Rightarrow> dict \<Rightarrow> bool" where
  "names_sources calls i v \<longleftrightarrow> (\<forall>p \<in> set (payload_parts (calls ! i)). \<forall>src. observed_source p src \<longrightarrow>
     src \<in> edge_node ` set (verdict_edges v) \<and> (\<exists>c \<in> set (take i calls). c_node c = src \<and> c_completed c))"

lemma observe_edge_keys:
  assumes "observe_edge prior p edges = Inr edges'"
  shows "fst ` set edges \<subseteq> fst ` set edges' \<and>
    (\<forall>src. observed_source p src \<longrightarrow> src \<in> fst ` set edges' \<and> (\<exists>c \<in> set prior. c_node c = src \<and> c_completed c))"
proof (cases "dget (part_observation p) ''source_node_id'' = JNull")
  case True
  with assms show ?thesis by (simp add: observe_edge_def observed_source_def)
next
  case False
  with assms obtain parent sel where f: "find (\<lambda>c. JStr (c_node c) = dget (part_observation p) ''source_node_id'' \<and> c_completed c) prior = Some parent"
    and e: "edges' = dict_set (c_node parent) sel edges"
    by (auto simp: observe_edge_def split: json.splits option.splits sum.splits)
  from find_Some_in [OF f] have "parent \<in> set prior" "JStr (c_node parent) = dget (part_observation p) ''source_node_id''" "c_completed parent" by auto
  with e show ?thesis by (auto simp: observed_source_def fst_dict_set)
qed

lemma observed_edges_keys:
  "observed_edges prior ps edges = Inr edges' \<Longrightarrow> fst ` set edges \<subseteq> fst ` set edges' \<and>
   (\<forall>p \<in> set ps. \<forall>src. observed_source p src \<longrightarrow> src \<in> fst ` set edges' \<and> (\<exists>c \<in> set prior. c_node c = src \<and> c_completed c))"
proof (induction ps arbitrary: edges)
  case (Cons p ps)
  then obtain mid where m: "observe_edge prior p edges = Inr mid" and r: "observed_edges prior ps mid = Inr edges'"
    by (auto split: sum.splits)
  note a = observe_edge_keys [OF m] and b = Cons.IH [OF r]
  have "fst ` set edges \<subseteq> fst ` set edges'" by (rule order_trans [OF conjunct1 [OF a] conjunct1 [OF b]])
  moreover have "\<forall>src. observed_source p src \<longrightarrow> src \<in> fst ` set edges' \<and> (\<exists>c \<in> set prior. c_node c = src \<and> c_completed c)"
  proof (intro allI impI conjI)
    fix src assume o: "observed_source p src"
    with a have "src \<in> fst ` set mid" by simp
    then show "src \<in> fst ` set edges'" by (rule subsetD [OF conjunct1 [OF b]])
    from a o show "\<exists>c \<in> set prior. c_node c = src \<and> c_completed c" by simp
  qed
  ultimately show ?case using conjunct2 [OF b] by simp
qed simp

lemma edges_by_node_ok: "\<forall>x \<in> set (edges_by_node es). edge_node (snd x) = fst x"
proof -
  have *: "\<forall>x \<in> set (fold (\<lambda>e. dict_set (edge_node e) e) es acc). edge_node (snd x) = fst x"
    if "\<forall>x \<in> set acc. edge_node (snd x) = fst x" for acc :: "(string \<times> dict) list"
    using that
  proof (induction es arbitrary: acc)
    case (Cons e es)
    then have "\<forall>x \<in> set (dict_set (edge_node e) e acc). edge_node (snd x) = fst x"
      using set_dict_set_subset [of "edge_node e" e acc] by auto
    from Cons.IH [OF this] show ?case by simp
  qed simp
  show ?thesis unfolding edges_by_node_def by (rule *) simp
qed

lemma controller_edge_node [simp]: "edge_node (controller_edge parent sel) = parent"
  by (simp add: controller_edge_def edge_node_def dget_or_def)

lemma add_observed_keys:
  "add_observed edges deps = Inr deps' \<Longrightarrow> \<forall>x \<in> set deps. edge_node (snd x) = fst x \<Longrightarrow>
   fst ` set deps' = fst ` set edges \<union> fst ` set deps \<and> (\<forall>x \<in> set deps'. edge_node (snd x) = fst x)"
proof (induction edges arbitrary: deps)
  case (Cons pe edges)
  obtain parent sel where pe: "pe = (parent, sel)" by fastforce
  with Cons.prems(1) obtain edge where m: "merge_edge (map_of deps parent) (controller_edge parent sel) = Inr edge"
    and r: "add_observed edges (dict_set parent edge deps) = Inr deps'" by (auto split: sum.splits)
  from merge_edge_node [OF m] have "edge_node edge = parent" by (metis controller_edge_node edge_node_def)
  with Cons.prems(2) have "\<forall>x \<in> set (dict_set parent edge deps). edge_node (snd x) = fst x"
    using set_dict_set_subset [of parent edge deps] by auto
  from Cons.IH [OF r this] show ?case by (auto simp: pe fst_dict_set)
qed simp

lemma with_observed_edges_keys:
  assumes "with_observed_edges edges verdict = Inr v"
  shows "fst ` set edges \<subseteq> edge_node ` set (verdict_edges v)"
proof (cases "edges = []")
  case False
  with assms obtain deps where d: "add_observed edges (edges_by_node (verdict_edges verdict)) = Inr deps"
    and v: "v = dict_set ''dependencies'' (JArr (map JObj (dict_values deps))) verdict"
    by (auto simp: with_observed_edges_def split: sum.splits)
  from add_observed_keys [OF d edges_by_node_ok] have k: "fst ` set edges \<subseteq> fst ` set deps" "\<forall>x \<in> set deps. edge_node (snd x) = fst x" by auto
  have "verdict_edges v = map snd deps" by (simp add: v verdict_edges_def dict_values_def o_def)
  with k image_snd_key [of deps edge_node] show ?thesis by simp
qed simp

lemma canonical_accesses_edges:
  "canonical_accesses e c verdict s = (Inr x, t) \<Longrightarrow> verdict_edges (snd x) = verdict_edges verdict"
  by (auto simp: canonical_accesses_def act_Inr split_beta verdict_edges_def)

lemma full_verdict_sources:
  assumes "full_verdict e request (calls ! i) focused (take i calls) s = (Inr x, t)"
  shows "names_sources calls i (snd x)"
proof -
  from assms obtain v edges v' s' where o: "observed_edges (take i calls) (payload_parts (calls ! i)) [] = Inr edges"
    and w: "with_observed_edges edges v = Inr v'" and c: "canonical_accesses e (calls ! i) v' s' = (Inr x, t)"
    by (auto simp: full_verdict_def act_Inr)
  from observed_edges_keys [OF o] with_observed_edges_keys [OF w] canonical_accesses_edges [OF c]
  show ?thesis unfolding names_sources_def by (metis subsetD)
qed

text \<open>The assessments of an analysis are about its own calls: nested analyses do not touch them.\<close>

definition named :: "call_node list \<Rightarrow> 'w analysis \<Rightarrow> bool" where
  "named calls s \<longleftrightarrow> (\<forall>a \<in> set (an_assessed s). names_sources calls (fst (fst a)) (snd (snd a)))"

lemma named_blind: "review_blind (named calls)"
  by (simp add: review_blind_def named_def)

lemma own_scope_assessed: "own_scope m s = (r, t) \<Longrightarrow> an_assessed t = an_assessed s"
  by (auto simp: own_scope_def Let_def split: prod.splits)

lemma analyze_scope_assessed: "analyze_scope visits e visiting sess event evidence scope s = (r, t) \<Longrightarrow> an_assessed t = an_assessed s"
  by (cases visits) (auto simp: act_simps Let_def split: if_splits sum.splits prod.splits option.splits dest: own_scope_assessed)

lemma nested_named: "keeps (named calls) (bind (analyze_scope visits e visiting sess event evidence scope) (\<lambda>(node, rvn, v). ret (node, rvn)))"
proof (rule hoare_bind [where R = "\<lambda>x. named calls"])
  show "keeps (named calls) (analyze_scope visits e visiting sess event evidence scope)"
    by (rule hoareI) (simp_all add: named_def analyze_scope_assessed)
qed (auto intro!: act_rules split: prod.split)

lemma full_verdict_named:
  "hoare (named calls) (full_verdict e request (calls ! i) focused (take i calls))
     (\<lambda>x s. named calls s \<and> names_sources calls i (snd x)) (named calls)"
proof (rule hoareI)
  fix s x t assume n: "named calls s" and m: "full_verdict e request (calls ! i) focused (take i calls) s = (Inr x, t)"
  show "named calls t \<and> names_sources calls i (snd x)"
    using hoare_returns [OF full_verdict_keeps [OF named_blind] n m] full_verdict_sources [OF m] by blast
next
  fix s err t assume n: "named calls s" and m: "full_verdict e request (calls ! i) focused (take i calls) s = (Inl err, t)"
  show "named calls t" by (rule hoare_raises [OF full_verdict_keeps [OF named_blind] n m])
qed

definition names :: "call_node list \<Rightarrow> nat \<Rightarrow> ('w, string \<times> dict) step \<Rightarrow> bool" where
  "names calls i m \<longleftrightarrow> hoare (named calls) m (\<lambda>x s. named calls s \<and> names_sources calls i (snd x)) (named calls)"

lemma names_keeps: "names calls i m \<Longrightarrow> keeps (named calls) m"
  unfolding names_def by (erule hoare_post) simp

lemma commit_named: "keeps (named calls) (commit f)"
  unfolding hoare_def by (auto simp: commit_def named_def split: sum.split)

lemma record_named:
  "names_sources calls i verdict \<Longrightarrow> keeps (named calls) (record_assessed (assess_key H i selection resources) rvn verdict)"
  unfolding record_assessed_def assess_key_def
  by (intro act_rules) (use set_dict_set_subset in \<open>fastforce simp: named_def\<close>)

lemma follow_demand_named:
  assumes "\<And>i sel res. names calls i (asr i sel res)" and "\<And>s ev res. keeps (named calls) (nested s ev res)"
  shows "keeps (named calls) (follow_demand calls sess index edges asr nested d acc)"
proof -
  obtain event origin requested where d: "d = ((event, origin), requested)" by (metis prod.exhaust)
  show ?thesis unfolding follow_demand_def d prod.case
    by (auto split: bool.split option.split intro!: hoare_bind [OF assms(2)] hoare_bind [OF names_keeps [OF assms(1)]] act_rules simp: Let_def)
qed

lemma follow_edge_named:
  assumes "\<And>i sel res. names calls i (asr i sel res)"
  shows "keeps (named calls) (follow_edge calls index asr edge links)"
  unfolding follow_edge_def
  by (intro hoare_if hoare_option) (auto intro!: hoare_bind [OF names_keeps [OF assms]] act_rules)

lemma assess_fresh_named:
  assumes "\<And>i sel res. names calls i (asr i sel res)" and "\<And>s ev res. keeps (named calls) (nested s ev res)"
  shows "names calls i (assess_fresh e calls sess asr nested i selection resources)"
  unfolding names_def assess_fresh_def Let_def
proof (rule hoare_bind [where R = "\<lambda>x. named calls"], goal_cases)
  case 1
  show ?case by (intro act_rules; assumption)
next
  case (2 focused)
  show ?case
  proof (rule hoare_bind [where R = "\<lambda>x s. named calls s \<and> names_sources calls i (snd x)"], goal_cases)
    case 1
    show ?case by (rule full_verdict_named)
  next
    case (2 x)
    obtain projections verdict where x: "x = (projections, verdict)" by fastforce
    show ?case
    proof (cases "names_sources calls i verdict")
      case True
      then have r: "\<And>H rvn. keeps (named calls) (record_assessed (assess_key H i selection resources) rvn verdict)" by (rule record_named)
      show ?thesis unfolding x prod.case
        apply (rule hoare_conseq [where P' = "named calls" and E' = "named calls" and Q' = "\<lambda>x s. named calls s \<and> names_sources calls i (snd x)"])
           apply (intro hoare_bind [where R = "\<lambda>x. named calls"] hoare_each [where I = "\<lambda>x. named calls"] hoare_case_prod
            follow_demand_named [OF assms] follow_edge_named [OF assms(1)] commit_named r)
           apply (auto intro!: act_rules simp: True)
        done
    next
      case False
      then show ?thesis by (simp add: x hoare_def)
    qed
  qed
qed


lemma assess_named:
  assumes "\<And>s ev res. keeps (named calls) (nested s ev res)"
  shows "names calls i (assess depth e calls sess nested i selection resources)"
proof (induction depth arbitrary: i selection resources)
  case 0
  show ?case by (simp add: names_def) (auto intro!: act_rules)
next
  case (Suc depth)
  show ?case unfolding names_def assess.simps
  proof (rule hoare_bind [where R = "\<lambda>known s. named calls s \<and> known = an_assessed s"])
    fix known
    show "hoare (\<lambda>s. named calls s \<and> known = an_assessed s)
      (if ASSESSED_LIMIT < length known then raise (GraphUnavailable ''output_provenance_expansion_budget'')
       else case map_of known (assess_key (pe_hash e) i selection resources) of
           Some known \<Rightarrow> ret known
         | None \<Rightarrow> assess_fresh e calls sess (assess depth e calls sess nested) nested i selection resources)
      (\<lambda>x s. named calls s \<and> names_sources calls i (snd x)) (named calls)"
    proof (intro hoare_if hoare_option)
      fix y assume "map_of known (assess_key (pe_hash e) i selection resources) = Some y"
      from map_of_SomeD [OF this] show "hoare (\<lambda>s. named calls s \<and> known = an_assessed s) (ret y)
          (\<lambda>x s. named calls s \<and> names_sources calls i (snd x)) (named calls)"
        by (intro act_rules) (auto simp: named_def assess_key_def)
    next
      show "hoare (\<lambda>s. named calls s \<and> known = an_assessed s)
          (assess_fresh e calls sess (assess depth e calls sess nested) nested i selection resources)
          (\<lambda>x s. named calls s \<and> names_sources calls i (snd x)) (named calls)"
        using assess_fresh_named [OF Suc.IH assms, unfolded names_def] by (rule hoare_conseq) simp_all
    qed (auto intro!: act_rules)
  qed (intro act_rules, simp)
qed

section \<open>Heads\<close>

lemma find_head_replace:
  "find (\<lambda>h. hd_ws h = ws' \<and> hd_sess h = sess' \<and> hd_node h = node') (ins_replace head_key
      \<lparr>hd_ws = ws, hd_sess = sess, hd_node = node, hd_rev = rvn\<rparr> t) =
      (if (ws', sess', node') = (ws, sess, node) then Some \<lparr>hd_ws = ws, hd_sess = sess, hd_node = node, hd_rev = rvn\<rparr>
       else find (\<lambda>h. hd_ws h = ws' \<and> hd_sess h = sess' \<and> hd_node h = node') t)"
  by (induction t) (auto simp: ins_replace_def head_key_def)

lemma head_of_persist:
  "persist ws sess c rvn model verdict links db = Inr db' \<Longrightarrow> head_of db' ws' sess' node' =
     (if (ws', sess', node') = (ws, sess, c_node c) then Some rvn else head_of db ws' sess' node')"
  by (auto simp: persist_def head_of_def find_head_replace split: if_splits sum.splits)

lemma head_of_restore: "head_of (restore_head ws sess node old db) ws' sess' node' =
    (if (ws', sess', node') = (ws, sess, node) then (if head_of db ws sess node = None then None else old) else head_of db ws' sess' node')"
proof (cases old)
  case None
  have "find (\<lambda>h. hd_ws h = ws' \<and> hd_sess h = sess' \<and> hd_node h = node') (del_where (\<lambda>h. head_key h = (ws, sess, node)) t) =
      (if (ws', sess', node') = (ws, sess, node) then None else find (\<lambda>h. hd_ws h = ws' \<and> hd_sess h = sess' \<and> hd_node h = node') t)" for t
    by (induction t) (auto simp: del_where_def head_key_def)
  with None show ?thesis by (simp add: head_of_def restore_head_def)
next
  case (Some r)
  have "map_option hd_rev (find (\<lambda>h. hd_ws h = ws' \<and> hd_sess h = sess' \<and> hd_node h = node') (upd_where (\<lambda>h. head_key h = (ws, sess, node)) (\<lambda>h. h\<lparr>hd_rev := r\<rparr>) t)) =
      (if (ws', sess', node') = (ws, sess, node) then (if find (\<lambda>h. hd_ws h = ws \<and> hd_sess h = sess \<and> hd_node h = node) t = None then None else Some r)
       else map_option hd_rev (find (\<lambda>h. hd_ws h = ws' \<and> hd_sess h = sess' \<and> hd_node h = node') t))" for t
    by (induction t) (auto simp: upd_where_def head_key_def)
  with Some show ?thesis by (simp add: head_of_def restore_head_def)
qed

lemma head_of_tables: "g_heads db' = g_heads db \<Longrightarrow> head_of db' = head_of db"
  by (intro ext) (simp add: head_of_def)

lemma heads_add_resource_links: "g_heads (fold (add_resource_link rvn node) prs db) = g_heads db"
  by (induction prs arbitrary: db) (simp_all add: add_resource_link_def)

lemma store_assessment_heads:
  assumes "store_assessment H ws sess model request c selection resources rvn verdict links resource_links db = Inr db'"
  shows "head_of db' ws' sess' node' =
    (if (ws', sess', node') = (ws, sess, c_node c) \<and> selection = JNull \<and> resources = None then Some rvn else head_of db ws' sess' node')"
proof -
  from assms obtain db1 where p: "persist ws sess c rvn model verdict (Some links) db = Inr db1"
    by (auto simp: store_assessment_def split: sum.splits)
  define db2 where "db2 = fold (add_resource_link rvn (c_node c)) resource_links db1"
  define db3 where "db3 = (if selection = JNull then db2 else db2\<lparr>g_outsel := ins_ignore fst
                     (rvn, c_node c, selection, digest H (c_output c)) (g_outsel db2)\<rparr>)"
  define db4 where "db4 = (case resources of None \<Rightarrow> db3 | Some rs \<Rightarrow> db3\<lparr>g_ressel := ins_ignore fst
                     (rvn, c_node c, JArr (map JObj rs)) (g_ressel db3)\<rparr>)"
  define db5 where "db5 = (if selection = JNull \<and> resources = None then db4 else restore_head ws sess (c_node c) (head_of db ws sess (c_node c)) db4)"
  have "db' = (if is_complete verdict then db5\<lparr>g_completed := ins_replace fst (request, rvn) (g_completed db5)\<rparr> else db5)"
    using assms unfolding store_assessment_def p sum.case Let_def db2_def [symmetric] db3_def [symmetric] db4_def [symmetric] db5_def [symmetric]
    by (simp only: sum.inject)
  then have 5: "head_of db' = head_of db5" by (auto intro: head_of_tables)
  have "g_heads db4 = g_heads db1" by (simp add: db4_def db3_def db2_def heads_add_resource_links split: option.split)
  then have 4: "head_of db4 = head_of db1" by (rule head_of_tables)
  show ?thesis unfolding 5 db5_def using head_of_persist [OF p] by (simp add: head_of_restore 4)
qed

text \<open>
  An assessment narrowed to a fragment of the output or to a witnessed resource is kept apart
  from the judgment of the whole operation: recording it leaves the current revision of every call
  as it was, while recording an unrestricted assessment makes it the current revision of its call
  and of no other.
\<close>

theorem scoped_assessment_keeps_heads:
  assumes "store_assessment H ws sess model request c selection resources rvn verdict links resource_links db = Inr db'"
  shows "head_of db' ws' sess' node' =
    (if (ws', sess', node') = (ws, sess, c_node c) \<and> selection = JNull \<and> resources = None then Some rvn else head_of db ws' sess' node')"
  by (rule store_assessment_heads [OF assms])

lemma assess_fresh_head:
  "hoare (\<lambda>s. True) (assess_fresh e calls sess asr nested i JNull None)
     (\<lambda>x s. head_of (an_graph s) (pe_workspace e) sess (c_node (calls ! i)) = Some (fst x)) (\<lambda>s. True)"
proof -
  have any: "hoare (\<lambda>s. True) m (\<lambda>x s. True) (\<lambda>s. True)" for m :: "('a, 'x) step"
    by (simp add: hoare_def split: prod.split sum.split)
  have last: "hoare (\<lambda>s. True) (bind (commit (store_assessment H (pe_workspace e) sess model request (calls ! i) JNull None rvn verdict links resource_links)) (\<lambda>u.
        bind (record_assessed key rvn verdict) (\<lambda>u. ret (rvn, verdict))))
      (\<lambda>x s. head_of (an_graph s) (pe_workspace e) sess (c_node (calls ! i)) = Some (fst x)) (\<lambda>s. True)"
    for H model request rvn verdict links resource_links key
    by (rule hoareI) (auto simp: act_Inr commit_def record_assessed_def store_assessment_heads split: sum.splits)
  show ?thesis unfolding assess_fresh_def Let_def
    by (intro hoare_bind [OF any] hoare_case_prod last)
qed

lemma assess_top:
  assumes "own_scope (assess DEPTH e calls sess nested i JNull None) s = (Inr x, t)"
    and "\<And>s ev res. keeps (named calls) (nested s ev res)"
  shows "names_sources calls i (snd x) \<and> head_of (an_graph t) (pe_workspace e) sess (c_node (calls ! i)) = Some (fst x)"
proof -
  let ?s = "s\<lparr>an_assessed := [], an_reviews := (an_reviews s)\<lparr>rw_shared := []\<rparr>\<rparr>"
  from assms(1) obtain t' where m: "assess DEPTH e calls sess nested i JNull None ?s = (Inr x, t')" and t: "an_graph t = an_graph t'"
    by (auto simp: own_scope_def Let_def split: prod.splits)
  have "named calls ?s" by (simp add: named_def)
  from hoare_returns [OF assess_named [OF assms(2), unfolded names_def] this m] have n: "names_sources calls i (snd x)" by blast
  have d: "DEPTH = Suc 127" by (simp add: DEPTH_def)
  have "assess_fresh e calls sess (assess 127 e calls sess nested) nested i JNull None ?s = (Inr x, t')"
    using m [unfolded d assess.simps] by (simp add: bind_def gets_def ASSESSED_LIMIT_def)
  from hoare_returns [OF assess_fresh_head _ this] n t show ?thesis by simp
qed

lemma payload_parts_witnessed:
  "event_index event (witnessed_calls e event (Some parts) calls) = Some i \<Longrightarrow>
   payload_parts (witnessed_calls e event (Some parts) calls ! i) = map the_obj parts"
proof -
  have ev: "c_event (attach_witnesses evs bs scope db c) = c_event c" for evs bs scope db c
    by (simp add: attach_witnesses_def Let_def)
  have at: "event_index event cs = Some i \<Longrightarrow> i < length cs \<and> c_event (cs ! i) = event" for cs
    by (induction cs arbitrary: i) (auto split: if_splits)
  assume "event_index event (witnessed_calls e event (Some parts) calls) = Some i"
  from at [OF this] show ?thesis by (auto simp: witnessed_calls_def Let_def ev payload_parts_def split: if_splits)
qed

lemma analyze_scope_sources:
  assumes "analyze_scope (Suc n) e visiting (Some sess) event (Some parts) None s = (Inr (node, rvn, verdict), t)"
    and "p \<in> set parts" and "observed_source (the_obj p) src"
  shows "src \<in> edge_node ` set (verdict_edges verdict) \<and> head_of (an_graph t) (pe_workspace e) sess node = Some rvn"
proof -
  let ?nested = "\<lambda>origin ev requested. bind (analyze_scope n e (event # visiting) origin ev None (Some requested)) (\<lambda>(node, rvn, v). ret (node, rvn))"
  from assms(1) obtain calls i where i: "event_index event (witnessed_calls e event (Some parts) calls) = Some i"
    and m: "own_scope (assess DEPTH e (witnessed_calls e event (Some parts) calls) sess ?nested i JNull None) s = (Inr (rvn, verdict), t)"
    and node: "node = c_node (witnessed_calls e event (Some parts) calls ! i)"
    by (auto simp: Let_def act_Inr raise_def split: if_splits option.splits)
  from assess_top [OF m nested_named] node payload_parts_witnessed [OF i] assms(2,3) show ?thesis
    by (auto simp: names_sources_def)
qed


section \<open>From the observation to the decision\<close>

lemma pin_parents_srcs: "pin_parents db ws rvn es = Inr ps \<Longrightarrow> map fst ps = map ed_src es"
  by (induction es arbitrary: ps) (auto split: option.splits sum.splits if_splits)

lemma parent_of_edge:
  assumes ok: "graph_ok db" and e: "(rvn, src, node) \<in> edge_keys db"
  shows "\<exists>prev. up (revision_parents db ws) (node, rvn) (src, prev)"
proof -
  let ?es = "filter (\<lambda>e. ed_rev e = rvn \<and> ed_dst e = node) (g_edges db)"
  from revision_parents_total [OF ok, of ws "(node, rvn)"] obtain ps where p: "revision_parents db ws (node, rvn) = Inr ps" by blast
  then have "pin_parents db ws rvn ?es = Inr ps" by (simp add: revision_parents_def)
  from pin_parents_srcs [OF this] have "fst ` set ps = ed_src ` set ?es" by (metis image_set)
  moreover from e have "src \<in> ed_src ` set ?es" by auto
  ultimately have "src \<in> fst ` set ps" by simp
  then obtain x where "x \<in> set ps" "src = fst x" by (rule imageE)
  with p show ?thesis unfolding up_def by (metis prod.collapse)
qed

lemma head_any_only:
  assumes "head_of db ws sess node = Some rvn" and "\<And>h. h \<in> set (g_heads db) \<Longrightarrow> hd_ws h = ws \<Longrightarrow> hd_node h = node \<Longrightarrow> hd_sess h = sess"
  shows "head_any db ws node = Some rvn"
proof -
  have f: "find (\<lambda>h. hd_ws h = ws \<and> hd_node h = node) t = find (\<lambda>h. hd_ws h = ws \<and> hd_sess h = sess \<and> hd_node h = node) t"
    if "\<And>h. h \<in> set t \<Longrightarrow> hd_ws h = ws \<Longrightarrow> hd_node h = node \<Longrightarrow> hd_sess h = sess" for t
    using that by (induction t) auto
  from f [OF assms(2)] assms(1) show ?thesis by (simp add: head_of_def head_any_def)
qed

text \<open>
  C5. What the controller saw leave is accounted for. If the decision on an external send is "no
  protected path observed" and a part of its payload was observed to come from the output of an
  earlier call, then that call is a recorded parent of the send whatever the judge answered, and it
  and everything it descends from has a recorded, complete judgment and read no registered source.
\<close>

theorem transmitted_output_has_clean_ancestry:
  assumes "graph_ok (an_graph s)" and "an_assessed s = []"
    and "analyze_scope VISITS e [] (Some sess) event (Some parts) None s = (Inr (node, rvn, verdict), t)"
    and "decide_properties H (pe_workspace e) sess event node rvn verdict srcs True (an_graph t) = (Inr r, db)"
    and "o_action r = ''allow''" and "o_reason r = ''no_protected_path_observed''"
    and "p \<in> set parts" and "observed_source (the_obj p) src"
    and "\<And>x. x \<in> set (g_revisions (an_graph t)) \<Longrightarrow> rv_rev x = rvn \<Longrightarrow> rv_node x = node \<and> rv_verdict x = verdict"
    and "\<And>h. h \<in> set (g_heads (an_graph t)) \<Longrightarrow> hd_ws h = pe_workspace e \<Longrightarrow> hd_node h = node \<Longrightarrow> hd_sess h = sess"
    and "\<And>x. x \<in> set srcs \<Longrightarrow> source_node x \<noteq> []" and "protected_file \<in> set srcs"
  shows "\<exists>prev. up (revision_parents (an_graph t) (pe_workspace e)) (node, rvn) (src, prev) \<and>
    (\<forall>m \<in> ancestors (revision_parents (an_graph t) (pe_workspace e)) (src, prev).
      recorded_complete (an_graph t) (pe_workspace e) m \<and> m \<notin> set (bound_readers (an_graph t) (pe_workspace e) protected_file))"
proof -
  let ?g = "an_graph t" and ?ws = "pe_workspace e"
  have "VISITS = Suc 63" by (simp add: VISITS_def)
  from analyze_scope_sources [OF assms(3) [unfolded this] assms(7,8)]
  have src: "src \<in> edge_node ` set (verdict_edges verdict)" and h: "head_of ?g ?ws sess node = Some rvn" by auto
  have "sound {} s" using assms(1,2) by (simp add: sound_def)
  from hoare_returns [OF yieldsD [OF analyze_scope_sound] this assms(3)] have ok: "graph_ok ?g" and "recorded_rev ?g rvn"
    by (auto simp: sound_def)
  then obtain x where x: "x \<in> set (g_revisions ?g)" "rv_rev x = rvn" by (auto simp: recorded_rev_def list_ex_iff)
  with assms(9) ok src have "(rvn, src, node) \<in> edge_keys ?g" by (fastforce simp: graph_ok_def verdict_recorded_def)
  from parent_of_edge [OF ok this, of ?ws] obtain prev where u: "up (revision_parents ?g ?ws) (node, rvn) (src, prev)" by blast
  have "recorded_complete ?g ?ws m \<and> m \<notin> set (bound_readers ?g ?ws protected_file)"
    if "m \<in> ancestors (revision_parents ?g ?ws) (src, prev)" for m
  proof -
    from that u have "m \<in> ancestors (revision_parents ?g ?ws) (node, rvn)" by (auto intro: converse_rtranclp_into_rtranclp)
    from clean_ancestry [OF assms(4,5,6) h head_any_only [OF h assms(10)] assms(11) this assms(12)] show ?thesis by blast
  qed
  with u show ?thesis by blast
qed


section \<open>Witnesses\<close>
definition short_hash :: hash where
  "short_hash b = show_nat (length b)"

definition sample_events :: "event_row list" where
  "sample_events = [sample_pre, sample_post,
     sample_pre\<lparr>er_event := ''e3'', er_tool_use := Some ''t22'', er_seq := 3\<rparr>]"

definition sample_prov :: "unit prov_env" where
  "sample_prov = \<lparr>pe_hash = short_hash, pe_evidence = sample_env,
     pe_judge = answering [(''externality'', JStr ''external''), (''complete'', JBool True), (''reason'', JStr ''r''),
        (''dependencies'', JArr []), (''accesses'', JArr [])],
     pe_model = ''m'', pe_events = sample_events, pe_bounds = [], pe_workspace = ''w'',
     pe_lineage = \<lparr>ln_plans = [], ln_files = [], ln_reads = []\<rparr>\<rparr>"

definition sample_state :: "unit analysis" where
  "sample_state = \<lparr>an_graph = empty_graph, an_reviews = sample_review, an_assessed = []\<rparr>"

definition sample_part :: dict where
  "sample_part = [(''observation'', JObj [(''source_node_id'', JStr ''call:16'')]), (''content'', JStr ''ok''), (''encoding'', JStr ''utf-8'')]"

definition sample_scope :: "(string \<times> string \<times> dict) res \<times> unit analysis" where
  "sample_scope = analyze_scope VISITS sample_prov [] (Some ''s'') ''e3'' (Some [JObj sample_part]) None sample_state"


definition sample_sent :: dict where
  "sample_sent = [(''externality'', JStr ''external''), (''complete'', JBool True), (''reason'', JStr ''r''),
     (''dependencies'', JArr [JObj [(''node_id'', JStr ''call:16''), (''selection'', JObj [(''text'', JStr ''ok'')]),
        (''reason'', JStr ''controller-resolved transmitted output'')]]), (''accesses'', JArr [])]"

definition sample_final :: graph_db where
  "sample_final = empty_graph\<lparr>
     g_revisions := [
       \<lparr>rv_rev = ''113'', rv_ws = ''w'', rv_sess = ''s'', rv_node = ''call:16'', rv_event = ''e2'', rv_model = ''m'', rv_prompt = PROMPT_VERSION,
        rv_verdict = [(''externality'', JStr ''external''), (''complete'', JBool True), (''reason'', JStr ''r''), (''dependencies'', JArr []), (''accesses'', JArr [])]\<rparr>,
       \<lparr>rv_rev = ''232'', rv_ws = ''w'', rv_sess = ''s'', rv_node = ''call:17'', rv_event = ''e3'', rv_model = ''m'', rv_prompt = PROMPT_VERSION,
        rv_verdict = sample_sent\<rparr>],
     g_completed := [(''338'', ''113''), (''389'', ''232'')],
     g_heads := [\<lparr>hd_ws = ''w'', hd_sess = ''s'', hd_node = ''call:17'', hd_rev = ''232''\<rparr>],
     g_edges := [\<lparr>ed_rev = ''232'', ed_src = ''call:16'', ed_dst = ''call:17'', ed_reason = JStr ''controller-resolved transmitted output''\<rparr>],
     g_links := [\<lparr>lk_rev = ''232'', lk_parent = ''call:16'', lk_parent_rev = ''113''\<rparr>],
     g_outsel := [(''113'', ''call:16'', JObj [(''text'', JStr ''ok'')], ''4'')]\<rparr>"

lemma sample_scope_result: "(case sample_scope of (r, t) \<Rightarrow> r = Inr (''call:17'', ''232'', sample_sent) \<and> an_graph t = sample_final)"
  by code_simp

lemma sample_state_ok: "graph_ok (an_graph sample_state)" "an_assessed sample_state = []"
  by (simp_all add: sample_state_def graph_ok_def empty_graph_def links_recorded_def)

theorem analysis_keeps_graph_sound_witness:
  "graph_ok (an_graph (snd (analyze_properties sample_prov ''s'' ''e3'' (Some [JObj sample_part]) (\<lambda>w. (Inr [], w)) True sample_state))) \<and>
   (\<exists>ps. revision_parents (an_graph (snd (analyze_properties sample_prov ''s'' ''e3'' (Some [JObj sample_part]) (\<lambda>w. (Inr [], w)) True sample_state)))
     ''w'' (''call:17'', ''232'') = Inr ps)"
  using analysis_keeps_graph_sound [OF sample_state_ok, of sample_prov "''s''" "''e3''" "Some [JObj sample_part]" "\<lambda>w. (Inr [], w)" True "''w''" "(''call:17'', ''232'')"]
  by blast

theorem scoped_assessment_keeps_heads_witness:
  "\<exists>db. store_assessment short_hash ''w'' ''s'' ''m'' ''q'' sample_consumer (JObj [(''text'', JStr ''t'')]) None ''rc'' sample_judgment [(''b'', ''rb'')] [] sample_graph = Inr db \<and>
     head_of db ''w'' ''s'' ''c'' = None \<and> head_of db ''w'' ''s'' ''b'' = Some ''rb''"
proof -
  let ?st = "store_assessment short_hash ''w'' ''s'' ''m'' ''q'' sample_consumer (JObj [(''text'', JStr ''t'')]) None ''rc'' sample_judgment [(''b'', ''rb'')] [] sample_graph"
  have "\<not> isl ?st" by code_simp
  then obtain db where db: "?st = Inr db" by (cases ?st) simp_all
  have "head_of sample_graph ''w'' ''s'' ''c'' = None" "head_of sample_graph ''w'' ''s'' ''b'' = Some ''rb''" by code_simp+
  with scoped_assessment_keeps_heads [OF db, of "''w''" "''s''"] db show ?thesis by auto
qed

theorem transmitted_output_has_clean_ancestry_witness:
  "\<exists>r db prev. decide_properties short_hash ''w'' ''s'' ''e3'' ''call:17'' ''232'' sample_sent [sample_source ''k''] True (an_graph (snd sample_scope)) = (Inr r, db) \<and>
     o_action r = ''allow'' \<and> up (revision_parents (an_graph (snd sample_scope)) ''w'') (''call:17'', ''232'') (''call:16'', prev) \<and>
     recorded_complete (an_graph (snd sample_scope)) ''w'' (''call:16'', prev) \<and>
     (''call:16'', prev) \<notin> set (bound_readers (an_graph (snd sample_scope)) ''w'' (sample_source ''k''))"
proof -
  obtain t where t: "sample_scope = (Inr (''call:17'', ''232'', sample_sent), t)" and g: "an_graph t = sample_final"
    using sample_scope_result by (auto split: prod.splits)
  let ?d = "decide_properties short_hash ''w'' ''s'' ''e3'' ''call:17'' ''232'' sample_sent [sample_source ''k''] True sample_final"
  have "(case ?d of (Inr r, db) \<Rightarrow> o_action r = ''allow'' \<and> o_reason r = ''no_protected_path_observed'' | _ \<Rightarrow> False)" by code_simp
  then obtain r db where d: "?d = (Inr r, db)" and a: "o_action r = ''allow''" "o_reason r = ''no_protected_path_observed''"
    by (auto split: prod.splits sum.splits)
  have rows: "\<And>x. x \<in> set (g_revisions sample_final) \<Longrightarrow> rv_rev x = ''232'' \<Longrightarrow> rv_node x = ''call:17'' \<and> rv_verdict x = sample_sent"
    by (auto simp: sample_final_def)
  have heads: "\<And>h. h \<in> set (g_heads sample_final) \<Longrightarrow> hd_ws h = pe_workspace sample_prov \<Longrightarrow> hd_node h = ''call:17'' \<Longrightarrow> hd_sess h = ''s''"
    by (auto simp: sample_final_def)
  have o: "observed_source (the_obj (JObj sample_part)) ''call:16''" by (simp add: observed_source_def) code_simp
  have src: "\<And>x. x \<in> set [sample_source ''k''] \<Longrightarrow> source_node x \<noteq> []" by (simp add: sample_source_def source_node_def dget_or_def)
  have ws: "pe_workspace sample_prov = ''w''" by (simp add: sample_prov_def)
  note final = transmitted_output_has_clean_ancestry [OF sample_state_ok t [unfolded sample_scope_def], unfolded g ws, OF d a _ o rows heads [unfolded ws] src, of "sample_source ''k''"]
  have "\<exists>prev. up (revision_parents sample_final ''w'') (''call:17'', ''232'') (''call:16'', prev) \<and>
      (\<forall>m \<in> ancestors (revision_parents sample_final ''w'') (''call:16'', prev).
        recorded_complete sample_final ''w'' m \<and> m \<notin> set (bound_readers sample_final ''w'' (sample_source ''k'')))"
    by (rule final) simp_all
  then obtain prev where u: "up (revision_parents sample_final ''w'') (''call:17'', ''232'') (''call:16'', prev)"
    and all: "\<forall>m \<in> ancestors (revision_parents sample_final ''w'') (''call:16'', prev).
        recorded_complete sample_final ''w'' m \<and> m \<notin> set (bound_readers sample_final ''w'' (sample_source ''k''))" by (elim exE conjE) (rule that)
  have "(''call:16'', prev) \<in> ancestors (revision_parents sample_final ''w'') (''call:16'', prev)" by simp
  note m = bspec [OF all this]
  have "an_graph (snd sample_scope) = sample_final" by (simp only: t snd_conv g)
  then show ?thesis using d a(1) u m by (intro exI [of _ r] exI [of _ db] exI [of _ prev]) (simp only: simp_thms)
qed

end
