(* ===== verification/Targets.thy ===== *)
theory Targets
  imports Provenance Freshness
begin

text \<open>
  \<open>engine/targets.py\<close>: what a pending call could transmit. The judge describes the outbound
  information of the recorded call; \<open>validate_targets\<close> turns the description into a target of the
  resolver; the controller adds the definitions and the history the description asks for, at
  most eight times, and then resolves the target into bytes. Descriptions are kept by the digest of
  the whole request. Any failure but one of the transport becomes a target that cannot be resolved.
\<close>

section \<open>Validating a description\<close>

definition targets_of :: "json \<Rightarrow> dict list" where
  "targets_of v = map the_obj (the_arr (dget (the_obj v) ''targets''))"

definition of_kind :: "string \<Rightarrow> dict \<Rightarrow> bool" where
  "of_kind k item \<longleftrightarrow> dget item ''kind'' = JStr k"

text \<open>Cache only a recipe for acquiring named evidence.\<close>

definition named_path :: "dict \<Rightarrow> bool" where
  "named_path item \<longleftrightarrow> is_str (dget item ''path'') \<and> truthy (dget item ''path'')"

definition reusable_acquisition :: "json \<Rightarrow> bool" where
  "reusable_acquisition v \<longleftrightarrow>
     (let unresolved = filter (of_kind ''unresolved'') (targets_of v)
      in unresolved \<noteq> [] \<and> list_all named_path unresolved \<and> \<not> list_ex (of_kind ''observed'') (targets_of v))"

definition valid_extent :: "dict \<Rightarrow> bool" where
  "valid_extent item \<longleftrightarrow> (case dget item ''offset'' of JInt i \<Rightarrow> 0 \<le> i | _ \<Rightarrow> False) \<and>
     (case dget item ''length'' of JNull \<Rightarrow> True | JInt l \<Rightarrow> 0 \<le> l | _ \<Rightarrow> False)"

definition pointer_prefix :: "string \<Rightarrow> string" where
  "pointer_prefix kind = (if kind = ''inline'' then ''/tool_input/''
     else if kind = ''observed'' then ''/previous_calls/'' else ''/invocation_context/facts/'')"

definition pick :: "string list \<Rightarrow> dict \<Rightarrow> json" where
  "pick ks item = JObj (map (\<lambda>k. (k, dget item k)) ks)"

definition pointer_member :: "string \<Rightarrow> dict \<Rightarrow> json res" where
  "pointer_member kind item =
     (if \<not> is_str (dget item ''pointer'') \<or> \<not> starts_with (pointer_prefix kind) (the_str (dget item ''pointer'')) \<or>
         dget item ''path'' \<noteq> JNull
      then Inl (ValueError ''invalid_inline_description'')
      else Inr (pick [''kind'', ''pointer'', ''offset'', ''length''] item))"

definition file_member :: "dict \<Rightarrow> json res" where
  "file_member item =
     (if \<not> is_str (dget item ''path'') \<or> dget item ''pointer'' \<noteq> JNull
      then Inl (ValueError ''invalid_file_description'')
      else Inr (pick [''kind'', ''path'', ''offset'', ''length''] item))"

definition snapshot_member :: "dict \<Rightarrow> json res" where
  "snapshot_member item =
     (if dget item ''format'' \<noteq> JStr ''git'' \<or> \<not> is_str (dget item ''revision'') \<or> \<not> is_str (dget item ''path'') \<or>
         dget item ''pointer'' \<noteq> JNull \<or> dget item ''offset'' \<noteq> JInt 0 \<or> dget item ''length'' \<noteq> JNull
      then Inl (ValueError ''invalid_snapshot_description'')
      else Inr (pick [''kind'', ''format'', ''path'', ''revision''] item))"

text \<open>One target, and whether the description can still be complete.\<close>

definition validate_member :: "json \<Rightarrow> (json \<times> bool) res" where
  "validate_member v = (case v of
      JObj item \<Rightarrow>
        if \<not> keys_are_opt [''format'', ''revision''] [''kind'', ''pointer'', ''path'', ''offset'', ''length'', ''reason''] item
        then Inl (ValueError ''invalid_transmission_target'')
        else if \<not> text_upto 4000 (dget item ''reason'') then Inl (ValueError ''invalid_transmission_reason'')
        else if \<not> valid_extent item then Inl (ValueError ''invalid_transmission_extent'')
        else if dget item ''kind'' \<in> {JStr ''inline'', JStr ''observed'', JStr ''context''}
        then map_sum id (\<lambda>m. (m, True)) (pointer_member (the_str (dget item ''kind'')) item)
        else if of_kind ''file'' item then map_sum id (\<lambda>m. (m, True)) (file_member item)
        else if of_kind ''snapshot'' item then map_sum id (\<lambda>m. (m, True)) (snapshot_member item)
        else if of_kind ''unresolved'' item then Inr (JObj [(''kind'', JStr ''reference'')], False)
        else Inl (ValueError ''unsupported_transmission_description'')
    | _ \<Rightarrow> Inl (ValueError ''invalid_transmission_target''))"

fun validate_members :: "json list \<Rightarrow> bool \<Rightarrow> (json list \<times> bool) res" where
  "validate_members [] complete = Inr ([], complete)"
| "validate_members (v # vs) complete =
     (case validate_member v of
        Inl x \<Rightarrow> Inl x
      | Inr (m, ok) \<Rightarrow>
          (case validate_members vs (complete \<and> ok) of
             Inl x \<Rightarrow> Inl x
           | Inr (ms, c) \<Rightarrow> Inr (m # ms, c)))"

definition collection :: "json list \<Rightarrow> bool \<Rightarrow> dict" where
  "collection ms complete = [(''kind'', JStr ''collection''), (''members'', JArr ms), (''complete'', JBool complete)]"

definition validate_targets :: "json \<Rightarrow> dict res" where
  "validate_targets v = (case v of
      JObj d \<Rightarrow>
        if \<not> keys_are [''targets'', ''complete'', ''reason''] d then Inl (ValueError ''invalid_transmission_description'')
        else if \<not> is_bool (dget d ''complete'') \<or> \<not> text_upto 4000 (dget d ''reason'')
        then Inl (ValueError ''invalid_transmission_description'')
        else if \<not> is_arr (dget d ''targets'') \<or> 128 < length (the_arr (dget d ''targets''))
        then Inl (ValueError ''invalid_transmission_targets'')
        else (case validate_members (the_arr (dget d ''targets'')) (truthy (dget d ''complete'')) of
            Inl x \<Rightarrow> Inl x
          | Inr (ms, c) \<Rightarrow> Inr (collection ms c))
    | _ \<Rightarrow> Inl (ValueError ''invalid_transmission_description''))"

section \<open>Definitions an earlier provenance pass acquired\<close>

fun note_receipts :: "json list \<Rightarrow> (json \<times> dict) list \<Rightarrow> (json \<times> dict) list res" where
  "note_receipts [] requests = Inr requests"
| "note_receipts (v # vs) requests =
     (let item = the_obj v in
      case fetch item ''status'' of
        Inl x \<Rightarrow> Inl x
      | Inr status \<Rightarrow>
          if status \<noteq> JStr ''observed'' \<or> 64 \<le> length requests then note_receipts vs requests
          else (case (fetch item ''path'', fetch item ''reason'') of
              (Inr path, Inr reason) \<Rightarrow>
                note_receipts vs (dict_set path [(''path'', path), (''reason'', reason)] requests)
            | (Inl x, _) \<Rightarrow> Inl x
            | (Inr path, Inl x) \<Rightarrow> Inl x))"

definition revision_receipts :: "graph_db \<Rightarrow> string \<Rightarrow> string \<Rightarrow> json list" where
  "revision_receipts db ws rvn =
     (case find (\<lambda>r. rv_ws r = ws \<and> rv_rev r = rvn) (g_revisions db) of
        None \<Rightarrow> []
      | Some r \<Rightarrow> the_arr (dget_or (JArr []) (rv_verdict r) ''evidence_receipts''))"

definition parent_revisions :: "graph_db \<Rightarrow> string \<Rightarrow> string list" where
  "parent_revisions db rvn = map lk_parent_rev (filter (\<lambda>l. lk_rev l = rvn) (g_links db))"

text \<open>At most 128 revisions are opened; the rest of the worklist is dropped.\<close>

definition OPENED :: nat where "OPENED = 128"

function request_walk :: "graph_db \<Rightarrow> string \<Rightarrow> string list \<Rightarrow> string list \<Rightarrow> (json \<times> dict) list \<Rightarrow> (json \<times> dict) list res" where
  "request_walk db ws [] seen requests = Inr requests"
| "request_walk db ws (rvn # pending) seen requests =
     (if OPENED \<le> length seen then Inr requests
      else if rvn \<in> set seen then request_walk db ws pending seen requests
      else case note_receipts (revision_receipts db ws rvn) requests of
          Inl x \<Rightarrow> Inl x
        | Inr requests \<Rightarrow> request_walk db ws (rev (parent_revisions db rvn) @ pending) (rvn # seen) requests)"
  by pat_completeness auto
termination
  by (relation "measures [\<lambda>(db, ws, q, seen, rs). OPENED - length seen, \<lambda>(db, ws, q, seen, rs). length q]") auto

definition graph_definition_requests :: "graph_db \<Rightarrow> string \<Rightarrow> string \<Rightarrow> dict list res" where
  "graph_definition_requests db ws event =
     (case find (\<lambda>r. rv_ws r = ws \<and> rv_event r = event) (rev (g_revisions db)) of
        None \<Rightarrow> Inr []
      | Some r \<Rightarrow> map_sum id dict_values (request_walk db ws [rv_rev r] [] []))"

section \<open>The state of an inspection\<close>

text \<open>
  \<open>lo_plans\<close> is \<open>flow_target_plans\<close> (key, scope, event, verdict), \<open>lo_notes\<close> is
  \<open>flow_target_reviews\<close>. The other fields are the objects the loop mutates: the request
  records, the paths already asked for, what is left of the definition budget, and the calls the
  resolver may read outputs of.
\<close>

type_synonym stored_plan = "string \<times> string \<times> string \<times> json"

record 'w locating =
  lo_store :: store
  lo_plans :: "stored_plan list"
  lo_notes :: "(string \<times> string \<times> json) list"
  lo_records :: dict
  lo_seen :: "json list"
  lo_budget :: int
  lo_calls :: "call_node list"
  lo_world :: 'w

type_synonym ('w, 'a) locate = "('w locating, 'a) act"

type_synonym 'w maker = "event_row \<Rightarrow> (string \<times> bytes) list \<Rightarrow> 'w resolver res \<times> (string \<times> bytes) list"

record 'w target_env =
  te_snap :: "'w snapshot_env"
  te_config :: "'w config_env"
  te_bounds :: boundaries
  te_graph :: graph_db
  te_provider :: "'w Requirements.judge"
  te_model :: string
  te_make :: "'w maker"

definition in_store :: "(store \<Rightarrow> 'a res \<times> store) \<Rightarrow> ('w, 'a) locate" where
  "in_store f s = (let (r, t) = f (lo_store s) in (r, s\<lparr>lo_store := t\<rparr>))"

definition outside :: "('w \<Rightarrow> 'a res \<times> 'w) \<Rightarrow> ('w, 'a) locate" where
  "outside f s = (let (r, w) = f (lo_world s) in (r, s\<lparr>lo_world := w\<rparr>))"

definition in_both :: "(store \<Rightarrow> 'w \<Rightarrow> 'a res \<times> store \<times> 'w) \<Rightarrow> ('w, 'a) locate" where
  "in_both f s = (let (r, t, w) = f (lo_store s) (lo_world s) in (r, s\<lparr>lo_store := t, lo_world := w\<rparr>))"

definition in_ledger :: "(ledger \<Rightarrow> 'a res \<times> ledger) \<Rightarrow> ('w, 'a) locate" where
  "in_ledger f = in_store (on_ledger f)"

definition te_hash :: "'w target_env \<Rightarrow> hash" where
  "te_hash e = se_hash (te_snap e)"

definition te_events :: "'w target_env \<Rightarrow> event_row list" where
  "te_events e = se_events (te_snap e)"

text \<open>\<open>with ledger.transaction() as conn\<close> around a statement on another table.\<close>

definition ledger_tx :: "'w target_env \<Rightarrow> ('w, 'a) locate \<Rightarrow> ('w, 'a) locate" where
  "ledger_tx e m = bind (in_store (initialize_ledger (te_events e))) (\<lambda>u. m)"

definition acquire_with :: "'w target_env \<Rightarrow> dict list \<Rightarrow> int \<Rightarrow> ('w, dict list) locate" where
  "acquire_with e requests budget =
     bind (gets lo_records) (\<lambda>records.
       outside (acquire (te_hash e) (se_evidence (te_snap e)) records ENTRIES requests budget))"

definition set_record :: "string \<Rightarrow> json \<Rightarrow> ('w, unit) locate" where
  "set_record k v = modify (\<lambda>s. s\<lparr>lo_records := dict_set k v (lo_records s)\<rparr>)"

text \<open>\<open>records.setdefault("execution_definitions", []).extend(receipts)\<close>.\<close>

definition definitions_of :: "dict \<Rightarrow> json list" where
  "definitions_of records = the_arr (dget_or (JArr []) records ''execution_definitions'')"

definition add_definitions :: "dict list \<Rightarrow> ('w, unit) locate" where
  "add_definitions receipts = modify (\<lambda>s. s\<lparr>lo_records :=
     dict_set ''execution_definitions'' (JArr (definitions_of (lo_records s) @ map JObj receipts)) (lo_records s)\<rparr>)"

section \<open>One description\<close>

definition TARGET_VERSION :: string where "TARGET_VERSION = ''transmission-targets-v8''"
definition TARGET_INPUT :: nat where "TARGET_INPUT = 512000"

definition history_pending :: "dict \<Rightarrow> bool" where
  "history_pending records \<longleftrightarrow> dget records ''history_status'' = JStr ''not_requested''"

text \<open>A request that was given no history does not depend on the event it was made for.\<close>

definition plan_key :: "'w target_env \<Rightarrow> event_row \<Rightarrow> dict \<Rightarrow> string" where
  "plan_key e ev records = digest (te_hash e) (JArr [JStr TARGET_VERSION, JStr (te_model e), JStr (er_workspace ev),
     if history_pending records then JNull else JStr (er_event ev), JObj records])"

definition cached_plan :: "string \<Rightarrow> stored_plan list \<Rightarrow> json option" where
  "cached_plan key t = map_option (\<lambda>(k, sc, ev, v). v) (find (\<lambda>(k, sc, ev, v). k = key) t)"

definition usable_plan :: "json option \<Rightarrow> json option res" where
  "usable_plan cached = (case cached of
      None \<Rightarrow> Inr None
    | Some prior \<Rightarrow>
        (case validate_targets prior of
           Inl x \<Rightarrow> Inl x
         | Inr t \<Rightarrow> Inr (if \<not> truthy (dget t ''complete'') \<and> \<not> reusable_acquisition prior then None else cached)))"

definition incomplete :: "dict \<Rightarrow> dict" where
  "incomplete target = dict_set ''complete'' (JBool False) target"

definition needs_history :: "dict \<Rightarrow> json \<Rightarrow> bool" where
  "needs_history records v \<longleftrightarrow> history_pending records \<and> list_ex (of_kind ''observed'') (targets_of v)"

definition bounded_target :: "dict option \<Rightarrow> dict \<Rightarrow> json \<Rightarrow> dict \<Rightarrow> dict" where
  "bounded_target ctx records v target =
     (let t = (case ctx of None \<Rightarrow> target
               | Some c \<Rightarrow> if dget c ''status'' \<noteq> JStr ''observed'' then incomplete target else target)
      in if needs_history records v then incomplete t else t)"

definition keep_plan :: "dict \<Rightarrow> dict \<Rightarrow> json \<Rightarrow> bool" where
  "keep_plan target records v \<longleftrightarrow>
     truthy (dget target ''complete'') \<or> history_pending records \<and> reusable_acquisition v"

definition describe_with :: "'w target_env \<Rightarrow> event_row \<Rightarrow> dict option \<Rightarrow> dict \<Rightarrow> ('w, json \<times> dict) locate" where
  "describe_with e ev ctx records =
     (let key = plan_key e ev records in
      bind (ledger_tx e (gets (cached_plan key \<circ> lo_plans))) (\<lambda>stored.
      bind (pure (usable_plan stored)) (\<lambda>cached.
      bind (case cached of Some v \<Rightarrow> ret v | None \<Rightarrow> outside (te_provider e (JObj records))) (\<lambda>v.
      bind (pure (validate_targets v)) (\<lambda>valid.
      let target = bounded_target ctx records v valid in
      bind (ledger_tx e (modify (\<lambda>s. s\<lparr>lo_notes := ins_replace fst (key, er_event ev, v) (lo_notes s)\<rparr>))) (\<lambda>u.
      bind (if cached = None \<and> keep_plan target records v
            then ledger_tx e (modify (\<lambda>s. s\<lparr>lo_plans := ins_replace fst (key, er_workspace ev, er_event ev, v) (lo_plans s)\<rparr>))
            else ret ()) (\<lambda>u.
        ret (v, target))))))))"

definition describe :: "'w target_env \<Rightarrow> event_row \<Rightarrow> dict option \<Rightarrow> ('w, json \<times> dict) locate" where
  "describe e ev ctx =
     bind (gets lo_records) (\<lambda>records.
       if TARGET_INPUT < length (utf8 (dumps True False (JObj records))) then raise (ValueError ''target_input_budget'')
       else describe_with e ev ctx records)"

section \<open>What the next description may look at\<close>

definition definition_need :: "string \<Rightarrow> need" where
  "definition_need path = \<lparr>nd_kind = ''execution_definition'', nd_target = path, nd_reason = ''operation_definition_required''\<rparr>"

definition record_definition :: "'w target_env \<Rightarrow> event_row \<Rightarrow> string \<Rightarrow> dict \<Rightarrow> ('w, unit) locate" where
  "record_definition e ev nid got =
     attempt (in_ledger (if status_observed got
         then record_need_attempt (te_events e) (er_workspace ev) nid ''resolved'' (JArr [dget got ''sha256'']) ''definition_observed'' 3
         else record_need_attempt (te_events e) (er_workspace ev) nid ''unsupported'' (JArr []) ''definition_unavailable'' 3))
       (\<lambda>x. if is_value_error x then ret () else raise x)"

definition definition_cost :: "dict \<Rightarrow> int" where
  "definition_cost got = (if status_observed got then int (length (utf8 (the_str (dget got ''content'')))) else 0)"

definition follow_target :: "'w target_env \<Rightarrow> event_row \<Rightarrow> dict \<Rightarrow> bool \<Rightarrow> ('w, bool) locate" where
  "follow_target e ev item advanced =
     (let path = dget item ''path'' in
      bind (gets lo_seen) (\<lambda>seen.
        if \<not> of_kind ''unresolved'' item \<or> \<not> is_str path \<or> path \<in> set seen then ret advanced
        else
          bind (modify (\<lambda>s. s\<lparr>lo_seen := path # lo_seen s\<rparr>)) (\<lambda>u.
          bind (in_ledger (add_need (te_hash e) (te_events e) (er_workspace ev) (er_event ev) (definition_need (the_str path)))) (\<lambda>nid.
          bind (gets lo_budget) (\<lambda>budget.
          bind (acquire_with e [[(''path'', path), (''reason'', dget item ''reason'')]] budget) (\<lambda>acquired.
          let got = hd acquired in
          bind (modify (\<lambda>s. s\<lparr>lo_budget := lo_budget s - definition_cost got\<rparr>)) (\<lambda>u.
          bind (add_definitions [got]) (\<lambda>u.
          bind (record_definition e ev nid got) (\<lambda>u.
            ret True)))))))))"

definition asks_history :: "dict \<Rightarrow> json \<Rightarrow> bool" where
  "asks_history records v \<longleftrightarrow> needs_history records v \<or>
     list_ex (\<lambda>t. of_kind ''unresolved'' t \<and> dget t ''path'' = JNull) (targets_of v)"

definition recorded_history :: "'w target_env \<Rightarrow> event_row \<Rightarrow> call_node list res" where
  "recorded_history e ev = (case er_session ev of
      None \<Rightarrow> Inr []
    | Some sess \<Rightarrow> load_calls (te_hash e) (te_events e) (te_bounds e) (er_workspace ev) sess (er_event ev) 50000 384000)"

text \<open>The history is added once: \<open>previous_calls\<close> is then in the records.\<close>

definition supply_history :: "'w target_env \<Rightarrow> event_row \<Rightarrow> bool \<Rightarrow> ('w, bool) locate" where
  "supply_history e ev advanced =
     bind (attempt (bind (pure (recorded_history e ev)) (\<lambda>calls.
             bind (set_record ''history_status'' (JStr ''observed'')) (\<lambda>u. ret calls)))
           (\<lambda>x. if is_graph_unavailable x
                then bind (set_record ''history_status'' (JStr ''unavailable'')) (\<lambda>u. ret []) else raise x)) (\<lambda>history.
     bind (set_record ''previous_calls'' (JArr (map call_json (butlast history)))) (\<lambda>u.
     bind (if history = [] then ret () else set_record ''current_call'' (call_json (last history))) (\<lambda>u.
     bind (modify (\<lambda>s. s\<lparr>lo_calls := butlast history\<rparr>)) (\<lambda>u.
       ret (advanced \<or> history \<noteq> [])))))"

text \<open>The argument is the number of descriptions left; after the last one nothing is acquired.\<close>

fun locate_loop :: "'w target_env \<Rightarrow> event_row \<Rightarrow> dict option \<Rightarrow> nat \<Rightarrow> ('w, dict) locate" where
  "locate_loop e ev ctx 0 = raise (OtherError ''UnboundLocalError'')"
| "locate_loop e ev ctx (Suc n) =
     bind (gets lo_records) (\<lambda>prior.
     bind (describe e ev ctx) (\<lambda>(v, target).
       if n = 0 then ret target
       else
         bind (each (follow_target e ev) (targets_of v) False) (\<lambda>advanced.
         bind (gets lo_records) (\<lambda>records.
         bind (if \<not> truthy (dget target ''complete'') \<and> \<not> has_key records ''previous_calls'' \<and>
                  (\<not> advanced \<or> asks_history prior v)
               then supply_history e ev advanced else ret advanced) (\<lambda>advanced.
           if advanced then locate_loop e ev ctx n else ret target)))))"

definition ATTEMPTS :: nat where "ATTEMPTS = 8"

section \<open>The inspection of a call\<close>

definition target_records :: "event_row \<Rightarrow> dict" where
  "target_records ev =
     (let root = JStr (er_root ev); input = dget (er_payload ev) ''tool_input'' in
      [(''stage'', JStr ''transmission_targets''), (''tool_name'', dget (er_payload ev) ''tool_name''),
       (''tool_input'', input), (''resolved_cwd'', opt_json (er_execution_cwd ev)), (''workspace_root'', root),
       (''current_call'', JObj [(''workspace_root'', root), (''input'', input)]),
       (''history_status'', JStr ''not_requested'')])"

definition unresolved_target :: dict where
  "unresolved_target = collection [JObj [(''kind'', JStr ''reference'')]] False"

definition extent_need :: need where
  "extent_need = \<lparr>nd_kind = ''target_extent'', nd_target = ''transmission'', nd_reason = ''target_description_unavailable''\<rparr>"

text \<open>The evidence supplied before the first description.\<close>

definition prepare :: "'w target_env \<Rightarrow> event_row \<Rightarrow> ('w, dict option) locate" where
  "prepare e ev =
     bind (gets lo_records) (\<lambda>records.
     bind (outside (observe_context (te_hash e) (te_config e) records)) (\<lambda>ctx.
     bind (case ctx of None \<Rightarrow> ret () | Some c \<Rightarrow> set_record ''invocation_context'' (JObj c)) (\<lambda>u.
     let required = map the_obj (evidence_requirements (dget records ''tool_name'') (dget records ''tool_input'')) in
     bind (if required \<noteq> [] \<and> er_execution_cwd ev = Some (er_root ev)
           then bind (acquire_with e required BUDGET) add_definitions else ret ()) (\<lambda>u.
     bind (pure (graph_definition_requests (te_graph e) (er_workspace ev) (er_event ev))) (\<lambda>shared.
     bind (if shared \<noteq> [] then bind (acquire_with e shared BUDGET) add_definitions else ret ()) (\<lambda>u.
     bind (modify (\<lambda>s. s\<lparr>lo_budget := BUDGET,
             lo_seen := map (\<lambda>r. dget (the_obj r) ''path'') (definitions_of (lo_records s))\<rparr>)) (\<lambda>u.
       ret ctx)))))))"

definition located_target :: "'w target_env \<Rightarrow> event_row \<Rightarrow> dict option \<Rightarrow> ('w, dict) locate" where
  "located_target e ev ctx =
     attempt (locate_loop e ev ctx ATTEMPTS)
       (\<lambda>x. case x of
          JudgeProviderError m \<Rightarrow> raise x
        | _ \<Rightarrow> bind (in_ledger (add_need (te_hash e) (te_events e) (er_workspace ev) (er_event ev) extent_need)) (\<lambda>nid.
                 ret unresolved_target))"

definition context_resource :: "part \<Rightarrow> json res" where
  "context_resource p = map_sum id (\<lambda>path. JObj [(''path'', path), (''mode'', JStr ''read'')])
     (fetch (the_obj (dget (pt_observation p) ''context_origin'')) ''path'')"

fun all_of :: "'a res list \<Rightarrow> 'a list res" where
  "all_of [] = Inr []"
| "all_of (r # rs) = (case r of Inl x \<Rightarrow> Inl x | Inr a \<Rightarrow> map_sum id ((#) a) (all_of rs))"

definition with_context :: "part \<Rightarrow> bool" where
  "with_context p \<longleftrightarrow> truthy (dget (pt_observation p) ''context_origin'')"

definition resolved_with :: "'w locating \<Rightarrow> 'w resolver \<Rightarrow> 'w resolver" where
  "resolved_with s rs = rs\<lparr>rv_calls := lo_calls s, rv_context := Some (lo_records s)\<rparr>"

definition inspect_event :: "'w target_env \<Rightarrow> event_row \<Rightarrow> ('w, 'w resolver \<times> resolution \<times> string) locate" where
  "inspect_event e ev =
     bind (modify (\<lambda>s. s\<lparr>lo_records := target_records ev, lo_calls := []\<rparr>)) (\<lambda>u.
     bind (ledger_tx e (ret ())) (\<lambda>u.
     bind (in_store (\<lambda>s. let (r, keys) = te_make e ev (sr_keys s) in (r, s\<lparr>sr_keys := keys\<rparr>))) (\<lambda>rs.
     bind (prepare e ev) (\<lambda>ctx.
     bind (located_target e ev ctx) (\<lambda>target.
     bind (gets (\<lambda>s. resolved_with s rs)) (\<lambda>rs.
     bind (outside (resolve rs (JObj target) None)) (\<lambda>rn.
     bind (pure (all_of (map context_resource (filter with_context (rn_parts rn))))) (\<lambda>resources.
     bind (if resources = [] then ret ()
           else in_both (snapshot_resources (te_snap e) (te_make e) (er_workspace ev) (er_event ev) resources)) (\<lambda>u.
     bind (in_both (persist_resolution (te_snap e) rs (JObj target) (JObj [(''boundary'', JStr ''external'')]) rn)) (\<lambda>identity.
       ret (rs, rn, identity)))))))))))"

definition inspect_transmission :: "'w target_env \<Rightarrow> string \<Rightarrow> string \<Rightarrow> ('w, 'w resolver \<times> resolution \<times> string) locate" where
  "inspect_transmission e ws event =
     bind (in_store (initialize_ledger (te_events e))) (\<lambda>u.
       case find (\<lambda>r. er_event r = event \<and> er_workspace r = ws) (te_events e) of
         None \<Rightarrow> raise (ValueError ''transmission_event_missing'')
       | Some ev \<Rightarrow> inspect_event e ev)"

section \<open>A validated description is well typed\<close>

text \<open>
  A member is well typed when it passes every shape check of the resolver. The failures that are
  left are listed for each kind of member: for a pointer, evidence that is missing, a budget or an
  extent; for a file, a path that is refused, an error of the file system, something that is no
  regular file or changed while it was read, a budget or an extent; for a snapshot, a path that is
  refused, a repository that is not local, or an error of reading the repository.
\<close>

definition pointer_failures :: "string list" where
  "pointer_failures = [''observed_pointer_missing'', ''observed_output_not_completed'', ''context_pointer_missing'',
     ''input_pointer_missing'', ''input_value_not_text'', ''resolution_byte_budget'', ''invalid_inline_extent'']"

definition missing_evidence :: "exn \<Rightarrow> bool" where
  "missing_evidence x \<longleftrightarrow> (\<exists>code \<in> set pointer_failures. x = ResolutionError code)"

text \<open>An error that the file system reported.\<close>

definition disk_error :: "'w disk \<Rightarrow> exn \<Rightarrow> bool" where
  "disk_error d x \<longleftrightarrow> (\<exists>root w w'. dk_open d root w = (Inl x, w')) \<or> (\<exists>dir c sub w w'. dk_openat d dir c sub w = (Inl x, w')) \<or>
     (\<exists>fd w w'. dk_fstat d fd w = (Inl x, w')) \<or> (\<exists>fd n w w'. dk_read d fd n w = (Inl x, w')) \<or>
     (\<exists>dir name w w'. dk_lstat d dir name w = (Inl x, w'))"

definition file_failures :: "string list" where
  "file_failures = [''resource_not_regular_file'', ''resolution_byte_budget'', ''resource_changed_during_read'', ''extent_outside_content'']"

definition file_failure :: "'w resolver \<Rightarrow> json \<Rightarrow> exn \<Rightarrow> bool" where
  "file_failure rs path x \<longleftrightarrow> safe_parts path = Inl x \<or> disk_error (rv_disk rs) x \<or> (\<exists>code \<in> set file_failures. x = ResolutionError code)"

text \<open>The failure of a snapshot that is resolved from \<open>w\<close>; the repository is read in the state its check left.\<close>

definition snapshot_failure :: "'w resolver \<Rightarrow> dict \<Rightarrow> int \<Rightarrow> int \<Rightarrow> 'w \<Rightarrow> exn \<Rightarrow> bool" where
  "snapshot_failure rs d b m w x \<longleftrightarrow> (dget d ''path'' \<noteq> JStr ''.'' \<and> safe_parts (dget d ''path'') = Inl x) \<or>
     (\<exists>found w1. rv_local_dir rs (path_join (rv_root rs) (the_str (dget d ''path''))) w = (found, w1) \<and>
        (if \<not> found then x = ResolutionError ''repository_path_not_local''
         else \<exists>y w2. snapshot (rv_repo rs) (path_join (rv_root rs) (the_str (dget d ''path''))) (dget d ''revision'') b m w1 = (Inl y, w2) \<and>
           x = resolution_failure y))"

definition member_typed :: "'w resolver \<Rightarrow> dict \<Rightarrow> bool" where
  "member_typed rs d \<longleftrightarrow>
     (\<exists>k \<in> {''inline'', ''observed'', ''context''}. of_kind k d \<and> is_str (dget d ''pointer'') \<and>
        starts_with (pointer_prefix k) (the_str (dget d ''pointer'')) \<and> valid_extent d \<and>
        (\<forall>b x b'. inline_part rs k d b = (Inl x, b') \<longrightarrow> missing_evidence x)) \<or>
     of_kind ''file'' d \<and> is_str (dget d ''path'') \<and> valid_extent d \<and>
        (\<forall>b w x b' w'. file_part rs d b w = (Inl x, b', w') \<longrightarrow> file_failure rs (dget d ''path'') x) \<or>
     of_kind ''snapshot'' d \<and> keys_are [''kind'', ''format'', ''path'', ''revision''] d \<and> dget d ''format'' = JStr ''git'' \<and>
        is_str (dget d ''path'') \<and> is_str (dget d ''revision'') \<and>
        (\<forall>b m w x w'. snapshot_parts rs d b m w = (Inl x, w') \<longrightarrow> snapshot_failure rs d b m w x)"

definition describes :: "'w resolver \<Rightarrow> json \<Rightarrow> json \<Rightarrow> bool" where
  "describes rs v m \<longleftrightarrow> (\<exists>item. v = JObj item \<and>
     (if of_kind ''unresolved'' item then m = JObj [(''kind'', JStr ''reference'')]
      else \<exists>d. m = JObj d \<and> (\<forall>(k, x) \<in> set d. dget item k = x) \<and> member_typed rs d))"

lemma dget_pick: "dget (map (\<lambda>k. (k, dget item k)) ks) k = (if k \<in> set ks then dget item k else JNull)"
  by (induction ks) (auto simp: dget_or_def)

lemma keys_pick: "keys_are ks (map (\<lambda>k. (k, dget item k)) ks)"
  by (simp add: keys_are_def comp_def)

lemma missing_codes:
  "missing_evidence (ResolutionError ''observed_pointer_missing'')" "missing_evidence (ResolutionError ''observed_output_not_completed'')"
  "missing_evidence (ResolutionError ''context_pointer_missing'')" "missing_evidence (ResolutionError ''input_pointer_missing'')"
  "missing_evidence (ResolutionError ''input_value_not_text'')" "missing_evidence (ResolutionError ''resolution_byte_budget'')"
  "missing_evidence (ResolutionError ''invalid_inline_extent'')"
  by (simp_all add: missing_evidence_def pointer_failures_def)

lemma pointer_value_error:
  assumes "pointer_value doc (JStr p) = Inl x" and "starts_with ''/tool_input/'' p"
  shows "missing_evidence x"
proof (cases "walk_pointer (JObj doc) (tl (split_on slash p))")
  case None
  then show ?thesis using assms missing_codes(4) by (simp add: pointer_value_def)
next
  case (Some v)
  then show ?thesis using assms missing_codes(5) by (simp add: pointer_value_def split: json.splits)
qed

lemma fetch_observed_error:
  assumes "fetch_observed rs (JStr p) = Inl x"
  shows "missing_evidence x"
proof (cases "parse_observed p")
  case None
  then show ?thesis using assms missing_codes(1) by (simp add: fetch_observed_def)
next
  case (Some it)
  obtain i tail where it: "it = (i, tail)" by (cases it)
  let ?v = "pointer_value [(''tool_input'', JObj [(''value'', c_output (rv_calls rs ! i))])] (JStr (''/tool_input/value'' @ tail))"
  show ?thesis
  proof (cases "length (rv_calls rs) \<le> i \<or> \<not> c_completed (rv_calls rs ! i)")
    case True
    then show ?thesis using assms missing_codes(1,2) Some it unfolding fetch_observed_def Let_def by (auto simp del: append.simps split: if_splits)
  next
    case False
    then have "?v = Inl x" using assms Some it unfolding fetch_observed_def Let_def
      by (cases ?v) (auto simp del: append.simps split: prod.splits)
    then show ?thesis by (rule pointer_value_error) (simp add: starts_with_def)
  qed
qed

lemma fetch_context_error:
  assumes "fetch_context rs (JStr p) = Inl x"
  shows "missing_evidence x"
proof (cases "invocation_context rs = [] \<or> dget (invocation_context rs) ''status'' \<noteq> JStr ''observed'' \<or>
    \<not> starts_with CONTEXT_PREFIX p \<or> starts_with (CONTEXT_PREFIX @ ''origins/'') p")
  case True
  then show ?thesis using assms missing_codes(3) unfolding fetch_context_def Let_def by (auto simp del: append.simps split: if_splits)
next
  case False
  let ?v = "pointer_value [(''tool_input'', JObj (the_obj (dget (invocation_context rs) ''facts'')))]
    (JStr (''/tool_input/'' @ drop (length CONTEXT_PREFIX) p))"
  have "?v = Inl x" using assms False unfolding fetch_context_def Let_def
    by (cases ?v) (auto simp del: append.simps)
  then show ?thesis by (rule pointer_value_error) (simp add: starts_with_def)
qed

lemma fetch_inline_error:
  assumes "fetch_inline rs k (JStr p) = Inl x" and "starts_with (pointer_prefix k) p" and "k \<in> {''inline'', ''observed'', ''context''}"
  shows "missing_evidence x"
proof -
  consider "k = ''observed''" | "k = ''context''" | "k = ''inline''" using assms(3) by blast
  then show ?thesis
  proof cases
    case 1
    then show ?thesis using assms(1) fetch_observed_error [of rs p x] by (auto simp: fetch_inline_def split: sum.splits)
  next
    case 2
    then show ?thesis using assms(1) fetch_context_error [of rs p x] by (auto simp: fetch_inline_def split: sum.splits)
  next
    case 3
    then have "pointer_value (rv_document rs) (JStr p) = Inl x" using assms(1) by (auto simp: fetch_inline_def split: sum.splits)
    then show ?thesis using assms(2) 3 by (intro pointer_value_error) (simp_all add: pointer_prefix_def)
  qed
qed

lemma inline_part_error:
  assumes "inline_part rs k d b = (Inl x, b')" and "keys_are [''kind'', ''pointer'', ''offset'', ''length''] d"
    and "dget d ''pointer'' = JStr p" and "starts_with (pointer_prefix k) p" and "k \<in> {''inline'', ''observed'', ''context''}"
  shows "missing_evidence x"
proof (cases "fetch_inline rs k (JStr p)")
  case (Inl y)
  then have "x = y" using assms by (simp add: inline_part_def)
  then show ?thesis using fetch_inline_error [OF _ assms(4,5)] Inl by blast
next
  case (Inr y)
  obtain content call origin where y: "y = (content, call, origin)" by (rule prod_cases3)
  have "x = ResolutionError ''resolution_byte_budget'' \<or> x = ResolutionError ''invalid_inline_extent''"
    using assms(1-3) Inr y by (auto simp: inline_part_def Let_def split: if_splits)
  then show ?thesis using missing_codes(6,7) by blast
qed

lemma open_parts_error: "open_parts d dir parts w = (Inl x, w') \<Longrightarrow> parts \<noteq> [] \<Longrightarrow> disk_error d x"
  by (induction d dir parts w rule: open_parts.induct) (auto simp: disk_error_def split: prod.splits sum.splits)

lemma read_chunks_error: "read_chunks d fd remaining acc w = (Inl x, w') \<Longrightarrow> disk_error d x"
proof (induction d fd remaining acc w rule: read_chunks.induct)
  case (1 d fd remaining acc w)
  have z: "remaining \<noteq> 0"
  proof
    assume "remaining = 0"
    then have "read_chunks d fd remaining acc w = (Inr acc, w)" by (subst read_chunks.simps) simp
    with 1(2) show False by simp
  qed
  obtain q w1 where q: "dk_read d fd (min 65536 remaining) w = (q, w1)" by fastforce
  show ?case
  proof (cases q)
    case (Inl y)
    with 1(2) z q have "y = x" by (subst (asm) read_chunks.simps) simp
    with q Inl show ?thesis unfolding disk_error_def by blast
  next
    case (Inr chunk)
    with 1(2) z q have "chunk \<noteq> []" "read_chunks d fd (remaining - length chunk) (acc @ chunk) w1 = (Inl x, w')"
      by (subst (asm) read_chunks.simps, auto split: if_splits)+
    with 1(1) [OF z q [symmetric] Inr] show ?thesis by blast
  qed
qed

lemma open_resource_error:
  assumes "open_resource d root path w = (Inl x, w')"
  shows "safe_parts path = Inl x \<or> disk_error d x"
proof (cases "safe_parts path")
  case (Inr parts)
  then obtain p where "parts = pp_parts p" "pp_str p = p" "p \<noteq> ''.''" by (auto simp: safe_parts_def split: json.splits if_splits)
  then have "parts \<noteq> []" by (auto simp: pp_parts_def pp_str_def split: if_splits)
  moreover obtain q w1 where q: "dk_open d root w = (q, w1)" by fastforce
  ultimately show ?thesis using assms Inr open_parts_error [of d _ parts w1 x w']
    by (cases q) (auto simp: open_resource_def, auto simp: disk_error_def)
qed (use assms in \<open>simp add: open_resource_def\<close>)

lemma read_file_error:
  assumes "read_file d root event path b w = (Inl x, w')"
  shows "safe_parts path = Inl x \<or> disk_error d x \<or> (\<exists>code \<in> set file_failures. x = ResolutionError code)"
proof -
  obtain q w1 where q: "open_resource d root path w = (q, w1)" by fastforce
  show ?thesis
  proof (cases q)
    case (Inl y)
    with assms q open_resource_error [of d root path w y w1] show ?thesis by (auto simp: read_file_def)
  next
    case (Inr handles)
    obtain fd dir name where h: "handles = (fd, dir, name)" by (cases handles)
    have stat: "dk_fstat d fd v = (Inl y, v') \<Longrightarrow> disk_error d y" "dk_lstat d dir name v = (Inl y, v') \<Longrightarrow> disk_error d y" for v y v'
      unfolding disk_error_def by blast+
    show ?thesis using assms q Inr h
      by (auto simp: read_file_def file_failures_def split: prod.splits sum.splits if_splits dest: stat read_chunks_error)
  qed
qed

lemma file_part_error:
  assumes "file_part rs d b w = (Inl x, b', w')" and "keys_are [''kind'', ''path'', ''offset'', ''length''] d" and "valid_extent d"
  shows "file_failure rs (dget d ''path'') x"
proof -
  have "x = ResolutionError ''extent_outside_content'' \<or>
    read_file (rv_disk rs) (rv_root rs) (rv_event_id rs) (dget d ''path'') b w = (Inl x, w')"
    using assms by (auto simp: file_part_def valid_extent_def Let_def split: if_splits sum.splits prod.splits)
  then show ?thesis using read_file_error by (fastforce simp: file_failure_def file_failures_def)
qed

lemma snapshot_parts_error:
  assumes "snapshot_parts rs d b m w = (Inl x, w')" and "keys_are [''kind'', ''format'', ''path'', ''revision''] d" and "dget d ''format'' = JStr ''git''"
  shows "snapshot_failure rs d b m w x"
proof -
  obtain found w1 where l: "rv_local_dir rs (path_join (rv_root rs) (the_str (dget d ''path''))) w = (found, w1)" by fastforce
  obtain q w2 where q: "snapshot (rv_repo rs) (path_join (rv_root rs) (the_str (dget d ''path''))) (dget d ''revision'') b m w1 = (q, w2)" by fastforce
  show ?thesis
  proof (cases "if dget d ''path'' = JStr ''.'' then Inr [] else safe_parts (dget d ''path'')")
    case (Inl y)
    with assms show ?thesis by (auto simp: snapshot_parts_def snapshot_failure_def split: if_splits)
  next
    case (Inr ps)
    with assms l q show ?thesis
      by (cases q) (auto simp: snapshot_parts_def snapshot_failure_def Let_def split: if_splits)
  qed
qed

lemma pick_fields: "\<forall>(k, x) \<in> set (map (\<lambda>k. (k, dget item k)) ks). dget item k = x"
  by auto

lemma pointer_member_typed:
  assumes "pointer_member k item = Inr m" and "of_kind k item" and "valid_extent item"
    and "k \<in> {''inline'', ''observed'', ''context''}"
  shows "\<exists>d. m = JObj d \<and> (\<forall>(k, x) \<in> set d. dget item k = x) \<and> member_typed rs d"
proof -
  define d where "d = map (\<lambda>k. (k, dget item k)) [''kind'', ''pointer'', ''offset'', ''length'']"
  have g: "dget d j = dget item j" if "j \<in> {''kind'', ''pointer'', ''offset'', ''length''}" for j
    using that unfolding d_def dget_pick by (simp only: list.set if_True)
  from assms(1) have m: "m = JObj d" "is_str (dget item ''pointer'')"
      "starts_with (pointer_prefix k) (the_str (dget item ''pointer''))"
    by (auto simp: pointer_member_def pick_def d_def split: if_splits)
  from m(2) obtain p where p: "dget d ''pointer'' = JStr p" using g by (cases "dget item ''pointer''") auto
  have keys: "keys_are [''kind'', ''pointer'', ''offset'', ''length''] d" unfolding d_def by (rule keys_pick)
  have pre: "starts_with (pointer_prefix k) p" using m(3) p g [of "''pointer''"] by simp
  have "member_typed rs d"
    unfolding member_typed_def
  proof (intro disjI1 bexI [of _ k] conjI allI impI)
    show "of_kind k d" using assms(2) g by (simp add: of_kind_def)
    show "is_str (dget d ''pointer'')" using p by simp
    show "starts_with (pointer_prefix k) (the_str (dget d ''pointer''))" using pre p by simp
    show "valid_extent d" using assms(3) g by (simp add: valid_extent_def)
    show "missing_evidence x" if "inline_part rs k d b = (Inl x, b')" for b x b'
      using inline_part_error [OF that keys p pre assms(4)] .
  qed (rule assms(4))
  moreover have "\<forall>(j, x) \<in> set d. dget item j = x" unfolding d_def by (rule pick_fields)
  ultimately show ?thesis using m(1) by blast
qed

lemma file_member_typed:
  assumes "file_member item = Inr m" and "of_kind ''file'' item" and "valid_extent item"
  shows "\<exists>d. m = JObj d \<and> (\<forall>(k, x) \<in> set d. dget item k = x) \<and> member_typed rs d"
proof -
  define d where "d = map (\<lambda>k. (k, dget item k)) [''kind'', ''path'', ''offset'', ''length'']"
  have g: "dget d j = dget item j" if "j \<in> {''kind'', ''path'', ''offset'', ''length''}" for j
    using that unfolding d_def dget_pick by (simp only: list.set if_True)
  from assms(1) have m: "m = JObj d" "is_str (dget item ''path'')"
    by (auto simp: file_member_def pick_def d_def split: if_splits)
  have keys: "keys_are [''kind'', ''path'', ''offset'', ''length''] d" unfolding d_def by (rule keys_pick)
  have ext: "valid_extent d" using assms(3) g by (simp add: valid_extent_def)
  have "member_typed rs d"
    unfolding member_typed_def
  proof (rule disjI2, rule disjI1, intro conjI allI impI)
    show "of_kind ''file'' d" using assms(2) g by (simp add: of_kind_def)
    show "is_str (dget d ''path'')" using m(2) g by simp
    show "file_failure rs (dget d ''path'') x"
      if "file_part rs d b w = (Inl x, b', w')" for b w x b' w' by (rule file_part_error [OF that keys ext])
  qed (rule ext)
  moreover have "\<forall>(j, x) \<in> set d. dget item j = x" unfolding d_def by (rule pick_fields)
  ultimately show ?thesis using m(1) by blast
qed

lemma snapshot_member_typed:
  assumes "snapshot_member item = Inr m" and "of_kind ''snapshot'' item"
  shows "\<exists>d. m = JObj d \<and> (\<forall>(k, x) \<in> set d. dget item k = x) \<and> member_typed rs d"
proof -
  define d where "d = map (\<lambda>k. (k, dget item k)) [''kind'', ''format'', ''path'', ''revision'']"
  have g: "dget d j = dget item j" if "j \<in> {''kind'', ''format'', ''path'', ''revision''}" for j
    using that unfolding d_def dget_pick by (simp only: list.set if_True)
  from assms(1) have m: "m = JObj d" "is_str (dget item ''path'')" "is_str (dget item ''revision'')" "dget item ''format'' = JStr ''git''"
    by (auto simp: snapshot_member_def pick_def d_def split: if_splits)
  have keys: "keys_are [''kind'', ''format'', ''path'', ''revision''] d" unfolding d_def by (rule keys_pick)
  have "dget d ''format'' = JStr ''git''" using m(4) g by simp
  then have "\<forall>b m w x w'. snapshot_parts rs d b m w = (Inl x, w') \<longrightarrow> snapshot_failure rs d b m w x"
    using snapshot_parts_error [OF _ keys] by (intro allI impI)
  moreover have "of_kind ''snapshot'' d" "is_str (dget d ''path'')" "is_str (dget d ''revision'')" "dget d ''format'' = JStr ''git''"
    using m g assms(2) by (simp_all add: of_kind_def)
  ultimately have "member_typed rs d" unfolding member_typed_def using keys by blast
  moreover have "\<forall>(j, x) \<in> set d. dget item j = x" unfolding d_def by (rule pick_fields)
  ultimately show ?thesis using m(1) by blast
qed

lemma validate_member_describes:
  assumes "validate_member v = Inr (m, ok)"
  shows "describes rs v m \<and> (ok \<longleftrightarrow> \<not> of_kind ''unresolved'' (the_obj v))"
proof -
  from assms obtain item where v: "v = JObj item" by (auto simp: validate_member_def split: json.splits)
  have ext: "valid_extent item" using assms v by (auto simp: validate_member_def split: if_splits)
  have other: "of_kind k item \<Longrightarrow> k \<noteq> ''unresolved'' \<Longrightarrow> \<not> of_kind ''unresolved'' item" for k by (auto simp: of_kind_def)
  consider (pointer) k where "of_kind k item" "k \<in> {''inline'', ''observed'', ''context''}" "map_sum id (\<lambda>m. (m, True)) (pointer_member k item) = Inr (m, ok)"
    | (whole) "of_kind ''file'' item" "map_sum id (\<lambda>m. (m, True)) (file_member item) = Inr (m, ok)"
    | (snapshot) "of_kind ''snapshot'' item" "map_sum id (\<lambda>m. (m, True)) (snapshot_member item) = Inr (m, ok)"
    | (unresolved) "of_kind ''unresolved'' item" "m = JObj [(''kind'', JStr ''reference'')]" "\<not> ok"
    using assms unfolding v validate_member_def of_kind_def by (auto split: if_splits)
  then show ?thesis
  proof cases
    case pointer
    then have "k \<noteq> ''unresolved''" by auto
    with pointer show ?thesis using pointer_member_typed [OF _ pointer(1) ext pointer(2)] other [OF pointer(1)] v
      unfolding map_sum_Inr describes_def by auto
  next
    case whole
    then show ?thesis using file_member_typed [OF _ whole(1) ext] other [OF whole(1)] v
      unfolding map_sum_Inr describes_def by auto
  next
    case snapshot
    then show ?thesis using snapshot_member_typed [OF _ snapshot(1)] other [OF snapshot(1)] v
      unfolding map_sum_Inr describes_def by auto
  next
    case unresolved
    then show ?thesis using v by (simp add: describes_def)
  qed
qed

lemma validate_members_describes:
  "validate_members vs c = Inr (ms, c') \<Longrightarrow>
   list_all2 (describes rs) vs ms \<and> (c' \<longleftrightarrow> c \<and> \<not> list_ex (of_kind ''unresolved'') (map the_obj vs))"
proof (induction vs arbitrary: c ms c')
  case (Cons v vs)
  from Cons.prems obtain m ok ms' where m: "validate_member v = Inr (m, ok)" "validate_members vs (c \<and> ok) = Inr (ms', c')" "ms = m # ms'"
    by (auto split: sum.splits)
  from validate_member_describes [OF m(1), of rs] Cons.IH [OF m(2)] m(3) show ?case by auto
qed simp

text \<open>C24. A description that validates is a collection with one member per described target, in
  order: an unresolved target becomes a reference, which no resolver can resolve, and any other
  member carries the described fields unchanged and is well typed, so that resolving it never fails
  for its shape. What it can fail for is exactly this: an inline, observed or context pointer for
  missing evidence, the byte budget or its extent; a file for a path that is refused, an error the
  file system reported, not being a regular file, a change during the read, the byte budget or its
  extent; a snapshot for a path that is refused, a repository that is not local, or an error of
  reading this repository at this revision. The collection is complete exactly when the description
  says so and leaves nothing unresolved.\<close>

theorem validated_description_is_well_typed:
  assumes "validate_targets v = Inr t"
  shows "\<exists>d vs ms c. v = JObj d \<and> dget d ''targets'' = JArr vs \<and> t = collection ms c \<and> collection_ok t \<and> length ms \<le> 128 \<and>
    list_all2 (describes rs) vs ms \<and>
    (c \<longleftrightarrow> dget d ''complete'' = JBool True \<and> \<not> list_ex (of_kind ''unresolved'') (targets_of v))"
proof -
  from assms obtain d where d: "v = JObj d" by (auto simp: validate_targets_def split: json.splits)
  from assms d have "is_bool (dget d ''complete'')" "is_arr (dget d ''targets'')"
    by (auto simp: validate_targets_def split: if_splits)
  then obtain b vs where b: "dget d ''complete'' = JBool b" "dget d ''targets'' = JArr vs"
    by (cases "dget d ''complete''"; cases "dget d ''targets''") auto
  from assms d b obtain ms c where ms: "validate_members vs b = Inr (ms, c)" "t = collection ms c" "length vs \<le> 128"
    by (auto simp: validate_targets_def split: if_splits sum.splits)
  have described: "list_all2 (describes rs) vs ms \<and> (c \<longleftrightarrow> b \<and> \<not> list_ex (of_kind ''unresolved'') (map the_obj vs))"
    by (rule validate_members_describes [OF ms(1)])
  then have "length ms \<le> 128" using ms(3) by (auto dest: list_all2_lengthD)
  moreover have "collection_ok t" unfolding ms(2) by (simp add: collection_ok_def collection_def keys_are_def dget_or_def)
  moreover have "map the_obj vs = targets_of v" using d b by (simp add: targets_of_def)
  ultimately show ?thesis using d b ms(2) described by (intro exI [of _ d] exI [of _ vs] exI [of _ ms] exI [of _ c]) simp
qed

section \<open>Complete coverage was described\<close>

text \<open>The target is the controller's reading of a validated description that is on record.\<close>

definition described :: "event_row \<Rightarrow> dict option \<Rightarrow> dict \<Rightarrow> (string \<times> string \<times> json) list \<Rightarrow> bool" where
  "described ev ctx target notes \<longleftrightarrow> (\<exists>key v valid records. (key, er_event ev, v) \<in> set notes \<and>
     validate_targets v = Inr valid \<and> target = bounded_target ctx records v valid)"

definition noted :: "((string \<times> string \<times> json) list \<Rightarrow> bool) \<Rightarrow> dict option \<Rightarrow> 'w locating \<Rightarrow> bool" where
  "noted R ctx s \<longleftrightarrow> R (lo_notes s) \<and>
     dget (lo_records s) ''invocation_context'' = (case ctx of None \<Rightarrow> JNull | Some c \<Rightarrow> JObj c)"

abbreviation told :: "dict option \<Rightarrow> 'w locating \<Rightarrow> bool" where
  "told \<equiv> noted (\<lambda>notes. True)"

lemma in_store_keeps: "(\<And>s t. P s \<Longrightarrow> P (s\<lparr>lo_store := t\<rparr>)) \<Longrightarrow> keeps P (in_store f)"
  by (rule hoareI) (auto simp: in_store_def Let_def split: prod.splits)

lemma outside_keeps: "(\<And>s w. P s \<Longrightarrow> P (s\<lparr>lo_world := w\<rparr>)) \<Longrightarrow> keeps P (outside f)"
  by (rule hoareI) (auto simp: outside_def Let_def split: prod.splits)

lemma in_both_keeps: "(\<And>s t w. P s \<Longrightarrow> P (s\<lparr>lo_store := t, lo_world := w\<rparr>)) \<Longrightarrow> keeps P (in_both f)"
  by (rule hoareI) (auto simp: in_both_def Let_def split: prod.splits)

lemma keeps_noted [keeps_rules]:
  "keeps (noted R ctx) (in_store f)" "keeps (noted R ctx) (outside g)" "keeps (noted R ctx) (in_both h)"
  "keeps (noted R ctx) (in_ledger k)"
  by (auto intro!: in_store_keeps outside_keeps in_both_keeps simp: noted_def in_ledger_def)

lemma keeps_changes [keeps_rules]:
  "k \<noteq> ''invocation_context'' \<Longrightarrow> keeps (noted R ctx) (set_record k v)"
  "keeps (noted R ctx) (add_definitions receipts)"
  "keeps (noted R ctx) (modify (\<lambda>s. s\<lparr>lo_seen := f s\<rparr>))"
  "keeps (noted R ctx) (modify (\<lambda>s. s\<lparr>lo_budget := g s\<rparr>))"
  "keeps (noted R ctx) (modify (\<lambda>s. s\<lparr>lo_calls := h s\<rparr>))"
  by (auto intro!: hoare_modify simp: noted_def set_record_def add_definitions_def)

lemma keeps_prepared [keeps_rules]: "keeps (noted R ctx) (modify (\<lambda>s. s\<lparr>lo_budget := f s, lo_seen := g s\<rparr>))"
  by (auto intro!: hoare_modify simp: noted_def)

lemma keeps_acquire [keeps_rules]: "keeps (noted R ctx) (acquire_with e requests budget)"
  unfolding acquire_with_def by (intro keeps_rules)

lemma follow_target_keeps [keeps_rules]: "keeps (noted R ctx) (follow_target e ev item advanced)"
  unfolding follow_target_def record_definition_def Let_def by (intro keeps_rules)

lemma supply_history_keeps [keeps_rules]: "keeps (noted R ctx) (supply_history e ev advanced)"
  unfolding supply_history_def by (intro keeps_rules; simp)

lemma describe_noted:
  assumes "describe e ev ctx s = (Inr (v, target), t)"
  shows "described ev ctx target (lo_notes t) \<and> lo_records t = lo_records s"
proof -
  have store: "in_store f s = (Inr x, t) \<Longrightarrow> lo_notes t = lo_notes s \<and> lo_records t = lo_records s" for f s x t
    by (auto simp: in_store_def Let_def split: prod.splits)
  have world: "outside f s = (Inr x, t) \<Longrightarrow> lo_notes t = lo_notes s \<and> lo_records t = lo_records s" for f s x t
    by (auto simp: outside_def Let_def split: prod.splits)
  have asked: "(case cached of None \<Rightarrow> outside f | Some x \<Rightarrow> ret x) s = (Inr x, t) \<Longrightarrow> lo_notes t = lo_notes s \<and> lo_records t = lo_records s" for cached f s x t
    by (cases cached) (auto simp: ret_Inr dest: world)
  have kept: "(if b then ledger_tx e (modify (\<lambda>s. s\<lparr>lo_plans := f s\<rparr>)) else ret ()) s = (Inr x, t) \<Longrightarrow> lo_notes t = lo_notes s \<and> lo_records t = lo_records s" for b f s x t
    by (cases b) (auto simp: ret_Inr ledger_tx_def act_Inr dest: store)
  have looked: "ledger_tx e (gets f) s = (Inr x, t) \<Longrightarrow> lo_notes t = lo_notes s \<and> lo_records t = lo_records s" for f s x t
    by (auto simp: ledger_tx_def act_Inr dest: store)
  have wrote: "ledger_tx e (modify (\<lambda>s. s\<lparr>lo_notes := f s\<rparr>)) s = (Inr x, t) \<Longrightarrow> (\<exists>s'. lo_notes t = f s') \<and> lo_records t = lo_records s" for f s x t
    by (auto simp: ledger_tx_def act_Inr dest: store)
  let ?records = "lo_records s"
  let ?key = "plan_key e ev ?records"
  have "describe_with e ev ctx ?records s = (Inr (v, target), t)"
    using assms by (auto simp: describe_def bind_Inr gets_Inr raise_Inr simp del: dumps.simps split: if_splits)
  then obtain s1 s2 s3 stored cached valid u1 u2 where
    1: "ledger_tx e (gets (cached_plan ?key \<circ> lo_plans)) s = (Inr stored, s1)"
    and 2: "(case cached of Some v \<Rightarrow> ret v | None \<Rightarrow> outside (te_provider e (JObj ?records))) s1 = (Inr v, s2)"
    and 3: "validate_targets v = Inr valid"
    and 4: "ledger_tx e (modify (\<lambda>s. s\<lparr>lo_notes := ins_replace fst (?key, er_event ev, v) (lo_notes s)\<rparr>)) s2 = (Inr u1, s3)"
    and 5: "(if cached = None \<and> keep_plan (bounded_target ctx ?records v valid) ?records v
               then ledger_tx e (modify (\<lambda>s. s\<lparr>lo_plans := ins_replace fst (?key, er_workspace ev, er_event ev, v) (lo_plans s)\<rparr>))
               else ret ()) s3 = (Inr u2, t)"
    and 6: "target = bounded_target ctx ?records v valid"
    unfolding describe_with_def Let_def by (auto simp only: bind_Inr pure_Inr ret_Inr prod.inject sum.inject)
  from wrote [OF 4] have n: "(?key, er_event ev, v) \<in> set (lo_notes s3)" by (auto simp: set_ins_replace)
  have "described ev ctx target (lo_notes t)"
    unfolding described_def using n 3 6 kept [OF 5] by metis
  then show ?thesis using looked [OF 1] asked [OF 2] wrote [OF 4] kept [OF 5] by simp
qed

lemma locate_loop_described:
  "locate_loop e ev ctx n s = (Inr target, t) \<Longrightarrow> told ctx s \<Longrightarrow> noted (described ev ctx target) ctx t"
proof (induction n arbitrary: s)
  case 0
  then show ?case by (simp add: raise_Inr)
next
  case (Suc n)
  from Suc.prems(1) obtain v tg s1 where d: "describe e ev ctx s = (Inr (v, tg), s1)"
    and r: "(if n = 0 then ret tg
       else
         bind (each (follow_target e ev) (targets_of v) False) (\<lambda>advanced.
         bind (gets lo_records) (\<lambda>records.
         bind (if \<not> truthy (dget tg ''complete'') \<and> \<not> has_key records ''previous_calls'' \<and>
                  (\<not> advanced \<or> asks_history (lo_records s) v)
               then supply_history e ev advanced else ret advanced) (\<lambda>advanced.
           if advanced then locate_loop e ev ctx n else ret tg)))) s1 = (Inr target, t)"
    by (auto simp: act_Inr)
  have s1: "noted (described ev ctx tg) ctx s1" using describe_noted [OF d] Suc.prems(2) by (simp add: noted_def)
  show ?case
  proof (cases "n = 0")
    case True
    then show ?thesis using r s1 by (simp add: ret_Inr)
  next
    case False
    with r obtain a s2 b s3 where f: "each (follow_target e ev) (targets_of v) False s1 = (Inr a, s2)"
      and h: "(if \<not> truthy (dget tg ''complete'') \<and> \<not> has_key (lo_records s2) ''previous_calls'' \<and>
                  (\<not> a \<or> asks_history (lo_records s) v)
               then supply_history e ev a else ret a) s2 = (Inr b, s3)"
      and l: "(if b then locate_loop e ev ctx n else ret tg) s3 = (Inr target, t)"
      by (auto simp: bind_Inr gets_Inr)
    have "keeps (noted R ctx) (each (follow_target e ev) (targets_of v) False)" for R by (intro keeps_rules)
    from keeps_returns [OF this f s1] have s2: "noted (described ev ctx tg) ctx s2" .
    have "keeps (noted R ctx) (if c then supply_history e ev a else ret a)" for R c by (intro keeps_rules)
    from keeps_returns [OF this h s2] have s3: "noted (described ev ctx tg) ctx s3" .
    show ?thesis using l s3 Suc.IH by (cases b) (auto simp: ret_Inr noted_def)
  qed
qed

lemma incomplete_collection_needs:
  assumes "visit rs (Suc depth) (JObj d) st = (None, st')" and "dget d ''kind'' = JStr ''collection''" and "dget d ''complete'' = JBool False"
  shows "vs_needs st' \<noteq> []"
  using assms by (auto simp: visit.simps want_def caught_def Let_def split: if_splits prod.splits option.splits)

lemma incomplete_coverage:
  assumes "resolve rs (JObj d) None w = (Inr rn, w')" and "dget d ''kind'' = JStr ''collection''" and "dget d ''complete'' = JBool False"
  shows "rn_coverage rn \<noteq> ''complete''"
proof -
  have depth: "MAX_DEPTH = Suc 8" by (simp add: MAX_DEPTH_def)
  from assms(1) obtain st where v: "visit rs (Suc 8) (JObj d) \<lparr>vs_parts = [], vs_needs = [], vs_bytes = int (rv_max_bytes rs),
      vs_members = int (rv_max_members rs), vs_world = w\<rparr> = (None, st)"
    and c: "rn_coverage rn = (if vs_needs st = [] then ''complete'' else if vs_parts st = [] then ''unsupported'' else ''partial'')"
    unfolding resolve_def depth by (auto split: prod.splits option.splits)
  from incomplete_collection_needs [OF v assms(2,3)] show ?thesis unfolding c by simp
qed

lemma validated_collection:
  assumes "validate_targets v = Inr valid"
  shows "\<exists>ms c. valid = collection ms c"
  using assms by (auto simp: validate_targets_def split: json.splits if_splits sum.splits)

lemma bounded_target_complete:
  assumes "valid = collection ms c" and "dget (bounded_target ctx records v valid) ''complete'' \<noteq> JBool False"
  shows "bounded_target ctx records v valid = valid \<and> c \<and> (\<forall>d. ctx = Some d \<longrightarrow> dget d ''status'' = JStr ''observed'')"
  using assms by (auto simp: bounded_target_def incomplete_def collection_def Let_def dget_or_def split: if_splits option.splits)

lemma bounded_target_kind: "valid = collection ms c \<Longrightarrow> dget (bounded_target ctx records v valid) ''kind'' = JStr ''collection''"
  by (auto simp: bounded_target_def incomplete_def collection_def Let_def dget_or_def split: option.splits)

lemma prepare_told:
  assumes "prepare e ev s = (Inr ctx, t)" and "dget (lo_records s) ''invocation_context'' = JNull"
  shows "told ctx t"
proof -
  have told: "told ctx s2"
    if "outside f s1 = (Inr ctx, s')" "(case ctx of None \<Rightarrow> ret () | Some c \<Rightarrow> set_record ''invocation_context'' (JObj c)) s' = (Inr u, s2)"
      "lo_records s1 = lo_records s" for f ctx s1 s' u s2
    using that assms(2) by (auto simp: outside_def noted_def set_record_def ret_Inr modify_Inr Let_def split: prod.splits option.splits)
  have k: "keeps (told c) (if b then bind (acquire_with e rs n) add_definitions else ret ())" for c b rs n
    by (intro keeps_rules)
  from assms(1) obtain s1 s2 s3 s4 u1 u2 u3 u4 shared f where
    1: "outside f s = (Inr ctx, s1)"
    and 2: "(case ctx of None \<Rightarrow> ret () | Some c \<Rightarrow> set_record ''invocation_context'' (JObj c)) s1 = (Inr u1, s2)"
    and 3: "(let required = map the_obj (evidence_requirements (dget (lo_records s) ''tool_name'') (dget (lo_records s) ''tool_input''))
       in if required \<noteq> [] \<and> er_execution_cwd ev = Some (er_root ev) then bind (acquire_with e required BUDGET) add_definitions else ret ()) s2 = (Inr u2, s3)"
    and 4: "(if shared \<noteq> [] then bind (acquire_with e shared BUDGET) add_definitions else ret ()) s3 = (Inr u3, s4)"
    and 5: "modify (\<lambda>s. s\<lparr>lo_budget := BUDGET, lo_seen := map (\<lambda>r. dget (the_obj r) ''path'') (definitions_of (lo_records s))\<rparr>) s4 = (Inr u4, t)"
    unfolding prepare_def Let_def by (auto simp only: bind_Inr gets_Inr pure_Inr ret_Inr prod.inject sum.inject)
  have "told ctx s2" by (rule told [OF 1 2 refl])
  from keeps_returns [OF k 3 [unfolded Let_def] this] have "told ctx s3" .
  from keeps_returns [OF k 4 this] have "told ctx s4" .
  from keeps_returns [OF keeps_prepared 5 this] show ?thesis .
qed

lemma located_target_described:
  assumes 4: "located_target e ev ctx s5 = (Inr target, s6)" and told: "told ctx s5"
  shows "noted (described ev ctx target) ctx s6 \<or> target = unresolved_target"
proof -
  from 4 consider (succeeded) "locate_loop e ev ctx ATTEMPTS s5 = (Inr target, s6)"
    | (failed) x s9 where "(case x of JudgeProviderError m \<Rightarrow> raise x
        | _ \<Rightarrow> bind (in_ledger (add_need (te_hash e) (te_events e) (er_workspace ev) (er_event ev) extent_need)) (\<lambda>nid.
                 ret unresolved_target)) s9 = (Inr target, s6)"
    unfolding located_target_def attempt_Inr by blast
  then show ?thesis
  proof cases
    case succeeded
    then show ?thesis using locate_loop_described [OF _ told] by blast
  next
    case failed
    then show ?thesis by (cases x) (auto simp: bind_Inr ret_Inr raise_Inr)
  qed
qed

lemma resolving_keeps_notes:
  assumes 6: "outside (resolve rs (JObj target) None) s6 = (Inr rn, s7)"
    and 7: "(if resources = [] then ret () else in_both (snapshot_resources (te_snap e) (te_make e) (er_workspace ev) (er_event ev) resources)) s7 = (Inr u2, s8)"
    and 8: "in_both (persist_resolution (te_snap e) rs (JObj target) (JObj [(''boundary'', JStr ''external'')]) rn) s8 = (Inr identity, s')"
  shows "lo_notes s' = lo_notes s6 \<and> lo_records s' = lo_records s6"
proof -
  have kept: "keeps (\<lambda>s. lo_notes s = lo_notes s6 \<and> lo_records s = lo_records s6) (outside f)"
    "keeps (\<lambda>s. lo_notes s = lo_notes s6 \<and> lo_records s = lo_records s6) (in_both g)" for f g
    by (auto intro!: outside_keeps in_both_keeps)
  have kept2: "keeps (\<lambda>s. lo_notes s = lo_notes s6 \<and> lo_records s = lo_records s6) (if b then ret () else in_both g)" for b g
    by (intro keeps_rules kept)
  show ?thesis
    using keeps_returns [OF kept(2) 8] keeps_returns [OF kept2 7] keeps_returns [OF kept(1) 6] by blast
qed

text \<open>C6. A transmission only counts as completely resolved if the judge described it: some
  description was recorded for this event, it validates, it says that it is complete and leaves
  nothing unresolved, and the resolution is what the resolver makes of exactly that description. No
  failure on the way (of the judge, of a validation, of a budget, of the ledger) can end in complete
  coverage. If an invocation context belongs to the call, it was observed.\<close>

theorem complete_coverage_was_described:
  assumes "inspect_transmission e ws event s = (Inr (rs, rn, identity), s')" and "rn_coverage rn = ''complete''"
  shows "\<exists>key v valid. (key, event, v) \<in> set (lo_notes s') \<and> validate_targets v = Inr valid \<and>
    dget valid ''complete'' = JBool True \<and> (\<exists>w w'. resolve rs (JObj valid) None w = (Inr rn, w')) \<and>
    rv_context rs = Some (lo_records s') \<and>
    (\<forall>c. dget (lo_records s') ''invocation_context'' = JObj c \<longrightarrow> dget c ''status'' = JStr ''observed'')"
proof -
  from assms(1) obtain ev s1 where f: "find (\<lambda>r. er_event r = event \<and> er_workspace r = ws) (te_events e) = Some ev"
    and r: "inspect_event e ev s1 = (Inr (rs, rn, identity), s')"
    unfolding inspect_transmission_def by (auto simp: bind_Inr raise_Inr split: option.splits)
  have ev: "er_event ev = event" using find_Some_in [OF f] by simp
  let ?s2 = "s1\<lparr>lo_records := target_records ev, lo_calls := []\<rparr>"
  from r obtain s3 s4 s5 s6 s7 s8 rs0 ctx target resources u1 u2 where
    1: "ledger_tx e (ret ()) ?s2 = (Inr u1, s3)"
    and 2: "in_store (\<lambda>s. let (r, keys) = te_make e ev (sr_keys s) in (r, s\<lparr>sr_keys := keys\<rparr>)) s3 = (Inr rs0, s4)"
    and 3: "prepare e ev s4 = (Inr ctx, s5)" and 4: "located_target e ev ctx s5 = (Inr target, s6)"
    and 5: "rs = resolved_with s6 rs0" and 6: "outside (resolve rs (JObj target) None) s6 = (Inr rn, s7)"
    and 7: "(if resources = [] then ret () else in_both (snapshot_resources (te_snap e) (te_make e) (er_workspace ev) (er_event ev) resources)) s7 = (Inr u2, s8)"
    and 8: "in_both (persist_resolution (te_snap e) rs (JObj target) (JObj [(''boundary'', JStr ''external'')]) rn) s8 = (Inr identity, s')"
    unfolding inspect_event_def bind_Inr modify_Inr gets_Inr pure_Inr ret_Inr prod.inject sum.inject by blast
  have s2: "told None ?s2" by (simp add: noted_def target_records_def Let_def dget_or_def)
  have tx: "keeps (told None) (ledger_tx e (ret ()))" unfolding ledger_tx_def by (intro keeps_rules)
  from keeps_returns [OF tx 1 s2] have "told None s3" .
  from keeps_returns [OF keeps_noted(1) 2 this] have "dget (lo_records s4) ''invocation_context'' = JNull" by (simp add: noted_def)
  from prepare_told [OF 3 this] have told: "told ctx s5" .
  from 6 have rn: "fst (resolve rs (JObj target) None (lo_world s6)) = Inr rn" by (auto simp: outside_def Let_def split: prod.splits)
  then obtain w' where res: "resolve rs (JObj target) None (lo_world s6) = (Inr rn, w')" by (metis prod.collapse)
  note fin = resolving_keeps_notes [OF 6 7 8]
  from located_target_described [OF 4 told]
  show ?thesis
  proof
    assume "target = unresolved_target"
    then show ?thesis using incomplete_coverage [OF res] assms(2) by (simp add: unresolved_target_def collection_def dget_or_def)
  next
    assume n: "noted (described ev ctx target) ctx s6"
    then obtain key v valid records where k: "(key, event, v) \<in> set (lo_notes s6)" "validate_targets v = Inr valid"
      "target = bounded_target ctx records v valid" unfolding noted_def described_def ev by blast
    from validated_collection [OF k(2)] obtain ms c where valid: "valid = collection ms c" by blast
    have "dget target ''complete'' \<noteq> JBool False"
      using incomplete_coverage [OF res] assms(2) bounded_target_kind [OF valid] k(3) by blast
    with bounded_target_complete [OF valid] k(3)
    have b: "target = valid" "c" "\<forall>d. ctx = Some d \<longrightarrow> dget d ''status'' = JStr ''observed''" by metis+
    have "dget valid ''complete'' = JBool True" using b(2) valid by (simp add: collection_def dget_or_def)
    moreover have "rv_context rs = Some (lo_records s')" using 5 fin by (simp add: resolved_with_def)
    moreover have "dget (lo_records s') ''invocation_context'' = (case ctx of None \<Rightarrow> JNull | Some c \<Rightarrow> JObj c)"
      using n fin by (simp add: noted_def)
    then have "\<forall>c. dget (lo_records s') ''invocation_context'' = JObj c \<longrightarrow> dget c ''status'' = JStr ''observed''"
      using b(3) by (auto split: option.splits)
    moreover have "(key, event, v) \<in> set (lo_notes s')" using k(1) fin by simp
    ultimately show ?thesis using k(2) res unfolding b(1) by blast
  qed
qed

section \<open>Examples\<close>

definition send_event :: event_row where
  "send_event = \<lparr>er_event = ''e'', er_phase = ''pre_tool_use'', er_session = Some ''s'', er_tool_use = Some ''t'',
     er_tool_name = JStr ''Bash'', er_workspace = ''w'', er_root = ''/w'', er_execution_cwd = Some ''/w'',
     er_payload = [(''tool_name'', JStr ''Bash''), (''tool_input'', JObj [(''command'', JStr ''send it'')])], er_seq = 1\<rparr>"

definition send_description :: json where
  "send_description = JObj [(''targets'', JArr [JObj [(''kind'', JStr ''inline''), (''format'', JNull), (''revision'', JNull),
      (''pointer'', JStr ''/tool_input/command''), (''path'', JNull), (''offset'', JInt 5), (''length'', JInt 2), (''reason'', JStr ''sent'')]]),
     (''complete'', JBool True), (''reason'', JStr ''one value'')]"

definition send_env :: "unit target_env" where
  "send_env = \<lparr>te_snap = \<lparr>se_hash = (\<lambda>b. ''h''), se_events = [send_event], se_evidence = sample_env\<rparr>, te_config = sample_config,
     te_bounds = [], te_graph = empty_graph, te_provider = (\<lambda>r w. (Inr send_description, w)), te_model = ''m'',
     te_make = (\<lambda>ev keys. make_resolver (\<lambda>k b. k @ b) [send_event] (er_workspace ev) (er_event ev) (er_root ev) ''key''
        (ev_disk sample_env) sample_repo (\<lambda>p w. (True, w)) keys)\<rparr>"

definition send_state :: "unit locating" where
  "send_state = \<lparr>lo_store = empty_store, lo_plans = [], lo_notes = [], lo_records = [], lo_seen = [], lo_budget = 0, lo_calls = [], lo_world = ()\<rparr>"

theorem validated_description_is_well_typed_witness:
  "\<exists>ms. validate_targets send_description = Inr (collection ms True) \<and> list_all2 (describes sample_resolver) (the_arr (dget (the_obj send_description) ''targets'')) ms"
proof -
  have "\<not> isl (validate_targets send_description)" by code_simp
  then obtain t where t: "validate_targets send_description = Inr t" by (auto simp: isl_def split: sum.splits) (metis sum.exhaust)
  have "\<not> list_ex (of_kind ''unresolved'') (targets_of send_description)" by code_simp
  moreover have "dget (the_obj send_description) ''complete'' = JBool True" by code_simp
  moreover obtain d vs ms c where d: "send_description = JObj d" "dget d ''targets'' = JArr vs" "t = collection ms c"
      "list_all2 (describes sample_resolver) vs ms"
      "c \<longleftrightarrow> dget d ''complete'' = JBool True \<and> \<not> list_ex (of_kind ''unresolved'') (targets_of send_description)"
    using validated_description_is_well_typed [OF t, of sample_resolver] by blast
  moreover have "the_obj send_description = d" unfolding d(1) by simp
  ultimately show ?thesis using t by (intro exI [of _ ms]) simp
qed

theorem complete_coverage_was_described_witness:
  "\<exists>rs rn identity s'. inspect_transmission send_env ''w'' ''e'' send_state = (Inr (rs, rn, identity), s') \<and>
     map pt_content (rn_parts rn) = [''it''] \<and> (\<exists>key v. (key, ''e'', v) \<in> set (lo_notes s'))"
proof -
  let ?r = "inspect_transmission send_env ''w'' ''e'' send_state"
  have c: "(case fst ?r of Inr (rs, rn, identity) \<Rightarrow> rn_coverage rn = ''complete'' \<and> map pt_content (rn_parts rn) = [''it''] | _ \<Rightarrow> False)" by code_simp
  then obtain rs rn identity s' where r: "?r = (Inr (rs, rn, identity), s')" "rn_coverage rn = ''complete''" "map pt_content (rn_parts rn) = [''it'']"
    by (cases ?r) (auto split: sum.splits)
  from complete_coverage_was_described [OF r(1,2)] obtain key v where "(key, ''e'', v) \<in> set (lo_notes s')" by blast
  with r(1,3) show ?thesis by (intro exI [of _ rs] exI [of _ rn] exI [of _ identity] exI [of _ s'] exI [of _ key] exI [of _ v] conjI)
qed

end
