(* ===== verification/Fast_Path.thy ===== *)
theory Fast_Path
  imports Provenance Freshness
begin

text \<open>
  \<open>engine/fast_path.py\<close>: a positive-only shortcut. If a file that is about to be sent has
  exactly the generation an earlier call wrote, and that call's recorded ancestry is complete,
  judged by the current model and prompt, and reaches a protected source, the send is blocked
  without a new analysis. Nothing here answers an allow.
\<close>

section \<open>Reusable ancestry\<close>

definition reuse_visit :: "graph_db \<Rightarrow> string \<Rightarrow> string \<Rightarrow> pinned \<Rightarrow> unit \<Rightarrow> (bool + unit) res" where
  "reuse_visit db ws model nr u =
     (case revision_row_at db ws nr of
        None \<Rightarrow> Inr (Inl False)
      | Some row \<Rightarrow>
          if rv_model row \<noteq> model \<or> rv_prompt row \<noteq> PROMPT_VERSION then Inr (Inl False)
          else (case fetch (rv_verdict row) ''complete'' of
              Inl x \<Rightarrow> Inl x
            | Inr c \<Rightarrow> if truthy c then Inr (Inr ()) else Inr (Inl False)))"

definition reusable :: "graph_db \<Rightarrow> string \<Rightarrow> pinned \<Rightarrow> string \<Rightarrow> bool res" where
  "reusable db ws nr model =
     (case walk (revision_parents db ws) (reuse_visit db ws model) TRAVERSAL_LIMIT [nr] [] () of
        Raised e \<Rightarrow> Inl e
      | Over \<Rightarrow> Inr False
      | Stopped b \<Rightarrow> Inr b
      | Done u \<Rightarrow> Inr True)"

section \<open>The generation that is sent\<close>

text \<open>The versions of the files of the resolution, by path.\<close>

definition selected_files :: "hash \<Rightarrow> resolution \<Rightarrow> (string \<times> string) list" where
  "selected_files H rn =
     fold (\<lambda>p. dict_set (r_locator (v_resource (pt_version p))) (version_identity H (pt_version p)))
       (filter (\<lambda>p. r_kind (v_resource (pt_version p)) = ''file'') (rn_parts rn)) []"

text \<open>The join of heads, revisions and accesses; SQL leaves the order of its rows open.\<close>

definition writer_head :: "graph_db \<Rightarrow> string \<Rightarrow> string \<Rightarrow> string \<Rightarrow> pinned option" where
  "writer_head db ws event path = map_option (\<lambda>h. (hd_node h, hd_rev h))
     (find (\<lambda>h. hd_ws h = ws \<and>
        list_ex (\<lambda>r. rv_rev r = hd_rev h \<and> rv_event r = event) (g_revisions db) \<and>
        list_ex (\<lambda>a. ac_rev a = hd_rev h \<and> ac_path a = path \<and> ac_mode a = ''write'') (g_accesses db)) (g_heads db))"

text \<open>The node of the send, with the keys the code gives it.\<close>

definition outbound_node :: "hash \<Rightarrow> event_row \<Rightarrow> string \<Rightarrow> string \<Rightarrow> call_node" where
  "outbound_node H ev sess tool =
     \<lparr>c_node = call_id H (er_workspace ev) sess tool, c_event = er_event ev, c_tool = dget (er_payload ev) ''tool_name'',
      c_input = dget (er_payload ev) ''tool_input'', c_cwd = JNull, c_root = er_root ev, c_resolved = None, c_output = JNull,
      c_completed = False, c_observation = [], c_definitions = JNull, c_catalog = JNull, c_extra = []\<rparr>"

definition outbound_json :: "call_node \<Rightarrow> json" where
  "outbound_json c = JObj ([(''node_id'', JStr (c_node c)), (''event_id'', JStr (c_event c)), (''tool_name'', c_tool c),
     (''input'', c_input c), (''output'', JNull), (''completed'', JBool False)] @ c_extra c)"

definition generation_verdict :: "string \<Rightarrow> string \<Rightarrow> dict" where
  "generation_verdict parent path =
     [(''externality'', JStr ''external''), (''complete'', JBool False),
      (''reason'', JStr ''positive witnessed outbound generation; other dependencies not analyzed''),
      (''dependencies'', JArr [JObj [(''node_id'', JStr parent), (''reason'', JStr ''witnessed outbound resource generation'')]]),
      (''accesses'', JArr [JObj [(''path'', JStr path), (''mode'', JStr ''read''), (''reason'', JStr ''resolved outbound resource'')]])]"

definition generation_revision :: "hash \<Rightarrow> string \<Rightarrow> call_node \<Rightarrow> pinned \<Rightarrow> string \<Rightarrow> string" where
  "generation_revision H model node parent version =
     digest H (JArr [JStr ''positive-generation-v1'', JStr model, JStr PROMPT_VERSION, outbound_json node,
       JArr [JStr (fst parent), JStr (snd parent)], JStr version])"

definition record_block :: "hash \<Rightarrow> event_row \<Rightarrow> string \<Rightarrow> dict list \<Rightarrow> string \<Rightarrow> outcome \<Rightarrow> graph_db \<Rightarrow> graph_db" where
  "record_block H ev sess srcs rvn result db =
     db\<lparr>g_policies := ins_ignore fst (policy_digest H srcs, srcs) (g_policies db),
        g_checks := ins_ignore (\<lambda>c. (ck_event c, ck_policy c, ck_graph c))
          \<lparr>ck_event = er_event ev, ck_policy = policy_digest H srcs, ck_graph = rvn, ck_result = result\<rparr> (g_checks db),
        g_progress := ins_replace (\<lambda>p. (pg_ws p, pg_sess p))
          \<lparr>pg_ws = er_workspace ev, pg_sess = sess, pg_event = er_event ev, pg_state = ''positive_generation''\<rparr> (g_progress db)\<rparr>"

definition block_generation :: "hash \<Rightarrow> event_row list \<Rightarrow> boundaries \<Rightarrow> lineage \<Rightarrow> event_row \<Rightarrow> string \<Rightarrow> string \<Rightarrow> dict list
    \<Rightarrow> string \<Rightarrow> pinned \<Rightarrow> string \<Rightarrow> string \<Rightarrow> string list \<Rightarrow> graph_db \<Rightarrow> outcome res \<times> graph_db" where
  "block_generation H evs bs ln ev sess tool srcs model parent path version ancestry db =
     (let ws = er_workspace ev; node = attach_witnesses evs bs ws ln (outbound_node H ev sess tool);
          rvn = generation_revision H model node parent version;
          result = outcome ''block'' ''protected_source_reachable'' (ancestry @ [c_node node]) (Some (c_node node))
      in case persist ws sess node rvn model (generation_verdict (fst parent) path) (Some [parent]) db of
           Inl x \<Rightarrow> (Inl x, db)
         | Inr db' \<Rightarrow> (Inr result, record_block H ev sess srcs rvn result db'))"

section \<open>The shortcut\<close>

text \<open>What a producer says about the send: nothing, or the path from a source to the producer.\<close>

definition known_ancestry :: "graph_db \<Rightarrow> string \<Rightarrow> string \<Rightarrow> (root_key \<times> string) list \<Rightarrow> (string \<times> string) list \<Rightarrow> producer
    \<Rightarrow> (pinned \<times> string list) option res" where
  "known_ancestry db ws model roots selected p =
     (case p of (event, origin, path, version) \<Rightarrow>
        if map_of selected path \<noteq> Some version then Inr None
        else case writer_head db ws event path of
            None \<Rightarrow> Inr None
          | Some parent \<Rightarrow>
              (case reusable db ws parent model of
                 Inl x \<Rightarrow> Inl x
               | Inr False \<Rightarrow> Inr None
               | Inr True \<Rightarrow>
                   (case (case origin of None \<Rightarrow> Inr [] | Some sess \<Rightarrow> reach db ws sess (fst parent) roots TRAVERSAL_LIMIT) of
                      Inl x \<Rightarrow> Inl x
                    | Inr ancestry \<Rightarrow> Inr (if ancestry = [] then None else Some (parent, ancestry)))))"

fun first_known :: "graph_db \<Rightarrow> string \<Rightarrow> string \<Rightarrow> (root_key \<times> string) list \<Rightarrow> (string \<times> string) list \<Rightarrow> producer list
    \<Rightarrow> (producer \<times> pinned \<times> string list) option res" where
  "first_known db ws model roots selected [] = Inr None"
| "first_known db ws model roots selected (p # ps) =
     (case known_ancestry db ws model roots selected p of
        Inl x \<Rightarrow> Inl x
      | Inr None \<Rightarrow> first_known db ws model roots selected ps
      | Inr (Some (parent, ancestry)) \<Rightarrow> Inr (Some (p, parent, ancestry)))"

text \<open>The transaction: an exception leaves the tables as they were.\<close>

definition known_generation :: "hash \<Rightarrow> event_row list \<Rightarrow> boundaries \<Rightarrow> lineage \<Rightarrow> event_row \<Rightarrow> string \<Rightarrow> string \<Rightarrow> resolution
    \<Rightarrow> dict list \<Rightarrow> string \<Rightarrow> graph_db \<Rightarrow> outcome option res \<times> graph_db" where
  "known_generation H evs bs ln ev sess tool rn srcs model db =
     (let ws = er_workspace ev; selected = selected_files H rn in
      if selected = [] then (Inr None, db)
      else case first_known db ws model (fst (bindings db ws srcs)) selected (matching_producers evs bs ws (er_event ev) ln) of
          Inl x \<Rightarrow> (Inl x, db)
        | Inr None \<Rightarrow> (Inr None, db)
        | Inr (Some ((event, origin, path, version), parent, ancestry)) \<Rightarrow>
            (case block_generation H evs bs ln ev sess tool srcs model parent path version ancestry db of
               (Inl x, db) \<Rightarrow> (Inl x, db)
             | (Inr r, db) \<Rightarrow> (Inr (Some r), db)))"

definition known_protected_generation :: "hash \<Rightarrow> 'w evidence_env \<Rightarrow> 'w config_env \<Rightarrow> event_row list \<Rightarrow> boundaries \<Rightarrow> lineage
    \<Rightarrow> event_row \<Rightarrow> string \<Rightarrow> string \<Rightarrow> 'w resolver \<Rightarrow> resolution \<Rightarrow> dict list \<Rightarrow> string \<Rightarrow> graph_db \<Rightarrow> 'w
    \<Rightarrow> outcome option res \<times> graph_db \<times> 'w" where
  "known_protected_generation H e c evs bs ln ev sess tool rs rn srcs model db w =
     (case unchanged H e c rs rn w of
        (Inl x, w) \<Rightarrow> (Inl x, db, w)
      | (Inr same, w) \<Rightarrow>
          if \<not> same then (Inr None, db, w)
          else let (r, db) = known_generation H evs bs ln ev sess tool rn srcs model db in (r, db, w))"

section \<open>A shortcut block is justified\<close>

interpretation ru: checked_walk "revision_parents db ws" "reuse_visit db ws model"
    "\<lambda>nr. \<exists>row. revision_row_at db ws nr = Some row \<and> verdict_complete (rv_verdict row) \<and> rv_model row = model \<and> rv_prompt row = PROMPT_VERSION"
  for db ws model
  by unfold_locales (auto simp: reuse_visit_def verdict_complete_def fetch_def dget_or_def split: option.splits if_splits)

definition judged_by :: "graph_db \<Rightarrow> string \<Rightarrow> string \<Rightarrow> pinned \<Rightarrow> bool" where
  "judged_by db ws model nr \<longleftrightarrow> (\<exists>row \<in> set (g_revisions db). rv_ws row = ws \<and> rv_node row = fst nr \<and> rv_rev row = snd nr \<and>
     verdict_complete (rv_verdict row) \<and> rv_model row = model \<and> rv_prompt row = PROMPT_VERSION)"

lemma reuse_visit_stop: "reuse_visit db ws model m t = Inr (Inl b) \<Longrightarrow> \<not> b"
  by (auto simp: reuse_visit_def fetch_def split: option.splits if_splits)

lemma reusable_ancestors:
  assumes "reusable db ws nr model = Inr True" and "m \<in> ancestors (revision_parents db ws) nr"
  shows "judged_by db ws model m"
proof -
  obtain fin where "walk (revision_parents db ws) (reuse_visit db ws model) TRAVERSAL_LIMIT [nr] [] () = Done fin"
  proof (cases "walk (revision_parents db ws) (reuse_visit db ws model) TRAVERSAL_LIMIT [nr] [] ()")
    case (Stopped b)
    then have "\<exists>m t. reuse_visit db ws model m t = Inr (Inl b)" using walk_stopped_ancestor [OF Stopped, of nr] by auto
    then have "\<not> b" using reuse_visit_stop by blast
    with assms(1) Stopped show ?thesis by (simp add: reusable_def)
  qed (use assms(1) that in \<open>auto simp: reusable_def\<close>)
  from ru.walk_all_good [OF this assms(2)] show ?thesis unfolding judged_by_def using revision_row_at_recorded by blast
qed

lemma first_known_Some:
  "first_known db ws model roots selected ps = Inr (Some (p, parent, ancestry)) \<Longrightarrow>
   p \<in> set ps \<and> known_ancestry db ws model roots selected p = Inr (Some (parent, ancestry))"
  by (induction ps) (auto split: sum.splits option.splits)

lemma known_ancestry_Some:
  assumes "known_ancestry db ws model roots selected (event, origin, path, version) = Inr (Some (parent, ancestry))"
  obtains sess where "map_of selected path = Some version" and "writer_head db ws event path = Some parent"
    and "reusable db ws parent model = Inr True" and "origin = Some sess"
    and "reach db ws sess (fst parent) roots TRAVERSAL_LIMIT = Inr ancestry" and "ancestry \<noteq> []"
  using assms by (auto simp: known_ancestry_def split: if_splits option.splits sum.splits bool.splits)

lemma selected_file_part:
  assumes "map_of (selected_files H rn) path = Some version"
  shows "\<exists>p \<in> set (rn_parts rn). r_kind (v_resource (pt_version p)) = ''file'' \<and> r_locator (v_resource (pt_version p)) = path \<and>
    version_identity H (pt_version p) = version"
proof -
  have "map_of (fold (\<lambda>p. dict_set (r_locator (v_resource (pt_version p))) (version_identity H (pt_version p))) ps acc) path = Some version
      \<Longrightarrow> map_of acc path = Some version \<or> (\<exists>p \<in> set ps. r_locator (v_resource (pt_version p)) = path \<and> version_identity H (pt_version p) = version)"
    for ps acc
    by (induction ps arbitrary: acc) (force split: if_splits)+
  from this [of _ "[]"] assms show ?thesis unfolding selected_files_def by fastforce
qed

lemma shortcut_blocks:
  assumes "known_protected_generation H e c evs bs ln ev sess tool rs rn srcs model db w = (Inr (Some r), db', w')"
  shows "o_action r = ''block''"
proof -
  from assms have k: "known_generation H evs bs ln ev sess tool rn srcs model db = (Inr (Some r), db')"
    by (auto simp: known_protected_generation_def split: prod.splits sum.splits if_splits)
  then obtain p where f: "first_known db (er_workspace ev) model (fst (bindings db (er_workspace ev) srcs)) (selected_files H rn)
      (matching_producers evs bs (er_workspace ev) (er_event ev) ln) = Inr (Some p)"
    by (auto simp: known_generation_def Let_def split: if_splits sum.splits option.splits)
  obtain event origin path version parent ancestry where "p = ((event, origin, path, version), parent, ancestry)" by (metis prod.exhaust)
  with k f show ?thesis
    by (auto simp: known_generation_def block_generation_def Let_def split: if_splits sum.splits prod.splits)
qed

text \<open>C12. The shortcut never answers anything but a block, and a block is justified by what is
  recorded: some file of the resolution has exactly the version an earlier call wrote there, that
  call's whole recorded ancestry is complete and was judged by this model and prompt, and the
  reported path starts at a registered source, follows recorded inheritance to that call and ends
  at the send.\<close>

theorem shortcut_block_is_justified:
  assumes "known_protected_generation H e c evs bs ln ev sess tool rs rn srcs model db w = (Inr (Some r), db', w')"
  shows "o_action r = ''block'' \<and> (\<exists>event origin path version p parent h src vs.
    (event, Some origin, path, version) \<in> set (matching_producers evs bs (er_workspace ev) (er_event ev) ln) \<and>
    p \<in> set (rn_parts rn) \<and> r_locator (v_resource (pt_version p)) = path \<and> version_identity H (pt_version p) = version \<and>
    writer_head db (er_workspace ev) event path = Some parent \<and>
    (\<forall>m \<in> ancestors (revision_parents db (er_workspace ev)) parent. judged_by db (er_workspace ev) model m) \<and>
    src \<in> set srcs \<and> hd vs \<in> set (bound_readers db (er_workspace ev) src) \<and> last vs = (fst parent, h) \<and>
    successively (\<lambda>a b. up (revision_parents db (er_workspace ev)) b a) vs \<and>
    o_path r = source_node src # map fst vs @ [call_id H (er_workspace ev) sess tool])"
proof -
  let ?ws = "er_workspace ev" and ?sel = "selected_files H rn" and ?roots = "fst (bindings db (er_workspace ev) srcs)"
  obtain same w1 where u: "unchanged H e c rs rn w = (Inr same, w1)" and same: same
      and k: "known_generation H evs bs ln ev sess tool rn srcs model db = (Inr (Some r), db')"
    using assms by (auto simp: known_protected_generation_def split: prod.splits sum.splits if_splits)
  from k obtain p parent ancestry where f: "first_known db ?ws model ?roots ?sel (matching_producers evs bs ?ws (er_event ev) ln) = Inr (Some (p, parent, ancestry))"
    by (auto simp: known_generation_def Let_def split: if_splits sum.splits option.splits)
  obtain event origin path version where p: "p = (event, origin, path, version)" by (rule prod_cases4)
  from first_known_Some [OF f] have m: "p \<in> set (matching_producers evs bs ?ws (er_event ev) ln)"
    and a: "known_ancestry db ?ws model ?roots ?sel (event, origin, path, version) = Inr (Some (parent, ancestry))" by (simp_all add: p)
  from known_ancestry_Some [OF a] obtain osess where sel: "map_of ?sel path = Some version" and wh: "writer_head db ?ws event path = Some parent"
    and re: "reusable db ?ws parent model = Inr True" and os: "origin = Some osess"
    and rc: "reach db ?ws osess (fst parent) ?roots TRAVERSAL_LIMIT = Inr ancestry" and ne: "ancestry \<noteq> []" .
  from k f p have r: "o_action r = ''block''" "o_path r = ancestry @ [call_id H ?ws sess tool]"
    by (auto simp: known_generation_def block_generation_def Let_def outbound_node_def attach_witnesses_def split: if_splits sum.splits prod.splits)
  obtain s0 rest where anc: "ancestry = s0 # rest" using ne by (cases ancestry) auto
  from reach_found [OF rc [unfolded anc]] obtain h vs where vs: "vs \<noteq> []" "rest = map fst vs" "root_of ?roots (hd vs) = Some s0"
    "last vs = (fst parent, h)" "successively (\<lambda>p c. up (revision_parents db ?ws) c p) vs" .
  obtain complete where "bindings db ?ws srcs = (?roots, complete)" by (metis prod.collapse)
  from root_of_source [OF this vs(3)] obtain src where src: "src \<in> set srcs" "s0 = source_node src"
    "hd vs \<in> set (bound_readers db ?ws src)" by blast
  from selected_file_part [OF sel] obtain part where part: "part \<in> set (rn_parts rn)" "r_locator (v_resource (pt_version part)) = path"
    "version_identity H (pt_version part) = version" by blast
  have "\<forall>m \<in> ancestors (revision_parents db ?ws) parent. judged_by db ?ws model m" using reusable_ancestors [OF re] by blast
  then show ?thesis using r anc vs src part wh m p os by (intro conjI exI) auto
qed

section \<open>Examples\<close>

definition writer_graph :: graph_db where
  "writer_graph = empty_graph\<lparr>
     g_revisions := [\<lparr>rv_rev = ''ra'', rv_ws = ''ws'', rv_sess = ''s1'', rv_node = ''a'', rv_event = ''e1'', rv_model = ''m'',
        rv_prompt = PROMPT_VERSION, rv_verdict = [(''complete'', JBool True)]\<rparr>],
     g_heads := [\<lparr>hd_ws = ''ws'', hd_sess = ''s1'', hd_node = ''a'', hd_rev = ''ra''\<rparr>],
     g_accesses := [\<lparr>ac_rev = ''ra'', ac_node = ''a'', ac_path = ''key'', ac_mode = ''read'', ac_reason = JNull\<rparr>,
       \<lparr>ac_rev = ''ra'', ac_node = ''a'', ac_path = ''tool.py'', ac_mode = ''write'', ac_reason = JNull\<rparr>]\<rparr>"

definition writer_lineage :: lineage where
  "writer_lineage = add_file ''ws'' ''e2'' ''tool.py'' ''h'' ''read'' ''planned'' (JArr [JInt 1])
     (add_file ''ws'' ''e1'' ''tool.py'' ''h'' ''write'' ''observed'' (JArr [JInt 1]) \<lparr>ln_plans = [], ln_files = [], ln_reads = []\<rparr>)"

definition shortcut :: "string \<Rightarrow> outcome option res \<times> graph_db \<times> unit" where
  "shortcut model = known_protected_generation (\<lambda>b. ''h'') sample_env sample_config
     [sample_event ''e1'' ''s1'' 1, sample_event ''e2'' ''s2'' 2] [] writer_lineage (sample_event ''e2'' ''s2'' 2) ''s2'' ''t2''
     (sample_resolver\<lparr>rv_disk := ev_disk sample_env\<rparr>) sample_file [sample_source ''key''] model writer_graph ()"

text \<open>Another model did not judge the ancestry: the shortcut stays silent.\<close>

lemma shortcut_other_model: "fst (shortcut ''other'') = Inr None"
  by code_simp

theorem shortcut_block_is_justified_witness:
  "\<exists>r. fst (shortcut ''m'') = Inr (Some r) \<and> o_action r = ''block'' \<and> o_path r = [''src'', ''a'', ''call:h'']"
proof -
  have c: "(case fst (shortcut ''m'') of Inr (Some r) \<Rightarrow> o_path r = [''src'', ''a'', ''call:h''] | _ \<Rightarrow> False)" by code_simp
  then obtain r db' where r: "shortcut ''m'' = (Inr (Some r), db', ())" "o_path r = [''src'', ''a'', ''call:h'']"
    by (cases "shortcut ''m''") (auto split: sum.splits option.splits)
  from shortcut_block_is_justified [OF r(1) [unfolded shortcut_def]] r show ?thesis by (intro exI [of _ r]) simp
qed

end
