(* ===== verification/Dlp.thy ===== *)
theory Dlp
  imports Freshness
begin

text \<open>
  \<open>engine/dlp.py\<close>: the exact-span detector. Protected files are indexed as keyed tokens
  of overlapping windows, never as plaintext; a resolved payload is scanned window by window
  for those tokens, within a budget of hashes. The tables \<open>flow_dlp_*\<close> are the record
  \<open>dlp_db\<close>.
\<close>

definition WIDTH :: nat where "WIDTH = 64"
definition STRIDE :: nat where "STRIDE = 32"
definition MIN_EXACT :: nat where "MIN_EXACT = 24"
definition SCHEME :: string where "SCHEME = ''exact-spans-v1''"

definition informative :: "bytes \<Rightarrow> bool" where
  "informative v \<longleftrightarrow> MIN_EXACT \<le> length v \<and> 8 \<le> length (remdups v)"

definition window :: "nat \<Rightarrow> nat \<Rightarrow> bytes \<Rightarrow> bytes" where
  "window offset width content = take width (drop offset content)"

text \<open>\<open>range(0, len(content) - WIDTH + 1, STRIDE)\<close>, and the last window if it is not in it.\<close>

definition positions :: "nat \<Rightarrow> nat list" where
  "positions n =
     (let strided = map (\<lambda>i. i * STRIDE) [0..<((n - WIDTH) div STRIDE) + 1]
      in if last strided \<noteq> n - WIDTH then strided @ [n - WIDTH] else strided)"

definition spans :: "bytes \<Rightarrow> (nat \<times> bytes) list" where
  "spans content =
     (if \<not> informative content then []
      else if length content \<le> WIDTH then [(0, content)]
      else map (\<lambda>p. (p, window p WIDTH content))
             (filter (\<lambda>p. informative (window p WIDTH content)) (positions (length content))))"

section \<open>Tables and results\<close>

record dlp_source =
  ds_scope :: string
  ds_source :: string
  ds_policy :: string
  ds_stamp :: "int list"
  ds_version :: string
  ds_eligible :: bool

record dlp_span =
  sp_scope :: string
  sp_source :: string
  sp_offset :: nat
  sp_length :: nat
  sp_signature :: string

record dlp_match =
  dm_source :: string
  dm_source_offset :: nat
  dm_payload :: string
  dm_payload_offset :: nat
  dm_length :: nat

record dlp_check =
  dc_scope :: string
  dc_event :: string
  dc_revision :: string
  dc_result :: json

record dlp_db =
  dl_sources :: "dlp_source list"
  dl_spans :: "dlp_span list"
  dl_checks :: "dlp_check list"

record dlp_result =
  dr_matches :: "dlp_match list"
  dr_issues :: "string list"
  dr_limitations :: "string list"
  dr_observed :: "(string \<times> json \<times> int list) list"
  dr_indexed :: nat
  dr_reused :: nat

section \<open>Indexing the protected sources\<close>

record 'w indexing =
  ix_result :: dlp_result
  ix_active :: "string list"
  ix_budget :: int
  ix_db :: dlp_db
  ix_world :: 'w

definition source_key :: "dict \<Rightarrow> string" where
  "source_key s = the_str (dget s ''source_id'')"

definition unsupported_selector :: "dict \<Rightarrow> bool" where
  "unsupported_selector s \<longleftrightarrow> (let sel = dget s ''selector''
     in truthy sel \<and> (\<not> is_obj sel \<or> dget (the_obj sel) ''kind'' \<noteq> JStr ''whole_file''))"

definition issue :: "string \<Rightarrow> dlp_result \<Rightarrow> dlp_result" where
  "issue m r = r\<lparr>dr_issues := dr_issues r @ [m]\<rparr>"

definition dlp_policy_key :: "hash \<Rightarrow> dict \<Rightarrow> string" where
  "dlp_policy_key H s = digest H (JArr [JStr SCHEME, dget s ''path'', dget s ''selector''])"

definition span_rows :: "(bytes \<Rightarrow> string) \<Rightarrow> string \<Rightarrow> string \<Rightarrow> (nat \<times> bytes) list \<Rightarrow> dlp_span list" where
  "span_rows tok scope sid selected =
     map (\<lambda>(off, v). \<lparr>sp_scope = scope, sp_source = sid, sp_offset = off, sp_length = length v, sp_signature = tok v\<rparr>) selected"

definition store_index :: "(bytes \<Rightarrow> string) \<Rightarrow> string \<Rightarrow> string \<Rightarrow> string \<Rightarrow> int list \<Rightarrow> bytes \<Rightarrow> dlp_db \<Rightarrow> dlp_db" where
  "store_index tok scope sid key stamp content db = db\<lparr>
     dl_spans := del_where (\<lambda>r. sp_scope r = scope \<and> sp_source r = sid) (dl_spans db) @ span_rows tok scope sid (spans content),
     dl_sources := ins_replace (\<lambda>r. (ds_scope r, ds_source r))
       \<lparr>ds_scope = scope, ds_source = sid, ds_policy = key, ds_stamp = stamp, ds_version = tok content,
        ds_eligible = (spans content \<noteq> [])\<rparr> (dl_sources db)\<rparr>"

definition cached_source :: "string \<Rightarrow> string \<Rightarrow> dlp_db \<Rightarrow> dlp_source option" where
  "cached_source scope sid db = find (\<lambda>r. ds_scope r = scope \<and> ds_source r = sid) (dl_sources db)"

definition activate :: "string \<Rightarrow> json \<Rightarrow> int list \<Rightarrow> bool \<Rightarrow> 'w indexing \<Rightarrow> 'w indexing" where
  "activate sid path stamp eligible ix =
     (let r = ix_result ix in
      if eligible then ix\<lparr>ix_active := List.insert sid (ix_active ix),
                          ix_result := r\<lparr>dr_observed := dict_set sid (path, stamp) (dr_observed r)\<rparr>\<rparr>
      else ix\<lparr>ix_result := r\<lparr>dr_limitations := dr_limitations r @ [''source_has_no_distinctive_exact_span'']\<rparr>\<rparr>)"

text \<open>The \<open>except (OSError, ResolutionError, TypeError)\<close> of the loop; others propagate.\<close>

definition unavailable_source :: "exn \<Rightarrow> 'w indexing \<Rightarrow> exn option \<times> 'w indexing" where
  "unavailable_source e ix = (case e of
      OSError m \<Rightarrow> (None, ix\<lparr>ix_result := issue ''protected_content_unavailable'' (ix_result ix)\<rparr>)
    | ResolutionError m \<Rightarrow> (None, ix\<lparr>ix_result := issue ''protected_content_unavailable'' (ix_result ix)\<rparr>)
    | TypeError m \<Rightarrow> (None, ix\<lparr>ix_result := issue ''protected_content_unavailable'' (ix_result ix)\<rparr>)
    | _ \<Rightarrow> (Some e, ix))"

definition index_source :: "hash \<Rightarrow> 'w resolver \<Rightarrow> dict \<Rightarrow> 'w indexing \<Rightarrow> exn option \<times> 'w indexing" where
  "index_source H rs s ix =
     (if unsupported_selector s then (None, ix\<lparr>ix_result := issue ''unsupported_source_selector'' (ix_result ix)\<rparr>)
      else
        let sid = source_key s; path = dget s ''path''; key = dlp_policy_key H s in
        case resource_stamp (rv_disk rs) (rv_root rs) path (ix_world ix) of
          (Inl e, w) \<Rightarrow> unavailable_source e (ix\<lparr>ix_world := w\<rparr>)
        | (Inr stamp, w) \<Rightarrow>
          (case cached_source (rv_scope rs) sid (ix_db ix) of
             Some c \<Rightarrow>
               if ds_policy c = key \<and> ds_stamp c = stamp
               then (None, activate sid path stamp (ds_eligible c)
                       (ix\<lparr>ix_world := w, ix_result := (ix_result ix)\<lparr>dr_reused := dr_reused (ix_result ix) + 1\<rparr>\<rparr>))
               else (case read_file (rv_disk rs) (rv_root rs) (rv_event_id rs) path (ix_budget ix) w of
                   (Inl e, w) \<Rightarrow> unavailable_source e (ix\<lparr>ix_world := w\<rparr>)
                 | (Inr (content, obs, left), w) \<Rightarrow>
                     let stamp = map the_int (the_arr (dget obs ''fingerprint'')) in
                     (None, activate sid path stamp (spans content \<noteq> [])
                       (ix\<lparr>ix_world := w, ix_budget := left,
                          ix_db := store_index (rv_token rs) (rv_scope rs) sid key stamp content (ix_db ix),
                          ix_result := (ix_result ix)\<lparr>dr_indexed := dr_indexed (ix_result ix) + 1\<rparr>\<rparr>)))
           | None \<Rightarrow>
               (case read_file (rv_disk rs) (rv_root rs) (rv_event_id rs) path (ix_budget ix) w of
                  (Inl e, w) \<Rightarrow> unavailable_source e (ix\<lparr>ix_world := w\<rparr>)
                | (Inr (content, obs, left), w) \<Rightarrow>
                    let stamp = map the_int (the_arr (dget obs ''fingerprint'')) in
                    (None, activate sid path stamp (spans content \<noteq> [])
                      (ix\<lparr>ix_world := w, ix_budget := left,
                         ix_db := store_index (rv_token rs) (rv_scope rs) sid key stamp content (ix_db ix),
                         ix_result := (ix_result ix)\<lparr>dr_indexed := dr_indexed (ix_result ix) + 1\<rparr>\<rparr>)))))"

fun index_sources :: "hash \<Rightarrow> 'w resolver \<Rightarrow> dict list \<Rightarrow> 'w indexing \<Rightarrow> exn option \<times> 'w indexing" where
  "index_sources H rs [] ix = (None, ix)"
| "index_sources H rs (s # ss) ix =
     (case index_source H rs s ix of (Some e, ix) \<Rightarrow> (Some e, ix) | (None, ix) \<Rightarrow> index_sources H rs ss ix)"

section \<open>Scanning the payload\<close>

text \<open>The spans of the active sources whose file is still the one that was indexed.\<close>

definition live_spans :: "string \<Rightarrow> string list \<Rightarrow> (string \<times> json \<times> int list) list \<Rightarrow> dlp_db \<Rightarrow> dlp_span list" where
  "live_spans scope active observed db =
     filter (\<lambda>p. sp_scope p = scope \<and> sp_source p \<in> set active \<and>
       (case (cached_source scope (sp_source p) db, map_of observed (sp_source p)) of
          (Some c, Some (path, stamp)) \<Rightarrow> ds_stamp c = stamp | _ \<Rightarrow> False)) (dl_spans db)"

definition widths :: "dlp_span list \<Rightarrow> nat list" where
  "widths ps = rev (remdups (rev (map sp_length ps)))"

record scanning =
  sc_remaining :: nat
  sc_seen :: "(string \<times> string) list"
  sc_matches :: "dlp_match list"
  sc_issues :: "string list"

definition note_match :: "string \<Rightarrow> nat \<Rightarrow> nat \<Rightarrow> dlp_span \<Rightarrow> scanning \<Rightarrow> scanning" where
  "note_match ident offset width p st =
     (if (sp_source p, ident) \<in> set (sc_seen st) then st
      else st\<lparr>sc_seen := (sp_source p, ident) # sc_seen st,
              sc_matches := sc_matches st @ [\<lparr>dm_source = sp_source p, dm_source_offset = sp_offset p,
                 dm_payload = ident, dm_payload_offset = offset, dm_length = width\<rparr>]\<rparr>)"

definition scan_window :: "(bytes \<Rightarrow> string) \<Rightarrow> dlp_span list \<Rightarrow> string \<Rightarrow> bytes \<Rightarrow> nat \<Rightarrow> nat \<Rightarrow> scanning \<Rightarrow> scanning" where
  "scan_window tok ps ident content width offset st =
     fold (note_match ident offset width)
       (filter (\<lambda>p. sp_length p = width \<and> sp_signature p = tok (window offset width content)) ps)
       (st\<lparr>sc_remaining := sc_remaining st - 1\<rparr>)"

fun scan_offsets :: "(bytes \<Rightarrow> string) \<Rightarrow> dlp_span list \<Rightarrow> string \<Rightarrow> bytes \<Rightarrow> nat \<Rightarrow> nat list \<Rightarrow> scanning \<Rightarrow> scanning" where
  "scan_offsets tok ps ident content width [] st = st"
| "scan_offsets tok ps ident content width (x # xs) st =
     (if sc_remaining st = 0 then st\<lparr>sc_issues := sc_issues st @ [''dlp_work_budget'']\<rparr>
      else scan_offsets tok ps ident content width xs (scan_window tok ps ident content width x st))"

fun scan_widths :: "(bytes \<Rightarrow> string) \<Rightarrow> dlp_span list \<Rightarrow> string \<Rightarrow> bytes \<Rightarrow> nat list \<Rightarrow> scanning \<Rightarrow> scanning" where
  "scan_widths tok ps ident content [] st = st"
| "scan_widths tok ps ident content (width # ws) st =
     (let st = scan_offsets tok ps ident content width [0..<length content + 1 - width] st
      in if sc_remaining st = 0 then st else scan_widths tok ps ident content ws st)"

fun scan_parts :: "(bytes \<Rightarrow> string) \<Rightarrow> dlp_span list \<Rightarrow> (string \<times> bytes) list \<Rightarrow> scanning \<Rightarrow> scanning" where
  "scan_parts tok ps [] st = st"
| "scan_parts tok ps ((ident, content) # parts) st =
     (let st = scan_widths tok ps ident content (widths ps) st
      in if sc_remaining st = 0 then st else scan_parts tok ps parts st)"

definition scan :: "(bytes \<Rightarrow> string) \<Rightarrow> dlp_span list \<Rightarrow> (string \<times> bytes) list \<Rightarrow> nat \<Rightarrow> scanning" where
  "scan tok ps parts max_hashes = scan_parts tok ps parts
     \<lparr>sc_remaining = max_hashes, sc_seen = [], sc_matches = [], sc_issues = []\<rparr>"

section \<open>The inspection\<close>

fun changed_sources :: "'w resolver \<Rightarrow> (string \<times> json \<times> int list) list \<Rightarrow> 'w \<Rightarrow> string list res \<times> 'w" where
  "changed_sources rs [] w = (Inr [], w)"
| "changed_sources rs ((sid, path, stamp) # es) w =
     (case resource_stamp (rv_disk rs) (rv_root rs) path w of
        (Inl e, w) \<Rightarrow>
          if (case e of OSError m \<Rightarrow> True | ResolutionError m \<Rightarrow> True | _ \<Rightarrow> False)
          then (case changed_sources rs es w of (Inl x, w) \<Rightarrow> (Inl x, w) | (Inr cs, w) \<Rightarrow> (Inr (sid # cs), w))
          else (Inl e, w)
      | (Inr now, w) \<Rightarrow>
          (case changed_sources rs es w of
             (Inl x, w) \<Rightarrow> (Inl x, w)
           | (Inr cs, w) \<Rightarrow> (Inr (if now \<noteq> stamp then sid # cs else cs), w)))"

definition match_json :: "dlp_match \<Rightarrow> json" where
  "match_json m = JObj [(''source_id'', JStr (dm_source m)), (''source_offset'', JInt (int (dm_source_offset m))),
     (''payload_version'', JStr (dm_payload m)), (''payload_offset'', JInt (int (dm_payload_offset m))),
     (''length'', JInt (int (dm_length m))), (''method'', JStr ''exact_content_span'')]"

definition sorted_strs :: "string list \<Rightarrow> json" where
  "sorted_strs xs = JArr (map JStr (sort (remdups xs)))"

definition check_record :: "dlp_result \<Rightarrow> string \<Rightarrow> json" where
  "check_record r coverage = JObj [(''matches'', JArr (map match_json (dr_matches r))), (''issues'', sorted_strs (dr_issues r)),
     (''scheme'', JStr SCHEME), (''limitations'', sorted_strs (dr_limitations r)), (''coverage'', JStr coverage),
     (''indexed'', JInt (int (dr_indexed r))), (''reused'', JInt (int (dr_reused r)))]"

definition extent_json :: "part \<Rightarrow> json" where
  "extent_json p = JObj [(''offset'', JInt (int (pt_offset p))), (''length'', JInt (int (pt_length p)))]"

definition inspect_dlp :: "hash \<Rightarrow> 'w evidence_env \<Rightarrow> 'w config_env \<Rightarrow> 'w resolver \<Rightarrow> resolution \<Rightarrow> dict list \<Rightarrow> nat
    \<Rightarrow> dlp_db \<Rightarrow> 'w \<Rightarrow> dlp_result res \<times> dlp_db \<times> 'w" where
  "inspect_dlp H e c rs rn srcs max_hashes db w =
     (case index_sources H rs srcs \<lparr>ix_result = \<lparr>dr_matches = [], dr_issues = [], dr_limitations = [], dr_observed = [],
               dr_indexed = 0, dr_reused = 0\<rparr>, ix_active = [], ix_budget = 8388608, ix_db = db, ix_world = w\<rparr> of
        (Some e, ix) \<Rightarrow> (Inl e, ix_db ix, ix_world ix)
      | (None, ix) \<Rightarrow>
        (let r = ix_result ix; db = ix_db ix; ps = live_spans (rv_scope rs) (ix_active ix) (dr_observed r) db;
             st = scan (rv_token rs) ps (map (\<lambda>p. (version_identity H (pt_version p), pt_content p)) (rn_parts rn)) max_hashes
         in case changed_sources rs (dr_observed r) (ix_world ix) of
              (Inl e, w) \<Rightarrow> (Inl e, db, w)
            | (Inr changed, w) \<Rightarrow>
              (let r = r\<lparr>dr_matches := filter (\<lambda>m. dm_source m \<notin> set changed) (sc_matches st),
                         dr_issues := dr_issues r @ sc_issues st @
                           (if changed \<noteq> [] then [''protected_content_changed_during_inspection''] else [])\<rparr>
               in case unchanged H e c rs rn w of
                  (Inl x, w) \<Rightarrow> (Inl x, db, w)
                | (Inr same, w) \<Rightarrow>
                  (let r = (if same then r else r\<lparr>dr_matches := [], dr_issues := dr_issues r @ [''payload_changed_after_inspection'']\<rparr>);
                       record = check_record r (rn_coverage rn);
                       rvn = digest H (JArr [JStr (rv_event_id rs), record,
                         JArr (map (\<lambda>p. JArr [JStr (version_identity H (pt_version p)), extent_json p]) (rn_parts rn)),
                         JArr (map JStr (sort (ix_active ix)))])
                   in (Inr r, db\<lparr>dl_checks := ins_ignore (\<lambda>c. (dc_scope c, dc_event c, dc_revision c))
                         \<lparr>dc_scope = rv_scope rs, dc_event = rv_event_id rs, dc_revision = rvn, dc_result = record\<rparr> (dl_checks db)\<rparr>, w)))))"

text \<open>\<open>sources_unchanged\<close>: the protected files still carry the stamps that were inspected.\<close>

fun sources_unchanged :: "'w resolver \<Rightarrow> (string \<times> json \<times> int list) list \<Rightarrow> 'w \<Rightarrow> bool res \<times> 'w" where
  "sources_unchanged rs [] w = (Inr True, w)"
| "sources_unchanged rs ((sid, path, stamp) # es) w =
     (case resource_stamp (rv_disk rs) (rv_root rs) path w of
        (Inl x, w) \<Rightarrow> (if is_os_error x \<or> is_resolution_error x then Inr False else Inl x, w)
      | (Inr now, w) \<Rightarrow> if now \<noteq> stamp then (Inr False, w) else sources_unchanged rs es w)"

section \<open>Windows cover every long excerpt\<close>

lemma strided_position:
  assumes "WIDTH \<le> n" and "q mod STRIDE = 0" and "q + WIDTH \<le> n"
  shows "q \<in> set (positions n)"
proof -
  have q: "q = (q div STRIDE) * STRIDE" using div_mult_mod_eq [of q STRIDE] assms(2) by linarith
  have "q div STRIDE \<le> (n - WIDTH) div STRIDE" by (rule div_le_mono) (use assms(3) in simp)
  then have "q \<in> (\<lambda>i. i * STRIDE) ` set [0..<((n - WIDTH) div STRIDE) + 1]"
    by (intro image_eqI [of _ _ "q div STRIDE"]) (use q in auto)
  then show ?thesis by (auto simp: positions_def Let_def)
qed

text \<open>Among 32 consecutive offsets one is a multiple of the stride.\<close>

lemma aligned_offset:
  obtains q where "a \<le> q" and "q \<le> a + (STRIDE - 1)" and "q mod STRIDE = 0"
proof
  let ?q = "((a + 31) div 32) * 32"
  show "a \<le> ?q" "?q \<le> a + (STRIDE - 1)" "?q mod STRIDE = 0" by (simp_all add: STRIDE_def)
qed

lemma window_shift:
  assumes "i + width \<le> length e"
  shows "window (length pre + i) width (pre @ e @ post) = window i width e"
  using assms by (simp add: window_def)

lemma informative_window_whole:
  assumes "informative (window q WIDTH content)"
  shows "informative content"
proof -
  have "length (window q WIDTH content) \<le> length content" by (simp add: window_def)
  moreover have "set (window q WIDTH content) \<subseteq> set content"
    unfolding window_def by (meson in_set_dropD in_set_takeD subsetI)
  then have "length (remdups (window q WIDTH content)) \<le> length (remdups content)"
    by (simp add: length_remdups_card_conv card_mono)
  ultimately show ?thesis using assms by (simp add: informative_def)
qed

lemma excerpt_window:
  assumes s: "source = pre @ e @ post" and len: "WIDTH + STRIDE - 1 \<le> length e"
    and inf: "\<And>i. i + WIDTH \<le> length e \<Longrightarrow> informative (window i WIDTH e)"
  obtains i where "i + WIDTH \<le> length e" and "(length pre + i, window i WIDTH e) \<in> set (spans source)"
proof -
  obtain q where q: "length pre \<le> q" "q \<le> length pre + (STRIDE - 1)" "q mod STRIDE = 0" by (rule aligned_offset)
  let ?i = "q - length pre"
  have i: "?i + WIDTH \<le> length e" using q(1,2) len by (simp add: WIDTH_def STRIDE_def)
  have w: "window q WIDTH source = window ?i WIDTH e" using window_shift [OF i, of pre post] q(1) s by simp
  have n: "WIDTH < length source" using s len by (simp add: WIDTH_def STRIDE_def)
  have "q \<in> set (positions (length source))"
    by (rule strided_position) (use n q(1,3) i s in auto)
  moreover have "informative source" using informative_window_whole [of q source] inf [OF i] w by simp
  ultimately have "(q, window q WIDTH source) \<in> set (spans source)" using n inf [OF i] w by (auto simp: spans_def)
  then show thesis using that [OF i] w q(1) by simp
qed

section \<open>The scan misses nothing within its budget\<close>

definition seen_matched :: "scanning \<Rightarrow> bool" where
  "seen_matched st \<longleftrightarrow> (\<forall>(sid, ident) \<in> set (sc_seen st). \<exists>m \<in> set (sc_matches st). dm_source m = sid \<and> dm_payload m = ident)"

definition scan_work :: "dlp_span list \<Rightarrow> (string \<times> bytes) list \<Rightarrow> nat" where
  "scan_work ps parts = sum_list (map (\<lambda>(i, c). sum_list (map (\<lambda>w. length c + 1 - w) (widths ps))) parts)"

lemma set_widths [simp]: "set (widths ps) = sp_length ` set ps"
  by (simp add: widths_def)

lemma note_match_facts:
  "set (sc_seen st) \<subseteq> set (sc_seen (note_match ident x w p st)) \<and> sc_remaining (note_match ident x w p st) = sc_remaining st \<and>
   sc_issues (note_match ident x w p st) = sc_issues st \<and> (sp_source p, ident) \<in> set (sc_seen (note_match ident x w p st))"
  by (auto simp: note_match_def)

lemma note_match_matched: "seen_matched st \<Longrightarrow> seen_matched (note_match ident x w p st)"
  unfolding seen_matched_def note_match_def by (auto split: if_splits)

lemma fold_note_facts:
  "set (sc_seen st) \<subseteq> set (sc_seen (fold (note_match ident x w) ps st)) \<and>
   sc_remaining (fold (note_match ident x w) ps st) = sc_remaining st \<and> sc_issues (fold (note_match ident x w) ps st) = sc_issues st \<and>
   (\<forall>p \<in> set ps. (sp_source p, ident) \<in> set (sc_seen (fold (note_match ident x w) ps st)))"
proof (induction ps arbitrary: st)
  case (Cons p ps)
  have "set (sc_seen (note_match ident x w p st)) \<subseteq> set (sc_seen (fold (note_match ident x w) ps (note_match ident x w p st)))"
    using Cons.IH [of "note_match ident x w p st"] by blast
  with Cons.IH [of "note_match ident x w p st"] note_match_facts [of st ident x w p] show ?case by auto
qed simp

lemma fold_note_matched: "seen_matched st \<Longrightarrow> seen_matched (fold (note_match ident x w) ps st)"
  by (induction ps arbitrary: st) (auto intro: note_match_matched)

lemma seen_matched_remaining [simp]: "seen_matched (st\<lparr>sc_remaining := n\<rparr>) = seen_matched st"
  by (simp add: seen_matched_def)

lemma scan_window_facts:
  "set (sc_seen st) \<subseteq> set (sc_seen (scan_window tok ps ident content w x st)) \<and>
   sc_remaining (scan_window tok ps ident content w x st) = sc_remaining st - 1 \<and>
   sc_issues (scan_window tok ps ident content w x st) = sc_issues st \<and>
   (\<forall>p \<in> set ps. sp_length p = w \<longrightarrow> sp_signature p = tok (window x w content) \<longrightarrow>
      (sp_source p, ident) \<in> set (sc_seen (scan_window tok ps ident content w x st)))"
  unfolding scan_window_def
  using fold_note_facts [of "st\<lparr>sc_remaining := sc_remaining st - 1\<rparr>" ident x w
      "filter (\<lambda>p. sp_length p = w \<and> sp_signature p = tok (window x w content)) ps"] by auto

lemma scan_window_matched: "seen_matched st \<Longrightarrow> seen_matched (scan_window tok ps ident content w x st)"
  unfolding scan_window_def by (rule fold_note_matched) simp

text \<open>What a completed stretch of work guarantees: \<open>hit p\<close> are the spans it must have noted.\<close>

definition advanced :: "nat \<Rightarrow> scanning \<Rightarrow> scanning \<Rightarrow> bool" where
  "advanced n st st' \<longleftrightarrow> set (sc_seen st) \<subseteq> set (sc_seen st') \<and> sc_remaining st' = sc_remaining st - n \<and>
     sc_issues st' = sc_issues st \<and> (seen_matched st \<longrightarrow> seen_matched st')"

lemma advanced_trans: "advanced m a b \<Longrightarrow> advanced n b c \<Longrightarrow> advanced (m + n) a c"
  unfolding advanced_def by auto

lemma advanced_refl [simp]: "advanced 0 a a"
  by (simp add: advanced_def)

lemma scan_offsets_advanced:
  "length xs \<le> sc_remaining st \<Longrightarrow> advanced (length xs) st (scan_offsets tok ps ident content w xs st) \<and>
   (\<forall>x \<in> set xs. \<forall>p \<in> set ps. sp_length p = w \<longrightarrow> sp_signature p = tok (window x w content) \<longrightarrow>
      (sp_source p, ident) \<in> set (sc_seen (scan_offsets tok ps ident content w xs st)))"
proof (induction xs arbitrary: st)
  case (Cons x xs)
  let ?st = "scan_window tok ps ident content w x st"
  note f = scan_window_facts [of st tok ps ident content w x]
  have a: "advanced 1 st ?st" using f scan_window_matched by (auto simp: advanced_def)
  have "length xs \<le> sc_remaining ?st" using Cons.prems f by simp
  note ih = Cons.IH [OF this]
  have "advanced (1 + length xs) st (scan_offsets tok ps ident content w xs ?st)" using advanced_trans [OF a] ih by blast
  moreover have "set (sc_seen ?st) \<subseteq> set (sc_seen (scan_offsets tok ps ident content w xs ?st))" using ih by (auto simp: advanced_def)
  ultimately show ?case using Cons.prems f ih by auto
qed simp

lemma scan_widths_advanced:
  "sum_list (map (\<lambda>w. length content + 1 - w) ws) < sc_remaining st \<Longrightarrow>
   advanced (sum_list (map (\<lambda>w. length content + 1 - w) ws)) st (scan_widths tok ps ident content ws st) \<and>
   (\<forall>w \<in> set ws. \<forall>x. x + w \<le> length content \<longrightarrow> (\<forall>p \<in> set ps. sp_length p = w \<longrightarrow> sp_signature p = tok (window x w content) \<longrightarrow>
      (sp_source p, ident) \<in> set (sc_seen (scan_widths tok ps ident content ws st))))"
proof (induction ws arbitrary: st)
  case (Cons w ws)
  let ?xs = "[0..<length content + 1 - w]"
  let ?st = "scan_offsets tok ps ident content w ?xs st"
  have o: "advanced (length ?xs) st ?st \<and>
   (\<forall>x \<in> set ?xs. \<forall>p \<in> set ps. sp_length p = w \<longrightarrow> sp_signature p = tok (window x w content) \<longrightarrow>
      (sp_source p, ident) \<in> set (sc_seen ?st))"
    by (rule scan_offsets_advanced) (use Cons.prems in simp)
  then have rem: "sc_remaining ?st = sc_remaining st - (length content + 1 - w)" by (simp add: advanced_def)
  then have ih: "advanced (sum_list (map (\<lambda>w. length content + 1 - w) ws)) ?st (scan_widths tok ps ident content ws ?st)"
    and ihp: "\<And>v x p. v \<in> set ws \<Longrightarrow> x + v \<le> length content \<Longrightarrow> p \<in> set ps \<Longrightarrow> sp_length p = v \<Longrightarrow>
      sp_signature p = tok (window x v content) \<Longrightarrow> (sp_source p, ident) \<in> set (sc_seen (scan_widths tok ps ident content ws ?st))"
    using Cons.IH [of ?st] Cons.prems by auto
  have pos: "sc_remaining ?st \<noteq> 0" using rem Cons.prems by simp
  have "advanced (length ?xs + sum_list (map (\<lambda>w. length content + 1 - w) ws)) st (scan_widths tok ps ident content ws ?st)"
    using advanced_trans o ih by blast
  moreover have sub: "set (sc_seen ?st) \<subseteq> set (sc_seen (scan_widths tok ps ident content ws ?st))" using ih by (simp add: advanced_def)
  have eq: "scan_widths tok ps ident content (w # ws) st = scan_widths tok ps ident content ws ?st" using pos by (simp add: Let_def)
  have here: "(sp_source p, ident) \<in> set (sc_seen (scan_widths tok ps ident content ws ?st))"
    if "x + w \<le> length content" "p \<in> set ps" "sp_length p = w" "sp_signature p = tok (window x w content)" for x p
  proof -
    have "x \<in> set ?xs" using that(1) by simp
    then show ?thesis using o that sub by blast
  qed
  ultimately show ?case unfolding eq using here ihp by simp
qed simp

lemma scan_parts_advanced:
  "scan_work ps parts < sc_remaining st \<Longrightarrow> advanced (scan_work ps parts) st (scan_parts tok ps parts st) \<and>
   (\<forall>(ident, content) \<in> set parts. \<forall>p \<in> set ps. \<forall>x. x + sp_length p \<le> length content \<longrightarrow>
      sp_signature p = tok (window x (sp_length p) content) \<longrightarrow> (sp_source p, ident) \<in> set (sc_seen (scan_parts tok ps parts st)))"
proof (induction parts arbitrary: st)
  case (Cons q parts)
  obtain ident content where q: "q = (ident, content)" by fastforce
  let ?n = "sum_list (map (\<lambda>w. length content + 1 - w) (widths ps))"
  let ?st = "scan_widths tok ps ident content (widths ps) st"
  have work: "scan_work ps (q # parts) = ?n + scan_work ps parts" by (simp add: scan_work_def q)
  have o: "advanced ?n st ?st" and op: "\<And>p x. p \<in> set ps \<Longrightarrow> x + sp_length p \<le> length content \<Longrightarrow>
      sp_signature p = tok (window x (sp_length p) content) \<Longrightarrow> (sp_source p, ident) \<in> set (sc_seen ?st)"
    using scan_widths_advanced [of content "widths ps" st tok ps ident] Cons.prems work by auto
  then have rem: "sc_remaining ?st = sc_remaining st - ?n" by (simp add: advanced_def)
  note ih = Cons.IH [of ?st]
  have ih1: "advanced (scan_work ps parts) ?st (scan_parts tok ps parts ?st)"
    and ih2: "\<forall>(ident, content) \<in> set parts. \<forall>p \<in> set ps. \<forall>x. x + sp_length p \<le> length content \<longrightarrow>
      sp_signature p = tok (window x (sp_length p) content) \<longrightarrow> (sp_source p, ident) \<in> set (sc_seen (scan_parts tok ps parts ?st))"
    using ih rem Cons.prems work by auto
  have pos: "sc_remaining ?st \<noteq> 0" using rem Cons.prems work by simp
  then have eq: "scan_parts tok ps (q # parts) st = scan_parts tok ps parts ?st" by (simp add: q Let_def)
  have "set (sc_seen ?st) \<subseteq> set (sc_seen (scan_parts tok ps parts ?st))" using ih1 by (auto simp: advanced_def)
  with op ih2 have "\<forall>(ident, content) \<in> set (q # parts). \<forall>p \<in> set ps. \<forall>x. x + sp_length p \<le> length content \<longrightarrow>
      sp_signature p = tok (window x (sp_length p) content) \<longrightarrow> (sp_source p, ident) \<in> set (sc_seen (scan_parts tok ps parts ?st))"
    by (auto simp: q)
  with advanced_trans [OF o ih1] show ?case unfolding eq work by blast
qed (simp add: scan_work_def)

lemma scan_complete:
  assumes "scan_work ps parts < max_hashes" and "(ident, content) \<in> set parts" and "p \<in> set ps"
    and "x + sp_length p \<le> length content" and "sp_signature p = tok (window x (sp_length p) content)"
  shows "sc_issues (scan tok ps parts max_hashes) = [] \<and>
    (\<exists>m \<in> set (sc_matches (scan tok ps parts max_hashes)). dm_source m = sp_source p \<and> dm_payload m = ident)"
proof -
  let ?st = "\<lparr>sc_remaining = max_hashes, sc_seen = [], sc_matches = [], sc_issues = []\<rparr>"
  have "advanced (scan_work ps parts) ?st (scan tok ps parts max_hashes)"
    and s: "(sp_source p, ident) \<in> set (sc_seen (scan tok ps parts max_hashes))"
    using scan_parts_advanced [of ps parts ?st tok] assms unfolding scan_def by auto
  then have "sc_issues (scan tok ps parts max_hashes) = []" and "seen_matched (scan tok ps parts max_hashes)"
    by (auto simp: advanced_def seen_matched_def)
  with s show ?thesis by (auto simp: seen_matched_def)
qed

section \<open>Properties\<close>

text \<open>A match names a stored span and a window of a scanned payload that has the same token.\<close>

definition located :: "(bytes \<Rightarrow> string) \<Rightarrow> dlp_span list \<Rightarrow> (string \<times> bytes) list \<Rightarrow> dlp_match \<Rightarrow> bool" where
  "located tok ps parts m \<longleftrightarrow> (\<exists>p \<in> set ps. \<exists>(ident, content) \<in> set parts.
     dm_source m = sp_source p \<and> dm_source_offset m = sp_offset p \<and> dm_payload m = ident \<and> dm_length m = sp_length p \<and>
     dm_payload_offset m + dm_length m \<le> length content \<and>
     sp_signature p = tok (window (dm_payload_offset m) (dm_length m) content))"

lemma note_match_located:
  assumes "p \<in> set ps" and "(ident, content) \<in> set parts" and "sp_length p = w" and "x + w \<le> length content"
    and "sp_signature p = tok (window x w content)" and "\<forall>m \<in> set (sc_matches st). located tok ps parts m"
  shows "\<forall>m \<in> set (sc_matches (note_match ident x w p st)). located tok ps parts m"
proof (cases "(sp_source p, ident) \<in> set (sc_seen st)")
  case True
  then show ?thesis using assms(6) by (simp add: note_match_def)
next
  case False
  let ?m = "\<lparr>dm_source = sp_source p, dm_source_offset = sp_offset p, dm_payload = ident, dm_payload_offset = x, dm_length = w\<rparr>"
  have "located tok ps parts ?m" unfolding located_def
    by (rule bexI [OF _ assms(1)], rule bexI [OF _ assms(2)]) (use assms(3-5) in simp)
  then show ?thesis using assms(6) False by (simp add: note_match_def)
qed

lemma fold_note_located:
  assumes "set qs \<subseteq> {p \<in> set ps. sp_length p = w \<and> sp_signature p = tok (window x w content)}"
    and "(ident, content) \<in> set parts" and "x + w \<le> length content" and "\<forall>m \<in> set (sc_matches st). located tok ps parts m"
  shows "\<forall>m \<in> set (sc_matches (fold (note_match ident x w) qs st)). located tok ps parts m"
  using assms
proof (induction qs arbitrary: st)
  case (Cons q qs)
  have "\<forall>m \<in> set (sc_matches (note_match ident x w q st)). located tok ps parts m"
    by (rule note_match_located [of q ps ident content]) (use Cons.prems in auto)
  then show ?case using Cons by simp
qed simp

lemma scan_offsets_located:
  assumes "(ident, content) \<in> set parts" and "\<forall>x \<in> set xs. x + w \<le> length content"
    and "\<forall>m \<in> set (sc_matches st). located tok ps parts m"
  shows "\<forall>m \<in> set (sc_matches (scan_offsets tok ps ident content w xs st)). located tok ps parts m"
  using assms
proof (induction xs arbitrary: st)
  case (Cons x xs)
  have "\<forall>m \<in> set (sc_matches (scan_window tok ps ident content w x st)). located tok ps parts m"
    unfolding scan_window_def by (rule fold_note_located [where content = content]) (use Cons.prems in auto)
  then show ?case using Cons by simp
qed simp

lemma scan_widths_located:
  assumes "(ident, content) \<in> set parts" and "\<forall>m \<in> set (sc_matches st). located tok ps parts m"
  shows "\<forall>m \<in> set (sc_matches (scan_widths tok ps ident content ws st)). located tok ps parts m"
  using assms
proof (induction ws arbitrary: st)
  case (Cons w ws)
  have "\<forall>m \<in> set (sc_matches (scan_offsets tok ps ident content w [0..<length content + 1 - w] st)). located tok ps parts m"
    by (rule scan_offsets_located) (use Cons.prems in auto)
  then show ?case using Cons by (simp add: Let_def)
qed simp

lemma scan_parts_located:
  assumes "set qs \<subseteq> set parts" and "\<forall>m \<in> set (sc_matches st). located tok ps parts m"
  shows "\<forall>m \<in> set (sc_matches (scan_parts tok ps qs st)). located tok ps parts m"
  using assms
proof (induction qs arbitrary: st)
  case (Cons q qs)
  obtain ident content where q: "q = (ident, content)" by fastforce
  have "\<forall>m \<in> set (sc_matches (scan_widths tok ps ident content (widths ps) st)). located tok ps parts m"
    by (rule scan_widths_located) (use Cons.prems q in auto)
  then show ?case using Cons by (simp add: Let_def q)
qed simp

lemma scan_located: "\<forall>m \<in> set (sc_matches (scan tok ps parts n)). located tok ps parts m"
  unfolding scan_def by (rule scan_parts_located) auto

section \<open>Properties\<close>

text \<open>C26. Within its hash budget the detector misses no long copy: when a protected file and a payload
  share an excerpt of at least 95 bytes all of whose 64-byte windows are informative, and the
  spans of the file are indexed, the scan reports a match for that file and that payload part,
  wherever the excerpt stands in either, and it raises no issue.\<close>

theorem shared_excerpt_is_detected:
  assumes "source = pre @ e @ post" and "content = pre' @ e @ post'" and "WIDTH + STRIDE - 1 \<le> length e"
    and "\<forall>i. i + WIDTH \<le> length e \<longrightarrow> informative (window i WIDTH e)"
    and "set (span_rows tok scope sid (spans source)) \<subseteq> set ps" and "(ident, content) \<in> set parts"
    and "scan_work ps parts < max_hashes"
  shows "sc_issues (scan tok ps parts max_hashes) = [] \<and>
    (\<exists>m \<in> set (sc_matches (scan tok ps parts max_hashes)). dm_source m = sid \<and> dm_payload m = ident)"
proof -
  obtain i where i: "i + WIDTH \<le> length e" "(length pre + i, window i WIDTH e) \<in> set (spans source)"
    using excerpt_window [OF assms(1,3)] assms(4) by blast
  let ?p = "\<lparr>sp_scope = scope, sp_source = sid, sp_offset = length pre + i, sp_length = length (window i WIDTH e),
    sp_signature = tok (window i WIDTH e)\<rparr>"
  have len: "length (window i WIDTH e) = WIDTH" using i(1) by (simp add: window_def)
  have "?p \<in> set (span_rows tok scope sid (spans source))"
    using i(2) by (auto simp: span_rows_def intro!: image_eqI [where x = "(length pre + i, window i WIDTH e)"])
  then have "?p \<in> set ps" using assms(5) by blast
  then show ?thesis
    using scan_complete [OF assms(7,6), of ?p "length pre' + i" tok] window_shift [OF i(1), of pre' post'] i(1) assms(2) len by simp
qed

definition sample_excerpt :: bytes where "sample_excerpt = map char_of [33 ..< (128 :: nat)]"

theorem shared_excerpt_is_detected_witness:
  "\<exists>m \<in> set (sc_matches (scan (\<lambda>b. b) (span_rows (\<lambda>b. b) ''ws'' ''src'' (spans (''key='' @ sample_excerpt)))
      [(''v'', ''echo '' @ sample_excerpt @ ''!'')] 1000)). dm_source m = ''src'' \<and> dm_payload m = ''v''"
proof -
  have inf: "\<forall>i. i + WIDTH \<le> length sample_excerpt \<longrightarrow> informative (window i WIDTH sample_excerpt)"
  proof -
    have "list_all (\<lambda>i. informative (window i WIDTH sample_excerpt)) [0 ..< 32]" by code_simp
    moreover have "length sample_excerpt = 95" by code_simp
    ultimately show ?thesis by (auto simp: list_all_iff WIDTH_def)
  qed
  have len: "WIDTH + STRIDE - 1 \<le> length sample_excerpt" by code_simp
  have work: "scan_work (span_rows (\<lambda>b. b) ''ws'' ''src'' (spans (''key='' @ sample_excerpt))) [(''v'', ''echo '' @ sample_excerpt @ ''!'')] < 1000"
    by code_simp
  show ?thesis
    using shared_excerpt_is_detected [of "''key='' @ sample_excerpt" "''key=''" sample_excerpt "[]" "''echo '' @ sample_excerpt @ ''!''"
        "''echo ''" "''!''" "\<lambda>b. b" "''ws''" "''src''" "span_rows (\<lambda>b. b) ''ws'' ''src'' (spans (''key='' @ sample_excerpt))" "''v''"
        "[(''v'', ''echo '' @ sample_excerpt @ ''!'')]" 1000] inf len work
    by simp
qed

text \<open>A source whose stamp is not reported as changed was stamped again, when the observations before it
  were done, and carried the same stamp.\<close>

lemma changed_sources_ok:
  "changed_sources rs es w = (Inr cs, w') \<Longrightarrow> (sid, path, stamp) \<in> set es \<Longrightarrow> sid \<notin> set cs \<Longrightarrow>
   \<exists>before after cs0 v v'. es = before @ (sid, path, stamp) # after \<and> changed_sources rs before w = (Inr cs0, v) \<and>
     resource_stamp (rv_disk rs) (rv_root rs) path v = (Inr stamp, v')"
proof (induction rs es w arbitrary: cs rule: changed_sources.induct)
  case (2 rs sid' path' stamp' es w)
  obtain r w1 where r: "resource_stamp (rv_disk rs) (rv_root rs) path' w = (r, w1)" by fastforce
  have later: ?case if x: "\<exists>before after cs0 v v'. es = before @ (sid, path, stamp) # after \<and> changed_sources rs before w1 = (Inr cs0, v) \<and>
       resource_stamp (rv_disk rs) (rv_root rs) path v = (Inr stamp, v')"
    and go: "\<And>before cs0 v. changed_sources rs before w1 = (Inr cs0, v) \<Longrightarrow> \<exists>cs1. changed_sources rs ((sid', path', stamp') # before) w = (Inr cs1, v)"
  proof -
    from x obtain before after cs0 v v' where b: "es = before @ (sid, path, stamp) # after" "changed_sources rs before w1 = (Inr cs0, v)"
      "resource_stamp (rv_disk rs) (rv_root rs) path v = (Inr stamp, v')" by blast
    from go [OF b(2)] obtain cs1 where "changed_sources rs ((sid', path', stamp') # before) w = (Inr cs1, v)" by blast
    with b(1,3) show ?case by (metis append_Cons)
  qed
  show ?case
  proof (cases r)
    case (Inl x)
    with "2.prems"(1) r obtain cs' where c: "changed_sources rs es w1 = (Inr cs', w')" "cs = sid' # cs'"
      and x: "case x of OSError m \<Rightarrow> True | ResolutionError m \<Rightarrow> True | _ \<Rightarrow> False"
      by (auto split: if_splits prod.splits sum.splits)
    with "2.prems" have "(sid, path, stamp) \<in> set es" "sid \<notin> set cs'" by auto
    from later [OF "2.IH"(1) [OF r [symmetric] Inl x c(1) this]] r Inl x show ?thesis by auto
  next
    case (Inr now)
    with "2.prems"(1) r obtain cs' where c: "changed_sources rs es w1 = (Inr cs', w')" "cs = (if now \<noteq> stamp' then sid' # cs' else cs')"
      by (auto split: prod.splits sum.splits)
    show ?thesis
    proof (cases "(sid, path, stamp) \<in> set es")
      case True
      with "2.prems"(3) c(2) have "sid \<notin> set cs'" by (auto split: if_splits)
      from later [OF "2.IH"(2) [OF r [symmetric] Inr c(1) True this]] r Inr show ?thesis by auto
    next
      case False
      with "2.prems" have e: "sid = sid'" "path = path'" "stamp = stamp'" by auto
      with "2.prems"(3) c(2) have "now = stamp" by (auto split: if_splits)
      with e r Inr show ?thesis by (intro exI [of _ "[]"] exI [of _ es] exI [of _ "[]"] exI [of _ w] exI [of _ w1]) simp
    qed
  qed
qed simp

text \<open>C30. Every reported match is exact and current in this run, each step in the state the step before
  it left. The sources are indexed; the match names a span that is now stored for a registered
  source of this scope and a window of a resolved payload part with the same keyed token, at the
  reported offsets; after this scan the observed sources were stamped again, one after the other,
  and at its turn the file of the matched source carried the fingerprint it was indexed under; and
  after that, as the last step, the payload's files and commits were observed again unchanged.\<close>

theorem dlp_matches_are_exact_and_current:
  assumes "inspect_dlp H e c rs rn srcs max_hashes db w = (Inr r, db', w')" and "m \<in> set (dr_matches r)"
  shows "\<exists>ix changed w1. index_sources H rs srcs
        \<lparr>ix_result = \<lparr>dr_matches = [], dr_issues = [], dr_limitations = [], dr_observed = [], dr_indexed = 0, dr_reused = 0\<rparr>,
         ix_active = [], ix_budget = 8388608, ix_db = db, ix_world = w\<rparr> = (None, ix) \<and>
    (\<exists>ps. set ps \<subseteq> {p \<in> set (dl_spans db'). sp_scope p = rv_scope rs \<and> sp_source p \<in> set (ix_active ix)} \<and>
      located (rv_token rs) ps (map (\<lambda>p. (version_identity H (pt_version p), pt_content p)) (rn_parts rn)) m) \<and>
    dr_observed r = dr_observed (ix_result ix) \<and>
    changed_sources rs (dr_observed r) (ix_world ix) = (Inr changed, w1) \<and> dm_source m \<notin> set changed \<and>
    (\<exists>before path stamp after cs v v'. dr_observed r = before @ (dm_source m, path, stamp) # after \<and>
      changed_sources rs before (ix_world ix) = (Inr cs, v) \<and>
      resource_stamp (rv_disk rs) (rv_root rs) path v = (Inr stamp, v')) \<and>
    unchanged H e c rs rn w1 = (Inr True, w') \<and> (\<forall>p \<in> set (rn_parts rn). reobserved rs p)"
proof -
  let ?parts = "map (\<lambda>p. (version_identity H (pt_version p), pt_content p)) (rn_parts rn)"
  let ?ix0 = "\<lparr>ix_result = \<lparr>dr_matches = [], dr_issues = [], dr_limitations = [], dr_observed = [],
               dr_indexed = 0, dr_reused = 0\<rparr>, ix_active = [], ix_budget = 8388608, ix_db = db, ix_world = w\<rparr>"
  obtain e0 ix where ix: "index_sources H rs srcs ?ix0 = (e0, ix)" by fastforce
  note d = assms(1) [unfolded inspect_dlp_def ix Let_def]
  from d have e0: "e0 = None" by (cases e0) auto
  obtain r0 w1 where ch0: "changed_sources rs (dr_observed (ix_result ix)) (ix_world ix) = (r0, w1)" by fastforce
  from d e0 ch0 obtain changed where "r0 = Inr changed" by (cases r0) auto
  then have ch: "changed_sources rs (dr_observed (ix_result ix)) (ix_world ix) = (Inr changed, w1)" using ch0 by simp
  obtain u0 w2 where u0: "unchanged H e c rs rn w1 = (u0, w2)" by fastforce
  from d e0 ch u0 obtain same where same: "u0 = Inr same" by (cases u0) auto
  define ps where "ps = live_spans (rv_scope rs) (ix_active ix) (dr_observed (ix_result ix)) (ix_db ix)"
  define st where "st = scan (rv_token rs) ps ?parts max_hashes"
  from d e0 ch u0 same have r: "dr_observed r = dr_observed (ix_result ix)" and db: "dl_spans db' = dl_spans (ix_db ix)" and w: "w' = w2"
    and ms: "dr_matches r = (if same then filter (\<lambda>m. dm_source m \<notin> set changed) (sc_matches st) else [])"
    unfolding st_def ps_def by auto
  from ms assms(2) have m: "m \<in> set (sc_matches st)" "dm_source m \<notin> set changed" and u: "unchanged H e c rs rn w1 = (Inr True, w')"
    using u0 same w by (auto split: if_splits)
  have sub: "set ps \<subseteq> {p \<in> set (dl_spans db'). sp_scope p = rv_scope rs \<and> sp_source p \<in> set (ix_active ix)}"
    by (auto simp: ps_def live_spans_def db)
  have loc: "located (rv_token rs) ps ?parts m" using scan_located m(1) by (auto simp: st_def)
  then obtain p where "p \<in> set ps" "dm_source m = sp_source p" by (auto simp: located_def)
  then obtain path stamp where o: "(dm_source m, path, stamp) \<in> set (dr_observed (ix_result ix))"
    by (auto simp: ps_def live_spans_def split: option.splits dest!: map_of_SomeD)
  from changed_sources_ok [OF ch o m(2)] have
    "\<exists>before path stamp after cs v v'. dr_observed r = before @ (dm_source m, path, stamp) # after \<and>
      changed_sources rs before (ix_world ix) = (Inr cs, v) \<and>
      resource_stamp (rv_disk rs) (rv_root rs) path v = (Inr stamp, v')" unfolding r by blast
  with ix e0 sub loc r ch m(2) u unchanged_parts [OF u] show ?thesis by (intro exI [of _ ix] exI [of _ changed] exI [of _ w1]) auto
qed

text \<open>A resolver over one protected file and an inline payload that repeats it.\<close>

definition sample_dlp :: "unit resolver" where
  "sample_dlp = sample_resolver\<lparr>rv_token := (\<lambda>b. b), rv_disk := (ev_disk sample_env)
     \<lparr>dk_fstat := (\<lambda>fd w. (Inr \<lparr>st_type = Regular, st_dev = 1, st_ino = 2, st_size = 26, st_mtime = 5, st_ctime = 6\<rparr>, w)),
      dk_lstat := (\<lambda>d n w. (Inr \<lparr>st_type = Regular, st_dev = 1, st_ino = 2, st_size = 26, st_mtime = 5, st_ctime = 6\<rparr>, w)),
      dk_read := (\<lambda>fd n w. (Inr (if n = 27 then ''abcdefghijklmnopqrstuvwxyz'' else []), w))\<rparr>\<rparr>"

definition sample_payload :: resolution where
  "sample_payload = \<lparr>rn_parts = [\<lparr>pt_version = \<lparr>v_resource = \<lparr>r_scope = ''ws'', r_kind = ''event_input'', r_locator = ''e''\<rparr>,
       v_token = ''t'', v_event = ''e'', v_length = Some 29\<rparr>, pt_content = ''x=abcdefghijklmnopqrstuvwxyz!'', pt_offset = 0, pt_length = 29,
       pt_observation = []\<rparr>], rn_needs = [], rn_coverage = ''complete''\<rparr>"

definition sample_source :: dict where
  "sample_source = [(''source_id'', JStr ''src''), (''path'', JStr ''secret'')]"

definition no_dlp :: dlp_db where "no_dlp = \<lparr>dl_sources = [], dl_spans = [], dl_checks = []\<rparr>"

theorem dlp_matches_are_exact_and_current_witness:
  "\<exists>r m path stamp. fst (inspect_dlp (\<lambda>b. b) sample_env sample_config sample_dlp sample_payload [sample_source] 1000 no_dlp ()) = Inr r \<and>
     m \<in> set (dr_matches r) \<and> (dm_source m, path, stamp) \<in> set (dr_observed r) \<and>
     resource_stamp (rv_disk sample_dlp) (rv_root sample_dlp) path () = (Inr stamp, ())"
proof -
  have "(case fst (inspect_dlp (\<lambda>b. b) sample_env sample_config sample_dlp sample_payload [sample_source] 1000 no_dlp ()) of
      Inl x \<Rightarrow> False | Inr r \<Rightarrow> dr_matches r \<noteq> [])" by code_simp
  moreover obtain x db where i: "inspect_dlp (\<lambda>b. b) sample_env sample_config sample_dlp sample_payload [sample_source] 1000 no_dlp () = (x, db, ())"
    by (metis prod.exhaust old.unit.exhaust)
  ultimately obtain r where r: "x = Inr r" "dr_matches r \<noteq> []" by (cases x) auto
  have m: "hd (dr_matches r) \<in> set (dr_matches r)" using r(2) by simp
  have f: "fst (inspect_dlp (\<lambda>b. b) sample_env sample_config sample_dlp sample_payload [sample_source] 1000 no_dlp ()) = Inr r"
    using i r(1) by simp
  from dlp_matches_are_exact_and_current [OF i [unfolded r(1)] m] obtain before path stamp after v v' where
    o: "dr_observed r = before @ (dm_source (hd (dr_matches r)), path, stamp) # after"
    and s: "resource_stamp (rv_disk sample_dlp) (rv_root sample_dlp) path v = (Inr stamp, v')" by blast
  from o have "(dm_source (hd (dr_matches r)), path, stamp) \<in> set (dr_observed r)" by simp
  with f m s show ?thesis by (metis (full_types) old.unit.exhaust)
qed

text \<open>
  When the budget ends exactly at the end of a width, the outer loops stop without an issue:
  a part that was never scanned is not reported as such.
\<close>

lemma exact_budget_is_silent:
  "let ps = span_rows (\<lambda>b. b) ''ws'' ''src'' [(0, ''abcdefghijklmnopqrstuvwxyz'')];
       parts = [(''v1'', ''zzzzzzzzzzzzzzzzzzzzzzzzzz''), (''v2'', ''abcdefghijklmnopqrstuvwxyz'')]
   in sc_matches (scan (\<lambda>b. b) ps parts 1) = [] \<and> sc_issues (scan (\<lambda>b. b) ps parts 1) = [] \<and>
      sc_matches (scan (\<lambda>b. b) ps parts 2) \<noteq> []"
  by code_simp

end
