(* ===== verification/Inspection.thy ===== *)
theory Inspection
  imports Targets Fast_Path Dlp
begin

text \<open>
  \<open>engine/inspection.py\<close>: a send is blocked if its resolved bytes match protected content, or if
  it carries a generation known to descend from a protected source; otherwise the provenance
  decides, and an allow is only passed on if nothing about the payload, the policy or the
  protected files is unknown or has changed.
\<close>

section \<open>The database and the process\<close>

text \<open>
  \<open>eg_find\<close> holds the store, the target tables and the world; \<open>eg_tries\<close> and \<open>eg_parts\<close> are
  the checkpoints of the reviews.
\<close>

record 'w engine =
  eg_find :: "'w locating"
  eg_graph :: graph_db
  eg_dlp :: dlp_db
  eg_tries :: "attempt_row list"
  eg_parts :: "part_row list"

type_synonym ('w, 'a) engine_act = "('w engine, 'a) act"

definition eg_world :: "'w engine \<Rightarrow> 'w" where
  "eg_world s = lo_world (eg_find s)"

definition set_world :: "'w \<Rightarrow> 'w engine \<Rightarrow> 'w engine" where
  "set_world w s = s\<lparr>eg_find := (eg_find s)\<lparr>lo_world := w\<rparr>\<rparr>"

definition worldly :: "('w \<Rightarrow> 'a res \<times> 'w) \<Rightarrow> ('w, 'a) engine_act" where
  "worldly f s = (let (r, w) = f (eg_world s) in (r, set_world w s))"

definition at_targets :: "('w, 'a) locate \<Rightarrow> ('w, 'a) engine_act" where
  "at_targets m s = (let (r, t) = m (eg_find s) in (r, s\<lparr>eg_find := t\<rparr>))"

text \<open>What an inspection needs: the targets' environment, the event, and the registered sources,
  read from the table whenever they are asked for.\<close>

record 'w inspect_env =
  ie_target :: "'w target_env"
  ie_event :: event_row
  ie_session :: string
  ie_tool :: string
  ie_current :: "'w \<Rightarrow> dict list res \<times> 'w"

definition ie_hash :: "'w inspect_env \<Rightarrow> hash" where
  "ie_hash e = te_hash (ie_target e)"

definition ie_evidence :: "'w inspect_env \<Rightarrow> 'w evidence_env" where
  "ie_evidence e = se_evidence (te_snap (ie_target e))"

section \<open>The checks\<close>

definition source_policy :: "hash \<Rightarrow> dict list \<Rightarrow> string" where
  "source_policy H srcs = digest H (sources_json (sort_key source_key srcs))"

definition same_policy :: "'w inspect_env \<Rightarrow> dict list \<Rightarrow> ('w, bool) engine_act" where
  "same_policy e srcs =
     bind (worldly (ie_current e)) (\<lambda>now. ret (source_policy (ie_hash e) srcs = source_policy (ie_hash e) now))"

definition payload_same :: "'w inspect_env \<Rightarrow> 'w resolver \<Rightarrow> resolution \<Rightarrow> ('w, bool) engine_act" where
  "payload_same e rs rn = worldly (unchanged (ie_hash e) (ie_evidence e) (te_config (ie_target e)) rs rn)"

definition protected_same :: "'w resolver \<Rightarrow> dlp_result \<Rightarrow> ('w, bool) engine_act" where
  "protected_same rs dlp = worldly (sources_unchanged rs (dr_observed dlp))"

text \<open>\<open>a and b\<close>: the second check is only made if the first holds.\<close>

definition both :: "('w, bool) engine_act \<Rightarrow> ('w, bool) engine_act \<Rightarrow> ('w, bool) engine_act" where
  "both m n = bind m (\<lambda>b. if b then n else ret False)"

definition transmission :: "'w inspect_env \<Rightarrow> ('w, 'w resolver \<times> resolution \<times> string) engine_act" where
  "transmission e =
     bind (gets eg_graph) (\<lambda>g.
       at_targets (inspect_transmission ((ie_target e)\<lparr>te_graph := g\<rparr>) (er_workspace (ie_event e)) (er_event (ie_event e))))"

definition MAX_HASHES :: nat where "MAX_HASHES = 2000000"

definition detect :: "'w inspect_env \<Rightarrow> 'w resolver \<Rightarrow> resolution \<Rightarrow> dict list \<Rightarrow> ('w, dlp_result) engine_act" where
  "detect e rs rn srcs s =
     (let (r, d, w) = inspect_dlp (ie_hash e) (ie_evidence e) (te_config (ie_target e)) rs rn srcs MAX_HASHES (eg_dlp s) (eg_world s)
      in (r, set_world w (s\<lparr>eg_dlp := d\<rparr>)))"

definition shortcut_block :: "'w inspect_env \<Rightarrow> 'w resolver \<Rightarrow> resolution \<Rightarrow> dict list \<Rightarrow> ('w, outcome option) engine_act" where
  "shortcut_block e rs rn srcs s =
     (let (r, g, w) = known_protected_generation (ie_hash e) (ie_evidence e) (te_config (ie_target e)) (te_events (ie_target e))
           (te_bounds (ie_target e)) (sr_lineage (lo_store (eg_find s))) (ie_event e) (ie_session e) (ie_tool e) rs rn srcs
           (te_model (ie_target e)) (eg_graph s) (eg_world s)
      in (r, set_world w (s\<lparr>eg_graph := g\<rparr>)))"

section \<open>The payload\<close>

text \<open>What the first part of the inspection leaves behind when it neither blocks nor fails.\<close>

record 'w inspected =
  id_payload :: "('w resolver \<times> resolution) option"
  id_dlp :: "dlp_result option"
  id_issues :: "string list"

definition uninspected :: "('w resolver \<times> resolution) option \<Rightarrow> dlp_result option \<Rightarrow> 'w inspected" where
  "uninspected payload dlp = \<lparr>id_payload = payload, id_dlp = dlp, id_issues = [''payload_inspection_unavailable'']\<rparr>"

text \<open>\<open>except JudgeProviderError: raise; except Exception: pass\<close>.\<close>

definition unless_fails :: "('w, 'a) engine_act \<Rightarrow> 'a \<Rightarrow> ('w, 'a) engine_act" where
  "unless_fails m a = attempt m (\<lambda>x. case x of JudgeProviderError t \<Rightarrow> raise x | _ \<Rightarrow> ret a)"

definition content_block :: "string \<Rightarrow> outcome" where
  "content_block node = outcome ''block'' ''protected_content_match'' [] (Some node)"

definition inspection_issues :: "dlp_result \<Rightarrow> resolution \<Rightarrow> bool \<Rightarrow> string list" where
  "inspection_issues dlp rn kept = dr_issues dlp @
     (if rn_coverage rn \<noteq> ''complete'' then [''transmission_coverage_incomplete''] else []) @
     (if \<not> kept then [''protection_policy_changed_during_inspection''] else [])"

definition decide_payload :: "'w inspect_env \<Rightarrow> dict list \<Rightarrow> string \<Rightarrow> 'w resolver \<Rightarrow> resolution \<Rightarrow> dlp_result
    \<Rightarrow> ('w, outcome + 'w inspected) engine_act" where
  "decide_payload e srcs node rs rn dlp =
     (let rest = (\<lambda>kept. ret (Inr \<lparr>id_payload = Some (rs, rn), id_dlp = Some dlp, id_issues = inspection_issues dlp rn kept\<rparr>)) in
      bind (same_policy e srcs) (\<lambda>kept.
      bind (if dr_matches dlp \<noteq> [] \<and> kept then payload_same e rs rn else ret False) (\<lambda>matched.
        if matched then ret (Inl (content_block node))
        else
          bind (both (ret kept) (both (payload_same e rs rn) (protected_same rs dlp))) (\<lambda>steady.
            if \<not> steady then rest kept
            else
              bind (shortcut_block e rs rn srcs) (\<lambda>fast.
                case fast of
                  None \<Rightarrow> rest kept
                | Some r \<Rightarrow>
                    bind (both (same_policy e srcs) (both (payload_same e rs rn) (protected_same rs dlp))) (\<lambda>ok.
                      if ok then ret (Inl r) else rest kept))))))"

definition inspect_payload :: "'w inspect_env \<Rightarrow> dict list \<Rightarrow> string \<Rightarrow> ('w, outcome + 'w inspected) engine_act" where
  "inspect_payload e srcs node =
     bind (unless_fails (bind (transmission e) (\<lambda>(rs, rn, identity). ret (Some (rs, rn)))) None) (\<lambda>found.
       case found of
         None \<Rightarrow> ret (Inr (uninspected None None))
       | Some (rs, rn) \<Rightarrow>
           bind (unless_fails (bind (detect e rs rn srcs) (\<lambda>d. ret (Some d))) None) (\<lambda>d.
             case d of
               None \<Rightarrow> ret (Inr (uninspected (Some (rs, rn)) None))
             | Some dlp \<Rightarrow> unless_fails (decide_payload e srcs node rs rn dlp) (Inr (uninspected (Some (rs, rn)) (Some dlp)))))"

section \<open>The evidence handed to the provenance\<close>

text \<open>\<open>base64.b64encode\<close>.\<close>

definition b64_digit :: "nat \<Rightarrow> char" where
  "b64_digit n = (if n < 26 then char_of (65 + n) else if n < 52 then char_of (71 + n)
     else if n < 62 then char_of (n - 4) else if n = 62 then CHR ''+'' else CHR ''/'')"

fun b64encode :: "bytes \<Rightarrow> string" where
  "b64encode [] = []"
| "b64encode [a] = (let n = of_char a in [b64_digit (n div 4), b64_digit ((n mod 4) * 16), CHR ''='', CHR ''=''])"
| "b64encode [a, b] =
     (let n = of_char a; m = of_char b
      in [b64_digit (n div 4), b64_digit ((n mod 4) * 16 + m div 16), b64_digit ((m mod 16) * 4), CHR ''=''])"
| "b64encode (a # b # c # cs) =
     (let n = of_char a; m = of_char b; k = of_char c
      in [b64_digit (n div 4), b64_digit ((n mod 4) * 16 + m div 16), b64_digit ((m mod 16) * 4 + k div 64),
          b64_digit (k mod 64)] @ b64encode cs)"

definition part_evidence :: "part \<Rightarrow> json" where
  "part_evidence p =
     (let (content, encoding) = (case utf8_decode (pt_content p) of
          Some t \<Rightarrow> (t, ''utf-8'') | None \<Rightarrow> (b64encode (pt_content p), ''base64''))
      in JObj [(''observation'', JObj (pt_observation p)), (''version'', JStr (v_token (pt_version p))),
           (''content'', JStr content), (''encoding'', JStr encoding)])"

definition payload_evidence :: "'w inspected \<Rightarrow> json list option" where
  "payload_evidence i = map_option (\<lambda>(rs, rn). map part_evidence (rn_parts rn)) (id_payload i)"

section \<open>The decision\<close>

definition unavailable :: "string \<Rightarrow> outcome \<Rightarrow> outcome" where
  "unavailable reason r = r\<lparr>o_action := ''unavailable'', o_reason := reason\<rparr>"

text \<open>An issue that a check adds when it does not hold.\<close>

definition unless :: "('w, bool) engine_act \<Rightarrow> string \<Rightarrow> string list \<Rightarrow> ('w, string list) engine_act" where
  "unless m code issues = bind m (\<lambda>ok. ret (if ok then issues else issues @ [code]))"

definition confirm_allow :: "'w inspect_env \<Rightarrow> dict list \<Rightarrow> 'w inspected \<Rightarrow> outcome \<Rightarrow> ('w, outcome) engine_act" where
  "confirm_allow e srcs i r =
     bind (unless (same_policy e srcs) ''protection_policy_changed_during_inspection'' (id_issues i)) (\<lambda>issues.
     bind (case (id_payload i, id_dlp i) of
             (Some (rs, rn), Some dlp) \<Rightarrow> unless (protected_same rs dlp) ''protected_content_changed_during_inspection'' issues
           | _ \<Rightarrow> ret issues) (\<lambda>issues.
     bind (case id_payload i of
             Some (rs, rn) \<Rightarrow> unless (payload_same e rs rn) ''payload_changed_after_inspection'' issues
           | None \<Rightarrow> ret issues) (\<lambda>issues.
       ret (if issues = [] then r else unavailable (hd issues) r))))"

definition inspect_and_decide :: "'w inspect_env \<Rightarrow> dict list \<Rightarrow> (json list option \<Rightarrow> ('w, outcome) engine_act) \<Rightarrow> string
    \<Rightarrow> ('w, outcome) engine_act" where
  "inspect_and_decide e srcs graph node =
     bind (inspect_payload e srcs node) (\<lambda>first.
       case first of
         Inl r \<Rightarrow> ret r
       | Inr i \<Rightarrow>
           bind (graph (payload_evidence i)) (\<lambda>r.
           bind (case id_payload i of Some (rs, rn) \<Rightarrow> payload_same e rs rn | None \<Rightarrow> ret True) (\<lambda>same.
             if \<not> same then ret (unavailable ''payload_changed_after_inspection'' r)
             else if o_action r = ''allow'' \<and> o_reason r \<noteq> ''local_operation'' then confirm_allow e srcs i r
             else ret r)))"

section \<open>What an allow means\<close>

lemma worldly_Inr: "worldly f s = (Inr x, t) \<longleftrightarrow> (\<exists>w. f (eg_world s) = (Inr x, w) \<and> t = set_world w s)"
  by (auto simp: worldly_def split: prod.splits)

lemma eg_world_set [simp]: "eg_world (set_world w s) = w"
  by (simp add: eg_world_def set_world_def)

lemma both_Inr: "both m n s = (Inr b, t) \<longleftrightarrow> (\<exists>c s'. m s = (Inr c, s') \<and> (if c then n s' = (Inr b, t) else \<not> b \<and> t = s'))"
  by (auto simp: both_def bind_Inr ret_Inr)

text \<open>The first part blocks, or leaves its locals. The policy is observed in the state the detector
  left; a match is only passed over if the payload, observed next, had changed.\<close>

definition passed :: "'w inspect_env \<Rightarrow> dict list \<Rightarrow> 'w resolver \<Rightarrow> resolution \<Rightarrow> dlp_result \<Rightarrow> 'w engine \<Rightarrow> 'w inspected \<Rightarrow> bool" where
  "passed e srcs rs rn dlp s i \<longleftrightarrow> (\<exists>kept s'. same_policy e srcs s = (Inr kept, s') \<and>
     i = \<lparr>id_payload = Some (rs, rn), id_dlp = Some dlp, id_issues = inspection_issues dlp rn kept\<rparr> \<and>
     (dr_matches dlp = [] \<or> \<not> kept \<or> (\<exists>t. payload_same e rs rn s' = (Inr False, t))))"

lemma shortcut_block_Inr: "shortcut_block e rs rn srcs s = (Inr (Some r), t) \<Longrightarrow> o_action r = ''block''"
  by (auto simp: shortcut_block_def Let_def split: prod.splits dest: shortcut_blocks)

lemma decide_payload_Inr:
  assumes "decide_payload e srcs node rs rn dlp s = (Inr first, t)"
  shows "case first of Inl r \<Rightarrow> o_action r = ''block'' | Inr i \<Rightarrow> passed e srcs rs rn dlp s i"
proof -
  have rest: "ret (Inr \<lparr>id_payload = Some (rs, rn), id_dlp = Some dlp, id_issues = inspection_issues dlp rn kept\<rparr>) s5 = (Inr first, t) \<Longrightarrow>
      dr_matches dlp = [] \<or> \<not> kept \<or> (\<exists>t. payload_same e rs rn s1 = (Inr False, t)) \<Longrightarrow>
      same_policy e srcs s = (Inr kept, s1) \<Longrightarrow>
      case first of Inl r \<Rightarrow> o_action r = ''block'' | Inr i \<Rightarrow> passed e srcs rs rn dlp s i" for kept s1 s5
    by (auto simp: ret_Inr passed_def)
  from assms obtain kept s1 matched s2 where pol: "same_policy e srcs s = (Inr kept, s1)"
    and m: "(if dr_matches dlp \<noteq> [] \<and> kept then payload_same e rs rn else ret False) s1 = (Inr matched, s2)"
    and r: "(if matched then ret (Inl (content_block node))
        else
          bind (both (ret kept) (both (payload_same e rs rn) (protected_same rs dlp))) (\<lambda>steady.
            if \<not> steady then ret (Inr \<lparr>id_payload = Some (rs, rn), id_dlp = Some dlp, id_issues = inspection_issues dlp rn kept\<rparr>)
            else
              bind (shortcut_block e rs rn srcs) (\<lambda>fast.
                case fast of
                  None \<Rightarrow> ret (Inr \<lparr>id_payload = Some (rs, rn), id_dlp = Some dlp, id_issues = inspection_issues dlp rn kept\<rparr>)
                | Some r \<Rightarrow>
                    bind (both (same_policy e srcs) (both (payload_same e rs rn) (protected_same rs dlp))) (\<lambda>ok.
                      if ok then ret (Inl r)
                      else ret (Inr \<lparr>id_payload = Some (rs, rn), id_dlp = Some dlp, id_issues = inspection_issues dlp rn kept\<rparr>))))) s2 = (Inr first, t)"
    unfolding decide_payload_def Let_def bind_Inr by (auto simp only: bind_Inr)
  show ?thesis
  proof (cases matched)
    case True
    then show ?thesis using r by (auto simp: ret_Inr content_block_def)
  next
    case False
    have skip: "dr_matches dlp = [] \<or> \<not> kept \<or> (\<exists>t. payload_same e rs rn s1 = (Inr False, t))"
      using m False by (auto simp: ret_Inr split: if_splits)
    from r False obtain steady s3 where r2: "(if \<not> steady then ret (Inr \<lparr>id_payload = Some (rs, rn), id_dlp = Some dlp, id_issues = inspection_issues dlp rn kept\<rparr>)
            else
              bind (shortcut_block e rs rn srcs) (\<lambda>fast.
                case fast of
                  None \<Rightarrow> ret (Inr \<lparr>id_payload = Some (rs, rn), id_dlp = Some dlp, id_issues = inspection_issues dlp rn kept\<rparr>)
                | Some r \<Rightarrow>
                    bind (both (same_policy e srcs) (both (payload_same e rs rn) (protected_same rs dlp))) (\<lambda>ok.
                      if ok then ret (Inl r)
                      else ret (Inr \<lparr>id_payload = Some (rs, rn), id_dlp = Some dlp, id_issues = inspection_issues dlp rn kept\<rparr>)))) s3 = (Inr first, t)"
      by (auto simp only: bind_Inr if_False)
    show ?thesis
    proof (cases steady)
      case False
      then show ?thesis using r2 rest [OF _ skip pol] by auto
    next
      case True
      with r2 obtain fast s4 where f: "shortcut_block e rs rn srcs s3 = (Inr fast, s4)"
        and r3: "(case fast of
                  None \<Rightarrow> ret (Inr \<lparr>id_payload = Some (rs, rn), id_dlp = Some dlp, id_issues = inspection_issues dlp rn kept\<rparr>)
                | Some r \<Rightarrow>
                    bind (both (same_policy e srcs) (both (payload_same e rs rn) (protected_same rs dlp))) (\<lambda>ok.
                      if ok then ret (Inl r)
                      else ret (Inr \<lparr>id_payload = Some (rs, rn), id_dlp = Some dlp, id_issues = inspection_issues dlp rn kept\<rparr>))) s4 = (Inr first, t)"
        by (auto simp only: bind_Inr not_True_eq_False if_False)
      show ?thesis
      proof (cases fast)
        case None
        then show ?thesis using r3 rest [OF _ skip pol] by auto
      next
        case (Some b)
        with r3 obtain ok s5 where "(if ok then ret (Inl b)
            else ret (Inr \<lparr>id_payload = Some (rs, rn), id_dlp = Some dlp, id_issues = inspection_issues dlp rn kept\<rparr>)) s5 = (Inr first, t)"
          by (auto simp only: bind_Inr option.case)
        then show ?thesis using rest [OF _ skip pol] f Some shortcut_block_Inr by (cases ok) (auto simp: ret_Inr)
      qed
    qed
  qed
qed

lemma unless_fails_Inr: "unless_fails m a s = (Inr x, t) \<Longrightarrow> m s = (Inr x, t) \<or> x = a"
proof -
  assume "unless_fails m a s = (Inr x, t)"
  then consider "m s = (Inr x, t)" | y s' where "(case y of JudgeProviderError t \<Rightarrow> raise y | _ \<Rightarrow> ret a) s' = (Inr x, t)"
    unfolding unless_fails_def attempt_Inr by blast
  then show ?thesis
  proof cases
    case 2
    then show ?thesis by (cases y) (auto simp: ret_Inr raise_Inr)
  qed simp
qed

text \<open>The payload is resolved, then inspected by the detector in the state this left, and then passed
  on; \<open>s\<close> is the state at the start and \<open>t\<close> the one the first part leaves.\<close>

definition examined :: "'w inspect_env \<Rightarrow> dict list \<Rightarrow> string \<Rightarrow> 'w resolver \<Rightarrow> resolution \<Rightarrow> dlp_result \<Rightarrow> 'w inspected
    \<Rightarrow> 'w engine \<Rightarrow> 'w engine \<Rightarrow> bool" where
  "examined e srcs node rs rn dlp i s t \<longleftrightarrow> (\<exists>identity s1 s2. transmission e s = (Inr (rs, rn, identity), s1) \<and>
     detect e rs rn srcs s1 = (Inr dlp, s2) \<and> passed e srcs rs rn dlp s2 i \<and> decide_payload e srcs node rs rn dlp s2 = (Inr (Inr i), t))"

lemma found_Inr:
  assumes "unless_fails (bind m (\<lambda>x. ret (Some (f x)))) None s = (Inr (Some y), t)"
  shows "\<exists>x. m s = (Inr x, t) \<and> y = f x"
  using assms by (auto dest!: unless_fails_Inr simp: bind_Inr ret_Inr)

lemma inspect_payload_Inr:
  assumes "inspect_payload e srcs node s = (Inr first, t)"
  shows "case first of Inl r \<Rightarrow> o_action r = ''block''
    | Inr i \<Rightarrow> id_issues i \<noteq> [] \<or> (\<exists>rs rn dlp. examined e srcs node rs rn dlp i s t)"
proof -
  from assms obtain found s1 where a: "unless_fails (bind (transmission e) (\<lambda>(rs, rn, identity). ret (Some (rs, rn)))) None s = (Inr found, s1)"
    and b: "(case found of
         None \<Rightarrow> ret (Inr (uninspected None None))
       | Some (rs, rn) \<Rightarrow>
           bind (unless_fails (bind (detect e rs rn srcs) (\<lambda>d. ret (Some d))) None) (\<lambda>d.
             case d of
               None \<Rightarrow> ret (Inr (uninspected (Some (rs, rn)) None))
             | Some dlp \<Rightarrow> unless_fails (decide_payload e srcs node rs rn dlp) (Inr (uninspected (Some (rs, rn)) (Some dlp))))) s1 = (Inr first, t)"
    unfolding inspect_payload_def bind_Inr by blast
  show ?thesis
  proof (cases found)
    case None
    then show ?thesis using b by (auto simp: ret_Inr uninspected_def)
  next
    case (Some p)
    obtain rs rn where p: "p = (rs, rn)" by (cases p)
    from a Some p have "\<exists>identity. transmission e s = (Inr (rs, rn, identity), s1)"
      by (auto dest!: unless_fails_Inr simp: bind_Inr ret_Inr)
    then obtain identity where tr: "transmission e s = (Inr (rs, rn, identity), s1)" ..
    from b Some p obtain d s2 where c: "unless_fails (bind (detect e rs rn srcs) (\<lambda>d. ret (Some d))) None s1 = (Inr d, s2)"
      and f: "(case d of
               None \<Rightarrow> ret (Inr (uninspected (Some (rs, rn)) None))
             | Some dlp \<Rightarrow> unless_fails (decide_payload e srcs node rs rn dlp) (Inr (uninspected (Some (rs, rn)) (Some dlp)))) s2 = (Inr first, t)"
      by (auto simp only: bind_Inr option.case prod.case)
    show ?thesis
    proof (cases d)
      case None
      then show ?thesis using f by (auto simp: ret_Inr uninspected_def)
    next
      case dlp: (Some dlp)
      from found_Inr [where f = "\<lambda>d. d", OF c [unfolded dlp]] have de: "detect e rs rn srcs s1 = (Inr dlp, s2)" by simp
      from f dlp have "decide_payload e srcs node rs rn dlp s2 = (Inr first, t) \<or> first = Inr (uninspected (Some (rs, rn)) (Some dlp))"
        by (auto dest!: unless_fails_Inr)
      then show ?thesis
      proof
        assume d: "decide_payload e srcs node rs rn dlp s2 = (Inr first, t)"
        from decide_payload_Inr [OF this] tr de d show ?thesis
          by (cases first) (simp, simp, unfold examined_def, blast)
      qed (simp add: uninspected_def)
    qed
  qed
qed

lemma unless_Inr: "unless m code issues s = (Inr ys, t) \<longleftrightarrow> (\<exists>ok. m s = (Inr ok, t) \<and> ys = (if ok then issues else issues @ [code]))"
  by (auto simp: unless_def bind_Inr ret_Inr)

lemma confirm_allow_Inr:
  assumes "confirm_allow e srcs i r s = (Inr r', t)" and "o_action r' = ''allow''" and "id_payload i = Some (rs, rn)" and "id_dlp i = Some dlp"
  shows "r' = r \<and> id_issues i = [] \<and> (\<exists>s1 s2. same_policy e srcs s = (Inr True, s1) \<and> protected_same rs dlp s1 = (Inr True, s2) \<and>
    payload_same e rs rn s2 = (Inr True, t))"
proof -
  from assms(1) [unfolded confirm_allow_def assms(3,4) option.case prod.case] obtain k1 s1 k2 s2 k3 where
    a: "same_policy e srcs s = (Inr k1, s1)" and b: "protected_same rs dlp s1 = (Inr k2, s2)" and c: "payload_same e rs rn s2 = (Inr k3, t)"
    and r: "let issues = id_issues i; issues = (if k1 then issues else issues @ [''protection_policy_changed_during_inspection'']);
        issues = (if k2 then issues else issues @ [''protected_content_changed_during_inspection'']);
        issues = (if k3 then issues else issues @ [''payload_changed_after_inspection''])
      in r' = (if issues = [] then r else unavailable (hd issues) r)"
    unfolding Let_def by (auto simp only: bind_Inr unless_Inr ret_Inr prod.inject sum.inject)
  have "o_action (unavailable x r) \<noteq> ''allow''" for x by (simp add: unavailable_def)
  with r assms(2) have k: "r' = r" "id_issues i = []" k1 k2 k3 by (auto simp: Let_def split: if_splits)
  with a b c show ?thesis by simp
qed

lemma confirm_allow_issues:
  assumes "confirm_allow e srcs i r s = (Inr r', t)" and "id_issues i \<noteq> []"
  shows "o_action r' = ''unavailable''"
proof -
  have app: "unless m c xs s0 = (Inr ys, t0) \<Longrightarrow> xs \<noteq> [] \<Longrightarrow> ys \<noteq> []" for m :: "('a, bool) engine_act" and c xs s0 ys t0
    by (auto simp: unless_Inr split: if_splits)
  from assms(1) [unfolded confirm_allow_def] obtain i1 s1 i2 s2 i3 where
    a: "unless (same_policy e srcs) ''protection_policy_changed_during_inspection'' (id_issues i) s = (Inr i1, s1)"
    and b: "(case (id_payload i, id_dlp i) of
             (Some (rs, rn), Some dlp) \<Rightarrow> unless (protected_same rs dlp) ''protected_content_changed_during_inspection'' i1
           | _ \<Rightarrow> ret i1) s1 = (Inr i2, s2)"
    and c: "(case id_payload i of
             Some (rs, rn) \<Rightarrow> unless (payload_same e rs rn) ''payload_changed_after_inspection'' i2
           | None \<Rightarrow> ret i2) s2 = (Inr i3, t)"
    and r: "r' = (if i3 = [] then r else unavailable (hd i3) r)"
    by (auto simp only: bind_Inr ret_Inr prod.inject sum.inject)
  have "i1 \<noteq> []" using app [OF a assms(2)] .
  then have "i2 \<noteq> []" using b by (auto simp: ret_Inr split: option.splits prod.splits dest: app)
  then have "i3 \<noteq> []" using c by (auto simp: ret_Inr split: option.splits prod.splits dest: app)
  with r show ?thesis by (simp add: unavailable_def)
qed

lemma confirm_allow_same:
  assumes "o_action r' = ''allow''" and "confirm_allow e srcs i r s = (Inr r', t)"
  shows "r' = r"
proof -
  from assms(2) obtain issues where "r' = (if issues = [] then r else unavailable (hd issues) r)"
    unfolding confirm_allow_def by (auto simp only: bind_Inr ret_Inr)
  with assms(1) show ?thesis by (auto simp: unavailable_def split: if_splits)
qed

text \<open>The run of an inspection that ends in an allow, as the chain of its states. The payload is
  resolved, the detector inspects it, the policy is observed, the first part leaves no issue, the
  provenance decides on the evidence of this payload (\<open>allows\<close> relates the states before and after),
  and then the payload, the policy, the protected files and again the payload are observed, each in
  the state the step before it left.\<close>

definition inspection_run :: "'w inspect_env \<Rightarrow> dict list \<Rightarrow> (json list option \<Rightarrow> 'w engine \<Rightarrow> 'w engine \<Rightarrow> bool) \<Rightarrow> string
    \<Rightarrow> 'w resolver \<Rightarrow> resolution \<Rightarrow> dlp_result \<Rightarrow> 'w engine \<Rightarrow> 'w engine \<Rightarrow> bool" where
  "inspection_run e srcs allows node rs rn dlp s s' \<longleftrightarrow> (\<exists>identity s1 s2 s3 s4 s5 s6 s7 s8.
     transmission e s = (Inr (rs, rn, identity), s1) \<and> rn_coverage rn = ''complete'' \<and>
     detect e rs rn srcs s1 = (Inr dlp, s2) \<and> dr_issues dlp = [] \<and>
     same_policy e srcs s2 = (Inr True, s3) \<and> (dr_matches dlp = [] \<or> (\<exists>t. payload_same e rs rn s3 = (Inr False, t))) \<and>
     decide_payload e srcs node rs rn dlp s2 = (Inr (Inr \<lparr>id_payload = Some (rs, rn), id_dlp = Some dlp, id_issues = []\<rparr>), s4) \<and>
     allows (Some (map part_evidence (rn_parts rn))) s4 s5 \<and>
     payload_same e rs rn s5 = (Inr True, s6) \<and> same_policy e srcs s6 = (Inr True, s7) \<and>
     protected_same rs dlp s7 = (Inr True, s8) \<and> payload_same e rs rn s8 = (Inr True, s'))"

lemma inspection_run_mono:
  "(\<And>evidence a b. allows evidence a b \<Longrightarrow> allows' evidence a b) \<Longrightarrow>
   inspection_run e srcs allows node rs rn dlp s s' \<Longrightarrow> inspection_run e srcs allows' node rs rn dlp s s'"
  unfolding inspection_run_def by blast

lemma examined_clean:
  assumes "examined e srcs node rs rn dlp i s t" and "id_issues i = []"
  shows "\<exists>identity s1 s2 s3. transmission e s = (Inr (rs, rn, identity), s1) \<and> rn_coverage rn = ''complete'' \<and>
     detect e rs rn srcs s1 = (Inr dlp, s2) \<and> dr_issues dlp = [] \<and>
     same_policy e srcs s2 = (Inr True, s3) \<and> (dr_matches dlp = [] \<or> (\<exists>t. payload_same e rs rn s3 = (Inr False, t))) \<and>
     i = \<lparr>id_payload = Some (rs, rn), id_dlp = Some dlp, id_issues = []\<rparr> \<and> decide_payload e srcs node rs rn dlp s2 = (Inr (Inr i), t)"
proof -
  from assms(1) obtain identity s1 s2 where x: "transmission e s = (Inr (rs, rn, identity), s1)" "detect e rs rn srcs s1 = (Inr dlp, s2)"
    "decide_payload e srcs node rs rn dlp s2 = (Inr (Inr i), t)" and "passed e srcs rs rn dlp s2 i"
    unfolding examined_def by blast
  then obtain kept s3 where p: "same_policy e srcs s2 = (Inr kept, s3)"
    "dr_matches dlp = [] \<or> \<not> kept \<or> (\<exists>t. payload_same e rs rn s3 = (Inr False, t))"
    and i: "i = \<lparr>id_payload = Some (rs, rn), id_dlp = Some dlp, id_issues = inspection_issues dlp rn kept\<rparr>"
    unfolding passed_def by blast
  from i assms(2) have none: "inspection_issues dlp rn kept = []" by simp
  then have k: kept "dr_issues dlp = []" "rn_coverage rn = ''complete''" by (auto simp: inspection_issues_def split: if_splits)
  from p k(1) have "same_policy e srcs s2 = (Inr True, s3)" "dr_matches dlp = [] \<or> (\<exists>t. payload_same e rs rn s3 = (Inr False, t))" by auto
  moreover from i none have "i = \<lparr>id_payload = Some (rs, rn), id_dlp = Some dlp, id_issues = []\<rparr>" by simp
  ultimately show ?thesis using x k(2,3) by blast
qed

lemma allowed_inspection:
  assumes "inspect_and_decide e srcs graph node s = (Inr r, s')" and "o_action r = ''allow''" and "o_reason r \<noteq> ''local_operation''"
  shows "\<exists>rs rn dlp. inspection_run e srcs (\<lambda>evidence a b. graph evidence a = (Inr r, b)) node rs rn dlp s s'"
proof -
  from assms(1) obtain first s1 where a: "inspect_payload e srcs node s = (Inr first, s1)"
    and b: "(case first of
         Inl r \<Rightarrow> ret r
       | Inr i \<Rightarrow>
           bind (graph (payload_evidence i)) (\<lambda>r.
           bind (case id_payload i of Some (rs, rn) \<Rightarrow> payload_same e rs rn | None \<Rightarrow> ret True) (\<lambda>same.
             if \<not> same then ret (unavailable ''payload_changed_after_inspection'' r)
             else if o_action r = ''allow'' \<and> o_reason r \<noteq> ''local_operation'' then confirm_allow e srcs i r
             else ret r))) s1 = (Inr r, s')"
    unfolding inspect_and_decide_def bind_Inr by blast
  from inspect_payload_Inr [OF a] assms(2) b obtain i where i: "first = Inr i"
    by (cases first) (auto simp: ret_Inr)
  from b i obtain r0 s2 same s3 where g: "graph (payload_evidence i) s1 = (Inr r0, s2)"
    and sm: "(case id_payload i of Some (rs, rn) \<Rightarrow> payload_same e rs rn | None \<Rightarrow> ret True) s2 = (Inr same, s3)"
    and c: "(if \<not> same then ret (unavailable ''payload_changed_after_inspection'' r0)
             else if o_action r0 = ''allow'' \<and> o_reason r0 \<noteq> ''local_operation'' then confirm_allow e srcs i r0
             else ret r0) s3 = (Inr r, s')"
    by (auto simp only: bind_Inr sum.case)
  have conf: "same \<and> confirm_allow e srcs i r0 s3 = (Inr r, s')"
  proof (cases same)
    case True
    then show ?thesis using c assms(2,3) by (cases "o_action r0 = ''allow'' \<and> o_reason r0 \<noteq> ''local_operation''") (auto simp: ret_Inr)
  next
    case False
    then show ?thesis using c assms(2) by (simp add: ret_Inr unavailable_def)
  qed
  with confirm_allow_issues [of e srcs i r0 s3 r s'] assms(2) have no: "id_issues i = []" by auto
  with inspect_payload_Inr [OF a] i obtain rs rn dlp where "examined e srcs node rs rn dlp i s s1" by auto
  from examined_clean [OF this no] obtain identity t1 t2 t3 where
    e: "transmission e s = (Inr (rs, rn, identity), t1)" "rn_coverage rn = ''complete''" "detect e rs rn srcs t1 = (Inr dlp, t2)"
      "dr_issues dlp = []" "same_policy e srcs t2 = (Inr True, t3)"
      "dr_matches dlp = [] \<or> (\<exists>t. payload_same e rs rn t3 = (Inr False, t))"
      "decide_payload e srcs node rs rn dlp t2 = (Inr (Inr i), s1)"
    and k: "i = \<lparr>id_payload = Some (rs, rn), id_dlp = Some dlp, id_issues = []\<rparr>" by blast
  from sm conf k have p: "payload_same e rs rn s2 = (Inr True, s3)" by simp
  have "r = r0 \<and> id_issues i = [] \<and> (\<exists>s4 s5. same_policy e srcs s3 = (Inr True, s4) \<and> protected_same rs dlp s4 = (Inr True, s5) \<and>
      payload_same e rs rn s5 = (Inr True, s'))"
    by (rule confirm_allow_Inr [OF _ assms(2)]) (use conf in \<open>simp_all add: k\<close>)
  then obtain s4 s5 where "r = r0" "same_policy e srcs s3 = (Inr True, s4)" "protected_same rs dlp s4 = (Inr True, s5)"
    "payload_same e rs rn s5 = (Inr True, s')" by blast
  moreover have "graph (Some (map part_evidence (rn_parts rn))) s1 = (Inr r0, s2)" using g by (simp add: k payload_evidence_def)
  ultimately show ?thesis using e [unfolded k] p unfolding inspection_run_def by blast
qed

lemma inspect_allow_graph:
  assumes "inspect_and_decide e srcs graph node s = (Inr r, s')" and "o_action r = ''allow''"
  shows "\<exists>evidence s1 s2. graph evidence s1 = (Inr r, s2)"
proof -
  from assms(1) obtain first s1 where a: "inspect_payload e srcs node s = (Inr first, s1)"
    and b: "(case first of
         Inl r \<Rightarrow> ret r
       | Inr i \<Rightarrow>
           bind (graph (payload_evidence i)) (\<lambda>r.
           bind (case id_payload i of Some (rs, rn) \<Rightarrow> payload_same e rs rn | None \<Rightarrow> ret True) (\<lambda>same.
             if \<not> same then ret (unavailable ''payload_changed_after_inspection'' r)
             else if o_action r = ''allow'' \<and> o_reason r \<noteq> ''local_operation'' then confirm_allow e srcs i r
             else ret r))) s1 = (Inr r, s')"
    unfolding inspect_and_decide_def bind_Inr by blast
  from inspect_payload_Inr [OF a] assms(2) b obtain i where i: "first = Inr i"
    by (cases first) (auto simp: ret_Inr)
  from b i obtain r0 s2 same s3 where g: "graph (payload_evidence i) s1 = (Inr r0, s2)"
    and c: "(if \<not> same then ret (unavailable ''payload_changed_after_inspection'' r0)
             else if o_action r0 = ''allow'' \<and> o_reason r0 \<noteq> ''local_operation'' then confirm_allow e srcs i r0
             else ret r0) s3 = (Inr r, s')"
    by (auto simp only: bind_Inr sum.case)
  have "r = r0"
  proof (cases "same \<and> o_action r0 = ''allow'' \<and> o_reason r0 \<noteq> ''local_operation''")
    case True
    with c have conf: "confirm_allow e srcs i r0 s3 = (Inr r, s')" by simp
    with assms(2) show ?thesis by (rule confirm_allow_same)
  next
    case False
    with c assms(2) show ?thesis by (auto simp: ret_Inr unavailable_def split: if_splits)
  qed
  with g show ?thesis by blast
qed

text \<open>C3. A send is only allowed if the whole inspection of this run succeeded and stayed valid. The run
  is a chain of steps, each in the state the step before it left: the payload was resolved with
  complete coverage; the detector ran on it and raised no issue; the policy was observed unchanged,
  and matches (if any) were only passed over because the payload, observed next, had changed; the
  first part of the inspection ended without an issue; the provenance allowed exactly the evidence
  of this payload; and then the payload, the policy, the protected files and, as the last step of
  the run, the payload again were observed unchanged. A failure on the way never ends in an allow.\<close>

theorem allowed_send_was_inspected:
  assumes "inspect_and_decide e srcs graph node s = (Inr r, s')" and "o_action r = ''allow''" and "o_reason r \<noteq> ''local_operation''"
  shows "\<exists>rs rn dlp identity s1 s2 s3 s4 s5 s6 s7 s8.
    transmission e s = (Inr (rs, rn, identity), s1) \<and> rn_coverage rn = ''complete'' \<and>
    detect e rs rn srcs s1 = (Inr dlp, s2) \<and> dr_issues dlp = [] \<and>
    same_policy e srcs s2 = (Inr True, s3) \<and> (dr_matches dlp = [] \<or> (\<exists>t. payload_same e rs rn s3 = (Inr False, t))) \<and>
    decide_payload e srcs node rs rn dlp s2 = (Inr (Inr \<lparr>id_payload = Some (rs, rn), id_dlp = Some dlp, id_issues = []\<rparr>), s4) \<and>
    graph (Some (map part_evidence (rn_parts rn))) s4 = (Inr r, s5) \<and>
    payload_same e rs rn s5 = (Inr True, s6) \<and> same_policy e srcs s6 = (Inr True, s7) \<and>
    protected_same rs dlp s7 = (Inr True, s8) \<and> payload_same e rs rn s8 = (Inr True, s')"
  using allowed_inspection [OF assms] unfolding inspection_run_def .

section \<open>Examples\<close>

definition empty_files :: "unit disk" where
  "empty_files = (ev_disk sample_env)\<lparr>dk_read := (\<lambda>fd n w. (Inr [], w)),
     dk_fstat := (\<lambda>fd w. (Inr \<lparr>st_type = Regular, st_dev = 1, st_ino = 2, st_size = 0, st_mtime = 5, st_ctime = 6\<rparr>, w)),
     dk_lstat := (\<lambda>d n w. (Inr \<lparr>st_type = Regular, st_dev = 1, st_ino = 2, st_size = 0, st_mtime = 5, st_ctime = 6\<rparr>, w))\<rparr>"

definition send_inspection :: "unit inspect_env" where
  "send_inspection = \<lparr>ie_target = send_env\<lparr>te_make := (\<lambda>ev keys. make_resolver (\<lambda>k b. k @ b) [send_event] (er_workspace ev)
       (er_event ev) (er_root ev) ''key'' empty_files sample_repo (\<lambda>p w. (True, w)) keys)\<rparr>, ie_event = send_event, ie_session = ''s'', ie_tool = ''t'',
     ie_current = (\<lambda>w. (Inr [Property_Graph.sample_source ''key''], w))\<rparr>"

definition send_engine :: "unit engine" where
  "send_engine = \<lparr>eg_find = send_state, eg_graph = empty_graph, eg_dlp = \<lparr>dl_sources = [], dl_spans = [], dl_checks = []\<rparr>,
     eg_tries = [], eg_parts = []\<rparr>"

definition provenance_allows :: "json list option \<Rightarrow> ('w, outcome) engine_act" where
  "provenance_allows parts = ret (outcome ''allow'' ''no_protected_path_observed'' [] (Some ''n''))"

definition send_decision :: "outcome res \<times> unit engine" where
  "send_decision = inspect_and_decide send_inspection [Property_Graph.sample_source ''key''] provenance_allows ''n'' send_engine"

theorem allowed_send_was_inspected_witness:
  "\<exists>r s'. send_decision = (Inr r, s') \<and> o_action r = ''allow'' \<and>
     (\<exists>rs rn dlp s6 s7 s8. rn_coverage rn = ''complete'' \<and> dr_issues dlp = [] \<and>
        same_policy send_inspection [Property_Graph.sample_source ''key''] s6 = (Inr True, s7) \<and>
        protected_same rs dlp s7 = (Inr True, s8) \<and> payload_same send_inspection rs rn s8 = (Inr True, s'))"
proof -
  have c: "(case fst send_decision of Inr r \<Rightarrow> o_action r = ''allow'' \<and> o_reason r \<noteq> ''local_operation'' | _ \<Rightarrow> False)" by code_simp
  obtain q s' where q: "send_decision = (q, s')" by (cases send_decision)
  from c [unfolded q fst_conv] obtain r where o: "q = Inr r" "o_action r = ''allow''" "o_reason r \<noteq> ''local_operation''"
    by (cases q) auto
  note r = q [unfolded o(1)] o(2,3)
  from allowed_send_was_inspected [OF r(1) [unfolded send_decision_def] r(2,3)] r(1,2) show ?thesis by blast
qed

section \<open>A match can be passed over\<close>

text \<open>
  A match only blocks if the payload is unchanged at that moment. If that check fails for a reason
  that does not last (here: the file cannot be opened once), the match is forgotten: the later
  checks succeed and the allow of the provenance is confirmed.
\<close>

definition flaky_env :: "nat evidence_env" where
  "flaky_env = \<lparr>ev_disk = \<lparr>dk_open = (\<lambda>p w. if w = 0 then (Inl (OSError ''EMFILE''), 1) else (Inr 3, w)), dk_openat = (\<lambda>d n dir w. (Inr 4, w)),
       dk_fstat = (\<lambda>fd w. (Inr \<lparr>st_type = Regular, st_dev = 1, st_ino = 2, st_size = 4, st_mtime = 5, st_ctime = 6\<rparr>, w)),
       dk_read = (\<lambda>fd n w. (Inr ''pass'', w)), dk_lstat = (\<lambda>d n w. (Inl (OSError ''FileNotFoundError''), w))\<rparr>,
     ev_scan = (\<lambda>fd w. (([], None), w)), ev_resolve = (\<lambda>p w. (Inr p, w)),
     ev_stat = (\<lambda>p w. (Inl (OSError ''FileNotFoundError''), w)), ev_entries = (\<lambda>p w. (([], None), w)),
     ev_runtime = ''/opt/proxy'', ev_sources = (\<lambda>w. (([], []), w))\<rparr>"

definition flaky_repo :: "nat repo" where
  "flaky_repo = \<lparr>rp_run = (\<lambda>r a w. (\<lparr>cr_output = [], cr_timeout = False, cr_code = 1\<rparr>, w)), rp_local = (\<lambda>r w. (False, w)),
     rp_partial = (\<lambda>r w. (False, w)), rp_promisor = (\<lambda>r w. (False, w)), rp_resolved = (\<lambda>r. r)\<rparr>"

definition flaky_resolver :: "nat resolver" where
  "flaky_resolver = \<lparr>rv_scope = ''ws'', rv_event_id = ''e'', rv_root = ''/w'', rv_max_bytes = 10, rv_max_members = 4,
     rv_document = [], rv_token = (\<lambda>b. b), rv_calls = [], rv_context = None, rv_disk = ev_disk flaky_env, rv_repo = flaky_repo,
     rv_local_dir = (\<lambda>r w. (False, w))\<rparr>"

definition flaky_inspection :: "nat inspect_env" where
  "flaky_inspection = \<lparr>ie_target = \<lparr>te_snap = \<lparr>se_hash = (\<lambda>b. ''h''), se_events = [send_event], se_evidence = flaky_env\<rparr>,
       te_config = racing_config, te_bounds = [], te_graph = empty_graph, te_provider = (\<lambda>r w. (Inr JNull, w)), te_model = ''m'',
       te_make = (\<lambda>ev keys. (Inr flaky_resolver, keys))\<rparr>,
     ie_event = send_event, ie_session = ''s'', ie_tool = ''t'', ie_current = (\<lambda>w. (Inr [Property_Graph.sample_source ''key''], w))\<rparr>"

definition one_match :: dlp_result where
  "one_match = \<lparr>dr_matches = [\<lparr>dm_source = ''src'', dm_source_offset = 0, dm_payload = ''h'', dm_payload_offset = 0, dm_length = 4\<rparr>],
     dr_issues = [], dr_limitations = [], dr_observed = [], dr_indexed = 1, dr_reused = 0\<rparr>"

definition flaky_engine :: "nat engine" where
  "flaky_engine = \<lparr>eg_find = \<lparr>lo_store = empty_store, lo_plans = [], lo_notes = [], lo_records = [], lo_seen = [], lo_budget = 0,
       lo_calls = [], lo_world = 0\<rparr>, eg_graph = empty_graph, eg_dlp = \<lparr>dl_sources = [], dl_spans = [], dl_checks = []\<rparr>,
     eg_tries = [], eg_parts = []\<rparr>"

definition after_match :: "(nat, outcome) engine_act" where
  "after_match =
     bind (decide_payload flaky_inspection [Property_Graph.sample_source ''key''] ''n'' flaky_resolver sample_file one_match) (\<lambda>first.
       case first of
         Inl r \<Rightarrow> ret r
       | Inr i \<Rightarrow> bind (provenance_allows (payload_evidence i)) (confirm_allow flaky_inspection [Property_Graph.sample_source ''key''] i))"

lemma match_can_be_passed_over:
  "map_sum id o_action (fst (after_match flaky_engine)) = Inr ''allow'' \<and>
   map_sum id o_action (fst (after_match (set_world 1 flaky_engine))) = Inr ''block''"
  by code_simp

end
