(* ===== verification/Lease.thy ===== *)
theory Lease
  imports Prelude
begin

text \<open>
  The contract behind the leased work tables of \<open>engine/jobs.py\<close> and \<open>engine/pending.py\<close>:
  a row is taken by writing a fresh owner token and an expiry into it, every later write of
  the holder is conditioned on its token, and everybody else leaves a live lease alone. Times
  are integers, in milliseconds.
\<close>

type_synonym time = int

locale lease_table =
  fixes apply_op :: "'op \<Rightarrow> 't \<Rightarrow> 't"
    and held :: "'k \<Rightarrow> string \<Rightarrow> time \<Rightarrow> 't \<Rightarrow> bool"
    and spares :: "'k \<Rightarrow> string \<Rightarrow> time \<Rightarrow> 'op \<Rightarrow> bool"
    and close :: "'k \<Rightarrow> string \<Rightarrow> 't \<Rightarrow> bool"
  assumes held_step: "held k owner till t \<Longrightarrow> spares k owner till x \<Longrightarrow> held k owner till (apply_op x t)"
    and held_close: "held k owner till t \<Longrightarrow> close k owner t"
begin

lemma held_run:
  "held k owner till t \<Longrightarrow> list_all (spares k owner till) ops \<Longrightarrow> held k owner till (fold apply_op ops t)"
  by (induction ops arbitrary: t) (auto intro: held_step)

text \<open>However the others interleave, the holder's closing write still takes effect.\<close>

lemma close_after_run:
  "held k owner till t \<Longrightarrow> list_all (spares k owner till) ops \<Longrightarrow> close k owner (fold apply_op ops t)"
  by (blast intro: held_run held_close)

end

end
