(* ===== verification/Jobs.thy ===== *)
theory Jobs
  imports Lease Events
begin

text \<open>
  \<open>engine/jobs.py\<close>: the durable queue of provenance jobs (table \<open>flow_jobs\<close>). A job is
  queued for every PostToolUse, claimed by a worker under a lease of ten minutes and at most
  three times, and finished by the worker that holds it. \<open>drain\<close> is the worker loop; what it
  reads of the configuration, the authority lease and the workspace, and the analysis itself,
  are steps of the environment. The owner token (\<open>secrets.token_hex\<close>) is an argument.
\<close>

record job_row =
  jb_scope :: string
  jb_event :: string
  jb_session :: string
  jb_model :: string
  jb_status :: string
  jb_owner :: "string option"
  jb_until :: time
  jb_attempts :: nat
  jb_reason :: string

record job_claim =
  jc_scope :: string
  jc_event :: string
  jc_session :: string
  jc_model :: string
  jc_owner :: string

abbreviation job_key :: "job_row \<Rightarrow> string \<times> string \<times> string" where
  "job_key r \<equiv> (jb_scope r, jb_event r, jb_model r)"

abbreviation claim_key :: "job_claim \<Rightarrow> string \<times> string \<times> string" where
  "claim_key j \<equiv> (jc_scope j, jc_event j, jc_model j)"

section \<open>Operations\<close>

text \<open>\<open>ON CONFLICT DO NOTHING\<close> covers the key; a missing session violates \<open>NOT NULL\<close>.\<close>

definition enqueue :: "event_row \<Rightarrow> string \<Rightarrow> job_row list \<Rightarrow> job_row list res" where
  "enqueue ev model t =
     (if er_phase ev \<noteq> ''post_tool_use'' then Inr t
      else case er_session ev of
          None \<Rightarrow> Inl (SqliteError ''NOT NULL constraint failed: flow_jobs.session'')
        | Some session \<Rightarrow> Inr (ins_ignore job_key
            \<lparr>jb_scope = er_workspace ev, jb_event = er_event ev, jb_session = session, jb_model = model,
             jb_status = ''pending'', jb_owner = None, jb_until = 0, jb_attempts = 0, jb_reason = []\<rparr> t))"

definition expire :: "time \<Rightarrow> job_row list \<Rightarrow> job_row list" where
  "expire now t =
     upd_where (\<lambda>r. jb_status r = ''running'' \<and> jb_until r < now \<and> 3 \<le> jb_attempts r)
       (\<lambda>r. r\<lparr>jb_status := ''failed'', jb_reason := ''lease_retries_exhausted''\<rparr>) t"

definition claimable :: "event_row list \<Rightarrow> string \<Rightarrow> time \<Rightarrow> job_row \<Rightarrow> bool" where
  "claimable evs scope now r \<longleftrightarrow> jb_scope r = scope \<and> event_by_id evs (jb_event r) \<noteq> None \<and>
     (jb_status r = ''pending'' \<or> jb_status r = ''running'' \<and> jb_until r < now) \<and> jb_attempts r < 3"

definition job_seq :: "event_row list \<Rightarrow> job_row \<Rightarrow> nat" where
  "job_seq evs r = (case event_by_id evs (jb_event r) of None \<Rightarrow> 0 | Some e \<Rightarrow> er_seq e)"

definition LEASE_MS :: time where
  "LEASE_MS = 600000"

definition take_job :: "string \<Rightarrow> time \<Rightarrow> job_row \<Rightarrow> job_row list \<Rightarrow> job_row list" where
  "take_job owner now r t = upd_where (\<lambda>x. job_key x = job_key r)
     (\<lambda>x. x\<lparr>jb_status := ''running'', jb_owner := Some owner, jb_until := now + LEASE_MS,
            jb_attempts := jb_attempts r + 1\<rparr>) t"

definition claim :: "event_row list \<Rightarrow> string \<Rightarrow> time \<Rightarrow> string \<Rightarrow> job_row list
    \<Rightarrow> job_claim option \<times> job_row list" where
  "claim evs scope now owner t =
     (let t = expire now t in
      case sort_key (job_seq evs) (filter (claimable evs scope now) t) of
        [] \<Rightarrow> (None, t)
      | r # _ \<Rightarrow> (Some \<lparr>jc_scope = scope, jc_event = jb_event r, jc_session = jb_session r,
                       jc_model = jb_model r, jc_owner = owner\<rparr>,
                  take_job owner now r t))"

definition mine :: "job_claim \<Rightarrow> job_row \<Rightarrow> bool" where
  "mine job r \<longleftrightarrow> job_key r = claim_key job \<and> jb_status r = ''running'' \<and> jb_owner r = Some (jc_owner job)"

definition finish :: "job_claim \<Rightarrow> string \<Rightarrow> string \<Rightarrow> job_row list \<Rightarrow> bool res \<times> job_row list" where
  "finish job status reason t =
     (if status \<notin> {''done'', ''failed'', ''paused'', ''pending''} then (Inl (ValueError ''invalid_job_outcome''), t)
      else
        let t = (if status = ''pending'' \<and> reason = ''foreground_priority''
                 then upd_where (mine job) (\<lambda>r. r\<lparr>jb_attempts := jb_attempts r - 1\<rparr>) t else t)
        in (Inr (length (filter (mine job) t) = 1),
            upd_where (mine job) (\<lambda>r. r\<lparr>jb_status := status, jb_reason := reason, jb_until := 0\<rparr>) t))"

definition queue_status :: "string \<Rightarrow> job_row list \<Rightarrow> (string \<times> nat) list" where
  "queue_status scope t =
     (let rows = filter (\<lambda>r. jb_scope r = scope) t
      in map (\<lambda>s. (s, length (filter (\<lambda>r. jb_status r = s) rows))) (remdups (map jb_status rows)))"

section \<open>Foreground priority\<close>

record waiter_row =
  wt_scope :: string
  wt_session :: string
  wt_owner :: string
  wt_until :: time

definition foreground_waiting :: "string \<Rightarrow> string \<Rightarrow> time \<Rightarrow> waiter_row list \<Rightarrow> bool" where
  "foreground_waiting scope session now ws =
     list_ex (\<lambda>w. wt_scope w = scope \<and> wt_session w = session \<and> now < wt_until w) ws"

text \<open>
  The judge that \<open>drain\<close> hands to the analysis: it re-reads the configuration and the
  waiters before every request and gives up by raising.
\<close>

definition config_model :: "dict \<Rightarrow> string" where
  "config_model cfg = (if truthy (dget cfg ''model'') then the_str (dget cfg ''model'') else ''codex_default'')"

definition background_on :: "dict option \<Rightarrow> bool" where
  "background_on cfg = (case cfg of None \<Rightarrow> False
     | Some c \<Rightarrow> c \<noteq> [] \<and> dget c ''background_provenance'' = JBool True)"

definition bounded_guard :: "dict option \<Rightarrow> string \<Rightarrow> bool \<Rightarrow> time \<Rightarrow> nat \<Rightarrow> unit res" where
  "bounded_guard live model waiting elapsed nbytes =
     (if \<not> background_on live then Inl BackgroundDisabled
      else if config_model (the live) \<noteq> model then Inl BackgroundDisabled
      else if waiting then Inl PriorityYield
      else if 480000 < elapsed \<or> 512000 < nbytes then Inl WorkBudget
      else Inr ())"

section \<open>The worker loop\<close>

text \<open>What one iteration of the loop sees of the workspace, and the answer of the analysis.\<close>

record job_view =
  jv_config :: "dict option"
  jv_phase :: "string option"
  jv_root :: "string option"
  jv_enabled :: "string option"

datatype drain_next = Continue nat | Break nat

definition run_job :: "job_view res \<Rightarrow> (job_claim \<Rightarrow> 'w \<Rightarrow> string res \<times> 'w) \<Rightarrow> job_claim \<Rightarrow> 'w
    \<Rightarrow> (string \<times> string \<times> drain_next) \<times> 'w" where
  "run_job view analysis job w =
     (case view of Inl e \<Rightarrow> ((''failed'', ''background_analysis_failed'', Continue 0), w)
      | Inr v \<Rightarrow>
      if \<not> background_on (jv_config v) then ((''paused'', ''background_disabled'', Continue 0), w)
      else if (case jv_phase v of None \<Rightarrow> False | Some p \<Rightarrow> p \<noteq> ''active'')
      then ((''paused'', ''authority_inactive'', Continue 0), w)
      else if jv_root v = None \<or> jv_enabled v \<noteq> jv_root v then ((''paused'', ''workspace_inactive'', Continue 0), w)
      else if config_model (the (jv_config v)) \<noteq> jc_model job then ((''paused'', ''model_changed'', Continue 0), w)
      else case analysis job w of
          (Inr action, w) \<Rightarrow>
            if action = ''unavailable'' then ((''paused'', ''analysis_incomplete'', Break 0), w)
            else ((''done'', [], Continue 1), w)
        | (Inl BackgroundDisabled, w) \<Rightarrow> ((''paused'', ''configuration_changed'', Continue 0), w)
        | (Inl WorkBudget, w) \<Rightarrow> ((''pending'', ''background_budget'', Break 0), w)
        | (Inl PriorityYield, w) \<Rightarrow> ((''pending'', ''foreground_priority'', Break 0), w)
        | (Inl _, w) \<Rightarrow> ((''failed'', ''background_analysis_failed'', Continue 0), w))"

text \<open>
  The environment of the loop: clock and fresh token for a claim, the view of the workspace,
  the analysis. Other workers write the table meanwhile: \<open>others\<close> is their effect, from
  the claim of a job to its end.
\<close>

record 'w drain_env =
  de_now :: "'w \<Rightarrow> time \<times> 'w"
  de_token :: "'w \<Rightarrow> string \<times> 'w"
  de_view :: "'w \<Rightarrow> job_view res \<times> 'w"
  de_analysis :: "job_claim \<Rightarrow> 'w \<Rightarrow> string res \<times> 'w"
  de_others :: "'w \<Rightarrow> job_row list \<Rightarrow> job_row list"

fun drain :: "'w drain_env \<Rightarrow> event_row list \<Rightarrow> string \<Rightarrow> nat \<Rightarrow> nat \<Rightarrow> job_row list \<Rightarrow> 'w
    \<Rightarrow> nat \<times> job_row list \<times> 'w" where
  "drain env evs scope 0 completed t w = (completed, t, w)"
| "drain env evs scope (Suc k) completed t w =
     (let (now, w) = de_now env w;
          (owner, w) = de_token env w
      in case claim evs scope now owner t of
           (None, t) \<Rightarrow> (completed, t, w)
         | (Some job, t) \<Rightarrow>
             (let (v, w) = de_view env w;
                  ((status, reason, go), w) = run_job v (de_analysis env) job w;
                  t = snd (finish job status reason (de_others env w t))
              in case go of
                   Continue n \<Rightarrow> drain env evs scope k (completed + n) t w
                 | Break n \<Rightarrow> (completed + n, t, w)))"

section \<open>The table under interleaved operations\<close>

datatype job_op =
    Enqueue event_row string
  | Claim "event_row list" string time string
  | Finish job_claim string string

fun apply_job :: "job_op \<Rightarrow> job_row list \<Rightarrow> job_row list" where
  "apply_job (Enqueue ev model) t = (case enqueue ev model t of Inl e \<Rightarrow> t | Inr t' \<Rightarrow> t')"
| "apply_job (Claim evs scope now owner) t = snd (claim evs scope now owner t)"
| "apply_job (Finish job status reason) t = snd (finish job status reason t)"

definition job_ok :: "job_row \<Rightarrow> bool" where
  "job_ok r \<longleftrightarrow> jb_attempts r \<le> 3 \<and>
     jb_status r \<in> {''pending'', ''running'', ''done'', ''failed'', ''paused''} \<and>
     (jb_status r = ''running'' \<longrightarrow> jb_owner r \<noteq> None \<and> 0 < jb_attempts r)"

definition jobs_ok :: "job_row list \<Rightarrow> bool" where
  "jobs_ok t \<longleftrightarrow> keys_unique job_key t \<and> list_all job_ok t"

text \<open>The row of a job is leased to \<open>owner\<close> until \<open>till\<close>.\<close>

definition held_job :: "string \<times> string \<times> string \<Rightarrow> string \<Rightarrow> time \<Rightarrow> job_row list \<Rightarrow> bool" where
  "held_job k owner till t \<longleftrightarrow> keys_unique job_key t \<and>
     (\<exists>r \<in> set t. job_key r = k \<and> jb_status r = ''running'' \<and> jb_owner r = Some owner \<and> jb_until r = till)"

text \<open>What the others may do meanwhile: claim before the lease ends, and finish their own jobs.\<close>

fun spares_job :: "string \<times> string \<times> string \<Rightarrow> string \<Rightarrow> time \<Rightarrow> job_op \<Rightarrow> bool" where
  "spares_job k owner till (Enqueue ev model) = True"
| "spares_job k owner till (Claim evs scope now o') = (now \<le> till)"
| "spares_job k owner till (Finish job status reason) = (claim_key job \<noteq> k \<or> jc_owner job \<noteq> owner)"

definition closes_job :: "string \<times> string \<times> string \<Rightarrow> string \<Rightarrow> job_row list \<Rightarrow> bool" where
  "closes_job k owner t \<longleftrightarrow> (\<forall>job status reason. claim_key job = k \<longrightarrow> jc_owner job = owner \<longrightarrow>
     status \<in> {''done'', ''failed'', ''paused'', ''pending''} \<longrightarrow> fst (finish job status reason t) = Inr True)"

lemma claim_cases:
  assumes "claim evs scope now owner t = (j, t')"
  obtains (none) "j = None" "t' = expire now t" "\<And>r. r \<in> set t' \<Longrightarrow> \<not> claimable evs scope now r"
  | (some) r where "r \<in> set (expire now t)" "claimable evs scope now r" "t' = take_job owner now r (expire now t)"
      "j = Some \<lparr>jc_scope = scope, jc_event = jb_event r, jc_session = jb_session r, jc_model = jb_model r, jc_owner = owner\<rparr>"
      "\<And>x. x \<in> set (expire now t) \<Longrightarrow> claimable evs scope now x \<Longrightarrow> job_seq evs r \<le> job_seq evs x"
proof (cases "sort_key (job_seq evs) (filter (claimable evs scope now) (expire now t))")
  case Nil
  then have "filter (claimable evs scope now) (expire now t) = []" by (metis length_0_conv length_sort)
  with assms Nil none show ?thesis by (auto simp: claim_def Let_def filter_empty_conv)
next
  case (Cons r rs)
  let ?l = "filter (claimable evs scope now) (expire now t)"
  have set: "set (r # rs) = set ?l" using Cons by (metis set_sort)
  have "sorted (map (job_seq evs) (r # rs))" using sorted_sort_key [of "job_seq evs" ?l] by (simp only: Cons)
  then have "job_seq evs r \<le> job_seq evs x" if "x \<in> set ?l" for x using that set by auto
  with set assms Cons some [of r] show ?thesis by (auto simp: claim_def Let_def)
qed

lemma expire_set: "x \<in> set (expire now t) \<Longrightarrow> \<exists>r \<in> set t. job_key x = job_key r \<and> jb_attempts x = jb_attempts r \<and>
    (x = r \<or> jb_status r = ''running'' \<and> jb_until r < now \<and> jb_status x = ''failed'' \<and> jb_owner x = jb_owner r)"
  unfolding expire_def set_upd_where by force

lemma expire_keeps: "r \<in> set t \<Longrightarrow> now \<le> jb_until r \<Longrightarrow> r \<in> set (expire now t)"
  unfolding expire_def set_upd_where by force

lemma expire_unique: "keys_unique job_key t \<Longrightarrow> keys_unique job_key (expire now t)"
  unfolding expire_def by (rule upd_where_unique) auto

lemma take_job_unique: "keys_unique job_key t \<Longrightarrow> keys_unique job_key (take_job owner now r t)"
  unfolding take_job_def by (rule upd_where_unique) auto

lemma take_job_keeps: "x \<in> set t \<Longrightarrow> job_key x \<noteq> job_key r \<Longrightarrow> x \<in> set (take_job owner now r t)"
  unfolding take_job_def by (rule upd_where_miss) auto

lemma finish_unique: "keys_unique job_key t \<Longrightarrow> keys_unique job_key (snd (finish job status reason t))"
  unfolding finish_def Let_def by (auto intro!: upd_where_unique)

lemma finish_keeps: "x \<in> set t \<Longrightarrow> \<not> mine job x \<Longrightarrow> x \<in> set (snd (finish job status reason t))"
  unfolding finish_def Let_def by (auto simp: set_upd_where intro!: exI [of _ x])

lemma enqueue_cases: "enqueue ev model t = Inr t' \<Longrightarrow> t' = t \<or> (\<exists>r. t' = ins_ignore job_key r t \<and> jb_status r = ''pending'' \<and> jb_attempts r = 0)"
  by (auto simp: enqueue_def split: if_splits option.splits)

lemma held_job_step:
  assumes "held_job k owner till t" and "spares_job k owner till x"
  shows "held_job k owner till (apply_job x t)"
proof -
  from assms(1) obtain r where u: "keys_unique job_key t" and r: "r \<in> set t" "job_key r = k"
    "jb_status r = ''running''" "jb_owner r = Some owner" "jb_until r = till"
    by (auto simp: held_job_def)
  show ?thesis
  proof (cases x)
    case (Enqueue ev model)
    show ?thesis
    proof (cases "enqueue ev model t")
      case (Inr t')
      with enqueue_cases have "t' = t \<or> (\<exists>n. t' = ins_ignore job_key n t)" by blast
      then have "keys_unique job_key t' \<and> r \<in> set t'"
        using u r(1) ins_ignore_unique [of job_key t] ins_ignore_mono [of t job_key] by blast
      with r Inr Enqueue show ?thesis by (auto simp: held_job_def)
    qed (use Enqueue assms in simp)
  next
    case (Claim evs scope now o')
    with assms(2) r(5) have now: "now \<le> jb_until r" by simp
    have r': "r \<in> set (expire now t)" by (rule expire_keeps [OF r(1) now])
    have u': "keys_unique job_key (expire now t)" by (rule expire_unique [OF u])
    obtain j t' where c: "claim evs scope now o' t = (j, t')" by fastforce
    then have "keys_unique job_key t' \<and> r \<in> set t'"
    proof (cases rule: claim_cases)
      case none
      with u' r' show ?thesis by simp
    next
      case (some y)
      have "\<not> claimable evs scope now r" using r(3) now by (auto simp: claimable_def)
      with some(2) have "y \<noteq> r" by blast
      then have n: "job_key y \<noteq> job_key r" using keys_unique_eq [OF u' some(1) r'] by blast
      have "r \<in> set t'" unfolding some(3) by (rule take_job_keeps [OF r' n [symmetric]])
      then show ?thesis unfolding some(3) using take_job_unique [OF u'] by blast
    qed
    with r c Claim show ?thesis by (auto simp: held_job_def)
  next
    case (Finish job status reason)
    with assms(2) r have "\<not> mine job r" by (auto simp: mine_def)
    then have "r \<in> set (snd (finish job status reason t))" by (rule finish_keeps [OF r(1)])
    with r(2-) finish_unique [OF u] Finish show ?thesis by (auto simp: held_job_def)
  qed
qed

lemma filter_mine_one:
  assumes "held_job k owner till t" and "claim_key job = k" and "jc_owner job = owner"
  shows "length (filter (mine job) t) = 1"
proof -
  from assms(1) obtain r where u: "keys_unique job_key t" and r: "r \<in> set t" "mine job r"
    using assms(2,3) by (auto simp: held_job_def mine_def)
  have one: "x = r" if "x \<in> set (filter (mine job) t)" for x
  proof -
    have "job_key x = job_key r" using that r(2) by (auto simp: mine_def)
    then show ?thesis using keys_unique_eq [OF u _ r(1)] that by simp
  qed
  have "distinct (filter (mine job) t)" using u by (simp add: distinct_map)
  then have "card (set (filter (mine job) t)) = length (filter (mine job) t)" by (rule distinct_card)
  moreover have "set (filter (mine job) t) = {r}"
    by (intro equalityI subsetI) (use one in blast, simp add: r)
  ultimately show ?thesis by (metis card_1_singleton_iff One_nat_def)
qed

lemma held_job_closes:
  assumes "held_job k owner till t"
  shows "closes_job k owner t"
proof -
  have "fst (finish job status reason t) = Inr True"
    if *: "claim_key job = k" "jc_owner job = owner" "status \<in> {''done'', ''failed'', ''paused'', ''pending''}"
    for job status reason
  proof -
    let ?u = "upd_where (mine job) (\<lambda>r. r\<lparr>jb_attempts := jb_attempts r - 1\<rparr>) t"
    have "length (filter (mine job) ?u) = length (filter (mine job) t)"
      by (induction t) (auto simp: upd_where_def mine_def)
    then show ?thesis using filter_mine_one [OF assms *(1,2)] *(3) by (simp add: finish_def Let_def)
  qed
  then show ?thesis by (simp add: closes_job_def)
qed

interpretation jobs: lease_table apply_job held_job spares_job closes_job
  by unfold_locales (rule held_job_step held_job_closes; assumption)+

lemma claim_holds:
  assumes "keys_unique job_key t" and "claim evs scope now owner t = (Some job, t')"
  shows "held_job (claim_key job) owner (now + LEASE_MS) t'"
  using assms(2)
proof (cases rule: claim_cases)
  case (some r)
  have "keys_unique job_key t'" unfolding some(3) by (intro take_job_unique expire_unique assms(1))
  moreover have "r\<lparr>jb_status := ''running'', jb_owner := Some owner, jb_until := now + LEASE_MS,
      jb_attempts := jb_attempts r + 1\<rparr> \<in> set t'"
    unfolding some(3) take_job_def by (rule upd_where_hit [OF some(1)]) simp
  moreover have "job_key r = claim_key job" using some(2,4) by (auto simp: claimable_def)
  ultimately show ?thesis unfolding held_job_def
    by (intro conjI bexI [of _ "r\<lparr>jb_status := ''running'', jb_owner := Some owner,
      jb_until := now + LEASE_MS, jb_attempts := jb_attempts r + 1\<rparr>"]) simp_all
qed simp

lemma held_not_reclaimed:
  assumes "held_job k owner till t" and "now \<le> till" and "claim evs scope now o' t = (Some job, t')"
  shows "claim_key job \<noteq> k"
  using assms(3)
proof (cases rule: claim_cases)
  case (some y)
  from assms(1) obtain r where u: "keys_unique job_key t" and r: "r \<in> set t" "job_key r = k"
    "jb_status r = ''running''" "jb_until r = till" by (auto simp: held_job_def)
  have r': "r \<in> set (expire now t)" by (rule expire_keeps) (use r assms(2) in auto)
  have "\<not> claimable evs scope now r" using r assms(2) by (auto simp: claimable_def)
  with some(2) have "y \<noteq> r" by blast
  then have "job_key y \<noteq> k"
    unfolding r(2) [symmetric] using keys_unique_eq [OF expire_unique [OF u] some(1) r'] by blast
  with some(2,4) show ?thesis by (auto simp: claimable_def)
qed simp

section \<open>The queue invariant\<close>

lemma list_all_upd_where:
  "list_all P t \<Longrightarrow> (\<And>x. x \<in> set t \<Longrightarrow> P x \<Longrightarrow> p x \<Longrightarrow> P (f x)) \<Longrightarrow> list_all P (upd_where p f t)"
  by (auto simp: list_all_iff set_upd_where)

lemma expire_ok: "list_all job_ok t \<Longrightarrow> list_all job_ok (expire now t)"
  unfolding expire_def by (rule list_all_upd_where) (auto simp: job_ok_def)

lemma jobs_ok_expire: "jobs_ok t \<Longrightarrow> jobs_ok (expire now t)"
  by (simp add: jobs_ok_def expire_unique expire_ok)

lemma jobs_ok_ins: "jobs_ok t \<Longrightarrow> job_ok r \<Longrightarrow> jobs_ok (ins_ignore job_key r t)"
  unfolding jobs_ok_def using ins_ignore_unique [of job_key t r] set_ins_ignore [of job_key r t]
  by (simp add: list_all_iff) blast

lemma jobs_ok_enqueue: "jobs_ok t \<Longrightarrow> enqueue ev model t = Inr t' \<Longrightarrow> jobs_ok t'"
  by (auto simp: enqueue_def job_ok_def intro!: jobs_ok_ins split: if_splits option.splits)

lemma jobs_ok_claim:
  assumes "jobs_ok t"
  shows "jobs_ok (snd (claim evs scope now owner t))"
proof -
  obtain j t' where c: "claim evs scope now owner t = (j, t')" by fastforce
  have e: "jobs_ok (expire now t)" by (rule jobs_ok_expire [OF assms])
  from c have "jobs_ok t'"
  proof (cases rule: claim_cases)
    case none
    with e show ?thesis by simp
  next
    case (some r)
    then have "jb_attempts r < 3" by (simp add: claimable_def)
    then have "list_all job_ok t'"
      unfolding some(3) take_job_def using e
      by (intro list_all_upd_where) (auto simp: jobs_ok_def job_ok_def)
    with e some(3) take_job_unique show ?thesis by (simp add: jobs_ok_def)
  qed
  with c show ?thesis by simp
qed

lemma jobs_ok_finish:
  assumes "jobs_ok t"
  shows "jobs_ok (snd (finish job status reason t))"
proof -
  let ?u = "upd_where (mine job) (\<lambda>r. r\<lparr>jb_attempts := jb_attempts r - 1\<rparr>) t"
  let ?f = "\<lambda>r. r\<lparr>jb_status := status, jb_reason := reason, jb_until := 0\<rparr>"
  let ?weak = "\<lambda>r. jb_attempts r \<le> 3 \<and> (mine job r \<or> job_ok r)"
  have w: "list_all ?weak t" using assms by (auto simp: jobs_ok_def job_ok_def list_all_iff)
  have "list_all ?weak ?u" by (rule list_all_upd_where [OF w]) (simp add: mine_def)
  note small = w this
  have fin: "list_all job_ok (upd_where (mine job) ?f v)"
    if weak: "list_all ?weak v" and status: "status \<in> {''done'', ''failed'', ''paused'', ''pending''}" for v
  proof -
    have f: "job_ok (?f x)" if "jb_attempts x \<le> 3" for x using status that by (elim insertE) (simp_all add: job_ok_def)
    have "job_ok (if mine job x then ?f x else x)" if "x \<in> set v" for x
    proof -
      from weak that have "jb_attempts x \<le> 3" "mine job x \<or> job_ok x" by (simp_all only: list_all_iff)
      then show ?thesis using f [of x] by presburger
    qed
    then show ?thesis unfolding list_all_iff set_upd_where by blast
  qed
  have "list_all job_ok (snd (finish job status reason t))"
  proof (cases "status \<in> {''done'', ''failed'', ''paused'', ''pending''}")
    case True
    show ?thesis using fin [OF small(1) True] fin [OF small(2) True] True
      by (simp only: finish_def Let_def if_False not_not simp_thms snd_conv split: if_split)
  next
    case False
    with assms show ?thesis by (simp only: finish_def if_True simp_thms snd_conv jobs_ok_def)
  qed
  with assms finish_unique show ?thesis by (simp add: jobs_ok_def)
qed

lemma jobs_ok_step: "jobs_ok t \<Longrightarrow> jobs_ok (apply_job x t)"
  using jobs_ok_enqueue jobs_ok_claim jobs_ok_finish by (cases x) (auto split: sum.splits)

section \<open>Properties\<close>

text \<open>
  C35. A claimed job is exclusive. From the claim on, whatever sequence of enqueues, claims made
  before the ten-minute lease ends and finishes under other tokens or of other jobs runs,
  nobody else is handed the same job, and the claimant's own finish is the one that takes effect.
\<close>

theorem claimed_job_is_exclusive:
  assumes "jobs_ok t" and "claim evs scope now owner t = (Some job, t')"
    and "list_all (spares_job (claim_key job) owner (now + LEASE_MS)) ops"
    and "status \<in> {''done'', ''failed'', ''paused'', ''pending''}"
  shows "fst (finish job status reason (fold apply_job ops t')) = Inr True \<and>
    (now' \<le> now + LEASE_MS \<longrightarrow>
     (\<forall>j. fst (claim evs' scope' now' owner' (fold apply_job ops t')) = Some j \<longrightarrow> claim_key j \<noteq> claim_key job))"
proof -
  have h: "held_job (claim_key job) owner (now + LEASE_MS) t'"
    using claim_holds [OF _ assms(2)] assms(1) unfolding jobs_ok_def by blast
  have o: "jc_owner job = owner" using assms(2) by (cases rule: claim_cases) auto
  from jobs.close_after_run [OF h assms(3)] o assms(4)
  have "fst (finish job status reason (fold apply_job ops t')) = Inr True" by (auto simp: closes_job_def)
  moreover have "claim_key j \<noteq> claim_key job"
    if n: "now' \<le> now + LEASE_MS" and j: "fst (claim evs' scope' now' owner' (fold apply_job ops t')) = Some j" for j
  proof -
    obtain t2 where c: "claim evs' scope' now' owner' (fold apply_job ops t') = (Some j, t2)"
      using j by (metis prod.collapse)
    show ?thesis by (rule held_not_reclaimed [OF jobs.held_run [OF h assms(3)] n c])
  qed
  ultimately show ?thesis by blast
qed

text \<open>
  C36. The queue stays well formed under every sequence of operations: one row per scope, event
  and model, a status of the five the table admits, an owner on every running job, and never
  more than three attempts, so a job that keeps losing its lease is not retried forever.
\<close>

theorem job_queue_stays_bounded:
  assumes "jobs_ok t"
  shows "jobs_ok (fold apply_job ops t)"
  using assms by (induction ops arbitrary: t) (auto intro: jobs_ok_step)

text \<open>
  A claim hands out the first claimable job in recording order, after jobs whose third
  lease ran out have been failed, and hands out nothing only if no job is claimable.
\<close>

theorem claim_takes_first_claimable:
  "case claim evs scope now owner t of
     (None, t') \<Rightarrow> t' = expire now t \<and> (\<forall>r \<in> set t'. \<not> claimable evs scope now r)
   | (Some j, t') \<Rightarrow> (\<exists>r \<in> set (expire now t). claimable evs scope now r \<and> job_key r = claim_key j \<and>
        t' = take_job owner now r (expire now t) \<and>
        (\<forall>x \<in> set (expire now t). claimable evs scope now x \<longrightarrow> job_seq evs r \<le> job_seq evs x))"
proof -
  obtain j t' where c: "claim evs scope now owner t = (j, t')" by fastforce
  then show ?thesis
  proof (cases rule: claim_cases)
    case (some r)
    then have "job_key r = claim_key (the j)" by (simp add: claimable_def)
    with some c show ?thesis by auto
  qed (use c in auto)
qed

definition sample_jobs :: "job_row list" where
  "sample_jobs = [\<lparr>jb_scope = ''w'', jb_event = ''e'', jb_session = ''s'', jb_model = ''m'', jb_status = ''running'',
     jb_owner = Some ''dead'', jb_until = 5, jb_attempts = 1, jb_reason = []\<rparr>]"

definition sample_event :: event_row where
  "sample_event = \<lparr>er_event = ''e'', er_phase = ''post_tool_use'', er_session = Some ''s'', er_tool_use = Some ''t'',
     er_tool_name = JStr ''Bash'', er_workspace = ''w'', er_root = ''/w'', er_execution_cwd = None, er_payload = [], er_seq = 7\<rparr>"

definition sample_job :: job_claim where
  "sample_job = \<lparr>jc_scope = ''w'', jc_event = ''e'', jc_session = ''s'', jc_model = ''m'', jc_owner = ''new''\<rparr>"

theorem claimed_job_is_exclusive_witness:
  "fst (finish sample_job ''done'' [] (fold apply_job
     [Finish (sample_job\<lparr>jc_owner := ''dead''\<rparr>) ''failed'' [], Claim [sample_event] ''w'' 600000 ''third'', Enqueue sample_event ''m'']
     (snd (claim [sample_event] ''w'' 10 ''new'' sample_jobs)))) = Inr True"
proof -
  let ?c = "claim [sample_event] ''w'' 10 ''new'' sample_jobs"
  have "fst ?c = Some sample_job" by code_simp
  then have c: "?c = (Some sample_job, snd ?c)" by (metis prod.collapse)
  have ok: "jobs_ok sample_jobs" by code_simp
  show ?thesis
    by (rule claimed_job_is_exclusive [OF ok c, THEN conjunct1])
       (simp_all add: sample_job_def LEASE_MS_def)
qed

theorem job_queue_stays_bounded_witness: "jobs_ok (fold apply_job [Enqueue sample_event ''m2''] sample_jobs)"
  by (rule job_queue_stays_bounded) code_simp

theorem claim_takes_first_claimable_witness:
  "\<exists>r \<in> set (expire 10 sample_jobs). claimable [sample_event] ''w'' 10 r \<and> job_key r = claim_key sample_job"
proof -
  have "fst (claim [sample_event] ''w'' 10 ''new'' sample_jobs) = Some sample_job" by code_simp
  then obtain t' where "claim [sample_event] ''w'' 10 ''new'' sample_jobs = (Some sample_job, t')"
    by (metis prod.collapse)
  then show ?thesis using claim_takes_first_claimable [where evs = "[sample_event]" and scope = "''w''" and now = 10 and owner = "''new''" and t = sample_jobs] by auto
qed

end
