(* ===== verification/Session_Lock.thy ===== *)
theory Session_Lock
  imports Effects Jobs
begin

text \<open>
  \<open>engine/runtime.py\<close>, \<open>session_lock\<close>: the process lock that serialises the graph analyses of one
  session. A foreground delivery announces itself in the table \<open>flow_foreground_waiters\<close>, polls
  the lock for at most two minutes and withdraws the announcement once it holds the lock and once
  more at the end; a background analysis yields at once. The lock file, the table and the clocks
  are in a world that other processes change; \<open>sl_waiters\<close> and \<open>sl_put\<close> read and write the table.
  Times are milliseconds.
\<close>

record 'w lock_env =
  sl_hash :: hash
  sl_clock :: "'w \<Rightarrow> time \<times> 'w"
  sl_wall :: "'w \<Rightarrow> time \<times> 'w"
  sl_sleep :: "time \<Rightarrow> 'w \<Rightarrow> 'w"
  sl_token :: "'w \<Rightarrow> string \<times> 'w"
  sl_begin :: "'w \<Rightarrow> unit res \<times> 'w"
  sl_waiters :: "'w \<Rightarrow> waiter_row list"
  sl_put :: "waiter_row list \<Rightarrow> 'w \<Rightarrow> 'w"
  sl_directory :: "'w \<Rightarrow> unit res \<times> 'w"
  sl_open :: "string \<Rightarrow> 'w \<Rightarrow> unit res \<times> 'w"
  sl_flock :: "string \<Rightarrow> 'w \<Rightarrow> bool res \<times> 'w"
  sl_unlock :: "string \<Rightarrow> 'w \<Rightarrow> unit res \<times> 'w"
  sl_close :: "string \<Rightarrow> 'w \<Rightarrow> unit res \<times> 'w"

text \<open>A step that cannot fail.\<close>

definition tick :: "('w \<Rightarrow> 'a \<times> 'w) \<Rightarrow> ('w, 'a) act" where
  "tick f w = (let (x, w) = f w in (Inr x, w))"

section \<open>The announcement\<close>

definition insert_waiter :: "waiter_row \<Rightarrow> waiter_row list \<Rightarrow> waiter_row list res" where
  "insert_waiter r t =
     (if list_ex (\<lambda>x. wt_owner x = wt_owner r) t
      then Inl (SqliteError ''UNIQUE constraint failed: flow_foreground_waiters.owner'') else Inr (t @ [r]))"

definition WAIT :: time where "WAIT = 120000"

definition announce :: "'w lock_env \<Rightarrow> string \<Rightarrow> string \<Rightarrow> string \<Rightarrow> ('w, unit) act" where
  "announce e ws sess owner =
     bind (sl_begin e) (\<lambda>u.
     bind (tick (sl_wall e)) (\<lambda>now.
     bind (tick (sl_wall e)) (\<lambda>now2.
     bind (gets (sl_waiters e)) (\<lambda>t.
     bind (pure (insert_waiter \<lparr>wt_scope = ws, wt_session = sess, wt_owner = owner, wt_until = now2 + WAIT\<rparr>
              (del_where (\<lambda>r. wt_until r < now) t))) (\<lambda>t.
       modify (sl_put e t))))))"

definition withdraw :: "'w lock_env \<Rightarrow> string \<Rightarrow> ('w, unit) act" where
  "withdraw e owner = bind (sl_begin e) (\<lambda>u. modify (\<lambda>w. sl_put e (del_where (\<lambda>r. wt_owner r = owner) (sl_waiters e w)) w))"

text \<open>\<open>foreground_waiting\<close>, on the table as the world has it.\<close>

definition someone_waits :: "'w lock_env \<Rightarrow> string \<Rightarrow> string \<Rightarrow> ('w, bool) act" where
  "someone_waits e ws sess =
     bind (sl_begin e) (\<lambda>u. bind (tick (sl_wall e)) (\<lambda>now. gets (\<lambda>w. foreground_waiting ws sess now (sl_waiters e w))))"

section \<open>The lock\<close>

text \<open>The polling loop; \<open>POLLS\<close> rounds of 50 ms are more than the two minutes it may last.\<close>

fun poll_lock :: "'w lock_env \<Rightarrow> string \<Rightarrow> bool \<Rightarrow> time \<Rightarrow> nat \<Rightarrow> ('w, unit) act" where
  "poll_lock e name background deadline 0 = raise (OtherError ''fuel'')"
| "poll_lock e name background deadline (Suc n) =
     bind (sl_flock e name) (\<lambda>got.
       if got then ret ()
       else if background then raise PriorityYield
       else
         bind (tick (sl_clock e)) (\<lambda>now.
           if deadline \<le> now then raise (GraphUnavailable ''session_analysis_busy'')
           else bind (modify (sl_sleep e 50)) (\<lambda>u. poll_lock e name background deadline n)))"

definition POLLS :: nat where "POLLS = 2402"

definition take_lock :: "'w lock_env \<Rightarrow> string \<Rightarrow> bool \<Rightarrow> ('w, unit) act" where
  "take_lock e name background =
     bind (tick (sl_clock e)) (\<lambda>now. poll_lock e name background (now + WAIT) POLLS)"

definition lock_name :: "'w lock_env \<Rightarrow> string \<Rightarrow> string \<Rightarrow> string" where
  "lock_name e ws sess = digest (sl_hash e) (JArr [JStr ws, JStr sess])"

text \<open>\<open>out\<close> carries a step of the world into the state of the body.\<close>

definition session_lock :: "'w lock_env \<Rightarrow> (('w, unit) act \<Rightarrow> ('s, unit) act) \<Rightarrow> (('w, string) act \<Rightarrow> ('s, string) act)
    \<Rightarrow> string \<Rightarrow> string \<Rightarrow> bool \<Rightarrow> ('s, 'a) act \<Rightarrow> ('s, 'a) act" where
  "session_lock e out out_text ws sess background body =
     (let name = lock_name e ws sess;
          foreground = (\<lambda>m. if background then ret () else out m)
      in bind (out (sl_directory e)) (\<lambda>u.
         bind (out_text (tick (sl_token e))) (\<lambda>owner.
         bind (foreground (announce e ws sess owner)) (\<lambda>u.
           ensure
             (bind (out (sl_open e name)) (\<lambda>u.
               ensure
                 (bind (out (take_lock e name background)) (\<lambda>u.
                  bind (foreground (withdraw e owner)) (\<lambda>u.
                    ensure body (out (sl_unlock e name)))))
                 (out (sl_close e name))))
             (foreground (withdraw e owner))))))"

text \<open>Up to the body, and after it.\<close>

definition took_lock :: "'w lock_env \<Rightarrow> (('w, unit) act \<Rightarrow> ('s, unit) act) \<Rightarrow> (('w, string) act \<Rightarrow> ('s, string) act)
    \<Rightarrow> string \<Rightarrow> string \<Rightarrow> bool \<Rightarrow> string \<Rightarrow> 's \<Rightarrow> 's \<Rightarrow> bool" where
  "took_lock e out out_text ws sess background owner s t \<longleftrightarrow> (\<exists>s1 s2 s3 s4 s5. out (sl_directory e) s = (Inr (), s1) \<and>
     out_text (tick (sl_token e)) s1 = (Inr owner, s2) \<and>
     (if background then ret () else out (announce e ws sess owner)) s2 = (Inr (), s3) \<and>
     out (sl_open e (lock_name e ws sess)) s3 = (Inr (), s4) \<and> out (take_lock e (lock_name e ws sess) background) s4 = (Inr (), s5) \<and>
     (if background then ret () else out (withdraw e owner)) s5 = (Inr (), t))"

definition left_lock :: "'w lock_env \<Rightarrow> (('w, unit) act \<Rightarrow> ('s, unit) act) \<Rightarrow> string \<Rightarrow> string \<Rightarrow> bool \<Rightarrow> string \<Rightarrow> 's \<Rightarrow> 's \<Rightarrow> bool" where
  "left_lock e out ws sess background owner s t \<longleftrightarrow> (\<exists>s1 s2. out (sl_unlock e (lock_name e ws sess)) s = (Inr (), s1) \<and>
     out (sl_close e (lock_name e ws sess)) s1 = (Inr (), s2) \<and> (if background then ret () else out (withdraw e owner)) s2 = (Inr (), t))"

lemma ex_unit: "(\<exists>u. P u) \<longleftrightarrow> P ()"
  by (metis old.unit.exhaust)

lemma session_lock_Inr:
  assumes "session_lock e out out_text ws sess background body s = (Inr x, t)"
  shows "\<exists>owner s1 s2. took_lock e out out_text ws sess background owner s s1 \<and> body s1 = (Inr x, s2) \<and>
    left_lock e out ws sess background owner s2 t"
  using assms unfolding session_lock_def Let_def bind_Inr ensure_Inr took_lock_def left_lock_def ex_unit by blast

section \<open>Waiting ends\<close>

text \<open>If the clock never runs backwards and a sleep of 50 ms lasts that long, the fuel is enough: the
  loop ends by taking the lock, by yielding, by the deadline or by an error of the lock itself.\<close>

lemma poll_lock_ends:
  fixes clk :: "'w \<Rightarrow> time"
  assumes clock: "\<And>w t w'. sl_clock e w = (t, w') \<Longrightarrow> clk w \<le> t \<and> t \<le> clk w'"
    and sleep: "\<And>w. clk w + 50 \<le> clk (sl_sleep e 50 w)"
    and flock: "\<And>w r w'. sl_flock e name w = (r, w') \<Longrightarrow> clk w \<le> clk w'"
    and "deadline - clk w < 50 * int n" and "poll_lock e name background deadline (Suc n) w = (r, w')" and "r = Inl (OtherError ''fuel'')"
  shows "\<exists>w w'. sl_flock e name w = (Inl (OtherError ''fuel''), w')"
  using assms(4,5)
proof (induction n arbitrary: w)
  case 0
  obtain g w1 where g: "sl_flock e name w = (g, w1)" by fastforce
  obtain now w2 where c: "sl_clock e w1 = (now, w2)" by fastforce
  from flock [OF g] clock [OF c] 0(1) have "deadline \<le> now" by simp
  with 0(2) g c assms(6) show ?case
    by (cases g) (auto simp: bind_def ret_def raise_def tick_def split: if_splits)
next
  case (Suc n)
  obtain g w1 where g: "sl_flock e name w = (g, w1)" by fastforce
  obtain now w2 where c: "sl_clock e w1 = (now, w2)" by fastforce
  show ?case
  proof (cases "g = Inr False \<and> \<not> background \<and> now < deadline")
    case True
    with Suc.prems(2) g c have p: "poll_lock e name background deadline (Suc n) (sl_sleep e 50 w2) = (r, w')"
      by (simp add: bind_def ret_def raise_def tick_def modify_def del: poll_lock.simps) (simp add: bind_def tick_def modify_def)
    have "deadline - clk (sl_sleep e 50 w2) < 50 * int n"
      using Suc.prems(1) flock [OF g] clock [OF c] sleep [of w2] by simp
    from Suc.IH [OF this p] show ?thesis .
  next
    case False
    with Suc.prems(2) g c assms(6) show ?thesis
      by (cases g) (auto simp: bind_def ret_def raise_def tick_def split: if_splits)
  qed
qed

lemma take_lock_ends:
  fixes clk :: "'w \<Rightarrow> time"
  assumes clock: "\<And>w t w'. sl_clock e w = (t, w') \<Longrightarrow> clk w \<le> t \<and> t \<le> clk w'"
    and sleep: "\<And>w. clk w + 50 \<le> clk (sl_sleep e 50 w)"
    and flock: "\<And>w r w'. sl_flock e name w = (r, w') \<Longrightarrow> clk w \<le> clk w' \<and> r \<noteq> Inl (OtherError ''fuel'')"
    and run: "take_lock e name background w = (r, w')"
  shows "r \<noteq> Inl (OtherError ''fuel'')"
proof
  assume r: "r = Inl (OtherError ''fuel'')"
  obtain now w1 where c: "sl_clock e w = (now, w1)" by fastforce
  from run c have p: "poll_lock e name background (now + WAIT) (Suc 2401) w1 = (r, w')"
    by (simp add: take_lock_def bind_def tick_def POLLS_def del: poll_lock.simps)
  from clock [OF c] have "now + WAIT - clk w1 < 50 * int 2401" by (simp add: WAIT_def)
  then have "\<exists>w w'. sl_flock e name w = (Inl (OtherError ''fuel''), w')"
    by (rule poll_lock_ends [where clk = clk, rotated 3]) (use clock sleep flock p r in blast)+
  with flock show False by blast
qed

text \<open>C39. Waiting for the session's lock ends. Whoever holds the lock and however it is handed over,
  a delivery whose clock never runs backwards leaves the polling loop: it holds the lock, or the
  two minutes are over, or it is a background analysis and yields, or the lock itself failed; the
  loop is never cut short by its fuel.\<close>

theorem waiting_for_the_lock_ends:
  fixes clk :: "'w \<Rightarrow> time"
  assumes "\<And>w t w'. sl_clock e w = (t, w') \<Longrightarrow> clk w \<le> t \<and> t \<le> clk w'"
    and "\<And>w. clk w + 50 \<le> clk (sl_sleep e 50 w)"
    and "\<And>w r w'. sl_flock e name w = (r, w') \<Longrightarrow> clk w \<le> clk w' \<and> r \<noteq> Inl (OtherError ''fuel'')"
  shows "fst (take_lock e name background w) \<noteq> Inl (OtherError ''fuel'')"
proof -
  have r: "take_lock e name background w = (fst (take_lock e name background w), snd (take_lock e name background w))" by simp
  show ?thesis by (rule take_lock_ends [where clk = clk, OF _ _ _ r]) (use assms in blast)+
qed

text \<open>A lock that is never released, in a world that is its own clock.\<close>

definition stuck_lock :: "int lock_env" where
  "stuck_lock = \<lparr>sl_hash = (\<lambda>b. ''h''), sl_clock = (\<lambda>w. (w, w)), sl_wall = (\<lambda>w. (w, w)), sl_sleep = (\<lambda>t w. w + t),
     sl_token = (\<lambda>w. (''o'', w)), sl_begin = (\<lambda>w. (Inr (), w)), sl_waiters = (\<lambda>w. []), sl_put = (\<lambda>t w. w),
     sl_directory = (\<lambda>w. (Inr (), w)), sl_open = (\<lambda>n w. (Inr (), w)), sl_flock = (\<lambda>n w. (Inr False, w)),
     sl_unlock = (\<lambda>n w. (Inr (), w)), sl_close = (\<lambda>n w. (Inr (), w))\<rparr>"

theorem waiting_for_the_lock_ends_witness:
  "fst (take_lock stuck_lock ''n'' False 0) \<noteq> Inl (OtherError ''fuel'') \<and>
   fst (take_lock stuck_lock ''n'' True 0) = Inl PriorityYield"
proof -
  have "fst (take_lock stuck_lock ''n'' b 0) \<noteq> Inl (OtherError ''fuel'')" for b
    by (rule waiting_for_the_lock_ends [where clk = "\<lambda>w. w"]) (auto simp: stuck_lock_def)
  moreover have "fst (take_lock stuck_lock ''n'' True 0) = Inl PriorityYield"
    by (simp add: take_lock_def POLLS_def eval_nat_numeral bind_def tick_def raise_def stuck_lock_def)
  ultimately show ?thesis by blast
qed

end
