(* ===== verification/Pending.thy ===== *)
theory Pending
  imports Lease Events
begin

text \<open>
  \<open>engine/pending.py\<close>: the retry protocol of a judgment. A delivery of an event takes the
  event's row under a lease, runs the judgment until it is complete, its budget is spent or
  it gives up, records every attempt, and answers a permission only once the attempt that
  gave it is stored. Everything outside the module is an environment step: the clocks, the
  sleep and the judgment (during which other deliveries may write the table), and whether a
  transaction can be opened and committed. Loops carry fuel; \<open>decide_returns\<close> shows how
  much is enough.
\<close>

record pend_row =
  pj_event :: string
  pj_ws :: string
  pj_sess :: string
  pj_state :: string
  pj_owner :: "string option"
  pj_until :: time
  pj_attempts :: nat
  pj_retry :: time
  pj_result :: dict
  pj_held :: bool

record pend_db =
  p_rows :: "pend_row list"
  p_attempts :: "(string \<times> nat \<times> dict) list"

section \<open>The transactions\<close>

definition busy :: "string \<Rightarrow> time \<Rightarrow> pend_db \<Rightarrow> bool" where
  "busy event now db = (case find (\<lambda>r. pj_event r = event) (p_rows db) of
      None \<Rightarrow> False | Some r \<Rightarrow> pj_state r = ''running'' \<and> now < pj_until r)"

definition take_pending :: "event_row \<Rightarrow> string \<Rightarrow> time \<Rightarrow> pend_db \<Rightarrow> pend_db" where
  "take_pending ev owner till db = db\<lparr>p_rows :=
     (if list_ex (\<lambda>r. pj_event r = er_event ev) (p_rows db)
      then upd_where (\<lambda>r. pj_event r = er_event ev)
             (\<lambda>r. r\<lparr>pj_state := ''running'', pj_owner := Some owner, pj_until := till\<rparr>) (p_rows db)
      else p_rows db @ [\<lparr>pj_event = er_event ev, pj_ws = er_workspace ev,
             pj_sess = (case er_session ev of None \<Rightarrow> [] | Some s \<Rightarrow> s), pj_state = ''running'',
             pj_owner = Some owner, pj_until = till, pj_attempts = 0, pj_retry = 0, pj_result = [],
             pj_held = False\<rparr>])\<rparr>"

definition owned :: "string \<Rightarrow> string \<Rightarrow> pend_row \<Rightarrow> bool" where
  "owned event owner r \<longleftrightarrow> pj_event r = event \<and> pj_owner r = Some owner"

definition set_result :: "string \<Rightarrow> string \<Rightarrow> nat \<Rightarrow> dict \<Rightarrow> string \<Rightarrow> pend_row list \<Rightarrow> pend_row list" where
  "set_result event owner count result state rows = upd_where (owned event owner)
     (\<lambda>r. r\<lparr>pj_attempts := count, pj_result := result, pj_state := state\<rparr>) rows"

text \<open>
  Recording an attempt: \<open>None\<close> when the row is no longer owned, an error when the attempt
  number is taken, else the number and the new tables.
\<close>

definition record_attempt :: "string \<Rightarrow> string \<Rightarrow> dict \<Rightarrow> bool \<Rightarrow> pend_db \<Rightarrow> (nat \<times> pend_db) option res" where
  "record_attempt event owner result complete db =
     (case find (owned event owner) (p_rows db) of
        None \<Rightarrow> Inr None
      | Some r \<Rightarrow>
          (let count = pj_attempts r + 1
           in if list_ex (\<lambda>(e, n, _). e = event \<and> n = count) (p_attempts db)
              then Inl (SqliteError ''UNIQUE constraint failed: judgment_attempts.event, judgment_attempts.attempt'')
              else Inr (Some (count, db\<lparr>p_attempts := p_attempts db @ [(event, count, result)],
                p_rows := set_result event owner count result
                  (if complete then ''complete'' else ''running'') (p_rows db)\<rparr>))))"

definition retry_delay :: "nat \<Rightarrow> time" where
  "retry_delay count = 1000 * min 300 (5 * 2 ^ min (count div 3) 6)"

definition release_pending :: "string \<Rightarrow> string \<Rightarrow> string \<Rightarrow> time \<Rightarrow> pend_db \<Rightarrow> pend_db" where
  "release_pending event owner state retry_at db = db\<lparr>p_rows := upd_where (owned event owner)
     (\<lambda>r. r\<lparr>pj_state := state, pj_held := True, pj_until := 0, pj_retry := retry_at\<rparr>) (p_rows db)\<rparr>"

section \<open>The protocol\<close>

record 'w pend_env =
  pe_clock :: "'w \<Rightarrow> time \<times> 'w"
  pe_wall :: "'w \<Rightarrow> time \<times> 'w"
  pe_sleep :: "time \<Rightarrow> pend_db \<Rightarrow> 'w \<Rightarrow> pend_db \<times> 'w"
  pe_tx :: "'w \<Rightarrow> bool \<times> 'w"
  pe_operation :: "time \<Rightarrow> pend_db \<Rightarrow> 'w \<Rightarrow> json res \<times> pend_db \<times> 'w"

definition answer :: "string \<Rightarrow> string \<Rightarrow> dict" where
  "answer action reason = [(''action'', JStr action), (''reason'', JStr reason), (''path'', JArr []), (''node_id'', JNull)]"

definition action_in :: "string list \<Rightarrow> dict \<Rightarrow> bool" where
  "action_in acts d \<longleftrightarrow> (case dget d ''action'' of JStr a \<Rightarrow> a \<in> set acts | _ \<Rightarrow> False)"

definition checked_result :: "json res \<Rightarrow> dict" where
  "checked_result r = (case r of
      Inl e \<Rightarrow> answer ''unavailable'' ''judgment_attempt_failed''
    | Inr (JObj d) \<Rightarrow> if action_in [''allow'', ''block'', ''unavailable''] d then d
                      else answer ''unavailable'' ''judgment_invalid_result''
    | Inr _ \<Rightarrow> answer ''unavailable'' ''judgment_invalid_result'')"

definition LEASE_WALL :: time where
  "LEASE_WALL = 700000"

datatype acquired = Acquired | WaitBudget | NoStorage | AcquireFuel

fun acquire :: "'w pend_env \<Rightarrow> event_row \<Rightarrow> string \<Rightarrow> time \<Rightarrow> nat \<Rightarrow> pend_db \<Rightarrow> 'w \<Rightarrow> acquired \<times> pend_db \<times> 'w" where
  "acquire env ev owner deadline 0 db w = (AcquireFuel, db, w)"
| "acquire env ev owner deadline (Suc n) db w =
     (let (ok, w) = pe_tx env w in
      if \<not> ok then (NoStorage, db, w)
      else
        let (now, w) = pe_wall env w in
        if \<not> busy (er_event ev) now db then
          let (now, w) = pe_wall env w in (Acquired, take_pending ev owner (now + LEASE_WALL) db, w)
        else
          let (t, w) = pe_clock env w in
          if deadline \<le> t then (WaitBudget, db, w)
          else
            let (t, w) = pe_clock env w;
                (db, w) = pe_sleep env (min 100 (max 0 (deadline - t))) db w
            in acquire env ev owner deadline n db w)"

datatype ended = Returned dict | Broke nat dict | Failed | OutOfFuel

definition retry_scoped :: "dict \<Rightarrow> bool" where
  "retry_scoped d \<longleftrightarrow> (case dget d ''retry_scope'' of JStr s \<Rightarrow> s = ''provider'' \<or> s = ''review'' | _ \<Rightarrow> False)"

fun attempts_loop :: "'w pend_env \<Rightarrow> string \<Rightarrow> string \<Rightarrow> time \<Rightarrow> nat \<Rightarrow> nat \<Rightarrow> nat \<Rightarrow> nat \<Rightarrow> dict
    \<Rightarrow> pend_db \<Rightarrow> 'w \<Rightarrow> ended \<times> pend_db \<times> 'w" where
  "attempts_loop env event owner deadline max_attempts 0 attempt count result db w = (OutOfFuel, db, w)"
| "attempts_loop env event owner deadline max_attempts (Suc n) attempt count result db w =
     (let (t, w) = pe_clock env w in
      if deadline \<le> t then (Broke count result, db, w)
      else
        let (r, db, w) = pe_operation env deadline db w;
            result = checked_result r;
            complete = action_in [''allow'', ''block''] result;
            (ok, w) = pe_tx env w
        in if \<not> ok then (Failed, db, w)
           else case record_attempt event owner result complete db of
               Inl e \<Rightarrow> (Failed, db, w)
             | Inr None \<Rightarrow> (Returned (answer ''pending'' ''judgment_ownership_changed''), db, w)
             | Inr (Some (count, db)) \<Rightarrow>
                 if complete then (Returned result, db, w)
                 else if dget result ''retryable'' = JBool False then (Broke count result, db, w)
                 else if \<not> retry_scoped result \<and> max_attempts \<le> Suc attempt then (Broke count result, db, w)
                 else
                   let (t, w) = pe_clock env w;
                       (db, w) = pe_sleep env (min (1000 * 2 ^ min attempt 5) (max 0 (deadline - t))) db w
                   in attempts_loop env event owner deadline max_attempts n (Suc attempt) count result db w)"

definition decide :: "'w pend_env \<Rightarrow> event_row \<Rightarrow> string \<Rightarrow> nat \<Rightarrow> time \<Rightarrow> nat \<Rightarrow> pend_db \<Rightarrow> 'w
    \<Rightarrow> dict option \<times> pend_db \<times> 'w" where
  "decide env ev owner max_attempts budget fuel db w =
     (let (t, w) = pe_clock env w; deadline = t + budget in
      case acquire env ev owner deadline fuel db w of
        (AcquireFuel, db, w) \<Rightarrow> (None, db, w)
      | (NoStorage, db, w) \<Rightarrow> (Some (answer ''pending'' ''judgment_state_unavailable''), db, w)
      | (WaitBudget, db, w) \<Rightarrow> (Some (answer ''pending'' ''judgment_wait_budget''), db, w)
      | (Acquired, db, w) \<Rightarrow>
        (case attempts_loop env (er_event ev) owner deadline max_attempts fuel 0 0
                (answer ''unavailable'' ''judgment_budget'') db w of
           (OutOfFuel, db, w) \<Rightarrow> (None, db, w)
         | (Failed, db, w) \<Rightarrow> (Some (answer ''pending'' ''judgment_state_unavailable''), db, w)
         | (Returned d, db, w) \<Rightarrow> (Some d, db, w)
         | (Broke count result, db, w) \<Rightarrow>
             (let (ok, w) = pe_tx env w in
              if \<not> ok then (Some (answer ''pending'' ''judgment_state_unavailable''), db, w)
              else
                let (now, w) = pe_wall env w;
                    state = (if dget result ''retryable'' = JBool False then ''needs_evidence'' else ''waiting'')
                in (Some (dict_set ''action'' (JStr ''pending'') result),
                    release_pending (er_event ev) owner state (now + retry_delay count) db, w))))"

section \<open>Resuming saved judgments\<close>

definition pending_status :: "string \<Rightarrow> pend_db \<Rightarrow> (string \<times> nat) list" where
  "pending_status ws db =
     (let rows = filter (\<lambda>r. pj_ws r = ws) (p_rows db)
      in map (\<lambda>s. (s, length (filter (\<lambda>r. pj_state r = s) rows))) (remdups (map pj_state rows)))"

definition due :: "string \<Rightarrow> time \<Rightarrow> pend_row \<Rightarrow> bool" where
  "due ws now r \<longleftrightarrow> pj_ws r = ws \<and>
     (pj_state r = ''waiting'' \<and> pj_retry r \<le> now \<or> pj_state r = ''running'' \<and> pj_until r \<le> now)"

record resume_view =
  rs_phase :: "string option"
  rs_config :: "dict option"
  rs_enabled :: "string option"

text \<open>The guards between the authority lease and the judgment; \<open>None\<close> skips the event.\<close>

definition resumable :: "resume_view \<Rightarrow> event_row list \<Rightarrow> string \<Rightarrow> string \<Rightarrow> event_row option" where
  "resumable v evs ws event =
     (if (case rs_phase v of None \<Rightarrow> False | Some p \<Rightarrow> p \<noteq> ''active'') then None
      else if (case rs_config v of None \<Rightarrow> True | Some c \<Rightarrow> c = []) then None
      else case find (\<lambda>r. er_event r = event \<and> er_workspace r = ws) evs of
          None \<Rightarrow> None
        | Some row \<Rightarrow> if er_phase row \<noteq> ''pre_tool_use'' then None
                      else if rs_enabled v \<noteq> Some (er_root row) then None
                      else Some row)"

fun resume_events :: "'w pend_env \<Rightarrow> (event_row \<Rightarrow> time \<Rightarrow> pend_db \<Rightarrow> 'w \<Rightarrow> json res \<times> pend_db \<times> 'w)
    \<Rightarrow> (string \<Rightarrow> 'w \<Rightarrow> resume_view res \<times> 'w) \<Rightarrow> ('w \<Rightarrow> string \<times> 'w) \<Rightarrow> event_row list \<Rightarrow> string \<Rightarrow> nat
    \<Rightarrow> string list \<Rightarrow> nat \<Rightarrow> pend_db \<Rightarrow> 'w \<Rightarrow> nat option res \<times> pend_db \<times> 'w" where
  "resume_events env evaluate view token evs ws fuel [] completed db w = (Inr (Some completed), db, w)"
| "resume_events env evaluate view token evs ws fuel (event # events) completed db w =
     (case view event w of
        (Inl e, w) \<Rightarrow> (Inl e, db, w)
      | (Inr v, w) \<Rightarrow>
        (case resumable v evs ws event of
           None \<Rightarrow> resume_events env evaluate view token evs ws fuel events completed db w
         | Some row \<Rightarrow>
             (let (owner, w) = token w in
              case decide (env\<lparr>pe_operation := evaluate row\<rparr>) row owner 3 480000 fuel db w of
                (None, db, w) \<Rightarrow> (Inr None, db, w)
              | (Some d, db, w) \<Rightarrow> resume_events env evaluate view token evs ws fuel events
                    (if action_in [''allow'', ''block''] d then Suc completed else completed) db w)))"

definition resume :: "'w pend_env \<Rightarrow> (event_row \<Rightarrow> time \<Rightarrow> pend_db \<Rightarrow> 'w \<Rightarrow> json res \<times> pend_db \<times> 'w)
    \<Rightarrow> (string \<Rightarrow> 'w \<Rightarrow> resume_view res \<times> 'w) \<Rightarrow> ('w \<Rightarrow> string \<times> 'w) \<Rightarrow> event_row list \<Rightarrow> string \<Rightarrow> nat \<Rightarrow> time
    \<Rightarrow> nat \<Rightarrow> pend_db \<Rightarrow> 'w \<Rightarrow> nat option res \<times> pend_db \<times> 'w" where
  "resume env evaluate view token evs ws max_jobs now fuel db w =
     (if pending_status ws db = [] then (Inr (Some 0), db, w)
      else resume_events env evaluate view token evs ws fuel
             (map pj_event (take max_jobs (sort_key pj_retry (filter (due ws now) (p_rows db))))) 0 db w)"

section \<open>The row under interleaved deliveries\<close>











section \<open>What an answer means\<close>

definition stored :: "string \<Rightarrow> string \<Rightarrow> dict \<Rightarrow> pend_db \<Rightarrow> bool" where
  "stored event owner d db \<longleftrightarrow> list_ex (\<lambda>r. owned event owner r \<and> pj_state r = ''complete'' \<and> pj_result r = d \<and>
     (event, pj_attempts r, d) \<in> set (p_attempts db)) (p_rows db)"

lemma action_in_answer [simp]: "action_in acts (answer a r) = (a \<in> set acts)"
  by (simp add: action_in_def answer_def dget_or_def)

lemma action_in_dict_set [simp]: "action_in acts (dict_set ''action'' (JStr a) d) = (a \<in> set acts)"
  by (simp add: action_in_def)

lemma checked_result_action: "action_in [''allow'', ''block''] (checked_result r) \<Longrightarrow> r = Inr (JObj (checked_result r))"
  by (auto simp: checked_result_def split: sum.splits json.splits if_splits)

lemma record_attempt_stored:
  assumes "record_attempt event owner d True db = Inr (Some (n, db'))"
  shows "stored event owner d db'"
proof -
  from assms obtain r where "find (owned event owner) (p_rows db) = Some r"
    and n: "n = pj_attempts r + 1" and db: "db' = db\<lparr>p_attempts := p_attempts db @ [(event, n, d)],
      p_rows := set_result event owner n d ''complete'' (p_rows db)\<rparr>"
    by (auto simp: record_attempt_def Let_def split: option.splits if_splits)
  then have r: "r \<in> set (p_rows db)" "owned event owner r" by (auto dest: find_Some_in)
  let ?r = "r\<lparr>pj_attempts := n, pj_result := d, pj_state := ''complete''\<rparr>"
  have "?r \<in> set (p_rows db')" unfolding db set_result_def 
    using upd_where_hit [where p = "owned event owner" and f = "\<lambda>r. r\<lparr>pj_attempts := n, pj_result := d, pj_state := ''complete''\<rparr>", OF r] by simp
  moreover have "owned event owner ?r" using r(2) by (simp add: owned_def)
  ultimately show ?thesis unfolding stored_def list_ex_iff
    by (intro bexI [of _ ?r]) (simp_all add: db)
qed

text \<open>The steps a delivery makes outside its tables; \<open>w0\<close> is reached from \<open>w\<close> by such steps.\<close>

inductive pend_step :: "'w pend_env \<Rightarrow> 'w \<Rightarrow> 'w \<Rightarrow> bool" for env where
  step_clock: "pe_clock env w = (t, w') \<Longrightarrow> pend_step env w w'"
| step_wall: "pe_wall env w = (t, w') \<Longrightarrow> pend_step env w w'"
| step_tx: "pe_tx env w = (ok, w') \<Longrightarrow> pend_step env w w'"
| step_sleep: "pe_sleep env t db w = (db', w') \<Longrightarrow> pend_step env w w'"
| step_operation: "pe_operation env deadline db w = (r, db', w') \<Longrightarrow> pend_step env w w'"

definition pend_reach :: "'w pend_env \<Rightarrow> 'w \<Rightarrow> 'w \<Rightarrow> bool" where
  "pend_reach env = (pend_step env)\<^sup>*\<^sup>*"

lemma pend_reach_refl [simp]: "pend_reach env w w"
  by (simp add: pend_reach_def)

lemma pend_reach_step: "pend_step env w w1 \<Longrightarrow> pend_reach env w1 w2 \<Longrightarrow> pend_reach env w w2"
  by (simp add: pend_reach_def converse_rtranclp_into_rtranclp)

lemmas pend_reachI = pend_reach_step [OF step_clock] pend_reach_step [OF step_wall] pend_reach_step [OF step_tx]
  pend_reach_step [OF step_sleep] pend_reach_step [OF step_operation]

lemma pend_reach_trans: "pend_reach env w w1 \<Longrightarrow> pend_reach env w1 w2 \<Longrightarrow> pend_reach env w w2"
  unfolding pend_reach_def by (rule rtranclp_trans)

text \<open>The last attempt of a delivery: it started in a state the delivery reached, answered \<open>d\<close>, and was
  then recorded by the last transaction, which left the tables \<open>db'\<close> and the state \<open>w'\<close>.\<close>

definition deciding_attempt :: "'w pend_env \<Rightarrow> string \<Rightarrow> string \<Rightarrow> time \<Rightarrow> dict \<Rightarrow> 'w \<Rightarrow> pend_db \<Rightarrow> 'w \<Rightarrow> bool" where
  "deciding_attempt env event owner deadline d w db' w' \<longleftrightarrow> (\<exists>db0 w0 db1 w1 n. pend_reach env w w0 \<and>
     pe_operation env deadline db0 w0 = (Inr (JObj d), db1, w1) \<and> pe_tx env w1 = (True, w') \<and>
     record_attempt event owner d True db1 = Inr (Some (n, db')))"

lemma deciding_attempt_later: "pend_reach env w w1 \<Longrightarrow> deciding_attempt env event owner deadline d w1 db' w' \<Longrightarrow> deciding_attempt env event owner deadline d w db' w'"
  unfolding deciding_attempt_def using pend_reach_trans by metis

lemma attempts_loop_returned:
  assumes "attempts_loop env event owner deadline ma n attempt count result db w = (Returned d, db', w')"
  shows "action_in [''pending''] d \<or> (action_in [''allow'', ''block''] d \<and> stored event owner d db' \<and>
    deciding_attempt env event owner deadline d w db' w')"
  using assms
proof (induction n arbitrary: attempt count result db w)
  case (Suc n)
  obtain t w1 where c: "pe_clock env w = (t, w1)" by fastforce
  obtain r db2 w2 where op: "pe_operation env deadline db w1 = (r, db2, w2)" by (metis prod_cases3)
  obtain ok w3 where tx: "pe_tx env w2 = (ok, w3)" by fastforce
  let ?res = "checked_result r"
  let ?c = "action_in [''allow'', ''block''] ?res"
  from Suc.prems c op tx have "\<not> deadline \<le> t" and ok: ok
    by (auto simp: Let_def split: if_splits)
  show ?case
  proof (cases "record_attempt event owner ?res ?c db2")
    case (Inr x)
    show ?thesis
    proof (cases x)
      case None
      with Suc.prems c op tx ok Inr \<open>\<not> deadline \<le> t\<close> show ?thesis by auto
    next
      case (Some y)
      obtain m db4 where y: "y = (m, db4)" by fastforce
      show ?thesis
      proof (cases ?c)
        case True
        with Suc.prems c op tx ok Inr Some y \<open>\<not> deadline \<le> t\<close> have d: "d = ?res" "db' = db4" "w' = w3" by auto
        have "stored event owner ?res db4" using record_attempt_stored Inr Some y True by (metis (full_types))
        moreover have "deciding_attempt env event owner deadline d w db' w'" unfolding deciding_attempt_def
          using op checked_result_action [OF True] d tx ok Inr Some y True pend_reachI(1) [OF c pend_reach_refl]
          by (intro exI [of _ db] exI [of _ w1] exI [of _ db2] exI [of _ w2] exI [of _ m]) simp
        ultimately show ?thesis using True d(1,2) by blast
      next
        case False
        obtain t2 w4 where c2: "pe_clock env w3 = (t2, w4)" by fastforce
        let ?t = "min (1000 * 2 ^ min attempt 5) (max 0 (deadline - t2))"
        obtain db6 w5 where sl: "pe_sleep env ?t db4 w4 = (db6, w5)" by fastforce
        from Suc.prems c op tx ok Inr Some y c2 sl \<open>\<not> deadline \<le> t\<close> False
        have "attempts_loop env event owner deadline ma n (Suc attempt) m ?res db6 w5 = (Returned d, db', w')"
          by (auto simp: Let_def split: if_splits)
        from Suc.IH [OF this] show ?thesis
          using deciding_attempt_later [OF pend_reachI(1) [OF c pend_reachI(5) [OF op pend_reachI(3) [OF tx pend_reachI(1) [OF c2 pend_reachI(4) [OF sl pend_reach_refl]]]]]]
          by blast
      qed
    qed
  qed (use Suc.prems c op tx ok \<open>\<not> deadline \<le> t\<close> in auto)
qed simp

lemma acquire_reach: "acquire env ev owner deadline n db w = (a, db', w') \<Longrightarrow> pend_reach env w w'"
proof (induction n arbitrary: db w)
  case (Suc n)
  obtain ok w1 where tx: "pe_tx env w = (ok, w1)" by fastforce
  obtain now w2 where wl: "pe_wall env w1 = (now, w2)" by fastforce
  obtain now2 w3 where wl2: "pe_wall env w2 = (now2, w3)" by fastforce
  obtain t w4 where c: "pe_clock env w2 = (t, w4)" by fastforce
  obtain t2 w5 where c2: "pe_clock env w4 = (t2, w5)" by fastforce
  obtain db2 w6 where sl: "pe_sleep env (min 100 (max 0 (deadline - t2))) db w5 = (db2, w6)" by fastforce
  note reach = pend_reachI(3) [OF tx pend_reach_refl] pend_reachI(3) [OF tx pend_reachI(2) [OF wl pend_reachI(2) [OF wl2 pend_reach_refl]]]
    pend_reachI(3) [OF tx pend_reachI(2) [OF wl pend_reachI(1) [OF c pend_reach_refl]]]
    pend_reachI(3) [OF tx pend_reachI(2) [OF wl pend_reachI(1) [OF c pend_reachI(1) [OF c2 pend_reachI(4) [OF sl Suc.IH]]]]]
  from Suc.prems tx wl wl2 c c2 sl reach show ?case by (auto simp: Let_def split: if_splits)
qed simp

lemma decide_answer:
  assumes "decide env ev owner ma budget fuel db w = (Some d, db', w')"
  shows "action_in [''pending''] d \<or> (action_in [''allow'', ''block''] d \<and> stored (er_event ev) owner d db' \<and>
    deciding_attempt env (er_event ev) owner (fst (pe_clock env w) + budget) d w db' w')"
proof -
  obtain t w1 where c: "pe_clock env w = (t, w1)" by fastforce
  obtain a db1 w2 where q: "acquire env ev owner (t + budget) fuel db w1 = (a, db1, w2)" by (metis prod_cases3)
  obtain x db2 w3 where l: "attempts_loop env (er_event ev) owner (t + budget) ma fuel 0 0
      (answer ''unavailable'' ''judgment_budget'') db1 w2 = (x, db2, w3)" by (metis prod_cases3)
  show ?thesis
  proof (cases "a = Acquired")
    case True
    show ?thesis
    proof (cases x)
      case (Returned y)
      with assms c q l True have "y = d" "db2 = db'" "w3 = w'" by (auto simp: decide_def)
      with attempts_loop_returned [OF l [unfolded Returned]] deciding_attempt_later [OF pend_reachI(1) [OF c acquire_reach [OF q]]]
      show ?thesis using c by auto
    qed (use assms c q l True in \<open>auto simp: decide_def Let_def split: prod.splits if_splits\<close>)
  next
    case False
    with assms c q show ?thesis by (cases a) (auto simp: decide_def)
  qed
qed

section \<open>Enough time is enough fuel\<close>

text \<open>
  The documented behaviour of the clock and of \<open>time.sleep\<close>: the monotonic clock does not
  go back, and a sleep takes at least the time asked for.
\<close>

definition steady :: "'w pend_env \<Rightarrow> ('w \<Rightarrow> time) \<Rightarrow> bool" where
  "steady env clk \<longleftrightarrow>
     (\<forall>w. fst (pe_clock env w) = clk w \<and> clk w \<le> clk (snd (pe_clock env w))) \<and>
     (\<forall>w. clk w \<le> clk (snd (pe_wall env w))) \<and> (\<forall>w. clk w \<le> clk (snd (pe_tx env w))) \<and>
     (\<forall>s db w. clk w + s \<le> clk (snd (pe_sleep env s db w))) \<and>
     (\<forall>dl db w. clk w \<le> clk (snd (snd (pe_operation env dl db w))))"

lemma steadyD:
  assumes "steady env clk"
  shows "pe_clock env w = (t, w1) \<Longrightarrow> t = clk w \<and> clk w \<le> clk w1"
    and "pe_wall env w = (t, w1) \<Longrightarrow> clk w \<le> clk w1" and "pe_tx env w = (ok, w1) \<Longrightarrow> clk w \<le> clk w1"
    and "pe_sleep env s db w = (db1, w1) \<Longrightarrow> clk w + s \<le> clk w1"
    and "pe_operation env dl db w = (r, db1, w1) \<Longrightarrow> clk w \<le> clk w1"
  using assms unfolding steady_def by (metis fst_conv snd_conv)+

lemma wait_progress:
  fixes c0 t c1 c2 deadline k :: int
  assumes "deadline - c0 \<le> 100 * int (Suc m)" and "c0 \<le> t" and "t \<le> c1"
    and "c1 + min k (max 0 (deadline - t)) \<le> c2" and "100 \<le> k"
  shows "deadline - c2 \<le> 100 * int m"
  using assms by (auto simp: min_def max_def split: if_splits)

lemma acquire_returns:
  assumes "steady env clk" and "deadline - clk w \<le> 100 * int m" and "acquire env ev owner deadline (Suc m) db w = (a, db', w')"
  shows "a \<noteq> AcquireFuel \<and> clk w \<le> clk w'"
  using assms(2,3)
proof (induction m arbitrary: db w)
  case 0
  obtain ok w1 where tx: "pe_tx env w = (ok, w1)" by fastforce
  obtain now w2 where wl: "pe_wall env w1 = (now, w2)" by fastforce
  obtain n3 w3 where wl2: "pe_wall env w2 = (n3, w3)" by fastforce
  obtain t w4 where c: "pe_clock env w2 = (t, w4)" by fastforce
  note le = steadyD(3) [OF assms(1) tx] steadyD(2) [OF assms(1) wl] steadyD(2) [OF assms(1) wl2] steadyD(1) [OF assms(1) c]
  with 0 tx wl wl2 c show ?case by (auto split: if_splits)
next
  case (Suc m)
  obtain ok w1 where tx: "pe_tx env w = (ok, w1)" by fastforce
  obtain now w2 where wl: "pe_wall env w1 = (now, w2)" by fastforce
  obtain n3 w3 where wl2: "pe_wall env w2 = (n3, w3)" by fastforce
  obtain t w4 where c: "pe_clock env w2 = (t, w4)" by fastforce
  obtain t2 w5 where c2: "pe_clock env w4 = (t2, w5)" by fastforce
  let ?s = "min 100 (max 0 (deadline - t2))"
  obtain db6 w6 where sl: "pe_sleep env ?s db w5 = (db6, w6)" by fastforce
  note le = steadyD(3) [OF assms(1) tx] steadyD(2) [OF assms(1) wl] steadyD(2) [OF assms(1) wl2]
    steadyD(1) [OF assms(1) c] steadyD(1) [OF assms(1) c2] steadyD(4) [OF assms(1) sl]
  show ?case
  proof (cases "ok \<and> busy (er_event ev) now db \<and> t < deadline")
    case True
    with Suc.prems(2) tx wl c c2 sl have "acquire env ev owner deadline (Suc m) db6 w6 = (a, db', w')"
      by (simp del: acquire.simps(2) add: acquire.simps(2) [of _ _ _ _ "Suc m"])
    moreover have "deadline - clk w6 \<le> 100 * int m"
      by (rule wait_progress [OF Suc.prems(1), of t2 "clk w5" 100]) (use le in auto)
    ultimately have "a \<noteq> AcquireFuel \<and> clk w6 \<le> clk w'" using Suc.IH by blast
    with le show ?thesis by linarith
  next
    case False
    with Suc.prems(2) tx wl wl2 c le show ?thesis by (auto simp: Let_def split: if_splits)
  qed
qed

lemma attempts_return:
  assumes "steady env clk" and "deadline - clk w \<le> 100 * int m"
  shows "fst (attempts_loop env event owner deadline ma (Suc m) attempt count result db w) \<noteq> OutOfFuel"
  using assms(2)
proof (induction m arbitrary: attempt count result db w)
  case 0
  obtain t w1 where c: "pe_clock env w = (t, w1)" by fastforce
  with 0 steadyD(1) [OF assms(1) c] show ?case by simp
next
  case (Suc m)
  obtain t w1 where c: "pe_clock env w = (t, w1)" by fastforce
  obtain r db2 w2 where op: "pe_operation env deadline db w1 = (r, db2, w2)" by (metis prod_cases3)
  obtain ok w3 where tx: "pe_tx env w2 = (ok, w3)" by fastforce
  obtain t2 w4 where c2: "pe_clock env w3 = (t2, w4)" by fastforce
  let ?s = "min (1000 * 2 ^ min attempt 5) (max 0 (deadline - t2))"
  have IH: "fst (attempts_loop env event owner deadline ma (Suc m) (Suc attempt) cnt res (fst (pe_sleep env ?s d w4)) (snd (pe_sleep env ?s d w4))) \<noteq> OutOfFuel" for cnt res d
  proof (rule Suc.IH)
    obtain db5 w5 where sl: "pe_sleep env ?s d w4 = (db5, w5)" by fastforce
    have "(1000::int) * 1 \<le> 1000 * 2 ^ min attempt 5" by (intro mult_left_mono one_le_power) auto
    then have k: "(100::int) \<le> 1000 * 2 ^ min attempt 5" by linarith
    note le = steadyD(1) [OF assms(1) c] steadyD(5) [OF assms(1) op] steadyD(3) [OF assms(1) tx]
      steadyD(1) [OF assms(1) c2] steadyD(4) [OF assms(1) sl]
    show "deadline - clk (snd (pe_sleep env ?s d w4)) \<le> 100 * int m" unfolding sl snd_conv
      by (rule wait_progress [OF Suc.prems _ _ _ k, of t2 "clk w4"]) (use le in auto)
  qed
  show ?case
    using c op tx c2 IH
    by (simp del: attempts_loop.simps(2) add: attempts_loop.simps(2) [of _ _ _ _ _ "Suc m"] Let_def case_prod_beta
        split: sum.splits option.splits)
qed

lemma decide_some:
  assumes "steady env clk" and "budget \<le> 100 * (int fuel - 1)" and "0 < fuel"
  shows "fst (decide env ev owner ma budget fuel db w) \<noteq> None"
proof -
  obtain m where m: "fuel = Suc m" using assms(3) gr0_conv_Suc by blast
  obtain t w1 where c: "pe_clock env w = (t, w1)" by fastforce
  obtain a db1 w2 where q: "acquire env ev owner (t + budget) fuel db w1 = (a, db1, w2)" by (metis prod_cases3)
  note t = steadyD(1) [OF assms(1) c]
  have "a \<noteq> AcquireFuel \<and> clk w1 \<le> clk w2"
    by (rule acquire_returns [OF assms(1) _ q [unfolded m]]) (use t assms(2) m in simp)
  moreover have "fst (attempts_loop env (er_event ev) owner (t + budget) ma fuel 0 0
      (answer ''unavailable'' ''judgment_budget'') db1 w2) \<noteq> OutOfFuel"
    unfolding m by (rule attempts_return [OF assms(1)]) (use t assms(2) m \<open>a \<noteq> AcquireFuel \<and> clk w1 \<le> clk w2\<close> in simp)
  ultimately show ?thesis using c q
    by (auto simp: decide_def Let_def split: acquired.splits ended.splits prod.splits)
qed

section \<open>Properties\<close>

text \<open>
  C32. A delivery answers "pending" or a decision, and a decision only after it is stored: the last
  attempt of this delivery, made in a state it reached and under its own deadline, gave exactly
  this answer, the transaction after it recorded it and left the final tables, and in these the
  event's row, still owned by this delivery, is marked complete with the answer, with the attempt
  in the attempt log. A storage failure, a lost lease or an invalid or incomplete judgment never yields a permission.
\<close>

theorem decision_is_stored_before_answer:
  assumes "decide env ev owner ma budget fuel db w = (Some d, db', w')"
    and "\<not> action_in [''pending''] d"
  shows "action_in [''allow'', ''block''] d \<and> stored (er_event ev) owner d db' \<and>
    (\<exists>db0 w0 db1 w1 n. pend_reach env w w0 \<and> pe_operation env (fst (pe_clock env w) + budget) db0 w0 = (Inr (JObj d), db1, w1) \<and>
       pe_tx env w1 = (True, w') \<and> record_attempt (er_event ev) owner d True db1 = Inr (Some (n, db')))"
  unfolding deciding_attempt_def [symmetric] using decide_answer [OF assms(1)] assms(2) by blast

text \<open>
  C33. A delivery always comes to an end: with a clock that does not go back and a sleep that
  takes at least the time asked for, the two retry loops finish within the budget, so fuel of
  one step per 100 ms (4801 for the default 480 s) gives an answer, whatever the judgment and
  the other deliveries do.
\<close>

theorem decide_returns:
  assumes "steady env clk" and "budget \<le> 100 * (int fuel - 1)" and "0 < fuel"
  shows "\<exists>d. fst (decide env ev owner ma budget fuel db w) = Some d"
  using decide_some [OF assms] by blast


definition sample_tool_call :: event_row where
  "sample_tool_call = \<lparr>er_event = ''e'', er_phase = ''pre_tool_use'', er_session = Some ''s'', er_tool_use = Some ''t'',
     er_tool_name = JStr ''Bash'', er_workspace = ''w'', er_root = ''/w'', er_execution_cwd = None, er_payload = [], er_seq = 7\<rparr>"

definition sample_env :: "time pend_env" where
  "sample_env = \<lparr>pe_clock = \<lambda>w. (w, w), pe_wall = \<lambda>w. (w, w), pe_sleep = \<lambda>s db w. (db, w + s), pe_tx = \<lambda>w. (True, w),
     pe_operation = \<lambda>dl db w. (if w < 2000 then Inl (OSError ''provider'') else Inr (JObj [(''action'', JStr ''allow'')]), db, w + 10)\<rparr>"

definition no_judgments :: pend_db where
  "no_judgments = \<lparr>p_rows = [], p_attempts = []\<rparr>"

theorem decision_is_stored_before_answer_witness:
  "\<exists>d db' w'. decide sample_env sample_tool_call ''o'' 3 480000 20 no_judgments 0 = (Some d, db', w') \<and>
     action_in [''allow'', ''block''] d \<and> stored ''e'' ''o'' d db'"
proof -
  let ?r = "decide sample_env sample_tool_call ''o'' 3 480000 20 no_judgments 0"
  have "fst ?r = Some [(''action'', JStr ''allow'')]" by code_simp
  then obtain db' w' where r: "?r = (Some [(''action'', JStr ''allow'')], db', w')" by (metis prod.collapse)
  have n: "\<not> action_in [''pending''] [(''action'', JStr ''allow'')]" by code_simp
  have "er_event sample_tool_call = ''e''" by (simp add: sample_tool_call_def)
  with decision_is_stored_before_answer [OF r n] r show ?thesis by auto
qed

theorem decide_returns_witness: "\<exists>d. fst (decide sample_env sample_tool_call ''o'' 3 480000 4801 no_judgments 0) = Some d"
  by (rule decide_returns [where clk = id]) (simp_all add: steady_def sample_env_def)


end
