(* ===== verification/Workspace.thy ===== *)
theory Workspace
  imports Effects Posix_Path Json
begin

text \<open>
  \<open>engine/workspace.py\<close>: the identity of the workspace a Hook runs in, from its working
  directory and an explicit root, without searching. Home directories, \<open>lstat\<close>, opening a
  directory and its canonical name are environment steps.
\<close>

datatype file_mode = Mode_Link | Mode_Directory | Mode_Other

record 'w place_env =
  wk_expand :: "string \<Rightarrow> 'w \<Rightarrow> string res \<times> 'w"
  wk_lstat :: "string \<Rightarrow> 'w \<Rightarrow> file_mode res \<times> 'w"
  wk_open :: "string \<Rightarrow> 'w \<Rightarrow> nat res \<times> 'w"
  wk_fstat :: "nat \<Rightarrow> 'w \<Rightarrow> file_mode res \<times> 'w"
  wk_getpath :: "nat \<Rightarrow> 'w \<Rightarrow> string res \<times> 'w"
  wk_realpath :: "string \<Rightarrow> 'w \<Rightarrow> string res \<times> 'w"
  wk_darwin :: bool

record workspace =
  wc_id :: "string option"
  wc_root :: "string option"
  wc_lexical :: "string option"
  wc_cwd :: "string option"
  wc_status :: string
  wc_by :: string

definition READY :: string where "READY = ''ready''"

definition ready :: "workspace \<Rightarrow> bool" where
  "ready c \<longleftrightarrow> wc_status c = READY"

text \<open>The two names a root has; \<open>H\<close> stands for \<open>sha256(..).hexdigest()\<close>.\<close>

definition make_workspace_id :: "hash \<Rightarrow> string \<Rightarrow> string" where
  "make_workspace_id H root = ''ws_v1_'' @ H (utf8 root)"

definition make_configured_workspace_namespace :: "hash \<Rightarrow> string \<Rightarrow> string" where
  "make_configured_workspace_namespace H root = ''ws_cfg_v1_'' @ H (''ws_cfg_v1'' @ [char_of (0::nat)] @ utf8 root)"

definition unresolved :: "string \<Rightarrow> string \<Rightarrow> workspace" where
  "unresolved status by = \<lparr>wc_id = None, wc_root = None, wc_lexical = None, wc_cwd = None, wc_status = status, wc_by = by\<rparr>"

section \<open>A directory\<close>

record validated =
  vd_lexical :: "string option"
  vd_canonical :: "string option"
  vd_status :: "string option"

definition refused :: "string option \<Rightarrow> string \<Rightarrow> validated" where
  "refused lexical status = \<lparr>vd_lexical = lexical, vd_canonical = None, vd_status = Some status\<rparr>"

text \<open>\<open>(OSError, ValueError)\<close>, and with \<open>RuntimeError\<close> as \<open>expanduser\<close> raises it.\<close>

definition path_error :: "exn \<Rightarrow> bool" where
  "path_error e \<longleftrightarrow> (case e of OSError n \<Rightarrow> True | _ \<Rightarrow> is_value_error e)"

definition expand_error :: "exn \<Rightarrow> bool" where
  "expand_error e \<longleftrightarrow> path_error e \<or> e = OtherError ''RuntimeError''"

text \<open>\<open>str(Path(value).expanduser())\<close>: only a relative path whose first part begins with a tilde
  is expanded.\<close>

definition expand_user :: "'w place_env \<Rightarrow> string \<Rightarrow> ('w, string) act" where
  "expand_user e s =
     (if \<not> is_absolute s \<and> (case pp_parts s of [] \<Rightarrow> False | p # ps \<Rightarrow> starts_with ''~'' p) then wk_expand e s
      else ret (pp_str s))"

definition canonical_directory_path :: "'w place_env \<Rightarrow> string \<Rightarrow> ('w, string) act" where
  "canonical_directory_path e lexical =
     bind (wk_open e lexical) (\<lambda>fd.
     bind (wk_fstat e fd) (\<lambda>mode.
       if mode \<noteq> Mode_Directory then raise (OSError ''NotADirectoryError'')
       else if wk_darwin e then
         bind (wk_getpath e fd) (\<lambda>raw.
           let canonical = takeWhile (\<lambda>c. c \<noteq> char_of (0::nat)) raw
           in if canonical = [] \<or> \<not> is_absolute canonical then raise (OSError ''OSError'')
              else ret (normpath canonical))
       else wk_realpath e lexical))"

definition stat_refusal :: "string \<Rightarrow> exn \<Rightarrow> string" where
  "stat_refusal name e =
     (if e = OSError ''FileNotFoundError'' then name @ ''_path_missing''
      else if e = OSError ''PermissionError'' then name @ ''_permission_denied''
      else name @ ''_io_error'')"

definition located_directory :: "'w place_env \<Rightarrow> string \<Rightarrow> string \<Rightarrow> ('w, validated) act" where
  "located_directory e name lexical =
     bind (attempt (bind (wk_lstat e lexical) (\<lambda>m. ret (Inr m)))
             (\<lambda>x. if path_error x then ret (Inl (stat_refusal name x)) else raise x)) (\<lambda>found.
       case found of
         Inl status \<Rightarrow> ret (refused (Some lexical) status)
       | Inr Mode_Link \<Rightarrow> ret (refused (Some lexical) (name @ ''_symlink''))
       | Inr Mode_Other \<Rightarrow> ret (refused (Some lexical) (name @ ''_not_directory''))
       | Inr Mode_Directory \<Rightarrow>
           attempt (bind (canonical_directory_path e lexical) (\<lambda>c.
               ret \<lparr>vd_lexical = Some lexical, vd_canonical = Some c, vd_status = None\<rparr>))
             (\<lambda>x. if path_error x then ret (refused (Some lexical) (name @ ''_io_error'')) else raise x))"

text \<open>The value is the \<open>cwd\<close> of a payload, so anything JSON can hold; \<open>Path(5)\<close> raises.\<close>

definition validated_directory :: "'w place_env \<Rightarrow> json \<Rightarrow> string \<Rightarrow> ('w, validated) act" where
  "validated_directory e v name =
     (case v of
        JNull \<Rightarrow> ret (refused None (name @ ''_missing''))
      | JStr s \<Rightarrow>
          if s = [] then ret (refused None (name @ ''_empty''))
          else
            bind (attempt (bind (expand_user e s) (\<lambda>c. ret (Some c)))
                    (\<lambda>x. if expand_error x then ret None else raise x)) (\<lambda>found.
              case found of
                None \<Rightarrow> ret (refused None (name @ ''_io_error''))
              | Some candidate \<Rightarrow>
                  if \<not> is_absolute candidate then ret (refused None (name @ ''_not_absolute''))
                  else located_directory e name (normpath candidate))
      | _ \<Rightarrow> raise (TypeError ''expected str, bytes or os.PathLike object''))"

section \<open>The workspace\<close>

text \<open>\<open>os.path.commonpath((a, b))\<close>.\<close>

definition commonpath :: "string \<Rightarrow> string \<Rightarrow> string res" where
  "commonpath a b =
     (if is_absolute a \<noteq> is_absolute b then Inl (ValueError ''mixed absolute and relative paths'')
      else Inr ((if is_absolute a then ''/'' else []) @ join_with ''/'' (common_prefix (pp_comps a) (pp_comps b))))"

definition inside :: "string \<Rightarrow> string \<Rightarrow> bool" where
  "inside root cwd \<longleftrightarrow> commonpath root cwd = Inr root"

text \<open>The two checks after \<open>_validated_directory\<close>: its refusal, and the assertion.\<close>

definition with_directory :: "validated \<Rightarrow> string \<Rightarrow> (string \<Rightarrow> ('w, workspace) act) \<Rightarrow> ('w, workspace) act" where
  "with_directory d by k =
     (case vd_status d of
        Some status \<Rightarrow> ret (unresolved status by)
      | None \<Rightarrow> (case vd_canonical d of None \<Rightarrow> raise (OtherError ''AssertionError'') | Some canonical \<Rightarrow> k canonical))"

definition found_by :: "string option \<Rightarrow> string option \<Rightarrow> string" where
  "found_by configured discovered_by =
     (let default = (if configured \<noteq> None then ''configured_root'' else ''hook_cwd'')
      in case discovered_by of None \<Rightarrow> default | Some b \<Rightarrow> if b = [] then default else b)"

definition ready_workspace :: "hash \<Rightarrow> validated \<Rightarrow> string \<Rightarrow> string \<Rightarrow> string \<Rightarrow> workspace" where
  "ready_workspace H root canonical cwd by =
     \<lparr>wc_id = Some (make_workspace_id H canonical), wc_root = Some canonical, wc_lexical = vd_lexical root,
      wc_cwd = Some cwd, wc_status = READY, wc_by = by\<rparr>"

definition resolve_workspace :: "'w place_env \<Rightarrow> hash \<Rightarrow> json \<Rightarrow> string option \<Rightarrow> string option \<Rightarrow> ('w, workspace) act" where
  "resolve_workspace e H cwd configured discovered_by =
     (let by = found_by configured discovered_by
      in if configured = None \<and> cwd = JNull then ret (unresolved ''execution_cwd_missing'' by)
      else
        bind (validated_directory e (case configured of Some r \<Rightarrow> JStr r | None \<Rightarrow> cwd) ''workspace_root'') (\<lambda>root.
          with_directory root by (\<lambda>canonical.
            if configured = None then ret (ready_workspace H root canonical canonical by)
            else
              bind (validated_directory e cwd ''execution_cwd'') (\<lambda>execution.
                with_directory execution by (\<lambda>cwd.
                  if \<not> inside canonical cwd then ret (unresolved ''execution_cwd_outside_workspace'' by)
                  else ret (ready_workspace H root canonical cwd by))))))"

section \<open>What ready means\<close>

lemma pp_comps_joined:
  assumes "\<And>c. c \<in> set cs \<Longrightarrow> c \<noteq> [] \<and> c \<noteq> ''.'' \<and> slash \<notin> set c"
  shows "pp_comps (replicate n slash @ join_with ''/'' cs) = cs"
proof (cases "cs = []")
  case True
  have "split_on slash (replicate n slash) = replicate (Suc n) []" by (induction n) auto
  with True show ?thesis by (simp add: pp_comps_def)
next
  case False
  have "split_on slash (join_with ''/'' cs) = cs" by (rule split_join_comps) (use False assms in auto)
  then have "pp_comps (replicate n slash @ join_with ''/'' cs) = filter (\<lambda>c. c \<noteq> [] \<and> c \<noteq> ''.'') cs"
    by (simp add: pp_comps_def split_replicate_slash)
  with assms show ?thesis by (simp add: filter_True)
qed

lemma common_prefix_prefix: "prefix (common_prefix xs ys) xs \<and> prefix (common_prefix xs ys) ys"
  unfolding common_prefix_def by (induction xs ys rule: list_induct2') auto

text \<open>The textual comparison of the code decides containment component by component.\<close>

lemma inside_comps: "inside root cwd \<Longrightarrow> prefix (pp_comps root) (pp_comps cwd)"
proof -
  assume i: "inside root cwd"
  let ?c = "common_prefix (pp_comps root) (pp_comps cwd)"
  have "\<And>c. c \<in> set ?c \<Longrightarrow> c \<noteq> [] \<and> c \<noteq> ''.'' \<and> slash \<notin> set c"
    using common_prefix_prefix [of "pp_comps root" "pp_comps cwd"] pp_comps_plain set_mono_prefix by blast
  note j = pp_comps_joined [OF this]
  from i have "root = replicate (if is_absolute root then 1 else 0) slash @ join_with ''/'' ?c"
    by (auto simp: inside_def commonpath_def slash_def split: if_splits)
  with j have "pp_comps root = ?c" by metis
  with common_prefix_prefix show ?thesis by metis
qed

definition place_ok :: "hash \<Rightarrow> workspace \<Rightarrow> bool" where
  "place_ok H c \<longleftrightarrow> (\<exists>root cwd. wc_root c = Some root \<and> wc_cwd c = Some cwd \<and> wc_id c = Some (make_workspace_id H root) \<and>
     prefix (pp_comps root) (pp_comps cwd))"

lemma unresolved_not_ready: "status \<noteq> READY \<Longrightarrow> \<not> ready (unresolved status by)"
  by (simp add: ready_def unresolved_def)

text \<open>Every refusal is named after the directory it refuses.\<close>

definition names_refusal :: "string \<Rightarrow> validated \<Rightarrow> bool" where
  "names_refusal name v \<longleftrightarrow> (\<forall>s. vd_status v = Some s \<longrightarrow> (\<exists>t. s = name @ ''_'' @ t))"

lemma names_refused: "names_refusal name (refused l (name @ CHR ''_'' # t))"
  by (simp add: names_refusal_def refused_def)

lemma stat_refusal_names: "names_refusal name (refused l (stat_refusal name x))"
  by (simp add: stat_refusal_def names_refused)

lemma located_names: "located_directory e name l w = (Inr d, w') \<Longrightarrow> names_refusal name d"
  unfolding located_directory_def
  by (auto simp: bind_Inr attempt_Inr ret_Inr raise_Inr names_refused stat_refusal_names names_refusal_def [of _ "\<lparr>vd_lexical = _, vd_canonical = _, vd_status = None\<rparr>"]
        split: if_splits file_mode.splits sum.splits)

lemma validated_names: "validated_directory e v name w = (Inr d, w') \<Longrightarrow> names_refusal name d"
  unfolding validated_directory_def
  by (auto simp: bind_Inr attempt_Inr ret_Inr raise_Inr names_refused located_names split: json.splits if_splits option.splits)

lemma refusal_not_ready: "names_refusal name d \<Longrightarrow> vd_status d = Some s \<Longrightarrow> hd name \<noteq> CHR ''r'' \<Longrightarrow> name \<noteq> [] \<Longrightarrow> \<not> ready (unresolved s by)"
  by (cases name) (auto simp: names_refusal_def ready_def unresolved_def READY_def)

lemma with_directory_ready:
  assumes "with_directory d by k w = (Inr c, w')" and "ready c" and "names_refusal name d" and "hd name \<noteq> CHR ''r''" and "name \<noteq> []"
  shows "\<exists>canonical. k canonical w = (Inr c, w')"
  using assms refusal_not_ready [OF assms(3)] unfolding with_directory_def
  by (auto simp: ret_Inr raise_Inr split: option.splits)

lemma resolve_ready:
  assumes "resolve_workspace e H cwd configured discovered_by w = (Inr c, w')" and "ready c"
  shows "place_ok H c"
proof -
  let ?by = "found_by configured discovered_by"
  have u: "\<not> ready (unresolved ''execution_cwd_missing'' b)" "\<not> ready (unresolved ''execution_cwd_outside_workspace'' b)" for b
    by (simp_all add: ready_def unresolved_def READY_def)
  from assms u(1) obtain root w1 where v: "validated_directory e (case configured of Some r \<Rightarrow> JStr r | None \<Rightarrow> cwd) ''workspace_root'' w = (Inr root, w1)"
    and r: "with_directory root ?by (\<lambda>canonical.
            if configured = None then ret (ready_workspace H root canonical canonical ?by)
            else
              bind (validated_directory e cwd ''execution_cwd'') (\<lambda>execution.
                with_directory execution ?by (\<lambda>cwd.
                  if \<not> inside canonical cwd then ret (unresolved ''execution_cwd_outside_workspace'' ?by)
                  else ret (ready_workspace H root canonical cwd ?by)))) w1 = (Inr c, w')"
    unfolding resolve_workspace_def Let_def by (auto simp: bind_Inr ret_Inr split: if_splits)
  from with_directory_ready [OF r assms(2) validated_names [OF v]] obtain canonical where
    k: "(if configured = None then ret (ready_workspace H root canonical canonical ?by)
            else
              bind (validated_directory e cwd ''execution_cwd'') (\<lambda>execution.
                with_directory execution ?by (\<lambda>cwd.
                  if \<not> inside canonical cwd then ret (unresolved ''execution_cwd_outside_workspace'' ?by)
                  else ret (ready_workspace H root canonical cwd ?by)))) w1 = (Inr c, w')" by auto
  show ?thesis
  proof (cases "configured = None")
    case True
    with k show ?thesis by (auto simp: ret_Inr place_ok_def ready_workspace_def)
  next
    case False
    with k obtain execution w2 where v2: "validated_directory e cwd ''execution_cwd'' w1 = (Inr execution, w2)"
      and r2: "with_directory execution ?by (\<lambda>cwd.
                  if \<not> inside canonical cwd then ret (unresolved ''execution_cwd_outside_workspace'' ?by)
                  else ret (ready_workspace H root canonical cwd ?by)) w2 = (Inr c, w')"
      by (auto simp: bind_Inr)
    from with_directory_ready [OF r2 assms(2) validated_names [OF v2]] u(2) assms(2) show ?thesis
      by (auto simp: ret_Inr place_ok_def ready_workspace_def inside_comps split: if_splits)
  qed
qed

text \<open>A workspace that resolves as ready has a canonical root, an identity that is the digest of
  exactly that root, and an execution directory inside it, component by component: the textual
  comparison of the code never mistakes a sibling with a common prefix for a subdirectory, and no
  refusal, whatever the file system answers, reports the status of a ready workspace.\<close>

theorem ready_workspace_contains_cwd:
  assumes "resolve_workspace e H cwd configured discovered_by w = (Inr c, w')" and "ready c"
  shows "\<exists>root cwd. wc_root c = Some root \<and> wc_cwd c = Some cwd \<and> wc_id c = Some (make_workspace_id H root) \<and>
    prefix (pp_comps root) (pp_comps cwd)"
  using resolve_ready [OF assms] unfolding place_ok_def .

definition plain_places :: "unit place_env" where
  "plain_places = \<lparr>wk_expand = (\<lambda>p w. (Inl (OtherError ''RuntimeError''), w)),
     wk_lstat = (\<lambda>p w. (if p = ''/w/link'' then Inr Mode_Link else if p = ''/gone'' then Inl (OSError ''FileNotFoundError'') else Inr Mode_Directory, w)),
     wk_open = (\<lambda>p w. (Inr 3, w)), wk_fstat = (\<lambda>fd w. (Inr Mode_Directory, w)), wk_getpath = (\<lambda>fd w. (Inr ''/w'', w)),
     wk_realpath = (\<lambda>p w. (Inr p, w)), wk_darwin = False\<rparr>"

definition sample_place :: "string \<Rightarrow> workspace res \<times> unit" where
  "sample_place cwd = resolve_workspace plain_places (\<lambda>b. b) (JStr cwd) (Some ''/w'') None ()"

theorem ready_workspace_contains_cwd_witness:
  "\<exists>c. sample_place ''/w/a/../b'' = (Inr c, ()) \<and> wc_id c = Some ''ws_v1_/w'' \<and> wc_cwd c = Some ''/w/b'' \<and>
     prefix (pp_comps ''/w'') (pp_comps ''/w/b'') \<and>
     map_sum id wc_status (fst (sample_place ''/wb'')) = Inr ''execution_cwd_outside_workspace''"
proof -
  let ?c = "\<lparr>wc_id = Some ''ws_v1_/w'', wc_root = Some ''/w'', wc_lexical = Some ''/w'', wc_cwd = Some ''/w/b'',
      wc_status = ''ready'', wc_by = ''configured_root''\<rparr>"
  have c: "sample_place ''/w/a/../b'' = (Inr ?c, ())" by code_simp
  have "ready ?c" by (simp add: ready_def READY_def)
  from ready_workspace_contains_cwd [OF c [unfolded sample_place_def] this]
  have "prefix (pp_comps ''/w'') (pp_comps ''/w/b'')" by simp
  moreover have "map_sum id wc_status (fst (sample_place ''/wb'')) = Inr ''execution_cwd_outside_workspace''" by code_simp
  ultimately show ?thesis using c by (intro exI [of _ ?c]) simp
qed

end
