(* ===== verification/Journal.thy ===== *)
theory Journal
  imports Workspace Evidence
begin

text \<open>
  \<open>engine/identity.py\<close> and \<open>engine/journal.py\<close>: the identity of a Hook event, and the journal
  that appends it once, with its sequence number, together with the evidence ledger of the same
  transaction; and the table of the registered sources as the engine reads it. Whether the
  database file exists and whether a transaction can be opened are environment steps.
\<close>

section \<open>Identities\<close>

text \<open>Python's \<open>str\<close> of a JSON value.\<close>

definition repr_char :: "char \<Rightarrow> char \<Rightarrow> string" where
  "repr_char q c = (let n = (of_char c :: nat) in
     if c = q \<or> n = 92 then [char_of (92::nat), c]
     else if n = 10 then [char_of (92::nat), CHR ''n'']
     else if n = 13 then [char_of (92::nat), CHR ''r'']
     else if n = 9 then [char_of (92::nat), CHR ''t'']
     else if n < 32 \<or> (127 \<le> n \<and> n \<le> 160) \<or> n = 173
       then [char_of (92::nat), CHR ''x'', hex_digit (n div 16), hex_digit (n mod 16)]
     else [c])"

definition repr_str :: "string \<Rightarrow> string" where
  "repr_str s =
     (let single = char_of (39::nat); double = char_of (34::nat);
          q = (if single \<in> set s \<and> double \<notin> set s then double else single)
      in [q] @ concat (map (repr_char q) s) @ [q])"

fun py_repr :: "json \<Rightarrow> string" where
  "py_repr JNull = ''None''"
| "py_repr (JBool b) = (if b then ''True'' else ''False'')"
| "py_repr (JInt i) = show_int i"
| "py_repr (JStr s) = repr_str s"
| "py_repr (JArr xs) = ''['' @ join_with '', '' (map py_repr xs) @ '']''"
| "py_repr (JObj d) = ''{'' @ join_with '', '' (map (\<lambda>(k, v). repr_str k @ '': '' @ py_repr v) d) @ ''}''"

definition optional_str :: "json \<Rightarrow> string" where
  "optional_str v = (case v of JNull \<Rightarrow> ''-'' | JStr s \<Rightarrow> s | _ \<Rightarrow> py_repr v)"

definition stable_json :: "json \<Rightarrow> string" where
  "stable_json v = compact False v"

definition short_digest :: "hash \<Rightarrow> string \<Rightarrow> string" where
  "short_digest H s = take 16 (H (utf8 s))"

definition make_event_id :: "hash \<Rightarrow> string \<Rightarrow> dict \<Rightarrow> string option \<Rightarrow> string" where
  "make_event_id H phase payload ns =
     (let parts = phase # map (\<lambda>k. optional_str (dget payload k)) [''session_id'', ''turn_id'', ''tool_use_id'', ''tool_name''];
          identity = (case ns of None \<Rightarrow> JObj payload
            | Some n \<Rightarrow> JObj [(''workspace_namespace_id'', JStr n), (''payload'', JObj payload)])
      in join_with '':'' (parts @ [short_digest H (stable_json identity)]))"

definition make_artifact_id :: "hash \<Rightarrow> string \<Rightarrow> string \<Rightarrow> string \<Rightarrow> string" where
  "make_artifact_id H event role txt = event @ '':'' @ role @ '':'' @ short_digest H txt"

definition make_source_chunk_id :: "hash \<Rightarrow> string \<Rightarrow> nat \<Rightarrow> string \<Rightarrow> string" where
  "make_source_chunk_id H source ordinal txt = source @ '':'' @ show_nat ordinal @ '':'' @ short_digest H txt"

section \<open>Events\<close>

text \<open>An event before it is recorded; \<open>session_id\<close> and \<open>tool_use_id\<close> are what the payload holds.\<close>

record hook_event =
  he_id :: string
  he_phase :: string
  he_workspace :: string
  he_root :: string
  he_session :: json
  he_tool :: json
  he_payload :: dict

definition event_from :: "'w place_env \<Rightarrow> hash \<Rightarrow> string \<Rightarrow> dict \<Rightarrow> string \<Rightarrow> ('w, hook_event) act" where
  "event_from e H phase payload root =
     bind (resolve_workspace e H (dget payload ''cwd'') (Some root) None) (\<lambda>c.
       case (wc_id c, wc_root c) of
         (Some ws, Some canonical) \<Rightarrow>
           if \<not> ready c then raise (ValueError ''workspace_unavailable'')
           else ret \<lparr>he_id = make_event_id H phase payload (Some ws), he_phase = phase, he_workspace = ws,
                     he_root = canonical, he_session = dget payload ''session_id'', he_tool = dget payload ''tool_use_id'',
                     he_payload = payload\<rparr>
       | _ \<Rightarrow> raise (ValueError ''workspace_unavailable''))"

text \<open>A JSON value bound to a text column: a container cannot be bound.\<close>

fun text_column :: "json \<Rightarrow> string option res" where
  "text_column JNull = Inr None"
| "text_column (JStr s) = Inr (Some s)"
| "text_column (JInt i) = Inr (Some (show_int i))"
| "text_column (JBool b) = Inr (Some (if b then ''1'' else ''0''))"
| "text_column v = Inl (SqliteError ''Error binding parameter'')"

text \<open>The columns that are only kept for the record; they must be bindable too.\<close>

definition bindable :: "json \<Rightarrow> bool" where
  "bindable v \<longleftrightarrow> \<not> isl (text_column v)"

definition kept_columns :: "string list" where
  "kept_columns = [''turn_id'', ''tool_name'', ''cwd'', ''model'', ''permission_mode'', ''transcript_path'', ''stop_hook_active'']"

definition row_of :: "hook_event \<Rightarrow> workspace \<Rightarrow> nat \<Rightarrow> event_row res" where
  "row_of ev scope seq =
     (case (text_column (he_session ev), text_column (he_tool ev)) of
        (Inr session, Inr tool) \<Rightarrow> Inr
          \<lparr>er_event = he_id ev, er_phase = he_phase ev, er_session = session, er_tool_use = tool,
           er_tool_name = (case text_column (dget (he_payload ev) ''tool_name'') of Inl x \<Rightarrow> JNull | Inr name \<Rightarrow> opt_json name),
           er_workspace = he_workspace ev, er_root = he_root ev, er_execution_cwd = wc_cwd scope,
           er_payload = he_payload ev, er_seq = seq\<rparr>
      | _ \<Rightarrow> Inl (SqliteError ''Error binding parameter''))"

definition insertable :: "hook_event \<Rightarrow> bool" where
  "insertable ev \<longleftrightarrow> list_all (\<lambda>k. bindable (dget (he_payload ev) k)) kept_columns"

text \<open>\<open>observe\<close> goes by the truth of the payload's \<open>tool_use_id\<close>.\<close>

definition observe_event :: "hook_event \<Rightarrow> workspace \<Rightarrow> nat \<Rightarrow> ledger \<Rightarrow> ledger res" where
  "observe_event ev scope seq lg =
     (if truthy (he_tool ev) \<and> tool_phase (he_phase ev) then map_sum id (\<lambda>row. observe row lg) (row_of ev scope seq) else Inr lg)"

section \<open>The journal\<close>

text \<open>The transaction of \<open>record\<close>: an event is appended once; recording it again only migrates and
  observes.\<close>

definition append_event :: "hook_event \<Rightarrow> workspace \<Rightarrow> event_row list \<Rightarrow> ledger \<Rightarrow> (event_row list \<times> ledger) res" where
  "append_event ev scope evs lg =
     (case (case event_by_id evs (he_id ev) of
              Some old \<Rightarrow> Inr (er_seq old, evs)
            | None \<Rightarrow>
                (case row_of ev scope (max_seq evs + 1) of
                   Inl x \<Rightarrow> Inl x
                 | Inr row \<Rightarrow> if insertable ev then Inr (er_seq row, evs @ [row]) else Inl (SqliteError ''Error binding parameter''))) of
        Inl x \<Rightarrow> Inl x
      | Inr (seq, evs) \<Rightarrow>
          (case migrate evs lg of
             Inl x \<Rightarrow> Inl x
           | Inr lg \<Rightarrow> map_sum id (\<lambda>lg. (evs, lg)) (observe_event ev scope seq lg)))"

record 'w journal_env =
  jn_place :: "'w place_env"
  jn_hash :: hash
  jn_file :: "'w \<Rightarrow> bool \<times> 'w"
  jn_begin :: "'w \<Rightarrow> unit res \<times> 'w"

definition record_event :: "'w journal_env \<Rightarrow> hook_event \<Rightarrow> event_row list \<Rightarrow> ledger \<Rightarrow> ('w, event_row list \<times> ledger) act" where
  "record_event e ev evs lg =
     bind (\<lambda>w. let (b, w) = jn_file e w in (Inr b, w)) (\<lambda>there.
       if \<not> there then raise (ValueError ''database_missing'')
       else
         bind (resolve_workspace (jn_place e) (jn_hash e) (dget (he_payload ev) ''cwd'') (Some (he_root ev)) None) (\<lambda>scope.
         bind (jn_begin e) (\<lambda>u.
           pure (append_event ev scope evs lg))))"

text \<open>\<open>Journal.initialize\<close>, with the columns the table \<open>events\<close> has, if it exists.\<close>

definition initialize_journal :: "string list \<Rightarrow> event_row list \<Rightarrow> ledger \<Rightarrow> ledger res" where
  "initialize_journal columns evs lg =
     (if columns \<noteq> [] \<and> \<not> list_all (\<lambda>c. c \<in> set columns) [''event_id'', ''workspace_id'', ''session_id'', ''sequence_no'', ''payload_json'']
      then Inl (ValueError ''legacy_database_migration_required'')
      else migrate evs lg)"

section \<open>Workspaces and registered sources\<close>

record workspace_row =
  wr_id :: string
  wr_root :: string
  wr_lexical :: string
  wr_by :: string

definition insert_workspace :: "workspace_row \<Rightarrow> workspace_row list \<Rightarrow> workspace_row list res" where
  "insert_workspace r t =
     (if list_ex (\<lambda>x. wr_id x = wr_id r) t then Inr t
      else if list_ex (\<lambda>x. wr_root x = wr_root r) t
      then Inl (SqliteError ''UNIQUE constraint failed: workspaces.canonical_root'')
      else Inr (t @ [r]))"

definition register_workspace :: "'w journal_env \<Rightarrow> string \<Rightarrow> workspace_row list \<Rightarrow> ('w, workspace \<times> workspace_row list) act" where
  "register_workspace e root t =
     bind (resolve_workspace (jn_place e) (jn_hash e) (JStr root) (Some root) None) (\<lambda>c.
       case (wc_id c, wc_root c) of
         (Some ws, Some canonical) \<Rightarrow>
           if \<not> ready c then raise (ValueError ''workspace_unavailable'')
           else bind (jn_begin e) (\<lambda>u.
             bind (pure (insert_workspace \<lparr>wr_id = ws, wr_root = canonical, wr_lexical = root, wr_by = ''init''\<rparr> t)) (\<lambda>t. ret (c, t)))
       | _ \<Rightarrow> raise (ValueError ''workspace_unavailable''))"

record source_row =
  so_source :: string
  so_path :: string
  so_type :: string
  so_sensitivity :: string
  so_tags :: json
  so_workspace :: "string option"
  so_key :: "string option"
  so_selector :: json

text \<open>\<open>tuple(json.loads(..))\<close>, and the source as \<open>asdict\<close> gives it.\<close>

definition json_tuple :: "json \<Rightarrow> json res" where
  "json_tuple v = (case v of
      JArr xs \<Rightarrow> Inr (JArr xs)
    | JStr s \<Rightarrow> Inr (JArr (map (\<lambda>c. JStr [c]) s))
    | JObj d \<Rightarrow> Inr (JArr (map (JStr \<circ> fst) d))
    | _ \<Rightarrow> Inl (TypeError ''object is not iterable''))"

definition source_dict :: "source_row \<Rightarrow> dict res" where
  "source_dict r = (case json_tuple (so_tags r) of
      Inl x \<Rightarrow> Inl x
    | Inr tags \<Rightarrow> Inr [(''source_id'', JStr (so_source r)), (''path'', JStr (so_path r)), (''source_type'', JStr (so_type r)),
        (''sensitivity'', JStr (so_sensitivity r)), (''policy_tags'', tags), (''workspace_id'', opt_json (so_workspace r)),
        (''source_key'', opt_json (so_key r)), (''selector'', so_selector r)])"

fun source_dicts :: "source_row list \<Rightarrow> dict list res" where
  "source_dicts [] = Inr []"
| "source_dicts (r # rs) = (case source_dict r of
      Inl x \<Rightarrow> Inl x
    | Inr d \<Rightarrow> (case source_dicts rs of Inl x \<Rightarrow> Inl x | Inr ds \<Rightarrow> Inr (d # ds)))"

definition list_protected_sources :: "source_row list \<Rightarrow> string \<Rightarrow> dict list res" where
  "list_protected_sources t ws = source_dicts (sort_key so_source (filter (\<lambda>r. so_workspace r = Some ws) t))"

text \<open>\<open>dict(asdict(source), node_id="source:" + source.source_id)\<close>.\<close>

definition as_root :: "dict \<Rightarrow> dict" where
  "as_root d = dict_set ''node_id'' (JStr (''source:'' @ the_str (dget d ''source_id''))) d"

section \<open>What recording keeps\<close>

text \<open>The journal is a log: every event stands in it once, in the order of its sequence number.\<close>

definition journal_ok :: "event_row list \<Rightarrow> bool" where
  "journal_ok evs \<longleftrightarrow> distinct (map er_event evs) \<and> sorted_wrt (<) (map er_seq evs)"

lemma event_by_id_None: "event_by_id evs e = None \<longleftrightarrow> e \<notin> er_event ` set evs"
  by (auto simp: event_by_id_def find_None_iff)

lemma find_append: "find P (xs @ ys) = (case find P xs of None \<Rightarrow> find P ys | Some x \<Rightarrow> Some x)"
  by (induction xs) auto

lemma row_of_fields: "row_of ev scope seq = Inr row \<Longrightarrow> er_event row = he_id ev \<and> er_seq row = seq \<and> er_payload row = he_payload ev"
  by (auto simp: row_of_def split: sum.splits)

lemma append_event_Inr:
  assumes "append_event ev scope evs lg = Inr (evs', lg')"
  obtains (old) r where "event_by_id evs (he_id ev) = Some r" "evs' = evs"
  | (new) row where "event_by_id evs (he_id ev) = None" "row_of ev scope (max_seq evs + 1) = Inr row" "evs' = evs @ [row]"
proof (cases "event_by_id evs (he_id ev)")
  case None
  with assms that(2) show ?thesis
    by (cases "row_of ev scope (max_seq evs + 1)")
      (auto simp: append_event_def map_sum_Inr split: if_splits sum.splits)
next
  case (Some r)
  with assms that(1) show ?thesis by (auto simp: append_event_def map_sum_Inr split: if_splits sum.splits)
qed

lemma append_event_ok:
  assumes "append_event ev scope evs lg = Inr (evs', lg')" and "journal_ok evs"
  shows "journal_ok evs' \<and> (\<exists>row. event_by_id evs' (he_id ev) = Some row \<and> (evs' = evs \<or> evs' = evs @ [row] \<and> er_payload row = he_payload ev))"
  using assms(1)
proof (cases rule: append_event_Inr)
  case (old r)
  with assms(2) show ?thesis by auto
next
  case (new row)
  have s: "er_seq r < er_seq row" if "r \<in> set evs" for r
    using max_seq_ge [OF that] row_of_fields [OF new(2)] by simp
  have f: "event_by_id (evs @ [row]) (he_id ev) = Some row"
    using new(1) row_of_fields [OF new(2)] by (auto simp: event_by_id_def find_append)
  have "journal_ok (evs @ [row])"
    using assms(2) new(1) s row_of_fields [OF new(2)] by (auto simp: journal_ok_def event_by_id_None sorted_wrt_append)
  with f new(3) row_of_fields [OF new(2)] show ?thesis by auto
qed

text \<open>C40. Recording an event keeps the journal a log: events stay distinct and in the order of their
  sequence numbers, and nothing recorded earlier changes. Afterwards the event is found by its
  identity; if it was new it stands at the end with its payload and the next sequence number, and
  if it was there already the journal is as before.\<close>

theorem recording_keeps_the_log:
  assumes "record_event e ev evs lg w = (Inr (evs', lg'), w')" and "journal_ok evs"
  shows "journal_ok evs' \<and> (\<exists>row. event_by_id evs' (he_id ev) = Some row \<and>
    (if he_id ev \<in> er_event ` set evs then evs' = evs
     else evs' = evs @ [row] \<and> er_payload row = he_payload ev \<and> er_seq row = max_seq evs + 1))"
proof -
  from assms(1) obtain scope where a: "append_event ev scope evs lg = Inr (evs', lg')"
    by (auto simp: record_event_def bind_Inr pure_Inr raise_Inr split: prod.splits if_splits)
  from a show ?thesis
  proof (cases rule: append_event_Inr)
    case (old r)
    from event_by_id_Some [OF old(1)] have "he_id ev \<in> er_event ` set evs" by (metis imageI)
    with old assms(2) show ?thesis by simp
  next
    case (new row)
    then have f: "event_by_id (evs @ [row]) (he_id ev) = Some row"
      using row_of_fields [OF new(2)] by (auto simp: event_by_id_def find_append)
    with append_event_ok [OF a assms(2)] new row_of_fields [OF new(2)] show ?thesis by (auto simp: event_by_id_None)
  qed
qed

definition plain_journal :: "unit journal_env" where
  "plain_journal = \<lparr>jn_place = plain_places, jn_hash = (\<lambda>b. show_nat (length b)), jn_file = (\<lambda>w. (True, w)), jn_begin = (\<lambda>w. (Inr (), w))\<rparr>"

definition sample_hook_payload :: dict where
  "sample_hook_payload = [(''session_id'', JStr ''s''), (''tool_use_id'', JStr ''t''), (''tool_name'', JStr ''Bash''), (''cwd'', JStr ''/w/b'')]"

definition sample_hook_event :: "hook_event res \<times> unit" where
  "sample_hook_event = event_from plain_places (\<lambda>b. show_nat (length b)) ''pre_tool_use'' sample_hook_payload ''/w'' ()"

definition sample_recording :: "hook_event \<Rightarrow> (event_row list \<times> ledger) res \<times> unit" where
  "sample_recording ev = record_event plain_journal ev [] empty_ledger ()"

theorem recording_keeps_the_log_witness:
  "\<exists>ev evs lg. sample_hook_event = (Inr ev, ()) \<and> sample_recording ev = (Inr (evs, lg), ()) \<and> journal_ok evs \<and>
     (\<exists>row. evs = [row] \<and> event_by_id evs (he_id ev) = Some row \<and> er_seq row = 1) \<and> length (lg_obs lg) = 1"
proof -
  obtain r where r: "sample_hook_event = (r, ())" by (cases sample_hook_event) auto
  have "\<not> isl (fst sample_hook_event)" by code_simp
  then have "\<not> isl r" by (metis r fst_conv)
  with r obtain ev where ev: "sample_hook_event = (Inr ev, ())" by (cases r) auto
  have c: "(case fst sample_hook_event of Inl x \<Rightarrow> False
      | Inr ev \<Rightarrow> (case fst (sample_recording ev) of Inl x \<Rightarrow> False | Inr (evs, lg) \<Rightarrow> length (lg_obs lg) = 1))" by code_simp
  obtain q where q: "sample_recording ev = (q, ())" by (cases "sample_recording ev") auto
  from c [unfolded ev fst_conv sum.case q] obtain evs lg where k: "q = Inr (evs, lg)" "length (lg_obs lg) = 1" by (cases q) auto
  have "journal_ok []" by (simp add: journal_ok_def)
  from recording_keeps_the_log [OF q [unfolded sample_recording_def k(1)] this]
  have "journal_ok evs \<and> (\<exists>row. evs = [row] \<and> event_by_id evs (he_id ev) = Some row \<and> er_seq row = 1)" by (auto simp: max_seq_def)
  with ev q k show ?thesis by blast
qed

end
