(* ===== verification/Runtime.thy ===== *)
theory Runtime
  imports Inspection Session_Lock Pending Journal
begin

text \<open>
  \<open>engine/runtime.py\<close>: one delivery of a Hook event. It is recorded, screened for an explicit
  outbound operation, inspected if it is one, and the result is written down before it is
  answered; a \<open>PreToolUse\<close> runs under the retry protocol of \<open>engine/pending.py\<close>. The phase
  timings (\<open>measure\<close>) never influence a result and are left out.
\<close>

section \<open>State and environment\<close>

record 'w runtime =
  rt_events :: "event_row list"
  rt_engine :: "'w engine"
  rt_sem :: sem_db
  rt_screens :: "(string \<times> string \<times> dict) list"
  rt_jobs :: "job_row list"

type_synonym ('w, 'a) run = "('w runtime, 'a) act"

text \<open>
  \<open>rx_config\<close> is the file \<open>semantic-flow.json\<close>, parsed, if it exists; \<open>rx_sources\<close> the table of
  registered sources; \<open>rx_viewer\<close> the answer of \<open>issued_viewer_open\<close>; \<open>rx_judge\<close> the given judge
  or the Codex process; \<open>rx_others\<close> what other deliveries write into the table of pending
  judgments while this one works. \<open>rx_target\<close> holds what the target description needs; its graph,
  model, judge and events are filled in here.
\<close>

record 'w runtime_env =
  rx_target :: "'w target_env"
  rx_make :: "event_row list \<Rightarrow> 'w maker"
  rx_journal :: "'w journal_env"
  rx_lock :: "'w lock_env"
  rx_config :: "'w \<Rightarrow> json option res \<times> 'w"
  rx_sources :: "'w \<Rightarrow> source_row list res \<times> 'w"
  rx_viewer :: "string \<Rightarrow> string \<Rightarrow> json \<Rightarrow> json \<Rightarrow> 'w \<Rightarrow> bool res \<times> 'w"
  rx_judge :: "'w Requirements.judge"
  rx_screen_judge :: "'w Requirements.judge option"
  rx_target_judge :: "'w Requirements.judge option"
  rx_others :: "pend_db \<Rightarrow> 'w \<Rightarrow> pend_db"

definition rx_hash :: "'w runtime_env \<Rightarrow> hash" where
  "rx_hash e = te_hash (rx_target e)"

definition on_engine :: "('w, 'a) engine_act \<Rightarrow> ('w, 'a) run" where
  "on_engine m s = (let (r, t) = m (rt_engine s) in (r, s\<lparr>rt_engine := t\<rparr>))"

definition outer :: "('w, 'a) act \<Rightarrow> ('w, 'a) run" where
  "outer m = on_engine (worldly m)"

text \<open>A transaction on the database: opening it can fail.\<close>

definition in_tx :: "'w runtime_env \<Rightarrow> ('w, 'a) run \<Rightarrow> ('w, 'a) run" where
  "in_tx e m = bind (outer (jn_begin (rx_journal e))) (\<lambda>u. m)"

section \<open>Configuration\<close>

text \<open>\<open>value.get(key, default)\<close>: only a dictionary has the method.\<close>

definition py_get :: "json \<Rightarrow> json \<Rightarrow> string \<Rightarrow> json res" where
  "py_get alt v k = (case v of JObj d \<Rightarrow> Inr (dget_or alt d k) | _ \<Rightarrow> Inl (OtherError ''AttributeError''))"

definition valid_config :: "dict \<Rightarrow> bool" where
  "valid_config c \<longleftrightarrow> dget c ''provider'' = JStr ''codex_exec'' \<and> dget c ''send_recorded_content'' = JBool True \<and>
     dget c ''failure_policy'' \<in> {JStr ''allow_with_warning'', JStr ''wait_for_decision''} \<and> dget c ''mode'' = JStr ''enforce''"

definition configuration :: "string \<Rightarrow> json option \<Rightarrow> dict option res" where
  "configuration ws found =
     (case found of
        None \<Rightarrow> Inr None
      | Some v \<Rightarrow>
          (case py_get (JObj []) v ''workspaces'' of
             Inl x \<Rightarrow> Inl x
           | Inr all \<Rightarrow>
               (case py_get JNull all ws of
                  Inl x \<Rightarrow> Inl x
                | Inr JNull \<Rightarrow> Inr None
                | Inr (JObj c) \<Rightarrow>
                    if \<not> valid_config c then Inl (GraphUnavailable ''invalid_semantic_configuration'')
                    else Inr (Some (dict_set ''failure_policy'' (JStr ''wait_for_decision'') c))
                | Inr v \<Rightarrow> Inl (OtherError ''AttributeError''))))"

definition read_config :: "'w runtime_env \<Rightarrow> string \<Rightarrow> ('w, dict option) run" where
  "read_config e ws = bind (outer (rx_config e)) (\<lambda>found. pure (configuration ws found))"

section \<open>What the host is told\<close>

text \<open>The texts for the user are parameters: a character here is a code point below 256.\<close>

record wording =
  wd_content :: string
  wd_path :: string
  wd_hold :: string
  wd_close :: string

definition deny :: "string \<Rightarrow> dict" where
  "deny reason = [(''hookSpecificOutput'', JObj [(''hookEventName'', JStr ''PreToolUse''), (''permissionDecision'', JStr ''deny''),
     (''permissionDecisionReason'', JStr reason)])]"

definition hook_output :: "wording \<Rightarrow> dict \<Rightarrow> string \<Rightarrow> dict res" where
  "hook_output wd result phase =
     (if phase \<noteq> ''pre_tool_use'' then Inr []
      else case fetch result ''action'' of
          Inl x \<Rightarrow> Inl x
        | Inr action \<Rightarrow>
            if action = JStr ''block''
            then Inr (deny (if dget result ''reason'' = JStr ''protected_content_match'' then wd_content wd else wd_path wd))
            else if action = JStr ''unavailable'' \<or> action = JStr ''pending''
            then (case fetch result ''reason'' of
                Inl x \<Rightarrow> Inl x
              | Inr (JStr reason) \<Rightarrow> Inr (deny (wd_hold wd @ reason @ wd_close wd))
              | Inr v \<Rightarrow> Inl (TypeError ''can only concatenate str''))
            else Inr [])"

section \<open>Screening\<close>

definition EXTERNALITY_VERSION :: string where
  "EXTERNALITY_VERSION = ''explicit-outbound-v3''"

definition screen_records :: "event_row list \<Rightarrow> hook_event \<Rightarrow> dict" where
  "screen_records evs ev =
     (let row = event_by_id evs (he_id ev)
      in [(''workspace_root'', case row of None \<Rightarrow> JNull | Some r \<Rightarrow> JStr (er_root r)),
          (''resolved_cwd'', case row of None \<Rightarrow> JNull | Some r \<Rightarrow> opt_json (er_execution_cwd r)),
          (''stage'', JStr ''externality''), (''tool_name'', dget (he_payload ev) ''tool_name''),
          (''tool_input'', dget (he_payload ev) ''tool_input''), (''workspace'', JStr (he_workspace ev))])"

definition screen_request :: "hash \<Rightarrow> string \<Rightarrow> hook_event \<Rightarrow> dict \<Rightarrow> string" where
  "screen_request H model ev records =
     digest H (JArr [JStr EXTERNALITY_VERSION, JStr model, JStr (he_id ev), JObj records])"

definition screened :: "json \<Rightarrow> dict res" where
  "screened v = (case v of
      JObj d \<Rightarrow>
        if dget d ''externality'' \<notin> {JStr ''local'', JStr ''external''} \<or> \<not> is_bool (dget d ''complete'') \<or> \<not> is_str (dget d ''reason'')
        then Inl (GraphUnavailable ''externality_invalid'')
        else
          (let base = [(''externality'', dget d ''externality''), (''complete'', dget d ''complete''), (''reason'', dget d ''reason''),
                 (''resources'', if is_arr (dget d ''resources'') then dget d ''resources'' else JArr [])]
           in case (case dget d ''transmission'' of
                      JObj t \<Rightarrow> (case validate_targets (JObj t) of
                          Inr u \<Rightarrow> Inr (base @ [(''transmission'', JObj t)])
                        | Inl x \<Rightarrow> if is_value_error x then Inr base else Inl x)
                    | _ \<Rightarrow> Inr base) of
                Inl x \<Rightarrow> Inl x
              | Inr verdict \<Rightarrow>
                  if dget d ''complete'' = JBool False then Inl (GraphUnavailable ''externality_incomplete'') else Inr verdict)
    | _ \<Rightarrow> Inl (OtherError ''AttributeError''))"

definition ask_screen :: "'w Requirements.judge \<Rightarrow> dict \<Rightarrow> ('w, dict) run" where
  "ask_screen judge records =
     (if 64000 < json_bytes (JObj records) then raise (GraphUnavailable ''externality_input_large'')
      else
        bind (case communication_contract (dget records ''tool_name'') (dget records ''tool_input'') of
                Some d \<Rightarrow> ret (JObj d) | None \<Rightarrow> outer (judge (JObj records))) (\<lambda>v. pure (screened v)))"

definition is_provider_error :: "exn \<Rightarrow> bool" where
  "is_provider_error x \<longleftrightarrow> (case x of JudgeProviderError m \<Rightarrow> True | _ \<Rightarrow> False)"

definition screen_externality :: "'w runtime_env \<Rightarrow> hook_event \<Rightarrow> string \<Rightarrow> 'w Requirements.judge \<Rightarrow> ('w, dict) run" where
  "screen_externality e ev model judge =
     in_tx e (bind (gets (\<lambda>s. screen_records (rt_events s) ev)) (\<lambda>records.
       let request = screen_request (rx_hash e) model ev records in
       in_tx e (bind (gets (\<lambda>s. map_of (rt_screens s) request)) (\<lambda>cached.
         case cached of
           Some (event, verdict) \<Rightarrow> ret verdict
         | None \<Rightarrow>
             bind (attempt (ask_screen judge records)
                     (\<lambda>x. if is_graph_unavailable x \<or> is_provider_error x then raise x else raise (GraphUnavailable ''externality_invalid'')))
               (\<lambda>verdict.
                 in_tx e (bind (modify (\<lambda>s. s\<lparr>rt_screens := ins_replace fst (request, he_id ev, verdict) (rt_screens s)\<rparr>)) (\<lambda>u.
                   ret verdict)))))))"

section \<open>The judges\<close>

text \<open>The sources as the decision uses them, read from the table at the time.\<close>

definition known_sources :: "'w runtime_env \<Rightarrow> string \<Rightarrow> ('w, dict list) act" where
  "known_sources e ws = bind (rx_sources e) (\<lambda>t. pure (map_sum id (map as_root) (list_protected_sources t ws)))"

text \<open>A delivery being judged: its row in the journal, its configured model, when the judgment started,
  the deadline of the delivery, and whether it is a background analysis.\<close>

record judging =
  jd_row :: event_row
  jd_session :: string
  jd_tool :: string
  jd_model :: string
  jd_started :: time
  jd_deadline :: "time option"
  jd_background :: bool

definition out_of_time :: "'w runtime_env \<Rightarrow> judging \<Rightarrow> ('w, bool) act" where
  "out_of_time e j =
     bind (tick (sl_clock (rx_lock e))) (\<lambda>now.
       if 480000 < now - jd_started j then ret True
       else case jd_deadline j of
           None \<Rightarrow> ret False
         | Some d \<Rightarrow> bind (tick (sl_clock (rx_lock e))) (\<lambda>now. ret (d \<le> now)))"

definition bounded_judge :: "'w runtime_env \<Rightarrow> judging \<Rightarrow> 'w Requirements.judge" where
  "bounded_judge e j records =
     bind (if jd_background j then someone_waits (rx_lock e) (er_workspace (jd_row j)) (jd_session j) else ret False) (\<lambda>waiting.
       if waiting then raise (GraphUnavailable ''foreground_priority'')
       else
         bind (out_of_time e j) (\<lambda>late.
           if late then raise (GraphUnavailable ''semantic_analysis_budget_exceeded'')
           else if 512000 < json_bytes records then raise (GraphUnavailable ''semantic_prompt_budget_exceeded'')
           else rx_judge e records))"

text \<open>The description the screening already gave is used when nothing is open in it.\<close>

definition screened_description :: "dict \<Rightarrow> json option" where
  "screened_description screen =
     (case dget screen ''transmission'' of
        JObj t \<Rightarrow> if dget t ''complete'' = JBool True \<and> \<not> list_ex (of_kind ''unresolved'') (targets_of (JObj t)) then Some (JObj t) else None
      | _ \<Rightarrow> None)"

definition target_judge :: "'w runtime_env \<Rightarrow> judging \<Rightarrow> dict \<Rightarrow> 'w Requirements.judge" where
  "target_judge e j screen records =
     bind (out_of_time e j) (\<lambda>late.
       if late then raise (GraphUnavailable ''semantic_analysis_budget_exceeded'')
       else case (rx_target_judge e, screened_description screen) of
           (None, Some t) \<Rightarrow>
             if truthy (dget (the_obj records) ''execution_definitions'') then rx_judge e records else ret t
         | (None, None) \<Rightarrow> rx_judge e records
         | (Some judge, _) \<Rightarrow> judge records)"

section \<open>The decision of a send\<close>

definition analysis_env :: "'w runtime_env \<Rightarrow> event_row list \<Rightarrow> judging \<Rightarrow> lineage \<Rightarrow> 'w prov_env" where
  "analysis_env e evs j ln =
     \<lparr>pe_hash = rx_hash e, pe_evidence = se_evidence (te_snap (rx_target e)), pe_judge = bounded_judge e j, pe_model = jd_model j,
      pe_events = evs, pe_bounds = te_bounds (rx_target e), pe_workspace = er_workspace (jd_row j), pe_lineage = ln\<rparr>"

definition analysis_of :: "'w engine \<Rightarrow> 'w analysis" where
  "analysis_of s = \<lparr>an_graph = eg_graph s,
     an_reviews = \<lparr>rw_parts = eg_parts s, rw_tries = eg_tries s, rw_shared = [], rw_world = eg_world s\<rparr>, an_assessed = []\<rparr>"

definition after_analysis :: "'w analysis \<Rightarrow> 'w engine \<Rightarrow> 'w engine" where
  "after_analysis a s = set_world (rw_world (an_reviews a))
     (s\<lparr>eg_graph := an_graph a, eg_parts := rw_parts (an_reviews a), eg_tries := rw_tries (an_reviews a)\<rparr>)"

definition run_analysis :: "'w runtime_env \<Rightarrow> event_row list \<Rightarrow> judging \<Rightarrow> json list option \<Rightarrow> ('w, outcome) engine_act" where
  "run_analysis e evs j evidence s =
     (let (r, a) = analyze_properties (analysis_env e evs j (sr_lineage (lo_store (eg_find s)))) (jd_session j) (er_event (jd_row j))
            evidence (known_sources e (er_workspace (jd_row j))) True (analysis_of s)
      in (r, after_analysis a s))"

definition graph_decision :: "'w runtime_env \<Rightarrow> event_row list \<Rightarrow> judging \<Rightarrow> json list option \<Rightarrow> ('w, outcome) engine_act" where
  "graph_decision e evs j evidence =
     session_lock (rx_lock e) worldly worldly (er_workspace (jd_row j)) (jd_session j) (jd_background j) (run_analysis e evs j evidence)"

definition inspection_env :: "'w runtime_env \<Rightarrow> event_row list \<Rightarrow> judging \<Rightarrow> dict \<Rightarrow> 'w inspect_env" where
  "inspection_env e evs j screen =
     \<lparr>ie_target = (rx_target e)\<lparr>te_snap := (te_snap (rx_target e))\<lparr>se_events := evs\<rparr>, te_model := jd_model j,
        te_provider := target_judge e j screen, te_make := rx_make e evs\<rparr>,
      ie_event = jd_row j, ie_session = jd_session j, ie_tool = jd_tool j, ie_current = known_sources e (er_workspace (jd_row j))\<rparr>"

definition judge_send :: "'w runtime_env \<Rightarrow> event_row list \<Rightarrow> judging \<Rightarrow> dict \<Rightarrow> string \<Rightarrow> ('w, outcome) run" where
  "judge_send e evs j screen node =
     bind (outer (known_sources e (er_workspace (jd_row j)))) (\<lambda>srcs.
     bind (outer (tick (sl_clock (rx_lock e)))) (\<lambda>started.
       let j = j\<lparr>jd_started := started\<rparr> in
       on_engine (if srcs \<noteq> [] then inspect_and_decide (inspection_env e evs j screen) srcs (graph_decision e evs j) node
                  else graph_decision e evs j None)))"

section \<open>One attempt\<close>

definition node_of :: "hash \<Rightarrow> hook_event \<Rightarrow> string" where
  "node_of H ev = ''call:'' @ digest H (JArr [JStr (he_workspace ev), he_session ev, he_tool ev])"

definition add_node :: "'w runtime_env \<Rightarrow> hook_event \<Rightarrow> ('w, unit) run" where
  "add_node e ev = in_tx e (bind (pure (text_column (he_session ev))) (\<lambda>session.
     modify (\<lambda>s. s\<lparr>rt_sem := (rt_sem s)\<lparr>sem_nodes := ins_ignore sn_node
       (placeholder (node_of (rx_hash e) ev) (he_workspace ev) (case session of None \<Rightarrow> [] | Some t \<Rightarrow> t) (he_id ev))
       (sem_nodes (rt_sem s))\<rparr>\<rparr>)))"

definition take_snapshot :: "'w runtime_env \<Rightarrow> event_row list \<Rightarrow> event_row \<Rightarrow> json list \<Rightarrow> ('w, unit) run" where
  "take_snapshot e evs row resources = on_engine (at_targets (in_both
     (snapshot_resources ((te_snap (rx_target e))\<lparr>se_events := evs\<rparr>) (rx_make e evs) (er_workspace row) (er_event row) resources)))"

definition enqueue_job :: "'w runtime_env \<Rightarrow> event_row \<Rightarrow> string \<Rightarrow> ('w, unit) run" where
  "enqueue_job e row model = in_tx e (bind (gets (\<lambda>s. enqueue row model (rt_jobs s))) (\<lambda>r.
     bind (pure r) (\<lambda>t. modify (\<lambda>s. s\<lparr>rt_jobs := t\<rparr>))))"

definition viewer_screen :: dict where
  "viewer_screen = [(''externality'', JStr ''local''), (''complete'', JBool True), (''reason'', JStr ''issued_tooluseproxy_viewer''),
     (''resources'', JArr [])]"

definition screening_judge :: "'w runtime_env \<Rightarrow> 'w Requirements.judge" where
  "screening_judge e = (case rx_screen_judge e of None \<Rightarrow> rx_judge e | Some judge \<Rightarrow> judge)"

definition decide_pre :: "'w runtime_env \<Rightarrow> hook_event \<Rightarrow> judging \<Rightarrow> string \<Rightarrow> ('w, outcome) run" where
  "decide_pre e ev j node =
     bind (outer (rx_viewer e (he_root ev) (he_workspace ev) (dget (he_payload ev) ''tool_name'') (dget (he_payload ev) ''tool_input''))) (\<lambda>viewer.
     bind (if viewer then ret viewer_screen else screen_externality e ev (jd_model j) (screening_judge e)) (\<lambda>screen.
     bind (gets rt_events) (\<lambda>evs.
     bind (take_snapshot e evs (jd_row j) (the_arr (dget_or (JArr []) screen ''resources''))) (\<lambda>u.
       if dget screen ''externality'' = JStr ''local'' \<and> truthy (dget screen ''complete'')
       then ret (outcome ''allow'' (if viewer then ''issued_tooluseproxy_viewer'' else ''local_provenance_deferred'') [] (Some node))
       else judge_send e evs j screen node))))"

definition decide_event :: "'w runtime_env \<Rightarrow> hook_event \<Rightarrow> dict \<Rightarrow> time option \<Rightarrow> bool \<Rightarrow> ('w, outcome) run" where
  "decide_event e ev config deadline background =
     (if he_workspace ev = [] \<or> \<not> truthy (he_session ev) \<or> \<not> truthy (he_tool ev)
      then raise (GraphUnavailable ''semantic_identity_missing'')
      else
        let node = node_of (rx_hash e) ev; model = config_model config in
        bind (add_node e ev) (\<lambda>u.
        bind (in_tx e (outer (known_sources e (he_workspace ev)))) (\<lambda>srcs.
        bind (gets (\<lambda>s. event_by_id (rt_events s) (he_id ev))) (\<lambda>found.
          case found of
            None \<Rightarrow> raise (OtherError ''event is not recorded'')
          | Some row \<Rightarrow>
              if he_phase ev = ''post_tool_use'' then
                bind (gets rt_events) (\<lambda>evs.
                bind (take_snapshot e evs row []) (\<lambda>u.
                bind (if srcs \<noteq> [] \<and> dget config ''background_provenance'' = JBool True then enqueue_job e row model else ret ()) (\<lambda>u.
                  ret (outcome ''observed'' ''provenance_deferred'' [] (Some node)))))
              else if srcs = [] then ret (outcome ''allow'' ''no_registered_sources'' [] (Some node))
              else decide_pre e ev \<lparr>jd_row = row, jd_session = (case er_session row of None \<Rightarrow> [] | Some t \<Rightarrow> t),
                     jd_tool = (case er_tool_use row of None \<Rightarrow> [] | Some t \<Rightarrow> t), jd_model = model, jd_started = 0,
                     jd_deadline = deadline, jd_background = background\<rparr> node))))"

section \<open>Failures\<close>

text \<open>Failures that a retry cannot repair.\<close>

definition terminal_code :: "string \<Rightarrow> bool" where
  "terminal_code m \<longleftrightarrow> starts_with ''invalid_'' m \<or> starts_with ''output_selection_'' m \<or> starts_with ''property_graph_incomplete'' m"

definition failed_outcome :: "exn \<Rightarrow> outcome" where
  "failed_outcome x =
     (let failed = outcome ''unavailable'' ''semantic_internal_error'' [] None
      in case x of
          JudgeProviderError m \<Rightarrow>
            if m = ''codex_exec_unavailable'' \<or> m = ''semantic_provider_used_tools''
            then failed\<lparr>o_reason := m, o_retryable := Some False\<rparr>
            else failed\<lparr>o_reason := m, o_scope := Some ''provider''\<rparr>
        | ReviewRetry m \<Rightarrow> failed\<lparr>o_reason := m, o_scope := Some ''review''\<rparr>
        | GraphUnavailable m \<Rightarrow>
            if terminal_code m then failed\<lparr>o_reason := m, o_retryable := Some False\<rparr> else failed\<lparr>o_reason := m\<rparr>
        | PriorityYield \<Rightarrow> failed\<lparr>o_reason := ''foreground_priority''\<rparr>
        | _ \<Rightarrow> failed\<lparr>o_error := Some (exn_class x), o_retryable := Some False\<rparr>)"

text \<open>The result as the dictionary the code passes on.\<close>

definition opt_field :: "string \<Rightarrow> json option \<Rightarrow> dict" where
  "opt_field k v = (case v of None \<Rightarrow> [] | Some v \<Rightarrow> [(k, v)])"

definition outcome_dict :: "outcome \<Rightarrow> dict" where
  "outcome_dict r =
     [(''action'', JStr (o_action r)), (''reason'', JStr (o_reason r)), (''path'', JArr (map JStr (o_path r))),
      (''node_id'', opt_json (o_node r))] @
     opt_field ''retryable'' (map_option JBool (o_retryable r)) @ opt_field ''retry_scope'' (map_option JStr (o_scope r)) @
     opt_field ''error_type'' (map_option JStr (o_error r)) @
     (if o_needs r = [] then [] else [(''evidence_needs'', JArr (o_needs r))])"

definition audit :: "'w runtime_env \<Rightarrow> hook_event \<Rightarrow> string \<Rightarrow> outcome \<Rightarrow> ('w, unit) run" where
  "audit e ev model r = in_tx e (bind (pure (text_column (he_session ev))) (\<lambda>session.
     modify (\<lambda>s. s\<lparr>rt_sem := (rt_sem s)\<lparr>sem_decisions := ins_replace sd_event
       \<lparr>sd_event = he_id ev, sd_ws = he_workspace ev, sd_sess = (case session of None \<Rightarrow> [] | Some t \<Rightarrow> t), sd_outcome = r,
        sd_model = model, sd_prompt = PROMPT_VERSION\<rparr> (sem_decisions (rt_sem s))\<rparr>\<rparr>)))"

text \<open>A delivery of a \<open>PostToolUse\<close> is only ever observed.\<close>

definition observed_only :: "hook_event \<Rightarrow> outcome \<Rightarrow> outcome" where
  "observed_only ev r = (if he_phase ev = ''post_tool_use'' \<and> o_action r \<noteq> ''unavailable'' then r\<lparr>o_action := ''observed''\<rparr> else r)"

definition audited :: "'w runtime_env \<Rightarrow> hook_event \<Rightarrow> string \<Rightarrow> outcome \<Rightarrow> ('w, dict) run" where
  "audited e ev model r =
     attempt (bind (audit e ev model r) (\<lambda>u. ret (outcome_dict r)))
       (\<lambda>x. case x of SqliteError m \<Rightarrow> ret [(''action'', JStr ''unavailable''), (''reason'', JStr ''semantic_audit_write_failed'')]
            | _ \<Rightarrow> raise x)"

definition record_again :: "'w runtime_env \<Rightarrow> hook_event \<Rightarrow> ('w, unit) run" where
  "record_again e ev s =
     (let st = lo_store (eg_find (rt_engine s));
          (r, w) = record_event (rx_journal e) ev (rt_events s) (sr_ledger st) (eg_world (rt_engine s));
          s = s\<lparr>rt_engine := set_world w (rt_engine s)\<rparr>
      in case r of
          Inl x \<Rightarrow> (Inl x, s)
        | Inr (evs, lg) \<Rightarrow> (Inr (), s\<lparr>rt_events := evs,
            rt_engine := (rt_engine s)\<lparr>eg_find := (eg_find (rt_engine s))\<lparr>lo_store := st\<lparr>sr_ledger := lg\<rparr>\<rparr>\<rparr>\<rparr>))"

definition config_error :: "exn \<Rightarrow> bool" where
  "config_error x \<longleftrightarrow> is_value_error x \<or> (case x of OSError n \<Rightarrow> True | OtherError n \<Rightarrow> n = ''AttributeError'' | _ \<Rightarrow> False)"

definition process_once :: "'w runtime_env \<Rightarrow> hook_event \<Rightarrow> time option \<Rightarrow> bool \<Rightarrow> ('w, dict option) run" where
  "process_once e ev deadline background =
     bind (attempt (bind (read_config e (he_workspace ev)) (\<lambda>c. ret (Inr c)))
             (\<lambda>x. if config_error x then ret (Inl x) else raise x)) (\<lambda>found.
       case found of
         Inl x \<Rightarrow> ret (Some [(''action'', JStr ''unavailable''), (''reason'', JStr ''invalid_semantic_configuration'')])
       | Inr None \<Rightarrow> ret None
       | Inr (Some config) \<Rightarrow>
           if he_phase ev \<noteq> ''pre_tool_use'' \<and> he_phase ev \<noteq> ''post_tool_use'' then ret (Some [])
           else
             bind (record_again e ev) (\<lambda>u.
             bind (attempt (decide_event e ev config deadline background) (\<lambda>x. ret (failed_outcome x))) (\<lambda>r.
             bind (audited e ev (config_model config) (observed_only ev r)) (\<lambda>d. ret (Some d)))))"

section \<open>A delivery\<close>

text \<open>The retry protocol runs over the table of pending judgments and the state of the engine.\<close>

definition attempts_env :: "'w runtime_env \<Rightarrow> hook_event \<Rightarrow> 'w runtime pend_env" where
  "attempts_env e ev =
     \<lparr>pe_clock = (\<lambda>s. let (t, w) = sl_clock (rx_lock e) (eg_world (rt_engine s)) in (t, s\<lparr>rt_engine := set_world w (rt_engine s)\<rparr>)),
      pe_wall = (\<lambda>s. let (t, w) = sl_wall (rx_lock e) (eg_world (rt_engine s)) in (t, s\<lparr>rt_engine := set_world w (rt_engine s)\<rparr>)),
      pe_sleep = (\<lambda>t db s. let w = sl_sleep (rx_lock e) t (eg_world (rt_engine s))
         in (rx_others e db w, s\<lparr>rt_engine := set_world w (rt_engine s)\<rparr>)),
      pe_tx = (\<lambda>s. let (r, w) = jn_begin (rx_journal e) (eg_world (rt_engine s))
         in (\<not> isl r, s\<lparr>rt_engine := set_world w (rt_engine s)\<rparr>)),
      pe_operation = (\<lambda>deadline db s. let (r, s) = process_once e ev (Some deadline) False s
         in (map_sum id (\<lambda>d. case d of None \<Rightarrow> JNull | Some d \<Rightarrow> JObj d) r, rx_others e db (eg_world (rt_engine s)), s))\<rparr>"

definition JUDGMENT_BUDGET :: time where "JUDGMENT_BUDGET = 480000"

definition MAX_ATTEMPTS :: nat where "MAX_ATTEMPTS = 3"

text \<open>The event as the table of pending judgments keys it.\<close>

definition delivery_row :: "hook_event \<Rightarrow> event_row" where
  "delivery_row ev =
     \<lparr>er_event = he_id ev, er_phase = he_phase ev,
      er_session = (if truthy (he_session ev) then (case text_column (he_session ev) of Inl x \<Rightarrow> None | Inr t \<Rightarrow> t) else None),
      er_tool_use = None, er_tool_name = JNull, er_workspace = he_workspace ev, er_root = he_root ev, er_execution_cwd = None,
      er_payload = he_payload ev, er_seq = 0\<rparr>"

definition answered :: "wording \<Rightarrow> dict \<Rightarrow> string \<Rightarrow> dict option res" where
  "answered wd d phase = map_sum id Some (hook_output wd d phase)"

text \<open>\<open>None\<close> means that the workspace is not configured.\<close>

definition process_hook :: "'w runtime_env \<Rightarrow> wording \<Rightarrow> hook_event \<Rightarrow> string \<Rightarrow> nat \<Rightarrow> pend_db \<Rightarrow> 'w runtime
    \<Rightarrow> dict option res \<times> pend_db \<times> 'w runtime" where
  "process_hook e wd ev owner fuel db s =
     (if he_phase ev \<noteq> ''pre_tool_use'' then
        (case process_once e ev None False s of
           (Inl x, s) \<Rightarrow> (Inl x, db, s)
         | (Inr None, s) \<Rightarrow> (Inr None, db, s)
         | (Inr (Some d), s) \<Rightarrow> (answered wd d (he_phase ev), db, s))
      else
        (case read_config e (he_workspace ev) s of
           (Inl x, s) \<Rightarrow>
             (answered wd [(''action'', JStr ''pending''), (''reason'', JStr ''invalid_semantic_configuration'')] (he_phase ev), db, s)
         | (Inr None, s) \<Rightarrow> (Inr None, db, s)
         | (Inr (Some config), s) \<Rightarrow>
             (case decide (attempts_env e ev) (delivery_row ev) owner MAX_ATTEMPTS JUDGMENT_BUDGET fuel db s of
                (None, db, s) \<Rightarrow> (Inl (OtherError ''fuel''), db, s)
              | (Some d, db, s) \<Rightarrow> (answered wd d (he_phase ev), db, s))))"

section \<open>When a call passes\<close>

lemma fetch_text: "dget d k = JStr t \<Longrightarrow> fetch d k = Inr (JStr t)"
  by (auto simp: fetch_def dget_or_def split: option.splits)

lemma hook_output_passes:
  assumes "hook_output wd d ''pre_tool_use'' = Inr []"
  shows "\<not> action_in [''block'', ''unavailable'', ''pending''] d"
proof
  assume "action_in [''block'', ''unavailable'', ''pending''] d"
  then obtain a where "fetch d ''action'' = Inr (JStr a)" and a: "a \<in> {''block'', ''unavailable'', ''pending''}"
    by (auto simp: action_in_def fetch_text split: json.splits)
  with assms show False by (auto simp: hook_output_def deny_def split: sum.splits if_splits json.splits)
qed

lemma action_in_str: "action_in acts d \<longleftrightarrow> (\<exists>a. dget d ''action'' = JStr a \<and> a \<in> set acts)"
  by (auto simp: action_in_def split: json.splits)

lemma outcome_dict_action [simp]: "dget (outcome_dict r) ''action'' = JStr (o_action r)"
  "dget (outcome_dict r) ''reason'' = JStr (o_reason r)"
  by (simp_all add: outcome_dict_def dget_or_def)

lemma failed_not_allow: "o_action (failed_outcome x) = ''unavailable''"
  by (cases x) (simp_all add: failed_outcome_def outcome_def Let_def)

lemma on_engine_Inr: "on_engine m s = (Inr x, t) \<longleftrightarrow> (\<exists>u. m (rt_engine s) = (Inr x, u) \<and> t = s\<lparr>rt_engine := u\<rparr>)"
  by (auto simp: on_engine_def split: prod.splits)

lemma outer_Inr: "outer m s = (Inr x, t) \<Longrightarrow> \<exists>w w'. m w = (Inr x, w')"
  by (auto simp: outer_def on_engine_Inr worldly_Inr)

lemma in_tx_Inr: "in_tx e m s = (Inr x, t) \<Longrightarrow> \<exists>s'. m s' = (Inr x, t)"
  by (auto simp: in_tx_def bind_Inr)

text \<open>
  Why a judgment lets a call pass, as the chain of the states of its run: each step below runs in the
  state the step before it left, from the state \<open>s\<close> at the start to the state \<open>t\<close> at the end.
  The provenance decides under the lock of the session and finds no protected path.
\<close>

definition analysed :: "'w runtime_env \<Rightarrow> event_row list \<Rightarrow> judging \<Rightarrow> outcome \<Rightarrow> json list option \<Rightarrow> 'w engine \<Rightarrow> 'w engine \<Rightarrow> bool" where
  "analysed e evs j r evidence s t \<longleftrightarrow> (\<exists>owner s1 s2.
     took_lock (rx_lock e) worldly worldly (er_workspace (jd_row j)) (jd_session j) (jd_background j) owner s s1 \<and>
     run_analysis e evs j evidence s1 = (Inr r, s2) \<and> o_reason r = ''no_protected_path_observed'' \<and>
     left_lock (rx_lock e) worldly (er_workspace (jd_row j)) (jd_session j) (jd_background j) owner s2 t)"

text \<open>The sources are read again; with none left the provenance decides alone, otherwise the send is
  inspected.\<close>

definition send_allowed :: "'w runtime_env \<Rightarrow> event_row list \<Rightarrow> judging \<Rightarrow> dict \<Rightarrow> string \<Rightarrow> outcome \<Rightarrow> 'w runtime \<Rightarrow> 'w runtime \<Rightarrow> bool" where
  "send_allowed e evs j screen node r s t \<longleftrightarrow> (\<exists>srcs s1 started s2 u. let j = j\<lparr>jd_started := started\<rparr> in
     outer (known_sources e (er_workspace (jd_row j))) s = (Inr srcs, s1) \<and>
     outer (tick (sl_clock (rx_lock e))) s1 = (Inr started, s2) \<and> t = s2\<lparr>rt_engine := u\<rparr> \<and>
     (if srcs = [] then analysed e evs j r None (rt_engine s2) u
      else \<exists>rs rn dlp. inspection_run (inspection_env e evs j screen) srcs (analysed e evs j r) node rs rn dlp (rt_engine s2) u))"

definition screened_local :: "dict \<Rightarrow> bool" where
  "screened_local screen \<longleftrightarrow> dget screen ''externality'' = JStr ''local'' \<and> truthy (dget screen ''complete'')"

definition issued_viewer :: "'w runtime_env \<Rightarrow> hook_event \<Rightarrow> bool \<Rightarrow> 'w runtime \<Rightarrow> 'w runtime \<Rightarrow> bool" where
  "issued_viewer e ev issued s t \<longleftrightarrow>
     outer (rx_viewer e (he_root ev) (he_workspace ev) (dget (he_payload ev) ''tool_name'') (dget (he_payload ev) ''tool_input'')) s = (Inr issued, t)"

text \<open>The call opens the viewer issued for the workspace; or it is screened in this run and is a complete
  local operation; or it is not, and the send is allowed.\<close>

definition call_allowed :: "'w runtime_env \<Rightarrow> hook_event \<Rightarrow> judging \<Rightarrow> string \<Rightarrow> outcome \<Rightarrow> 'w runtime \<Rightarrow> 'w runtime \<Rightarrow> bool" where
  "call_allowed e ev j node r s t \<longleftrightarrow>
     o_reason r = ''issued_tooluseproxy_viewer'' \<and> (\<exists>s1. issued_viewer e ev True s s1 \<and>
       take_snapshot e (rt_events s1) (jd_row j) [] s1 = (Inr (), t)) \<or>
     (\<exists>s1 screen s2 s3. issued_viewer e ev False s s1 \<and>
       screen_externality e ev (jd_model j) (screening_judge e) s1 = (Inr screen, s2) \<and>
       take_snapshot e (rt_events s2) (jd_row j) (the_arr (dget_or (JArr []) screen ''resources'')) s2 = (Inr (), s3) \<and>
       (if screened_local screen then o_reason r = ''local_provenance_deferred'' \<and> t = s3
        else send_allowed e (rt_events s2) j screen node r s3 t))"

text \<open>No source is registered for the workspace, or the recorded call is allowed.\<close>

definition may_pass :: "'w runtime_env \<Rightarrow> hook_event \<Rightarrow> dict \<Rightarrow> time option \<Rightarrow> bool \<Rightarrow> outcome \<Rightarrow> 'w runtime \<Rightarrow> 'w runtime \<Rightarrow> bool" where
  "may_pass e ev config deadline background r s t \<longleftrightarrow> (\<exists>s1 srcs s2 row. add_node e ev s = (Inr (), s1) \<and>
     in_tx e (outer (known_sources e (he_workspace ev))) s1 = (Inr srcs, s2) \<and> event_by_id (rt_events s2) (he_id ev) = Some row \<and>
     (if srcs = [] then o_reason r = ''no_registered_sources'' \<and> t = s2
      else call_allowed e ev \<lparr>jd_row = row, jd_session = (case er_session row of None \<Rightarrow> [] | Some t \<Rightarrow> t),
             jd_tool = (case er_tool_use row of None \<Rightarrow> [] | Some t \<Rightarrow> t), jd_model = config_model config, jd_started = 0,
             jd_deadline = deadline, jd_background = background\<rparr> (node_of (rx_hash e) ev) r s2 t))"

text \<open>With an external effect required, the only allow of the graph is a clean and complete ancestry.\<close>

lemma bind_InrE:
  assumes "bind m f s = (Inr y, t)"
  obtains x s' where "m s = (Inr x, s')" and "f x s' = (Inr y, t)"
  using assms by (auto simp: bind_Inr)

lemma analyze_properties_decides:
  assumes "analyze_properties e sess event evidence refresh ext s = (Inr r, t)"
  shows "\<exists>node rvn verdict srcs db db'. decide_properties (pe_hash e) (pe_workspace e) sess event node rvn verdict srcs ext db = (Inr r, db')"
proof -
  from assms obtain x s1 where "(\<lambda>(node, rvn, verdict). bind (Provenance.in_world refresh) (\<lambda>srcs s.
       let (r, db) = decide_properties (pe_hash e) (pe_workspace e) sess event node rvn verdict srcs ext (an_graph s)
       in (r, s\<lparr>an_graph := db\<rparr>))) x s1 = (Inr r, t)"
    unfolding analyze_properties_def by (elim bind_InrE) (rule that)
  then obtain node rvn verdict where "bind (Provenance.in_world refresh) (\<lambda>srcs s.
       let (r, db) = decide_properties (pe_hash e) (pe_workspace e) sess event node rvn verdict srcs ext (an_graph s)
       in (r, s\<lparr>an_graph := db\<rparr>)) s1 = (Inr r, t)" by (cases x) simp
  then obtain srcs s2 where "(let (r, db) = decide_properties (pe_hash e) (pe_workspace e) sess event node rvn verdict srcs ext (an_graph s2)
       in (r, s2\<lparr>an_graph := db\<rparr>)) = (Inr r, t)" by (elim bind_InrE) (rule that)
  moreover obtain q db where "decide_properties (pe_hash e) (pe_workspace e) sess event node rvn verdict srcs ext (an_graph s2) = (q, db)" by fastforce
  ultimately have "decide_properties (pe_hash e) (pe_workspace e) sess event node rvn verdict srcs ext (an_graph s2) = (Inr r, db)" by simp
  then show ?thesis by blast
qed

lemma run_analysis_allow:
  assumes "run_analysis e evs j evidence s = (Inr r, t)" and "o_action r = ''allow''"
  shows "o_reason r = ''no_protected_path_observed''"
proof -
  let ?a = "analyze_properties (analysis_env e evs j (sr_lineage (lo_store (eg_find s)))) (jd_session j) (er_event (jd_row j))
      evidence (known_sources e (er_workspace (jd_row j))) True (analysis_of s)"
  from assms(1) have "?a = (Inr r, snd ?a)" unfolding run_analysis_def by (cases ?a) (simp only: Let_def case_prod_conv prod.inject snd_conv)
  from analyze_properties_decides [OF this] obtain node rvn verdict srcs db db' where
    "decide_properties (pe_hash (analysis_env e evs j (sr_lineage (lo_store (eg_find s))))) (pe_workspace (analysis_env e evs j (sr_lineage (lo_store (eg_find s)))))
       (jd_session j) (er_event (jd_row j)) node rvn verdict srcs True db = (Inr r, db')" by (elim exE)
  then obtain path complete policy where "graph_action (dget verdict ''externality'') True path complete policy = (o_action r, o_reason r)"
    by (rule decide_properties_answer)
  with assms(2) show ?thesis by (auto simp: graph_action_def split: if_splits)
qed

lemma graph_decision_allow:
  assumes "graph_decision e evs j evidence s = (Inr r, t)" and "o_action r = ''allow''"
  shows "analysed e evs j r evidence s t"
proof -
  from session_lock_Inr [OF assms(1) [unfolded graph_decision_def]] obtain owner s1 s2 where
    "took_lock (rx_lock e) worldly worldly (er_workspace (jd_row j)) (jd_session j) (jd_background j) owner s s1"
    and run: "run_analysis e evs j evidence s1 = (Inr r, s2)"
    and "left_lock (rx_lock e) worldly (er_workspace (jd_row j)) (jd_session j) (jd_background j) owner s2 t" by blast
  with run_analysis_allow [OF run assms(2)] show ?thesis unfolding analysed_def by blast
qed

lemma inspect_and_decide_allow:
  assumes i: "inspect_and_decide (inspection_env e evs j screen) srcs (graph_decision e evs j) node s = (Inr r, t)"
    and a: "o_action r = ''allow''"
  shows "\<exists>rs rn dlp. inspection_run (inspection_env e evs j screen) srcs (analysed e evs j r) node rs rn dlp s t"
proof -
  from inspect_allow_graph [OF i a] obtain evidence b c where "graph_decision e evs j evidence b = (Inr r, c)" by blast
  from graph_decision_allow [OF this a] have "o_reason r = ''no_protected_path_observed''" unfolding analysed_def by blast
  then have "o_reason r \<noteq> ''local_operation''" by simp
  from allowed_inspection [OF i a this] obtain rs rn dlp where
    "inspection_run (inspection_env e evs j screen) srcs (\<lambda>evidence a b. graph_decision e evs j evidence a = (Inr r, b)) node rs rn dlp s t" by blast
  with inspection_run_mono [of "\<lambda>evidence a b. graph_decision e evs j evidence a = (Inr r, b)" "analysed e evs j r"] graph_decision_allow [OF _ a]
  show ?thesis by blast
qed

lemma judge_send_allow:
  assumes "judge_send e evs j screen node s = (Inr r, t)" and "o_action r = ''allow''"
  shows "send_allowed e evs j screen node r s t"
proof -
  from assms(1) obtain srcs s1 started s2 where src: "outer (known_sources e (er_workspace (jd_row j))) s = (Inr srcs, s1)"
    and c: "outer (tick (sl_clock (rx_lock e))) s1 = (Inr started, s2)"
    and r: "on_engine (if srcs \<noteq> [] then inspect_and_decide (inspection_env e evs (j\<lparr>jd_started := started\<rparr>) screen) srcs
        (graph_decision e evs (j\<lparr>jd_started := started\<rparr>)) node
      else graph_decision e evs (j\<lparr>jd_started := started\<rparr>) None) s2 = (Inr r, t)"
    unfolding judge_send_def Let_def bind_Inr by blast
  let ?j = "j\<lparr>jd_started := started\<rparr>"
  from r obtain u where u: "(if srcs \<noteq> [] then inspect_and_decide (inspection_env e evs ?j screen) srcs (graph_decision e evs ?j) node
      else graph_decision e evs ?j None) (rt_engine s2) = (Inr r, u)" and t: "t = s2\<lparr>rt_engine := u\<rparr>" by (auto simp: on_engine_Inr)
  have "if srcs = [] then analysed e evs ?j r None (rt_engine s2) u
      else \<exists>rs rn dlp. inspection_run (inspection_env e evs ?j screen) srcs (analysed e evs ?j r) node rs rn dlp (rt_engine s2) u"
  proof (cases "srcs = []")
    case True
    with u have "graph_decision e evs ?j None (rt_engine s2) = (Inr r, u)" by simp
    from graph_decision_allow [OF this assms(2)] True show ?thesis by simp
  next
    case False
    with u have "inspect_and_decide (inspection_env e evs ?j screen) srcs (graph_decision e evs ?j) node (rt_engine s2) = (Inr r, u)" by simp
    from inspect_and_decide_allow [OF this assms(2)] False show ?thesis by simp
  qed
  with src c t show ?thesis unfolding send_allowed_def Let_def
    by (intro exI [of _ srcs] exI [of _ s1] exI [of _ started] exI [of _ s2] exI [of _ u]) simp
qed

lemma decide_pre_allow:
  assumes "decide_pre e ev j node s = (Inr r, t)" and "o_action r = ''allow''"
  shows "call_allowed e ev j node r s t"
proof -
  from assms(1) obtain viewer s1 screen s2 s3 where
    v: "issued_viewer e ev viewer s s1"
    and sc: "(if viewer then ret viewer_screen else screen_externality e ev (jd_model j) (screening_judge e)) s1 = (Inr screen, s2)"
    and sn: "take_snapshot e (rt_events s2) (jd_row j) (the_arr (dget_or (JArr []) screen ''resources'')) s2 = (Inr (), s3)"
    and r: "(if dget screen ''externality'' = JStr ''local'' \<and> truthy (dget screen ''complete'')
       then ret (outcome ''allow'' (if viewer then ''issued_tooluseproxy_viewer'' else ''local_provenance_deferred'') [] (Some node))
       else judge_send e (rt_events s2) j screen node) s3 = (Inr r, t)"
    unfolding decide_pre_def issued_viewer_def by (auto simp only: bind_Inr gets_Inr ex_unit)
  show ?thesis
  proof (cases viewer)
    case True
    with sc have "screen = viewer_screen" "s2 = s1" by (simp_all add: ret_Inr)
    with True v sn r show ?thesis
      by (auto simp: call_allowed_def viewer_screen_def dget_or_def ret_Inr outcome_def)
  next
    case False
    with sc v have f: "issued_viewer e ev False s s1" "screen_externality e ev (jd_model j) (screening_judge e) s1 = (Inr screen, s2)" by simp_all
    have "if screened_local screen then o_reason r = ''local_provenance_deferred'' \<and> t = s3
        else send_allowed e (rt_events s2) j screen node r s3 t"
      using r False judge_send_allow [OF _ assms(2)] by (auto simp: screened_local_def ret_Inr outcome_def)
    with f sn show ?thesis unfolding call_allowed_def by (intro disjI2) blast
  qed
qed

lemma decide_event_allow:
  assumes "decide_event e ev config deadline background s = (Inr r, t)" and "o_action r = ''allow''"
  shows "may_pass e ev config deadline background r s t"
proof -
  let ?node = "node_of (rx_hash e) ev" and ?model = "config_model config"
  have id: "\<not> (he_workspace ev = [] \<or> \<not> truthy (he_session ev) \<or> \<not> truthy (he_tool ev))"
  proof
    assume c: "he_workspace ev = [] \<or> \<not> truthy (he_session ev) \<or> \<not> truthy (he_tool ev)"
    show False using assms(1) unfolding decide_event_def if_P [OF c] by (simp only: raise_Inr)
  qed
  from assms(1) [unfolded decide_event_def if_not_P [OF id] Let_def] obtain s1 srcs s2 found where
    node: "add_node e ev s = (Inr (), s1)"
    and src: "in_tx e (outer (known_sources e (he_workspace ev))) s1 = (Inr srcs, s2)"
    and f: "found = event_by_id (rt_events s2) (he_id ev)"
    and r: "(case found of
            None \<Rightarrow> raise (OtherError ''event is not recorded'')
          | Some row \<Rightarrow>
              if he_phase ev = ''post_tool_use'' then
                bind (gets rt_events) (\<lambda>evs.
                bind (take_snapshot e evs row []) (\<lambda>u.
                bind (if srcs \<noteq> [] \<and> dget config ''background_provenance'' = JBool True then enqueue_job e row ?model else ret ()) (\<lambda>u.
                  ret (outcome ''observed'' ''provenance_deferred'' [] (Some ?node)))))
              else if srcs = [] then ret (outcome ''allow'' ''no_registered_sources'' [] (Some ?node))
              else decide_pre e ev \<lparr>jd_row = row, jd_session = (case er_session row of None \<Rightarrow> [] | Some t \<Rightarrow> t),
                     jd_tool = (case er_tool_use row of None \<Rightarrow> [] | Some t \<Rightarrow> t), jd_model = ?model, jd_started = 0,
                     jd_deadline = deadline, jd_background = background\<rparr> ?node) s2 = (Inr r, t)"
    by (auto simp only: bind_Inr gets_Inr ex_unit)
  from r obtain row where row: "found = Some row" by (cases found) (auto simp: raise_Inr)
  consider (post) "he_phase ev = ''post_tool_use''" | (none) "he_phase ev \<noteq> ''post_tool_use''" "srcs = []"
    | (some) "he_phase ev \<noteq> ''post_tool_use''" "srcs \<noteq> []" by blast
  then show ?thesis
  proof cases
    case post
    with r row assms(2) show ?thesis by (auto simp: bind_Inr ret_Inr outcome_def)
  next
    case none
    with r row have "o_reason r = ''no_registered_sources'' \<and> t = s2" by (simp add: ret_Inr outcome_def)
    moreover from f row have "event_by_id (rt_events s2) (he_id ev) = Some row" by simp
    ultimately show ?thesis using node src none unfolding may_pass_def by auto
  next
    case some
    with r row have "decide_pre e ev \<lparr>jd_row = row, jd_session = (case er_session row of None \<Rightarrow> [] | Some t \<Rightarrow> t),
        jd_tool = (case er_tool_use row of None \<Rightarrow> [] | Some t \<Rightarrow> t), jd_model = ?model, jd_started = 0,
        jd_deadline = deadline, jd_background = background\<rparr> ?node s2 = (Inr r, t)" by simp
    moreover from f row have "event_by_id (rt_events s2) (he_id ev) = Some row" by simp
    ultimately show ?thesis using decide_pre_allow [OF _ assms(2)] node src some unfolding may_pass_def by auto
  qed
qed

lemma map_sum_obj:
  assumes "map_sum id (\<lambda>d. case d of None \<Rightarrow> JNull | Some d \<Rightarrow> JObj d) r = Inr (JObj d)"
  shows "r = Inr (Some d)"
  using assms by (cases r) (auto split: option.splits)

lemma observed_only_allow: "o_action (observed_only ev r) = ''allow'' \<Longrightarrow> observed_only ev r = r \<and> o_action r = ''allow''"
  by (auto simp: observed_only_def split: if_splits)

lemma audited_allow:
  assumes "audited e ev model r s = (Inr d, t)" and "dget d ''action'' = JStr ''allow''"
  shows "d = outcome_dict r \<and> audit e ev model r s = (Inr (), t)"
proof -
  let ?failed = "[(''action'', JStr ''unavailable''), (''reason'', JStr ''semantic_audit_write_failed'')]"
  have h: "(case x of SqliteError m \<Rightarrow> ret ?failed | _ \<Rightarrow> raise x) s1 = (Inr d, t) \<Longrightarrow> d = ?failed" for x s1
    by (cases x) (auto simp: ret_Inr raise_Inr)
  have "dget ?failed ''action'' \<noteq> JStr ''allow''" by (simp add: dget_or_def)
  with assms h show ?thesis by (auto simp only: audited_def attempt_Inr bind_Inr ret_Inr ex_unit)
qed

text \<open>What the audit leaves: the row of the event holds the outcome.\<close>

definition audit_shows :: "hook_event \<Rightarrow> string \<Rightarrow> outcome \<Rightarrow> 'w runtime \<Rightarrow> bool" where
  "audit_shows ev model r s \<longleftrightarrow> (\<exists>row. filter (\<lambda>x. sd_event x = he_id ev) (sem_decisions (rt_sem s)) = [row] \<and>
     sd_ws row = he_workspace ev \<and> sd_model row = model \<and> sd_outcome row = r)"

lemma audit_written: "audit e ev model r s = (Inr (), t) \<Longrightarrow> audit_shows ev model r t"
  by (auto simp: audit_def in_tx_def audit_shows_def ins_replace_def act_Inr)

lemma audit_shows_tx: "audit_shows ev model r s \<Longrightarrow> pe_tx (attempts_env e ev') s = (ok, t) \<Longrightarrow> audit_shows ev model r t"
  by (auto simp: attempts_env_def audit_shows_def split: prod.splits)

lemma operation_runs:
  assumes "pe_operation (attempts_env e ev) dl db s = (Inr (JObj d), db', t)"
  shows "process_once e ev (Some dl) False s = (Inr (Some d), t) \<and> db' = rx_others e db (eg_world (rt_engine t))"
proof -
  obtain q u where q: "process_once e ev (Some dl) False s = (q, u)" by fastforce
  with assms map_sum_obj [of q d] show ?thesis by (auto simp: attempts_env_def)
qed

text \<open>One attempt that allows: it reads the configuration, records the event, decides, and audits.\<close>

definition allowing_attempt :: "'w runtime_env \<Rightarrow> hook_event \<Rightarrow> time option \<Rightarrow> bool \<Rightarrow> dict \<Rightarrow> outcome \<Rightarrow> 'w runtime \<Rightarrow> 'w runtime \<Rightarrow> bool" where
  "allowing_attempt e ev deadline background config r s t \<longleftrightarrow> (\<exists>s1 s2 s3.
     read_config e (he_workspace ev) s = (Inr (Some config), s1) \<and> record_again e ev s1 = (Inr (), s2) \<and>
     may_pass e ev config deadline background r s2 s3 \<and> o_action r = ''allow'' \<and>
     audit e ev (config_model config) r s3 = (Inr (), t))"

lemma process_once_allow:
  assumes "process_once e ev deadline background s = (Inr (Some d), t)" and "dget d ''action'' = JStr ''allow''"
  shows "\<exists>config r. d = outcome_dict r \<and> allowing_attempt e ev deadline background config r s t"
proof -
  from assms(1) obtain found :: "exn + dict option" and s1 where
    cf: "attempt (bind (read_config e (he_workspace ev)) (\<lambda>c. ret (Inr c))) (\<lambda>x. if config_error x then ret (Inl x) else raise x) s = (Inr found, s1)"
    and f: "(case found of
         Inl x \<Rightarrow> ret (Some [(''action'', JStr ''unavailable''), (''reason'', JStr ''invalid_semantic_configuration'')])
       | Inr None \<Rightarrow> ret None
       | Inr (Some config) \<Rightarrow>
           if he_phase ev \<noteq> ''pre_tool_use'' \<and> he_phase ev \<noteq> ''post_tool_use'' then ret (Some [])
           else
             bind (record_again e ev) (\<lambda>u.
             bind (attempt (decide_event e ev config deadline background) (\<lambda>x. ret (failed_outcome x))) (\<lambda>r.
             bind (audited e ev (config_model config) (observed_only ev r)) (\<lambda>d. ret (Some d))))) s1 = (Inr (Some d), t)"
    unfolding process_once_def by (elim bind_InrE) (rule that)
  then obtain config where c: "found = Inr (Some config)"
    using assms(2) by (auto simp: ret_Inr dget_or_def split: sum.splits option.splits)
  from cf c have cfg: "read_config e (he_workspace ev) s = (Inr (Some config), s1)"
    by (auto simp: attempt_Inr bind_Inr ret_Inr raise_Inr split: if_splits)
  show ?thesis
  proof (cases "he_phase ev \<noteq> ''pre_tool_use'' \<and> he_phase ev \<noteq> ''post_tool_use''")
    case True
    with f c assms(2) show ?thesis by (auto simp: ret_Inr dget_or_def)
  next
    case False
    with f c have "bind (record_again e ev) (\<lambda>u.
             bind (attempt (decide_event e ev config deadline background) (\<lambda>x. ret (failed_outcome x))) (\<lambda>r.
             bind (audited e ev (config_model config) (observed_only ev r)) (\<lambda>d. ret (Some d)))) s1 = (Inr (Some d), t)"
      by (simp only: sum.case option.case if_False)
    then obtain r s2 s3 where ra: "record_again e ev s1 = (Inr (), s2)"
      and r: "attempt (decide_event e ev config deadline background) (\<lambda>x. ret (failed_outcome x)) s2 = (Inr r, s3)"
      and d: "audited e ev (config_model config) (observed_only ev r) s3 = (Inr d, t)"
      by (elim bind_InrE) (auto simp: ret_Inr)
    from audited_allow [OF d assms(2)] have o: "d = outcome_dict (observed_only ev r)"
      and w: "audit e ev (config_model config) (observed_only ev r) s3 = (Inr (), t)" by blast+
    from o assms(2) have "o_action (observed_only ev r) = ''allow''" by simp
    from observed_only_allow [OF this] have a: "observed_only ev r = r" "o_action r = ''allow''" by blast+
    from r a(2) have "decide_event e ev config deadline background s2 = (Inr r, s3)"
      by (auto simp: attempt_Inr ret_Inr failed_not_allow)
    from decide_event_allow [OF this a(2)] o w a cfg ra show ?thesis unfolding allowing_attempt_def by metis
  qed
qed

text \<open>A delivery that passes: \<open>db\<close>, \<open>s\<close> are the tables and the state at its start, \<open>db'\<close>, \<open>s'\<close> at its end.\<close>

definition delivery_deadline :: "'w runtime_env \<Rightarrow> hook_event \<Rightarrow> 'w runtime \<Rightarrow> time" where
  "delivery_deadline e ev s = fst (pe_clock (attempts_env e ev) s) + JUDGMENT_BUDGET"

definition passing_delivery :: "'w runtime_env \<Rightarrow> hook_event \<Rightarrow> string \<Rightarrow> 'w runtime \<Rightarrow> pend_db \<Rightarrow> 'w runtime \<Rightarrow> bool" where
  "passing_delivery e ev owner s db' s' \<longleftrightarrow> (\<exists>config0 s1 s2 config r s3 db2 n.
     read_config e (he_workspace ev) s = (Inr (Some config0), s1) \<and> pend_reach (attempts_env e ev) s1 s2 \<and>
     allowing_attempt e ev (Some (delivery_deadline e ev s1)) False config r s2 s3 \<and>
     pe_tx (attempts_env e ev) s3 = (True, s') \<and>
     record_attempt (he_id ev) owner (outcome_dict r) True (rx_others e db2 (eg_world (rt_engine s3))) = Inr (Some (n, db')) \<and>
     Pending.stored (he_id ev) owner (outcome_dict r) db' \<and> audit_shows ev (config_model config) r s')"

lemma process_hook_passes:
  assumes "process_hook e wd ev owner fuel db s = (Inr (Some []), db', s')" and "he_phase ev = ''pre_tool_use''"
  shows "passing_delivery e ev owner s db' s'"
proof -
  obtain c s1 where c: "read_config e (he_workspace ev) s = (c, s1)" by fastforce
  have deny: "answered wd [(''action'', JStr ''pending''), (''reason'', JStr x)] ''pre_tool_use'' \<noteq> Inr (Some [])" for x
    by (simp add: answered_def hook_output_def fetch_def deny_def)
  from assms c deny obtain config0 where cf: "c = Inr (Some config0)"
    by (auto simp: process_hook_def split: sum.splits option.splits)
  with assms c have p: "(case decide (attempts_env e ev) (delivery_row ev) owner MAX_ATTEMPTS JUDGMENT_BUDGET fuel db s1 of
        (None, db, s) \<Rightarrow> (Inl (OtherError ''fuel''), db, s)
      | (Some d, db, s) \<Rightarrow> (answered wd d (he_phase ev), db, s)) = (Inr (Some []), db', s')"
    by (simp add: process_hook_def)
  then obtain d where d: "decide (attempts_env e ev) (delivery_row ev) owner MAX_ATTEMPTS JUDGMENT_BUDGET fuel db s1 = (Some d, db', s')"
    and "answered wd d ''pre_tool_use'' = Inr (Some [])" using assms(2) by (auto split: prod.splits option.splits)
  then have "hook_output wd d ''pre_tool_use'' = Inr []"
    by (cases "hook_output wd d ''pre_tool_use''") (auto simp: answered_def)
  note pass = hook_output_passes [OF this]
  have id: "er_event (delivery_row ev) = he_id ev" by (simp add: delivery_row_def)
  from decide_answer [OF d] pass have k: "action_in [''allow'', ''block''] d" "Pending.stored (he_id ev) owner d db'"
    "deciding_attempt (attempts_env e ev) (he_id ev) owner (delivery_deadline e ev s1) d s1 db' s'"
    unfolding id delivery_deadline_def by (auto simp: action_in_str)
  from k(1) pass have a: "dget d ''action'' = JStr ''allow''" by (auto simp: action_in_str)
  from k(3) obtain db2 s2 db3 s3 n where reach: "pend_reach (attempts_env e ev) s1 s2"
    and op: "pe_operation (attempts_env e ev) (delivery_deadline e ev s1) db2 s2 = (Inr (JObj d), db3, s3)"
    and tx: "pe_tx (attempts_env e ev) s3 = (True, s')"
    and rec: "record_attempt (he_id ev) owner d True db3 = Inr (Some (n, db'))" unfolding deciding_attempt_def by blast
  from operation_runs [OF op] have once: "process_once e ev (Some (delivery_deadline e ev s1)) False s2 = (Inr (Some d), s3)"
    and db3: "db3 = rx_others e db2 (eg_world (rt_engine s3))" by blast+
  from process_once_allow [OF once a] obtain config r where r: "d = outcome_dict r"
    "allowing_attempt e ev (Some (delivery_deadline e ev s1)) False config r s2 s3" by blast
  from r(2) obtain s where "audit e ev (config_model config) r s = (Inr (), s3)" unfolding allowing_attempt_def by blast
  from audit_shows_tx [OF audit_written [OF this] tx] have "audit_shows ev (config_model config) r s'" .
  with c cf reach r tx rec db3 k(2) show ?thesis unfolding passing_delivery_def by blast
qed

text \<open>C2. A call only passes if a recorded, stored and audited judgment of this delivery lets it. If the
  Hook answers a PreToolUse with nothing to hold it back, then the workspace is configured and the
  last attempt of this delivery, made in a state the delivery reached and under its deadline, read
  a configuration, recorded the event, decided "allow", and audited this very outcome. The
  transaction after it recorded the attempt and left the final tables and state: there the pending
  judgment of the event, still owned by the delivery, is complete with exactly this outcome, and the
  only audit row of the event holds the same outcome. The decision (may_pass) is a run between the
  states around it, in one of five ways: no source was registered; the call opens the viewer that
  was issued for this workspace; it was screened as a complete local operation; it was inspected (the
  run of an inspection in the theory Inspection) with the provenance, under the lock of the session,
  finding no protected path; or the sources were withdrawn in the meantime and the provenance found
  the same. An exception, an exhausted budget, a lost lease, an invalid configuration or a failed
  write never lets a call pass.\<close>

theorem passed_call_was_judged:
  assumes "process_hook e wd ev owner fuel db s = (Inr (Some []), db', s')" and "he_phase ev = ''pre_tool_use''"
  shows "\<exists>config0 s1 s2 config r s3 s4 s5 s6 db2 n.
    read_config e (he_workspace ev) s = (Inr (Some config0), s1) \<and> pend_reach (attempts_env e ev) s1 s2 \<and>
    read_config e (he_workspace ev) s2 = (Inr (Some config), s3) \<and> record_again e ev s3 = (Inr (), s4) \<and>
    may_pass e ev config (Some (delivery_deadline e ev s1)) False r s4 s5 \<and> o_action r = ''allow'' \<and>
    audit e ev (config_model config) r s5 = (Inr (), s6) \<and> pe_tx (attempts_env e ev) s6 = (True, s') \<and>
    record_attempt (he_id ev) owner (outcome_dict r) True (rx_others e db2 (eg_world (rt_engine s6))) = Inr (Some (n, db')) \<and>
    Pending.stored (he_id ev) owner (outcome_dict r) db' \<and>
    (\<exists>row. filter (\<lambda>x. sd_event x = he_id ev) (sem_decisions (rt_sem s')) = [row] \<and> sd_ws row = he_workspace ev \<and>
       sd_model row = config_model config \<and> sd_outcome row = r)"
  using process_hook_passes [OF assms] unfolding passing_delivery_def allowing_attempt_def audit_shows_def by blast

section \<open>Example\<close>

text \<open>A send of one inspected value from a workspace with one registered file.\<close>

definition length_hash :: hash where
  "length_hash b = show_nat (length b)"

definition call_payload :: dict where
  "call_payload = [(''session_id'', JStr ''s''), (''tool_use_id'', JStr ''t''), (''cwd'', JStr ''/w''), (''tool_name'', JStr ''Bash''),
     (''tool_input'', JObj [(''command'', JStr ''send it'')])]"

definition call_event :: hook_event where
  "call_event = \<lparr>he_id = ''e'', he_phase = ''pre_tool_use'', he_workspace = ''ws'', he_root = ''/w'', he_session = JStr ''s'',
     he_tool = JStr ''t'', he_payload = call_payload\<rparr>"

definition call_judge :: "unit Requirements.judge" where
  "call_judge records w =
     (if dget (the_obj records) ''stage'' = JStr ''externality''
      then (Inr (JObj [(''externality'', JStr ''external''), (''complete'', JBool True), (''reason'', JStr ''visible send''),
             (''resources'', JArr []), (''transmission'', send_description)]), w)
      else (Inr (JObj [(''externality'', JStr ''external''), (''complete'', JBool True), (''reason'', JStr ''r''),
             (''dependencies'', JArr []), (''accesses'', JArr [])]), w))"

definition call_lock :: "unit lock_env" where
  "call_lock = \<lparr>sl_hash = length_hash, sl_clock = (\<lambda>w. (0, w)), sl_wall = (\<lambda>w. (0, w)), sl_sleep = (\<lambda>t w. w),
     sl_token = (\<lambda>w. (''o'', w)), sl_begin = (\<lambda>w. (Inr (), w)), sl_waiters = (\<lambda>w. []), sl_put = (\<lambda>t w. w),
     sl_directory = (\<lambda>w. (Inr (), w)), sl_open = (\<lambda>n w. (Inr (), w)), sl_flock = (\<lambda>n w. (Inr True, w)),
     sl_unlock = (\<lambda>n w. (Inr (), w)), sl_close = (\<lambda>n w. (Inr (), w))\<rparr>"

definition call_config :: json where
  "call_config = JObj [(''workspaces'', JObj [(''ws'', JObj [(''provider'', JStr ''codex_exec''), (''send_recorded_content'', JBool True),
     (''failure_policy'', JStr ''wait_for_decision''), (''mode'', JStr ''enforce'')])])]"

definition call_env :: "unit runtime_env" where
  "call_env = \<lparr>rx_target = send_env,
     rx_make = (\<lambda>evs ev keys. make_resolver (\<lambda>k b. k @ b) evs (er_workspace ev) (er_event ev) (er_root ev) ''key'' empty_files sample_repo (\<lambda>p w. (True, w)) keys),
     rx_journal = \<lparr>jn_place = plain_places, jn_hash = length_hash, jn_file = (\<lambda>w. (True, w)), jn_begin = (\<lambda>w. (Inr (), w))\<rparr>,
     rx_lock = call_lock, rx_config = (\<lambda>w. (Inr (Some call_config), w)),
     rx_sources = (\<lambda>w. (Inr [\<lparr>so_source = ''k'', so_path = ''key'', so_type = ''file'', so_sensitivity = ''high'', so_tags = JArr [],
        so_workspace = Some ''ws'', so_key = None, so_selector = JNull\<rparr>], w)),
     rx_viewer = (\<lambda>r ws n i w. (Inr False, w)), rx_judge = call_judge, rx_screen_judge = None, rx_target_judge = None,
     rx_others = (\<lambda>db w. db)\<rparr>"

definition call_state :: "unit runtime" where
  "call_state = \<lparr>rt_events = [], rt_engine = send_engine, rt_sem = \<lparr>sem_nodes = [], sem_edges = [], sem_decisions = []\<rparr>,
     rt_screens = [], rt_jobs = []\<rparr>"

definition english :: wording where
  "english = \<lparr>wd_content = ''content'', wd_path = ''path'', wd_hold = ''held: '', wd_close = []\<rparr>"

text \<open>The same workspace, asked to run a command with a local contract.\<close>

definition status_event :: hook_event where
  "status_event = call_event\<lparr>he_payload := dict_set ''tool_input'' (JObj [(''command'', JStr ''git status'')]) call_payload\<rparr>"

definition call_run :: "hook_event \<Rightarrow> dict option res \<times> pend_db \<times> unit runtime" where
  "call_run ev = process_hook call_env english ev ''o'' 3 no_judgments call_state"

theorem passed_call_was_judged_witness:
  "\<exists>r db' s'. call_run status_event = (Inr (Some []), db', s') \<and> o_action r = ''allow'' \<and>
     Pending.stored ''e'' ''o'' (outcome_dict r) db' \<and> (\<exists>row \<in> set (sem_decisions (rt_sem s')). sd_event row = ''e'' \<and> sd_outcome row = r)"
proof -
  have c: "fst (call_run status_event) = Inr (Some [])" by code_simp
  obtain db' s' where r: "call_run status_event = (Inr (Some []), db', s')" using c by (metis prod.collapse)
  have ph: "he_phase status_event = ''pre_tool_use''" and id: "he_id status_event = ''e''" by (simp_all add: status_event_def call_event_def)
  from passed_call_was_judged [OF r [unfolded call_run_def] ph, unfolded id] obtain r row where
    "o_action r = ''allow''" "Pending.stored ''e'' ''o'' (outcome_dict r) db'" "sd_outcome row = r"
    and row: "filter (\<lambda>x. sd_event x = ''e'') (sem_decisions (rt_sem s')) = [row]" by blast
  moreover from row have "row \<in> {x \<in> set (sem_decisions (rt_sem s')). sd_event x = ''e''}" by (metis list.set_intros(1) set_filter)
  ultimately show ?thesis using r by blast
qed

end
