(* ===== verification/Authority.thy ===== *)
theory Authority
  imports Effects Posix_Path Json "HOL-Library.Word"
begin

unbundle bit_operations_syntax

text \<open>
  \<open>authority_state.py\<close>, the data and the file operations of \<open>_Store\<close>: whether a project may be
  used is a small state file in a directory that only the administrator can write. This theory
  has the state and its encoding, and opening, checking, reading, locking and publishing the
  files; the operating system is a record of steps. Admission has the protocol on top of them.
\<close>

section \<open>Targets and states\<close>

record target =
  tg_uid :: int
  tg_workspace :: string
  tg_data_dir :: string

definition path_problem :: "string \<Rightarrow> exn option" where
  "path_problem p =
     (if \<not> starts_with ''/'' p \<or> char_of (0::nat) \<in> set p then Some (AuthorityError ''invalid_target_path'')
      else if normpath p \<noteq> p then Some (AuthorityError ''noncanonical_target_path'') else None)"

definition make_target :: "int \<Rightarrow> string \<Rightarrow> string \<Rightarrow> target res" where
  "make_target uid workspace data_dir =
     (if uid \<le> 0 then Inl (AuthorityError ''invalid_target_uid'')
      else case path_problem workspace of
          Some x \<Rightarrow> Inl x
        | None \<Rightarrow> (case path_problem data_dir of
            Some x \<Rightarrow> Inl x
          | None \<Rightarrow> Inr \<lparr>tg_uid = uid, tg_workspace = workspace, tg_data_dir = data_dir\<rparr>))"

definition target_json :: "target \<Rightarrow> json" where
  "target_json t = JObj [(''uid'', JInt (tg_uid t)), (''workspace'', JStr (tg_workspace t)), (''data_dir'', JStr (tg_data_dir t))]"

definition target_key :: "hash \<Rightarrow> target \<Rightarrow> string" where
  "target_key H t = H (utf8 (compact True (target_json t)))"

record state =
  st_target :: target
  st_generation :: string
  st_phase :: string
  st_operation :: string
  st_action :: string

definition state_json :: "state \<Rightarrow> json" where
  "state_json s = JObj [(''schema_version'', JInt 1), (''target'', target_json (st_target s)), (''generation'', JStr (st_generation s)),
     (''phase'', JStr (st_phase s)), (''operation'', JStr (st_operation s)), (''action'', JStr (st_action s))]"

section \<open>Reading a state\<close>

definition MAX_STATE_BYTES :: nat where "MAX_STATE_BYTES = 8192"

text \<open>What \<open>os.read\<close> gives: the number of bytes and what \<open>json.loads\<close> makes of them, every object
  with all its fields, repeated ones too. A syntax error is \<open>ValueError ''JSONDecodeError''\<close>.\<close>

record content =
  ct_bytes :: nat
  ct_json :: "json res"

definition revision :: "string \<Rightarrow> bool" where
  "revision r \<longleftrightarrow> length r = 32 \<and> set r \<subseteq> set ''0123456789abcdef''"

fun unique_objects :: "json \<Rightarrow> bool" where
  "unique_objects (JObj d) = (distinct (map fst d) \<and> list_all (\<lambda>(k, v). unique_objects v) d)"
| "unique_objects (JArr xs) = list_all unique_objects xs"
| "unique_objects v = True"

definition is_revision :: "json \<Rightarrow> bool" where
  "is_revision v = (case v of JStr r \<Rightarrow> revision r | _ \<Rightarrow> False)"

definition phases :: "string list" where "phases = [''active'', ''deactivating'', ''inactive'']"
definition actions :: "string list" where "actions = [''enroll'', ''reactivate'', ''deactivate'']"

definition one_of :: "string list \<Rightarrow> json \<Rightarrow> bool" where
  "one_of ss v = (case v of JStr s \<Rightarrow> s \<in> set ss | _ \<Rightarrow> False)"

text \<open>\<open>json.loads(raw, object_pairs_hook=_unique_object)\<close> with its handler.\<close>

definition load_unique :: "content \<Rightarrow> json res" where
  "load_unique c =
     (case ct_json c of
        Inl x \<Rightarrow> Inl (case x of UnicodeError m \<Rightarrow> AuthorityError ''invalid_authority_state''
           | ValueError m \<Rightarrow> if m = ''JSONDecodeError'' then AuthorityError ''invalid_authority_state'' else x | _ \<Rightarrow> x)
      | Inr v \<Rightarrow> if unique_objects v then Inr v else Inl (AuthorityError ''duplicate_authority_field''))"

definition binds_target :: "json \<Rightarrow> target \<Rightarrow> bool" where
  "binds_target v t = (case v of JObj b \<Rightarrow> is_int (dget b ''uid'') \<and> py_eq v (target_json t) | _ \<Rightarrow> False)"

definition check_state :: "json \<Rightarrow> target \<Rightarrow> state res" where
  "check_state v t =
     (case v of
        JObj d \<Rightarrow>
          if \<not> keys_are [''schema_version'', ''target'', ''generation'', ''phase'', ''operation'', ''action''] d
          then Inl (AuthorityError ''invalid_authority_fields'')
          else if dget d ''schema_version'' \<noteq> JInt 1 then Inl (AuthorityError ''invalid_authority_version'')
          else if \<not> binds_target (dget d ''target'') t then Inl (AuthorityError ''authority_target_mismatch'')
          else if \<not> is_revision (dget d ''generation'') \<or> \<not> is_revision (dget d ''operation'')
          then Inl (AuthorityError ''invalid_authority_revision'')
          else if \<not> one_of phases (dget d ''phase'') then Inl (AuthorityError ''invalid_authority_phase'')
          else if \<not> one_of actions (dget d ''action'') then Inl (AuthorityError ''invalid_authority_action'')
          else if (dget d ''action'' = JStr ''deactivate'') \<noteq> (dget d ''phase'' \<noteq> JStr ''active'')
          then Inl (AuthorityError ''authority_action_phase_mismatch'')
          else Inr \<lparr>st_target = t, st_generation = the_str (dget d ''generation''), st_phase = the_str (dget d ''phase''),
                 st_operation = the_str (dget d ''operation''), st_action = the_str (dget d ''action'')\<rparr>
      | _ \<Rightarrow> Inl (AuthorityError ''invalid_authority_fields''))"

definition decode_state :: "content \<Rightarrow> target \<Rightarrow> state res" where
  "decode_state c t =
     (if MAX_STATE_BYTES < ct_bytes c then Inl (AuthorityError ''authority_state_too_large'')
      else case load_unique c of Inl x \<Rightarrow> Inl x | Inr v \<Rightarrow> check_state v t)"

text \<open>The bytes \<open>_publish\<close> writes, with the closing newline.\<close>

definition encode_state :: "state \<Rightarrow> content" where
  "encode_state s = \<lparr>ct_bytes = Suc (length (utf8 (dumps True True (state_json s)))), ct_json = Inr (state_json s)\<rparr>"

text \<open>The states that are written.\<close>

definition state_ok :: "state \<Rightarrow> bool" where
  "state_ok s \<longleftrightarrow> revision (st_generation s) \<and> revision (st_operation s) \<and> st_phase s \<in> set phases \<and> st_action s \<in> set actions \<and>
     (st_action s = ''deactivate'') = (st_phase s \<noteq> ''active'')"

section \<open>The store\<close>

record metadata =
  md_directory :: bool
  md_regular :: bool
  md_uid :: int
  md_mode :: "16 word"
  md_links :: nat

record 'w store_env =
  au_hash :: hash
  au_directory :: string
  au_owner :: int
  au_euid :: int
  au_root :: "'w \<Rightarrow> nat res \<times> 'w"
  au_child :: "nat \<Rightarrow> string \<Rightarrow> 'w \<Rightarrow> nat res \<times> 'w"
  au_fstat :: "nat \<Rightarrow> 'w \<Rightarrow> metadata res \<times> 'w"
  au_writable :: "nat \<Rightarrow> 'w \<Rightarrow> bool res \<times> 'w"
  au_open :: "nat \<Rightarrow> string \<Rightarrow> 'w \<Rightarrow> nat res \<times> 'w"
  au_create :: "nat \<Rightarrow> string \<Rightarrow> 'w \<Rightarrow> nat res \<times> 'w"
  au_chmod :: "nat \<Rightarrow> 'w \<Rightarrow> unit res \<times> 'w"
  au_read :: "nat \<Rightarrow> 'w \<Rightarrow> content res \<times> 'w"
  au_flock :: "nat \<Rightarrow> bool \<Rightarrow> 'w \<Rightarrow> bool res \<times> 'w"
  au_uuid :: "'w \<Rightarrow> string \<times> 'w"
  au_temporary :: "nat \<Rightarrow> string \<Rightarrow> 'w \<Rightarrow> nat res \<times> 'w"
  au_write :: "nat \<Rightarrow> content \<Rightarrow> 'w \<Rightarrow> unit res \<times> 'w"
  au_replace :: "nat \<Rightarrow> string \<Rightarrow> string \<Rightarrow> 'w \<Rightarrow> unit res \<times> 'w"
  au_sync :: "nat \<Rightarrow> 'w \<Rightarrow> unit res \<times> 'w"
  au_unlink :: "nat \<Rightarrow> string \<Rightarrow> 'w \<Rightarrow> unit res \<times> 'w"
  au_close :: "nat \<Rightarrow> 'w \<Rightarrow> unit res \<times> 'w"

definition check_metadata :: "'w store_env \<Rightarrow> bool \<Rightarrow> metadata \<Rightarrow> unit res" where
  "check_metadata e directory m =
     (if \<not> (if directory then md_directory m else md_regular m) \<or> md_uid m \<noteq> au_owner e \<or> md_mode m AND 18 \<noteq> 0
      then Inl (AuthorityError ''untrusted_authority_storage'')
      else if \<not> directory \<and> md_links m \<noteq> 1 then Inl (AuthorityError ''linked_authority_file'')
      else Inr ())"

definition inspect_fd :: "'w store_env \<Rightarrow> bool \<Rightarrow> nat \<Rightarrow> ('w, unit) act" where
  "inspect_fd e directory fd = bind (au_fstat e fd) (\<lambda>m. pure (check_metadata e directory m))"

text \<open>What the agent could write through an access list is not trusted either.\<close>

definition refuse_writable :: "'w store_env \<Rightarrow> string \<Rightarrow> nat \<Rightarrow> ('w, unit) act" where
  "refuse_writable e code fd =
     (if au_euid e \<noteq> 0 then bind (au_writable e fd) (\<lambda>b. if b then raise (AuthorityError code) else ret ()) else ret ())"

definition close_on_error :: "'w store_env \<Rightarrow> nat \<Rightarrow> ('w, 'a) act \<Rightarrow> ('w, 'a) act" where
  "close_on_error e fd m = attempt m (\<lambda>x. bind (au_close e fd) (\<lambda>u. raise x))"

fun descend :: "'w store_env \<Rightarrow> nat \<Rightarrow> string list \<Rightarrow> (nat \<Rightarrow> ('w, 'a) act) \<Rightarrow> ('w, 'a) act" where
  "descend e fd [] body = ensure (bind (inspect_fd e True fd) (\<lambda>u. body fd)) (au_close e fd)"
| "descend e fd (part # parts) body =
     bind (close_on_error e fd (au_child e fd part)) (\<lambda>child.
     bind (close_on_error e fd (au_close e fd)) (\<lambda>u.
     bind (close_on_error e child
            (if au_owner e = 0
             then bind (inspect_fd e True child) (\<lambda>u. refuse_writable e ''authority_directory_writable_by_agent'' child)
             else ret ())) (\<lambda>u.
       descend e child parts body)))"

definition opened :: "'w store_env \<Rightarrow> (nat \<Rightarrow> ('w, 'a) act) \<Rightarrow> ('w, 'a) act" where
  "opened e body = bind (au_root e) (\<lambda>fd. descend e fd (tl (pp_parts (au_directory e))) body)"

text \<open>\<open>_Store(directory)\<close>.\<close>

definition store_ready :: "'w store_env \<Rightarrow> bool" where
  "store_ready e \<longleftrightarrow> is_absolute (au_directory e) \<and> normpath (au_directory e) = au_directory e"

definition open_file :: "'w store_env \<Rightarrow> nat \<Rightarrow> string \<Rightarrow> bool \<Rightarrow> ('w, nat) act" where
  "open_file e d name create =
     bind (if create
           then attempt (bind (au_create e d name) (\<lambda>fd. ret (fd, True)))
                  (\<lambda>x. if x = OSError ''FileExistsError'' then bind (au_open e d name) (\<lambda>fd. ret (fd, False)) else raise x)
           else bind (au_open e d name) (\<lambda>fd. ret (fd, False))) (\<lambda>(fd, created).
     bind (close_on_error e fd
            (bind (if created then au_chmod e fd else ret ()) (\<lambda>u.
             bind (inspect_fd e False fd) (\<lambda>u.
               if au_owner e = 0 then refuse_writable e ''authority_file_writable_by_agent'' fd else ret ())))) (\<lambda>u.
       ret fd))"

definition read_state :: "'w store_env \<Rightarrow> nat \<Rightarrow> target \<Rightarrow> ('w, state option) act" where
  "read_state e d t =
     bind (attempt (bind (open_file e d (target_key (au_hash e) t @ ''.json'') False) (\<lambda>fd. ret (Some fd)))
            (\<lambda>x. if x = OSError ''FileNotFoundError'' then ret None else raise x)) (\<lambda>found.
       case found of
         None \<Rightarrow> ret None
       | Some fd \<Rightarrow> ensure (bind (au_read e fd) (\<lambda>c. bind (pure (decode_state c t)) (\<lambda>s. ret (Some s)))) (au_close e fd))"

definition publish :: "'w store_env \<Rightarrow> nat \<Rightarrow> state \<Rightarrow> ('w, unit) act" where
  "publish e d s =
     (if MAX_STATE_BYTES < ct_bytes (encode_state s) then raise (AuthorityError ''authority_state_too_large'')
      else
        bind (\<lambda>w. let (u, w) = au_uuid e w in (Inr u, w)) (\<lambda>u.
        let temporary = ''.state-'' @ u in
        bind (au_temporary e d temporary) (\<lambda>fd.
          ensure
            (bind (au_write e fd (encode_state s)) (\<lambda>u.
             bind (au_replace e d temporary (target_key (au_hash e) (st_target s) @ ''.json'')) (\<lambda>u.
               au_sync e d)))
            (attempt (au_unlink e d temporary) (\<lambda>x. if x = OSError ''FileNotFoundError'' then ret () else raise x)))))"

text \<open>The lock up to the \<open>yield\<close>: the descriptor that holds it.\<close>

definition take_file_lock :: "'w store_env \<Rightarrow> nat \<Rightarrow> string \<Rightarrow> bool \<Rightarrow> bool \<Rightarrow> ('w, nat) act" where
  "take_file_lock e d name exclusive create =
     bind (open_file e d name create) (\<lambda>fd.
     bind (close_on_error e fd (bind (au_flock e fd exclusive) (\<lambda>got.
            if got then ret () else raise (AuthorityError ''authority_operation_in_progress'')))) (\<lambda>u.
       ret fd))"

section \<open>A published state reads back\<close>

lemma binds_own_target: "binds_target (target_json t) t"
  by (simp add: binds_target_def target_json_def dget_or_def)

text \<open>C22. A published state reads back. Decoding the bytes that publishing wrote for a legal state
  gives this state again, for its own target; and decoding never returns an illegal state or one
  that belongs to another target.\<close>

theorem published_state_reads_back:
  assumes "state_ok s" and "ct_bytes (encode_state s) \<le> MAX_STATE_BYTES"
  shows "decode_state (encode_state s) (st_target s) = Inr s \<and>
    (decode_state c t = Inr r \<longrightarrow> state_ok r \<and> st_target r = t)"
proof
  let ?d = "[(''schema_version'', JInt 1), (''target'', target_json (st_target s)), (''generation'', JStr (st_generation s)),
     (''phase'', JStr (st_phase s)), (''operation'', JStr (st_operation s)), (''action'', JStr (st_action s))]"
  have get: "dget ?d ''schema_version'' = JInt 1" "dget ?d ''target'' = target_json (st_target s)"
    "dget ?d ''generation'' = JStr (st_generation s)" "dget ?d ''phase'' = JStr (st_phase s)"
    "dget ?d ''operation'' = JStr (st_operation s)" "dget ?d ''action'' = JStr (st_action s)"
    by (simp_all add: dget_or_def)
  have keys: "keys_are [''schema_version'', ''target'', ''generation'', ''phase'', ''operation'', ''action''] ?d"
    by (simp add: keys_are_def)
  have "unique_objects (JObj ?d)" by (simp add: target_json_def)
  with assms show "decode_state (encode_state s) (st_target s) = Inr s"
    by (simp add: decode_state_def encode_state_def load_unique_def state_json_def check_state_def keys get binds_own_target
        is_revision_def one_of_def state_ok_def)
  show "decode_state c t = Inr r \<longrightarrow> state_ok r \<and> st_target r = t"
    by (auto simp: decode_state_def check_state_def state_ok_def is_revision_def one_of_def
        split: sum.splits json.splits if_splits)
qed

definition sample_target :: target where
  "sample_target = \<lparr>tg_uid = 501, tg_workspace = ''/w'', tg_data_dir = ''/d''\<rparr>"

text \<open>A unique name.\<close>

definition name_of :: "char \<Rightarrow> string" where
  "name_of c = replicate 32 c"

definition sample_authority :: "string \<Rightarrow> state" where
  "sample_authority phase = \<lparr>st_target = sample_target, st_generation = name_of CHR ''a'', st_phase = phase,
     st_operation = name_of CHR ''b'', st_action = (if phase = ''active'' then ''enroll'' else ''deactivate'')\<rparr>"

theorem published_state_reads_back_witness:
  "decode_state (encode_state (sample_authority ''active'')) sample_target = Inr (sample_authority ''active'')"
proof -
  have "state_ok (sample_authority ''active'')" by code_simp
  moreover have "ct_bytes (encode_state (sample_authority ''active'')) \<le> MAX_STATE_BYTES" by code_simp
  ultimately show ?thesis using published_state_reads_back [of "sample_authority ''active''"] by (simp add: sample_authority_def)
qed

end
