(* ===== verification/Admission.thy ===== *)
theory Admission
  imports Authority
begin

text \<open>
  \<open>authority_state.py\<close>, the protocol of \<open>_Store.lease\<close> and \<open>_Store.transition\<close>, and
  \<open>administrator_transition\<close>. Hooks hold a shared lock on the lease file of their project while
  they run; an administrator needs it exclusively to publish that the project is inactive or
  active again. Several hooks and administrators run at the same time, and each can stop at any
  moment, so the two operations are programs over the operations of the store: a tree whose nodes
  are the operations and whose branches are their results. \<open>perform\<close> runs such a program on the
  files; \<open>step\<close> interleaves any number of them.
\<close>

section \<open>Programs\<close>

datatype lock = Admin_Lock | Lease_Lock

text \<open>Each operation is atomic for the other processes: a read is decided by opening the file,
  which is never changed in place, and a publication by replacing it. \<open>Work s\<close> is a step of the
  body of a lease that was admitted with \<open>s\<close>.\<close>

datatype 'a prog =
    Done "exn + 'a"
  | Read "state option res \<Rightarrow> 'a prog"
  | Lock lock bool bool "unit res \<Rightarrow> 'a prog"
  | Release lock "'a prog"
  | Touch lock "unit res \<Rightarrow> 'a prog"
  | Fresh "string \<Rightarrow> 'a prog"
  | Publish state "unit res \<Rightarrow> 'a prog"
  | Work "state option" "'a prog"

definition fail :: "exn \<Rightarrow> 'a prog" where
  "fail x = Done (Inl x)"

text \<open>Leaving a \<open>with\<close> block, and \<open>try: p except e: h e\<close>.\<close>

primrec leave :: "lock \<Rightarrow> 'a prog \<Rightarrow> 'a prog" where
  "leave n (Done r) = Release n (Done r)"
| "leave n (Read k) = Read (\<lambda>r. leave n (k r))"
| "leave n (Lock m ex cr k) = Lock m ex cr (\<lambda>r. leave n (k r))"
| "leave n (Release m p) = Release m (leave n p)"
| "leave n (Touch m k) = Touch m (\<lambda>r. leave n (k r))"
| "leave n (Fresh k) = Fresh (\<lambda>g. leave n (k g))"
| "leave n (Publish s k) = Publish s (\<lambda>r. leave n (k r))"
| "leave n (Work s p) = Work s (leave n p)"

primrec handle :: "'a prog \<Rightarrow> (exn \<Rightarrow> 'a prog) \<Rightarrow> 'a prog" where
  "handle (Done r) h = (case r of Inl x \<Rightarrow> h x | Inr v \<Rightarrow> Done r)"
| "handle (Read k) h = Read (\<lambda>r. handle (k r) h)"
| "handle (Lock m ex cr k) h = Lock m ex cr (\<lambda>r. handle (k r) h)"
| "handle (Release m p) h = Release m (handle p h)"
| "handle (Touch m k) h = Touch m (\<lambda>r. handle (k r) h)"
| "handle (Fresh k) h = Fresh (\<lambda>g. handle (k g) h)"
| "handle (Publish s k) h = Publish s (\<lambda>r. handle (k r) h)"
| "handle (Work s p) h = Work s (handle p h)"

definition unless_fails :: "'a prog \<Rightarrow> unit res \<Rightarrow> 'a prog" where
  "unless_fails p r = (case r of Inl x \<Rightarrow> fail x | Inr u \<Rightarrow> p)"

definition with_lock :: "lock \<Rightarrow> bool \<Rightarrow> bool \<Rightarrow> 'a prog \<Rightarrow> 'a prog" where
  "with_lock n exclusive create p = Lock n exclusive create (unless_fails (leave n p))"

section \<open>The lease of a Hook\<close>

text \<open>\<open>body\<close> is the \<open>with\<close> block: it gets the state, or \<open>None\<close> if the project is not enrolled.\<close>

definition lease :: "(state option \<Rightarrow> 'a prog) \<Rightarrow> 'a prog" where
  "lease body =
     Read (\<lambda>r. case r of
         Inl x \<Rightarrow> fail x
       | Inr None \<Rightarrow> body None
       | Inr (Some s) \<Rightarrow>
           if st_phase s \<noteq> ''active'' then body (Some s)
           else
             with_lock Lease_Lock False False (Read (\<lambda>r. case r of
                 Inl x \<Rightarrow> fail x
               | Inr None \<Rightarrow> fail (AuthorityError ''authority_state_disappeared'')
               | Inr (Some current) \<Rightarrow> body (Some current))))"

text \<open>The body of \<open>hook.run\<close>: it only works for an active or not enrolled project.\<close>

primrec working :: "nat \<Rightarrow> state option \<Rightarrow> state option prog" where
  "working 0 s = Done (Inr s)"
| "working (Suc n) s = Work s (working n s)"

definition admitted_body :: "nat \<Rightarrow> state option \<Rightarrow> state option prog" where
  "admitted_body n s =
     (case s of
        None \<Rightarrow> working n None
      | Some c \<Rightarrow> if st_phase c \<noteq> ''active'' then Done (Inr s) else working n s)"

definition hook :: "nat \<Rightarrow> state option prog" where
  "hook n = lease (admitted_body n)"

section \<open>The transition of an administrator\<close>

text \<open>The checks on the current state: \<open>Some c\<close> is the result of a completed request.\<close>

definition review_request :: "state option \<Rightarrow> string \<Rightarrow> string \<Rightarrow> string \<Rightarrow> state option res" where
  "review_request current expected operation action =
     (if current = None \<and> action \<noteq> ''enroll'' then Inl (AuthorityError ''authority_enrollment_required'')
      else if current \<noteq> None \<and> action = ''enroll'' then Inl (AuthorityError ''authority_already_enrolled'')
      else case current of
          None \<Rightarrow> if ''absent'' \<noteq> expected then Inl (AuthorityError ''authority_generation_conflict'') else Inr None
        | Some c \<Rightarrow>
            if st_operation c = operation \<and> st_action c \<noteq> action then Inl (AuthorityError ''authority_operation_conflict'')
            else if st_operation c = operation \<and>
                (action = ''deactivate'' \<and> st_phase c = ''inactive'' \<or> action = ''reactivate'' \<and> st_phase c = ''active'')
            then Inr (Some c)
            else if st_generation c \<noteq> expected then Inl (AuthorityError ''authority_generation_conflict'')
            else if st_operation c = operation \<and> action \<noteq> ''deactivate'' then Inl (AuthorityError ''authority_operation_conflict'')
            else Inr None)"

definition publishing :: "state \<Rightarrow> state prog" where
  "publishing s = Publish s (unless_fails (Done (Inr s)))"

text \<open>Enrolling and reactivating.\<close>

definition activate :: "target \<Rightarrow> state option \<Rightarrow> string \<Rightarrow> string \<Rightarrow> state prog" where
  "activate t current operation action =
     (if (case current of None \<Rightarrow> False | Some c \<Rightarrow> st_phase c = ''deactivating'')
      then fail (AuthorityError ''deactivation_not_drained'')
      else Fresh (\<lambda>g. with_lock Lease_Lock True False (publishing
        \<lparr>st_target = t, st_generation = g, st_phase = ''active'', st_operation = operation, st_action = action\<rparr>)))"

text \<open>The second half of a deactivation waits for nobody: while a Hook runs it leaves the project deactivating.\<close>

definition drain :: "state \<Rightarrow> string \<Rightarrow> string \<Rightarrow> state prog" where
  "drain current operation action =
     handle (with_lock Lease_Lock True False (publishing
         \<lparr>st_target = st_target current, st_generation = st_generation current, st_phase = ''inactive'',
          st_operation = operation, st_action = action\<rparr>))
       (\<lambda>x. if x = AuthorityError ''authority_operation_in_progress'' then Done (Inr current) else fail x)"

definition deactivate :: "target \<Rightarrow> state option \<Rightarrow> string \<Rightarrow> string \<Rightarrow> state prog" where
  "deactivate t current operation action =
     (let begin = Fresh (\<lambda>g.
            let s = \<lparr>st_target = t, st_generation = g, st_phase = ''deactivating'', st_operation = operation, st_action = action\<rparr>
            in Publish s (unless_fails (drain s operation action)))
      in case current of
          None \<Rightarrow> begin
        | Some c \<Rightarrow>
            if st_phase c \<noteq> ''deactivating'' then begin
            else if st_operation c \<noteq> operation then fail (AuthorityError ''authority_operation_conflict'')
            else drain c operation action)"

definition transit :: "target \<Rightarrow> string \<Rightarrow> string \<Rightarrow> string \<Rightarrow> state option \<Rightarrow> state prog" where
  "transit t expected operation action current =
     (case review_request current expected operation action of
        Inl x \<Rightarrow> fail x
      | Inr (Some c) \<Rightarrow> Done (Inr c)
      | Inr None \<Rightarrow> Touch Lease_Lock (unless_fails (
          if action = ''enroll'' \<or> action = ''reactivate'' then activate t current operation action
          else deactivate t current operation action)))"

text \<open>\<open>privileged\<close>: the process runs as the owner of the store.\<close>

definition transition :: "bool \<Rightarrow> target \<Rightarrow> string \<Rightarrow> string \<Rightarrow> string \<Rightarrow> state prog" where
  "transition privileged t expected operation action =
     (if \<not> privileged then fail (AuthorityError ''administrator_context_required'')
      else if action \<notin> set actions then fail (AuthorityError ''invalid_authority_action'')
      else if \<not> revision operation then fail (AuthorityError ''invalid_authority_operation'')
      else with_lock Admin_Lock True True (Read (\<lambda>r. case r of
          Inl x \<Rightarrow> fail x
        | Inr current \<Rightarrow> transit t expected operation action current)))"

section \<open>Running a program on the files\<close>

definition lock_file :: "'w store_env \<Rightarrow> target \<Rightarrow> lock \<Rightarrow> string" where
  "lock_file e t n = target_key (au_hash e) t @ (case n of Admin_Lock \<Rightarrow> ''.admin'' | Lease_Lock \<Rightarrow> ''.lease'')"

definition outcome_of :: "('w, 'a) act \<Rightarrow> ('w, 'a res) act" where
  "outcome_of m w = (let (r, w) = m w in (Inr r, w))"

text \<open>Closing the descriptor of a lock; an error of \<open>close\<close> is raised once the blocks around it are left.\<close>

definition close_first :: "('w, unit) act \<Rightarrow> ('w, 'a) act \<Rightarrow> ('w, 'a) act" where
  "close_first c m w = (let (x, w) = c w; (r, w) = m w in (case x of Inl y \<Rightarrow> Inl y | Inr u \<Rightarrow> r, w))"

text \<open>\<open>held\<close> has the descriptors of the locks that are held.\<close>

primrec perform :: "'w store_env \<Rightarrow> nat \<Rightarrow> target \<Rightarrow> 'a prog \<Rightarrow> (lock \<times> nat) list \<Rightarrow> ('w, 'a) act" where
  "perform e d t (Done r) held = pure r"
| "perform e d t (Read k) held = bind (outcome_of (read_state e d t)) (\<lambda>r. perform e d t (k r) held)"
| "perform e d t (Lock n ex cr k) held =
     bind (outcome_of (take_file_lock e d (lock_file e t n) ex cr)) (\<lambda>r.
       perform e d t (k (map_sum id (\<lambda>fd. ()) r)) (case r of Inl x \<Rightarrow> held | Inr fd \<Rightarrow> (n, fd) # held))"
| "perform e d t (Release n p) held =
     (case map_of held n of
        None \<Rightarrow> perform e d t p held
      | Some fd \<Rightarrow> close_first (au_close e fd) (perform e d t p (filter (\<lambda>(m, f). m \<noteq> n) held)))"
| "perform e d t (Touch n k) held =
     bind (outcome_of (bind (open_file e d (lock_file e t n) True) (au_close e))) (\<lambda>r. perform e d t (k r) held)"
| "perform e d t (Fresh k) held = bind (\<lambda>w. let (g, w) = au_uuid e w in (Inr g, w)) (\<lambda>g. perform e d t (k g) held)"
| "perform e d t (Publish s k) held = bind (outcome_of (publish e d s)) (\<lambda>r. perform e d t (k r) held)"
| "perform e d t (Work s p) held = perform e d t p held"

text \<open>\<open>_Store.transition\<close>, and \<open>administrator_transition\<close> on the fixed store of the machine.\<close>

definition store_transition :: "'w store_env \<Rightarrow> target \<Rightarrow> string \<Rightarrow> string \<Rightarrow> string \<Rightarrow> ('w, state) act" where
  "store_transition e t expected operation action =
     (case transition (au_euid e = au_owner e) t expected operation action of
        Done r \<Rightarrow> pure r
      | p \<Rightarrow> opened e (\<lambda>d. perform e d t p []))"

definition administrator_transition :: "'w store_env \<Rightarrow> target \<Rightarrow> string \<Rightarrow> string \<Rightarrow> string \<Rightarrow> ('w, state) act" where
  "administrator_transition e t expected operation action =
     (if au_euid e \<noteq> 0 then raise (AuthorityError ''administrator_context_required'')
      else store_transition (e\<lparr>au_owner := 0\<rparr>) t expected operation action)"

text \<open>\<open>read_authority_state\<close>: \<open>installed\<close> and \<open>linked\<close> are what is found at the place of the directory.\<close>

definition read_authority_state :: "'w store_env \<Rightarrow> bool \<Rightarrow> bool \<Rightarrow> target \<Rightarrow> ('w, state option) act" where
  "read_authority_state e installed linked t =
     (if \<not> installed then (if linked then raise (AuthorityError ''untrusted_authority_storage'') else ret None)
      else opened e (\<lambda>d. read_state e d t))"

text \<open>\<open>_Store.lease\<close> around the rest of the Hook, which is \<open>body\<close>.\<close>

definition store_lease :: "'w store_env \<Rightarrow> target \<Rightarrow> (state option \<Rightarrow> ('w, 'a) act) \<Rightarrow> ('w, 'a) act" where
  "store_lease e t body = opened e (\<lambda>d.
     bind (read_state e d t) (\<lambda>found. case found of
         None \<Rightarrow> body None
       | Some s \<Rightarrow>
           if st_phase s \<noteq> ''active'' then body (Some s)
           else
             bind (take_file_lock e d (lock_file e t Lease_Lock) False False) (\<lambda>fd.
               ensure
                 (bind (read_state e d t) (\<lambda>found. case found of
                    None \<Rightarrow> raise (AuthorityError ''authority_state_disappeared'')
                  | Some current \<Rightarrow> body (Some current)))
                 (au_close e fd))))"

text \<open>It does what the program \<open>lease\<close> does.\<close>

lemma performs_locked:
  "ensure (bind (read_state e d t) (\<lambda>found. case found of
       None \<Rightarrow> raise (AuthorityError ''authority_state_disappeared'') | Some current \<Rightarrow> pure (f (Some current)))) (au_close e fd) w =
   perform e d t (leave Lease_Lock (Read (\<lambda>r. case r of
       Inl x \<Rightarrow> fail x
     | Inr None \<Rightarrow> fail (AuthorityError ''authority_state_disappeared'')
     | Inr (Some current) \<Rightarrow> Done (f (Some current))))) [(Lease_Lock, fd)] w"
proof -
  obtain r w1 where r: "read_state e d t w = (r, w1)" by fastforce
  obtain c w2 where c: "au_close e fd w1 = (c, w2)" by fastforce
  show ?thesis using r c
    by (auto simp: ensure_def bind_def outcome_of_def fail_def close_first_def pure_def raise_def split: sum.splits option.splits)
qed

lemma store_lease_performs:
  "store_lease e t (\<lambda>s. pure (f s)) = opened e (\<lambda>d. perform e d t (lease (\<lambda>s. Done (f s))) [])"
proof -
  have "bind (read_state e d t) (\<lambda>found. case found of
         None \<Rightarrow> pure (f None)
       | Some s \<Rightarrow>
           if st_phase s \<noteq> ''active'' then pure (f (Some s))
           else
             bind (take_file_lock e d (lock_file e t Lease_Lock) False False) (\<lambda>fd.
               ensure
                 (bind (read_state e d t) (\<lambda>found. case found of
                    None \<Rightarrow> raise (AuthorityError ''authority_state_disappeared'')
                  | Some current \<Rightarrow> pure (f (Some current))))
                 (au_close e fd))) w = perform e d t (lease (\<lambda>s. Done (f s))) [] w" for d w
  proof -
    obtain r w1 where r: "read_state e d t w = (r, w1)" by fastforce
    obtain l w2 where l: "take_file_lock e d (lock_file e t Lease_Lock) False False w1 = (l, w2)" by fastforce
    consider x where "r = Inl x" | "r = Inr None" | s where "r = Inr (Some s)" "st_phase s \<noteq> ''active''"
      | s x where "r = Inr (Some s)" "st_phase s = ''active''" "l = Inl x"
      | s fd where "r = Inr (Some s)" "st_phase s = ''active''" "l = Inr fd"
      by (cases r; cases l) (auto simp: not_None_eq)
    then show ?thesis
    proof cases
      case 5
      with r l performs_locked [of e d t f] show ?thesis
        by (simp add: bind_def outcome_of_def lease_def with_lock_def unless_fails_def)
    qed (use r l in \<open>simp_all add: bind_def outcome_of_def lease_def with_lock_def unless_fails_def fail_def pure_def\<close>)
  qed
  then show ?thesis unfolding store_lease_def by (intro arg_cong [of _ _ "opened e"] ext)
qed

section \<open>Any number of processes\<close>

text \<open>The state file, the locks that are held (process, lock, exclusively) and the programs of the
  live processes, all on the files of one target; the files of different targets are different.\<close>

record sys =
  sy_file :: "state option"
  sy_locks :: "(nat \<times> lock \<times> bool) list"
  sy_procs :: "nat \<Rightarrow> state option prog option"

definition can_lock :: "lock \<Rightarrow> bool \<Rightarrow> (nat \<times> lock \<times> bool) list \<Rightarrow> bool" where
  "can_lock n exclusive locks \<longleftrightarrow> list_all (\<lambda>(p, m, ex). m = n \<longrightarrow> \<not> exclusive \<and> \<not> ex) locks"

definition without :: "nat \<Rightarrow> lock \<Rightarrow> (nat \<times> lock \<times> bool) list \<Rightarrow> (nat \<times> lock \<times> bool) list" where
  "without p n = del_where (\<lambda>(q, m, ex). q = p \<and> m = n)"

definition BUSY :: exn where "BUSY = AuthorityError ''authority_operation_in_progress''"

text \<open>One operation of a process. Every operation can fail without effect, and a publication also
  after it took effect.\<close>

inductive advance :: "nat \<Rightarrow> state option \<Rightarrow> (nat \<times> lock \<times> bool) list \<Rightarrow> 'a prog \<Rightarrow>
    state option \<Rightarrow> (nat \<times> lock \<times> bool) list \<Rightarrow> 'a prog \<Rightarrow> bool" for p where
  read: "advance p file locks (Read k) file locks (k (Inr file))"
| read_error: "advance p file locks (Read k) file locks (k (Inl x))"
| locked: "can_lock n ex locks \<Longrightarrow> advance p file locks (Lock n ex cr k) file ((p, n, ex) # locks) (k (Inr ()))"
| busy: "\<not> can_lock n ex locks \<Longrightarrow> advance p file locks (Lock n ex cr k) file locks (k (Inl BUSY))"
| lock_error: "x \<noteq> BUSY \<Longrightarrow> advance p file locks (Lock n ex cr k) file locks (k (Inl x))"
| release: "advance p file locks (Release n q) file (without p n locks) q"
| touch: "advance p file locks (Touch n k) file locks (k r)"
| fresh: "revision g \<Longrightarrow> advance p file locks (Fresh k) file locks (k g)"
| publish: "advance p file locks (Publish s k) (Some s) locks (k r)"
| publish_error: "advance p file locks (Publish s k) file locks (k (Inl x))"
| work: "advance p file locks (Work s q) file locks q"

datatype label = Start nat | Run nat | Crash nat | Idle

text \<open>What is started: a Hook with a body of any length, or a request of an administrator, or a
  caller without the privilege.\<close>

inductive startable :: "target \<Rightarrow> state option prog \<Rightarrow> bool" for t where
  a_hook: "startable t (hook n)"
| an_administrator: "startable t (map_prog Some (transition privileged t expected operation action))"

inductive step :: "target \<Rightarrow> label \<Rightarrow> sys \<Rightarrow> sys \<Rightarrow> bool" for t where
  start: "sy_procs s p = None \<Longrightarrow> startable t q \<Longrightarrow> step t (Start p) s (s\<lparr>sy_procs := (sy_procs s)(p \<mapsto> q)\<rparr>)"
| run: "sy_procs s p = Some q \<Longrightarrow> advance p (sy_file s) (sy_locks s) q file locks q' \<Longrightarrow>
    step t (Run p) s (s\<lparr>sy_file := file, sy_locks := locks, sy_procs := (sy_procs s)(p \<mapsto> q')\<rparr>)"
| finish: "sy_procs s p = Some (Done r) \<Longrightarrow> step t (Run p) s (s\<lparr>sy_procs := (sy_procs s)(p := None)\<rparr>)"
| crash: "step t (Crash p) s
    (s\<lparr>sy_locks := del_where (\<lambda>(q, m, ex). q = p) (sy_locks s), sy_procs := (sy_procs s)(p := None)\<rparr>)"
| idle: "step t Idle s s"

definition initial :: "target \<Rightarrow> sys \<Rightarrow> bool" where
  "initial t s \<longleftrightarrow> sy_locks s = [] \<and> sy_procs s = (\<lambda>p. None) \<and>
     (case sy_file s of None \<Rightarrow> True | Some c \<Rightarrow> state_ok c \<and> st_target c = t)"

inductive reachable :: "target \<Rightarrow> sys \<Rightarrow> bool" for t where
  initially: "initial t s \<Longrightarrow> reachable t s"
| later: "reachable t s \<Longrightarrow> step t l s s' \<Longrightarrow> reachable t s'"

section \<open>What a program may do\<close>

text \<open>The life of a project, without processes, locks or files.\<close>

inductive lifecycle :: "state option \<Rightarrow> state \<Rightarrow> bool" where
  enrolled: "st_phase s = ''active'' \<Longrightarrow> lifecycle None s"
| reactivated: "st_phase s = ''active'' \<Longrightarrow> st_phase c \<noteq> ''deactivating'' \<Longrightarrow> lifecycle (Some c) s"
| stopping: "st_phase s = ''deactivating'' \<Longrightarrow> st_phase c \<noteq> ''deactivating'' \<Longrightarrow> lifecycle (Some c) s"
| stopped: "st_phase s = ''inactive'' \<Longrightarrow> st_phase c = ''deactivating'' \<Longrightarrow> st_generation s = st_generation c \<Longrightarrow>
    st_operation s = st_operation c \<Longrightarrow> lifecycle (Some c) s"

text \<open>What a process holds and knows: its locks, the state file while it holds the administrator's
  lock, and the state that admitted it while it holds a shared lease.\<close>

record rights =
  ri_admin :: bool
  ri_shared :: bool
  ri_exclusive :: bool
  ri_known :: "state option option"
  ri_seen :: "state option option"

definition nothing :: rights where
  "nothing = \<lparr>ri_admin = False, ri_shared = False, ri_exclusive = False, ri_known = None, ri_seen = None\<rparr>"

definition free :: "lock \<Rightarrow> rights \<Rightarrow> bool" where
  "free n r \<longleftrightarrow> (case n of Admin_Lock \<Rightarrow> \<not> ri_admin r | Lease_Lock \<Rightarrow> \<not> ri_shared r \<and> \<not> ri_exclusive r)"

definition taking :: "lock \<Rightarrow> bool \<Rightarrow> rights \<Rightarrow> rights" where
  "taking n ex r = (case n of Admin_Lock \<Rightarrow> r\<lparr>ri_admin := True\<rparr>
     | Lease_Lock \<Rightarrow> if ex then r\<lparr>ri_exclusive := True\<rparr> else r\<lparr>ri_shared := True\<rparr>)"

definition dropping :: "lock \<Rightarrow> rights \<Rightarrow> rights" where
  "dropping n r = (case n of Admin_Lock \<Rightarrow> r\<lparr>ri_admin := False, ri_known := None\<rparr>
     | Lease_Lock \<Rightarrow> r\<lparr>ri_shared := False, ri_exclusive := False, ri_seen := None\<rparr>)"

definition reading :: "state option \<Rightarrow> rights \<Rightarrow> rights" where
  "reading f r = r\<lparr>ri_known := if ri_admin r then Some f else None, ri_seen := if ri_shared r then Some f else None\<rparr>"

definition may_publish :: "target \<Rightarrow> rights \<Rightarrow> state \<Rightarrow> bool" where
  "may_publish t r s \<longleftrightarrow> ri_admin r \<and> \<not> ri_shared r \<and> (\<exists>f. ri_known r = Some f \<and> lifecycle f s) \<and>
     (st_phase s \<noteq> ''deactivating'' \<longrightarrow> ri_exclusive r) \<and> state_ok s \<and> st_target s = t"

text \<open>A program that, whatever the results of its operations are, takes no lock twice, publishes
  only with the rights for it, works only after it was admitted, and ends without a lock.\<close>

primrec guarded :: "target \<Rightarrow> 'a prog \<Rightarrow> rights \<Rightarrow> bool" where
  "guarded t (Done r) ri \<longleftrightarrow> free Admin_Lock ri \<and> free Lease_Lock ri"
| "guarded t (Read k) ri \<longleftrightarrow> (\<forall>x. guarded t (k (Inl x)) ri) \<and>
     (\<forall>f. (case f of None \<Rightarrow> True | Some c \<Rightarrow> state_ok c \<and> st_target c = t) \<longrightarrow> guarded t (k (Inr f)) (reading f ri))"
| "guarded t (Lock n ex cr k) ri \<longleftrightarrow> free n ri \<and> (n = Admin_Lock \<longrightarrow> ex) \<and> (\<forall>x. guarded t (k (Inl x)) ri) \<and>
     guarded t (k (Inr ())) (taking n ex ri)"
| "guarded t (Release n p) ri \<longleftrightarrow> guarded t p (dropping n ri)"
| "guarded t (Touch n k) ri \<longleftrightarrow> (\<forall>r. guarded t (k r) ri)"
| "guarded t (Fresh k) ri \<longleftrightarrow> (\<forall>g. revision g \<longrightarrow> guarded t (k g) ri)"
| "guarded t (Publish s k) ri \<longleftrightarrow> may_publish t ri s \<and> guarded t (k (Inr ())) (ri\<lparr>ri_known := Some (Some s)\<rparr>) \<and>
     (\<forall>x. guarded t (k (Inl x)) (ri\<lparr>ri_known := None\<rparr>))"
| "guarded t (Work s p) ri \<longleftrightarrow> (case s of None \<Rightarrow> True | Some c \<Rightarrow> st_phase c = ''active'' \<and> ri_shared ri \<and> ri_seen ri = Some s) \<and>
     guarded t p ri"

named_theorems right_defs \<open>the rights of a program, unfolded\<close>

lemmas rights_unfold [right_defs] = nothing_def free_def taking_def dropping_def reading_def may_publish_def

lemma guarded_map: "guarded t (map_prog f p) ri = guarded t p ri"
  by (induction p arbitrary: ri) (auto split: option.splits)

lemma guarded_working:
  assumes "st_phase c = ''active''" and "ri_shared ri" and "ri_seen ri = Some (Some c)" and "\<not> ri_admin ri"
  shows "guarded t (leave Lease_Lock (working n (Some c))) ri"
  using assms by (induction n) (auto simp: right_defs)

lemma guarded_unleased: "guarded t (working n None) nothing"
  by (induction n) (auto simp: right_defs)

lemma guarded_hook: "guarded t (hook n) nothing"
  using guarded_working [of _ _ t n] guarded_unleased [of t n]
  by (auto simp: hook_def lease_def with_lock_def unless_fails_def fail_def admitted_body_def right_defs split: option.splits)

lemma review_request_Inr:
  assumes "review_request current expected operation action = Inr None"
  shows "(current = None) = (action = ''enroll'') \<and>
    (\<forall>c. current = Some c \<longrightarrow> st_operation c = operation \<longrightarrow> action = ''deactivate'' \<and> st_action c = action)"
  using assms by (auto simp: review_request_def split: if_splits option.splits)

lemma guarded_drain:
  assumes "state_ok c" and "st_target c = t" and "st_phase c = ''deactivating''" and "operation = st_operation c" and "action = ''deactivate''"
    and "ri_admin ri" and "\<not> ri_shared ri" and "\<not> ri_exclusive ri" and "ri_known ri = Some (Some c)"
  shows "guarded t (leave Admin_Lock (drain c operation action)) ri"
  using assms
  by (auto simp: drain_def with_lock_def unless_fails_def fail_def publishing_def right_defs state_ok_def phases_def actions_def
      intro!: lifecycle.stopped)

lemma guarded_activate:
  assumes "action \<in> {''enroll'', ''reactivate''}" and "revision operation" and "(current = None) = (action = ''enroll'')"
    and "ri_admin ri" and "\<not> ri_shared ri" and "\<not> ri_exclusive ri" and "ri_known ri = Some current"
  shows "guarded t (leave Admin_Lock (activate t current operation action)) ri"
  using assms
  by (auto simp: activate_def with_lock_def unless_fails_def fail_def publishing_def right_defs state_ok_def phases_def actions_def
      intro: lifecycle.intros split: option.splits)

lemma guarded_deactivate:
  assumes "revision operation" and "current = Some c" and "state_ok c" and "st_target c = t"
    and "ri_admin ri" and "\<not> ri_shared ri" and "\<not> ri_exclusive ri" and "ri_known ri = Some current"
  shows "guarded t (leave Admin_Lock (deactivate t current operation ''deactivate'')) ri"
proof (cases "st_phase c = ''deactivating''")
  case True
  with assms guarded_drain [of c t operation "''deactivate''" ri] show ?thesis
    by (auto simp: deactivate_def fail_def right_defs)
next
  case False
  have "guarded t (leave Admin_Lock (drain s operation ''deactivate'')) (ri\<lparr>ri_known := Some (Some s)\<rparr>)"
    if "s = \<lparr>st_target = t, st_generation = g, st_phase = ''deactivating'', st_operation = operation, st_action = ''deactivate''\<rparr>"
      and "revision g" for s g
    by (rule guarded_drain) (use that assms in \<open>auto simp: state_ok_def phases_def actions_def\<close>)
  with False assms show ?thesis
    by (auto simp: deactivate_def unless_fails_def fail_def right_defs state_ok_def phases_def actions_def Let_def
        intro: lifecycle.stopping)
qed

lemma guarded_transition: "guarded t (transition privileged t expected operation action) nothing"
proof -
  have "guarded t (leave Admin_Lock (transit t expected operation action f)) (reading f (taking Admin_Lock True nothing))"
    if f: "case f of None \<Rightarrow> True | Some c \<Rightarrow> state_ok c \<and> st_target c = t" and a: "action \<in> set actions" and o: "revision operation" for f
  proof -
    let ?ri = "reading f (taking Admin_Lock True nothing)"
    have ri: "ri_admin ?ri" "\<not> ri_shared ?ri" "\<not> ri_exclusive ?ri" "ri_known ?ri = Some f" by (simp_all add: right_defs)
    consider (no) x where "review_request f expected operation action = Inl x" | (known) c where "review_request f expected operation action = Inr (Some c)"
      | (go) "review_request f expected operation action = Inr None" by (cases "review_request f expected operation action") auto
    then show ?thesis
    proof cases
      case go
      note q = review_request_Inr [OF go]
      show ?thesis
      proof (cases "action = ''enroll'' \<or> action = ''reactivate''")
        case True
        with guarded_activate [OF _ o _ ri, of action] q have "guarded t (leave Admin_Lock (activate t f operation action)) ?ri" by auto
        with go True show ?thesis by (auto simp: transit_def unless_fails_def fail_def right_defs split: sum.splits)
      next
        case False
        with a q f obtain c where c: "f = Some c" "state_ok c" "st_target c = t" "action = ''deactivate''"
          by (cases f) (auto simp: actions_def)
        from guarded_deactivate [OF o c(1-3) ri] have "guarded t (leave Admin_Lock (deactivate t f operation action)) ?ri" using c(4) by simp
        with go False show ?thesis by (auto simp: transit_def unless_fails_def fail_def right_defs split: sum.splits)
      qed
    qed (auto simp: transit_def fail_def right_defs)
  qed
  then show ?thesis
    by (auto simp: transition_def with_lock_def unless_fails_def fail_def right_defs split: sum.splits)
qed

lemma guarded_startable: "startable t q \<Longrightarrow> guarded t q nothing"
  by (auto elim!: startable.cases simp: guarded_hook guarded_map guarded_transition)

section \<open>The invariant of the system\<close>

definition file_ok :: "target \<Rightarrow> state option \<Rightarrow> bool" where
  "file_ok t f \<longleftrightarrow> (case f of None \<Rightarrow> True | Some c \<Rightarrow> state_ok c \<and> st_target c = t)"

text \<open>An exclusive lock is the only one on its file.\<close>

definition exclusive_ok :: "(nat \<times> lock \<times> bool) list \<Rightarrow> bool" where
  "exclusive_ok locks \<longleftrightarrow> (\<forall>p n. (p, n, True) \<in> set locks \<longrightarrow> (\<forall>q ex. (q, n, ex) \<in> set locks \<longrightarrow> q = p \<and> ex))"

definition still_seen :: "state option \<Rightarrow> state option \<Rightarrow> bool" where
  "still_seen f now \<longleftrightarrow> now = f \<or> (\<exists>c. now = Some c \<and> st_phase c = ''deactivating'')"

definition consistent :: "state option \<Rightarrow> (nat \<times> lock \<times> bool) list \<Rightarrow> nat \<Rightarrow> rights \<Rightarrow> bool" where
  "consistent file locks p ri \<longleftrightarrow>
     (ri_admin ri \<longleftrightarrow> (p, Admin_Lock, True) \<in> set locks) \<and> (p, Admin_Lock, False) \<notin> set locks \<and>
     (ri_shared ri \<longleftrightarrow> (p, Lease_Lock, False) \<in> set locks) \<and> (ri_exclusive ri \<longleftrightarrow> (p, Lease_Lock, True) \<in> set locks) \<and>
     (\<forall>f. ri_known ri = Some f \<longrightarrow> ri_admin ri \<and> f = file) \<and> (\<forall>f. ri_seen ri = Some f \<longrightarrow> ri_shared ri \<and> still_seen f file)"

fun proc_ok :: "target \<Rightarrow> state option \<Rightarrow> (nat \<times> lock \<times> bool) list \<Rightarrow> nat \<Rightarrow> 'a prog option \<Rightarrow> bool" where
  "proc_ok t file locks p None \<longleftrightarrow> (\<forall>n ex. (p, n, ex) \<notin> set locks)"
| "proc_ok t file locks p (Some q) \<longleftrightarrow> (\<exists>ri. guarded t q ri \<and> consistent file locks p ri)"

definition sys_ok :: "target \<Rightarrow> sys \<Rightarrow> bool" where
  "sys_ok t s \<longleftrightarrow> file_ok t (sy_file s) \<and> exclusive_ok (sy_locks s) \<and> (\<forall>p. proc_ok t (sy_file s) (sy_locks s) p (sy_procs s p))"

lemma set_without [simp]: "x \<in> set (without p n locks) \<longleftrightarrow> x \<in> set locks \<and> \<not> (fst x = p \<and> fst (snd x) = n)"
  by (auto simp: without_def del_where_def split: prod.splits)

lemma can_lock_no_exclusive: "can_lock n ex locks \<Longrightarrow> (q, n, True) \<notin> set locks"
  by (auto simp: can_lock_def list_all_iff)

lemma can_lock_exclusive: "can_lock n True locks \<Longrightarrow> (q, n, e) \<notin> set locks"
  by (auto simp: can_lock_def list_all_iff)

lemma exclusive_ok_Cons:
  assumes "exclusive_ok locks" and "can_lock n ex locks"
  shows "exclusive_ok ((p, n, ex) # locks)"
  using assms can_lock_no_exclusive [OF assms(2)] can_lock_exclusive [of n locks]
  unfolding exclusive_ok_def by (cases ex) auto

lemma exclusive_ok_subset: "exclusive_ok locks \<Longrightarrow> set locks' \<subseteq> set locks \<Longrightarrow> exclusive_ok locks'"
  unfolding exclusive_ok_def by blast

text \<open>The process itself.\<close>

lemma advance_own:
  assumes "advance p file locks q file' locks' q'" and "guarded t q ri" and "consistent file locks p ri"
    and "exclusive_ok locks" and "file_ok t file"
  shows "file_ok t file' \<and> exclusive_ok locks' \<and> (\<exists>ri. guarded t q' ri \<and> consistent file' locks' p ri)"
  using assms
proof cases
  case (read k)
  with assms have "guarded t q' (reading file ri)" by (auto simp: file_ok_def)
  moreover have "consistent file locks p (reading file ri)"
    using assms(3) by (simp add: consistent_def reading_def still_seen_def)
  ultimately show ?thesis using read assms by auto
next
  case (locked n ex cr k)
  with assms have g: "guarded t q' (taking n ex ri)" and f: "free n ri" and a: "n = Admin_Lock \<longrightarrow> ex" by auto
  have "consistent file ((p, n, ex) # locks) p (taking n ex ri)"
    using assms(3) f a by (cases n) (auto simp: consistent_def right_defs)
  with g exclusive_ok_Cons [OF assms(4)] locked assms(5) show ?thesis by auto
next
  case (release n)
  have "consistent file (without p n locks) p (dropping n ri)"
    using assms(3) by (cases n) (auto simp: consistent_def right_defs)
  moreover have "exclusive_ok (without p n locks)" by (rule exclusive_ok_subset [OF assms(4)]) auto
  ultimately show ?thesis using release assms(2,5) by auto
next
  case (publish s k r)
  with assms have m: "may_publish t ri s" by simp
  then have f: "file_ok t (Some s)" by (simp add: may_publish_def file_ok_def)
  show ?thesis
  proof (cases r)
    case (Inl x)
    with publish assms have "guarded t q' (ri\<lparr>ri_known := None\<rparr>)" by simp
    moreover have "consistent (Some s) locks p (ri\<lparr>ri_known := None\<rparr>)"
      using assms(3) m by (auto simp: consistent_def may_publish_def)
    ultimately show ?thesis using publish f assms(4) by auto
  next
    case (Inr u)
    with publish assms have "guarded t q' (ri\<lparr>ri_known := Some (Some s)\<rparr>)" by (cases u) simp
    moreover have "consistent (Some s) locks p (ri\<lparr>ri_known := Some (Some s)\<rparr>)"
      using assms(3) m by (auto simp: consistent_def may_publish_def)
    ultimately show ?thesis using publish f assms(4) by auto
  qed
next
  case (publish_error s k x)
  with assms have "guarded t q' (ri\<lparr>ri_known := None\<rparr>)" by simp
  moreover have "consistent file locks p (ri\<lparr>ri_known := None\<rparr>)" using assms(3) by (auto simp: consistent_def)
  ultimately show ?thesis using publish_error assms by auto
qed auto

text \<open>The others: nobody publishes beside the administrator, and what a Hook was admitted with stays
  until it leaves.\<close>

lemma advance_locks_others:
  "advance p file locks q file' locks' q' \<Longrightarrow> p' \<noteq> p \<Longrightarrow> (p', n, ex) \<in> set locks' \<longleftrightarrow> (p', n, ex) \<in> set locks"
  by (auto elim!: advance.cases)

lemma consistent_locks:
  "(\<And>n ex. (p, n, ex) \<in> set locks' \<longleftrightarrow> (p, n, ex) \<in> set locks) \<Longrightarrow> consistent file locks' p ri = consistent file locks p ri"
  by (simp add: consistent_def)

lemma advance_file:
  assumes "advance p file locks q file' locks' q'"
  shows "file' = file \<or> (\<exists>s k. q = Publish s k \<and> file' = Some s)"
  using assms by cases auto

lemma publish_others:
  assumes "may_publish t ri s" and "consistent file locks p ri" and "exclusive_ok locks" and "p' \<noteq> p" and "consistent file locks p' ri'"
  shows "consistent (Some s) locks p' ri'"
proof -
  from assms(1,2) have "(p, Admin_Lock, True) \<in> set locks" by (simp add: may_publish_def consistent_def)
  with assms(3,4) have "(p', Admin_Lock, True) \<notin> set locks" unfolding exclusive_ok_def by blast
  with assms(5) have a: "\<not> ri_admin ri'" by (simp add: consistent_def)
  have "st_phase s = ''deactivating''" if "ri_shared ri'"
  proof (rule ccontr)
    assume "st_phase s \<noteq> ''deactivating''"
    with assms(1,2) have "(p, Lease_Lock, True) \<in> set locks" by (simp add: may_publish_def consistent_def)
    moreover from that assms(5) have "(p', Lease_Lock, False) \<in> set locks" by (simp add: consistent_def)
    ultimately show False using assms(3,4) unfolding exclusive_ok_def by blast
  qed
  with a assms(5) show ?thesis by (auto simp: consistent_def still_seen_def)
qed

lemma advance_others:
  assumes "advance p file locks q file' locks' q'" and "guarded t q ri" and "consistent file locks p ri"
    and "exclusive_ok locks" and "p' \<noteq> p" and "consistent file locks p' ri'"
  shows "consistent file' locks' p' ri'"
proof -
  have "consistent file' locks p' ri'"
    using advance_file [OF assms(1)] publish_others [OF _ assms(3-6)] assms(2,6) by auto
  then show ?thesis using consistent_locks [of p' locks' locks] advance_locks_others [OF assms(1,5)] by simp
qed

lemma nothing_consistent: "(\<And>n ex. (p, n, ex) \<notin> set locks) \<Longrightarrow> consistent file locks p nothing"
  by (simp add: consistent_def nothing_def)

lemma others_ok:
  assumes "advance p file locks q file' locks' q'" and "guarded t q ri" and "consistent file locks p ri"
    and "exclusive_ok locks" and "p' \<noteq> p" and "proc_ok t file locks p' r"
  shows "proc_ok t file' locks' p' r"
  using assms(6) advance_locks_others [OF assms(1,5)] advance_others [OF assms(1-5)] by (cases r) auto

lemma crash_ok:
  "proc_ok t file locks p' r \<Longrightarrow> p' \<noteq> p \<Longrightarrow> proc_ok t file (del_where (\<lambda>(q, m, ex). q = p) locks) p' r"
  by (cases r) (auto simp: consistent_def del_where_def)

lemma step_ok:
  assumes "step t l s s'" and ok: "sys_ok t s"
  shows "sys_ok t s'"
proof -
  from ok have f: "file_ok t (sy_file s)" and x: "exclusive_ok (sy_locks s)"
    and procs: "\<And>p. proc_ok t (sy_file s) (sy_locks s) p (sy_procs s p)" by (simp_all add: sys_ok_def)
  from assms(1) show ?thesis
  proof cases
    case (start p q)
    from procs [of p] start(3) have "\<And>n ex. (p, n, ex) \<notin> set (sy_locks s)" by simp
    with start(4) have "proc_ok t (sy_file s) (sy_locks s) p (Some q)" by (auto intro: nothing_consistent guarded_startable)
    with f x procs start(2) show ?thesis by (simp add: sys_ok_def)
  next
    case (run p q now locks q')
    from procs [of p] run(3) obtain ri where g: "guarded t q ri" "consistent (sy_file s) (sy_locks s) p ri" by auto
    have "proc_ok t now locks p' (sy_procs s p')" if "p' \<noteq> p" for p'
      by (rule others_ok [OF run(4) g x that procs])
    with advance_own [OF run(4) g x f] run(2) show ?thesis by (simp add: sys_ok_def)
  next
    case (finish p r)
    from procs [of p] finish(3) have "\<exists>ri. guarded t (Done r) ri \<and> consistent (sy_file s) (sy_locks s) p ri" by simp
    then have "(p, n, ex) \<notin> set (sy_locks s)" for n ex by (cases n; cases ex) (auto simp: consistent_def free_def)
    with f x procs finish(2) show ?thesis by (simp add: sys_ok_def)
  next
    case (crash p)
    have "exclusive_ok (del_where (\<lambda>(q, m, ex). q = p) (sy_locks s))"
      by (rule exclusive_ok_subset [OF x]) (auto simp: del_where_def)
    moreover have "proc_ok t (sy_file s) (del_where (\<lambda>(q, m, ex). q = p) (sy_locks s)) p None" by (simp add: del_where_def)
    ultimately show ?thesis using f crash_ok [OF procs] crash(2) by (simp add: sys_ok_def)
  qed (use ok in simp)
qed

lemma initial_ok: "initial t s \<Longrightarrow> sys_ok t s"
  by (auto simp: initial_def sys_ok_def file_ok_def exclusive_ok_def split: option.splits)

lemma reachable_ok: "reachable t s \<Longrightarrow> sys_ok t s"
  by (induction rule: reachable.induct) (auto intro: initial_ok step_ok)

section \<open>Safety\<close>

text \<open>C4. A Hook never works in a project that is switched off. In every state that any interleaving
  of Hooks, administrators, crashes and failing operations can reach, a Hook that is about to do a
  step of work and was admitted with an active state still has that very state in force, or the
  project is being deactivated; it has not been declared inactive, and it has not been activated
  again under another generation.\<close>

theorem admitted_hook_excludes_inactive:
  assumes "reachable t s" and "sy_procs s p = Some (Work (Some c) q)"
  shows "st_phase c = ''active'' \<and> (sy_file s = Some c \<or> (\<exists>d. sy_file s = Some d \<and> st_phase d = ''deactivating''))"
proof -
  from reachable_ok [OF assms(1)] have "proc_ok t (sy_file s) (sy_locks s) p (sy_procs s p)" by (simp add: sys_ok_def)
  with assms(2) obtain ri where "guarded t (Work (Some c) q) ri" "consistent (sy_file s) (sy_locks s) p ri" by auto
  then show ?thesis by (auto simp: consistent_def still_seen_def)
qed

text \<open>C8. The state file follows the life of a project. Every step of the system leaves the file as
  it is or moves it along the specified lifecycle: it is enrolled, reactivated unless it is being
  deactivated, put into deactivation, and declared inactive only from a deactivation, of the same
  generation and by the same operation. What is written is always a legal state of this target.\<close>

theorem transitions_implement_the_lifecycle:
  assumes "reachable t s" and "step t l s s'"
  shows "sy_file s' = sy_file s \<or> (\<exists>d. sy_file s' = Some d \<and> lifecycle (sy_file s) d \<and> state_ok d \<and> st_target d = t)"
  using assms(2)
proof cases
  case (run p q now locks q')
  from reachable_ok [OF assms(1)] have "proc_ok t (sy_file s) (sy_locks s) p (sy_procs s p)" by (simp add: sys_ok_def)
  with run(3) obtain ri where "guarded t q ri" "consistent (sy_file s) (sy_locks s) p ri" by auto
  with advance_file [OF run(4)] run(2) show ?thesis by (auto simp: may_publish_def consistent_def)
qed simp_all

section \<open>Progress\<close>
















definition NAME :: string where
  "NAME = name_of CHR ''0''"

lemma revision_NAME: "revision NAME"
  by code_simp



section \<open>Examples\<close>

text \<open>The next operation of a process when nothing fails.\<close>

fun operate :: "string \<Rightarrow> nat \<Rightarrow> 'a prog \<times> state option \<times> (nat \<times> lock \<times> bool) list \<Rightarrow> 'a prog \<times> state option \<times> (nat \<times> lock \<times> bool) list" where
  "operate g p (Done r, now, locks) = (Done r, now, locks)"
| "operate g p (Read k, now, locks) = (k (Inr now), now, locks)"
| "operate g p (Lock n ex cr k, now, locks) =
     (if can_lock n ex locks then (k (Inr ()), now, (p, n, ex) # locks) else (k (Inl BUSY), now, locks))"
| "operate g p (Release n q, now, locks) = (q, now, without p n locks)"
| "operate g p (Touch n k, now, locks) = (k (Inr ()), now, locks)"
| "operate g p (Fresh k, now, locks) = (k g, now, locks)"
| "operate g p (Publish s k, now, locks) = (k (Inr ()), Some s, locks)"
| "operate g p (Work c q, now, locks) = (q, now, locks)"

lemma operate_advance:
  assumes "revision g" and "operate g p (q, now, locks) = (q', now', locks')"
  shows "q' = q \<and> now' = now \<and> locks' = locks \<or> advance p now locks q now' locks' q'"
  using assms by (cases q) (auto intro: advance.intros split: if_splits)

definition solo_sys :: "nat \<Rightarrow> state option prog \<times> state option \<times> (nat \<times> lock \<times> bool) list \<Rightarrow> sys" where
  "solo_sys p c = (case c of (q, now, locks) \<Rightarrow> \<lparr>sy_file = now, sy_locks = locks, sy_procs = [p \<mapsto> q]\<rparr>)"

lemma operate_reachable:
  assumes "revision g" and "reachable t (solo_sys p c)"
  shows "reachable t (solo_sys p ((operate g p ^^ n) c))"
proof (induction n)
  case (Suc n)
  obtain q now locks q' now' locks' where c: "(operate g p ^^ n) c = (q, now, locks)" "operate g p (q, now, locks) = (q', now', locks')"
    by (metis prod_cases3)
  with operate_advance [OF assms(1) c(2)] Suc show ?case
    using reachable.later [OF _ step.run [of "solo_sys p (q, now, locks)" p q now' locks' q']] by (auto simp: solo_sys_def)
qed (use assms(2) in simp)

lemma started_reachable:
  assumes "startable t q" and "file_ok t now"
  shows "reachable t (solo_sys p (q, now, []))"
proof -
  have "initial t \<lparr>sy_file = now, sy_locks = [], sy_procs = (\<lambda>p. None)\<rparr>" using assms(2) by (auto simp: initial_def file_ok_def split: option.splits)
  from reachable.later [OF reachable.initially [OF this] step.start [of _ p]] assms(1)
  show ?thesis by (simp add: solo_sys_def)
qed

lemma name_revisions: "revision (name_of CHR ''a'')" "revision (name_of CHR ''b'')"
  by code_simp+

lemma sample_ok: "phase \<in> set phases \<Longrightarrow> file_ok sample_target (Some (sample_authority phase))"
  by (auto simp: file_ok_def state_ok_def sample_authority_def phases_def actions_def name_revisions)

text \<open>A Hook that was admitted is about to work.\<close>

theorem admitted_hook_excludes_inactive_witness:
  "\<exists>s q. reachable sample_target s \<and> sy_procs s 0 = Some (Work (Some (sample_authority ''active'')) q) \<and>
     st_phase (sample_authority ''active'') = ''active'' \<and>
     (sy_file s = Some (sample_authority ''active'') \<or> (\<exists>d. sy_file s = Some d \<and> st_phase d = ''deactivating''))"
proof -
  let ?c = "sample_authority ''active''" and ?s = "solo_sys 0 ((operate NAME 0 ^^ 3) (hook 1, Some (sample_authority ''active''), []))"
  have r: "reachable sample_target ?s"
    by (intro operate_reachable [OF revision_NAME] started_reachable startable.a_hook sample_ok) (simp add: phases_def)
  have "\<exists>q. sy_procs ?s 0 = Some (Work (Some ?c) q)"
    by (simp add: eval_nat_numeral solo_sys_def hook_def lease_def with_lock_def unless_fails_def can_lock_def admitted_body_def sample_authority_def)
  then obtain q where q: "sy_procs ?s 0 = Some (Work (Some ?c) q)" by blast
  from admitted_hook_excludes_inactive [OF r q] r q show ?thesis by blast
qed

text \<open>An administrator is about to publish the start of a deactivation.\<close>

theorem transitions_implement_the_lifecycle_witness:
  "\<exists>s s' d. reachable sample_target s \<and> step sample_target (Run 0) s s' \<and> sy_file s' = Some d \<and> st_phase d = ''deactivating'' \<and>
     lifecycle (sy_file s) d \<and> state_ok d"
proof -
  let ?q = "map_prog Some (transition True sample_target (name_of CHR ''a'') (name_of CHR ''c'') ''deactivate'')"
  let ?s = "\<lambda>n. solo_sys 0 ((operate NAME 0 ^^ n) (?q, Some (sample_authority ''active''), []))"
  have "startable sample_target ?q" by (rule startable.an_administrator)
  then have r: "reachable sample_target (?s n)" for n
    by (intro operate_reachable [OF revision_NAME] started_reachable sample_ok) (simp_all add: phases_def)
  let ?d = "\<lparr>st_target = sample_target, st_generation = NAME, st_phase = ''deactivating'', st_operation = name_of CHR ''c'', st_action = ''deactivate''\<rparr>"
  have rev: "revision (name_of CHR ''c'')" "name_of CHR ''b'' \<noteq> name_of CHR ''c''" by code_simp+
  have four: "\<exists>k. (operate NAME 0 ^^ 4) (?q, Some (sample_authority ''active''), []) = (Publish ?d k, Some (sample_authority ''active''), [(0, Admin_Lock, True)])"
    by (simp add: eval_nat_numeral transition_def rev actions_def with_lock_def unless_fails_def can_lock_def transit_def review_request_def
        sample_authority_def deactivate_def Let_def)
  then obtain k where k: "(operate NAME 0 ^^ 4) (?q, Some (sample_authority ''active''), []) = (Publish ?d k, Some (sample_authority ''active''), [(0, Admin_Lock, True)])"
    by blast
  then have "step sample_target (Run 0) (?s 4) (solo_sys 0 (k (Inr ()), Some ?d, [(0, Admin_Lock, True)]))"
    using step.run [of "?s 4" 0 "Publish ?d k", OF _ advance.publish, of sample_target "Inr ()"] by (simp add: solo_sys_def)
  from transitions_implement_the_lifecycle [OF r this] this r [of 4] k show ?thesis
    by (fastforce simp: solo_sys_def sample_authority_def)
qed


end
