(* ===== verification/Activation.thy ===== *)
theory Activation
  imports Workspace
begin

text \<open>
  \<open>integrations/activation.py\<close>: for which projects the shared Hook is switched on. A marker file
  names an enabled root; without markers the registrations in the database decide. The search
  climbs from the working directory and stops at the first repository. The file system and the
  database are environment steps.
\<close>

section \<open>Climbing a path\<close>

text \<open>\<open>p\<close>, \<open>p.parent\<close>, and so on up to the root.\<close>

definition ancestors :: "string \<Rightarrow> string list" where
  "ancestors p = map (\<lambda>n. let out = pp_root p @ join_with ''/'' (take n (pp_comps p)) in if out = [] then ''.'' else out)
     (rev [0..<Suc (length (pp_comps p))])"

text \<open>The first place where something is found; a place for which \<open>stop\<close> holds is the last one.\<close>

fun climb :: "(string \<Rightarrow> ('s, 'a option) act) \<Rightarrow> (string \<Rightarrow> ('s, bool) act) \<Rightarrow> string list \<Rightarrow> ('s, 'a option) act" where
  "climb look stop [] = ret None"
| "climb look stop (p # ps) =
     bind (look p) (\<lambda>found. case found of
         Some x \<Rightarrow> ret (Some x)
       | None \<Rightarrow> bind (stop p) (\<lambda>b. if b then ret None else climb look stop ps))"

section \<open>The environment\<close>

record registration =
  rg_workspace :: string
  rg_root :: string
  rg_by :: string

text \<open>\<open>av_registered\<close> is the table \<open>workspaces\<close> and, if it exists, the column of
  \<open>workspace_runtime_settings\<close>; \<open>av_json\<close> reads and parses a file.\<close>

record 's active_env =
  av_hash :: hash
  av_place :: "'s place_env"
  av_posix :: bool
  av_getcwd :: "'s \<Rightarrow> string res \<times> 's"
  av_exists :: "string \<Rightarrow> 's \<Rightarrow> bool res \<times> 's"
  av_is_link :: "string \<Rightarrow> 's \<Rightarrow> bool res \<times> 's"
  av_is_dir :: "string \<Rightarrow> 's \<Rightarrow> bool res \<times> 's"
  av_is_file :: "string \<Rightarrow> 's \<Rightarrow> bool res \<times> 's"
  av_lstat :: "string \<Rightarrow> 's \<Rightarrow> (bool \<times> nat) res \<times> 's"
  av_json :: "string \<Rightarrow> 's \<Rightarrow> json res \<times> 's"
  av_registered :: "'s \<Rightarrow> (registration list \<times> string list option) res \<times> 's"
  av_mkdir :: "string \<Rightarrow> 's \<Rightarrow> unit res \<times> 's"
  av_chmod :: "string \<Rightarrow> 's \<Rightarrow> unit res \<times> 's"
  av_temporary :: "string \<Rightarrow> string \<Rightarrow> 's \<Rightarrow> string res \<times> 's"
  av_write :: "string \<Rightarrow> string \<Rightarrow> 's \<Rightarrow> unit res \<times> 's"
  av_replace :: "string \<Rightarrow> string \<Rightarrow> 's \<Rightarrow> unit res \<times> 's"
  av_sync :: "string \<Rightarrow> 's \<Rightarrow> unit res \<times> 's"
  av_unlink :: "string \<Rightarrow> 's \<Rightarrow> unit res \<times> 's"

text \<open>\<open>p.exists() or p.is_symlink()\<close>.\<close>

definition there :: "'s active_env \<Rightarrow> string \<Rightarrow> ('s, bool) act" where
  "there e p = bind (av_exists e p) (\<lambda>b. if b then ret True else av_is_link e p)"

definition repository_at :: "'s active_env \<Rightarrow> string \<Rightarrow> ('s, bool) act" where
  "repository_at e p = there e (path_join p ''.git'')"

section \<open>Markers\<close>

definition activation_directory :: "string \<Rightarrow> string" where
  "activation_directory db = db @ ''.workspaces''"

definition activation_path :: "hash \<Rightarrow> string \<Rightarrow> string \<Rightarrow> string" where
  "activation_path H db root = path_join (activation_directory db) (make_workspace_id H root @ ''.json'')"

definition activation_migration_complete_path :: "string \<Rightarrow> string" where
  "activation_migration_complete_path db = path_join (activation_directory db) ''migration-v1.complete''"

definition marker_json :: "string \<Rightarrow> json" where
  "marker_json root = JObj [(''version'', JInt 1), (''root'', JStr root)]"

definition read_marker :: "'s active_env \<Rightarrow> string \<Rightarrow> string \<Rightarrow> ('s, string) act" where
  "read_marker e path expected =
     bind (av_lstat e path) (\<lambda>(regular, size).
       if \<not> regular then raise (ValueError ''workspace activation marker is not a regular file'')
       else if 4096 < size then raise (ValueError ''workspace activation marker is too large'')
       else
         bind (av_json e path) (\<lambda>payload.
           if \<not> py_eq payload (marker_json expected) then raise (ValueError ''invalid workspace activation marker'')
           else ret expected))"

definition marker_at :: "'s active_env \<Rightarrow> string \<Rightarrow> string \<Rightarrow> ('s, string option) act" where
  "marker_at e db root =
     (let marker = activation_path (av_hash e) db root
      in bind (there e marker) (\<lambda>b. if b then bind (read_marker e marker root) (\<lambda>r. ret (Some r)) else ret None))"

definition marked_workspace_root :: "'s active_env \<Rightarrow> string \<Rightarrow> string \<Rightarrow> ('s, string option) act" where
  "marked_workspace_root e db execution =
     (let directory = activation_directory db
      in bind (av_exists e directory) (\<lambda>b.
           if \<not> b then ret None
           else
             bind (av_is_link e directory) (\<lambda>link.
             bind (if link then ret False else av_is_dir e directory) (\<lambda>dir.
               if link \<or> \<not> dir then raise (ValueError ''workspace activation directory is invalid'')
               else climb (marker_at e db) (repository_at e) (ancestors execution)))))"

section \<open>Registrations in the database\<close>

text \<open>Automatic observations are no consent.\<close>

fun consented :: "'s active_env \<Rightarrow> string list \<Rightarrow> registration list \<Rightarrow> ('s, string list) act" where
  "consented e configured [] = ret []"
| "consented e configured (r # rs) =
     bind (if rg_by r \<in> {''init'', ''setup_profile''} \<or> rg_workspace r \<in> set configured then ret True
           else av_is_file e (path_join (rg_root r) ''protected_sources.json'')) (\<lambda>b.
     bind (consented e configured rs) (\<lambda>roots. ret (if b then rg_root r # roots else roots)))"

definition registered_roots :: "'s active_env \<Rightarrow> ('s, string list) act" where
  "registered_roots e = bind (av_registered e) (\<lambda>(rows, settings).
     consented e (case settings of None \<Rightarrow> [] | Some ids \<Rightarrow> ids) rows)"

text \<open>No repository strictly below the root on the way to the working directory.\<close>

fun clear_below :: "'s active_env \<Rightarrow> string \<Rightarrow> string \<Rightarrow> string list \<Rightarrow> ('s, bool) act" where
  "clear_below e root cursor [] = ret True"
| "clear_below e root cursor (part # parts) =
     (let cursor = path_join cursor part
      in bind (if cursor = pp_str root then ret False else repository_at e cursor) (\<lambda>b.
           if b then ret False else clear_below e root cursor parts))"

fun legacy_root :: "'s active_env \<Rightarrow> string \<Rightarrow> string list \<Rightarrow> ('s, string option) act" where
  "legacy_root e execution [] = ret None"
| "legacy_root e execution (root # roots) =
     (case (if inside root execution then relative_to execution root else None) of
        None \<Rightarrow> legacy_root e execution roots
      | Some relative \<Rightarrow>
          bind (clear_below e root (pp_str root) (pp_comps relative)) (\<lambda>b.
            if b then ret (Some root) else legacy_root e execution roots))"

section \<open>The enabled root\<close>

text \<open>The working directory, or that of the process if the payload has none.\<close>

definition execution_root :: "'s active_env \<Rightarrow> json \<Rightarrow> ('s, string option) act" where
  "execution_root e cwd =
     bind (resolve_workspace (av_place e) (av_hash e) cwd None None) (\<lambda>c.
     bind (if ready c then ret c
           else bind (av_getcwd e) (\<lambda>here. resolve_workspace (av_place e) (av_hash e) (JStr here) None None)) (\<lambda>c.
       ret (if ready c then wc_root c else None)))"

text \<open>Whether the registrations still count: not once the migration to markers is complete.\<close>

definition migrated :: "'s active_env \<Rightarrow> string \<Rightarrow> ('s, bool) act" where
  "migrated e db =
     bind (av_is_file e (activation_migration_complete_path db)) (\<lambda>file.
       if file then bind (av_is_link e (activation_migration_complete_path db)) (\<lambda>link. ret (\<not> link)) else ret False)"

definition registered_root :: "'s active_env \<Rightarrow> string \<Rightarrow> string \<Rightarrow> ('s, string option) act" where
  "registered_root e db execution =
     bind (av_exists e db) (\<lambda>b.
       if \<not> b then ret None
       else bind (registered_roots e) (\<lambda>roots. legacy_root e execution (sort_key (\<lambda>r. - int (length r)) roots)))"

definition enabled_workspace_root :: "'s active_env \<Rightarrow> string \<Rightarrow> json \<Rightarrow> ('s, string option) act" where
  "enabled_workspace_root e db cwd =
     bind (execution_root e cwd) (\<lambda>found.
       case found of
         None \<Rightarrow> raise (ValueError ''Hook workspace cannot be identified safely'')
       | Some execution \<Rightarrow>
           bind (there e (activation_directory db)) (\<lambda>b.
             if b then
               bind (marked_workspace_root e db execution) (\<lambda>marked.
                 case marked of
                   Some root \<Rightarrow> ret (Some root)
                 | None \<Rightarrow> bind (migrated e db) (\<lambda>done. if done then ret None else registered_root e db execution))
             else registered_root e db execution))"

section \<open>Enabling\<close>

definition sync_directory :: "'s active_env \<Rightarrow> string \<Rightarrow> ('s, unit) act" where
  "sync_directory e d = (if av_posix e then av_sync e d else ret ())"

text \<open>Writing through a temporary file, which is removed if it is still there.\<close>

definition save_file :: "'s active_env \<Rightarrow> string \<Rightarrow> string \<Rightarrow> string \<Rightarrow> string \<Rightarrow> ('s, unit) act" where
  "save_file e directory stem target text =
     bind (av_temporary e directory stem) (\<lambda>temporary.
       ensure
         (bind (av_write e temporary text) (\<lambda>u.
          bind (av_replace e temporary target) (\<lambda>u.
            sync_directory e directory)))
         (bind (av_exists e temporary) (\<lambda>b. if b then av_unlink e temporary else ret ())))"

definition save_marker :: "'s active_env \<Rightarrow> string \<Rightarrow> string \<Rightarrow> ('s, unit) act" where
  "save_marker e db root =
     (let directory = activation_directory db
      in bind (av_exists e directory) (\<lambda>b.
         bind (if b then bind (av_is_link e directory) (\<lambda>link. if link then ret False else av_is_dir e directory) else ret True) (\<lambda>ok.
           if \<not> ok then raise (ValueError ''workspace activation directory is invalid'')
           else
             bind (av_mkdir e directory) (\<lambda>u.
             bind (if av_posix e then av_chmod e directory else ret ()) (\<lambda>u.
               save_file e directory ''.workspace-'' (activation_path (av_hash e) db root) (dumps True False (marker_json root)))))))"

definition save_migration_complete :: "'s active_env \<Rightarrow> string \<Rightarrow> ('s, unit) act" where
  "save_migration_complete e db =
     save_file e (activation_directory db) ''.migration-'' (activation_migration_complete_path db) (''1'' @ [char_of (10::nat)])"

definition save_workspace_activations :: "'s active_env \<Rightarrow> string \<Rightarrow> string option \<Rightarrow> ('s, unit) act" where
  "save_workspace_activations e db root =
     bind (registered_roots e) (\<lambda>roots.
     bind (each (\<lambda>r u. save_marker e db r) (sort (remdups (roots @ (case root of None \<Rightarrow> [] | Some r \<Rightarrow> [r])))) ()) (\<lambda>u.
       save_migration_complete e db))"

definition require_workspace_registration :: "'s active_env \<Rightarrow> string \<Rightarrow> ('s, unit) act" where
  "require_workspace_registration e root =
     bind (av_registered e) (\<lambda>(rows, settings).
       if list_ex (\<lambda>r. rg_root r = root) rows then ret () else raise (ValueError ''enabled workspace registration is missing''))"

section \<open>Why a root is enabled\<close>

text \<open>
  A run that finds an enabled root, as relations between the state before and the state after.
  A marker is a regular file of at most 4096 bytes, and what is then read from it is the version
  and exactly this root.
\<close>

definition valid_marker :: "'s active_env \<Rightarrow> string \<Rightarrow> string \<Rightarrow> 's \<Rightarrow> 's \<Rightarrow> bool" where
  "valid_marker e path root s t \<longleftrightarrow> (\<exists>size v s1. av_lstat e path s = (Inr (True, size), s1) \<and> size \<le> 4096 \<and>
     av_json e path s1 = (Inr v, t) \<and> py_eq v (JObj [(''version'', JInt 1), (''root'', JStr root)]))"

text \<open>The walk up: a place without a marker is passed if it is no repository; the first marker decides.\<close>

fun climbed :: "'s active_env \<Rightarrow> string \<Rightarrow> string list \<Rightarrow> string \<Rightarrow> 's \<Rightarrow> 's \<Rightarrow> bool" where
  "climbed e db [] root s t \<longleftrightarrow> False"
| "climbed e db (p # ps) root s t \<longleftrightarrow> (\<exists>b s1. there e (activation_path (av_hash e) db p) s = (Inr b, s1) \<and>
     (if b then p = root \<and> valid_marker e (activation_path (av_hash e) db root) root s1 t
      else \<exists>s2. repository_at e p s1 = (Inr False, s2) \<and> climbed e db ps root s2 t))"

definition marked_choice :: "'s active_env \<Rightarrow> string \<Rightarrow> string \<Rightarrow> string \<Rightarrow> 's \<Rightarrow> 's \<Rightarrow> bool" where
  "marked_choice e db execution root s t \<longleftrightarrow> root \<in> set (ancestors execution) \<and>
     (\<exists>s1 s2 s3. av_exists e (activation_directory db) s = (Inr True, s1) \<and> av_is_link e (activation_directory db) s1 = (Inr False, s2) \<and>
        av_is_dir e (activation_directory db) s2 = (Inr True, s3) \<and> climbed e db (ancestors execution) root s3 t)"

text \<open>The consent in the table: the row says who registered the root, or the workspace was configured, or
  the root has its file of sources, looked for when the rows before were done.\<close>

definition consent_for :: "'s active_env \<Rightarrow> string list \<Rightarrow> registration list \<Rightarrow> string \<Rightarrow> 's \<Rightarrow> bool" where
  "consent_for e configured rows root s \<longleftrightarrow> (\<exists>before r after roots s1. rows = before @ r # after \<and> rg_root r = root \<and>
     consented e configured before s = (Inr roots, s1) \<and>
     (rg_by r \<in> {''init'', ''setup_profile''} \<or> rg_workspace r \<in> set configured \<or>
      (\<exists>s2. av_is_file e (path_join root ''protected_sources.json'') s1 = (Inr True, s2))))"

text \<open>The places strictly below the root on the way down.\<close>

fun places :: "string \<Rightarrow> string list \<Rightarrow> string list" where
  "places cursor [] = []"
| "places cursor (part # parts) = path_join cursor part # places (path_join cursor part) parts"

fun no_repository :: "'s active_env \<Rightarrow> string list \<Rightarrow> 's \<Rightarrow> 's \<Rightarrow> bool" where
  "no_repository e [] s t \<longleftrightarrow> t = s"
| "no_repository e (p # ps) s t \<longleftrightarrow> (\<exists>s1. repository_at e p s = (Inr False, s1) \<and> no_repository e ps s1 t)"

definition registered_choice :: "'s active_env \<Rightarrow> string \<Rightarrow> string \<Rightarrow> string \<Rightarrow> 's \<Rightarrow> 's \<Rightarrow> bool" where
  "registered_choice e db execution root s t \<longleftrightarrow> (\<exists>s1 rows settings s2 roots s3 longer shorter s4 relative.
     av_exists e db s = (Inr True, s1) \<and> av_registered e s1 = (Inr (rows, settings), s2) \<and>
     consent_for e (case settings of None \<Rightarrow> [] | Some ids \<Rightarrow> ids) rows root s2 \<and>
     registered_roots e s1 = (Inr roots, s3) \<and> sort_key (\<lambda>r. - int (length r)) roots = longer @ root # shorter \<and>
     legacy_root e execution longer s3 = (Inr None, s4) \<and>
     prefix (pp_comps root) (pp_comps execution) \<and> relative_to execution root = Some relative \<and>
     no_repository e (filter (\<lambda>p. p \<noteq> pp_str root) (places (pp_str root) (pp_comps relative))) s4 t)"

lemma read_marker_valid: "read_marker e path x s = (Inr r, t) \<Longrightarrow> r = x \<and> valid_marker e path x s t"
  by (auto simp: read_marker_def valid_marker_def marker_json_def bind_Inr ret_Inr raise_Inr split: if_splits)

lemma climb_climbed:
  "climb (marker_at e db) (repository_at e) ps s = (Inr (Some root), t) \<Longrightarrow> root \<in> set ps \<and> climbed e db ps root s t"
proof (induction ps arbitrary: s)
  case Nil
  then show ?case by (simp add: ret_Inr)
next
  case (Cons p ps)
  from Cons.prems obtain found s1 where l: "marker_at e db p s = (Inr found, s1)"
    and r: "(case found of Some x \<Rightarrow> ret (Some x) | None \<Rightarrow> bind (repository_at e p) (\<lambda>b. if b then ret None else climb (marker_at e db) (repository_at e) ps)) s1 = (Inr (Some root), t)"
    by (auto simp: bind_Inr)
  from l obtain b s2 where b: "there e (activation_path (av_hash e) db p) s = (Inr b, s2)"
    and m: "(if b then bind (read_marker e (activation_path (av_hash e) db p) p) (\<lambda>r. ret (Some r)) else ret None) s2 = (Inr found, s1)"
    by (auto simp: marker_at_def Let_def bind_Inr)
  show ?case
  proof (cases b)
    case True
    with m obtain x where x: "read_marker e (activation_path (av_hash e) db p) p s2 = (Inr x, s1)" "found = Some x"
      by (auto simp: bind_Inr ret_Inr)
    with r have "x = root" "s1 = t" by (simp_all add: ret_Inr)
    with read_marker_valid [OF x(1)] b True show ?thesis by auto
  next
    case False
    with m have f: "found = None" "s1 = s2" by (simp_all add: ret_Inr)
    with r obtain s3 where s3: "repository_at e p s2 = (Inr False, s3)"
      and c: "climb (marker_at e db) (repository_at e) ps s3 = (Inr (Some root), t)"
      by (auto simp: bind_Inr ret_Inr split: if_splits)
    from Cons.IH [OF c] b False s3 show ?thesis by auto
  qed
qed

lemma marked_workspace_choice:
  assumes "marked_workspace_root e db execution s = (Inr (Some root), t)"
  shows "marked_choice e db execution root s t"
proof -
  from assms obtain s1 s2 s3 where "av_exists e (activation_directory db) s = (Inr True, s1)"
    "av_is_link e (activation_directory db) s1 = (Inr False, s2)" "av_is_dir e (activation_directory db) s2 = (Inr True, s3)"
    and c: "climb (marker_at e db) (repository_at e) (ancestors execution) s3 = (Inr (Some root), t)"
    by (auto simp: marked_workspace_root_def Let_def bind_Inr ret_Inr raise_Inr split: if_splits)
  with climb_climbed [OF c] show ?thesis unfolding marked_choice_def by blast
qed

lemma consented_row:
  assumes "consented e configured rows s = (Inr roots, t)" and "root \<in> set roots"
  shows "consent_for e configured rows root s"
  using assms
proof (induction rows arbitrary: s roots)
  case Nil
  then show ?case by (simp add: ret_Inr)
next
  case (Cons r rs)
  from Cons.prems(1) obtain b s1 rest where b: "(if rg_by r \<in> {''init'', ''setup_profile''} \<or> rg_workspace r \<in> set configured then ret True
           else av_is_file e (path_join (rg_root r) ''protected_sources.json'')) s = (Inr b, s1)"
    and c: "consented e configured rs s1 = (Inr rest, t)" and roots: "roots = (if b then rg_root r # rest else rest)"
    by (auto simp: bind_Inr ret_Inr)
  show ?case
  proof (cases "b \<and> rg_root r = root")
    case True
    have "rg_by r \<in> {''init'', ''setup_profile''} \<or> rg_workspace r \<in> set configured \<or>
        (\<exists>s2. av_is_file e (path_join root ''protected_sources.json'') s = (Inr True, s2))"
      using b True by (auto split: if_splits)
    moreover have "consented e configured [] s = (Inr [], s)" by (simp add: ret_def)
    ultimately show ?thesis unfolding consent_for_def using True by (metis append_Nil)
  next
    case False
    with Cons.prems(2) roots have "root \<in> set rest" by (auto split: if_splits)
    from Cons.IH [OF c this] obtain before q after some s2 where
      q: "rs = before @ q # after" "rg_root q = root" "consented e configured before s1 = (Inr some, s2)"
        "rg_by q \<in> {''init'', ''setup_profile''} \<or> rg_workspace q \<in> set configured \<or>
         (\<exists>s3. av_is_file e (path_join root ''protected_sources.json'') s2 = (Inr True, s3))"
      unfolding consent_for_def by blast
    have "consented e configured (r # before) s = (Inr (if b then rg_root r # some else some), s2)"
      unfolding consented.simps bind_Inr using b q(3) by (intro exI [of _ b] exI [of _ s1]) (auto simp: bind_Inr ret_Inr)
    with q(1,2,4) show ?thesis unfolding consent_for_def by (metis append_Cons)
  qed
qed

lemma clear_below_Inr:
  "clear_below e root cursor parts s = (Inr True, t) \<Longrightarrow> no_repository e (filter (\<lambda>p. p \<noteq> pp_str root) (places cursor parts)) s t"
proof (induction parts arbitrary: cursor s)
  case Nil
  then show ?case by (simp add: ret_Inr)
next
  case (Cons part parts)
  then show ?case by (auto simp: Let_def bind_Inr ret_Inr split: if_splits)
qed

lemma legacy_root_choice:
  assumes "legacy_root e execution roots s = (Inr (Some root), t)"
  shows "\<exists>longer shorter s1 relative. roots = longer @ root # shorter \<and> legacy_root e execution longer s = (Inr None, s1) \<and>
    inside root execution \<and> relative_to execution root = Some relative \<and>
    clear_below e root (pp_str root) (pp_comps relative) s1 = (Inr True, t)"
  using assms
proof (induction roots arbitrary: s)
  case Nil
  then show ?case by (simp add: ret_Inr)
next
  case (Cons r roots)
  have next_root: ?case if skip: "\<And>more. legacy_root e execution (r # more) s = legacy_root e execution more s1"
    and l: "legacy_root e execution roots s1 = (Inr (Some root), t)" for s1
  proof -
    from Cons.IH [OF l] obtain longer shorter s2 relative where "roots = longer @ root # shorter"
      "legacy_root e execution longer s1 = (Inr None, s2)" "inside root execution" "relative_to execution root = Some relative"
      "clear_below e root (pp_str root) (pp_comps relative) s2 = (Inr True, t)" by blast
    with skip [of longer] show ?thesis by (intro exI [of _ "r # longer"] exI) auto
  qed
  show ?case
  proof (cases "if inside r execution then relative_to execution r else None")
    case None
    then have "legacy_root e execution (r # more) s = legacy_root e execution more s" for more by simp
    from next_root [OF this] Cons.prems None show ?thesis by simp
  next
    case (Some relative)
    with Cons.prems obtain b s1 where b: "clear_below e r (pp_str r) (pp_comps relative) s = (Inr b, s1)"
      and n: "(if b then ret (Some r) else legacy_root e execution roots) s1 = (Inr (Some root), t)"
      by (auto simp: bind_Inr)
    show ?thesis
    proof (cases b)
      case True
      with n have "r = root" "s1 = t" by (simp_all add: ret_Inr)
      with b True Some show ?thesis
        by (intro exI [of _ "[]"] exI [of _ roots] exI [of _ s] exI [of _ relative]) (auto simp: ret_def split: if_splits)
    next
      case False
      with b Some have "legacy_root e execution (r # more) s = legacy_root e execution more s1" for more by (simp add: bind_def)
      from next_root [OF this] n False show ?thesis by simp
    qed
  qed
qed

lemma registered_root_choice:
  assumes "registered_root e db execution s = (Inr (Some root), t)"
  shows "registered_choice e db execution root s t"
proof -
  from assms obtain s1 roots s3 where x: "av_exists e db s = (Inr True, s1)" and r: "registered_roots e s1 = (Inr roots, s3)"
    and l: "legacy_root e execution (sort_key (\<lambda>r. - int (length r)) roots) s3 = (Inr (Some root), t)"
    by (auto simp: registered_root_def bind_Inr ret_Inr split: if_splits)
  from r obtain rows settings s2 where t: "av_registered e s1 = (Inr (rows, settings), s2)"
    and c: "consented e (case settings of None \<Rightarrow> [] | Some ids \<Rightarrow> ids) rows s2 = (Inr roots, s3)"
    by (auto simp: registered_roots_def bind_Inr)
  from legacy_root_choice [OF l] obtain longer shorter s4 relative where k: "sort_key (\<lambda>r. - int (length r)) roots = longer @ root # shorter"
    "legacy_root e execution longer s3 = (Inr None, s4)" "inside root execution" "relative_to execution root = Some relative"
    and b: "clear_below e root (pp_str root) (pp_comps relative) s4 = (Inr True, t)" by blast
  from k(1) have "root \<in> set (sort_key (\<lambda>r. - int (length r)) roots)" by simp
  then have "root \<in> set roots" by simp
  from consented_row [OF c this] clear_below_Inr [OF b] x t r k inside_comps [OF k(3)] show ?thesis
    unfolding registered_choice_def by blast
qed

text \<open>C18. A project is enabled only by consent for it. If the Hook finds an enabled root for a working
  directory, then in this run the directory resolved as a ready workspace, and one of two things
  was found, each step in the state the step before it left. Either the directory of markers is a
  real directory, the root is the working directory or one above it, every place before it on the
  way up has no marker and is no repository, and the marker of the root is a regular file of at most
  4096 bytes whose content, as read, is the version and this very root. Or there are no markers (or
  none for this directory, with the migration to markers not complete), the root is registered with
  consent: its row was written by init or setup_profile, or its workspace was configured, or the
  root has its file of protected sources; the root contains the directory, every longer registered
  root was passed over, and no place strictly below the root on the way down is a repository.\<close>

theorem enabled_root_has_consent:
  assumes "enabled_workspace_root e db cwd s = (Inr (Some root), t)"
  shows "\<exists>execution s1 b s2. execution_root e cwd s = (Inr (Some execution), s1) \<and>
    there e (activation_directory db) s1 = (Inr b, s2) \<and>
    (b \<and> marked_choice e db execution root s2 t \<or>
     (\<exists>s3. (if b then \<exists>u. marked_workspace_root e db execution s2 = (Inr None, u) \<and> migrated e db u = (Inr False, s3) else s3 = s2) \<and>
        registered_choice e db execution root s3 t))"
proof -
  from assms obtain execution s1 b s2 where x: "execution_root e cwd s = (Inr (Some execution), s1)"
    and b: "there e (activation_directory db) s1 = (Inr b, s2)"
    and r: "(if b then
               bind (marked_workspace_root e db execution) (\<lambda>marked.
                 case marked of
                   Some root \<Rightarrow> ret (Some root)
                 | None \<Rightarrow> bind (migrated e db) (\<lambda>done. if done then ret None else registered_root e db execution))
             else registered_root e db execution) s2 = (Inr (Some root), t)"
    by (auto simp: enabled_workspace_root_def bind_Inr raise_Inr split: option.splits)
  show ?thesis
  proof (cases b)
    case False
    with r have "registered_root e db execution s2 = (Inr (Some root), t)" by simp
    from registered_root_choice [OF this] x b False show ?thesis by auto
  next
    case True
    with r obtain marked s3 where m: "marked_workspace_root e db execution s2 = (Inr marked, s3)"
      and n: "(case marked of
                   Some root \<Rightarrow> ret (Some root)
                 | None \<Rightarrow> bind (migrated e db) (\<lambda>done. if done then ret None else registered_root e db execution)) s3 = (Inr (Some root), t)"
      by (auto simp: bind_Inr)
    show ?thesis
    proof (cases marked)
      case None
      with n obtain s4 where g: "migrated e db s3 = (Inr False, s4)" and "registered_root e db execution s4 = (Inr (Some root), t)"
        by (auto simp: bind_Inr ret_Inr split: if_splits)
      from registered_root_choice [OF this(2)] m None g x b True show ?thesis by (metis (full_types))
    next
      case (Some r)
      with n m have "marked_workspace_root e db execution s2 = (Inr (Some root), t)" by (auto simp: ret_Inr)
      from marked_workspace_choice [OF this] x b True show ?thesis by blast
    qed
  qed
qed

section \<open>Example\<close>

text \<open>A marker for \<open>/w\<close>; the Hook runs in \<open>/w/a\<close>.\<close>

definition sample_active :: "unit active_env" where
  "sample_active =
     \<lparr>av_hash = (\<lambda>b. show_nat (length b)), av_place = plain_places, av_posix = True, av_getcwd = (\<lambda>w. (Inr ''/'', w)),
      av_exists = (\<lambda>p w. (Inr (p = ''/d/db.workspaces'' \<or> p = ''/d/db.workspaces/ws_v1_2.json''), w)),
      av_is_link = (\<lambda>p w. (Inr False, w)), av_is_dir = (\<lambda>p w. (Inr True, w)), av_is_file = (\<lambda>p w. (Inr False, w)),
      av_lstat = (\<lambda>p w. (Inr (True, 30), w)), av_json = (\<lambda>p w. (Inr (marker_json ''/w''), w)),
      av_registered = (\<lambda>w. (Inr ([], None), w)), av_mkdir = (\<lambda>p w. (Inr (), w)), av_chmod = (\<lambda>p w. (Inr (), w)),
      av_temporary = (\<lambda>d t w. (Inr ''t'', w)), av_write = (\<lambda>p t w. (Inr (), w)), av_replace = (\<lambda>p q w. (Inr (), w)),
      av_sync = (\<lambda>p w. (Inr (), w)), av_unlink = (\<lambda>p w. (Inr (), w))\<rparr>"

theorem enabled_root_has_consent_witness:
  "enabled_workspace_root sample_active ''/d/db'' (JStr ''/w/a'') () = (Inr (Some ''/w''), ()) \<and>
   (\<exists>execution. marked_choice sample_active ''/d/db'' execution ''/w'' () () \<or> registered_choice sample_active ''/d/db'' execution ''/w'' () ())"
proof -
  have r: "enabled_workspace_root sample_active ''/d/db'' (JStr ''/w/a'') () = (Inr (Some ''/w''), ())" by code_simp
  from enabled_root_has_consent [OF r] r show ?thesis by (metis (full_types) old.unit.exhaust)
qed

end
