(* ===== verification/Entry.thy ===== *)
theory Entry
  imports Runtime Admission Activation
begin

text \<open>
  \<open>engine/hook.py\<close> and \<open>integrations/authority.py\<close>: the entry point of the Hook. It reads the
  payload, takes the lease of the project, finds out whether the project is enabled, records and
  judges the event, prints the answer, and only then may start the background worker. Whatever
  goes wrong on the way, the answer to a \<open>PreToolUse\<close> holds the call back.
\<close>

section \<open>State and environment\<close>

text \<open>\<open>en_out\<close> is what was printed, \<open>en_event\<close> the variable \<open>event\<close> of \<open>run\<close>, \<open>en_kicks\<close> the
  number of workers started.\<close>

record 'w entry =
  en_runtime :: "'w runtime"
  en_pending :: pend_db
  en_out :: "dict list"
  en_event :: "hook_event option"
  en_kicks :: nat

text \<open>\<open>ee_database\<close> is the path of \<open>events.db\<close>, \<open>ee_state_dir\<close> its directory and \<open>ee_data_dir\<close> the
  resolved name of that directory; \<open>ee_stdin\<close> what is read, at most one byte over the budget;
  \<open>ee_manifest\<close> the plugin's manifest, empty if there is none, and \<open>ee_hooks\<close> the hash of its Hook
  definitions.\<close>

record 'w entry_env =
  ee_runtime :: "'w runtime_env"
  ee_wording :: wording
  ee_boundary :: string
  ee_version :: string
  ee_store :: "'w store_env"
  ee_uid :: int
  ee_active :: "'w active_env"
  ee_database :: string
  ee_state_dir :: string
  ee_data_dir :: "'w \<Rightarrow> string res \<times> 'w"
  ee_stdin :: "'w \<Rightarrow> content res \<times> 'w"
  ee_manifest :: "'w \<Rightarrow> json res \<times> 'w"
  ee_hooks :: "'w \<Rightarrow> string res \<times> 'w"
  ee_owner :: string
  ee_fuel :: nat
  ee_kick :: "'w \<Rightarrow> unit res \<times> 'w"

definition at_runtime :: "('w, 'a) run \<Rightarrow> ('w entry, 'a) act" where
  "at_runtime m s = (let (r, t) = m (en_runtime s) in (r, s\<lparr>en_runtime := t\<rparr>))"

definition entry_world :: "('w, 'a) act \<Rightarrow> ('w entry, 'a) act" where
  "entry_world m = at_runtime (outer m)"

text \<open>The store of authorities, used from the state of the Hook.\<close>

definition entry_store :: "'w entry_env \<Rightarrow> 'w entry store_env" where
  "entry_store e = (let a = ee_store e in
     \<lparr>au_hash = au_hash a, au_directory = au_directory a, au_owner = 0, au_euid = au_euid a, au_root = entry_world (au_root a),
      au_child = (\<lambda>fd p. entry_world (au_child a fd p)), au_fstat = (\<lambda>fd. entry_world (au_fstat a fd)),
      au_writable = (\<lambda>fd. entry_world (au_writable a fd)), au_open = (\<lambda>fd n. entry_world (au_open a fd n)),
      au_create = (\<lambda>fd n. entry_world (au_create a fd n)), au_chmod = (\<lambda>fd. entry_world (au_chmod a fd)),
      au_read = (\<lambda>fd. entry_world (au_read a fd)), au_flock = (\<lambda>fd ex. entry_world (au_flock a fd ex)),
      au_uuid = (\<lambda>s. let (g, w) = au_uuid a (eg_world (rt_engine (en_runtime s)))
         in (g, s\<lparr>en_runtime := (en_runtime s)\<lparr>rt_engine := set_world w (rt_engine (en_runtime s))\<rparr>\<rparr>)),
      au_temporary = (\<lambda>fd n. entry_world (au_temporary a fd n)), au_write = (\<lambda>fd c. entry_world (au_write a fd c)),
      au_replace = (\<lambda>fd m n. entry_world (au_replace a fd m n)), au_sync = (\<lambda>fd. entry_world (au_sync a fd)),
      au_unlink = (\<lambda>fd n. entry_world (au_unlink a fd n)), au_close = (\<lambda>fd. entry_world (au_close a fd))\<rparr>)"

section \<open>The lease of the project\<close>

definition installed :: "'w entry_env \<Rightarrow> ('w entry, bool) act" where
  "installed e = entry_world (there (ee_active e) (au_directory (ee_store e)))"

definition new_store :: "'w entry_env \<Rightarrow> ('w entry, unit) act" where
  "new_store e = (if store_ready (ee_store e) then ret () else raise (AuthorityError ''invalid_authority_directory''))"

text \<open>The nearest enrolled project; the search ends at the first repository.\<close>

fun nearest_lease :: "'w entry_env \<Rightarrow> string \<Rightarrow> (state option \<Rightarrow> ('w entry, 'a) act) \<Rightarrow> string list \<Rightarrow> ('w entry, 'a) act" where
  "nearest_lease e data_dir body [] = body None"
| "nearest_lease e data_dir body (candidate # candidates) =
     bind (pure (make_target (ee_uid e) candidate data_dir)) (\<lambda>t.
     bind (store_lease (entry_store e) t (\<lambda>s. case s of
              None \<Rightarrow> ret None
            | Some c \<Rightarrow> bind (body (Some c)) (\<lambda>x. ret (Some x)))) (\<lambda>done. case done of
         Some x \<Rightarrow> ret x
       | None \<Rightarrow>
           bind (entry_world (repository_at (ee_active e) candidate)) (\<lambda>b.
             if b then body None else nearest_lease e data_dir body candidates)))"

definition workspace_authority_lease :: "'w entry_env \<Rightarrow> json \<Rightarrow> (state option \<Rightarrow> ('w entry, 'a) act) \<Rightarrow> ('w entry, 'a) act" where
  "workspace_authority_lease e cwd body =
     bind (installed e) (\<lambda>b.
       if \<not> b then body None
       else if pp_name (ee_database e) \<noteq> ''events.db'' then raise (AuthorityError ''authority_database_identity_unsupported'')
       else
         bind (entry_world (execution_root (ee_active e) cwd)) (\<lambda>found.
           case found of
             None \<Rightarrow> raise (AuthorityError ''authority_workspace_unresolved'')
           | Some execution \<Rightarrow>
               bind (new_store e) (\<lambda>u.
               bind (entry_world (ee_data_dir e)) (\<lambda>data_dir.
                 nearest_lease e data_dir body (ancestors execution)))))"

text \<open>The lease of a worker, for a workspace by its identity in the table \<open>workspaces\<close>.\<close>

definition registered_workspace_authority_lease :: "'w entry_env \<Rightarrow> workspace_row list \<Rightarrow> string \<Rightarrow>
    (state option \<Rightarrow> ('w entry, 'a) act) \<Rightarrow> ('w entry, 'a) act" where
  "registered_workspace_authority_lease e registered ws body =
     bind (installed e) (\<lambda>b.
       if \<not> b then body None
       else if pp_name (ee_database e) \<noteq> ''events.db'' then raise (AuthorityError ''authority_database_identity_unsupported'')
       else case find (\<lambda>r. wr_id r = ws) registered of
           None \<Rightarrow> raise (AuthorityError ''authority_workspace_unresolved'')
         | Some row \<Rightarrow>
             if make_workspace_id (av_hash (ee_active e)) (wr_root row) \<noteq> ws
             then raise (AuthorityError ''authority_workspace_unresolved'')
             else
               bind (entry_world (ee_data_dir e)) (\<lambda>data_dir.
               bind (pure (make_target (ee_uid e) (wr_root row) data_dir)) (\<lambda>t.
               bind (new_store e) (\<lambda>u.
                 store_lease (entry_store e) t body))))"

section \<open>The Hook\<close>

definition PHASES :: "(string \<times> string) list" where
  "PHASES = [(''session-start'', ''session_start''), (''subagent-start'', ''subagent_start''), (''pre-tool-use'', ''pre_tool_use''),
     (''post-tool-use'', ''post_tool_use''), (''stop'', ''stop'')]"

definition emit :: "dict \<Rightarrow> ('w entry, unit) act" where
  "emit d = modify (\<lambda>s. s\<lparr>en_out := en_out s @ [d]\<rparr>)"

definition STDIN_LIMIT :: nat where "STDIN_LIMIT = 1048576"

definition read_payload :: "'w entry_env \<Rightarrow> ('w entry, dict) act" where
  "read_payload e =
     bind (entry_world (ee_stdin e)) (\<lambda>c.
       if STDIN_LIMIT < ct_bytes c then raise (ValueError ''payload_budget_exceeded'')
       else bind (pure (ct_json c)) (\<lambda>v. case v of
           JObj d \<Rightarrow> ret d
         | _ \<Rightarrow> raise (ValueError ''invalid_hook_payload'')))"

text \<open>What the Hook adds to the payload: its own version and what it saw of the engine's definitions.\<close>

definition runtime_facts :: "'w entry_env \<Rightarrow> ('w entry, json) act" where
  "runtime_facts e =
     bind (entry_world (ee_manifest e)) (\<lambda>manifest.
     bind (pure (py_get (JStr (ee_version e)) manifest ''version'')) (\<lambda>version.
     bind (entry_world (ee_hooks e)) (\<lambda>hooks.
       ret (JObj [(''engine'', JStr ''semantic-flow-v2''), (''runtime_version'', JStr (ee_version e)), (''plugin_version'', version),
         (''hooks_sha256'', JStr hooks)]))))"

definition evidence_of :: "'w entry_env \<Rightarrow> 'w evidence_env" where
  "evidence_of e = se_evidence (te_snap (rx_target (ee_runtime e)))"

definition observed_payload :: "'w entry_env \<Rightarrow> dict \<Rightarrow> ('w entry, dict) act" where
  "observed_payload e payload =
     bind (runtime_facts e) (\<lambda>facts.
     bind (entry_world (observe_runtime_definitions (rx_hash (ee_runtime e)) (evidence_of e) (dget payload ''tool_input''))) (\<lambda>defs.
     bind (if defs \<noteq> [] then entry_world (observe_managed_resources (evidence_of e) (ee_state_dir e) 256) else ret JNull) (\<lambda>catalog.
       ret (dict_set ''_tooluseproxy_resource_catalog'' catalog (dict_set ''_tooluseproxy_definitions'' (JObj defs)
         (dict_set ''_tooluseproxy_runtime'' facts payload))))))"

definition process_event :: "'w entry_env \<Rightarrow> hook_event \<Rightarrow> ('w entry, dict option) act" where
  "process_event e ev s =
     (let (r, db, rt) = process_hook (ee_runtime e) (ee_wording e) ev (ee_owner e) (ee_fuel e) (en_pending s) (en_runtime s)
      in (r, s\<lparr>en_pending := db, en_runtime := rt\<rparr>))"

definition unavailable_result :: "string \<Rightarrow> dict" where
  "unavailable_result reason = [(''action'', JStr ''unavailable''), (''reason'', JStr reason)]"

definition start_output :: "'w entry_env \<Rightarrow> string \<Rightarrow> dict" where
  "start_output e phase = [(''hookSpecificOutput'', JObj
     [(''hookEventName'', JStr (if phase = ''session_start'' then ''SessionStart'' else ''SubagentStart'')),
      (''additionalContext'', JStr (ee_boundary e))])]"

definition journal_place :: "'w entry_env \<Rightarrow> 'w place_env" where
  "journal_place e = jn_place (rx_journal (ee_runtime e))"

definition deliver :: "'w entry_env \<Rightarrow> string \<Rightarrow> dict \<Rightarrow> string \<Rightarrow> ('w entry, dict) act" where
  "deliver e phase payload root =
     bind (observed_payload e payload) (\<lambda>payload.
     bind (entry_world (event_from (journal_place e) (jn_hash (rx_journal (ee_runtime e))) phase payload root)) (\<lambda>ev.
     bind (modify (\<lambda>s. s\<lparr>en_event := Some ev\<rparr>)) (\<lambda>u.
     bind (at_runtime (record_again (ee_runtime e) ev)) (\<lambda>u.
     bind (process_event e ev) (\<lambda>result.
     bind (case result of
             None \<Rightarrow> pure (hook_output (ee_wording e) (unavailable_result ''semantic_setup_required'') phase)
           | Some d \<Rightarrow> ret d) (\<lambda>d.
       ret (if phase \<in> {''session_start'', ''subagent_start''} then start_output e phase else d)))))))"

text \<open>The \<open>with\<close> block of the lease; \<open>None\<close> means that the answer was printed and \<open>run\<close> returned.\<close>

definition inside_lease :: "'w entry_env \<Rightarrow> string \<Rightarrow> dict \<Rightarrow> state option \<Rightarrow> ('w entry, dict option) act" where
  "inside_lease e phase payload s =
     (if (case s of None \<Rightarrow> False | Some c \<Rightarrow> st_phase c \<noteq> ''active'') then bind (emit []) (\<lambda>u. ret None)
      else
        bind (entry_world (enabled_workspace_root (ee_active e) (ee_database e) (dget payload ''cwd''))) (\<lambda>root.
          case root of
            None \<Rightarrow> bind (emit []) (\<lambda>u. ret None)
          | Some root \<Rightarrow> bind (deliver e phase payload root) (\<lambda>d. ret (Some d))))"

definition answer :: "'w entry_env \<Rightarrow> string \<Rightarrow> ('w entry, dict option) act" where
  "answer e phase =
     attempt (bind (read_payload e) (\<lambda>payload. workspace_authority_lease e (dget payload ''cwd'') (inside_lease e phase payload)))
       (\<lambda>x. bind (pure (hook_output (ee_wording e) (unavailable_result ''semantic_runtime_unavailable'') phase)) (\<lambda>d. ret (Some d)))"

text \<open>The background worker is started after the answer, and failing to start it changes nothing.\<close>

definition kick_worker :: "'w entry_env \<Rightarrow> ('w entry, unit) act" where
  "kick_worker e =
     attempt
       (bind (gets en_event) (\<lambda>event. case event of
            None \<Rightarrow> raise (OtherError ''NameError'')
          | Some ev \<Rightarrow>
              bind (at_runtime (read_config (ee_runtime e) (he_workspace ev))) (\<lambda>config.
                if (case config of None \<Rightarrow> True | Some c \<Rightarrow> dget c ''background_provenance'' \<noteq> JBool True) then ret ()
                else
                  bind (entry_world (known_sources (ee_runtime e) (he_workspace ev))) (\<lambda>srcs.
                    if srcs = [] then ret ()
                    else bind (entry_world (ee_kick e)) (\<lambda>u. modify (\<lambda>s. s\<lparr>en_kicks := Suc (en_kicks s)\<rparr>))))))
       (\<lambda>x. ret ())"

definition hook_run :: "'w entry_env \<Rightarrow> string \<Rightarrow> ('w entry, unit) act" where
  "hook_run e name =
     (case map_of PHASES name of
        None \<Rightarrow> raise (KeyError name)
      | Some phase \<Rightarrow>
          bind (answer e phase) (\<lambda>result. case result of
              None \<Rightarrow> ret ()
            | Some d \<Rightarrow> bind (emit d) (\<lambda>u. if tool_phase phase then kick_worker e else ret ())))"

section \<open>Into the lease\<close>

text \<open>
  The steps before the body of a lease, as relations between the states around them: in each
  relation the last argument is the state in which the body starts. First the walk down to the
  directory of the store, then the reading of the state of a target: \<open>c\<close> is what the body is given,
  \<open>d\<close> the open directory.
\<close>

fun descended :: "'w store_env \<Rightarrow> nat \<Rightarrow> string list \<Rightarrow> 'w \<Rightarrow> nat \<Rightarrow> 'w \<Rightarrow> bool" where
  "descended x fd [] s d s' \<longleftrightarrow> d = fd \<and> inspect_fd x True fd s = (Inr (), s')"
| "descended x fd (part # parts) s d s' \<longleftrightarrow> (\<exists>child s1 s2 s3. close_on_error x fd (au_child x fd part) s = (Inr child, s1) \<and>
     close_on_error x fd (au_close x fd) s1 = (Inr (), s2) \<and>
     close_on_error x child
            (if au_owner x = 0
             then bind (inspect_fd x True child) (\<lambda>u. refuse_writable x ''authority_directory_writable_by_agent'' child)
             else ret ()) s2 = (Inr (), s3) \<and>
     descended x child parts s3 d s')"

definition lease_read :: "'w store_env \<Rightarrow> target \<Rightarrow> 'w \<Rightarrow> nat \<Rightarrow> state option \<Rightarrow> 'w \<Rightarrow> bool" where
  "lease_read x t s d c s' \<longleftrightarrow> (\<exists>fd s1 s2 found s3. au_root x s = (Inr fd, s1) \<and>
     descended x fd (tl (pp_parts (au_directory x))) s1 d s2 \<and> read_state x d t s2 = (Inr found, s3) \<and>
     (case found of
        None \<Rightarrow> c = None \<and> s' = s3
      | Some f \<Rightarrow>
          if st_phase f \<noteq> ''active'' then c = Some f \<and> s' = s3
          else \<exists>lock s4 current. take_file_lock x d (lock_file x t Lease_Lock) False False s3 = (Inr lock, s4) \<and>
            read_state x d t s4 = (Inr (Some current), s') \<and> c = Some current))"

text \<open>The nearest enrolled project: a candidate that is not enrolled is left again, and its repository
  ends the search.\<close>

fun nearest_read :: "'w entry_env \<Rightarrow> string \<Rightarrow> string list \<Rightarrow> 'w entry \<Rightarrow> state option \<Rightarrow> 'w entry \<Rightarrow> bool" where
  "nearest_read e data_dir [] s c s' \<longleftrightarrow> c = None \<and> s' = s"
| "nearest_read e data_dir (candidate # candidates) s c s' \<longleftrightarrow> (\<exists>t d. make_target (ee_uid e) candidate data_dir = Inr t \<and>
     (c \<noteq> None \<and> lease_read (entry_store e) t s d c s' \<or>
      (\<exists>s1 s2 b s3. lease_read (entry_store e) t s d None s1 \<and> au_close (entry_store e) d s1 = (Inr (), s2) \<and>
         entry_world (repository_at (ee_active e) candidate) s2 = (Inr b, s3) \<and>
         (if b then c = None \<and> s' = s3 else nearest_read e data_dir candidates s3 c s'))))"

text \<open>The lease for a working directory. Without an installed store there is nothing to read.\<close>

definition entered :: "'w entry_env \<Rightarrow> json \<Rightarrow> 'w entry \<Rightarrow> state option \<Rightarrow> 'w entry \<Rightarrow> bool" where
  "entered e cwd s c s' \<longleftrightarrow> (\<exists>b s1. installed e s = (Inr b, s1) \<and>
     (if \<not> b then c = None \<and> s' = s1
      else pp_name (ee_database e) = ''events.db'' \<and>
        (\<exists>execution s2 s3 data_dir s4. entry_world (execution_root (ee_active e) cwd) s1 = (Inr (Some execution), s2) \<and>
           new_store e s2 = (Inr (), s3) \<and> entry_world (ee_data_dir e) s3 = (Inr data_dir, s4) \<and>
           nearest_read e data_dir (ancestors execution) s4 c s')))"

section \<open>When nothing holds a call back\<close>

definition switched_off :: "state option \<Rightarrow> bool" where
  "switched_off c \<longleftrightarrow> (\<exists>a. c = Some a \<and> st_phase a \<noteq> ''active'')"

text \<open>The event made of the payload of this run and of the enabled root is recorded, and the delivery of
  this event passes; \<open>s\<close> is the state after the root was found.\<close>

definition judged_pass :: "'w entry_env \<Rightarrow> dict \<Rightarrow> string \<Rightarrow> 'w entry \<Rightarrow> bool" where
  "judged_pass e payload root s \<longleftrightarrow> (\<exists>observed s1 ev s2 s3 s4. observed_payload e payload s = (Inr observed, s1) \<and>
     entry_world (event_from (journal_place e) (jn_hash (rx_journal (ee_runtime e))) ''pre_tool_use'' observed root) s1 = (Inr ev, s2) \<and>
     at_runtime (record_again (ee_runtime e) ev) (s2\<lparr>en_event := Some ev\<rparr>) = (Inr (), s3) \<and>
     process_event e ev s3 = (Inr (Some []), s4) \<and>
     passing_delivery (ee_runtime e) ev (ee_owner e) (en_runtime s3) (en_pending s4) (en_runtime s4))"

definition let_pass :: "'w entry_env \<Rightarrow> 'w entry \<Rightarrow> bool" where
  "let_pass e s \<longleftrightarrow> (\<exists>payload s1 c s2. read_payload e s = (Inr payload, s1) \<and> entered e (dget payload ''cwd'') s1 c s2 \<and>
     (switched_off c \<or> \<not> switched_off c \<and>
        (\<exists>root s3. entry_world (enabled_workspace_root (ee_active e) (ee_database e) (dget payload ''cwd'')) s2 = (Inr root, s3) \<and>
           (root = None \<or> (\<exists>r. root = Some r \<and> judged_pass e payload r s3)))))"

section \<open>Runs from a state\<close>

text \<open>Actions that print nothing keep whatever holds of the output. \<open>fine Q P m s\<close>: the run of \<open>m\<close> from
  \<open>s\<close> keeps \<open>Q\<close> of the output, and returns with \<open>P\<close>.\<close>

abbreviation quiet :: "(dict list \<Rightarrow> bool) \<Rightarrow> 'w entry \<Rightarrow> bool" where
  "quiet Q s \<equiv> Q (en_out s)"

definition fine :: "(dict list \<Rightarrow> bool) \<Rightarrow> ('a \<Rightarrow> dict list \<Rightarrow> bool) \<Rightarrow> ('w entry, 'a) act \<Rightarrow> 'w entry \<Rightarrow> bool" where
  "fine Q P m s \<longleftrightarrow> (quiet Q s \<longrightarrow> (case m s of (Inl x, t) \<Rightarrow> quiet Q t | (Inr x, t) \<Rightarrow> quiet Q t \<and> P x (en_out t)))"

lemma keeps_at_runtime [keeps_rules]: "keeps (quiet Q) (at_runtime m)"
  by (intro hoareI) (auto simp: at_runtime_def split: prod.splits)

lemma entry_keeps_world [keeps_rules]: "keeps (quiet Q) (entry_world m)"
  unfolding entry_world_def by (rule keeps_at_runtime)

lemma keeps_event [keeps_rules]: "keeps (quiet Q) (modify (\<lambda>s. s\<lparr>en_event := f s\<rparr>))"
  "keeps (quiet Q) (modify (\<lambda>s. s\<lparr>en_kicks := g s\<rparr>))"
  by (auto intro!: hoare_modify)

lemma keeps_process [keeps_rules]: "keeps (quiet Q) (process_event e ev)"
  by (intro hoareI) (auto simp: process_event_def split: prod.splits)

lemma fineI:
  assumes "\<And>x t. quiet Q s \<Longrightarrow> m s = (Inr x, t) \<Longrightarrow> quiet Q t \<and> P x (en_out t)"
    and "\<And>x t. quiet Q s \<Longrightarrow> m s = (Inl x, t) \<Longrightarrow> quiet Q t"
  shows "fine Q P m s"
  unfolding fine_def by (cases "m s"; cases "fst (m s)") (use assms in simp_all)

lemma fine_returns: "fine Q P m s \<Longrightarrow> quiet Q s \<Longrightarrow> m s = (Inr x, t) \<Longrightarrow> quiet Q t \<and> P x (en_out t)"
  by (simp add: fine_def)

lemma fine_raises: "fine Q P m s \<Longrightarrow> quiet Q s \<Longrightarrow> m s = (Inl x, t) \<Longrightarrow> quiet Q t"
  by (simp add: fine_def)

lemma fine_then: "fine Q R m s \<Longrightarrow> (\<And>x t. m s = (Inr x, t) \<Longrightarrow> R x (en_out t) \<Longrightarrow> fine Q P (f x) t) \<Longrightarrow> fine Q P (bind m f) s"
proof -
  assume m: "fine Q R m s" and f: "\<And>x t. m s = (Inr x, t) \<Longrightarrow> R x (en_out t) \<Longrightarrow> fine Q P (f x) t"
  obtain q t where q: "m s = (q, t)" by fastforce
  show ?thesis
  proof (cases q)
    case (Inl y)
    then show ?thesis using m q unfolding fine_def bind_def by simp
  next
    case (Inr y)
    show ?thesis
    proof (cases "quiet Q s")
      case True
      from m True q Inr have "quiet Q t \<and> R y (en_out t)" unfolding fine_def by simp
      with f q Inr have "fine Q P (f y) t" "quiet Q t" by blast+
      with q Inr show ?thesis unfolding fine_def bind_def by simp
    qed (simp add: fine_def)
  qed
qed

lemma fine_keeps: "keeps (quiet Q) m \<Longrightarrow> fine Q (\<lambda>x out. True) m s"
  using keepsD [of "quiet Q" m s] by (cases "m s"; cases "fst (m s)") (simp_all add: fine_def)

lemma fine_bind: "keeps (quiet Q) m \<Longrightarrow> (\<And>x t. m s = (Inr x, t) \<Longrightarrow> fine Q P (f x) t) \<Longrightarrow> fine Q P (bind m f) s"
  by (rule fine_then [OF fine_keeps])

lemma fine_ensure: "fine Q P m s \<Longrightarrow> (\<And>Q. keeps (quiet Q) c) \<Longrightarrow> fine Q P (ensure m c) s"
proof (rule fineI)
  fix x t
  assume m: "fine Q P m s" and c: "\<And>Q. keeps (quiet Q) c" and s: "quiet Q s" and r: "ensure m c s = (Inr x, t)"
  then obtain u where "m s = (Inr x, u)" "c u = (Inr (), t)" by (auto simp: ensure_Inr)
  with fine_returns [OF m s] keeps_returns [OF c [of "\<lambda>out. Q out \<and> P x out"]] show "quiet Q t \<and> P x (en_out t)" by blast
next
  fix x t
  assume m: "fine Q P m s" and c: "\<And>Q. keeps (quiet Q) c" and s: "quiet Q s" and r: "ensure m c s = (Inl x, t)"
  obtain q u where q: "m s = (q, u)" by fastforce
  have "quiet Q u" using m s q by (cases q) (auto simp: fine_def)
  from keepsD [OF c [of Q] this] r q show "quiet Q t" by (auto simp: ensure_def split: prod.splits sum.splits)
qed

lemma fine_ret: "(quiet Q s \<Longrightarrow> P x (en_out s)) \<Longrightarrow> fine Q P (ret x) s"
  by (simp add: fine_def ret_def)

lemma fine_raise: "fine Q P (raise x) s"
  by (simp add: fine_def raise_def)

lemma fine_pure: "(\<And>x. r = Inr x \<Longrightarrow> P x (en_out s)) \<Longrightarrow> fine Q P (pure r) s"
  by (auto simp: fine_def pure_def split: sum.splits)

section \<open>The store never prints\<close>

lemma keeps_entry_store [keeps_rules]:
  "keeps (quiet Q) (au_root (entry_store x))" "keeps (quiet Q) (au_child (entry_store x) fd p)"
  "keeps (quiet Q) (au_fstat (entry_store x) fd)" "keeps (quiet Q) (au_writable (entry_store x) fd)"
  "keeps (quiet Q) (au_open (entry_store x) fd p)" "keeps (quiet Q) (au_create (entry_store x) fd p)"
  "keeps (quiet Q) (au_chmod (entry_store x) fd)" "keeps (quiet Q) (au_read (entry_store x) fd)"
  "keeps (quiet Q) (au_flock (entry_store x) fd ex)" "keeps (quiet Q) (au_close (entry_store x) fd)"
  by (simp_all add: entry_store_def Let_def entry_keeps_world)

lemma keeps_inspect_fd [keeps_rules]: "keeps (quiet Q) (inspect_fd (entry_store x) b fd)"
  unfolding inspect_fd_def by (intro keeps_rules)

lemma keeps_refuse_writable [keeps_rules]: "keeps (quiet Q) (refuse_writable (entry_store x) code fd)"
  unfolding refuse_writable_def by (intro keeps_rules)

lemma keeps_close_on_error [keeps_rules]: "keeps (quiet Q) m \<Longrightarrow> keeps (quiet Q) (close_on_error (entry_store x) fd m)"
  unfolding close_on_error_def by (intro keeps_rules)

lemma keeps_open_file [keeps_rules]: "keeps (quiet Q) (open_file (entry_store x) d n cr)"
  unfolding open_file_def by (intro keeps_rules)

lemma keeps_read_state [keeps_rules]: "keeps (quiet Q) (read_state (entry_store x) d t)"
  unfolding read_state_def by (intro keeps_rules)

lemma keeps_take_file_lock [keeps_rules]: "keeps (quiet Q) (take_file_lock (entry_store x) d n ex cr)"
  unfolding take_file_lock_def by (intro keeps_rules)

lemma fine_descend:
  assumes "\<And>d t. descended (entry_store x) fd parts s d t \<Longrightarrow> fine Q P (body d) t"
  shows "fine Q P (descend (entry_store x) fd parts body) s"
  using assms
proof (induction parts arbitrary: fd s)
  case Nil
  then show ?case by (auto intro!: fine_ensure fine_bind keeps_rules)
next
  case (Cons part parts)
  show ?case unfolding descend.simps
    by (intro fine_bind keeps_rules Cons.IH Cons.prems) (auto simp del: unit_eq)
qed

lemma fine_store_lease:
  assumes "\<And>d c u. lease_read (entry_store e) t s d c u \<Longrightarrow> fine Q P (body c) u"
  shows "fine Q P (store_lease (entry_store e) t body) s"
  unfolding store_lease_def opened_def
proof (intro fine_bind fine_descend keeps_rules)
  fix fd s1 d s2 found s3
  assume pre: "au_root (entry_store e) s = (Inr fd, s1)" "descended (entry_store e) fd (tl (pp_parts (au_directory (entry_store e)))) s1 d s2"
    "read_state (entry_store e) d t s2 = (Inr found, s3)"
  then have into: "(case found of
        None \<Rightarrow> c = None \<and> u = s3
      | Some f \<Rightarrow>
          if st_phase f \<noteq> ''active'' then c = Some f \<and> u = s3
          else \<exists>lock s4 current. take_file_lock (entry_store e) d (lock_file (entry_store e) t Lease_Lock) False False s3 = (Inr lock, s4) \<and>
            read_state (entry_store e) d t s4 = (Inr (Some current), u) \<and> c = Some current) \<Longrightarrow> fine Q P (body c) u" for c u
    using assms unfolding lease_read_def by blast
  show "fine Q P (case found of
         None \<Rightarrow> body None
       | Some s \<Rightarrow>
           if st_phase s \<noteq> ''active'' then body (Some s)
           else
             bind (take_file_lock (entry_store e) d (lock_file (entry_store e) t Lease_Lock) False False) (\<lambda>fd.
               ensure
                 (bind (read_state (entry_store e) d t) (\<lambda>found. case found of
                    None \<Rightarrow> raise (AuthorityError ''authority_state_disappeared'')
                  | Some current \<Rightarrow> body (Some current)))
                 (au_close (entry_store e) fd))) s3"
  proof (cases found)
    case None
    then show ?thesis using into [of None s3] by simp
  next
    case (Some f)
    show ?thesis
    proof (cases "st_phase f = ''active''")
      case False
      with Some into [of "Some f" s3] show ?thesis by simp
    next
      case True
      have "fine Q P (bind (take_file_lock (entry_store e) d (lock_file (entry_store e) t Lease_Lock) False False) (\<lambda>fd.
               ensure
                 (bind (read_state (entry_store e) d t) (\<lambda>found. case found of
                    None \<Rightarrow> raise (AuthorityError ''authority_state_disappeared'')
                  | Some current \<Rightarrow> body (Some current)))
                 (au_close (entry_store e) fd))) s3"
      proof (intro fine_bind fine_ensure keeps_rules)
        fix lock s4 again s5
        assume "take_file_lock (entry_store e) d (lock_file (entry_store e) t Lease_Lock) False False s3 = (Inr lock, s4)"
          "read_state (entry_store e) d t s4 = (Inr again, s5)"
        with into [of again s5] Some True
        show "fine Q P (case again of None \<Rightarrow> raise (AuthorityError ''authority_state_disappeared'') | Some current \<Rightarrow> body (Some current)) s5"
          by (cases again) (auto intro: fine_raise)
      qed
      with Some True show ?thesis by simp
    qed
  qed
qed

text \<open>A lease that returns \<open>None\<close> only for a target that is not enrolled.\<close>

lemma descend_Inr:
  "descend x fd parts body s = (Inr y, t) \<Longrightarrow>
   \<exists>d s1 s2. descended x fd parts s d s1 \<and> body d s1 = (Inr y, s2) \<and> au_close x d s2 = (Inr (), t)"
proof (induction parts arbitrary: fd s)
  case Nil
  then show ?case by (auto simp: ensure_Inr bind_Inr ex_unit)
next
  case (Cons part parts)
  then obtain child s1 s2 s3 where "close_on_error x fd (au_child x fd part) s = (Inr child, s1)"
    "close_on_error x fd (au_close x fd) s1 = (Inr (), s2)"
    "close_on_error x child
            (if au_owner x = 0
             then bind (inspect_fd x True child) (\<lambda>u. refuse_writable x ''authority_directory_writable_by_agent'' child)
             else ret ()) s2 = (Inr (), s3)" "descend x child parts body s3 = (Inr y, t)"
    unfolding descend.simps bind_Inr ex_unit by blast
  with Cons.IH show ?case unfolding descended.simps by blast
qed

lemma lease_not_enrolled:
  assumes "store_lease x t (\<lambda>s. case s of None \<Rightarrow> ret None | Some c \<Rightarrow> bind (body (Some c)) (\<lambda>y. ret (Some y))) s = (Inr None, s2)"
  shows "\<exists>d s1. lease_read x t s d None s1 \<and> au_close x d s1 = (Inr (), s2)"
proof -
  let ?B = "\<lambda>s. case s of None \<Rightarrow> ret None | Some c \<Rightarrow> bind (body (Some c)) (\<lambda>y. ret (Some y))"
  have some: "?B (Some c) u \<noteq> (Inr None, v)" for c u v by (simp add: bind_Inr ret_Inr)
  from assms obtain fd s3 where r: "au_root x s = (Inr fd, s3)"
    and "descend x fd (tl (pp_parts (au_directory x))) (\<lambda>d. bind (read_state x d t) (\<lambda>found. case found of
         None \<Rightarrow> ?B None
       | Some s \<Rightarrow>
           if st_phase s \<noteq> ''active'' then ?B (Some s)
           else
             bind (take_file_lock x d (lock_file x t Lease_Lock) False False) (\<lambda>fd.
               ensure
                 (bind (read_state x d t) (\<lambda>found. case found of
                    None \<Rightarrow> raise (AuthorityError ''authority_state_disappeared'')
                  | Some current \<Rightarrow> ?B (Some current)))
                 (au_close x fd)))) s3 = (Inr None, s2)"
    unfolding store_lease_def opened_def bind_Inr by blast
  from descend_Inr [OF this(2)] obtain d s4 found s5 s6 where
    d: "descended x fd (tl (pp_parts (au_directory x))) s3 d s4" "read_state x d t s4 = (Inr found, s5)" "au_close x d s6 = (Inr (), s2)"
    and f: "(case found of
         None \<Rightarrow> ?B None
       | Some s \<Rightarrow>
           if st_phase s \<noteq> ''active'' then ?B (Some s)
           else
             bind (take_file_lock x d (lock_file x t Lease_Lock) False False) (\<lambda>fd.
               ensure
                 (bind (read_state x d t) (\<lambda>found. case found of
                    None \<Rightarrow> raise (AuthorityError ''authority_state_disappeared'')
                  | Some current \<Rightarrow> ?B (Some current)))
                 (au_close x fd))) s5 = (Inr None, s6)"
    by (auto simp only: bind_Inr)
  show ?thesis
  proof (cases found)
    case None
    with f have "s6 = s5" by (simp add: ret_Inr)
    with r d None show ?thesis unfolding lease_read_def by (intro exI [of _ d] exI [of _ s5] conjI exI) auto
  next
    case (Some c)
    with f some show ?thesis
      by (auto simp: bind_Inr ensure_Inr raise_Inr ret_Inr split: if_splits option.splits)
  qed
qed

lemma fine_nearest_lease:
  assumes "\<And>c u. nearest_read e data_dir candidates s c u \<Longrightarrow> fine Q P (body c) u"
  shows "fine Q P (nearest_lease e data_dir body candidates) s"
  using assms
proof (induction candidates arbitrary: s)
  case Nil
  then show ?case by simp
next
  case (Cons candidate candidates)
  let ?B = "\<lambda>s. case s of None \<Rightarrow> ret None | Some c \<Rightarrow> bind (body (Some c)) (\<lambda>x. ret (Some x))"
  have first: "fine Q (\<lambda>r out. \<forall>x. r = Some x \<longrightarrow> P x out) (store_lease (entry_store e) t ?B) s"
    if t: "make_target (ee_uid e) candidate data_dir = Inr t" for t
  proof (rule fine_store_lease)
    fix d c u assume l: "lease_read (entry_store e) t s d c u"
    show "fine Q (\<lambda>r out. \<forall>x. r = Some x \<longrightarrow> P x out) (?B c) u"
    proof (cases c)
      case (Some a)
      with l t have "nearest_read e data_dir (candidate # candidates) s c u" by auto
      have "fine Q (\<lambda>r out. \<forall>x. r = Some x \<longrightarrow> P x out) (bind (body c) (\<lambda>x. ret (Some x))) u"
        by (rule fine_then [OF Cons.prems [OF \<open>nearest_read e data_dir (candidate # candidates) s c u\<close>]]) (auto intro: fine_ret)
      with Some show ?thesis by simp
    qed (auto intro: fine_ret)
  qed
  have rest: "fine Q P (bind (entry_world (repository_at (ee_active e) candidate)) (\<lambda>b. if b then body None else nearest_lease e data_dir body candidates)) s2"
    if t: "make_target (ee_uid e) candidate data_dir = Inr t" and n: "store_lease (entry_store e) t ?B s = (Inr None, s2)" for t s2
  proof (rule fine_bind [OF entry_keeps_world])
    fix b s3 assume b: "entry_world (repository_at (ee_active e) candidate) s2 = (Inr b, s3)"
    from lease_not_enrolled [OF n] obtain d s1 where "lease_read (entry_store e) t s d None s1" "au_close (entry_store e) d s1 = (Inr (), s2)" by blast
    with t b have step: "if b then c = None \<and> u = s3 else nearest_read e data_dir candidates s3 c u \<Longrightarrow>
        nearest_read e data_dir (candidate # candidates) s c u" for c u
      unfolding nearest_read.simps by blast
    show "fine Q P (if b then body None else nearest_lease e data_dir body candidates) s3"
      using Cons.prems [OF step] by (auto intro: Cons.IH)
  qed
  show ?case unfolding nearest_lease.simps
  proof (rule fine_bind [OF keeps_pure])
    fix t u assume "pure (make_target (ee_uid e) candidate data_dir) s = (Inr t, u)"
    then have t: "make_target (ee_uid e) candidate data_dir = Inr t" and u: "u = s" by (simp_all add: pure_Inr)
    show "fine Q P (bind (store_lease (entry_store e) t ?B) (\<lambda>done. case done of
         Some x \<Rightarrow> ret x
       | None \<Rightarrow>
           bind (entry_world (repository_at (ee_active e) candidate)) (\<lambda>b.
             if b then body None else nearest_lease e data_dir body candidates))) u"
      unfolding u
    proof (rule fine_then [OF first [OF t]])
      fix r v assume "store_lease (entry_store e) t ?B s = (Inr r, v)" "\<forall>x. r = Some x \<longrightarrow> P x (en_out v)"
      with rest [OF t] show "fine Q P (case r of
           Some x \<Rightarrow> ret x
         | None \<Rightarrow>
             bind (entry_world (repository_at (ee_active e) candidate)) (\<lambda>b.
               if b then body None else nearest_lease e data_dir body candidates)) v"
        by (cases r) (auto intro: fine_ret)
    qed
  qed
qed

lemma fine_workspace_lease:
  assumes "\<And>c u. entered e cwd s c u \<Longrightarrow> fine Q P (body c) u"
  shows "fine Q P (workspace_authority_lease e cwd body) s"
  unfolding workspace_authority_lease_def
proof (rule fine_bind)
  show "keeps (quiet Q) (installed e)" unfolding installed_def by (rule keeps_rules)
  fix b s1 assume b: "installed e s = (Inr b, s1)"
  show "fine Q P (if \<not> b then body None
       else if pp_name (ee_database e) \<noteq> ''events.db'' then raise (AuthorityError ''authority_database_identity_unsupported'')
       else
         bind (entry_world (execution_root (ee_active e) cwd)) (\<lambda>found.
           case found of
             None \<Rightarrow> raise (AuthorityError ''authority_workspace_unresolved'')
           | Some execution \<Rightarrow>
               bind (new_store e) (\<lambda>u.
               bind (entry_world (ee_data_dir e)) (\<lambda>data_dir.
                 nearest_lease e data_dir body (ancestors execution))))) s1"
  proof (cases "b \<and> pp_name (ee_database e) = ''events.db''")
    case True
    have "fine Q P (case found of
             None \<Rightarrow> raise (AuthorityError ''authority_workspace_unresolved'')
           | Some execution \<Rightarrow>
               bind (new_store e) (\<lambda>u.
               bind (entry_world (ee_data_dir e)) (\<lambda>data_dir.
                 nearest_lease e data_dir body (ancestors execution)))) s2"
      if "entry_world (execution_root (ee_active e) cwd) s1 = (Inr found, s2)" for found s2
    proof (cases found)
      case (Some execution)
      have "fine Q P (bind (new_store e) (\<lambda>u. bind (entry_world (ee_data_dir e)) (\<lambda>data_dir.
                 nearest_lease e data_dir body (ancestors execution)))) s2"
      proof (intro fine_bind fine_nearest_lease entry_keeps_world)
        show "keeps (quiet Q) (new_store e)" unfolding new_store_def by (intro keeps_rules)
        fix u s3 data_dir s4 c s5
        assume "new_store e s2 = (Inr u, s3)" "entry_world (ee_data_dir e) s3 = (Inr data_dir, s4)"
          "nearest_read e data_dir (ancestors execution) s4 c s5"
        with b True that Some have "entered e cwd s c s5" unfolding entered_def by auto
        then show "fine Q P (body c) s5" by (rule assms)
      qed
      with Some show ?thesis by simp
    qed (simp add: fine_raise)
    with True show ?thesis by (simp add: fine_bind entry_keeps_world)
  next
    case False
    then show ?thesis using assms [of None s1] b by (auto intro: fine_raise simp: entered_def)
  qed
qed

section \<open>The Hook fails closed\<close>

lemma hook_output_unavailable: "\<exists>r. hook_output wd (unavailable_result x) ''pre_tool_use'' = Inr r \<and> r \<noteq> []"
  by (simp add: hook_output_def unavailable_result_def fetch_def deny_def dget_or_def)

lemma process_event_pass:
  assumes "process_event e ev w = (Inr (Some []), w')" and "he_phase ev = ''pre_tool_use''"
  shows "passing_delivery (ee_runtime e) ev (ee_owner e) (en_runtime w) (en_pending w') (en_runtime w')"
proof -
  from assms(1) obtain db rt where "process_hook (ee_runtime e) (ee_wording e) ev (ee_owner e) (ee_fuel e) (en_pending w) (en_runtime w) = (Inr (Some []), db, rt)"
    and "w' = w\<lparr>en_pending := db, en_runtime := rt\<rparr>"
    by (auto simp: process_event_def split: prod.splits)
  with process_hook_passes [OF this(1) assms(2)] show ?thesis by simp
qed

lemma event_from_phase: "event_from p H phase payload root w = (Inr ev, w') \<Longrightarrow> he_phase ev = phase"
proof -
  assume "event_from p H phase payload root w = (Inr ev, w')"
  then obtain c w1 where "(case (wc_id c, wc_root c) of
         (Some ws, Some canonical) \<Rightarrow>
           if \<not> ready c then raise (ValueError ''workspace_unavailable'')
           else ret \<lparr>he_id = make_event_id H phase payload (Some ws), he_phase = phase, he_workspace = ws,
                     he_root = canonical, he_session = dget payload ''session_id'', he_tool = dget payload ''tool_use_id'',
                     he_payload = payload\<rparr>
       | _ \<Rightarrow> raise (ValueError ''workspace_unavailable'')) w1 = (Inr ev, w')" unfolding event_from_def bind_Inr by blast
  then show ?thesis by (cases "wc_id c"; cases "wc_root c") (auto simp: ret_Inr raise_Inr split: if_splits)
qed

lemma world_Inr: "entry_world m s = (Inr x, t) \<Longrightarrow> \<exists>w w'. m w = (Inr x, w')"
  by (auto simp: entry_world_def at_runtime_def split: prod.splits dest!: outer_Inr)

text \<open>What holds of the output: an empty answer has a reason, and nothing printed before is lost.\<close>

definition explained :: "'w entry_env \<Rightarrow> 'w entry \<Rightarrow> dict list \<Rightarrow> bool" where
  "explained e s out \<longleftrightarrow> prefix (en_out s) out \<and> ([] \<in> set (drop (length (en_out s)) out) \<longrightarrow> let_pass e s)"

text \<open>\<open>None\<close> is returned only after something was printed.\<close>

definition reasoned :: "'w entry_env \<Rightarrow> 'w entry \<Rightarrow> dict option \<Rightarrow> dict list \<Rightarrow> bool" where
  "reasoned e s r out \<longleftrightarrow> (r = Some [] \<longrightarrow> let_pass e s) \<and> (r = None \<longrightarrow> out \<noteq> en_out s)"

lemma emit_explained:
  assumes "d = [] \<longrightarrow> let_pass e s" and "explained e s (en_out u)" and "emit d u = (Inr x, t)"
  shows "explained e s (en_out t) \<and> en_out t \<noteq> en_out s"
  using assms by (auto simp: emit_def modify_def explained_def prefix_def)

lemma fine_deliver: "fine Q (\<lambda>d out. d = [] \<longrightarrow> judged_pass e payload root s) (deliver e ''pre_tool_use'' payload root) s"
  unfolding deliver_def
proof (rule fine_bind, rule_tac [2] fine_bind [OF entry_keeps_world], rule_tac [2] fine_bind [OF keeps_event(1)],
    rule_tac [2] fine_bind [OF keeps_at_runtime], rule_tac [2] fine_bind [OF keeps_process])
  show "keeps (quiet Q) (observed_payload e payload)"
    unfolding observed_payload_def runtime_facts_def by (intro keeps_rules)
  fix observed s1 ev s2 u s3 v s4 result s5
  assume o: "observed_payload e payload s = (Inr observed, s1)"
    "entry_world (event_from (journal_place e) (jn_hash (rx_journal (ee_runtime e))) ''pre_tool_use'' observed root) s1 = (Inr ev, s2)"
    and m: "modify (\<lambda>s. s\<lparr>en_event := Some ev\<rparr>) s2 = (Inr u, s3)"
    and rec: "at_runtime (record_again (ee_runtime e) ev) s3 = (Inr v, s4)" and p: "process_event e ev s4 = (Inr result, s5)"
  from o(2) have "he_phase ev = ''pre_tool_use''" by (auto dest!: world_Inr event_from_phase)
  with p process_event_pass [of e ev s4 s5] have pass: "result = Some [] \<Longrightarrow>
      passing_delivery (ee_runtime e) ev (ee_owner e) (en_runtime s4) (en_pending s5) (en_runtime s5)" by simp
  from m have "s3 = s2\<lparr>en_event := Some ev\<rparr>" by (simp add: modify_Inr)
  with o rec p pass have judged: "result = Some [] \<Longrightarrow> judged_pass e payload root s"
    unfolding judged_pass_def by (intro exI [of _ observed] exI [of _ s1] exI [of _ ev] exI [of _ s2] exI [of _ s4] exI [of _ s5]) simp
  show "fine Q (\<lambda>d out. d = [] \<longrightarrow> judged_pass e payload root s) (bind (case result of
             None \<Rightarrow> pure (hook_output (ee_wording e) (unavailable_result ''semantic_setup_required'') ''pre_tool_use'')
           | Some d \<Rightarrow> ret d) (\<lambda>d. ret (if ''pre_tool_use'' \<in> {''session_start'', ''subagent_start''} then start_output e ''pre_tool_use'' else d))) s5"
    using judged hook_output_unavailable [of "ee_wording e" "''semantic_setup_required''"]
    by (cases result) (auto intro!: fineI simp: bind_def pure_def ret_def)
qed

lemma fine_emit_none:
  assumes "let_pass e s"
  shows "fine (explained e s) (reasoned e s) (bind (emit []) (\<lambda>u. ret None)) t"
proof (rule fineI)
  fix x :: "dict option" and u assume "quiet (explained e s) t" "bind (emit []) (\<lambda>u. ret None) t = (Inr x, u)"
  with emit_explained [of "[]" e s t "()" u] assms show "quiet (explained e s) u \<and> reasoned e s x (en_out u)"
    by (simp add: bind_Inr ret_Inr ex_unit reasoned_def)
qed (simp add: bind_def emit_def modify_def ret_def)

text \<open>Inside the lease of this run: \<open>s\<close> is the state at the start of the run, \<open>t\<close> the one in the lease.\<close>

lemma fine_inside:
  assumes "read_payload e s = (Inr payload, s1)" and "entered e (dget payload ''cwd'') s1 c t"
  shows "fine (explained e s) (reasoned e s) (inside_lease e ''pre_tool_use'' payload c) t"
proof (cases "switched_off c")
  case True
  with assms have "let_pass e s" unfolding let_pass_def by blast
  from fine_emit_none [OF this] True show ?thesis by (auto simp: inside_lease_def switched_off_def)
next
  case False
  have rest: "fine (explained e s) (reasoned e s) (case root of
            None \<Rightarrow> bind (emit []) (\<lambda>u. ret None)
          | Some root \<Rightarrow> bind (deliver e ''pre_tool_use'' payload root) (\<lambda>d. ret (Some d))) t2"
    if t2: "entry_world (enabled_workspace_root (ee_active e) (ee_database e) (dget payload ''cwd'')) t = (Inr root, t2)" for root t2
  proof (cases root)
    case None
    with assms False t2 have "let_pass e s" unfolding let_pass_def by blast
    from fine_emit_none [OF this] None show ?thesis by simp
  next
    case (Some r)
    have "judged_pass e payload r t2 \<Longrightarrow> let_pass e s" using assms False t2 Some unfolding let_pass_def by blast
    then have "fine (explained e s) (reasoned e s) (bind (deliver e ''pre_tool_use'' payload r) (\<lambda>d. ret (Some d))) t2"
      by (intro fine_then [OF fine_deliver] fine_ret) (simp add: reasoned_def)
    with Some show ?thesis by simp
  qed
  have "\<not> (case c of None \<Rightarrow> False | Some a \<Rightarrow> st_phase a \<noteq> ''active'')" using False by (simp add: switched_off_def split: option.split)
  then show ?thesis unfolding inside_lease_def by (simp only: if_False) (rule fine_bind [OF entry_keeps_world rest])
qed

lemma fine_answer: "fine (explained e s) (reasoned e s) (answer e ''pre_tool_use'') s"
proof -
  let ?run = "bind (read_payload e) (\<lambda>payload. workspace_authority_lease e (dget payload ''cwd'') (inside_lease e ''pre_tool_use'' payload))"
  have run: "fine (explained e s) (reasoned e s) ?run s"
  proof (rule fine_bind)
    show "keeps (quiet (explained e s)) (read_payload e)"
      unfolding read_payload_def by (auto intro!: keeps_rules split: json.split)
  qed (rule fine_workspace_lease, rule fine_inside)
  obtain d where d: "hook_output (ee_wording e) (unavailable_result ''semantic_runtime_unavailable'') ''pre_tool_use'' = Inr d" "d \<noteq> []"
    using hook_output_unavailable by blast
  then have "answer e ''pre_tool_use'' s = (case ?run s of (Inl x, t) \<Rightarrow> (Inr (Some d), t) | (Inr x, t) \<Rightarrow> (Inr x, t))"
    by (simp add: answer_def attempt_def bind_def [of "pure r" for r] pure_def ret_def split: prod.split sum.split)
  with run d(2) show ?thesis by (auto simp: fine_def reasoned_def split: prod.splits sum.splits)
qed

lemma answer_returns: "\<exists>r s'. answer e ''pre_tool_use'' s = (Inr r, s')"
  using hook_output_unavailable [of "ee_wording e" "''semantic_runtime_unavailable''"]
  by (auto simp: answer_def attempt_def bind_def pure_def ret_def split: prod.splits sum.splits)

lemma kick_quiet: "keeps (quiet Q) (kick_worker e)"
  unfolding kick_worker_def by (intro keeps_rules)

lemma kick_returns: "\<exists>s'. kick_worker e s = (Inr (), s')"
  by (auto simp: kick_worker_def attempt_def ret_def split: prod.splits sum.splits)

text \<open>C1. The Hook fails closed. Whatever is read, whatever the file system, the database, the model or
  any other process does and wherever an exception is raised, a run of the Hook before a tool call
  ends normally with at least one answer printed. If a printed answer lets the call pass, then this
  run read a payload and entered the lease for the working directory of this payload, each step in
  the state the step before it left, and there one of three things held: the state that the lease
  read is not active; in the lease, no root is enabled for this working directory; or a root is
  enabled, the event made of this payload and this root was recorded, and the delivery of this event
  passes: the last attempt of this delivery allowed it, and this outcome is the one stored and
  audited in the state it left (as in passed_call_was_judged of the theory Runtime).\<close>

theorem hook_fails_closed:
  "\<exists>s' answers. hook_run e ''pre-tool-use'' s = (Inr (), s') \<and> en_out s' = en_out s @ answers \<and> answers \<noteq> [] \<and>
     ([] \<in> set answers \<longrightarrow>
       (\<exists>payload s1 c s2. read_payload e s = (Inr payload, s1) \<and> entered e (dget payload ''cwd'') s1 c s2 \<and>
         (switched_off c \<or> \<not> switched_off c \<and>
            (\<exists>root s3. entry_world (enabled_workspace_root (ee_active e) (ee_database e) (dget payload ''cwd'')) s2 = (Inr root, s3) \<and>
               (root = None \<or> (\<exists>r. root = Some r \<and> judged_pass e payload r s3))))))"
proof -
  obtain r s1 where a: "answer e ''pre_tool_use'' s = (Inr r, s1)" using answer_returns by blast
  have "explained e s (en_out s)" by (simp add: explained_def)
  from fine_returns [OF fine_answer this a] have x: "explained e s (en_out s1)" and y: "reasoned e s r (en_out s1)" by blast+
  have run: "hook_run e ''pre-tool-use'' s = (case r of None \<Rightarrow> ret () | Some d \<Rightarrow> bind (emit d) (\<lambda>u. kick_worker e)) s1"
    using a by (simp add: hook_run_def PHASES_def bind_def tool_phase_def split: option.split)
  obtain s' where s': "hook_run e ''pre-tool-use'' s = (Inr (), s')" "explained e s (en_out s') \<and> en_out s' \<noteq> en_out s"
  proof (cases r)
    case None
    with run x y that show thesis by (simp add: ret_def reasoned_def)
  next
    case (Some d)
    obtain s2 where e: "emit d s1 = (Inr (), s2)" by (auto simp: emit_def modify_def)
    obtain s3 where k: "kick_worker e s2 = (Inr (), s3)" using kick_returns by blast
    from y Some have "d = [] \<longrightarrow> let_pass e s" by (auto simp: reasoned_def)
    from emit_explained [OF this x e] have "explained e s (en_out s2) \<and> en_out s2 \<noteq> en_out s" .
    from keeps_returns [OF kick_quiet [of "\<lambda>out. explained e s out \<and> out \<noteq> en_out s"] k this] run Some e k that
    show thesis by (simp add: bind_def)
  qed
  then obtain answers where "en_out s' = en_out s @ answers" by (auto simp: explained_def prefix_def)
  with s' show ?thesis unfolding let_pass_def [symmetric] by (auto simp: explained_def)
qed

section \<open>Example\<close>

text \<open>No store of authorities is installed, and \<open>/w\<close> was never enabled.\<close>

definition no_store :: "unit store_env" where
  "no_store =
     \<lparr>au_hash = length_hash, au_directory = ''/a'', au_owner = 0, au_euid = 501, au_root = (\<lambda>w. (Inr 0, w)), au_child = (\<lambda>fd p w. (Inr 0, w)),
      au_fstat = (\<lambda>fd w. (Inl (OSError ''OSError''), w)), au_writable = (\<lambda>fd w. (Inr False, w)), au_open = (\<lambda>fd n w. (Inr 0, w)),
      au_create = (\<lambda>fd n w. (Inr 0, w)), au_chmod = (\<lambda>fd w. (Inr (), w)), au_read = (\<lambda>fd w. (Inl (OSError ''OSError''), w)),
      au_flock = (\<lambda>fd ex w. (Inr True, w)), au_uuid = (\<lambda>w. (''u'', w)), au_temporary = (\<lambda>fd n w. (Inr 0, w)),
      au_write = (\<lambda>fd c w. (Inr (), w)), au_replace = (\<lambda>fd m n w. (Inr (), w)), au_sync = (\<lambda>fd w. (Inr (), w)),
      au_unlink = (\<lambda>fd n w. (Inr (), w)), au_close = (\<lambda>fd w. (Inr (), w))\<rparr>"

definition idle_entry :: "unit entry_env" where
  "idle_entry =
     \<lparr>ee_runtime = call_env, ee_wording = english, ee_boundary = ''boundary'', ee_version = ''2'', ee_store = no_store, ee_uid = 501,
      ee_active = sample_active\<lparr>av_exists := (\<lambda>p w. (Inr False, w))\<rparr>, ee_database = ''/d/events.db'', ee_state_dir = ''/d'',
      ee_data_dir = (\<lambda>w. (Inr ''/d'', w)), ee_stdin = (\<lambda>w. (Inr \<lparr>ct_bytes = 80, ct_json = Inr (JObj call_payload)\<rparr>, w)),
      ee_manifest = (\<lambda>w. (Inr (JObj []), w)), ee_hooks = (\<lambda>w. (Inr ''package-runtime-without-plugin-manifest'', w)),
      ee_owner = ''o'', ee_fuel = 3, ee_kick = (\<lambda>w. (Inr (), w))\<rparr>"

definition idle_state :: "unit entry" where
  "idle_state = \<lparr>en_runtime = call_state, en_pending = no_judgments, en_out = [], en_event = None, en_kicks = 0\<rparr>"

definition idle_run :: "unit res \<times> unit entry" where
  "idle_run = hook_run idle_entry ''pre-tool-use'' idle_state"

theorem hook_fails_closed_witness:
  "fst idle_run = Inr () \<and> en_out (snd idle_run) = [[]] \<and>
   (\<exists>payload s1 c s2. read_payload idle_entry idle_state = (Inr payload, s1) \<and> entered idle_entry (dget payload ''cwd'') s1 c s2)"
proof -
  have o: "en_out (snd idle_run) = [[]]" by code_simp
  have n: "en_out idle_state = []" by (simp add: idle_state_def)
  from hook_fails_closed [of idle_entry idle_state] obtain s' answers where
    r: "idle_run = (Inr (), s')" and a: "en_out s' = en_out idle_state @ answers"
    and i: "[] \<in> set answers \<longrightarrow>
       (\<exists>payload s1 c s2. read_payload idle_entry idle_state = (Inr payload, s1) \<and> entered idle_entry (dget payload ''cwd'') s1 c s2)"
    unfolding idle_run_def by blast
  from o a n have "answers = [[]]" unfolding r by simp
  with o i show ?thesis unfolding r by simp
qed

end
