(* ===== verification/Admin.thy ===== *)
theory Admin
  imports Admission
begin

text \<open>
  \<open>authority_admin.py\<close>: the entry point of the administrator. A request is first reviewed, which
  fixes the target, the generation it is about and the identities of both directories, and it is
  applied only if it is confirmed in time and nothing of that has changed. Times are milliseconds;
  the text of the confirmation is a parameter, and so is the dialog that shows the review.
\<close>

section \<open>Environment\<close>

text \<open>\<open>ad_fstat\<close> gives whether it is a directory, the owner, and the device and inode.\<close>

record 'w admin_env =
  ad_store :: "'w store_env"
  ad_is_link :: "string \<Rightarrow> 'w \<Rightarrow> bool res \<times> 'w"
  ad_resolve :: "string \<Rightarrow> 'w \<Rightarrow> string res \<times> 'w"
  ad_open :: "string \<Rightarrow> 'w \<Rightarrow> nat res \<times> 'w"
  ad_fstat :: "nat \<Rightarrow> 'w \<Rightarrow> (bool \<times> int \<times> nat \<times> nat) res \<times> 'w"
  ad_close :: "nat \<Rightarrow> 'w \<Rightarrow> unit res \<times> 'w"
  ad_clock :: "'w \<Rightarrow> int \<times> 'w"
  ad_uuid :: "'w \<Rightarrow> string \<times> 'w"
  ad_confirmation :: string

definition REVIEW_TIME :: int where "REVIEW_TIME = 120000"

record review =
  rv_target :: target
  rv_action :: string
  rv_expected :: string
  rv_operation :: string
  rv_workspace_identity :: "nat \<times> nat"
  rv_data_identity :: "nat \<times> nat"
  rv_started :: int

section \<open>The installation\<close>

text \<open>What the interpreter reports about itself, and the two places that must be trusted: the
  installed script and the interpreter.\<close>

record launch =
  la_euid :: int
  la_darwin :: bool
  la_isolated :: bool
  la_script :: bool
  la_script_name :: string
  la_interpreter_name :: string

definition trusted_file :: "'w store_env \<Rightarrow> string \<Rightarrow> (nat \<Rightarrow> ('w, unit) act) \<Rightarrow> ('w, unit) act" where
  "trusted_file e name check = opened e (\<lambda>d. bind (open_file e d name False) (\<lambda>fd. ensure (check fd) (au_close e fd)))"

definition require_administrator_installation :: "launch \<Rightarrow> 'w store_env \<Rightarrow> 'w store_env \<Rightarrow> ('w, unit) act" where
  "require_administrator_installation l scripts interpreters =
     (if la_euid l \<noteq> 0 then raise (AuthorityError ''administrator_context_required'')
      else if \<not> la_darwin l then raise (AuthorityError ''administrator_platform_unsupported'')
      else if \<not> la_isolated l then raise (AuthorityError ''administrator_requires_isolated_python'')
      else if \<not> la_script l then raise (AuthorityError ''administrator_requires_installed_entrypoint'')
      else
        bind (trusted_file scripts (la_script_name l) (\<lambda>fd. bind (au_fstat scripts fd) (\<lambda>m.
               if md_mode m AND 146 \<noteq> 0 then raise (AuthorityError ''administrator_code_is_writable'') else ret ()))) (\<lambda>u.
          trusted_file interpreters (la_interpreter_name l) (\<lambda>fd. ret ())))"

section \<open>Review\<close>

text \<open>The canonical name of a directory that the user owns, with its identity.\<close>

definition directory_identity :: "'w admin_env \<Rightarrow> string \<Rightarrow> int \<Rightarrow> ('w, string \<times> nat \<times> nat) act" where
  "directory_identity e p uid =
     bind (if is_absolute p then ad_is_link e p else ret True) (\<lambda>refused.
       if refused then raise (AuthorityError ''administrator_target_requires_absolute_directory'')
       else
         bind (ad_resolve e p) (\<lambda>canonical.
         bind (ad_open e canonical) (\<lambda>fd.
           ensure
             (bind (ad_fstat e fd) (\<lambda>(directory, owner, dev, ino).
                if \<not> directory \<or> owner \<noteq> uid then raise (AuthorityError ''administrator_target_owner_mismatch'')
                else ret (canonical, dev, ino)))
             (ad_close e fd))))"

definition request_error :: "string \<Rightarrow> state option \<Rightarrow> string option" where
  "request_error action current =
     (case current of
        None \<Rightarrow> if action \<noteq> ''enroll'' then Some ''authority_enrollment_required'' else None
      | Some c \<Rightarrow>
          if action = ''enroll'' then Some ''authority_already_enrolled''
          else if action = ''finish'' \<and> st_phase c \<noteq> ''deactivating'' then Some ''authority_not_deactivating''
          else if action = ''reactivate'' \<and> st_phase c \<noteq> ''inactive'' then Some ''authority_not_inactive''
          else if action = ''deactivate'' \<and> st_phase c \<noteq> ''active'' then Some ''authority_not_active''
          else None)"

definition instant :: "('w \<Rightarrow> 'a \<times> 'w) \<Rightarrow> ('w, 'a) act" where
  "instant f w = (let (x, w) = f w in (Inr x, w))"

definition review :: "'w admin_env \<Rightarrow> int \<Rightarrow> string \<Rightarrow> string \<Rightarrow> string \<Rightarrow> ('w, review) act" where
  "review e uid workspace data_dir action =
     (if action \<notin> {''enroll'', ''deactivate'', ''reactivate'', ''finish''} then raise (AuthorityError ''invalid_authority_action'')
      else
        bind (directory_identity e workspace uid) (\<lambda>(workspace, workspace_identity).
        bind (directory_identity e data_dir uid) (\<lambda>(data_dir, data_identity).
        bind (pure (make_target uid workspace data_dir)) (\<lambda>t.
        bind (opened (ad_store e) (\<lambda>d. read_state (ad_store e) d t)) (\<lambda>current.
          case request_error action current of
            Some code \<Rightarrow> raise (AuthorityError code)
          | None \<Rightarrow>
              bind (case current of
                      Some c \<Rightarrow> if action = ''finish'' then ret (st_operation c) else instant (ad_uuid e)
                    | None \<Rightarrow> instant (ad_uuid e)) (\<lambda>operation.
              bind (instant (ad_clock e)) (\<lambda>now.
                ret \<lparr>rv_target = t, rv_action = action,
                     rv_expected = (case current of None \<Rightarrow> ''absent'' | Some c \<Rightarrow> st_generation c), rv_operation = operation,
                     rv_workspace_identity = workspace_identity, rv_data_identity = data_identity, rv_started = now\<rparr>)))))))"

definition requested_action :: "string \<Rightarrow> string" where
  "requested_action action = (if action = ''finish'' then ''deactivate'' else action)"

definition apply_review :: "'w admin_env \<Rightarrow> review \<Rightarrow> string \<Rightarrow> ('w, state) act" where
  "apply_review e r answer =
     (if answer \<noteq> ad_confirmation e then raise (AuthorityError ''administrator_cancelled'')
      else
        bind (instant (ad_clock e)) (\<lambda>now.
          if \<not> (rv_started r \<le> now \<and> now < rv_started r + REVIEW_TIME) then raise (AuthorityError ''administrator_review_expired'')
          else
            bind (directory_identity e (tg_workspace (rv_target r)) (tg_uid (rv_target r))) (\<lambda>(workspace, workspace_identity).
            bind (directory_identity e (tg_data_dir (rv_target r)) (tg_uid (rv_target r))) (\<lambda>(data_dir, data_identity).
              if workspace \<noteq> tg_workspace (rv_target r) \<or> data_dir \<noteq> tg_data_dir (rv_target r) \<or>
                  workspace_identity \<noteq> rv_workspace_identity r \<or> data_identity \<noteq> rv_data_identity r
              then raise (AuthorityError ''administrator_target_changed'')
              else store_transition (ad_store e) (rv_target r) (rv_expected r) (rv_operation r) (requested_action (rv_action r))))))"

section \<open>The command\<close>

text \<open>\<open>main\<close>, after its arguments were parsed. \<open>ac_dialog\<close> shows the review in a window and gives whether
  it was confirmed, \<open>ac_prompt\<close> prints it and reads a line. What is printed at the end is a \<open>report\<close>.\<close>

record 'w console_env =
  ac_terminal :: bool
  ac_dialog :: "review \<Rightarrow> 'w \<Rightarrow> bool res \<times> 'w"
  ac_prompt :: "review \<Rightarrow> 'w \<Rightarrow> string res \<times> 'w"

datatype report = Status json | Reached string | Refused string

definition show_status :: "'w admin_env \<Rightarrow> int \<Rightarrow> string \<Rightarrow> string \<Rightarrow> ('w, json) act" where
  "show_status e uid workspace data_dir =
     bind (directory_identity e workspace uid) (\<lambda>(workspace, i).
     bind (directory_identity e data_dir uid) (\<lambda>(data_dir, i).
     bind (pure (make_target uid workspace data_dir)) (\<lambda>t.
     bind (opened (ad_store e) (\<lambda>d. read_state (ad_store e) d t)) (\<lambda>current.
       ret (case current of None \<Rightarrow> JObj [(''status'', JStr ''not_enrolled'')] | Some s \<Rightarrow> state_json s)))))"

definition confirm :: "'w admin_env \<Rightarrow> 'w console_env \<Rightarrow> bool \<Rightarrow> review \<Rightarrow> ('w, string) act" where
  "confirm e c gui r =
     (if gui then bind (ac_dialog c r) (\<lambda>confirmed.
        if confirmed then ret (ad_confirmation e) else raise (AuthorityError ''administrator_cancelled''))
      else ac_prompt c r)"

definition refusal :: "exn \<Rightarrow> string option" where
  "refusal x = (case x of
       AuthorityError code \<Rightarrow> Some code
     | OSError c \<Rightarrow> Some ''administrator_operation_failed''
     | OtherError c \<Rightarrow> if c \<in> {''EOFError'', ''TimeoutExpired''} then Some ''administrator_operation_failed'' else None
     | _ \<Rightarrow> None)"

definition admin_main :: "launch \<Rightarrow> 'w store_env \<Rightarrow> 'w store_env \<Rightarrow> 'w admin_env \<Rightarrow> 'w console_env \<Rightarrow>
    string \<Rightarrow> int \<Rightarrow> string \<Rightarrow> string \<Rightarrow> bool \<Rightarrow> ('w, report \<times> int) act" where
  "admin_main l scripts interpreters e c action uid workspace data_dir gui =
     attempt
       (bind (require_administrator_installation l scripts interpreters) (\<lambda>u.
          if action = ''status'' then bind (show_status e uid workspace data_dir) (\<lambda>v. ret (Status v, 0))
          else if \<not> gui \<and> \<not> ac_terminal c then raise (AuthorityError ''administrator_interactive_terminal_required'')
          else
            bind (review e uid workspace data_dir action) (\<lambda>r.
            bind (confirm e c gui r) (\<lambda>answer.
            bind (apply_review e r answer) (\<lambda>s.
              ret (Reached (st_phase s), 0))))))
       (\<lambda>x. case refusal x of Some code \<Rightarrow> ret (Refused code, 1) | None \<Rightarrow> raise x)"

section \<open>What is applied is what was reviewed\<close>

text \<open>The directory \<open>p\<close> is observed between the states \<open>s\<close> and \<open>t\<close>: it is no link, its name resolves to
  itself, and what is opened under this name is a directory of the user with this identity.\<close>

definition identified :: "'w admin_env \<Rightarrow> string \<Rightarrow> int \<Rightarrow> nat \<times> nat \<Rightarrow> 'w \<Rightarrow> 'w \<Rightarrow> bool" where
  "identified e p uid identity s t \<longleftrightarrow> is_absolute p \<and> (\<exists>s1 s2 fd s3 s4. ad_is_link e p s = (Inr False, s1) \<and>
     ad_resolve e p s1 = (Inr p, s2) \<and> ad_open e p s2 = (Inr fd, s3) \<and> ad_fstat e fd s3 = (Inr (True, uid, identity), s4) \<and>
     ad_close e fd s4 = (Inr (), t))"

lemma directory_identity_identified:
  assumes "directory_identity e p uid s = (Inr (p, identity), t)"
  shows "identified e p uid identity s t"
  using assms unfolding directory_identity_def identified_def
  by (cases identity) (auto simp: bind_Inr ensure_Inr ret_Inr raise_Inr split: if_splits)

text \<open>A review is made for the state it read: the request is possible there, it names its generation,
  and a request to finish names its operation.\<close>

lemma review_reads_state:
  assumes "review e uid workspace data_dir action w = (Inr r, w')"
  shows "\<exists>current v v'. opened (ad_store e) (\<lambda>d. read_state (ad_store e) d (rv_target r)) v = (Inr current, v') \<and>
    request_error action current = None \<and> rv_action r = action \<and>
    rv_expected r = (case current of None \<Rightarrow> ''absent'' | Some c \<Rightarrow> st_generation c) \<and>
    (\<forall>c. current = Some c \<longrightarrow> action = ''finish'' \<longrightarrow> rv_operation r = st_operation c)"
proof -
  have known: "\<not> action \<notin> {''enroll'', ''deactivate'', ''reactivate'', ''finish''}"
  proof
    assume a: "action \<notin> {''enroll'', ''deactivate'', ''reactivate'', ''finish''}"
    from assms show False unfolding review_def if_P [OF a] by (simp add: raise_Inr)
  qed
  from assms obtain t current wi di s1 s2 where o: "opened (ad_store e) (\<lambda>d. read_state (ad_store e) d t) s1 = (Inr current, s2)"
    and r: "(case request_error action current of
            Some code \<Rightarrow> raise (AuthorityError code)
          | None \<Rightarrow>
              bind (case current of
                      Some c \<Rightarrow> if action = ''finish'' then ret (st_operation c) else instant (ad_uuid e)
                    | None \<Rightarrow> instant (ad_uuid e)) (\<lambda>operation.
              bind (instant (ad_clock e)) (\<lambda>now.
                ret \<lparr>rv_target = t, rv_action = action,
                     rv_expected = (case current of None \<Rightarrow> ''absent'' | Some c \<Rightarrow> st_generation c), rv_operation = operation,
                     rv_workspace_identity = wi, rv_data_identity = di, rv_started = now\<rparr>))) s2 = (Inr r, w')"
    unfolding review_def if_not_P [OF known] bind_Inr case_prod_beta by blast
  from r have "request_error action current = None \<and> rv_target r = t \<and> rv_action r = action \<and>
      rv_expected r = (case current of None \<Rightarrow> ''absent'' | Some c \<Rightarrow> st_generation c) \<and>
      (\<forall>c. current = Some c \<longrightarrow> action = ''finish'' \<longrightarrow> rv_operation r = st_operation c)"
    by (cases current) (auto simp: bind_Inr ret_Inr raise_Inr split: option.splits if_splits)
  with o show ?thesis by blast
qed

text \<open>C23. Only what was reviewed is applied. If applying a review succeeds, then the answer was the
  confirmation, the time of the review had not run out when the clock was read first, then the
  reviewed workspace and after it the reviewed data directory were observed again: each is no link,
  its name resolves to itself, and what was opened under this very name is a directory of the
  reviewed user with the reviewed device and inode; and in the state this left, the transition of
  the reviewed target, from the reviewed generation, under the reviewed operation, gave the result.\<close>

theorem applied_review_is_what_was_shown:
  assumes "apply_review e r answer w = (Inr s, w')"
  shows "answer = ad_confirmation e \<and> (\<exists>now s1 s2 s3. ad_clock e w = (now, s1) \<and>
    rv_started r \<le> now \<and> now < rv_started r + REVIEW_TIME \<and>
    identified e (tg_workspace (rv_target r)) (tg_uid (rv_target r)) (rv_workspace_identity r) s1 s2 \<and>
    identified e (tg_data_dir (rv_target r)) (tg_uid (rv_target r)) (rv_data_identity r) s2 s3 \<and>
    store_transition (ad_store e) (rv_target r) (rv_expected r) (rv_operation r)
      (if rv_action r = ''finish'' then ''deactivate'' else rv_action r) s3 = (Inr s, w'))"
proof -
  from assms have a: "answer = ad_confirmation e" by (auto simp: apply_review_def raise_Inr split: if_splits)
  with assms obtain now s1 wp wi s2 dp di s3 where c: "instant (ad_clock e) w = (Inr now, s1)" "rv_started r \<le> now" "now < rv_started r + REVIEW_TIME"
    and 1: "directory_identity e (tg_workspace (rv_target r)) (tg_uid (rv_target r)) s1 = (Inr (wp, wi), s2)"
    and 2: "directory_identity e (tg_data_dir (rv_target r)) (tg_uid (rv_target r)) s2 = (Inr (dp, di), s3)"
    and i: "wp = tg_workspace (rv_target r)" "dp = tg_data_dir (rv_target r)" "wi = rv_workspace_identity r" "di = rv_data_identity r"
    and t: "store_transition (ad_store e) (rv_target r) (rv_expected r) (rv_operation r) (requested_action (rv_action r)) s3 = (Inr s, w')"
    by (auto simp: apply_review_def bind_Inr raise_Inr split: prod.splits if_splits)
  from c(1) have "ad_clock e w = (now, s1)" by (auto simp: instant_def split: prod.splits)
  with a c(2,3) directory_identity_identified [OF 1 [unfolded i]] directory_identity_identified [OF 2 [unfolded i]] t
  show ?thesis unfolding requested_action_def by blast
qed

text \<open>The command only reports a new phase after a review of the request was applied, by the
  administrator, from a trusted installation.\<close>

lemma reported_phase_was_applied:
  assumes "admin_main l scripts interpreters e c action uid workspace data_dir gui w = (Inr (Reached p, n), w')"
  shows "la_euid l = 0 \<and> la_isolated l \<and> la_script l \<and>
    (\<exists>w1 r w2 answer w3 s. require_administrator_installation l scripts interpreters w = (Inr (), w1) \<and>
       review e uid workspace data_dir action w1 = (Inr r, w2) \<and> confirm e c gui r w2 = (Inr answer, w3) \<and>
       apply_review e r answer w3 = (Inr s, w') \<and> p = st_phase s)"
proof -
  from assms obtain w1 where i: "require_administrator_installation l scripts interpreters w = (Inr (), w1)" and
    m: "(if action = ''status'' then bind (show_status e uid workspace data_dir) (\<lambda>v. ret (Status v, 0))
          else if \<not> gui \<and> \<not> ac_terminal c then raise (AuthorityError ''administrator_interactive_terminal_required'')
          else
            bind (review e uid workspace data_dir action) (\<lambda>r.
            bind (confirm e c gui r) (\<lambda>answer.
            bind (apply_review e r answer) (\<lambda>s.
              ret (Reached (st_phase s), 0))))) w1 = (Inr (Reached p, n), w')"
    by (auto simp: admin_main_def attempt_Inr bind_Inr ret_Inr raise_Inr split: option.splits if_splits)
  have "la_euid l = 0 \<and> la_isolated l \<and> la_script l"
    using i by (auto simp: require_administrator_installation_def raise_Inr split: if_splits)
  with i m show ?thesis by (auto simp: bind_Inr ret_Inr raise_Inr split: if_splits)
qed

section \<open>Example\<close>

text \<open>A trusted store without a state file, and a user who owns both directories.\<close>

definition empty_store :: "unit store_env" where
  "empty_store =
     \<lparr>au_hash = (\<lambda>b. ''k''), au_directory = ''/a'', au_owner = 0, au_euid = 0, au_root = (\<lambda>w. (Inr 0, w)), au_child = (\<lambda>fd p w. (Inr 1, w)),
      au_fstat = (\<lambda>fd w. (Inr \<lparr>md_directory = True, md_regular = True, md_uid = 0, md_mode = 420, md_links = 1\<rparr>, w)),
      au_writable = (\<lambda>fd w. (Inr False, w)),
      au_open = (\<lambda>fd n w. (if n = ''k.json'' then Inl (OSError ''FileNotFoundError'') else Inr 2, w)),
      au_create = (\<lambda>fd n w. (Inr 2, w)), au_chmod = (\<lambda>fd w. (Inr (), w)), au_read = (\<lambda>fd w. (Inl (OSError ''OSError''), w)),
      au_flock = (\<lambda>fd ex w. (Inr True, w)), au_uuid = (\<lambda>w. (name_of CHR ''a'', w)), au_temporary = (\<lambda>fd n w. (Inr 3, w)),
      au_write = (\<lambda>fd c w. (Inr (), w)), au_replace = (\<lambda>fd m n w. (Inr (), w)), au_sync = (\<lambda>fd w. (Inr (), w)),
      au_unlink = (\<lambda>fd n w. (Inl (OSError ''FileNotFoundError''), w)), au_close = (\<lambda>fd w. (Inr (), w))\<rparr>"

definition sample_admin :: "unit admin_env" where
  "sample_admin =
     \<lparr>ad_store = empty_store, ad_is_link = (\<lambda>p w. (Inr False, w)), ad_resolve = (\<lambda>p w. (Inr p, w)), ad_open = (\<lambda>p w. (Inr 5, w)),
      ad_fstat = (\<lambda>fd w. (Inr (True, 501, 1, 2), w)), ad_close = (\<lambda>fd w. (Inr (), w)), ad_clock = (\<lambda>w. (1000, w)),
      ad_uuid = (\<lambda>w. (name_of CHR ''b'', w)), ad_confirmation = ''yes''\<rparr>"

definition sample_enrolment :: "state res \<times> unit" where
  "sample_enrolment = bind (review sample_admin 501 ''/w'' ''/d'' ''enroll'') (\<lambda>r. apply_review sample_admin r ''yes'') ()"

definition sample_review :: review where
  "sample_review = \<lparr>rv_target = sample_target, rv_action = ''enroll'', rv_expected = ''absent'', rv_operation = name_of CHR ''b'',
     rv_workspace_identity = (1, 2), rv_data_identity = (1, 2), rv_started = 1000\<rparr>"

theorem applied_review_is_what_was_shown_witness:
  "map_sum id st_phase (fst (apply_review sample_admin sample_review ''yes'' ())) = Inr ''active'' \<and>
   identified sample_admin ''/w'' 501 (1, 2) () () \<and> identified sample_admin ''/d'' 501 (1, 2) () () \<and>
   (\<exists>s. store_transition empty_store sample_target ''absent'' (name_of CHR ''b'') ''enroll'' () = (Inr s, ()))"
proof -
  have r: "map_sum id st_phase (fst (apply_review sample_admin sample_review ''yes'' ())) = Inr ''active''" by code_simp
  then obtain s where "apply_review sample_admin sample_review ''yes'' () = (Inr s, ())"
    by (cases "fst (apply_review sample_admin sample_review ''yes'' ())") (auto simp: prod_eq_iff)
  from applied_review_is_what_was_shown [OF this] r show ?thesis
    by (auto simp: sample_review_def sample_admin_def sample_target_def)
qed

lemma enrolment_is_applied: "map_sum id st_phase (fst sample_enrolment) = Inr ''active''"
  by code_simp

end
