(* ===== verification/Judge.thy ===== *)
theory Judge
  imports Requirements Repository Effects
begin

text \<open>
  \<open>engine/codex.py\<close> and \<open>judge.py\<close>: the transport to the model. Every question runs a fresh Codex
  process in an empty directory, with its tools switched off, under a time limit that never
  exceeds the deadline of the Hook; its answer is only used if the process ended well, its event
  log shows no tool activity, and the answer is one object without repeated fields. The texts of
  the prompts and the output schemas are parameters; times are milliseconds.
\<close>

section \<open>Tool activity\<close>

definition FORBIDDEN :: "string list" where
  "FORBIDDEN = [''browser'', ''command_execution'', ''computer_use'', ''function_call'', ''mcp_tool_call'', ''shell'', ''tool_call'', ''web_search'']"

definition names_tool :: "string \<Rightarrow> json \<Rightarrow> bool" where
  "names_tool k v = (case v of
      JStr s \<Rightarrow> k \<in> {''type'', ''item_type'', ''tool''} \<and>
        (let normalized = lower s in normalized \<in> set FORBIDDEN \<or> list_ex (\<lambda>token. sublist token normalized) FORBIDDEN)
    | _ \<Rightarrow> False)"

fun contains_forbidden_event_value :: "json \<Rightarrow> bool" where
  "contains_forbidden_event_value (JObj d) = list_ex (\<lambda>(k, v). names_tool k v \<or> contains_forbidden_event_value v) d"
| "contains_forbidden_event_value (JArr xs) = list_ex contains_forbidden_event_value xs"
| "contains_forbidden_event_value v = False"

text \<open>\<open>bytes.splitlines()\<close>: a line ends with a line feed, a carriage return, or both.\<close>

fun byte_lines :: "bytes \<Rightarrow> bytes \<Rightarrow> bytes list" where
  "byte_lines line [] = (if line = [] then [] else [line])"
| "byte_lines line (c # cs) =
     (if c = char_of (10::nat) then line # byte_lines [] cs
      else if c = char_of (13::nat) then
        line # (case cs of [] \<Rightarrow> [] | d # ds \<Rightarrow> if d = char_of (10::nat) then byte_lines [] ds else byte_lines [] cs)
      else byte_lines (line @ [c]) cs)"

definition blank :: "bytes \<Rightarrow> bool" where
  "blank line \<longleftrightarrow> list_all (\<lambda>c. (of_char c :: nat) \<in> {9, 10, 11, 12, 13, 32}) line"

definition undecodable :: "exn \<Rightarrow> bool" where
  "undecodable x \<longleftrightarrow> (case x of UnicodeError m \<Rightarrow> True | ValueError m \<Rightarrow> m = ''JSONDecodeError'' | _ \<Rightarrow> False)"

text \<open>\<open>parse\<close> gives a value with every field of its objects, in order; in a Python dictionary a field
  that occurs again replaces the first one. A line that cannot be read counts as activity.\<close>

fun last_fields :: "json \<Rightarrow> json" where
  "last_fields (JObj d) = JObj (fold (\<lambda>(k, v) acc. dict_set k v acc) (map (\<lambda>(k, v). (k, last_fields v)) d) [])"
| "last_fields (JArr xs) = JArr (map last_fields xs)"
| "last_fields v = v"

fun lines_contain_activity :: "(bytes \<Rightarrow> json res) \<Rightarrow> bytes list \<Rightarrow> bool res" where
  "lines_contain_activity parse [] = Inr False"
| "lines_contain_activity parse (line # ls) =
     (if blank line then lines_contain_activity parse ls
      else case parse line of
          Inl x \<Rightarrow> if undecodable x then Inr True else Inl x
        | Inr event \<Rightarrow> if contains_forbidden_event_value (last_fields event) then Inr True else lines_contain_activity parse ls)"

definition codex_events_contain_tool_activity :: "(bytes \<Rightarrow> json res) \<Rightarrow> bytes \<Rightarrow> bool res" where
  "codex_events_contain_tool_activity parse events = lines_contain_activity parse (byte_lines [] events)"

text \<open>\<open>_loads_no_duplicate_keys\<close>: an object with a repeated field is refused. (Text that both repeats
  a field and is not JSON after it is refused too, with the parser's error instead of this one.)\<close>

fun closed_objects :: "json \<Rightarrow> bool" where
  "closed_objects (JObj d) = (distinct (map fst d) \<and> list_all (\<lambda>(k, v). closed_objects v) d)"
| "closed_objects (JArr xs) = list_all closed_objects xs"
| "closed_objects v = True"

definition loads_no_duplicate_keys :: "(bytes \<Rightarrow> json res) \<Rightarrow> bytes \<Rightarrow> json res" where
  "loads_no_duplicate_keys parse raw =
     (case parse raw of
        Inl x \<Rightarrow> Inl x
      | Inr v \<Rightarrow> if closed_objects v then Inr v else Inl (JudgeProviderError ''provider_response_duplicate_key''))"

section \<open>The process\<close>

definition CODEX_DISABLED_FEATURES :: "string list" where
  "CODEX_DISABLED_FEATURES = [''apps'', ''browser_use'', ''browser_use_external'', ''browser_use_full_cdp_access'', ''code_mode_host'',
     ''computer_use'', ''hooks'', ''image_generation'', ''in_app_browser'', ''memories'', ''multi_agent'', ''multi_agent_v2'', ''plugins'',
     ''remote_plugin'', ''shell_tool'', ''standalone_web_search'', ''tool_suggest'', ''unified_exec'', ''unified_exec_zsh_fork'',
     ''workspace_dependencies'']"

definition build_codex_exec_argv :: "string \<Rightarrow> string \<Rightarrow> string \<Rightarrow> string option \<Rightarrow> string list" where
  "build_codex_exec_argv executable schema_path output_path model =
     [executable, ''exec'', ''--ephemeral'', ''--ignore-user-config'', ''--ignore-rules'', ''--strict-config'', ''--skip-git-repo-check'',
      ''--sandbox'', ''read-only'', ''--json'', ''--color'', ''never'', ''--output-schema'', schema_path,
      ''--output-last-message'', output_path] @
     concat (map (\<lambda>feature. [''--disable'', feature]) CODEX_DISABLED_FEATURES) @
     (case model of None \<Rightarrow> [] | Some m \<Rightarrow> [''--model'', m]) @ [''-'']"

text \<open>Nothing but these variables reaches the process.\<close>

definition minimal_codex_environment :: "(string \<times> string) list \<Rightarrow> (string \<times> string) list" where
  "minimal_codex_environment environ =
     concat (map (\<lambda>key. case map_of environ key of None \<Rightarrow> [] | Some v \<Rightarrow> [(key, v)])
       [''CODEX_HOME'', ''HOME'', ''LANG'', ''LC_ALL'', ''PATH'', ''SSL_CERT_DIR'', ''SSL_CERT_FILE'', ''TMPDIR'']) @
     [(''NO_COLOR'', ''1''), (''TOOLUSEPROXY_CODEX_JUDGE'', ''1'')]"

datatype stage = Provenance_Stage | Externality_Stage | Target_Stage

text \<open>\<open>cx_timeout\<close> and \<open>cx_deadline\<close> are attributes of the judge, which lives in the world;
  \<open>cx_communicate\<close> is \<open>None\<close> when the time ran out, else the exit status and the event log;
  \<open>cx_output\<close> is the size of the answer's file, if it exists.\<close>

record 'w codex_env =
  cx_parse :: "bytes \<Rightarrow> json res"
  cx_prompt :: "stage \<Rightarrow> string"
  cx_schema :: "stage \<Rightarrow> json"
  cx_model :: "string option"
  cx_directory :: "'w \<Rightarrow> string res \<times> 'w"
  cx_cleanup :: "string \<Rightarrow> 'w \<Rightarrow> unit res \<times> 'w"
  cx_write :: "string \<Rightarrow> string \<Rightarrow> 'w \<Rightarrow> unit res \<times> 'w"
  cx_environ :: "'w \<Rightarrow> (string \<times> string) list \<times> 'w"
  cx_clock :: "'w \<Rightarrow> int \<times> 'w"
  cx_timeout :: "'w \<Rightarrow> int"
  cx_set_timeout :: "int \<Rightarrow> 'w \<Rightarrow> 'w"
  cx_deadline :: "'w \<Rightarrow> int option"
  cx_popen :: "string list \<Rightarrow> string \<Rightarrow> (string \<times> string) list \<Rightarrow> 'w \<Rightarrow> nat res \<times> 'w"
  cx_communicate :: "nat \<Rightarrow> bytes \<Rightarrow> int \<Rightarrow> 'w \<Rightarrow> (int \<times> bytes) option res \<times> 'w"
  cx_kill :: "nat \<Rightarrow> 'w \<Rightarrow> unit res \<times> 'w"
  cx_reap :: "nat \<Rightarrow> 'w \<Rightarrow> unit res \<times> 'w"
  cx_output :: "string \<Rightarrow> 'w \<Rightarrow> nat option res \<times> 'w"
  cx_read :: "string \<Rightarrow> 'w \<Rightarrow> bytes res \<times> 'w"

definition observe_world :: "('w \<Rightarrow> 'a \<times> 'w) \<Rightarrow> ('w, 'a) act" where
  "observe_world f w = (let (x, w) = f w in (Inr x, w))"

definition run_process :: "'w codex_env \<Rightarrow> string list \<Rightarrow> bytes \<Rightarrow> string \<Rightarrow> (string \<times> string) list \<Rightarrow> int \<Rightarrow> ('w, int \<times> bytes) act" where
  "run_process e argv stdin cwd environment limit =
     bind (attempt (cx_popen e argv cwd environment)
             (\<lambda>x. case x of OSError n \<Rightarrow> raise (JudgeProviderError ''codex_exec_unavailable'') | _ \<Rightarrow> raise x)) (\<lambda>pid.
     bind (cx_communicate e pid stdin limit) (\<lambda>r. case r of
         Some result \<Rightarrow> ret result
       | None \<Rightarrow>
           bind (attempt (cx_kill e pid) (\<lambda>x. if x = OSError ''ProcessLookupError'' then ret () else raise x)) (\<lambda>u.
           bind (cx_reap e pid) (\<lambda>u. raise (JudgeProviderError ''codex_exec_timeout'')))))"

section \<open>The judge\<close>

definition MAX_TIMEOUT :: int where "MAX_TIMEOUT = 480000"

definition MAX_ANSWER :: nat where "MAX_ANSWER = 131072"

definition stage_of :: "dict \<Rightarrow> stage" where
  "stage_of records =
     (if dget records ''stage'' = JStr ''transmission_targets'' then Target_Stage
      else if dget records ''stage'' = JStr ''externality'' then Externality_Stage else Provenance_Stage)"

text \<open>Routing and locating run with little reasoning; the option goes before the last argument.\<close>

definition judge_argv :: "'w codex_env \<Rightarrow> string \<Rightarrow> stage \<Rightarrow> string list" where
  "judge_argv e root st =
     (let argv = build_codex_exec_argv ''codex'' (path_join root ''schema.json'') (path_join root ''verdict.json'') (cx_model e)
      in if st = Provenance_Stage then argv
         else butlast argv @ [''-c'', ''model_reasoning_effort=\"low\"''] @ [last argv])"

definition judge_input :: "'w codex_env \<Rightarrow> stage \<Rightarrow> dict \<Rightarrow> bytes" where
  "judge_input e st records = utf8 (cx_prompt e st @ [char_of (10::nat)] @ ''RECORDS='' @ dumps False False (JObj records))"

definition remaining_time :: "'w codex_env \<Rightarrow> ('w, int) act" where
  "remaining_time e = bind (gets (cx_deadline e)) (\<lambda>d. case d of
       None \<Rightarrow> gets (cx_timeout e)
     | Some d \<Rightarrow> bind (observe_world (cx_clock e)) (\<lambda>now. ret (max 0 (d - now))))"

text \<open>A slow inference is retried with more time; a failed one is not.\<close>

definition timed_run :: "'w codex_env \<Rightarrow> string \<Rightarrow> stage \<Rightarrow> dict \<Rightarrow> int \<Rightarrow> ('w, int \<times> bytes) act" where
  "timed_run e root st records remaining =
     attempt
       (bind (observe_world (cx_environ e)) (\<lambda>environ.
        bind (gets (cx_timeout e)) (\<lambda>timeout.
          run_process e (judge_argv e root st) (judge_input e st records) root (minimal_codex_environment environ) (min timeout remaining))))
       (\<lambda>x. if x = JudgeProviderError ''codex_exec_timeout''
            then bind (modify (\<lambda>w. cx_set_timeout e (min (cx_timeout e w * 2) MAX_TIMEOUT) w)) (\<lambda>u. raise x)
            else raise x)"

text \<open>The checks on the answer.\<close>

definition read_answer :: "'w codex_env \<Rightarrow> string \<Rightarrow> ('w, json) act" where
  "read_answer e path =
     bind (cx_output e path) (\<lambda>size.
       if (case size of None \<Rightarrow> True | Some n \<Rightarrow> MAX_ANSWER < n)
       then raise (JudgeProviderError ''semantic_provider_output_missing_or_large'')
       else attempt (bind (cx_read e path) (\<lambda>raw. pure (loads_no_duplicate_keys (cx_parse e) raw)))
              (\<lambda>x. if undecodable x then raise (JudgeProviderError ''semantic_provider_invalid_json'') else raise x))"

definition checked_answer :: "stage \<Rightarrow> json \<Rightarrow> json res" where
  "checked_answer st v = (case v of
       JObj d \<Rightarrow>
         if st = Provenance_Stage \<and> truthy (dget d ''evidence_requests'')
         then Inl (JudgeProviderError ''semantic_unexpected_evidence_request'') else Inr v
     | _ \<Rightarrow> Inl (JudgeProviderError ''semantic_provider_invalid_shape''))"

definition judged_in :: "'w codex_env \<Rightarrow> dict \<Rightarrow> string \<Rightarrow> ('w, json) act" where
  "judged_in e records root =
     (let st = stage_of records; output = path_join root ''verdict.json'' in
      bind (cx_write e (path_join root ''schema.json'') (dumps True False (cx_schema e st))) (\<lambda>u.
      bind (remaining_time e) (\<lambda>remaining.
        if remaining \<le> 0 then raise (JudgeProviderError ''codex_exec_timeout'')
        else
          bind (timed_run e root st records remaining) (\<lambda>(status, events).
            if status \<noteq> 0 then raise (JudgeProviderError ''semantic_provider_failed'')
            else
              bind (pure (codex_events_contain_tool_activity (cx_parse e) events)) (\<lambda>used.
                if used then raise (JudgeProviderError ''semantic_provider_used_tools'')
                else bind (read_answer e output) (\<lambda>v. pure (checked_answer st v)))))))"

definition codex_judge :: "'w codex_env \<Rightarrow> 'w Requirements.judge" where
  "codex_judge e records = (case records of
       JObj d \<Rightarrow> bind (cx_directory e) (\<lambda>root. ensure (judged_in e d root) (cx_cleanup e root))
     | _ \<Rightarrow> raise (OtherError ''AttributeError''))"

section \<open>What an answer rests on\<close>

text \<open>\<open>field_of v k x\<close>: \<open>x\<close> is the value of a field \<open>k\<close> of an object somewhere in \<open>v\<close>.\<close>

inductive field_of :: "json \<Rightarrow> string \<Rightarrow> json \<Rightarrow> bool" where
  here: "(k, x) \<in> set d \<Longrightarrow> field_of (JObj d) k x"
| deeper: "(l, v) \<in> set d \<Longrightarrow> field_of v k x \<Longrightarrow> field_of (JObj d) k x"
| member: "v \<in> set xs \<Longrightarrow> field_of v k x \<Longrightarrow> field_of (JArr xs) k x"

inductive_simps field_of_simps: "field_of (JObj d) k x" "field_of (JArr xs) k x" "field_of (JStr s) k x"
  "field_of (JInt i) k x" "field_of (JBool b) k x" "field_of JNull k x"

lemma forbidden_field: "contains_forbidden_event_value v \<longleftrightarrow> (\<exists>k x. field_of v k x \<and> names_tool k x)"
proof (induction v rule: contains_forbidden_event_value.induct)
  case (1 d)
  have "list_ex (\<lambda>(k, v). names_tool k v \<or> contains_forbidden_event_value v) d \<longleftrightarrow>
        (\<exists>k v. (k, v) \<in> set d \<and> (names_tool k v \<or> (\<exists>l x. field_of v l x \<and> names_tool l x)))"
    using 1 by (fastforce simp: list_ex_iff)
  then show ?case by (auto simp: field_of_simps)
next
  case (2 xs)
  then show ?case by (auto simp: list_ex_iff field_of_simps)
qed (auto elim: field_of.cases)

text \<open>An event log is quiet if every line of it is blank or an event none of whose fields names a tool.\<close>

definition quiet_line :: "(bytes \<Rightarrow> json res) \<Rightarrow> bytes \<Rightarrow> bool" where
  "quiet_line parse line \<longleftrightarrow> blank line \<or>
     (\<exists>event. parse line = Inr event \<and> (\<forall>k x. field_of (last_fields event) k x \<longrightarrow> \<not> names_tool k x))"

lemma quiet_log: "lines_contain_activity parse ls = Inr False \<longleftrightarrow> list_all (quiet_line parse) ls"
proof (induction ls)
  case (Cons line ls)
  show ?case
  proof (cases "blank line")
    case True
    then show ?thesis using Cons by (simp add: quiet_line_def)
  next
    case False
    then show ?thesis using Cons
      by (cases "parse line") (auto simp: quiet_line_def forbidden_field)
  qed
qed simp

lemma answer_was_checked:
  assumes "judged_in e records root w = (Inr v, w')"
  shows "\<exists>w1 remaining w2 events w3 raw d w4 w5.
           remaining_time e w1 = (Inr remaining, w2) \<and> 0 < remaining \<and>
           timed_run e root (stage_of records) records remaining w2 = (Inr (0, events), w3) \<and>
           list_all (quiet_line (cx_parse e)) (byte_lines [] events) \<and>
           cx_read e (path_join root ''verdict.json'') w4 = (Inr raw, w5) \<and> cx_parse e raw = Inr v \<and>
           closed_objects v \<and> v = JObj d \<and> (stage_of records = Provenance_Stage \<longrightarrow> \<not> truthy (dget d ''evidence_requests''))"
proof -
  let ?st = "stage_of records"
  let ?root = "path_join root ''verdict.json''"
  from assms obtain w1 remaining w2 where
    r: "remaining_time e w1 = (Inr remaining, w2)" and
    m: "(if remaining \<le> 0 then raise (JudgeProviderError ''codex_exec_timeout'')
         else bind (timed_run e root ?st records remaining) (\<lambda>(status, events).
            if status \<noteq> 0 then raise (JudgeProviderError ''semantic_provider_failed'')
            else bind (pure (codex_events_contain_tool_activity (cx_parse e) events)) (\<lambda>used.
                if used then raise (JudgeProviderError ''semantic_provider_used_tools'')
                else bind (read_answer e ?root) (\<lambda>v. pure (checked_answer ?st v))))) w2 = (Inr v, w')"
    unfolding judged_in_def Let_def bind_Inr by blast
  have pos: "0 < remaining" using m by (cases "remaining \<le> 0") (simp_all add: raise_Inr)
  from m pos obtain status events w3 where
    t: "timed_run e root ?st records remaining w2 = (Inr (status, events), w3)" and
    m: "(if status \<noteq> 0 then raise (JudgeProviderError ''semantic_provider_failed'')
            else bind (pure (codex_events_contain_tool_activity (cx_parse e) events)) (\<lambda>used.
                if used then raise (JudgeProviderError ''semantic_provider_used_tools'')
                else bind (read_answer e ?root) (\<lambda>v. pure (checked_answer ?st v)))) w3 = (Inr v, w')"
    by (auto simp: bind_Inr)
  have z: "status = 0" using m by (cases "status = 0") (simp_all add: raise_Inr)
  from m z obtain used where
    q: "codex_events_contain_tool_activity (cx_parse e) events = Inr used" and
    m: "(if used then raise (JudgeProviderError ''semantic_provider_used_tools'')
                else bind (read_answer e ?root) (\<lambda>v. pure (checked_answer ?st v))) w3 = (Inr v, w')"
    by (auto simp: bind_Inr pure_Inr)
  have nu: "\<not> used" using m by (cases used) (simp_all add: raise_Inr)
  from m nu obtain u where a: "read_answer e ?root w3 = (Inr u, w')" and c: "checked_answer ?st u = Inr v"
    by (auto simp: bind_Inr pure_Inr)
  from a obtain w4 raw where
    raw: "cx_read e ?root w4 = (Inr raw, w')" "loads_no_duplicate_keys (cx_parse e) raw = Inr u"
    unfolding read_answer_def
    by (auto simp: bind_Inr attempt_Inr pure_Inr raise_Inr split: if_splits option.splits)
  obtain d where d: "u = JObj d" "v = u" "?st = Provenance_Stage \<longrightarrow> \<not> truthy (dget d ''evidence_requests'')"
    using c by (auto simp: checked_answer_def split: json.splits if_splits)
  have "cx_parse e raw = Inr u \<and> closed_objects u"
    using raw(2) by (auto simp: loads_no_duplicate_keys_def split: sum.splits if_splits)
  moreover have "list_all (quiet_line (cx_parse e)) (byte_lines [] events)"
    using q nu quiet_log by (cases used) (simp_all add: codex_events_contain_tool_activity_def)
  ultimately show ?thesis
    using r pos t z raw(1) d
    by (intro exI [of _ w1] exI [of _ remaining] exI [of _ w2] exI [of _ events] exI [of _ w3] exI [of _ raw] exI [of _ d]
        exI [of _ w4] exI [of _ w']) simp
qed

lemma run_within_limits:
  assumes "timed_run e root st records remaining w = (Inr (status, events), w')"
  shows "\<exists>pid limit w1 w2. cx_communicate e pid (judge_input e st records) limit w1 = (Inr (Some (status, events)), w2) \<and>
           limit \<le> remaining"
proof -
  obtain environment w1 where
    "run_process e (judge_argv e root st) (judge_input e st records) root environment (min (cx_timeout e w1) remaining) w1 = (Inr (status, events), w')"
    using assms unfolding timed_run_def
    by (auto simp: act_Inr observe_world_def split: if_splits)
  then show ?thesis
    unfolding run_process_def
    by (auto simp: act_Inr split: option.splits exn.splits) (metis min.cobounded2)+
qed

lemma judge_answer_checked:
  assumes "codex_judge e (JObj records) w = (Inr v, w')"
  shows "\<exists>root pid limit remaining events raw d w1 w2 w3 w4 w5 w6.
           remaining_time e w1 = (Inr remaining, w2) \<and> 0 < remaining \<and> limit \<le> remaining \<and>
           cx_communicate e pid (judge_input e (stage_of records) records) limit w3 = (Inr (Some (0, events)), w4) \<and>
           list_all (quiet_line (cx_parse e)) (byte_lines [] events) \<and>
           cx_read e (path_join root ''verdict.json'') w5 = (Inr raw, w6) \<and> cx_parse e raw = Inr v \<and>
           closed_objects v \<and> v = JObj d \<and> (stage_of records = Provenance_Stage \<longrightarrow> \<not> truthy (dget d ''evidence_requests''))"
proof -
  obtain root w0 wz where "judged_in e records root w0 = (Inr v, wz)"
    using assms by (auto simp: codex_judge_def bind_Inr ensure_Inr)
  from answer_was_checked [OF this] obtain w1 remaining w2 events w3 raw d w4 w5 where
    a: "remaining_time e w1 = (Inr remaining, w2)" "0 < remaining"
       "timed_run e root (stage_of records) records remaining w2 = (Inr (0, events), w3)"
       "list_all (quiet_line (cx_parse e)) (byte_lines [] events)"
       "cx_read e (path_join root ''verdict.json'') w4 = (Inr raw, w5)" "cx_parse e raw = Inr v" "closed_objects v" "v = JObj d"
       "stage_of records = Provenance_Stage \<longrightarrow> \<not> truthy (dget d ''evidence_requests'')"
    by blast
  obtain pid limit wa wb where
    b: "cx_communicate e pid (judge_input e (stage_of records) records) limit wa = (Inr (Some (0, events)), wb)" "limit \<le> remaining"
    using run_within_limits [OF a(3)] by blast
  show ?thesis
    by (intro exI [of _ root] exI [of _ pid] exI [of _ limit] exI [of _ remaining] exI [of _ events] exI [of _ raw] exI [of _ d]
        exI [of _ w1] exI [of _ w2] exI [of _ wa] exI [of _ wb] exI [of _ w4] exI [of _ w5] conjI) (rule a b)+
qed

text \<open>C17. An answer of the model is only used if it was given without tools: the process ended with
  status 0 within the time that was left for the Hook, every line of its event log is blank or is an
  event in which no field, at any depth, names a tool, and the answer itself is one object, read from
  the output file, without repeated fields; in the provenance stage it asks for no more evidence.\<close>

theorem answers_show_no_tool_activity:
  assumes "codex_judge e (JObj records) w = (Inr v, w')"
  shows "\<exists>root pid limit remaining events raw d w1 w2 w3 w4 w5 w6.
           remaining_time e w1 = (Inr remaining, w2) \<and> 0 < remaining \<and> limit \<le> remaining \<and>
           cx_communicate e pid (judge_input e (stage_of records) records) limit w3 = (Inr (Some (0, events)), w4) \<and>
           list_all (quiet_line (cx_parse e)) (byte_lines [] events) \<and>
           cx_read e (path_join root ''verdict.json'') w5 = (Inr raw, w6) \<and> cx_parse e raw = Inr v \<and>
           closed_objects v \<and> v = JObj d \<and> (stage_of records = Provenance_Stage \<longrightarrow> \<not> truthy (dget d ''evidence_requests''))"
  by (rule judge_answer_checked [OF assms])

text \<open>A process that prints one harmless event and answers with one object.\<close>

definition sample_answer :: json where
  "sample_answer = JObj [(''externality'', JStr ''local'')]"

definition sample_parse :: "bytes \<Rightarrow> json res" where
  "sample_parse raw = (if raw = ''event'' then Inr (JObj [(''turn'', JStr ''completed'')])
     else if raw = ''answer'' then Inr sample_answer else Inl (ValueError ''JSONDecodeError''))"

definition sample_codex :: "unit codex_env" where
  "sample_codex = \<lparr>cx_parse = sample_parse, cx_prompt = \<lambda>st. ''Judge'', cx_schema = \<lambda>st. JObj [], cx_model = None,
     cx_directory = \<lambda>w. (Inr ''/tmp/j'', w), cx_cleanup = \<lambda>root w. (Inr (), w), cx_write = \<lambda>p x w. (Inr (), w),
     cx_environ = \<lambda>w. ([(''PATH'', ''/bin''), (''SECRET'', ''x'')], w), cx_clock = \<lambda>w. (0, w), cx_timeout = \<lambda>w. 60000,
     cx_set_timeout = \<lambda>i w. w, cx_deadline = \<lambda>w. Some 5000, cx_popen = \<lambda>argv cwd env w. (Inr 7, w),
     cx_communicate = \<lambda>pid stdin limit w. (Inr (Some (0, ''event'')), w),
     cx_kill = \<lambda>pid w. (Inr (), w), cx_reap = \<lambda>pid w. (Inr (), w), cx_output = \<lambda>p w. (Inr (Some 6), w),
     cx_read = \<lambda>p w. (Inr ''answer'', w)\<rparr>"

lemma sample_log: "codex_events_contain_tool_activity sample_parse ''event'' = Inr False"
  by (simp add: codex_events_contain_tool_activity_def sample_parse_def blank_def char_of_def names_tool_def dict_set.simps)

lemma sample_object: "loads_no_duplicate_keys sample_parse ''answer'' = Inr sample_answer"
  by (simp add: loads_no_duplicate_keys_def sample_parse_def sample_answer_def)

lemma sample_judged: "codex_judge sample_codex (JObj [(''stage'', JStr ''externality'')]) () = (Inr sample_answer, ())"
  by (simp add: codex_judge_def judged_in_def sample_codex_def Let_def stage_of_def dget_or_def remaining_time_def timed_run_def
      run_process_def read_answer_def sample_log sample_object observe_world_def act_simps ensure_def MAX_ANSWER_def
      checked_answer_def sample_answer_def)

theorem answers_show_no_tool_activity_witness:
  "\<exists>root pid limit remaining events raw d w1 w2 w3 w4 w5 w6.
     remaining_time sample_codex w1 = (Inr remaining, w2) \<and> 0 < remaining \<and> limit \<le> remaining \<and>
     cx_communicate sample_codex pid (judge_input sample_codex (stage_of [(''stage'', JStr ''externality'')]) [(''stage'', JStr ''externality'')])
       limit w3 = (Inr (Some (0, events)), w4) \<and>
     list_all (quiet_line (cx_parse sample_codex)) (byte_lines [] events) \<and>
     cx_read sample_codex (path_join root ''verdict.json'') w5 = (Inr raw, w6) \<and> cx_parse sample_codex raw = Inr sample_answer \<and>
     closed_objects sample_answer \<and> sample_answer = JObj d"
  using answers_show_no_tool_activity [OF sample_judged] by blast

end
