(* ===== verification/Watchdog.thy ===== *)
theory Watchdog
  imports Json Effects Posix_Path
begin

text \<open>
  \<open>tooluseproxy_hook_watchdog.py\<close>: the process that the agent really starts. It runs the Hook as a
  child with a time limit and passes the child's answer on; before a tool call it passes on nothing
  but an empty object or a denial, and denies when the child did not end well. The child, the parser
  and the text of the denial are parameters; times are milliseconds. \<open>run_child\<close> returns what is
  written to the standard output and the exit status.
\<close>

section \<open>The child\<close>

text \<open>\<open>wd_communicate\<close> is \<open>None\<close> when the time ran out, else the exit status and the output;
  \<open>wd_leave\<close> is the end of the \<open>with\<close> block.\<close>

record 'w child_env =
  wd_posix :: bool
  wd_popen :: "string list \<Rightarrow> 'w \<Rightarrow> nat res \<times> 'w"
  wd_communicate :: "nat \<Rightarrow> int \<Rightarrow> 'w \<Rightarrow> (int \<times> bytes) option res \<times> 'w"
  wd_kill_group :: "nat \<Rightarrow> 'w \<Rightarrow> unit res \<times> 'w"
  wd_kill :: "nat \<Rightarrow> 'w \<Rightarrow> unit res \<times> 'w"
  wd_reap :: "nat \<Rightarrow> 'w \<Rightarrow> unit res \<times> 'w"
  wd_leave :: "nat \<Rightarrow> 'w \<Rightarrow> unit res \<times> 'w"
  wd_loads :: "bytes \<Rightarrow> json res"
  wd_sentence :: "string \<Rightarrow> string"

definition PRE_TOOL_CHILD_TIMEOUT :: int where "PRE_TOOL_CHILD_TIMEOUT = 720000"

definition stop_child :: "'w child_env \<Rightarrow> nat \<Rightarrow> ('w, unit) act" where
  "stop_child e pid =
     (if wd_posix e
      then attempt (wd_kill_group e pid) (\<lambda>x. if x = OSError ''ProcessLookupError'' then ret () else raise x)
      else wd_kill e pid)"

definition child_output :: "'w child_env \<Rightarrow> string list \<Rightarrow> int \<Rightarrow> ('w, int \<times> bytes) act" where
  "child_output e command limit =
     bind (wd_popen e command) (\<lambda>pid.
       ensure
         (bind (wd_communicate e pid limit) (\<lambda>r. case r of
              Some completed \<Rightarrow> ret completed
            | None \<Rightarrow> bind (stop_child e pid) (\<lambda>u. bind (wd_reap e pid) (\<lambda>u. raise (OtherError ''TimeoutExpired'')))))
         (wd_leave e pid))"

section \<open>The answer\<close>

definition pending_json :: "'w child_env \<Rightarrow> string \<Rightarrow> string \<Rightarrow> dict" where
  "pending_json e phase reason =
     (if phase = ''pre-tool-use''
      then [(''hookSpecificOutput'', JObj [(''hookEventName'', JStr ''PreToolUse''), (''permissionDecision'', JStr ''deny''),
             (''permissionDecisionReason'', JStr (wd_sentence e reason))])]
      else [])"

definition pending_output :: "'w child_env \<Rightarrow> string \<Rightarrow> string \<Rightarrow> bytes \<times> int" where
  "pending_output e phase reason = (utf8 (dumps False False (JObj (pending_json e phase reason)) @ [char_of (10::nat)]), 0)"

definition start_problem :: "exn \<Rightarrow> string option" where
  "start_problem x = (case x of
       OSError c \<Rightarrow> Some ''semantic_start_failed''
     | OtherError c \<Rightarrow> if c = ''TimeoutExpired'' then Some ''semantic_watchdog_timeout'' else None
     | _ \<Rightarrow> None)"

definition is_denial :: "json \<Rightarrow> bool" where
  "is_denial v \<longleftrightarrow> (case v of
       JObj d \<Rightarrow> (case map_of d ''hookSpecificOutput'' of
           Some (JObj details) \<Rightarrow>
             dget details ''hookEventName'' = JStr ''PreToolUse'' \<and> dget details ''permissionDecision'' = JStr ''deny''
         | _ \<Rightarrow> False)
     | _ \<Rightarrow> False)"

text \<open>Of the errors of \<open>json.loads\<close>, those that are \<open>ValueError\<close>s make the answer invalid. A missing
  field, or one that is not an object, is one of the other errors that are caught.\<close>

definition valid_response :: "'w child_env \<Rightarrow> bytes \<Rightarrow> bool res" where
  "valid_response e out = (case wd_loads e out of
       Inl x \<Rightarrow> if is_value_error x then Inr False else Inl x
     | Inr (JObj d) \<Rightarrow> Inr (d = [] \<or> is_denial (JObj d))
     | Inr v \<Rightarrow> Inr False)"

definition run_child :: "'w child_env \<Rightarrow> string list \<Rightarrow> string \<Rightarrow> int \<Rightarrow> ('w, bytes \<times> int) act" where
  "run_child e command phase limit =
     bind (attempt (bind (child_output e command limit) (\<lambda>c. ret (Inr c)))
             (\<lambda>x. case start_problem x of Some reason \<Rightarrow> ret (Inl reason) | None \<Rightarrow> raise x)) (\<lambda>r. case r of
         Inl reason \<Rightarrow> ret (pending_output e phase reason)
       | Inr (status, out) \<Rightarrow>
           if phase \<noteq> ''pre-tool-use'' then ret (out, status)
           else if status \<noteq> 0 then ret (pending_output e phase ''semantic_child_failed'')
           else bind (pure (valid_response e out)) (\<lambda>valid.
                  ret (if valid then (out, status) else pending_output e phase ''semantic_child_invalid_response'')))"

definition watchdog_main :: "'w child_env \<Rightarrow> string \<Rightarrow> string \<Rightarrow> string list \<Rightarrow> ('w, bytes \<times> int) act" where
  "watchdog_main e python root arguments =
     (if length arguments \<noteq> 3 \<or> arguments ! 1 \<noteq> ''--data-dir'' then ret ([], 2)
      else run_child e ([python, path_join root ''tooluseproxy_plugin.py'', ''hook''] @ arguments) (arguments ! 0) PRE_TOOL_CHILD_TIMEOUT)"

section \<open>What reaches the agent\<close>

lemma pending_is_denial: "is_denial (JObj (pending_json e ''pre-tool-use'' reason))"
  by (simp add: is_denial_def pending_json_def dget_or_def)

lemma valid_response_cases:
  assumes "valid_response e out = Inr True"
  shows "\<exists>v. wd_loads e out = Inr v \<and> (v = JObj [] \<or> is_denial v)"
  using assms by (auto simp: valid_response_def split: sum.splits json.splits if_splits)

lemma child_output_communicates:
  assumes "child_output e command limit w = (Inr (status, out), w')"
  shows "\<exists>pid v v'. wd_communicate e pid limit v = (Inr (Some (status, out)), v')"
  using assms unfolding child_output_def
  by (auto simp: bind_Inr ensure_Inr ret_Inr raise_Inr split: option.splits) blast

text \<open>C9. The watchdog fails closed. What it hands to the agent before a tool call, with status 0, is
  either a denial it made itself, or the output of a child that ended within the time limit with
  status 0 and printed either the empty object or a denial; a child that fails, hangs, cannot be
  started or prints anything else never lets the call run.\<close>

theorem watchdog_fails_closed:
  assumes "run_child e command ''pre-tool-use'' limit w = (Inr (out, status), w')"
  shows "status = 0 \<and>
    ((\<exists>reason. out = utf8 (dumps False False (JObj (pending_json e ''pre-tool-use'' reason)) @ [char_of (10::nat)]) \<and>
               is_denial (JObj (pending_json e ''pre-tool-use'' reason))) \<or>
     (\<exists>pid v v' answer. wd_communicate e pid limit v = (Inr (Some (0, out)), v') \<and> wd_loads e out = Inr answer \<and>
               (answer = JObj [] \<or> is_denial answer)))"
proof -
  from assms obtain r w1 where
    a: "attempt (bind (child_output e command limit) (\<lambda>c. ret (Inr c)))
          (\<lambda>x. case start_problem x of Some reason \<Rightarrow> ret (Inl reason) | None \<Rightarrow> raise x) w = (Inr r, w1)" and
    b: "(case r of
         Inl reason \<Rightarrow> ret (pending_output e ''pre-tool-use'' reason)
       | Inr (status, out) \<Rightarrow>
           if ''pre-tool-use'' \<noteq> ''pre-tool-use'' then ret (out, status)
           else if status \<noteq> 0 then ret (pending_output e ''pre-tool-use'' ''semantic_child_failed'')
           else bind (pure (valid_response e out)) (\<lambda>valid.
                  ret (if valid then (out, status) else pending_output e ''pre-tool-use'' ''semantic_child_invalid_response''))) w1 = (Inr (out, status), w')"
    unfolding run_child_def bind_Inr by blast
  show ?thesis
  proof (cases r)
    case (Inl reason)
    then show ?thesis using b pending_is_denial by (auto simp: ret_Inr pending_output_def)
  next
    case (Inr c)
    obtain st o' where c: "c = (st, o')" by (cases c)
    have child: "\<exists>pid v v'. wd_communicate e pid limit v = (Inr (Some (st, o')), v')"
      using a Inr c child_output_communicates
      by (auto simp: attempt_Inr bind_Inr ret_Inr raise_Inr split: option.splits)
    show ?thesis
    proof (cases "st = 0")
      case False
      then show ?thesis using b Inr c pending_is_denial by (auto simp: ret_Inr pending_output_def)
    next
      case True
      then obtain valid where v: "valid_response e o' = Inr valid"
        "(out, status) = (if valid then (o', st) else pending_output e ''pre-tool-use'' ''semantic_child_invalid_response'')"
        using b Inr c by (auto simp: bind_Inr pure_Inr ret_Inr)
      then show ?thesis using True child valid_response_cases [of e o'] pending_is_denial
        by (cases valid) (auto simp: pending_output_def)
    qed
  qed
qed

text \<open>A child that lets the call run.\<close>

definition calm_child :: "unit child_env" where
  "calm_child = \<lparr>wd_posix = True, wd_popen = (\<lambda>c w. (Inr 9, w)), wd_communicate = (\<lambda>pid limit w. (Inr (Some (0, ''{}'')), w)),
     wd_kill_group = (\<lambda>pid w. (Inr (), w)), wd_kill = (\<lambda>pid w. (Inr (), w)), wd_reap = (\<lambda>pid w. (Inr (), w)),
     wd_leave = (\<lambda>pid w. (Inr (), w)), wd_loads = (\<lambda>b. if b = ''{}'' then Inr (JObj []) else Inl (ValueError ''JSONDecodeError'')),
     wd_sentence = (\<lambda>r. r)\<rparr>"

text \<open>A child that hangs, in the same environment otherwise.\<close>

definition hanging_child :: "unit child_env" where
  "hanging_child = calm_child\<lparr>wd_communicate := (\<lambda>pid limit w. (Inr None, w))\<rparr>"

lemma calm_child_passes: "run_child calm_child [''python''] ''pre-tool-use'' 720000 () = (Inr (''{}'', 0), ())"
  by code_simp

lemma hanging_child_is_denied:
  "run_child hanging_child [''python''] ''pre-tool-use'' 720000 () =
     (Inr (pending_output hanging_child ''pre-tool-use'' ''semantic_watchdog_timeout''), ())"
  by (simp add: run_child_def child_output_def hanging_child_def calm_child_def stop_child_def start_problem_def act_simps ensure_def)

theorem watchdog_fails_closed_witness:
  "run_child calm_child [''python''] ''pre-tool-use'' 720000 () = (Inr (''{}'', 0), ()) \<and> (0::int) = 0 \<and>
    ((\<exists>reason. ''{}'' = utf8 (dumps False False (JObj (pending_json calm_child ''pre-tool-use'' reason)) @ [char_of (10::nat)]) \<and>
               is_denial (JObj (pending_json calm_child ''pre-tool-use'' reason))) \<or>
     (\<exists>pid v v' answer. wd_communicate calm_child pid 720000 v = (Inr (Some (0, ''{}'')), v') \<and> wd_loads calm_child ''{}'' = Inr answer \<and>
               (answer = JObj [] \<or> is_denial answer)))"
  using watchdog_fails_closed [OF calm_child_passes] calm_child_passes by (intro conjI) blast+

end
