(* ===== verification/Viewer.thy ===== *)
theory Viewer
  imports Runtime
begin

text \<open>
  \<open>viewer_process.py\<close>, \<open>issued_viewer_open\<close>: the one call that passes without an inspection opens
  the local viewer that this program issued for the workspace. The request must have exactly the
  shape of that call, its address must be the one in the status file of the viewer, which only the
  user can have written, and a server on the loopback interface must answer as the viewer does.
  \<open>urllib.parse.urlsplit\<close> is written out for what is used of it. File access and the HTTP exchange
  are environment steps.
\<close>

section \<open>Addresses\<close>

record url =
  u_scheme :: string
  u_netloc :: string
  u_path :: string
  u_query :: string
  u_fragment :: string

definition before :: "char \<Rightarrow> string \<Rightarrow> string" where
  "before c s = takeWhile (\<lambda>x. x \<noteq> c) s"

definition after :: "char \<Rightarrow> string \<Rightarrow> string" where
  "after c s = drop 1 (dropWhile (\<lambda>x. x \<noteq> c) s)"

definition alpha :: "char \<Rightarrow> bool" where
  "alpha c \<longleftrightarrow> alnum c \<and> \<not> digit c"

definition scheme_and_rest :: "string \<Rightarrow> string \<times> string" where
  "scheme_and_rest s =
     (let name = before CHR '':'' s
      in if CHR '':'' \<in> set s \<and> name \<noteq> [] \<and> alpha (hd name) \<and> list_all (\<lambda>c. alnum c \<or> c \<in> set ''+-.'') name
         then (lower name, after CHR '':'' s) else ([], s))"

text \<open>A host in brackets is an IPv6 address or an error; neither is the loopback name that is asked for,
  and both are reported as the error here.\<close>

definition split_url :: "string \<Rightarrow> url res" where
  "split_url s =
     (let s = filter (\<lambda>c. (of_char c :: nat) \<notin> {9, 10, 13}) (dropWhile (\<lambda>c. (of_char c :: nat) \<le> 32) s);
          (scheme, rest) = scheme_and_rest s;
          (netloc, rest) =
            (if starts_with ''//'' rest
             then (takeWhile (\<lambda>c. c \<notin> set ''/?#'') (drop 2 rest), dropWhile (\<lambda>c. c \<notin> set ''/?#'') (drop 2 rest))
             else ([], rest))
      in if CHR ''['' \<in> set netloc \<or> CHR '']'' \<in> set netloc then Inl (ValueError ''Invalid IPv6 URL'')
         else Inr \<lparr>u_scheme = scheme, u_netloc = netloc, u_path = before CHR ''?'' (before CHR ''#'' rest),
                   u_query = after CHR ''?'' (before CHR ''#'' rest), u_fragment = after CHR ''#'' rest\<rparr>)"

definition host_part :: "url \<Rightarrow> string" where
  "host_part u = rev (before CHR ''@'' (rev (u_netloc u)))"

definition has_user :: "url \<Rightarrow> bool" where
  "has_user u \<longleftrightarrow> CHR ''@'' \<in> set (u_netloc u)"

definition hostname :: "url \<Rightarrow> string option" where
  "hostname u =
     (let h = before CHR '':'' (host_part u)
      in if h = [] then None else Some (lower (before CHR ''%'' h) @ dropWhile (\<lambda>c. c \<noteq> CHR ''%'') h))"

definition url_port :: "url \<Rightarrow> nat option res" where
  "url_port u =
     (let p = after CHR '':'' (host_part u)
      in if p = [] then Inr None
         else if \<not> list_all digit p then Inl (ValueError ''Port could not be cast to integer value'')
         else if 65535 < digits_value p then Inl (ValueError ''Port out of range 0-65535'')
         else Inr (Some (digits_value p)))"

section \<open>The request\<close>

definition requested_url :: "json \<Rightarrow> json \<Rightarrow> string option" where
  "requested_url name input =
     (case input of
        JObj d \<Rightarrow>
          if name \<noteq> JStr ''mcp__codex_app__open_in_codex'' then None
          else if \<not> set (map fst d) \<subseteq> {''target'', ''placement''} then None
          else if dget d ''placement'' \<notin> {JNull, JStr ''right'', JStr ''bottom''} then None
          else (case dget d ''target'' of
              JObj t \<Rightarrow>
                if \<not> keys_are [''type'', ''url''] t \<or> dget t ''type'' \<noteq> JStr ''browser'' then None
                else (case dget t ''url'' of JStr u \<Rightarrow> Some u | _ \<Rightarrow> None)
            | _ \<Rightarrow> None)
      | _ \<Rightarrow> None)"

section \<open>The status file\<close>

text \<open>\<open>vw_lstat\<close> gives owner, mode and size, \<open>vw_read\<close> the parsed text; \<open>vw_get\<close> asks the port of
  \<open>127.0.0.1\<close> for a path and gives the status and the header \<open>X-ToolUseProxy-Viewer\<close>.\<close>

record 'w viewer_env =
  vw_hash :: hash
  vw_state_dir :: string
  vw_uid :: int
  vw_lstat :: "string \<Rightarrow> 'w \<Rightarrow> (int \<times> nat \<times> nat) res \<times> 'w"
  vw_is_link :: "string \<Rightarrow> 'w \<Rightarrow> bool res \<times> 'w"
  vw_is_file :: "string \<Rightarrow> 'w \<Rightarrow> bool res \<times> 'w"
  vw_read :: "string \<Rightarrow> 'w \<Rightarrow> json res \<times> 'w"
  vw_get :: "nat \<Rightarrow> string \<Rightarrow> 'w \<Rightarrow> (int \<times> string option) res \<times> 'w"

definition viewer_status :: "'w viewer_env \<Rightarrow> string \<Rightarrow> string" where
  "viewer_status e root = path_join (vw_state_dir e) (''viewer-'' @ digest (vw_hash e) (JStr root) @ ''.json'')"

text \<open>\<open>_urlsplit\<close> of a value that is no text only works on the empty ones, and then there is no address.\<close>

definition issued_parts :: "json \<Rightarrow> url option res" where
  "issued_parts v = (case v of
       JStr s \<Rightarrow> map_sum id Some (split_url s)
     | _ \<Rightarrow> if truthy v then Inl (OtherError ''AttributeError'') else Inr None)"

definition local_address :: "url \<Rightarrow> nat option res" where
  "local_address u =
     (if u_scheme u \<noteq> ''http'' \<or> hostname u \<noteq> Some ''127.0.0.1'' then Inr None
      else case url_port u of
          Inl x \<Rightarrow> Inl x
        | Inr None \<Rightarrow> Inr None
        | Inr (Some p) \<Rightarrow>
            if \<not> has_user u \<and> u_query u = [] \<and> u_fragment u = [] \<and> starts_with ''/'' (u_path u) \<and> 2 < length (u_path u)
            then Inr (Some p) else Inr None)"

definition issued_address :: "string \<Rightarrow> string \<Rightarrow> string \<Rightarrow> json \<Rightarrow> (nat \<times> string) option res" where
  "issued_address root ws url v =
     (case v of
        JObj record \<Rightarrow>
          (case issued_parts (dget record ''url'') of
             Inl x \<Rightarrow> Inl x
           | Inr None \<Rightarrow> Inr None
           | Inr (Some u) \<Rightarrow>
               if dget record ''status'' \<noteq> JStr ''ready'' \<or> dget record ''workspace_root'' \<noteq> JStr root \<or>
                   dget record ''workspace_id'' \<noteq> JStr ws \<or> dget record ''url'' \<noteq> JStr url
               then Inr None
               else map_sum id (map_option (\<lambda>p. (p, u_path u))) (local_address u))
      | _ \<Rightarrow> Inl (OtherError ''AttributeError''))"

definition viewer_error :: "exn \<Rightarrow> bool" where
  "viewer_error x \<longleftrightarrow> (case x of OSError c \<Rightarrow> True | TypeError m \<Rightarrow> True | _ \<Rightarrow> is_value_error x)"

definition answers_as_viewer :: "'w viewer_env \<Rightarrow> string \<Rightarrow> string \<Rightarrow> string \<Rightarrow> string \<Rightarrow> ('w, bool) act" where
  "answers_as_viewer e root ws url p =
     bind (vw_read e p) (\<lambda>v.
     bind (pure (issued_address root ws url v)) (\<lambda>address. case address of
         None \<Rightarrow> ret False
       | Some (port, path) \<Rightarrow>
           bind (vw_get e port path) (\<lambda>(status, header). ret (status = 200 \<and> header = Some ''v1''))))"

definition issued_viewer_open :: "'w viewer_env \<Rightarrow> string \<Rightarrow> string \<Rightarrow> json \<Rightarrow> json \<Rightarrow> ('w, bool) act" where
  "issued_viewer_open e root ws name input =
     (case requested_url name input of
        None \<Rightarrow> ret False
      | Some url \<Rightarrow>
          let p = viewer_status e root in
          attempt
            (bind (vw_lstat e p) (\<lambda>(uid, mode, size).
             bind (vw_is_link e p) (\<lambda>linked.
             bind (if linked then ret False else vw_is_file e p) (\<lambda>plain.
               if \<not> plain \<or> uid \<noteq> vw_uid e \<or> mode mod 64 \<noteq> 0 \<or> 8192 < size then ret False
               else answers_as_viewer e root ws url p))))
            (\<lambda>x. if viewer_error x then ret False else raise x))"

section \<open>A loopback address\<close>

lemma lower_plain:
  assumes "lower s = t" and "list_all (\<lambda>c. (of_char c :: nat) < 97) t"
  shows "s = t"
proof -
  have "map (\<lambda>c. let n = (of_char c :: nat) in if 65 \<le> n \<and> n \<le> 90 then char_of (n + 32) else c) s = t"
    using assms(1) by (simp add: lower_def)
  moreover have "(let n = (of_char c :: nat) in if 65 \<le> n \<and> n \<le> 90 then char_of (n + 32) else c) = c" if "c \<in> set s" for c
  proof (rule ccontr)
    let ?d = "let n = (of_char c :: nat) in if 65 \<le> n \<and> n \<le> 90 then char_of (n + 32) else c"
    assume "?d \<noteq> c"
    then have "65 \<le> (of_char c :: nat)" "(of_char c :: nat) \<le> 90" "?d = char_of (of_char c + 32 :: nat)"
      by (auto simp: Let_def split: if_splits)
    then have "97 \<le> (of_char ?d :: nat)" by simp
    moreover have "?d \<in> set t" using assms(1) that unfolding lower_def by auto
    ultimately show False using assms(2) by (auto simp: list_all_iff)
  qed
  ultimately show "s = t" by (metis (no_types, lifting) map_idI)
qed

lemma before_split: "c \<in> set s \<Longrightarrow> s = before c s @ c # after c s"
  unfolding before_def after_def by (induction s) auto

lemma after_nonempty: "after c s \<noteq> [] \<Longrightarrow> c \<in> set s"
  unfolding after_def by (induction s) (auto split: if_splits)

lemma before_all: "c \<notin> set s \<Longrightarrow> before c s = s"
  unfolding before_def by (simp add: takeWhile_eq_all_conv) blast

text \<open>An accepted address names the loopback interface literally, with a decimal port.\<close>

lemma local_address_literal:
  assumes "local_address u = Inr (Some p)"
  shows "u_scheme u = ''http'' \<and> u_query u = [] \<and> u_fragment u = [] \<and> starts_with ''/'' (u_path u) \<and>
    (\<exists>digits. u_netloc u = ''127.0.0.1:'' @ digits \<and> digits \<noteq> [] \<and> list_all digit digits \<and> digits_value digits = p \<and> p \<le> 65535)"
proof -
  from assms have a: "u_scheme u = ''http''" "hostname u = Some ''127.0.0.1''" "url_port u = Inr (Some p)" "\<not> has_user u"
    "u_query u = []" "u_fragment u = []" "starts_with ''/'' (u_path u)"
    by (auto simp: local_address_def split: if_splits sum.splits option.splits)
  have n: "host_part u = u_netloc u"
    using a(4) by (simp add: host_part_def has_user_def before_all)
  let ?h = "before CHR '':'' (u_netloc u)" and ?p = "after CHR '':'' (u_netloc u)"
  have h: "lower (before CHR ''%'' ?h) @ dropWhile (\<lambda>c. c \<noteq> CHR ''%'') ?h = ''127.0.0.1''"
    using a(2) n by (auto simp: hostname_def Let_def split: if_splits)
  have "list_all (\<lambda>c. (of_char c :: nat) < 97) (lower (before CHR ''%'' ?h) @ dropWhile (\<lambda>c. c \<noteq> CHR ''%'') ?h)"
    unfolding h by simp
  then have "lower (before CHR ''%'' ?h) = before CHR ''%'' ?h" using lower_plain [of "before CHR ''%'' ?h"] by simp
  then have host: "?h = ''127.0.0.1''"
    using h by (simp add: before_def)
  have p: "?p \<noteq> []" "list_all digit ?p" "digits_value ?p = p" "p \<le> 65535"
    using a(3) n by (auto simp: url_port_def Let_def split: if_splits)
  have "CHR '':'' \<in> set (u_netloc u)"
    by (rule after_nonempty [OF p(1)])
  from before_split [OF this] host have "u_netloc u = ''127.0.0.1:'' @ ?p" by simp
  with a p show ?thesis by blast
qed

lemma requested_url_shape:
  assumes "requested_url name input = Some url"
  shows "name = JStr ''mcp__codex_app__open_in_codex'' \<and>
    (\<exists>d t. input = JObj d \<and> set (map fst d) \<subseteq> {''target'', ''placement''} \<and> dget d ''target'' = JObj t \<and>
       keys_are [''type'', ''url''] t \<and> dget t ''type'' = JStr ''browser'' \<and> dget t ''url'' = JStr url)"
  using assms by (auto simp: requested_url_def split: json.splits if_splits)

lemma issued_address_matches:
  assumes "issued_address root ws url v = Inr (Some (p, path))"
  shows "\<exists>record u. v = JObj record \<and> dget record ''status'' = JStr ''ready'' \<and> dget record ''workspace_root'' = JStr root \<and>
    dget record ''workspace_id'' = JStr ws \<and> dget record ''url'' = JStr url \<and> split_url url = Inr u \<and>
    local_address u = Inr (Some p) \<and> u_path u = path"
proof -
  from assms obtain st u where r: "v = JObj st" "issued_parts (dget st ''url'') = Inr (Some u)"
    "dget st ''status'' = JStr ''ready''" "dget st ''workspace_root'' = JStr root"
    "dget st ''workspace_id'' = JStr ws" "dget st ''url'' = JStr url"
    and l: "map_sum id (map_option (\<lambda>p. (p, u_path u))) (local_address u) = Inr (Some (p, path))"
    by (auto simp: issued_address_def split: json.splits sum.splits option.splits if_splits)
  from r(2,6) have "split_url url = Inr u" by (cases "split_url url") (auto simp: issued_parts_def)
  moreover from l have "local_address u = Inr (Some p) \<and> u_path u = path" by (cases "local_address u") auto
  ultimately show ?thesis using r by blast
qed

lemma issued_viewer_facts:
  assumes "issued_viewer_open e root ws name input w = (Inr True, w')"
  shows "\<exists>url d t record u p digits mode size w1 w2 w3 w4 w5 w6 w7 w8.
    name = JStr ''mcp__codex_app__open_in_codex'' \<and> input = JObj d \<and> set (map fst d) \<subseteq> {''target'', ''placement''} \<and>
    dget d ''target'' = JObj t \<and> keys_are [''type'', ''url''] t \<and> dget t ''url'' = JStr url \<and>
    vw_lstat e (viewer_status e root) w1 = (Inr (vw_uid e, mode, size), w2) \<and> mode mod 64 = 0 \<and> size \<le> 8192 \<and>
    vw_is_link e (viewer_status e root) w2 = (Inr False, w3) \<and> vw_is_file e (viewer_status e root) w3 = (Inr True, w4) \<and>
    vw_read e (viewer_status e root) w5 = (Inr (JObj record), w6) \<and> dget record ''status'' = JStr ''ready'' \<and>
    dget record ''workspace_root'' = JStr root \<and> dget record ''workspace_id'' = JStr ws \<and> dget record ''url'' = JStr url \<and>
    split_url url = Inr u \<and> u_scheme u = ''http'' \<and> u_netloc u = ''127.0.0.1:'' @ digits \<and> list_all digit digits \<and>
    digits_value digits = p \<and> u_query u = [] \<and> u_fragment u = [] \<and>
    vw_get e p (u_path u) w7 = (Inr (200, Some ''v1''), w8)"
proof -
  let ?p = "viewer_status e root"
  from assms obtain url where url: "requested_url name input = Some url"
    by (cases "requested_url name input") (auto simp: issued_viewer_open_def ret_Inr)
  with assms have m: "(bind (vw_lstat e ?p) (\<lambda>(uid, mode, size).
             bind (vw_is_link e ?p) (\<lambda>linked.
             bind (if linked then ret False else vw_is_file e ?p) (\<lambda>plain.
               if \<not> plain \<or> uid \<noteq> vw_uid e \<or> mode mod 64 \<noteq> 0 \<or> 8192 < size then ret False
               else answers_as_viewer e root ws url ?p)))) w = (Inr True, w')"
    by (auto simp: issued_viewer_open_def Let_def attempt_Inr ret_Inr raise_Inr split: if_splits)
  from m obtain uid mode size w2 linked w3 plain w4 where
    f: "vw_lstat e ?p w = (Inr (uid, mode, size), w2)" "vw_is_link e ?p w2 = (Inr linked, w3)"
       "(if linked then ret False else vw_is_file e ?p) w3 = (Inr plain, w4)" and
    g: "(if \<not> plain \<or> uid \<noteq> vw_uid e \<or> mode mod 64 \<noteq> 0 \<or> 8192 < size then ret False
               else answers_as_viewer e root ws url ?p) w4 = (Inr True, w')"
    by (auto simp: bind_Inr)
  from g have c: "plain" "uid = vw_uid e" "mode mod 64 = 0" "size \<le> 8192" and a: "answers_as_viewer e root ws url ?p w4 = (Inr True, w')"
    by (auto simp: ret_Inr split: if_splits)
  from f(3) c(1) have l: "\<not> linked" "vw_is_file e ?p w3 = (Inr True, w4)" by (auto simp: ret_Inr split: if_splits)
  from a obtain v w5 p path w6 where r: "vw_read e ?p w4 = (Inr v, w5)" "issued_address root ws url v = Inr (Some (p, path))"
    "vw_get e p path w6 = (Inr (200, Some ''v1''), w')"
    by (auto simp: answers_as_viewer_def bind_Inr pure_Inr ret_Inr split: option.splits)
  from issued_address_matches [OF r(2)] obtain st u where s: "v = JObj st" "dget st ''status'' = JStr ''ready''"
    "dget st ''workspace_root'' = JStr root" "dget st ''workspace_id'' = JStr ws" "dget st ''url'' = JStr url"
    "split_url url = Inr u" "local_address u = Inr (Some p)" "u_path u = path" by blast
  from local_address_literal [OF s(7)] obtain digits where d: "u_scheme u = ''http''" "u_query u = []" "u_fragment u = []"
    "u_netloc u = ''127.0.0.1:'' @ digits" "list_all digit digits" "digits_value digits = p" by blast
  from requested_url_shape [OF url] obtain d t where q: "name = JStr ''mcp__codex_app__open_in_codex''" "input = JObj d"
    "set (map fst d) \<subseteq> {''target'', ''placement''}" "dget d ''target'' = JObj t" "keys_are [''type'', ''url''] t"
    "dget t ''url'' = JStr url" by blast
  have f: "vw_lstat e ?p w = (Inr (vw_uid e, mode, size), w2)" "vw_is_link e ?p w2 = (Inr False, w3)"
    using f(1,2) c(2) l(1) by simp_all
  have r: "vw_read e ?p w4 = (Inr (JObj st), w5)" "vw_get e p (u_path u) w6 = (Inr (200, Some ''v1''), w')"
    using r(1,3) s(1,8) by simp_all
  show ?thesis
    by (rule exI [of _ url], rule exI [of _ d], rule exI [of _ t], rule exI [of _ st], rule exI [of _ u], rule exI [of _ p],
        rule exI [of _ digits], rule exI [of _ mode], rule exI [of _ size], rule exI [of _ w], rule exI [of _ w2], rule exI [of _ w3],
        rule exI [of _ w4], rule exI [of _ w4], rule exI [of _ w5], rule exI [of _ w6], rule exI [of _ w'], intro conjI)
      (rule q f c(3,4) l(2) r s(2-6) d)+
qed

text \<open>C13. The one call that passes without an inspection only opens the viewer of this workspace. If
  issued_viewer_open accepts a call, then it is the call that opens a browser address, with nothing
  else in it; the status file for the workspace is a regular file, no link, owned by the user and closed
  to everybody else; it records, for this workspace, exactly the address that was asked for; the address
  names 127.0.0.1 literally with a decimal port, without user, query or fragment; and the server on
  that port answered as the viewer does.\<close>

theorem issued_viewer_is_local:
  assumes "issued_viewer_open e root ws name input w = (Inr True, w')"
  shows "\<exists>url d t record u p digits mode size w1 w2 w3 w4 w5 w6 w7 w8.
    name = JStr ''mcp__codex_app__open_in_codex'' \<and> input = JObj d \<and> set (map fst d) \<subseteq> {''target'', ''placement''} \<and>
    dget d ''target'' = JObj t \<and> keys_are [''type'', ''url''] t \<and> dget t ''url'' = JStr url \<and>
    vw_lstat e (viewer_status e root) w1 = (Inr (vw_uid e, mode, size), w2) \<and> mode mod 64 = 0 \<and> size \<le> 8192 \<and>
    vw_is_link e (viewer_status e root) w2 = (Inr False, w3) \<and> vw_is_file e (viewer_status e root) w3 = (Inr True, w4) \<and>
    vw_read e (viewer_status e root) w5 = (Inr (JObj record), w6) \<and> dget record ''status'' = JStr ''ready'' \<and>
    dget record ''workspace_root'' = JStr root \<and> dget record ''workspace_id'' = JStr ws \<and> dget record ''url'' = JStr url \<and>
    split_url url = Inr u \<and> u_scheme u = ''http'' \<and> u_netloc u = ''127.0.0.1:'' @ digits \<and> list_all digit digits \<and>
    digits_value digits = p \<and> u_query u = [] \<and> u_fragment u = [] \<and>
    vw_get e p (u_path u) w7 = (Inr (200, Some ''v1''), w8)"
  by (rule issued_viewer_facts [OF assms])

text \<open>The Hook asks exactly this function: with it as the answer of the environment, a call that passes as
  the issued viewer is the call that opens the recorded address.\<close>

definition viewing :: "'w viewer_env \<Rightarrow> 'w runtime_env \<Rightarrow> 'w runtime_env" where
  "viewing v e = e\<lparr>rx_viewer := issued_viewer_open v\<rparr>"

lemma passing_viewer_call:
  assumes "issued_viewer (viewing v e) ev True s t"
  shows "dget (he_payload ev) ''tool_name'' = JStr ''mcp__codex_app__open_in_codex'' \<and>
    (\<exists>url record w w'. requested_url (dget (he_payload ev) ''tool_name'') (dget (he_payload ev) ''tool_input'') = Some url \<and>
       vw_read v (viewer_status v (he_root ev)) w = (Inr (JObj record), w') \<and> dget record ''url'' = JStr url \<and>
       dget record ''workspace_id'' = JStr (he_workspace ev))"
proof -
  from assms obtain w w' where o: "issued_viewer_open v (he_root ev) (he_workspace ev) (dget (he_payload ev) ''tool_name'')
      (dget (he_payload ev) ''tool_input'') w = (Inr True, w')"
    by (auto simp: issued_viewer_def viewing_def dest!: outer_Inr)
  from o obtain url where u: "requested_url (dget (he_payload ev) ''tool_name'') (dget (he_payload ev) ''tool_input'') = Some url"
    by (cases "requested_url (dget (he_payload ev) ''tool_name'') (dget (he_payload ev) ''tool_input'')") (auto simp: issued_viewer_open_def ret_Inr)
  from requested_url_shape [OF u] issued_viewer_facts [OF o] u show ?thesis by (elim exE conjE) auto
qed

section \<open>Example\<close>

definition sample_status :: dict where
  "sample_status = [(''status'', JStr ''ready''), (''url'', JStr ''http://127.0.0.1:80/t/''), (''workspace_root'', JStr ''/w''),
     (''workspace_id'', JStr ''ws'')]"

definition sample_viewer :: "unit viewer_env" where
  "sample_viewer = \<lparr>vw_hash = (\<lambda>b. ''k''), vw_state_dir = ''/s'', vw_uid = 501, vw_lstat = (\<lambda>p w. (Inr (501, 33152, 100), w)),
     vw_is_link = (\<lambda>p w. (Inr False, w)), vw_is_file = (\<lambda>p w. (Inr True, w)), vw_read = (\<lambda>p w. (Inr (JObj sample_status), w)),
     vw_get = (\<lambda>n p w. (Inr (if n = 80 \<and> p = ''/t/'' then 200 else 404, Some ''v1''), w))\<rparr>"

definition sample_open :: json where
  "sample_open = JObj [(''target'', JObj [(''type'', JStr ''browser''), (''url'', JStr ''http://127.0.0.1:80/t/'')])]"

lemma sample_viewer_opens:
  "issued_viewer_open sample_viewer ''/w'' ''ws'' (JStr ''mcp__codex_app__open_in_codex'') sample_open () = (Inr True, ())"
  by code_simp

lemma other_host_is_refused:
  "issued_viewer_open sample_viewer ''/w'' ''ws'' (JStr ''mcp__codex_app__open_in_codex'')
     (JObj [(''target'', JObj [(''type'', JStr ''browser''), (''url'', JStr ''http://127.0.0.1:80@evil/t/'')])]) () = (Inr False, ())"
  by code_simp

theorem issued_viewer_is_local_witness:
  "\<exists>u p digits w7 w8. split_url ''http://127.0.0.1:80/t/'' = Inr u \<and> u_netloc u = ''127.0.0.1:'' @ digits \<and> digits_value digits = p \<and>
     vw_get sample_viewer p (u_path u) w7 = (Inr (200, Some ''v1''), w8)"
  using issued_viewer_is_local [OF sample_viewer_opens] by (auto simp: sample_open_def dget_or_def)

end
