(* ===== verification/Graph_View.thy ===== *)
theory Graph_View
  imports Runtime Jobs
begin

text \<open>
  \<open>graph_view.py\<close>: the projection of the recorded provenance that is shown to the user. From the
  revision that was checked for a ToolCall, the pinned parents are followed breadth first, within
  the workspace and within budgets, and the result says whether anything was left out. Tables that
  were never created are empty. The time of recording, which only this projection reads, is a
  column of its own here.
\<close>

section \<open>What is shown\<close>

record graph_node =
  gn_id :: string
  gn_node :: string
  gn_event :: string
  gn_session :: string
  gn_tool :: json
  gn_time :: json
  gn_complete :: bool
  gn_accesses :: "(string \<times> string \<times> bool) list"
  gn_versions :: "(string \<times> string \<times> string) list"
  gn_scope :: string

record shown_graph =
  sh_nodes :: "graph_node list"
  sh_edges :: "(string \<times> string) list"
  sh_checks :: "(string \<times> string \<times> string) list"
  sh_judgments :: "(string \<times> string \<times> nat \<times> bool) list"
  sh_needs :: "string list"
  sh_jobs :: "(string \<times> string) list"
  sh_truncated :: bool
  sh_state :: string

text \<open>The tables of one database.\<close>

record sources =
  gs_events :: "event_row list"
  gs_times :: "string \<Rightarrow> json"
  gs_sem :: sem_db
  gs_pending :: pend_db
  gs_needs :: "need_row list"
  gs_jobs :: "job_row list"
  gs_graph :: graph_db
  gs_files :: "file_row list"

definition nothing_shown :: shown_graph where
  "nothing_shown = \<lparr>sh_nodes = [], sh_edges = [], sh_checks = [], sh_judgments = [], sh_needs = [], sh_jobs = [],
     sh_truncated = False, sh_state = ''not_analyzed''\<rparr>"

section \<open>Reading the tables\<close>

text \<open>The other events of the same ToolCall, newest first.\<close>

definition related :: "event_row list \<Rightarrow> event_row \<Rightarrow> string list" where
  "related evs r =
     (case (er_session r, er_tool_use r) of
        (Some session, Some call) \<Rightarrow>
          if session \<noteq> [] \<and> call \<noteq> []
          then map er_event (take 50 (rev (sort_key er_seq
                 (filter (\<lambda>x. er_workspace x = er_workspace r \<and> er_session x = Some session \<and> er_tool_use x = Some call) evs))))
          else [er_event r]
      | _ \<Rightarrow> [er_event r])"

definition last_match :: "('r \<Rightarrow> bool) \<Rightarrow> 'r list \<Rightarrow> 'r option" where
  "last_match p t = find p (rev t)"

definition in_workspace :: "graph_db \<Rightarrow> string \<Rightarrow> string \<Rightarrow> bool" where
  "in_workspace db scope rvn \<longleftrightarrow> list_ex (\<lambda>r. rv_rev r = rvn \<and> rv_ws r = scope) (g_revisions db)"

definition start_revision :: "graph_db \<Rightarrow> string \<Rightarrow> string list \<Rightarrow> string option" where
  "start_revision db scope evs =
     (case last_match (\<lambda>c. in_workspace db scope (ck_graph c) \<and> ck_event c \<in> set evs) (g_checks db) of
        Some c \<Rightarrow> Some (ck_graph c)
      | None \<Rightarrow> map_option rv_rev (last_match (\<lambda>r. rv_ws r = scope \<and> rv_event r \<in> set evs) (g_revisions db)))"

definition protected_paths :: "graph_db \<Rightarrow> string \<Rightarrow> json list" where
  "protected_paths db start =
     (case last_match (\<lambda>c. ck_graph c = start \<and> ck_policy c \<in> fst ` set (g_policies db)) (g_checks db) of
        None \<Rightarrow> []
      | Some c \<Rightarrow> (case map_of (g_policies db) (ck_policy c) of None \<Rightarrow> [] | Some srcs \<Rightarrow> map (\<lambda>s. dget s ''path'') srcs))"

definition parent_rows :: "graph_db \<Rightarrow> string \<Rightarrow> string \<Rightarrow> string list" where
  "parent_rows db scope rvn = filter (in_workspace db scope) (map lk_parent_rev (filter (\<lambda>l. lk_rev l = rvn) (g_links db)))"

section \<open>A node\<close>

fun selected_versions :: "json list \<Rightarrow> (json \<times> json) list res" where
  "selected_versions [] = Inr []"
| "selected_versions (JObj v # vs) =
     (case (fetch v ''path'', fetch v ''version'') of
        (Inr p, Inr q) \<Rightarrow> map_sum id ((#) (p, q)) (selected_versions vs)
      | (Inl x, _) \<Rightarrow> Inl x
      | (_, Inl x) \<Rightarrow> Inl x)"
| "selected_versions (v # vs) = Inl (TypeError ''indices must be integers'')"

definition shown_accesses :: "graph_db \<Rightarrow> json list \<Rightarrow> string \<Rightarrow> (string \<times> string \<times> bool) list" where
  "shown_accesses db paths rvn =
     map (\<lambda>a. (ac_path a, ac_mode a, ac_mode a = ''read'' \<and> JStr (ac_path a) \<in> set paths))
       (take 64 (filter (\<lambda>a. ac_rev a = rvn) (g_accesses db)))"

definition shown_versions :: "file_row list \<Rightarrow> string \<Rightarrow> string \<Rightarrow> (string \<times> string \<times> string) list" where
  "shown_versions files scope ev =
     map (\<lambda>f. (fo_path f, fo_version f, fo_mode f)) (take 64 (filter (\<lambda>f. fo_scope f = scope \<and> fo_event f = ev) files))"

definition make_node :: "sources \<Rightarrow> json list \<Rightarrow> revision_row \<Rightarrow> event_row \<Rightarrow> bool \<Rightarrow> bool \<Rightarrow> (string \<times> string \<times> string) list \<Rightarrow> graph_node" where
  "make_node gs paths r x output resources versions =
     \<lparr>gn_id = rv_rev r, gn_node = rv_node r, gn_event = rv_event r, gn_session = rv_sess r, gn_tool = er_tool_name x,
      gn_time = gs_times gs (rv_event r), gn_complete = (dget (rv_verdict r) ''complete'' = JBool True),
      gn_accesses = shown_accesses (gs_graph gs) paths (rv_rev r), gn_versions = versions,
      gn_scope = (if output \<and> resources then ''selected_values'' else if resources then ''selected_resources''
        else if output then ''selected_output'' else ''operation'')\<rparr>"

definition graph_node :: "sources \<Rightarrow> string \<Rightarrow> json list \<Rightarrow> string \<Rightarrow> graph_node option res" where
  "graph_node gs scope paths rvn =
     (case find (\<lambda>r. rv_ws r = scope \<and> rv_rev r = rvn) (g_revisions (gs_graph gs)) of
        None \<Rightarrow> Inr None
      | Some r \<Rightarrow>
          (case find (\<lambda>x. er_event x = rv_event r \<and> er_workspace x = rv_ws r) (gs_events gs) of
             None \<Rightarrow> Inr None
           | Some x \<Rightarrow>
               let output = list_ex (\<lambda>o'. fst o' = rvn) (g_outsel (gs_graph gs));
                   versions = shown_versions (gs_files gs) scope (rv_event r)
               in case map_of (g_ressel (gs_graph gs)) rvn of
                    None \<Rightarrow> Inr (Some (make_node gs paths r x output False versions))
                  | Some selection \<Rightarrow>
                      map_sum id (\<lambda>chosen. Some (make_node gs paths r x output True
                          (filter (\<lambda>(p, v, m). (JStr p, JStr v) \<in> set chosen) versions)))
                        (selected_versions (the_arr (snd selection)))))"

section \<open>The traversal\<close>

definition EDGES :: nat where "EDGES = 400"

fun add_parents :: "string list \<Rightarrow> string \<Rightarrow> string list \<Rightarrow> (string \<times> string) list \<Rightarrow> string list \<Rightarrow> (string \<times> string) list \<times> string list \<times> bool" where
  "add_parents seen rvn [] edges pending = (edges, pending, False)"
| "add_parents seen rvn (p # ps) edges pending =
     (if EDGES \<le> length edges then (edges, pending, True)
      else add_parents seen rvn ps (edges @ [(p, rvn)]) (if p \<in> set seen then pending else pending @ [p]))"

text \<open>The loop returns what is left to visit, the nodes, the edges, and whether anything was left out.\<close>

function follow :: "(string \<Rightarrow> graph_node option res) \<Rightarrow> (string \<Rightarrow> string list) \<Rightarrow> nat \<Rightarrow> string list \<Rightarrow> string list \<Rightarrow> graph_node list \<Rightarrow>
    (string \<times> string) list \<Rightarrow> bool \<Rightarrow> (string list \<times> graph_node list \<times> (string \<times> string) list \<times> bool) res" where
  "follow node parents limit [] seen nodes edges omitted = Inr ([], nodes, edges, omitted)"
| "follow node parents limit (rvn # pending) seen nodes edges omitted =
     (if limit \<le> length seen then Inr (rvn # pending, nodes, edges, omitted)
      else if rvn \<in> set seen then follow node parents limit pending seen nodes edges omitted
      else case node rvn of
          Inl x \<Rightarrow> Inl x
        | Inr None \<Rightarrow> follow node parents limit pending (rvn # seen) nodes edges True
        | Inr (Some n) \<Rightarrow>
            let (edges, pending, over) = add_parents (rvn # seen) rvn (parents rvn) edges pending
            in follow node parents limit pending (rvn # seen) (nodes @ [n]) edges (omitted \<or> over))"
  by pat_completeness auto
termination
  by (relation "measures [\<lambda>(node, parents, limit, pending, seen, r). limit - length seen, \<lambda>(node, parents, limit, pending, seen, r). length pending]")
    auto

definition NODES :: nat where "NODES = 200"

definition traverse :: "sources \<Rightarrow> string \<Rightarrow> string \<Rightarrow> nat \<Rightarrow> (string list \<times> graph_node list \<times> (string \<times> string) list \<times> bool) res" where
  "traverse gs scope start limit =
     follow (graph_node gs scope (protected_paths (gs_graph gs) start)) (\<lambda>r. take 401 (parent_rows (gs_graph gs) scope r)) limit [start] [] [] [] False"

text \<open>The lists beside the graph, and the graph put into them.\<close>

definition panels :: "sources \<Rightarrow> string \<Rightarrow> string list \<Rightarrow> shown_graph" where
  "panels gs scope evs = nothing_shown
     \<lparr>sh_checks := map (\<lambda>d. (o_action (sd_outcome d), o_reason (sd_outcome d), sd_event d))
          (filter (\<lambda>d. sd_ws d = scope \<and> sd_event d \<in> set evs) (sem_decisions (gs_sem gs))),
      sh_judgments := map (\<lambda>p. (pj_event p, pj_state p, pj_attempts p, pj_held p))
          (filter (\<lambda>p. pj_ws p = scope \<and> pj_event p \<in> set evs) (p_rows (gs_pending gs))),
      sh_needs := map ne_kind (take 50 (filter (\<lambda>n. ne_scope n = scope \<and> ne_event n \<in> set evs) (gs_needs gs))),
      sh_jobs := map (\<lambda>j. (jb_status j, jb_reason j)) (take 50 (filter (\<lambda>j. jb_scope j = scope \<and> jb_event j \<in> set evs) (gs_jobs gs)))\<rparr>"

definition drawn :: "shown_graph \<Rightarrow> string list \<times> graph_node list \<times> (string \<times> string) list \<times> bool \<Rightarrow> shown_graph" where
  "drawn base result =
     (case result of (left_over, nodes, edges, omitted) \<Rightarrow>
        base\<lparr>sh_nodes := nodes, sh_edges := filter (\<lambda>(p, r). p \<in> gn_id ` set nodes \<and> r \<in> gn_id ` set nodes) edges,
             sh_truncated := (omitted \<or> left_over \<noteq> []), sh_state := ''recorded''\<rparr>)"

definition graph_snapshot :: "sources \<Rightarrow> string \<Rightarrow> string option \<Rightarrow> nat \<Rightarrow> shown_graph res" where
  "graph_snapshot gs event workspace limit =
     (case event_by_id (gs_events gs) event of
        None \<Rightarrow> Inr nothing_shown
      | Some selected \<Rightarrow>
          if workspace \<noteq> None \<and> workspace \<noteq> Some (er_workspace selected) then Inr nothing_shown
          else
            let scope = er_workspace selected; evs = related (gs_events gs) selected
            in case start_revision (gs_graph gs) scope evs of
                 None \<Rightarrow> Inr (panels gs scope evs)
               | Some start \<Rightarrow> map_sum id (drawn (panels gs scope evs)) (traverse gs scope start limit))"

section \<open>What the projection shows\<close>

lemma add_parents_result:
  assumes "add_parents seen rvn ps edges pending = (edges', pending', over)"
  shows "\<exists>taken rest. ps = taken @ rest \<and> edges' = edges @ map (\<lambda>p. (p, rvn)) taken \<and>
    pending' = pending @ filter (\<lambda>p. p \<notin> set seen) taken \<and> (over \<longleftrightarrow> rest \<noteq> []) \<and> (length edges \<le> EDGES \<longrightarrow> length edges' \<le> EDGES)"
  using assms
proof (induction seen rvn ps edges pending rule: add_parents.induct)
  case (2 seen rvn p ps edges pending)
  show ?case
  proof (cases "EDGES \<le> length edges")
    case True
    with 2 show ?thesis by (intro exI [of _ "[]"] exI [of _ "p # ps"]) simp
  next
    case False
    with "2.prems" have "add_parents seen rvn ps (edges @ [(p, rvn)]) (if p \<in> set seen then pending else pending @ [p]) = (edges', pending', over)"
      by simp
    from "2.IH" [OF False this] obtain taken rest where "ps = taken @ rest"
      "edges' = (edges @ [(p, rvn)]) @ map (\<lambda>p. (p, rvn)) taken"
      "pending' = (if p \<in> set seen then pending else pending @ [p]) @ filter (\<lambda>p. p \<notin> set seen) taken"
      "over \<longleftrightarrow> rest \<noteq> []" "length (edges @ [(p, rvn)]) \<le> EDGES \<longrightarrow> length edges' \<le> EDGES" by blast
    with False show ?thesis by (intro exI [of _ "p # taken"] exI [of _ rest]) auto
  qed
qed auto

text \<open>\<open>R\<close> is what may be shown: it holds the start and is closed under the parents. Nothing outside of
  it is shown, and if nothing was left out, everything that was seen is shown with all its edges.\<close>

definition view_inv :: "(string \<Rightarrow> string list) \<Rightarrow> nat \<Rightarrow> string set \<Rightarrow> string list \<Rightarrow> string list \<Rightarrow> graph_node list \<Rightarrow>
    (string \<times> string) list \<Rightarrow> bool \<Rightarrow> bool" where
  "view_inv parents limit R pending seen nodes edges omitted \<longleftrightarrow>
     set seen \<union> set pending \<subseteq> R \<and> distinct seen \<and> length seen \<le> limit \<and> length nodes \<le> length seen \<and>
     distinct (map gn_id nodes) \<and> set (map gn_id nodes) \<subseteq> set seen \<and> length edges \<le> EDGES \<and>
     (\<forall>(p, r) \<in> set edges. p \<in> set (parents r)) \<and>
     (\<not> omitted \<longrightarrow> set (map gn_id nodes) = set seen \<and>
        (\<forall>r \<in> set seen. length (parents r) \<le> length edges) \<and>
        (\<forall>r \<in> set seen. \<forall>p \<in> set (parents r). p \<in> set seen \<union> set pending \<and> (p, r) \<in> set edges))"

lemma view_inv_skip: "view_inv parents limit R (r # pending) seen nodes edges omitted \<Longrightarrow> r \<in> set seen \<Longrightarrow>
    view_inv parents limit R pending seen nodes edges omitted"
  by (auto simp: view_inv_def)

lemma view_inv_missing: "view_inv parents limit R (r # pending) seen nodes edges omitted \<Longrightarrow> r \<notin> set seen \<Longrightarrow> length seen < limit \<Longrightarrow>
    view_inv parents limit R pending (r # seen) nodes edges True"
  by (auto simp: view_inv_def)

lemma view_inv_shown:
  assumes i: "view_inv parents limit R (r # pending) seen nodes edges omitted" and fresh: "r \<notin> set seen" "length seen < limit"
    and n: "gn_id n = r" and a: "add_parents (r # seen) r (parents r) edges pending = (edges', pending', over)"
    and closed: "\<forall>r \<in> R. set (parents r) \<subseteq> R"
  shows "view_inv parents limit R pending' (r # seen) (nodes @ [n]) edges' (omitted \<or> over)"
proof -
  from add_parents_result [OF a] obtain taken rest where t: "parents r = taken @ rest" "edges' = edges @ map (\<lambda>p. (p, r)) taken"
    "pending' = pending @ filter (\<lambda>p. p \<notin> set (r # seen)) taken" "over \<longleftrightarrow> rest \<noteq> []" "length edges \<le> EDGES \<longrightarrow> length edges' \<le> EDGES"
    by blast
  have r: "r \<in> R" using i by (simp add: view_inv_def)
  then have "set (parents r) \<subseteq> R" using closed by blast
  then have R: "r \<in> R" "set taken \<subseteq> R" using r t(1) by simp_all
  have all: "\<forall>q \<in> set (r # seen). \<forall>p \<in> set (parents q). p \<in> set (r # seen) \<union> set pending' \<and> (p, q) \<in> set edges'"
    if "\<not> omitted" "\<not> over"
    using i that t fresh unfolding view_inv_def by fastforce
  have size: "\<forall>q \<in> set (r # seen). length (parents q) \<le> length edges'" if "\<not> omitted" "\<not> over"
    using i that t unfolding view_inv_def by auto
  have edges: "\<forall>(p, q) \<in> set edges'. p \<in> set (parents q)"
    using i t(1,2) unfolding view_inv_def by auto
  show ?thesis
    using i fresh n t(3,5) R all size edges unfolding view_inv_def by auto
qed

lemma follow_shows:
  assumes "follow node parents limit pending seen nodes edges omitted = Inr (left_over, nodes', edges', omitted')"
    and "view_inv parents limit R pending seen nodes edges omitted"
    and named: "\<forall>r n. node r = Inr (Some n) \<longrightarrow> gn_id n = r"
    and closed: "\<forall>r \<in> R. set (parents r) \<subseteq> R"
  shows "\<exists>seen'. view_inv parents limit R left_over seen' nodes' edges' omitted' \<and> set seen \<union> set pending \<subseteq> set seen' \<union> set left_over"
  using assms
proof (induction node parents limit pending seen nodes edges omitted rule: follow.induct)
  case (1 node parents limit seen nodes edges omitted)
  then show ?case by auto
next
  case (2 node parents limit r pending seen nodes edges omitted)
  note named = "2.prems"(3) and closed = "2.prems"(4)
  show ?case
  proof (cases "limit \<le> length seen")
    case True
    then have e: "left_over = r # pending" "nodes' = nodes" "edges' = edges" "omitted' = omitted" using "2.prems"(1) by simp_all
    show ?thesis unfolding e using "2.prems"(2) by blast
  next
    case room: False
    show ?thesis
    proof (cases "r \<in> set seen")
      case True
      with "2.prems"(1) room have "follow node parents limit pending seen nodes edges omitted = Inr (left_over, nodes', edges', omitted')"
        by simp
      from "2.IH"(1) [OF room True this view_inv_skip [OF "2.prems"(2) True] named closed] True show ?thesis by auto
    next
      case fresh: False
      have lt: "length seen < limit" using room by simp
      show ?thesis
      proof (cases "node r")
        case (Inl x)
        with "2.prems"(1) room fresh show ?thesis by simp
      next
        case (Inr found)
        show ?thesis
        proof (cases found)
          case None
          with Inr "2.prems"(1) room fresh have f: "follow node parents limit pending (r # seen) nodes edges True = Inr (left_over, nodes', edges', omitted')"
            by simp
          have "node r = Inr None" using Inr None by simp
          from "2.IH"(2) [OF room fresh Inr None f view_inv_missing [OF "2.prems"(2) fresh lt] named closed] show ?thesis by auto
        next
          case (Some n)
          obtain e2 p2 over where a: "add_parents (r # seen) r (parents r) edges pending = (e2, p2, over)" by (metis prod_cases3)
          from add_parents_result [OF a] have p: "set pending \<subseteq> set p2" by auto
          have f: "follow node parents limit p2 (r # seen) (nodes @ [n]) e2 (omitted \<or> over) = Inr (left_over, nodes', edges', omitted')"
            using "2.prems"(1) room fresh Inr Some a by simp
          have "node r = Inr (Some n)" using Inr Some by simp
          with named have n: "gn_id n = r" by blast
          from "2.IH"(3) [OF room fresh Inr Some a [symmetric] refl refl f view_inv_shown [OF "2.prems"(2) fresh lt n a closed] named closed] p
          show ?thesis by auto
        qed
      qed
    qed
  qed
qed

text \<open>One step of the recorded ancestry inside a workspace.\<close>

definition pinned_parent :: "graph_db \<Rightarrow> string \<Rightarrow> string \<Rightarrow> string \<Rightarrow> bool" where
  "pinned_parent db scope r p \<longleftrightarrow> (\<exists>l \<in> set (g_links db). lk_rev l = r \<and> lk_parent_rev l = p) \<and> in_workspace db scope p"

lemma parent_rows_pinned: "p \<in> set (parent_rows db scope r) \<longleftrightarrow> pinned_parent db scope r p"
  by (auto simp: parent_rows_def pinned_parent_def)

lemma graph_node_id: "graph_node gs scope paths r = Inr (Some n) \<Longrightarrow> gn_id n = r"
  by (auto simp: graph_node_def Let_def make_node_def map_sum_Inr split: option.splits dest!: find_Some_in)

lemma graph_node_scope: "graph_node gs scope paths r = Inr (Some n) \<Longrightarrow> in_workspace (gs_graph gs) scope r"
  by (auto simp: graph_node_def Let_def in_workspace_def list_ex_iff split: option.splits dest!: find_Some_in)

lemma drawn_fields [simp]:
  "sh_nodes (drawn b (l, ns, es, om)) = ns"
  "sh_edges (drawn b (l, ns, es, om)) = filter (\<lambda>(p, r). p \<in> gn_id ` set ns \<and> r \<in> gn_id ` set ns) es"
  "sh_truncated (drawn b (l, ns, es, om)) = (om \<or> l \<noteq> [])"
  by (simp_all add: drawn_def)

lemma snapshot_of_traversal:
  assumes "graph_snapshot gs event workspace limit = Inr s" and "sh_state s = ''recorded''"
  shows "\<exists>selected start result.
    event_by_id (gs_events gs) event = Some selected \<and> (workspace = None \<or> workspace = Some (er_workspace selected)) \<and>
    start_revision (gs_graph gs) (er_workspace selected) (related (gs_events gs) selected) = Some start \<and>
    traverse gs (er_workspace selected) start limit = Inr result \<and>
    s = drawn (panels gs (er_workspace selected) (related (gs_events gs) selected)) result"
proof -
  have none: "sh_state nothing_shown \<noteq> ''recorded''" "\<And>scope evs. sh_state (panels gs scope evs) \<noteq> ''recorded''"
    by (simp_all add: nothing_shown_def panels_def)
  from assms none obtain selected where e: "event_by_id (gs_events gs) event = Some selected"
    by (cases "event_by_id (gs_events gs) event") (auto simp: graph_snapshot_def)
  with assms none have w: "workspace = None \<or> workspace = Some (er_workspace selected)"
    by (auto simp: graph_snapshot_def split: if_splits)
  let ?r = "start_revision (gs_graph gs) (er_workspace selected) (related (gs_events gs) selected)"
  from assms none e w obtain start where r: "?r = Some start"
    by (cases ?r) (auto simp: graph_snapshot_def Let_def)
  with assms(1) e w show ?thesis by (auto simp: graph_snapshot_def Let_def map_sum_Inr)
qed

lemma start_in_workspace: "start_revision db scope evs = Some start \<Longrightarrow> in_workspace db scope start"
  by (auto simp: start_revision_def last_match_def in_workspace_def list_ex_iff split: option.splits dest!: find_Some_in)

lemma traversal_shows:
  assumes t: "traverse gs scope start limit = Inr (left_over, nodes, edges, omitted)"
  defines "reached \<equiv> {r. (pinned_parent (gs_graph gs) scope)\<^sup>*\<^sup>* start r}"
  shows "distinct (map gn_id nodes) \<and> length nodes \<le> limit \<and> length edges \<le> EDGES \<and> gn_id ` set nodes \<subseteq> reached \<and>
    (\<forall>(p, r) \<in> set edges. pinned_parent (gs_graph gs) scope r p) \<and>
    (\<not> omitted \<and> left_over = [] \<longrightarrow> gn_id ` set nodes = reached \<and>
       (\<forall>r \<in> reached. \<forall>p. pinned_parent (gs_graph gs) scope r p \<longrightarrow> (p, r) \<in> set edges))"
proof -
  let ?rows = "parent_rows (gs_graph gs) scope"
  let ?parents = "\<lambda>r. take 401 (?rows r)"
  have closed: "\<forall>r \<in> reached. set (?parents r) \<subseteq> reached"
  proof (intro ballI subsetI)
    fix r p
    assume "r \<in> reached" "p \<in> set (?parents r)"
    then have "(pinned_parent (gs_graph gs) scope)\<^sup>*\<^sup>* start r" "pinned_parent (gs_graph gs) scope r p"
      by (auto simp: reached_def parent_rows_pinned dest: in_set_takeD)
    then show "p \<in> reached" unfolding reached_def by (simp add: rtranclp.rtrancl_into_rtrancl)
  qed
  have init: "view_inv ?parents limit reached [start] [] [] [] False" by (simp add: view_inv_def reached_def)
  have named: "\<forall>r n. graph_node gs scope (protected_paths (gs_graph gs) start) r = Inr (Some n) \<longrightarrow> gn_id n = r"
    using graph_node_id by blast
  from follow_shows [OF t [unfolded traverse_def] init named closed] obtain seen where
    i: "view_inv ?parents limit reached left_over seen nodes edges omitted" and s: "start \<in> set seen \<union> set left_over" by auto
  have whole: "set (?rows r) \<subseteq> set seen \<and> (\<forall>p \<in> set (?rows r). (p, r) \<in> set edges)"
    if "\<not> omitted" "left_over = []" "r \<in> set seen" for r
  proof -
    have p: "\<forall>p \<in> set (?parents r). p \<in> set seen \<and> (p, r) \<in> set edges" using i that by (simp add: view_inv_def)
    have "length (?parents r) \<le> length edges" "length edges \<le> EDGES" using i that by (simp_all add: view_inv_def)
    then have "length (?rows r) \<le> 401" by (simp add: EDGES_def min_def split: if_splits)
    then show ?thesis using p by auto
  qed
  have all: "reached \<subseteq> set seen" if "\<not> omitted" "left_over = []"
  proof
    fix r
    assume "r \<in> reached"
    then have "(pinned_parent (gs_graph gs) scope)\<^sup>*\<^sup>* start r" by (simp add: reached_def)
    then show "r \<in> set seen"
    proof (induction rule: rtranclp_induct)
      case base
      show ?case using s that by simp
    next
      case (step q r)
      with whole [OF that step.IH] parent_rows_pinned show ?case by blast
    qed
  qed
  have complete: "gn_id ` set nodes = reached" if "\<not> omitted" "left_over = []"
    using i all [OF that] that by (auto simp: view_inv_def)
  have edges: "(p, r) \<in> set edges" if "\<not> omitted" "left_over = []" "r \<in> reached" "pinned_parent (gs_graph gs) scope r p" for p r
    using whole [OF that(1,2)] all [OF that(1,2)] that(3,4) parent_rows_pinned by blast
  have real: "\<forall>(p, r) \<in> set edges. pinned_parent (gs_graph gs) scope r p"
    using i parent_rows_pinned by (fastforce simp: view_inv_def dest: in_set_takeD)
  show ?thesis using i complete edges real by (auto simp: view_inv_def)
qed

lemma snapshot_shows:
  assumes "graph_snapshot gs event workspace limit = Inr s" and "sh_state s = ''recorded''"
  shows "\<exists>selected start. event_by_id (gs_events gs) event = Some selected \<and>
    (workspace = None \<or> workspace = Some (er_workspace selected)) \<and>
    start_revision (gs_graph gs) (er_workspace selected) (related (gs_events gs) selected) = Some start \<and>
    in_workspace (gs_graph gs) (er_workspace selected) start \<and>
    (let linked = pinned_parent (gs_graph gs) (er_workspace selected); shown = map gn_id (sh_nodes s) in
      distinct shown \<and> length shown \<le> limit \<and> length (sh_edges s) \<le> EDGES \<and>
      set shown \<subseteq> {r. linked\<^sup>*\<^sup>* start r} \<and>
      set (sh_edges s) \<subseteq> {(p, r). linked r p \<and> p \<in> set shown \<and> r \<in> set shown} \<and>
      (\<not> sh_truncated s \<longrightarrow> set shown = {r. linked\<^sup>*\<^sup>* start r} \<and>
         set (sh_edges s) = {(p, r). linked r p \<and> r \<in> set shown}))"
proof -
  from snapshot_of_traversal [OF assms] obtain selected start result where
    h: "event_by_id (gs_events gs) event = Some selected" "workspace = None \<or> workspace = Some (er_workspace selected)"
      "start_revision (gs_graph gs) (er_workspace selected) (related (gs_events gs) selected) = Some start"
    and t: "traverse gs (er_workspace selected) start limit = Inr result"
    and s: "s = drawn (panels gs (er_workspace selected) (related (gs_events gs) selected)) result" by blast
  obtain left_over nodes edges omitted where res: "result = (left_over, nodes, edges, omitted)" by (metis prod_cases4)
  let ?linked = "pinned_parent (gs_graph gs) (er_workspace selected)"
  let ?shown = "map gn_id nodes"
  let ?R = "{r. ?linked\<^sup>*\<^sup>* start r}"
  from traversal_shows [OF t [unfolded res]] have
    d: "distinct ?shown" "length nodes \<le> limit" "length edges \<le> EDGES" "set ?shown \<subseteq> ?R"
    and e: "\<And>p r. (p, r) \<in> set edges \<Longrightarrow> ?linked r p"
    and c: "\<not> omitted \<and> left_over = [] \<Longrightarrow> set ?shown = ?R"
           "\<And>r p. \<not> omitted \<and> left_over = [] \<Longrightarrow> r \<in> ?R \<Longrightarrow> ?linked r p \<Longrightarrow> (p, r) \<in> set edges"
    by auto
  have n: "sh_nodes s = nodes" "sh_truncated s = (omitted \<or> left_over \<noteq> [])"
    "sh_edges s = filter (\<lambda>(p, r). p \<in> gn_id ` set nodes \<and> r \<in> gn_id ` set nodes) edges"
    by (simp_all add: s res)
  have l: "length (sh_edges s) \<le> EDGES" using d(3) n(3) le_trans length_filter_le by metis
  have sub: "set (sh_edges s) \<subseteq> {(p, r). ?linked r p \<and> p \<in> set ?shown \<and> r \<in> set ?shown}" using e n(3) by auto
  have up: "p \<in> ?R" if "r \<in> ?R" "?linked r p" for r p using that by (simp add: rtranclp.rtrancl_into_rtrancl)
  have whole: "set (sh_edges s) = {(p, r). ?linked r p \<and> r \<in> set ?shown}" if full: "\<not> omitted \<and> left_over = []"
  proof (intro equalityI subsetI)
    fix x assume "x \<in> set (sh_edges s)"
    then show "x \<in> {(p, r). ?linked r p \<and> r \<in> set ?shown}" using sub by auto
  next
    fix x assume "x \<in> {(p, r). ?linked r p \<and> r \<in> set ?shown}"
    then obtain p r where x: "x = (p, r)" "?linked r p" "r \<in> set ?shown" by auto
    then have R: "r \<in> ?R" using c(1) [OF full] by blast
    with c(2) [OF full R x(2)] up [OF R x(2)] c(1) [OF full] x show "x \<in> set (sh_edges s)" unfolding n(3) by auto
  qed
  show ?thesis
    using h start_in_workspace [OF h(3)] d l sub whole c(1) n(1,2) by (intro exI [of _ selected] exI [of _ start]) (simp add: Let_def)
qed

text \<open>C21. The projection of the provenance is true, bounded, and says when it is partial. What is shown as
  recorded starts at the revision that was checked for the ToolCall, in the workspace of the event (and
  only for that workspace, if one is asked for); every node is an ancestor of it within the workspace,
  shown once, and every edge is a pinned link between shown nodes; there are at most limit nodes and
  400 edges. If it is not marked as truncated, the nodes are all those ancestors and the edges all
  their links.\<close>

theorem snapshot_shows_the_ancestry:
  assumes "graph_snapshot gs event workspace limit = Inr s" and "sh_state s = ''recorded''"
  shows "\<exists>selected start. event_by_id (gs_events gs) event = Some selected \<and>
    (workspace = None \<or> workspace = Some (er_workspace selected)) \<and>
    start_revision (gs_graph gs) (er_workspace selected) (related (gs_events gs) selected) = Some start \<and>
    in_workspace (gs_graph gs) (er_workspace selected) start \<and>
    (let linked = pinned_parent (gs_graph gs) (er_workspace selected); shown = map gn_id (sh_nodes s) in
      distinct shown \<and> length shown \<le> limit \<and> length (sh_edges s) \<le> EDGES \<and>
      set shown \<subseteq> {r. linked\<^sup>*\<^sup>* start r} \<and>
      set (sh_edges s) \<subseteq> {(p, r). linked r p \<and> p \<in> set shown \<and> r \<in> set shown} \<and>
      (\<not> sh_truncated s \<longrightarrow> set shown = {r. linked\<^sup>*\<^sup>* start r} \<and>
         set (sh_edges s) = {(p, r). linked r p \<and> r \<in> set shown}))"
  by (rule snapshot_shows [OF assms])

section \<open>Example\<close>

definition view_event :: "string \<Rightarrow> event_row" where
  "view_event name = \<lparr>er_event = name, er_phase = ''pre_tool_use'', er_session = Some ''s'', er_tool_use = Some name, er_tool_name = JStr ''Bash'',
     er_workspace = ''ws'', er_root = ''/w'', er_execution_cwd = None, er_payload = [], er_seq = 1\<rparr>"

definition view_revision :: "string \<Rightarrow> string \<Rightarrow> revision_row" where
  "view_revision rvn ev = \<lparr>rv_rev = rvn, rv_ws = ''ws'', rv_sess = ''s'', rv_node = ev, rv_event = ev, rv_model = ''m'', rv_prompt = ''p'',
     rv_verdict = [(''complete'', JBool True)]\<rparr>"

definition view_tables :: sources where
  "view_tables = \<lparr>gs_events = [view_event ''e1'', view_event ''e2''], gs_times = (\<lambda>e. JNull),
     gs_sem = \<lparr>sem_nodes = [], sem_edges = [], sem_decisions = []\<rparr>, gs_pending = \<lparr>p_rows = [], p_attempts = []\<rparr>, gs_needs = [],
     gs_jobs = [], gs_graph = empty_graph\<lparr>g_revisions := [view_revision ''r1'' ''e1'', view_revision ''r2'' ''e2''],
       g_links := [\<lparr>lk_rev = ''r2'', lk_parent = ''e1'', lk_parent_rev = ''r1''\<rparr>]\<rparr>, gs_files = []\<rparr>"

definition view_of :: "nat \<Rightarrow> shown_graph" where
  "view_of limit = (case graph_snapshot view_tables ''e2'' (Some ''ws'') limit of Inr s \<Rightarrow> s | Inl x \<Rightarrow> nothing_shown)"

lemma view_whole: "map gn_id (sh_nodes (view_of 200)) = [''r2'', ''r1''] \<and> sh_edges (view_of 200) = [(''r1'', ''r2'')] \<and>
    \<not> sh_truncated (view_of 200) \<and> sh_state (view_of 200) = ''recorded'' \<and> isl (graph_snapshot view_tables ''e2'' (Some ''ws'') 200) = False"
  by code_simp

lemma view_partial: "map gn_id (sh_nodes (view_of 1)) = [''r2''] \<and> sh_edges (view_of 1) = [] \<and> sh_truncated (view_of 1)"
  by code_simp

theorem snapshot_shows_the_ancestry_witness:
  "\<exists>start. start_revision (gs_graph view_tables) ''ws'' (related (gs_events view_tables) (view_event ''e2'')) = Some start \<and>
    {r. (pinned_parent (gs_graph view_tables) ''ws'')\<^sup>*\<^sup>* start r} = {''r1'', ''r2''}"
proof -
  have "graph_snapshot view_tables ''e2'' (Some ''ws'') 200 = Inr (view_of 200)"
    using view_whole by (cases "graph_snapshot view_tables ''e2'' (Some ''ws'') 200") (auto simp: view_of_def)
  from snapshot_shows_the_ancestry [OF this] view_whole obtain selected start where
    s: "event_by_id (gs_events view_tables) ''e2'' = Some selected"
       "start_revision (gs_graph view_tables) (er_workspace selected) (related (gs_events view_tables) selected) = Some start"
       "set (map gn_id (sh_nodes (view_of 200))) = {r. (pinned_parent (gs_graph view_tables) (er_workspace selected))\<^sup>*\<^sup>* start r}"
    by (auto simp: Let_def)
  moreover have "selected = view_event ''e2''" using s(1) by (auto simp: view_tables_def event_by_id_def view_event_def)
  moreover have "er_workspace (view_event ''e2'') = ''ws''" by (simp add: view_event_def)
  ultimately show ?thesis using view_whole by (intro exI [of _ start]) auto
qed

end
