(* ===== verification/Setup.thy ===== *)
theory Setup
  imports Runtime Activation
begin

text \<open>
  \<open>app.py\<close>: the operations of the command line that change what the Hook later relies on. \<open>setup\<close>
  asks for consent, creates the journal, registers the workspace, writes the configuration of the
  judge and the marker of the project; \<open>protect\<close> registers files as secret. The texts that are shown
  to the user, the parsing of arguments and the administrative lease around the command (which is
  that of theory Entry) are left out.
\<close>

section \<open>State and environment\<close>

text \<open>\<open>pd_config\<close> is the file \<open>semantic-flow.json\<close>, parsed; the other fields are tables of \<open>events.db\<close>.\<close>

record 'w product =
  pd_world :: 'w
  pd_config :: "json option"
  pd_workspaces :: "workspace_row list"
  pd_sources :: "source_row list"
  pd_boundaries :: boundaries
  pd_events :: "event_row list"
  pd_ledger :: ledger

record 'w setup_env =
  su_journal :: "'w journal_env"
  su_lock :: "'w lock_env"
  su_active :: "'w active_env"
  su_database :: string
  su_exists :: "string \<Rightarrow> 'w \<Rightarrow> bool res \<times> 'w"
  su_prepare :: "'w \<Rightarrow> unit res \<times> 'w"
  su_secure :: "'w \<Rightarrow> unit res \<times> 'w"
  su_columns :: "'w \<Rightarrow> string list res \<times> 'w"
  su_read :: "'w \<Rightarrow> unit res \<times> 'w"
  su_is_link :: "'w \<Rightarrow> bool res \<times> 'w"
  su_temporary :: "'w \<Rightarrow> unit res \<times> 'w"
  su_write :: "'w \<Rightarrow> unit res \<times> 'w"
  su_cleanup :: "'w \<Rightarrow> unit res \<times> 'w"
  su_started :: "'w \<Rightarrow> string res \<times> 'w"
  su_resolve :: "string \<Rightarrow> 'w \<Rightarrow> string res \<times> 'w"
  su_is_file :: "string \<Rightarrow> 'w \<Rightarrow> bool res \<times> 'w"
  su_viewer :: "string \<Rightarrow> 'w \<Rightarrow> json res \<times> 'w"

type_synonym ('w, 'a) setup_act = "('w product, 'a) act"

definition around :: "('w, 'a) act \<Rightarrow> ('w, 'a) setup_act" where
  "around m s = (let (r, w) = m (pd_world s) in (r, s\<lparr>pd_world := w\<rparr>))"

definition su_hash :: "'w setup_env \<Rightarrow> hash" where
  "su_hash e = jn_hash (su_journal e)"

definition begin_tx :: "'w setup_env \<Rightarrow> ('w, unit) setup_act" where
  "begin_tx e = around (jn_begin (su_journal e))"

definition said :: "string \<Rightarrow> dict" where
  "said w = [(''status'', JStr w)]"

section \<open>The configuration of the judge\<close>

definition semantic_config :: "json \<Rightarrow> dict" where
  "semantic_config model = [(''provider'', JStr ''codex_exec''), (''model'', model), (''send_recorded_content'', JBool True),
     (''background_provenance'', JBool True), (''mode'', JStr ''enforce''), (''failure_policy'', JStr ''wait_for_decision'')]"

text \<open>The new contents of the file: a workspace that is configured differently is not overwritten.\<close>

definition configured_value :: "string \<Rightarrow> json \<Rightarrow> json option \<Rightarrow> json res" where
  "configured_value ws model found =
     (case (case found of None \<Rightarrow> JObj [(''workspaces'', JObj [])] | Some v \<Rightarrow> v) of
        JObj whole \<Rightarrow>
          (case fetch whole ''workspaces'' of
             Inl x \<Rightarrow> Inl x
           | Inr (JObj all) \<Rightarrow>
               let existing = dget all ws; config = JObj (semantic_config model)
               in if existing \<noteq> JNull \<and> \<not> py_eq existing config then Inl (ValueError ''existing_judge_configuration_differs'')
                  else Inr (JObj (dict_set ''workspaces'' (JObj (dict_set ws config all)) whole))
           | Inr v \<Rightarrow> Inl (OtherError ''AttributeError''))
      | _ \<Rightarrow> Inl (TypeError ''indices must be integers''))"

definition write_configuration :: "'w setup_env \<Rightarrow> json \<Rightarrow> ('w, unit) setup_act" where
  "write_configuration e v =
     bind (around (su_temporary e)) (\<lambda>u.
       ensure (bind (around (su_write e)) (\<lambda>u. modify (\<lambda>s. s\<lparr>pd_config := Some v\<rparr>))) (around (su_cleanup e)))"

definition save_configuration_locked :: "'w setup_env \<Rightarrow> string \<Rightarrow> json \<Rightarrow> ('w, unit) setup_act" where
  "save_configuration_locked e ws model =
     bind (gets pd_config) (\<lambda>found.
     bind (if found = None then ret False else around (su_is_link e)) (\<lambda>linked.
       if linked then raise (ValueError ''configuration_symlink'')
       else
         bind (if found = None then ret () else around (su_read e)) (\<lambda>u.
         bind (pure (configured_value ws model found)) (write_configuration e))))"

definition save_configuration :: "'w setup_env \<Rightarrow> string \<Rightarrow> json \<Rightarrow> ('w, unit) setup_act" where
  "save_configuration e ws model = session_lock (su_lock e) around around ''configuration'' ''all'' False (save_configuration_locked e ws model)"

definition read_configuration :: "'w setup_env \<Rightarrow> string \<Rightarrow> ('w, dict option) setup_act" where
  "read_configuration e ws = bind (around (su_read e)) (\<lambda>u. bind (gets pd_config) (\<lambda>found. pure (configuration ws found)))"

section \<open>Registering a secret\<close>

datatype operation = Plan | Add | List_Sources

definition source_name :: "'w setup_env \<Rightarrow> string \<Rightarrow> string \<Rightarrow> string" where
  "source_name e ws relative = ''src:'' @ digest (su_hash e) (JArr [JStr ws, JStr relative])"

definition whole_file_row :: "'w setup_env \<Rightarrow> string \<Rightarrow> string \<Rightarrow> source_row" where
  "whole_file_row e ws relative =
     \<lparr>so_source = source_name e ws relative, so_path = relative, so_type = ''file'', so_sensitivity = ''secret'', so_tags = JArr [],
      so_workspace = Some ws, so_key = Some relative, so_selector = JObj [(''kind'', JStr ''whole_file''), (''values'', JArr [])]\<rparr>"

definition list_sources :: "'w setup_env \<Rightarrow> string \<Rightarrow> ('w, dict \<times> nat) setup_act" where
  "list_sources e ws =
     bind (begin_tx e) (\<lambda>u.
     bind (gets pd_sources) (\<lambda>t.
     bind (pure (list_protected_sources t ws)) (\<lambda>srcs.
       ret ([(''sources'', JArr (map (\<lambda>d. JObj [(''id'', dget d ''source_id''), (''path'', dget d ''path''), (''selector'', dget d ''selector'')]) srcs))], 0))))"

definition described_source :: "'w setup_env \<Rightarrow> string \<Rightarrow> string \<Rightarrow> dict" where
  "described_source e root relative =
     [(''workspace'', JStr root), (''path'', JStr relative), (''scope'', JStr ''whole_file''), (''content_read'', JBool False),
      (''source_id'', JStr (source_name e (make_workspace_id (su_hash e) root) relative))]"

definition register_source :: "'w setup_env \<Rightarrow> string \<Rightarrow> string \<Rightarrow> ('w, dict \<times> nat) setup_act" where
  "register_source e root relative =
     (let ws = make_workspace_id (su_hash e) root; row = whole_file_row e ws relative
      in bind (read_configuration e ws) (\<lambda>config.
           if config = None then ret (said ''setup_required'', 1)
           else
             bind (begin_tx e) (\<lambda>u.
             bind (gets pd_sources) (\<lambda>t.
             bind (modify (\<lambda>s. s\<lparr>pd_sources := ins_ignore so_source row t\<rparr>)) (\<lambda>u.
               ret (described_source e root relative @
                 said (if so_source row \<in> so_source ` set t then ''already_registered'' else ''registered''), 0))))))"

definition protect :: "'w setup_env \<Rightarrow> string \<Rightarrow> operation \<Rightarrow> string option \<Rightarrow> ('w, dict \<times> nat) setup_act" where
  "protect e root oper path =
     (if oper = List_Sources then list_sources e (make_workspace_id (su_hash e) root)
      else case path of
          None \<Rightarrow> ret (said ''source_path_required'', 1)
        | Some p \<Rightarrow>
            bind (attempt (bind (around (su_resolve e (path_join root p))) (\<lambda>q. ret (Some q)))
                    (\<lambda>x. if x = OSError ''FileNotFoundError'' then ret None else raise x)) (\<lambda>found.
              case found of
                None \<Rightarrow> ret (said ''source_not_found'', 1)
              | Some q \<Rightarrow>
                  (case relative_to q root of
                     None \<Rightarrow> ret (said ''source_outside_workspace'', 1)
                   | Some relative \<Rightarrow>
                       bind (around (su_is_file e q)) (\<lambda>plain.
                         if \<not> plain then ret (said ''source_must_be_file'', 1)
                         else if oper = Plan then ret (described_source e root relative, 0)
                         else register_source e root relative))))"

section \<open>Setting up\<close>

definition set_boundary :: "'w setup_env \<Rightarrow> string \<Rightarrow> ('w, json) setup_act" where
  "set_boundary e ws =
     bind (begin_tx e) (\<lambda>u.
     bind (modify (\<lambda>s. s\<lparr>pd_boundaries := ins_ignore fst (ws, max_seq (pd_events s)) (pd_boundaries s)\<rparr>)) (\<lambda>u.
     bind (around (su_started e)) (\<lambda>started.
     bind (gets (\<lambda>s. boundary_of (pd_boundaries s) ws)) (\<lambda>after.
       ret (JObj [(''started_at'', JStr started), (''after_sequence'', JInt (int after)), (''history_imported'', JBool False)])))))"

definition protect_all :: "'w setup_env \<Rightarrow> string \<Rightarrow> string list \<Rightarrow> ('w, json list \<times> nat) setup_act" where
  "protect_all e root paths =
     each (\<lambda>p (done, code). bind (protect e root Add (Some p)) (\<lambda>(r, c). ret (done @ [JObj r], max code c))) paths ([], 0)"

definition finish_setup :: "'w setup_env \<Rightarrow> string \<Rightarrow> string list \<Rightarrow> bool \<Rightarrow> dict \<Rightarrow> ('w, dict \<times> nat) setup_act" where
  "finish_setup e root paths no_viewer result =
     bind (set_boundary e (make_workspace_id (su_hash e) root)) (\<lambda>recording.
     bind (protect_all e root paths) (\<lambda>(registrations, code).
     bind (if no_viewer then ret [] else bind (around (su_viewer e root)) (\<lambda>v. ret [(''viewer'', v)])) (\<lambda>viewer.
       ret (result @ [(''recording'', recording), (''registrations'', JArr registrations)] @ viewer, code))))"

definition initialize_database :: "'w setup_env \<Rightarrow> ('w, unit) setup_act" where
  "initialize_database e =
     bind (begin_tx e) (\<lambda>u.
     bind (around (su_columns e)) (\<lambda>columns.
     bind (gets (\<lambda>s. initialize_journal columns (pd_events s) (pd_ledger s))) (\<lambda>r.
     bind (pure r) (\<lambda>lg. modify (\<lambda>s. s\<lparr>pd_ledger := lg\<rparr>)))))"

definition register_root :: "'w setup_env \<Rightarrow> string \<Rightarrow> ('w, workspace) setup_act" where
  "register_root e root =
     bind (gets pd_workspaces) (\<lambda>t.
     bind (around (register_workspace (su_journal e) root t)) (\<lambda>(c, t).
     bind (modify (\<lambda>s. s\<lparr>pd_workspaces := t\<rparr>)) (\<lambda>u. ret c)))"

text \<open>Whether a registration file of the old product would be ignored by a fresh database.\<close>

definition old_registration :: "'w setup_env \<Rightarrow> string \<Rightarrow> ('w, bool) setup_act" where
  "old_registration e root =
     bind (around (su_exists e (su_database e))) (\<lambda>there.
       if there then ret False else around (su_exists e (path_join root ''protected_sources.json'')))"

definition first_setup :: "'w setup_env \<Rightarrow> string \<Rightarrow> json \<Rightarrow> ('w, dict) setup_act" where
  "first_setup e root model =
     bind (around (su_prepare e)) (\<lambda>u.
     bind (initialize_database e) (\<lambda>u.
     bind (register_root e root) (\<lambda>c.
     bind (save_configuration e (case wc_id c of None \<Rightarrow> [] | Some ws \<Rightarrow> ws) model) (\<lambda>u.
     bind (around (save_workspace_activations (su_active e) (su_database e) (Some root))) (\<lambda>u.
     bind (around (su_secure e)) (\<lambda>u.
       ret [(''status'', JStr ''configured_unverified''), (''engine'', JStr ''semantic-flow-v2''), (''workspace_id'', opt_json (wc_id c)),
            (''workspace_root'', JStr root), (''db_path'', JStr (su_database e)), (''judge'', JStr ''codex_exec''), (''model'', model),
            (''failure_policy'', JStr ''wait_for_decision''), (''hook_verified'', JBool False)]))))))"

definition set_up :: "'w setup_env \<Rightarrow> string \<Rightarrow> bool \<Rightarrow> json \<Rightarrow> string list \<Rightarrow> bool \<Rightarrow> ('w, dict \<times> nat) setup_act" where
  "set_up e root accepted model paths no_viewer =
     bind (read_configuration e (make_workspace_id (su_hash e) root)) (\<lambda>existing. case existing of
         Some c \<Rightarrow>
           if model \<noteq> JNull \<and> \<not> py_eq model (dget c ''model'') then ret (said ''judge_configuration_differs'', 1)
           else finish_setup e root paths no_viewer
                  [(''status'', JStr ''already_configured''), (''engine'', JStr ''semantic-flow-v2''), (''workspace_root'', JStr root),
                   (''model'', dget c ''model''), (''hook_verified'', JBool False)]
       | None \<Rightarrow>
           if \<not> accepted then ret (said ''consent_required'', 1)
           else
             bind (old_registration e root) (\<lambda>old.
               if old then ret (said ''legacy_registration_review_required'', 1)
               else bind (first_setup e root model) (finish_setup e root paths no_viewer)))"

section \<open>What a setup changes\<close>

lemma configured_value_reads_back:
  assumes "configured_value ws model found = Inr v"
  shows "configuration ws (Some v) = Inr (Some (semantic_config model)) \<and>
    (\<forall>other. other \<noteq> ws \<longrightarrow> configuration other (Some v) = configuration other found)"
proof -
  let ?old = "case found of None \<Rightarrow> JObj [(''workspaces'', JObj [])] | Some v \<Rightarrow> v"
  from assms obtain whole all where o: "?old = JObj whole" "map_of whole ''workspaces'' = Some (JObj all)"
    and v: "v = JObj (dict_set ''workspaces'' (JObj (dict_set ws (JObj (semantic_config model)) all)) whole)"
    by (auto simp: configured_value_def Let_def fetch_def split: json.splits option.splits if_splits)
  have valid: "valid_config (semantic_config model)" "dict_set ''failure_policy'' (JStr ''wait_for_decision'') (semantic_config model) = semantic_config model"
    by (simp_all add: valid_config_def semantic_config_def dget_or_def)
  have mine: "configuration ws (Some v) = Inr (Some (semantic_config model))"
    using valid by (simp add: configuration_def v py_get_def)
  have others: "configuration other (Some v) = configuration other found" if "other \<noteq> ws" for other
  proof (cases found)
    case None
    then have "whole = [(''workspaces'', JObj [])]" "all = []" using o by auto
    then show ?thesis using None that by (simp add: configuration_def v py_get_def dget_or_def)
  next
    case (Some old)
    then have "old = JObj whole" using o by simp
    then show ?thesis using Some that o(2) by (simp add: configuration_def v py_get_def dget_or_def)
  qed
  show ?thesis using mine others by blast
qed

text \<open>Steps around the configuration keep it.\<close>

abbreviation config_is :: "json option \<Rightarrow> 'w product \<Rightarrow> bool" where
  "config_is c s \<equiv> pd_config s = c"

lemma keeps_around [keeps_rules]: "keeps (config_is c) (around m)"
  by (auto simp: hoare_def around_def split: prod.splits sum.splits)

lemma keeps_other_fields [keeps_rules]:
  "keeps (config_is c) (modify (\<lambda>s. s\<lparr>pd_sources := f s\<rparr>))" "keeps (config_is c) (modify (\<lambda>s. s\<lparr>pd_boundaries := g s\<rparr>))"
  "keeps (config_is c) (modify (\<lambda>s. s\<lparr>pd_ledger := lg\<rparr>))" "keeps (config_is c) (modify (\<lambda>s. s\<lparr>pd_workspaces := ws\<rparr>))"
  by (rule hoare_modify; simp)+

lemma keeps_read_configuration [keeps_rules]: "keeps (config_is c) (read_configuration e ws)"
  unfolding read_configuration_def by (intro keeps_rules)

lemma keeps_protect [keeps_rules]: "keeps (config_is c) (protect e root oper path)"
  unfolding protect_def list_sources_def register_source_def begin_tx_def Let_def by (intro keeps_rules)

lemma keeps_finish_setup [keeps_rules]: "keeps (config_is c) (finish_setup e root paths no_viewer result)"
  unfolding finish_setup_def set_boundary_def protect_all_def begin_tx_def case_prod_beta by (intro keeps_rules)

text \<open>A step that keeps every configuration keeps every property of it.\<close>

lemma keeps_property:
  assumes "\<And>c. keeps (config_is c) m"
  shows "keeps (\<lambda>s. P (pd_config s)) m"
proof (rule hoareI)
  fix s x t
  assume "P (pd_config s)" "m s = (Inr x, t)"
  with keeps_returns [OF assms this(2) refl] show "P (pd_config t)" by simp
next
  fix s x t
  assume "P (pd_config s)" "m s = (Inl x, t)"
  with hoare_raises [OF assms refl this(2)] show "P (pd_config t)" by simp
qed

lemma hoare_ensure:
  assumes "hoare P m (\<lambda>x. R) R" and "keeps R c"
  shows "hoare P (ensure m c) (\<lambda>x. R) R"
proof (rule hoareI)
  fix s x t
  assume p: "P s" and m: "ensure m c s = (Inr x, t)"
  then obtain u where u: "m s = (Inr x, u)" "c u = (Inr (), t)" by (auto simp: ensure_Inr)
  show "R t" by (rule keeps_returns [OF assms(2) u(2) hoare_returns [OF assms(1) p u(1)]])
next
  fix s x t
  assume p: "P s" and m: "ensure m c s = (Inl x, t)"
  obtain r u where r: "m s = (r, u)" by fastforce
  have "R u" using r hoare_returns [OF assms(1) p] hoare_raises [OF assms(1) p] by (cases r) auto
  moreover have "t = snd (c u)" using m r by (auto simp: ensure_def split: prod.splits sum.splits)
  ultimately show "R t" using keepsD [OF assms(2)] by blast
qed

text \<open>Either nothing happened to the configuration, or exactly one workspace was configured.\<close>

definition one_configured :: "json \<Rightarrow> json option \<Rightarrow> json option \<Rightarrow> bool" where
  "one_configured model c c' \<longleftrightarrow> c' = c \<or> (\<exists>ws v. configured_value ws model c = Inr v \<and> c' = Some v)"

abbreviation configured_from :: "json \<Rightarrow> json option \<Rightarrow> 'w product \<Rightarrow> bool" where
  "configured_from model c s \<equiv> one_configured model c (pd_config s)"

lemma before_configuring: "keeps (config_is c) m \<Longrightarrow> hoare (config_is c) m (\<lambda>x. config_is c) (configured_from model c)"
  by (erule hoare_conseq) (simp_all add: one_configured_def)

lemma unconfigured: "keeps (config_is c) m \<Longrightarrow> hoare (config_is c) m (\<lambda>x. configured_from model c) (configured_from model c)"
  by (erule hoare_conseq) (simp_all add: one_configured_def)

lemma write_configures:
  assumes "configured_value ws model c = Inr v"
  shows "hoare (config_is c) (write_configuration e v) (\<lambda>x. configured_from model c) (configured_from model c)"
  unfolding write_configuration_def
proof (rule hoare_bind [OF before_configuring [OF keeps_around]], rule hoare_ensure)
  show "hoare (config_is c) (bind (around (su_write e)) (\<lambda>u. modify (\<lambda>s. s\<lparr>pd_config := Some v\<rparr>)))
      (\<lambda>x. configured_from model c) (configured_from model c)"
    by (rule hoare_bind [OF before_configuring [OF keeps_around]], rule hoare_modify) (use assms in \<open>auto simp: one_configured_def\<close>)
  show "keeps (configured_from model c) (around (su_cleanup e))"
    by (rule keeps_property [OF keeps_around])
qed

lemma save_locked_configures:
  "hoare (config_is c) (save_configuration_locked e ws model) (\<lambda>x. configured_from model c) (configured_from model c)"
proof -
  have body: "hoare (config_is c) (bind (pure (configured_value ws model c)) (write_configuration e))
      (\<lambda>x. configured_from model c) (configured_from model c)"
  proof (cases "configured_value ws model c")
    case (Inl x)
    then show ?thesis by (auto simp: hoare_def bind_def pure_def one_configured_def)
  next
    case (Inr v)
    then have "bind (pure (configured_value ws model c)) (write_configuration e) = write_configuration e v"
      by (auto simp: fun_eq_iff bind_def pure_def)
    with write_configures [OF Inr] show ?thesis by simp
  qed
  have read: "keeps (config_is c) (if c = None then ret () else around (su_read e))"
    and link: "keeps (config_is c) (if c = None then ret False else around (su_is_link e))"
    by (intro keeps_rules)+
  have "hoare (config_is c)
     (bind (if c = None then ret False else around (su_is_link e)) (\<lambda>linked.
       if linked then raise (ValueError ''configuration_symlink'')
       else bind (if c = None then ret () else around (su_read e)) (\<lambda>u.
         bind (pure (configured_value ws model c)) (write_configuration e))))
     (\<lambda>x. configured_from model c) (configured_from model c)"
    by (rule hoare_bind [OF before_configuring [OF link]], rule hoare_if, rule unconfigured [OF keeps_fail],
        rule hoare_bind [OF before_configuring [OF read]], rule body)
  moreover have "save_configuration_locked e ws model s =
     bind (if c = None then ret False else around (su_is_link e)) (\<lambda>linked.
       if linked then raise (ValueError ''configuration_symlink'')
       else bind (if c = None then ret () else around (su_read e)) (\<lambda>u.
         bind (pure (configured_value ws model c)) (write_configuration e))) s" if "config_is c s" for s
    using that by (simp add: save_configuration_locked_def bind_def gets_def)
  ultimately show ?thesis by (simp add: hoare_def)
qed

lemma save_configures: "hoare (config_is c) (save_configuration e ws model) (\<lambda>x. configured_from model c) (configured_from model c)"
proof -
  have a: "\<And>m. keeps (configured_from model c) (around m)" by (rule keeps_property [OF keeps_around])
  show ?thesis
    unfolding save_configuration_def session_lock_def Let_def if_False
    by (rule hoare_bind [OF before_configuring [OF keeps_around]] hoare_ensure save_locked_configures a)+
qed

lemma first_setup_configures:
  "hoare (config_is c) (first_setup e root model) (\<lambda>x. configured_from model c) (configured_from model c)"
proof -
  have i: "keeps (config_is c) (initialize_database e)" "keeps (config_is c) (register_root e root)"
    unfolding initialize_database_def register_root_def begin_tx_def case_prod_beta by (intro keeps_rules)+
  have a: "\<And>m. keeps (configured_from model c) (around m)" by (rule keeps_property [OF keeps_around])
  show ?thesis
    unfolding first_setup_def
    by (rule hoare_bind [OF before_configuring [OF keeps_around]] hoare_bind [OF before_configuring [OF i(1)]]
        hoare_bind [OF before_configuring [OF i(2)]] hoare_bind [OF save_configures] hoare_bind [OF a] keeps_ret)+
qed

lemma set_up_configures:
  "hoare (config_is c) (set_up e root accepted model paths no_viewer)
     (\<lambda>x s. if accepted then configured_from model c s else config_is c s) (\<lambda>s. if accepted then configured_from model c s else config_is c s)"
proof (cases accepted)
  case False
  have "keeps (config_is c) (set_up e root False model paths no_viewer)"
    unfolding set_up_def not_False_eq_True if_True by (intro keeps_rules)
  with False show ?thesis by simp
next
  case True
  have f: "\<And>result. keeps (configured_from model c) (finish_setup e root paths no_viewer result)"
    by (rule keeps_property [OF keeps_finish_setup])
  have o: "keeps (config_is c) (old_registration e root)" unfolding old_registration_def by (intro keeps_rules)
  have "hoare (config_is c) (set_up e root True model paths no_viewer) (\<lambda>x. configured_from model c) (configured_from model c)"
    unfolding set_up_def
    by (rule hoare_bind [OF before_configuring [OF keeps_read_configuration]], rule hoare_option)
       (simp, rule hoare_bind [OF before_configuring [OF o]], rule hoare_if, rule unconfigured [OF keeps_ret],
        rule hoare_bind [OF first_setup_configures f], rule hoare_if, rule unconfigured [OF keeps_ret],
        rule unconfigured [OF keeps_finish_setup])
  with True show ?thesis by simp
qed

text \<open>C19. Setting up asks for consent and configures one workspace. However the operation ends, the
  configuration of the judge is unchanged, or the data transfer was accepted and exactly one workspace
  has a new configuration: it reads back as the complete, enforcing one with the chosen model, and every
  other workspace is configured as before.\<close>

theorem setup_configures_one_workspace:
  "let c = pd_config s; c' = pd_config (snd (set_up e root accepted model paths no_viewer s)) in
   c' = c \<or> (accepted \<and> (\<exists>ws. configuration ws c' = Inr (Some (semantic_config model)) \<and>
     (\<forall>other. other \<noteq> ws \<longrightarrow> configuration other c' = configuration other c)))"
proof -
  let ?s = "snd (set_up e root accepted model paths no_viewer s)"
  have "if accepted then configured_from model (pd_config s) ?s else config_is (pd_config s) ?s"
  proof (cases "set_up e root accepted model paths no_viewer s")
    case (Pair r t)
    have "if accepted then configured_from model (pd_config s) t else config_is (pd_config s) t"
    proof (cases r)
      case (Inl x)
      show ?thesis by (rule hoare_raises [OF set_up_configures refl Pair [unfolded Inl]])
    next
      case (Inr x)
      show ?thesis by (rule hoare_returns [OF set_up_configures refl Pair [unfolded Inr]])
    qed
    then show ?thesis unfolding Pair snd_conv .
  qed
  moreover have "\<exists>ws. configuration ws (Some v) = Inr (Some (semantic_config model)) \<and>
      (\<forall>other. other \<noteq> ws \<longrightarrow> configuration other (Some v) = configuration other (pd_config s))"
    if "configured_value ws model (pd_config s) = Inr v" for ws v
    using configured_value_reads_back [OF that] by blast
  ultimately show ?thesis unfolding one_configured_def Let_def by (metis (no_types, lifting))
qed

section \<open>What is registered can be found again\<close>

lemma norm_comps_ordinary:
  "\<forall>c \<in> set cs. c \<noteq> [] \<and> c \<noteq> ''.'' \<and> c \<noteq> ''..'' \<Longrightarrow> norm_comps rooted acc cs = rev acc @ cs"
  by (induction cs arbitrary: acc) auto

lemma relative_path_is_normal:
  assumes r: "relative_to q root = Some relative" and root: "is_absolute root" and q: "''..'' \<notin> set (pp_comps q)"
  shows "\<not> starts_with ''/'' relative \<and> normpath relative = relative"
proof -
  let ?rest = "drop (length (pp_parts root)) (pp_parts q)"
  have "0 < initial_slashes root" using root initial_slashes_0 by auto
  then have "0 < length (pp_parts root)" by (simp add: pp_parts_def pp_root_def)
  then obtain n where "length (pp_parts root) = Suc n" using gr0_implies_Suc by blast
  then have "set ?rest \<subseteq> set (pp_comps q)"
    by (cases "pp_root q = []") (auto simp: pp_parts_def dest: in_set_dropD)
  with q have plain: "\<forall>c \<in> set ?rest. c \<noteq> [] \<and> c \<noteq> ''.'' \<and> c \<noteq> ''..'' \<and> slash \<notin> set c"
    using pp_comps_plain by blast
  have rel: "relative = (if ?rest = [] then ''.'' else join_with ''/'' ?rest)"
    using r by (auto simp: relative_to_def Let_def split: if_splits)
  show ?thesis
  proof (cases "?rest = []")
    case True
    then have "relative = ''.''" using rel by simp
    then show ?thesis by (simp add: starts_with_def normpath_def initial_slashes_def slash_def)
  next
    case False
    then have j: "relative = join_with ''/'' ?rest" using rel by simp
    obtain c cs where c: "?rest = c # cs" using False by (cases ?rest) auto
    then have "c \<noteq> []" "slash \<notin> set c" using plain by auto
    then obtain x xs where x: "c = x # xs" "x \<noteq> slash" by (cases c) auto
    have head: "\<exists>ys. relative = x # ys" unfolding j c using x by (cases cs) auto
    then have n: "\<not> starts_with ''/'' relative" using x(2) by (auto simp: starts_with_def slash_def)
    have split: "split_on slash relative = ?rest" unfolding j by (rule split_join_comps) (use False plain in auto)
    have "norm_comps False [] ?rest = ?rest" using norm_comps_ordinary [of ?rest False "[]"] plain by simp
    then have "normpath relative = relative"
      using n split head j by (auto simp: normpath_def initial_slashes_def)
    with n show ?thesis by blast
  qed
qed

text \<open>The row as the graph sees it.\<close>

definition bound_row :: "'w setup_env \<Rightarrow> string \<Rightarrow> source_row \<Rightarrow> bool" where
  "bound_row e root row \<longleftrightarrow> (\<exists>relative d. row = whole_file_row e (make_workspace_id (su_hash e) root) relative \<and>
     source_dict row = Inr d \<and> bindable_path d \<and> whole_file_selector d)"

lemma whole_file_bound: "\<not> starts_with ''/'' relative \<and> normpath relative = relative \<Longrightarrow>
    bound_row e root (whole_file_row e (make_workspace_id (su_hash e) root) relative)"
  by (auto simp: bound_row_def whole_file_row_def source_dict_def json_tuple_def bindable_path_def whole_file_selector_def dget_or_def)

definition registered_from :: "'w setup_env \<Rightarrow> string \<Rightarrow> source_row list \<Rightarrow> 'w product \<Rightarrow> bool" where
  "registered_from e root t s \<longleftrightarrow> pd_sources s = t \<or>
     (\<exists>row. pd_sources s = t @ [row] \<and> so_source row \<notin> so_source ` set t \<and> bound_row e root row)"

abbreviation sources_are :: "source_row list \<Rightarrow> 'w product \<Rightarrow> bool" where
  "sources_are t s \<equiv> pd_sources s = t"

lemma around_keeps_sources: "keeps (sources_are t) (around m)"
  by (auto simp: hoare_def around_def split: prod.splits sum.splits)

lemma not_registered: "keeps (sources_are t) m \<Longrightarrow> hoare (sources_are t) m (\<lambda>x. registered_from e root t) (registered_from e root t)"
  by (erule hoare_conseq) (simp_all add: registered_from_def)

lemma before_registering: "keeps (sources_are t) m \<Longrightarrow> hoare (sources_are t) m (\<lambda>x. sources_are t) (registered_from e root t)"
  by (erule hoare_conseq) (simp_all add: registered_from_def)

lemma reading_keeps_sources: "keeps (sources_are t) (read_configuration e ws)"
  unfolding read_configuration_def by (intro keeps_bind around_keeps_sources keeps_gets keeps_pure)

lemma register_source_registers:
  assumes "\<not> starts_with ''/'' relative \<and> normpath relative = relative"
  shows "hoare (sources_are t) (register_source e root relative) (\<lambda>x. registered_from e root t) (registered_from e root t)"
proof -
  let ?row = "whole_file_row e (make_workspace_id (su_hash e) root) relative"
  have put: "hoare (sources_are t) (modify (\<lambda>s. s\<lparr>pd_sources := ins_ignore so_source ?row t\<rparr>)) (\<lambda>x. registered_from e root t) (registered_from e root t)"
    by (rule hoare_modify) (use whole_file_bound [OF assms, of e root] in
      \<open>cases "so_source ?row \<in> so_source ` set t"; auto simp: registered_from_def ins_ignore_present ins_ignore_absent\<close>)
  have "hoare (sources_are t) (bind (modify (\<lambda>s. s\<lparr>pd_sources := ins_ignore so_source ?row t\<rparr>)) (\<lambda>u. ret y))
      (\<lambda>x. registered_from e root t) (registered_from e root t)" for y
    by (rule hoare_bind [OF put], rule keeps_ret)
  then have "hoare (sources_are t) (bind (gets pd_sources) (\<lambda>t. bind (modify (\<lambda>s. s\<lparr>pd_sources := ins_ignore so_source ?row t\<rparr>)) (\<lambda>u. ret (y t))))
      (\<lambda>x. registered_from e root t) (registered_from e root t)" for y
    by (simp add: hoare_def bind_def [of "gets pd_sources"] gets_def)
  note stored = this
  show ?thesis
    unfolding register_source_def Let_def begin_tx_def
    by (rule hoare_bind [OF before_registering [OF reading_keeps_sources]], rule hoare_if, rule not_registered [OF keeps_ret],
        rule hoare_bind [OF before_registering [OF around_keeps_sources]], rule stored)
qed

lemma resolving_is_canonical:
  assumes "\<And>p w q w'. su_resolve e p w = (Inr q, w') \<Longrightarrow> ''..'' \<notin> set (pp_comps q)"
  shows "hoare (sources_are t) (attempt (bind (around (su_resolve e p)) (\<lambda>q. ret (Some q)))
       (\<lambda>x. if x = OSError ''FileNotFoundError'' then ret None else raise x))
     (\<lambda>found s. sources_are t s \<and> (\<forall>q. found = Some q \<longrightarrow> ''..'' \<notin> set (pp_comps q))) (registered_from e root t)"
proof (rule hoare_attempt [where R = "sources_are t"])
  show "hoare (sources_are t) (bind (around (su_resolve e p)) (\<lambda>q. ret (Some q)))
      (\<lambda>found s. sources_are t s \<and> (\<forall>q. found = Some q \<longrightarrow> ''..'' \<notin> set (pp_comps q))) (sources_are t)"
    using assms by (fastforce simp: hoare_def bind_def around_def ret_def split: prod.splits sum.splits)
  show "hoare (sources_are t) (if x = OSError ''FileNotFoundError'' then ret None else raise x)
      (\<lambda>found s. sources_are t s \<and> (\<forall>q. found = Some q \<longrightarrow> ''..'' \<notin> set (pp_comps q))) (registered_from e root t)" for x
    by (auto simp: hoare_def ret_def raise_def registered_from_def)
qed

lemma protect_registers:
  assumes canonical: "\<And>p w q w'. su_resolve e p w = (Inr q, w') \<Longrightarrow> ''..'' \<notin> set (pp_comps q)" and root: "is_absolute root"
  shows "hoare (sources_are t) (protect e root oper path) (\<lambda>x. registered_from e root t) (registered_from e root t)"
proof -
  have listing: "keeps (sources_are t) (list_sources e ws)" for ws
    unfolding list_sources_def begin_tx_def by (intro keeps_bind around_keeps_sources keeps_gets keeps_pure keeps_ret)
  have found: "hoare (\<lambda>s. sources_are t s \<and> (\<forall>q. found = Some q \<longrightarrow> ''..'' \<notin> set (pp_comps q)))
      (case found of
                None \<Rightarrow> ret (said ''source_not_found'', 1)
              | Some q \<Rightarrow>
                  (case relative_to q root of
                     None \<Rightarrow> ret (said ''source_outside_workspace'', 1)
                   | Some relative \<Rightarrow>
                       bind (around (su_is_file e q)) (\<lambda>plain.
                         if \<not> plain then ret (said ''source_must_be_file'', 1)
                         else if oper = Plan then ret (described_source e root relative, 0)
                         else register_source e root relative)))
      (\<lambda>x. registered_from e root t) (registered_from e root t)" for found
  proof (cases "\<forall>q. found = Some q \<longrightarrow> ''..'' \<notin> set (pp_comps q)")
    case False
    then show ?thesis by (auto simp: hoare_def)
  next
    case True
    then have pre: "(\<lambda>s. sources_are t s \<and> (\<forall>q. found = Some q \<longrightarrow> ''..'' \<notin> set (pp_comps q))) = sources_are t" by simp
    show ?thesis unfolding pre
    proof (rule hoare_option, rule not_registered [OF keeps_ret], rule hoare_option, rule not_registered [OF keeps_ret])
      fix q relative
      assume "found = Some q" "relative_to q root = Some relative"
      then have n: "\<not> starts_with ''/'' relative \<and> normpath relative = relative" using relative_path_is_normal root True by blast
      show "hoare (sources_are t) (bind (around (su_is_file e q)) (\<lambda>plain.
                         if \<not> plain then ret (said ''source_must_be_file'', 1)
                         else if oper = Plan then ret (described_source e root relative, 0)
                         else register_source e root relative)) (\<lambda>x. registered_from e root t) (registered_from e root t)"
        by (rule hoare_bind [OF before_registering [OF around_keeps_sources]], rule hoare_if, rule not_registered [OF keeps_ret],
            rule hoare_if, rule not_registered [OF keeps_ret], rule register_source_registers [OF n])
    qed
  qed
  show ?thesis
    unfolding protect_def
    by (rule hoare_if, rule not_registered [OF listing], rule hoare_option, rule not_registered [OF keeps_ret],
        rule hoare_bind [OF resolving_is_canonical [OF canonical] found])
qed

text \<open>C20. Whatever is registered as secret can be bound by the graph. If the resolved name of a file has no
  parent references, as Path.resolve gives it, then however protect ends, the table of registered
  sources is unchanged or has one new row at its end: a whole file of the workspace, under a name not
  used before, whose path is relative and in normal form, as the decision requires of a source it is to
  take into account.\<close>

theorem registered_source_is_bound:
  assumes "\<forall>p w q w'. su_resolve e p w = (Inr q, w') \<longrightarrow> ''..'' \<notin> set (pp_comps q)" and "is_absolute root"
  shows "let t = pd_sources s; t' = pd_sources (snd (protect e root oper path s)) in
    t' = t \<or> (\<exists>relative d. let row = whole_file_row e (make_workspace_id (su_hash e) root) relative in
      t' = t @ [row] \<and> so_source row \<notin> so_source ` set t \<and> source_dict row = Inr d \<and> bindable_path d \<and> whole_file_selector d)"
proof -
  have registers: "hoare (sources_are t) (protect e root oper path) (\<lambda>x. registered_from e root t) (registered_from e root t)" for t
    by (rule protect_registers [OF _ assms(2)]) (use assms(1) in blast)
  have "registered_from e root (pd_sources s) (snd (protect e root oper path s))"
  proof (cases "protect e root oper path s")
    case (Pair r t)
    have "registered_from e root (pd_sources s) t"
    proof (cases r)
      case (Inl x)
      show ?thesis by (rule hoare_raises [OF registers refl Pair [unfolded Inl]])
    next
      case (Inr x)
      show ?thesis by (rule hoare_returns [OF registers refl Pair [unfolded Inr]])
    qed
    then show ?thesis unfolding Pair snd_conv .
  qed
  then show ?thesis unfolding registered_from_def bound_row_def Let_def by blast
qed

section \<open>Example\<close>

definition first_lock :: "unit lock_env" where
  "first_lock = \<lparr>sl_hash = (\<lambda>b. ''k''), sl_clock = (\<lambda>w. (0, w)), sl_wall = (\<lambda>w. (0, w)), sl_sleep = (\<lambda>n w. w), sl_token = (\<lambda>w. (''o'', w)),
     sl_begin = (\<lambda>w. (Inr (), w)), sl_waiters = (\<lambda>w. []), sl_put = (\<lambda>t w. w), sl_directory = (\<lambda>w. (Inr (), w)), sl_open = (\<lambda>n w. (Inr (), w)),
     sl_flock = (\<lambda>n w. (Inr True, w)), sl_unlock = (\<lambda>n w. (Inr (), w)), sl_close = (\<lambda>n w. (Inr (), w))\<rparr>"

definition first_place :: "unit place_env" where
  "first_place = \<lparr>wk_expand = (\<lambda>p w. (Inr p, w)), wk_lstat = (\<lambda>p w. (Inr Mode_Directory, w)), wk_open = (\<lambda>p w. (Inr 3, w)),
     wk_fstat = (\<lambda>fd w. (Inr Mode_Directory, w)), wk_getpath = (\<lambda>fd w. (Inr ''/w'', w)), wk_realpath = (\<lambda>p w. (Inr p, w)), wk_darwin = False\<rparr>"

definition first_active :: "unit active_env" where
  "first_active = \<lparr>av_hash = (\<lambda>b. ''k''), av_place = first_place, av_posix = True, av_getcwd = (\<lambda>w. (Inr ''/w'', w)), av_exists = (\<lambda>p w. (Inr False, w)),
     av_is_link = (\<lambda>p w. (Inr False, w)), av_is_dir = (\<lambda>p w. (Inr True, w)), av_is_file = (\<lambda>p w. (Inr True, w)), av_lstat = (\<lambda>p w. (Inr (True, 10), w)),
     av_json = (\<lambda>p w. (Inr JNull, w)), av_registered = (\<lambda>w. (Inr ([], None), w)), av_mkdir = (\<lambda>p w. (Inr (), w)), av_chmod = (\<lambda>p w. (Inr (), w)),
     av_temporary = (\<lambda>p q w. (Inr ''/t'', w)), av_write = (\<lambda>p q w. (Inr (), w)), av_replace = (\<lambda>p q w. (Inr (), w)), av_sync = (\<lambda>p w. (Inr (), w)),
     av_unlink = (\<lambda>p w. (Inr (), w))\<rparr>"

definition first_env :: "unit setup_env" where
  "first_env = \<lparr>su_journal = \<lparr>jn_place = first_place, jn_hash = (\<lambda>b. ''k''), jn_file = (\<lambda>w. (True, w)), jn_begin = (\<lambda>w. (Inr (), w))\<rparr>,
     su_lock = first_lock, su_active = first_active, su_database = ''/s/events.db'', su_exists = (\<lambda>p w. (Inr False, w)), su_prepare = (\<lambda>w. (Inr (), w)),
     su_secure = (\<lambda>w. (Inr (), w)), su_columns = (\<lambda>w. (Inr [], w)), su_read = (\<lambda>w. (Inr (), w)), su_is_link = (\<lambda>w. (Inr False, w)),
     su_temporary = (\<lambda>w. (Inr (), w)), su_write = (\<lambda>w. (Inr (), w)), su_cleanup = (\<lambda>w. (Inr (), w)), su_started = (\<lambda>w. (Inr ''now'', w)),
     su_resolve = (\<lambda>p w. (Inr ''/w/secret.txt'', w)), su_is_file = (\<lambda>p w. (Inr True, w)), su_viewer = (\<lambda>r w. (Inr JNull, w))\<rparr>"

definition fresh_product :: "unit product" where
  "fresh_product = \<lparr>pd_world = (), pd_config = None, pd_workspaces = [], pd_sources = [], pd_boundaries = [], pd_events = [], pd_ledger = empty_ledger\<rparr>"

definition after_setup :: "unit product" where
  "after_setup = snd (set_up first_env ''/w'' True JNull [''secret.txt''] True fresh_product)"

lemma setup_succeeds: "map_sum id snd (fst (set_up first_env ''/w'' True JNull [''secret.txt''] True fresh_product)) = Inr 0"
  by code_simp

lemma setup_registers: "map so_path (pd_sources after_setup) = [''secret.txt'']"
  by code_simp

lemma setup_writes: "pd_config after_setup \<noteq> None"
  by code_simp

theorem setup_configures_one_workspace_witness:
  "\<exists>ws. configuration ws (pd_config after_setup) = Inr (Some (semantic_config JNull))"
  using setup_configures_one_workspace [of fresh_product first_env "''/w''" True JNull "[''secret.txt'']" True] setup_writes
  unfolding after_setup_def [symmetric] by (auto simp: Let_def fresh_product_def)

definition configured_product :: "unit product" where
  "configured_product = after_setup\<lparr>pd_sources := []\<rparr>"

definition after_protect :: "unit product" where
  "after_protect = snd (protect first_env ''/w'' Add (Some ''secret.txt'') configured_product)"

lemma protect_stores: "length (pd_sources after_protect) = 1"
  by code_simp

theorem registered_source_is_bound_witness:
  "\<exists>relative d. pd_sources after_protect = [whole_file_row first_env (make_workspace_id (su_hash first_env) ''/w'') relative] \<and>
     source_dict (whole_file_row first_env (make_workspace_id (su_hash first_env) ''/w'') relative) = Inr d \<and> bindable_path d"
proof -
  have "''..'' \<notin> set (pp_comps ''/w/secret.txt'')" by code_simp
  then have c: "\<forall>p w q w'. su_resolve first_env p w = (Inr q, w') \<longrightarrow> ''..'' \<notin> set (pp_comps q)"
    by (auto simp: first_env_def)
  have r: "is_absolute ''/w''" by (simp add: is_absolute_def starts_with_def)
  have e: "pd_sources configured_product = []" by (simp add: configured_product_def)
  from registered_source_is_bound [OF c r, where s = configured_product and oper = Add and path = "Some ''secret.txt''"] protect_stores show ?thesis
    unfolding after_protect_def [symmetric] e by (auto simp: Let_def)
qed

end
