(* ===== verification/Paths.thy ===== *)
theory Paths
  imports Workspace Repository
begin

text \<open>
  \<open>paths.py\<close>: where the program keeps its data. An explicit choice comes first, then the verified
  root of an installed plugin, then the environment, and at last the default of the platform. The
  environment variables, the home and the working directory are fixed while a command runs; the
  files that are looked at are functions of their names.
\<close>

record path_env =
  pt_vars :: "(string \<times> string) list"
  pt_platform :: string
  pt_home :: string
  pt_cwd :: string
  pt_expand :: "string \<Rightarrow> string res"
  pt_resolve :: "string \<Rightarrow> string res"
  pt_size :: "string \<Rightarrow> nat res"
  pt_json :: "string \<Rightarrow> json res"

record runtime_paths =
  px_data_dir :: string
  px_db :: string
  px_source :: string

definition nonempty :: "string option \<Rightarrow> string option" where
  "nonempty v = (case v of None \<Rightarrow> None | Some s \<Rightarrow> if strip s = [] then None else Some s)"

definition absolute_path :: "path_env \<Rightarrow> string \<Rightarrow> string res" where
  "absolute_path e v =
     map_sum id (\<lambda>p. normpath (if is_absolute p then p else pt_cwd e @ ''/'' @ p)) (pt_expand e v)"

definition events_in :: "string \<Rightarrow> string \<Rightarrow> runtime_paths" where
  "events_in source d = \<lparr>px_data_dir = d, px_db = path_join d ''events.db'', px_source = source\<rparr>"

text \<open>\<open>resolved_db.parent\<close>.\<close>

definition parent :: "string \<Rightarrow> string" where
  "parent p = (if pp_comps p = [] then pp_str p else pp_str (pp_root p @ join_with ''/'' (butlast (pp_comps p))))"

definition database_at :: "string \<Rightarrow> string \<Rightarrow> runtime_paths" where
  "database_at source p = \<lparr>px_data_dir = parent p, px_db = p, px_source = source\<rparr>"

section \<open>The store of an installed plugin\<close>

definition safe_codex_plugin_segment :: "string \<Rightarrow> bool" where
  "safe_codex_plugin_segment s \<longleftrightarrow> s \<noteq> [] \<and> s \<noteq> ''.'' \<and> s \<noteq> ''..'' \<and> list_all (\<lambda>c. alnum c \<or> c \<in> set ''-_.+'') s"

definition not_verified :: "exn \<Rightarrow> exn" where
  "not_verified x = (if expand_error x then ValueError ''installed Codex Plugin root could not be verified'' else x)"

definition bad_manifest :: "exn \<Rightarrow> exn" where
  "bad_manifest x = (if path_error x then ValueError ''installed Codex Plugin manifest could not be verified'' else x)"

definition or_else :: "(exn \<Rightarrow> exn) \<Rightarrow> 'a res \<Rightarrow> 'a res" where
  "or_else f r = (case r of Inl x \<Rightarrow> Inl (f x) | Inr y \<Rightarrow> Inr y)"

definition rbind :: "'a res \<Rightarrow> ('a \<Rightarrow> 'b res) \<Rightarrow> 'b res" where
  "rbind r f = (case r of Inl x \<Rightarrow> Inl x | Inr y \<Rightarrow> f y)"

text \<open>The canonical home, the canonical root, and the parts of the root below the plugin cache.\<close>

definition plugin_place :: "path_env \<Rightarrow> string \<Rightarrow> string \<Rightarrow> (string \<times> string \<times> string list) res" where
  "plugin_place e codex_home root =
     rbind (pt_resolve e codex_home) (\<lambda>home.
     rbind (absolute_path e root) (\<lambda>root.
     rbind (pt_resolve e root) (\<lambda>root.
     rbind (pt_resolve e (path_join (path_join home ''plugins'') ''cache'')) (\<lambda>cache.
       if prefix (pp_parts cache) (pp_parts root) then Inr (home, root, drop (length (pp_parts cache)) (pp_parts root))
       else Inl (ValueError ''is not in the subpath'')))))"

definition manifest_at :: "path_env \<Rightarrow> string \<Rightarrow> json res" where
  "manifest_at e root =
     (let p = path_join (path_join root ''.codex-plugin'') ''plugin.json''
      in rbind (pt_size e p) (\<lambda>n. if 65536 < n then Inl (ValueError []) else pt_json e p))"

definition plugin_data_paths :: "path_env \<Rightarrow> string \<Rightarrow> string \<Rightarrow> string list \<Rightarrow> runtime_paths res" where
  "plugin_data_paths e home root parts =
     (case parts of
         [market, name, version] \<Rightarrow>
           if \<not> (safe_codex_plugin_segment market \<and> safe_codex_plugin_segment name \<and> safe_codex_plugin_segment version)
           then Inl (ValueError ''installed Codex Plugin identity is invalid'')
           else
             rbind (or_else bad_manifest (manifest_at e root)) (\<lambda>manifest.
               case manifest of
                 JObj m \<Rightarrow>
                   if dget m ''name'' \<noteq> JStr name then Inl (ValueError ''installed Codex Plugin identity does not match its manifest'')
                   else Inr (events_in ''codex_plugin_store''
                     (path_join (path_join (path_join home ''plugins'') ''data'') (name @ ''-'' @ market)))
               | _ \<Rightarrow> Inl (ValueError ''installed Codex Plugin identity does not match its manifest''))
       | _ \<Rightarrow> Inl (ValueError ''installed Codex Plugin root has an unsupported layout''))"

definition resolve_codex_plugin_runtime_paths :: "path_env \<Rightarrow> string \<Rightarrow> runtime_paths res" where
  "resolve_codex_plugin_runtime_paths e plugin_root =
     rbind (absolute_path e (case nonempty (map_of (pt_vars e) ''CODEX_HOME'') of None \<Rightarrow> path_join (pt_home e) ''.codex'' | Some h \<Rightarrow> h)) (\<lambda>codex_home.
     rbind (or_else not_verified (plugin_place e codex_home plugin_root)) (\<lambda>(home, root, parts). plugin_data_paths e home root parts))"

section \<open>The choice\<close>

definition default_user_data_dir :: "path_env \<Rightarrow> string res" where
  "default_user_data_dir e =
     (let from = (\<lambda>name alt. case nonempty (map_of (pt_vars e) name) of None \<Rightarrow> Inr alt | Some p \<Rightarrow> absolute_path e p)
      in if pt_platform e = ''darwin''
         then Inr (path_join (path_join (path_join (pt_home e) ''Library'') ''Application Support'') ''ToolUseProxy'')
         else if starts_with ''win'' (pt_platform e)
         then map_sum id (\<lambda>b. path_join b ''ToolUseProxy'') (from ''LOCALAPPDATA'' (path_join (path_join (pt_home e) ''AppData'') ''Local''))
         else map_sum id (\<lambda>b. path_join b ''tooluseproxy'') (from ''XDG_STATE_HOME'' (path_join (path_join (pt_home e) ''.local'') ''state'')))"

fun configured_dir :: "path_env \<Rightarrow> (string \<times> string) list \<Rightarrow> runtime_paths res" where
  "configured_dir e [] = map_sum id (events_in ''platform_default'') (default_user_data_dir e)"
| "configured_dir e ((variable, source) # others) =
     (case nonempty (map_of (pt_vars e) variable) of
        Some d \<Rightarrow> map_sum id (events_in source) (absolute_path e d)
      | None \<Rightarrow> configured_dir e others)"

definition resolve_runtime_paths :: "path_env \<Rightarrow> string option \<Rightarrow> string option \<Rightarrow> runtime_paths res" where
  "resolve_runtime_paths e db_path data_dir =
     (case (db_path, data_dir) of
        (Some p, Some d) \<Rightarrow> Inl (ValueError ''--db and --data-dir cannot be used together'')
      | (Some p, None) \<Rightarrow> map_sum id (database_at ''explicit_db'') (absolute_path e p)
      | (None, Some d) \<Rightarrow> map_sum id (events_in ''explicit_data_dir'') (absolute_path e d)
      | (None, None) \<Rightarrow>
          (case nonempty (map_of (pt_vars e) ''TOOLUSEPROXY_CODEX_PLUGIN_ROOT'') of
             Some root \<Rightarrow> resolve_codex_plugin_runtime_paths e root
           | None \<Rightarrow>
               (case nonempty (map_of (pt_vars e) ''TOOLUSEPROXY_DB_PATH'') of
                  Some p \<Rightarrow> map_sum id (database_at ''environment_db'') (absolute_path e p)
                | None \<Rightarrow> configured_dir e [(''TOOLUSEPROXY_DATA_DIR'', ''environment_data_dir''), (''PLUGIN_DATA'', ''plugin_data'')])))"

text \<open>The directory is private from the start if it is new, and the database always.\<close>

record 'w data_env =
  da_posix :: bool
  da_exists :: "string \<Rightarrow> 'w \<Rightarrow> bool res \<times> 'w"
  da_mkdir :: "string \<Rightarrow> 'w \<Rightarrow> unit res \<times> 'w"
  da_chmod :: "string \<Rightarrow> nat \<Rightarrow> 'w \<Rightarrow> unit res \<times> 'w"

definition prepare_data_directory :: "'w data_env \<Rightarrow> runtime_paths \<Rightarrow> ('w, unit) act" where
  "prepare_data_directory e paths =
     bind (da_exists e (px_data_dir paths)) (\<lambda>existed.
     bind (da_mkdir e (px_data_dir paths)) (\<lambda>u.
       if da_posix e \<and> \<not> existed then da_chmod e (px_data_dir paths) 448 else ret ()))"

definition secure_database_permissions :: "'w data_env \<Rightarrow> string \<Rightarrow> ('w, unit) act" where
  "secure_database_permissions e db =
     (if da_posix e then bind (da_exists e db) (\<lambda>there. if there then da_chmod e db 384 else ret ()) else ret ())"

section \<open>An installed plugin keeps its data in its own place\<close>

lemma pp_comps_join:
  assumes "plain_comp q"
  shows "pp_comps (path_join p q) = pp_comps p @ [q]"
proof -
  have q: "q \<noteq> []" "q \<noteq> ''.''" "slash \<notin> set q" using assms by (simp_all add: plain_comp_def)
  then have "\<not> is_absolute q" by (cases q) (auto simp: is_absolute_def starts_with_def slash_def)
  moreover have "pp_comps (p @ slash # q) = pp_comps p @ [q]" using q by (simp add: pp_comps_def split_on_append split_on_plain)
  ultimately show ?thesis by (simp add: path_join_def pp_comps_str slash_def)
qed

lemma rbind_Inr: "rbind r f = Inr y \<longleftrightarrow> (\<exists>x. r = Inr x \<and> f x = Inr y)"
  by (cases r) (auto simp: rbind_def)

lemma or_else_Inr: "or_else f r = Inr y \<longleftrightarrow> r = Inr y"
  by (cases r) (auto simp: or_else_def)

lemma safe_segment_no_slash: "safe_codex_plugin_segment s \<Longrightarrow> slash \<notin> set s"
  by (auto simp: safe_codex_plugin_segment_def list_all_iff alnum_def slash_def)

lemma data_name_plain:
  assumes "safe_codex_plugin_segment name" and "safe_codex_plugin_segment market"
  shows "plain_comp (name @ ''-'' @ market)"
  using assms safe_segment_no_slash [OF assms(1)] safe_segment_no_slash [OF assms(2)]
  by (cases name) (auto simp: plain_comp_def safe_codex_plugin_segment_def slash_def)

lemma plugin_paths:
  assumes "resolve_codex_plugin_runtime_paths e plugin_root = Inr paths"
  shows "\<exists>codex_home home cache given root market name version m.
    pt_resolve e codex_home = Inr home \<and> pt_resolve e (path_join (path_join home ''plugins'') ''cache'') = Inr cache \<and>
    absolute_path e plugin_root = Inr given \<and> pt_resolve e given = Inr root \<and>
    pp_parts root = pp_parts cache @ [market, name, version] \<and>
    manifest_at e root = Inr (JObj m) \<and> dget m ''name'' = JStr name \<and>
    pp_comps (px_data_dir paths) = pp_comps home @ [''plugins'', ''data'', name @ ''-'' @ market] \<and>
    px_db paths = path_join (px_data_dir paths) ''events.db''"
proof -
  from assms obtain codex_home home root parts where
    p: "plugin_place e codex_home plugin_root = Inr (home, root, parts)" and
    c: "plugin_data_paths e home root parts = Inr paths"
    by (auto simp: resolve_codex_plugin_runtime_paths_def rbind_Inr or_else_Inr)
  from p obtain given cache where
    r: "pt_resolve e codex_home = Inr home" "absolute_path e plugin_root = Inr given" "pt_resolve e given = Inr root"
      "pt_resolve e (path_join (path_join home ''plugins'') ''cache'') = Inr cache" "prefix (pp_parts cache) (pp_parts root)"
      "parts = drop (length (pp_parts cache)) (pp_parts root)"
    by (auto simp: plugin_place_def rbind_Inr split: if_splits)
  from c obtain market name version where parts: "parts = [market, name, version]" by (auto simp: plugin_data_paths_def split: list.splits)
  with c obtain manifest where
    s: "safe_codex_plugin_segment market" "safe_codex_plugin_segment name" and m: "manifest_at e root = Inr manifest" and
    k: "(case manifest of
                 JObj m \<Rightarrow>
                   if dget m ''name'' \<noteq> JStr name then Inl (ValueError ''installed Codex Plugin identity does not match its manifest'')
                   else Inr (events_in ''codex_plugin_store''
                     (path_join (path_join (path_join home ''plugins'') ''data'') (name @ ''-'' @ market)))
               | _ \<Rightarrow> Inl (ValueError ''installed Codex Plugin identity does not match its manifest'')) = Inr paths"
    by (auto simp: plugin_data_paths_def rbind_Inr or_else_Inr split: if_splits)
  from k obtain d where d: "manifest = JObj d" "dget d ''name'' = JStr name" and
    o': "paths = events_in ''codex_plugin_store'' (path_join (path_join (path_join home ''plugins'') ''data'') (name @ ''-'' @ market))"
    by (cases manifest) (auto split: if_splits)
  have m: "manifest_at e root = Inr (JObj d)" using m d(1) by simp
  have "pp_parts root = pp_parts cache @ [market, name, version]" using r(5,6) parts by (auto elim!: prefixE)
  moreover have "pp_comps (px_data_dir paths) = pp_comps home @ [''plugins'', ''data'', name @ ''-'' @ market]"
    using data_name_plain [OF s(2,1)] by (simp add: o' events_in_def pp_comps_join plain_comp_def slash_def)
  moreover have "px_db paths = path_join (px_data_dir paths) ''events.db''" by (simp add: o' events_in_def)
  ultimately show ?thesis using r(1-4) m d(2) by blast
qed

text \<open>An installed plugin keeps its data in its own place of the store. If the paths of a plugin are
  resolved, then its root lies exactly three parts below the cache of the canonical home, the manifest
  there carries the name of the plugin, and the data directory is the single component made of plugin
  and marketplace below plugins/data of the same home, with the database in it.\<close>

theorem plugin_data_stays_in_the_store:
  assumes "resolve_codex_plugin_runtime_paths e plugin_root = Inr paths"
  shows "\<exists>codex_home home cache given root market name version m.
    pt_resolve e codex_home = Inr home \<and> pt_resolve e (path_join (path_join home ''plugins'') ''cache'') = Inr cache \<and>
    absolute_path e plugin_root = Inr given \<and> pt_resolve e given = Inr root \<and>
    pp_parts root = pp_parts cache @ [market, name, version] \<and>
    manifest_at e root = Inr (JObj m) \<and> dget m ''name'' = JStr name \<and>
    pp_comps (px_data_dir paths) = pp_comps home @ [''plugins'', ''data'', name @ ''-'' @ market] \<and>
    px_db paths = path_join (px_data_dir paths) ''events.db''"
  by (rule plugin_paths [OF assms])

definition sample_paths :: path_env where
  "sample_paths = \<lparr>pt_vars = [(''TOOLUSEPROXY_CODEX_PLUGIN_ROOT'', ''/h/.codex/plugins/cache/m/tool/1.0'')], pt_platform = ''darwin'', pt_home = ''/h'',
     pt_cwd = ''/w'', pt_expand = Inr, pt_resolve = Inr, pt_size = (\<lambda>p. Inr 100), pt_json = (\<lambda>p. Inr (JObj [(''name'', JStr ''tool'')]))\<rparr>"

definition sample_runtime_paths :: runtime_paths where
  "sample_runtime_paths = events_in ''codex_plugin_store'' ''/h/.codex/plugins/data/tool-m''"

lemma sample_resolves: "resolve_runtime_paths sample_paths None None = Inr sample_runtime_paths"
  by code_simp

lemma sample_plugin_resolves:
  "resolve_codex_plugin_runtime_paths sample_paths ''/h/.codex/plugins/cache/m/tool/1.0'' = Inr sample_runtime_paths"
  by code_simp

theorem plugin_data_stays_in_the_store_witness:
  "\<exists>home market name. pp_comps (px_data_dir sample_runtime_paths) = pp_comps home @ [''plugins'', ''data'', name @ ''-'' @ market] \<and>
     px_db sample_runtime_paths = path_join (px_data_dir sample_runtime_paths) ''events.db''"
  using plugin_data_stays_in_the_store [OF sample_plugin_resolves] by blast

end
